(* ===== verification/Cat_Prelude.thy ===== *)
theory Cat_Prelude
  imports Complex_Main "HOL-Library.Word" "HOL-Library.Sublist"
begin

text \<open>
  Prelude of the development: the names of the machine types, the result monad the fallible
  functions of the crate return into, ASCII classification of characters, and the generic lemmas on
  splitting and joining lists that several components share.

  Rust strings are modelled by their UTF-8 bytes, as \<^typ>\<open>string\<close> (a list of 8-bit characters), so
  \<open>len()\<close> is \<^const>\<open>length\<close>; byte vectors are lists of \<open>8 word\<close>.
\<close>

named_theorems ascii_defs \<open>definitions of the ASCII classes\<close>
named_theorems result_simps \<open>rewrite rules of the result monad\<close>

type_synonym byte = "8 word"
type_synonym bytes = "8 word list"
type_synonym u32 = "32 word"
type_synonym u64 = "64 word"
type_synonym u128 = "128 word"

section \<open>Results\<close>

text \<open>\<open>Result<T, E>\<close> is \<open>'e + 'a\<close> with the error on the left; \<open>rbind\<close> is the \<open>?\<close> operator.\<close>

definition rbind :: "'e + 'a \<Rightarrow> ('a \<Rightarrow> 'e + 'b) \<Rightarrow> 'e + 'b" where
  "rbind m k = (case m of Inl e \<Rightarrow> Inl e | Inr a \<Rightarrow> k a)"

definition ok_or :: "'a option \<Rightarrow> 'e \<Rightarrow> 'e + 'a" where
  "ok_or m e = (case m of None \<Rightarrow> Inl e | Some a \<Rightarrow> Inr a)"

definition is_ok :: "'e + 'a \<Rightarrow> bool" where
  "is_ok m = (case m of Inl _ \<Rightarrow> False | Inr _ \<Rightarrow> True)"

lemma rbind_Inl [simp, result_simps]: "rbind (Inl e) k = Inl e"
  by (simp add: rbind_def)

lemma rbind_Inr [simp, result_simps]: "rbind (Inr a) k = k a"
  by (simp add: rbind_def)

lemma rbind_eq_Inr [simp, result_simps]: "rbind m k = Inr b \<longleftrightarrow> (\<exists>a. m = Inr a \<and> k a = Inr b)"
  by (cases m) auto

lemma rbind_eq_Inl [result_simps]:
  "rbind m k = Inl e \<longleftrightarrow> m = Inl e \<or> (\<exists>a. m = Inr a \<and> k a = Inl e)"
  by (cases m) auto

lemma rbind_assoc: "rbind (rbind m f) g = rbind m (\<lambda>x. rbind (f x) g)"
  by (cases m) auto

lemma ok_or_eq_Inr [simp, result_simps]: "ok_or m e = Inr a \<longleftrightarrow> m = Some a"
  by (cases m) (auto simp: ok_or_def)

lemma ok_or_eq_Inl [simp, result_simps]: "ok_or m e = Inl e' \<longleftrightarrow> m = None \<and> e' = e"
  by (cases m) (auto simp: ok_or_def)

lemma ok_or_simps [simp]: "ok_or None e = Inl e" "ok_or (Some a) e = Inr a"
  by (simp_all add: ok_or_def)

lemma is_ok_simps [simp]: "\<not> is_ok (Inl e)" "is_ok (Inr a)"
  by (simp_all add: is_ok_def)

lemma is_ok_iff: "is_ok m \<longleftrightarrow> (\<exists>a. m = Inr a)"
  by (cases m) auto

text \<open>A loop \<open>for x in xs { f(x)?; }\<close> that stops at the first error.\<close>

fun for_each :: "('a \<Rightarrow> 'e + unit) \<Rightarrow> 'a list \<Rightarrow> 'e + unit" where
  "for_each f [] = Inr ()"
| "for_each f (x # xs) = (case f x of Inl e \<Rightarrow> Inl e | Inr _ \<Rightarrow> for_each f xs)"

lemma for_each_ok [simp, result_simps]:
  "for_each f xs = Inr u \<longleftrightarrow> (\<forall>x \<in> set xs. f x = Inr ())"
  by (induction xs) (auto split: sum.splits)

text \<open>A loop that collects \<open>f(x)?\<close> for every \<open>x\<close>.\<close>

fun map_r :: "('a \<Rightarrow> 'e + 'b) \<Rightarrow> 'a list \<Rightarrow> 'e + 'b list" where
  "map_r f [] = Inr []"
| "map_r f (x # xs) =
     (case f x of Inl e \<Rightarrow> Inl e
      | Inr y \<Rightarrow> (case map_r f xs of Inl e \<Rightarrow> Inl e | Inr ys \<Rightarrow> Inr (y # ys)))"

lemma map_r_Cons_eq_Inr:
  "map_r f (x # xs) = Inr ys \<longleftrightarrow> (\<exists>z zs. ys = z # zs \<and> f x = Inr z \<and> map_r f xs = Inr zs)"
  by (cases "f x"; cases "map_r f xs") auto

lemma map_r_eq_Inr [result_simps]:
  "map_r f xs = Inr ys \<longleftrightarrow> list_all2 (\<lambda>x y. f x = Inr y) xs ys"
proof (induction xs arbitrary: ys)
  case Nil
  then show ?case by (cases ys) auto
next
  case (Cons x xs)
  show ?case
    unfolding map_r_Cons_eq_Inr list_all2_Cons1 Cons.IH by blast
qed

lemma map_r_inverse: "(\<And>x. x \<in> set xs \<Longrightarrow> dec (enc x) = Inr x) \<Longrightarrow> map_r dec (map enc xs) = Inr xs"
  by (induction xs) auto

section \<open>Computations that may not return\<close>

text \<open>\<open>None\<close> stands for no value: the fuel of the model ran out, or the code panics.\<close>

definition obind :: "('e + 'a) option \<Rightarrow> ('a \<Rightarrow> ('e + 'b) option) \<Rightarrow> ('e + 'b) option" where
  "obind m k = (case m of None \<Rightarrow> None | Some (Inl e) \<Rightarrow> Some (Inl e) | Some (Inr a) \<Rightarrow> k a)"

text \<open>The fuel was enough.\<close>

definition ended :: "'a option \<Rightarrow> bool" where "ended m \<longleftrightarrow> m \<noteq> None"

lemma obind_simps [simp]:
  "obind (Some (Inl e)) k = Some (Inl e)" "obind (Some (Inr a)) k = k a" "obind None k = None"
  by (simp_all add: obind_def)

lemma obind_eq_Inr: "obind m k = Some (Inr b) \<longleftrightarrow> (\<exists>a. m = Some (Inr a) \<and> k a = Some (Inr b))"
  by (auto simp: obind_def split: option.splits sum.splits)

lemma obind_total [intro]:
  "ended m \<Longrightarrow> (\<And>a. m = Some (Inr a) \<Longrightarrow> ended (k a)) \<Longrightarrow> ended (obind m k)"
  by (auto simp: ended_def obind_def split: option.splits sum.splits)

lemma ended_Some [simp]: "ended (Some x)"
  by (simp add: ended_def)

text \<open>More fuel gives the same answer.\<close>

definition agrees :: "'a option \<Rightarrow> 'a option \<Rightarrow> bool" where "agrees m m' \<longleftrightarrow> (ended m \<longrightarrow> m' = m)"

lemma agrees_refl [simp, intro]: "agrees m m"
  by (simp add: agrees_def)

lemma agrees_None [simp]: "agrees None m"
  by (simp add: agrees_def ended_def)

lemma agrees_obind [intro]:
  "agrees m m' \<Longrightarrow> (\<And>a. agrees (k a) (k' a)) \<Longrightarrow> agrees (obind m k) (obind m' k')"
  by (auto simp: agrees_def ended_def obind_def split: option.splits sum.splits)

section \<open>64-bit signed arithmetic\<close>

text \<open>\<open>i64\<close> values are integers; the checked operations of the standard library return \<open>None\<close>
  outside the range.\<close>

definition i64_min :: int where "i64_min = - (2 ^ 63)"
definition i64_max :: int where "i64_max = 2 ^ 63 - 1"

definition in_i64 :: "int \<Rightarrow> bool" where
  "in_i64 n \<longleftrightarrow> i64_min \<le> n \<and> n \<le> i64_max"

definition checked_i64 :: "int \<Rightarrow> int option" where
  "checked_i64 n = (if in_i64 n then Some n else None)"

definition saturating_i64 :: "int \<Rightarrow> int" where
  "saturating_i64 n = max i64_min (min i64_max n)"

lemma checked_i64_Some [simp]: "checked_i64 n = Some m \<longleftrightarrow> m = n \<and> in_i64 n"
  by (auto simp: checked_i64_def)

lemma checked_i64_None [simp]: "checked_i64 n = None \<longleftrightarrow> \<not> in_i64 n"
  by (simp add: checked_i64_def)

section \<open>ASCII\<close>

abbreviation ord_of :: "char \<Rightarrow> nat" where
  "ord_of c \<equiv> of_char c"

definition is_ascii_char :: "char \<Rightarrow> bool" where
  [ascii_defs]: "is_ascii_char c \<longleftrightarrow> ord_of c < 128"

definition is_ascii_upper :: "char \<Rightarrow> bool" where
  [ascii_defs]: "is_ascii_upper c \<longleftrightarrow> 65 \<le> ord_of c \<and> ord_of c \<le> 90"

definition is_ascii_lower :: "char \<Rightarrow> bool" where
  [ascii_defs]: "is_ascii_lower c \<longleftrightarrow> 97 \<le> ord_of c \<and> ord_of c \<le> 122"

definition is_ascii_digit :: "char \<Rightarrow> bool" where
  [ascii_defs]: "is_ascii_digit c \<longleftrightarrow> 48 \<le> ord_of c \<and> ord_of c \<le> 57"

definition is_ascii_alnum :: "char \<Rightarrow> bool" where
  [ascii_defs]: "is_ascii_alnum c \<longleftrightarrow> is_ascii_upper c \<or> is_ascii_lower c \<or> is_ascii_digit c"

definition ascii_lower :: "char \<Rightarrow> char" where
  "ascii_lower c = (if is_ascii_upper c then char_of (ord_of c + 32) else c)"

definition eq_ignore_ascii_case :: "string \<Rightarrow> string \<Rightarrow> bool" where
  "eq_ignore_ascii_case s t \<longleftrightarrow> map ascii_lower s = map ascii_lower t"

lemma ascii_lower_idem [simp]: "ascii_lower (ascii_lower c) = ascii_lower c"
  by (auto simp: ascii_lower_def is_ascii_upper_def)

lemma ascii_lower_ascii: "is_ascii_char c \<Longrightarrow> is_ascii_char (ascii_lower c)"
  by (auto simp: ascii_lower_def ascii_defs)

lemma map_ascii_lower_idem [simp]: "map (ascii_lower \<circ> ascii_lower) s = map ascii_lower s"
  by (simp add: fun_eq_iff)

section \<open>Splitting and joining\<close>

text \<open>\<open>str::split(sep)\<close> yields at least one piece; \<open>[..].join(sep)\<close> is its inverse.\<close>

fun split_on :: "'a \<Rightarrow> 'a list \<Rightarrow> 'a list list" where
  "split_on a [] = [[]]"
| "split_on a (x # xs) =
     (if x = a then [] # split_on a xs
      else (case split_on a xs of [] \<Rightarrow> [[x]] | y # ys \<Rightarrow> (x # y) # ys))"

fun join_with :: "'a list \<Rightarrow> 'a list list \<Rightarrow> 'a list" where
  "join_with s [] = []"
| "join_with s [x] = x"
| "join_with s (x # y # ys) = x @ s @ join_with s (y # ys)"

lemma split_on_nonempty [simp]: "split_on a xs \<noteq> []"
  by (induction xs) (auto split: list.splits)

lemma split_on_no_sep: "a \<notin> set xs \<Longrightarrow> split_on a xs = [xs]"
  by (induction xs) auto

lemma split_on_append: "a \<notin> set xs \<Longrightarrow> split_on a (xs @ a # ys) = xs # split_on a ys"
  by (induction xs) auto

lemma join_with_Cons: "xs \<noteq> [] \<Longrightarrow> join_with s (x # xs) = x @ s @ join_with s xs"
  by (cases xs) auto

lemma split_on_join:
  "xs \<noteq> [] \<Longrightarrow> (\<And>x. x \<in> set xs \<Longrightarrow> a \<notin> set x) \<Longrightarrow> split_on a (join_with [a] xs) = xs"
proof (induction xs rule: induct_list012)
  case 1
  then show ?case by simp
next
  case (2 x)
  then show ?case by (simp add: split_on_no_sep)
next
  case (3 x y ys)
  then show ?case by (simp add: split_on_append)
qed

lemma join_split_on: "join_with [a] (split_on a xs) = xs"
proof (induction xs)
  case Nil
  then show ?case by simp
next
  case (Cons x xs)
  then show ?case
  proof (cases "split_on a xs")
    case Nil
    then show ?thesis by simp
  next
    case (Cons y ys)
    with \<open>join_with [a] (split_on a xs) = xs\<close> show ?thesis
      by (cases ys) (auto simp: join_with_Cons)
  qed
qed

lemma split_on_pieces: "p \<in> set (split_on a xs) \<Longrightarrow> a \<notin> set p"
proof (induction xs arbitrary: p)
  case Nil
  then show ?case by simp
next
  case (Cons x xs)
  then show ?case
    by (cases "split_on a xs") (auto split: if_splits)
qed

lemma set_split_on: "p \<in> set (split_on a xs) \<Longrightarrow> set p \<subseteq> set xs"
proof (induction xs arbitrary: p)
  case Nil
  then show ?case by simp
next
  case (Cons x xs)
  show ?case
  proof (cases "split_on a xs")
    case Nil
    then show ?thesis by simp
  next
    fix y ys
    assume eq: "split_on a xs = y # ys"
    with Cons.IH have "set y \<subseteq> set xs" and "\<And>q. q \<in> set ys \<Longrightarrow> set q \<subseteq> set xs"
      by auto
    with Cons.prems eq show ?thesis
      by (auto split: if_splits)
  qed
qed

lemma set_join_with: "set (join_with s xs) \<subseteq> set s \<union> \<Union> (set ` set xs)"
  by (induction s xs rule: join_with.induct) auto

text \<open>\<open>str::split_once(c)\<close>, \<open>str::find(c)\<close> and \<open>str::rfind(c)\<close>.\<close>

fun split_once :: "'a \<Rightarrow> 'a list \<Rightarrow> ('a list \<times> 'a list) option" where
  "split_once a [] = None"
| "split_once a (x # xs) =
     (if x = a then Some ([], xs)
      else (case split_once a xs of None \<Rightarrow> None | Some (p, q) \<Rightarrow> Some (x # p, q)))"

lemma split_once_None [simp]: "split_once a xs = None \<longleftrightarrow> a \<notin> set xs"
  by (induction xs) (auto split: option.splits)

lemma split_once_SomeD: "split_once a xs = Some (p, q) \<Longrightarrow> xs = p @ a # q \<and> a \<notin> set p"
  by (induction xs arbitrary: p) (auto split: option.splits if_splits)

lemma split_once_append [simp]: "a \<notin> set p \<Longrightarrow> split_once a (p @ a # q) = Some (p, q)"
  by (induction p) auto

definition split_last :: "'a \<Rightarrow> 'a list \<Rightarrow> ('a list \<times> 'a list) option" where
  "split_last a xs = (case split_once a (rev xs) of None \<Rightarrow> None | Some (q, p) \<Rightarrow> Some (rev p, rev q))"

lemma split_last_None [simp]: "split_last a xs = None \<longleftrightarrow> a \<notin> set xs"
  unfolding split_last_def using split_once_None[of a "rev xs"]
  by (cases "split_once a (rev xs)") (auto simp del: split_once_None)

lemma split_last_SomeD: "split_last a xs = Some (p, q) \<Longrightarrow> xs = p @ a # q \<and> a \<notin> set q"
  by (auto simp: split_last_def rev_swap dest!: split_once_SomeD split: option.splits)

text \<open>\<open>str::split_once(pat)\<close> for a string pattern.\<close>

fun split_at_sub :: "'a list \<Rightarrow> 'a list \<Rightarrow> ('a list \<times> 'a list) option" where
  "split_at_sub p [] = (if p = [] then Some ([], []) else None)"
| "split_at_sub p (x # xs) =
     (if prefix p (x # xs) then Some ([], drop (length p) (x # xs))
      else (case split_at_sub p xs of None \<Rightarrow> None | Some (a, b) \<Rightarrow> Some (x # a, b)))"

lemma split_at_sub_SomeD: "split_at_sub p xs = Some (a, b) \<Longrightarrow> xs = a @ p @ b"
  by (induction xs arbitrary: a) (auto split: option.splits if_splits simp: prefix_def)

definition strip_prefix :: "'a list \<Rightarrow> 'a list \<Rightarrow> 'a list option" where
  "strip_prefix p xs = (if prefix p xs then Some (drop (length p) xs) else None)"

lemma strip_prefix_append [simp]: "strip_prefix p (p @ xs) = Some xs"
  by (simp add: strip_prefix_def)

lemma strip_prefix_SomeD: "strip_prefix p xs = Some ys \<Longrightarrow> xs = p @ ys"
  by (auto simp: strip_prefix_def prefix_def split: if_splits)

text \<open>\<open>iter().position(p)\<close>.\<close>

fun position_of :: "('a \<Rightarrow> bool) \<Rightarrow> 'a list \<Rightarrow> nat option" where
  "position_of p [] = None"
| "position_of p (x # xs) = (if p x then Some 0 else map_option Suc (position_of p xs))"

lemma position_of_None [simp]: "position_of p xs = None \<longleftrightarrow> (\<forall>x \<in> set xs. \<not> p x)"
  by (induction xs) auto

lemma position_of_Some:
  "position_of p xs = Some i \<longleftrightarrow> i < length xs \<and> p (xs ! i) \<and> (\<forall>j < i. \<not> p (xs ! j))"
proof (induction xs arbitrary: i)
  case Nil
  then show ?case by simp
next
  case (Cons x xs)
  show ?case
    by (cases i) (auto simp: Cons nth_Cons less_Suc_eq_0_disj split: nat.splits)
qed

lemma position_of_append:
  "position_of p (xs @ ys) =
     (case position_of p xs of Some i \<Rightarrow> Some i
      | None \<Rightarrow> map_option (\<lambda>i. length xs + i) (position_of p ys))"
proof (induction xs)
  case Nil
  then show ?case by (cases "position_of p ys") (simp_all del: position_of_None)
next
  case (Cons x xs)
  then show ?case
    by (cases "position_of p xs"; cases "position_of p ys") (auto simp del: position_of_None)
qed

section \<open>UTF-8\<close>

text \<open>\<open>String::from_utf8\<close>: the well-formed byte sequences of Unicode, table 3-7.\<close>

definition cont_byte :: "char \<Rightarrow> bool" where
  "cont_byte c \<longleftrightarrow> 0x80 \<le> ord_of c \<and> ord_of c \<le> 0xbf"

fun utf8_valid :: "string \<Rightarrow> bool" where
  "utf8_valid [] = True"
| "utf8_valid (a # s) =
     (let n = ord_of a in
      if n < 0x80 then utf8_valid s
      else case s of
        [] \<Rightarrow> False
      | b # s1 \<Rightarrow>
          (if 0xc2 \<le> n \<and> n \<le> 0xdf then cont_byte b \<and> utf8_valid s1
           else case s1 of
             [] \<Rightarrow> False
           | c # s2 \<Rightarrow>
               (if 0xe0 \<le> n \<and> n \<le> 0xef then
                  cont_byte b \<and> cont_byte c \<and> (n = 0xe0 \<longrightarrow> 0xa0 \<le> ord_of b) \<and>
                  (n = 0xed \<longrightarrow> ord_of b \<le> 0x9f) \<and> utf8_valid s2
                else case s2 of
                  [] \<Rightarrow> False
                | d # s3 \<Rightarrow>
                    0xf0 \<le> n \<and> n \<le> 0xf4 \<and> cont_byte b \<and> cont_byte c \<and> cont_byte d \<and>
                    (n = 0xf0 \<longrightarrow> 0x90 \<le> ord_of b) \<and> (n = 0xf4 \<longrightarrow> ord_of b \<le> 0x8f) \<and> utf8_valid s3)))"

lemma utf8_valid_ascii: "list_all (\<lambda>c. ord_of c < 0x80) s \<Longrightarrow> utf8_valid s"
  by (induction s) (simp_all add: Let_def)

end
