(* ===== verification/Cat_Error.thy ===== *)
theory Cat_Error
  imports Cat_Prelude
begin

text \<open>
  \<open>src/src/error.rs\<close>: the error enumeration of the crate, its metric categories, and the
  \<open>SafeDisplay\<close> wrapper that escapes attacker-controlled text before it reaches a log line.

  A formatted message is modelled by its fixed text up to the first interpolated value; the fields
  operators and tests match on (claim names, algorithm identifiers, key identifiers) are kept.
\<close>

section \<open>Errors\<close>

datatype cat_error =
    InvalidTokenFormat
  | InvalidCbor string
  | InvalidBase64 string
  | SignatureVerificationFailed
  | TokenExpired
  | TokenNotYetValid
  | InvalidAudience
  | InvalidIssuer
  | MissingRequiredClaim string
  | InvalidClaimValue string
  | MalformedClaim string string
  | ClaimEnforcementFailed string string
  | MissingRelayContext string string
  | UnsupportedAlgorithm string
  | AlgorithmMismatch int int
  | AlgorithmNotAllowed int "int list"
  | KidNotAllowed "bytes option" "bytes list"
  | KeyOperationFailed string
  | BackendUnavailable string
  | ConfigurationRefused string
  | GeographicValidationFailed string
  | ReplayAttackDetected
  | MoqtActionNotAuthorized string
  | DpopValidationFailed string
  | InvalidDpopBinding
  | RevalidationRequired
  | RevalidationIntervalTooShort
  | RejectedByProbability
  | CertificateValidationFailed string
  | DpopAlgorithmNotSupported string
  | DpopKeyMismatch
  | UnencryptedPrivacyClaim string

type_synonym 'a result = "cat_error + 'a"

fun category :: "cat_error \<Rightarrow> string" where
  "category InvalidTokenFormat = ''malformed''"
| "category (InvalidCbor _) = ''malformed''"
| "category (InvalidBase64 _) = ''malformed''"
| "category (MalformedClaim _ _) = ''malformed''"
| "category (UnsupportedAlgorithm _) = ''malformed''"
| "category (AlgorithmMismatch _ _) = ''malformed''"
| "category (AlgorithmNotAllowed _ _) = ''malformed''"
| "category (KidNotAllowed _ _) = ''malformed''"
| "category (DpopAlgorithmNotSupported _) = ''malformed''"
| "category SignatureVerificationFailed = ''denied''"
| "category TokenExpired = ''denied''"
| "category TokenNotYetValid = ''denied''"
| "category InvalidAudience = ''denied''"
| "category InvalidIssuer = ''denied''"
| "category (InvalidClaimValue _) = ''denied''"
| "category (ClaimEnforcementFailed _ _) = ''denied''"
| "category (GeographicValidationFailed _) = ''denied''"
| "category ReplayAttackDetected = ''denied''"
| "category (MoqtActionNotAuthorized _) = ''denied''"
| "category (DpopValidationFailed _) = ''denied''"
| "category InvalidDpopBinding = ''denied''"
| "category DpopKeyMismatch = ''denied''"
| "category RevalidationRequired = ''denied''"
| "category RevalidationIntervalTooShort = ''denied''"
| "category RejectedByProbability = ''denied''"
| "category (CertificateValidationFailed _) = ''denied''"
| "category (UnencryptedPrivacyClaim _) = ''denied''"
| "category (MissingRequiredClaim _) = ''operator''"
| "category (MissingRelayContext _ _) = ''operator''"
| "category (KeyOperationFailed _) = ''operator''"
| "category (BackendUnavailable _) = ''operator''"
| "category (ConfigurationRefused _) = ''operator''"

fun detail :: "cat_error \<Rightarrow> string option" where
  "detail (MalformedClaim _ d) = Some d"
| "detail (ClaimEnforcementFailed _ d) = Some d"
| "detail (InvalidClaimValue s) = Some s"
| "detail _ = None"

section \<open>Escaping of attacker-controlled text\<close>

text \<open>
  \<open>SafeDisplay\<close> walks the Unicode scalar values of the wrapped string, so text is a list of code
  points here. The cap is \<open>SAFE_DISPLAY_MAX_LEN\<close>; the ellipsis is U+2026.
\<close>

definition safe_display_max_len :: nat where
  "safe_display_max_len = 256"

definition hex_digit_code :: "nat \<Rightarrow> nat" where
  "hex_digit_code n = (if n < 10 then 48 + n else 87 + n)"

definition hex2 :: "nat \<Rightarrow> nat list" where
  "hex2 n = [hex_digit_code (n div 16 mod 16), hex_digit_code (n mod 16)]"

definition hex4 :: "nat \<Rightarrow> nat list" where
  "hex4 n = [hex_digit_code (n div 4096 mod 16), hex_digit_code (n div 256 mod 16),
             hex_digit_code (n div 16 mod 16), hex_digit_code (n mod 16)]"

text \<open>One iteration of the \<open>fmt\<close> loop; the arms are tried in the order of the source.\<close>

definition safe_escape :: "nat \<Rightarrow> nat list" where
  "safe_escape c =
     (if c \<in> {0x0d, 0x0a, 0x09, 0x00, 0x08, 0x0b, 0x0c, 0x7f} then [0x5c, 0x78] @ hex2 c
      else if c < 0x20 \<or> (0x80 \<le> c \<and> c \<le> 0x9f) then [0x5c, 0x75, 0x7b] @ hex4 c @ [0x7d]
      else if (0x202a \<le> c \<and> c \<le> 0x202e) \<or> (0x2066 \<le> c \<and> c \<le> 0x2069) \<or>
              c \<in> {0x200e, 0x200f, 0x061c, 0x2028, 0x2029, 0xfeff}
        then [0x5c, 0x75, 0x7b] @ hex4 c @ [0x7d]
      else [c])"

fun safe_display_from :: "nat \<Rightarrow> nat list \<Rightarrow> nat list" where
  "safe_display_from count [] = []"
| "safe_display_from count (c # cs) =
     (if count \<ge> safe_display_max_len then [0x2026]
      else safe_escape c @ safe_display_from (Suc count) cs)"

definition safe_display :: "nat list \<Rightarrow> nat list" where
  "safe_display s = safe_display_from 0 s"

text \<open>The code points that must never reach a log line: C0 and C1 controls, DEL, and the bidi and
  format controls of the module documentation.\<close>

definition log_hostile :: "nat \<Rightarrow> bool" where
  "log_hostile c \<longleftrightarrow> c < 0x20 \<or> (0x7f \<le> c \<and> c \<le> 0x9f) \<or>
     c \<in> {0x061c, 0x200e, 0x200f, 0x2028, 0x2029, 0xfeff} \<or>
     (0x202a \<le> c \<and> c \<le> 0x202e) \<or> (0x2066 \<le> c \<and> c \<le> 0x2069)"

lemma hex_digit_code_range:
  "n < 16 \<Longrightarrow> 48 \<le> hex_digit_code n \<and> hex_digit_code n \<le> 102"
  by (auto simp: hex_digit_code_def)

lemma hex_digit_code_safe [simp]: "\<not> log_hostile (hex_digit_code (n mod 16))"
  using hex_digit_code_range[of "n mod 16"] by (auto simp: log_hostile_def)

lemma log_hostile_punct [simp]:
  "\<not> log_hostile 0x5c" "\<not> log_hostile 0x75" "\<not> log_hostile 0x78"
  "\<not> log_hostile 0x7b" "\<not> log_hostile 0x7d" "\<not> log_hostile 0x2026"
  by (simp_all add: log_hostile_def)

lemma hex_safe [simp]: "\<forall>d \<in> set (hex2 n). \<not> log_hostile d" "\<forall>d \<in> set (hex4 n). \<not> log_hostile d"
  by (simp_all add: hex2_def hex4_def)

lemma safe_escape_plain:
  assumes "c \<notin> {0x0d, 0x0a, 0x09, 0x00, 0x08, 0x0b, 0x0c, 0x7f}"
    and "\<not> (c < 0x20 \<or> (0x80 \<le> c \<and> c \<le> 0x9f))"
    and "\<not> ((0x202a \<le> c \<and> c \<le> 0x202e) \<or> (0x2066 \<le> c \<and> c \<le> 0x2069) \<or>
              c \<in> {0x200e, 0x200f, 0x061c, 0x2028, 0x2029, 0xfeff})"
  shows "\<not> log_hostile c"
proof -
  have "c \<noteq> 0x7f" using assms(1) by simp
  then have "\<not> (0x7f \<le> c \<and> c \<le> 0x9f)" using assms(2) by linarith
  with assms show ?thesis unfolding log_hostile_def by blast
qed

lemma safe_escape_safe: "\<forall>d \<in> set (safe_escape c). \<not> log_hostile d"
  unfolding safe_escape_def
  using hex_safe(1)[of c] hex_safe(2)[of c] log_hostile_punct safe_escape_plain[of c]
  by (simp only: split: if_split) (simp only: set_append list.set ball_Un ball_simps insert_iff, blast)

lemma safe_escape_length: "length (safe_escape c) \<le> 8"
  by (simp add: safe_escape_def hex2_def hex4_def)

lemma safe_display_from_safe: "d \<in> set (safe_display_from n cs) \<Longrightarrow> \<not> log_hostile d"
proof (induction n cs rule: safe_display_from.induct)
  case (1 n)
  then show ?case by simp
next
  case (2 n c cs)
  then show ?case
    using safe_escape_safe[of c] by (auto split: if_splits)
qed

lemma safe_display_from_length:
  "length (safe_display_from n cs) \<le> 8 * (safe_display_max_len - n) + 1"
proof (induction n cs rule: safe_display_from.induct)
  case (1 n)
  then show ?case by simp
next
  case (2 n c cs)
  then show ?case
    using safe_escape_length[of c] by (auto simp: not_le)
qed

end
