(* ===== verification/Cbor_Value.thy ===== *)
theory Cbor_Value
  imports Cat_Error
begin

text \<open>
  The data model of the CBOR values the crate exchanges with \<open>ciborium\<close> (the documented
  \<open>ciborium::Value\<close> type), and the IEEE 754 doubles it carries.

  A double is one of the special values or a finite rational. Every finite double is such a
  rational; arithmetic on doubles is not modelled here, only the classification and the comparisons
  the code uses, which are exact.
\<close>

section \<open>Doubles\<close>

datatype f64 = Fin rat | NegZero | NaN | PosInf | NegInf

fun f64_is_nan :: "f64 \<Rightarrow> bool" where
  "f64_is_nan NaN = True"
| "f64_is_nan _ = False"

fun f64_is_infinite :: "f64 \<Rightarrow> bool" where
  "f64_is_infinite PosInf = True"
| "f64_is_infinite NegInf = True"
| "f64_is_infinite _ = False"

fun f64_is_finite :: "f64 \<Rightarrow> bool" where
  "f64_is_finite (Fin _) = True"
| "f64_is_finite NegZero = True"
| "f64_is_finite _ = False"

fun f64_sign_negative :: "f64 \<Rightarrow> bool" where
  "f64_sign_negative (Fin r) = (r < 0)"
| "f64_sign_negative NegZero = True"
| "f64_sign_negative NegInf = True"
| "f64_sign_negative _ = False"

fun f64_is_zero :: "f64 \<Rightarrow> bool" where
  "f64_is_zero (Fin r) = (r = 0)"
| "f64_is_zero NegZero = True"
| "f64_is_zero _ = False"

text \<open>The value of a finite double; \<open>-0.0\<close> compares equal to \<open>0.0\<close>.\<close>

fun f64_rat :: "f64 \<Rightarrow> rat" where
  "f64_rat (Fin r) = r"
| "f64_rat _ = 0"

fun f64_lt :: "f64 \<Rightarrow> f64 \<Rightarrow> bool" where
  "f64_lt NaN _ = False"
| "f64_lt _ NaN = False"
| "f64_lt PosInf _ = False"
| "f64_lt NegInf y = (y \<noteq> NegInf)"
| "f64_lt _ NegInf = False"
| "f64_lt _ PosInf = True"
| "f64_lt x y = (f64_rat x < f64_rat y)"

definition f64_gt :: "f64 \<Rightarrow> f64 \<Rightarrow> bool" where
  "f64_gt x y = f64_lt y x"

definition f64_in_range :: "rat \<Rightarrow> rat \<Rightarrow> f64 \<Rightarrow> bool" where
  "f64_in_range lo hi x \<longleftrightarrow> f64_is_finite x \<and> lo \<le> f64_rat x \<and> f64_rat x \<le> hi"

definition f64_abs_gt :: "f64 \<Rightarrow> rat \<Rightarrow> bool" where
  "f64_abs_gt x b \<longleftrightarrow> f64_lt x (Fin (- b)) \<or> f64_gt x (Fin b)"

lemma f64_lt_NaN [simp]: "\<not> f64_lt x NaN"
  by (cases x) auto

lemma f64_lt_Fin [simp]: "f64_is_finite x \<Longrightarrow> f64_lt x (Fin r) \<longleftrightarrow> f64_rat x < r"
  by (cases x) auto

lemma f64_gt_Fin [simp]: "f64_is_finite x \<Longrightarrow> f64_lt (Fin r) x \<longleftrightarrow> r < f64_rat x"
  by (cases x) auto

lemma f64_range_test:
  "\<not> f64_lt x (Fin lo) \<and> \<not> f64_gt x (Fin hi) \<longleftrightarrow> x = NaN \<or> f64_in_range lo hi x"
  by (cases x) (auto simp: f64_gt_def f64_in_range_def)

section \<open>Values\<close>

datatype cbor =
    CInt int
  | CBytes bytes
  | CFloat f64
  | CText string
  | CBool bool
  | CNull
  | CTag nat cbor
  | CArray "cbor list"
  | CMap "(cbor \<times> cbor) list"

text \<open>The depth of arrays, maps and tags.\<close>

fun cbor_nesting :: "cbor \<Rightarrow> nat" where
  "cbor_nesting (CArray xs) = Suc (foldr max (map cbor_nesting xs) 0)"
| "cbor_nesting (CMap kvs) = Suc (foldr max (map (\<lambda>(k, v). max (cbor_nesting k) (cbor_nesting v)) kvs) 0)"
| "cbor_nesting (CTag t v) = Suc (cbor_nesting v)"
| "cbor_nesting _ = 0"

lemma foldr_max_le: "foldr max xs (0::nat) \<le> n \<longleftrightarrow> (\<forall>x \<in> set xs. x \<le> n)"
  by (induction xs) auto

lemma foldr_max_less: "0 < n \<Longrightarrow> foldr max xs (0::nat) < n \<longleftrightarrow> (\<forall>x \<in> set xs. x < n)"
  by (induction xs) auto

text \<open>\<open>CBOR_MAX_RECURSION_DEPTH\<close> of \<open>cwt.rs\<close>: the recursion limit every reader is called with.\<close>

definition cbor_max_recursion_depth :: nat where "cbor_max_recursion_depth = 32"

end
