(* ===== verification/Net_Id.thy ===== *)
theory Net_Id
  imports Cbor_Value
begin

text \<open>
  \<open>NetworkIdentifier\<close> of \<open>src/src/claims.rs\<close>: the identifiers a \<open>catnip\<close> claim lists, with the
  prefix match, the ASN range match and the validation the encoder and the decoder call. Addresses
  are words of the width of their family; the masks are the ones of the source, on words.

  Shown: a prefix matches exactly the addresses that agree on the leading \<open>prefix_len\<close> bits, a
  validated identifier has a prefix length that fits its family and a bounded ASN range, and the
  two kinds of identifiers never match each other's peers.
\<close>

unbundle bit_operations_syntax

section \<open>Addresses and identifiers\<close>

datatype ip_addr = V4 u32 | V6 u128

datatype network_identifier =
    IpAddress ip_addr
  | IpPrefix ip_addr byte
  | Asn u32
  | AsnRange u32 u32

fun ip_in_prefix :: "ip_addr \<Rightarrow> ip_addr \<Rightarrow> byte \<Rightarrow> bool" where
  "ip_in_prefix (V4 p) (V4 n) prefix_len =
     (if prefix_len = 0 then True
      else if prefix_len > 32 then False
      else let mask = (if prefix_len = 32 then - 1
                       else NOT (push_bit (32 - unat prefix_len) 1 - 1))
           in p AND mask = n AND mask)"
| "ip_in_prefix (V6 p) (V6 n) prefix_len =
     (if prefix_len = 0 then True
      else if prefix_len > 128 then False
      else let mask = (if prefix_len = 128 then - 1
                       else NOT (push_bit (128 - unat prefix_len) 1 - 1))
           in p AND mask = n AND mask)"
| "ip_in_prefix _ _ _ = False"

fun matches_ip :: "network_identifier \<Rightarrow> ip_addr \<Rightarrow> bool" where
  "matches_ip (IpAddress addr) peer = (addr = peer)"
| "matches_ip (IpPrefix addr l) peer = ip_in_prefix peer addr l"
| "matches_ip (Asn _) _ = False"
| "matches_ip (AsnRange _ _) _ = False"

fun matches_asn :: "network_identifier \<Rightarrow> u32 \<Rightarrow> bool" where
  "matches_asn (Asn a) peer = (a = peer)"
| "matches_asn (AsnRange s e) peer = (peer \<ge> s \<and> peer \<le> e)"
| "matches_asn (IpAddress _) _ = False"
| "matches_asn (IpPrefix _ _) _ = False"

fun is_ip_based :: "network_identifier \<Rightarrow> bool" where
  "is_ip_based (IpAddress _) = True"
| "is_ip_based (IpPrefix _ _) = True"
| "is_ip_based _ = False"

fun is_asn_based :: "network_identifier \<Rightarrow> bool" where
  "is_asn_based (Asn _) = True"
| "is_asn_based (AsnRange _ _) = True"
| "is_asn_based _ = False"

fun max_prefix :: "ip_addr \<Rightarrow> byte" where
  "max_prefix (V4 _) = 32"
| "max_prefix (V6 _) = 128"

definition saturating_sub_u32 :: "u32 \<Rightarrow> u32 \<Rightarrow> u32" where
  "saturating_sub_u32 a b = (if a < b then 0 else a - b)"

definition max_reasonable_asn_range :: u32 where
  "max_reasonable_asn_range = 65536"

fun validate_nip :: "network_identifier \<Rightarrow> unit result" where
  "validate_nip (IpAddress _) = Inr ()"
| "validate_nip (IpPrefix addr l) =
     (if l > max_prefix addr then Inl (InvalidClaimValue ''Prefix length '') else Inr ())"
| "validate_nip (Asn _) = Inr ()"
| "validate_nip (AsnRange s e) =
     (if s > e then Inl (InvalidClaimValue ''Invalid ASN range: start ('')
      else if saturating_sub_u32 e s > max_reasonable_asn_range
        then Inl (InvalidClaimValue ''ASN range too broad: '')
      else Inr ())"

section \<open>Masks and leading bits\<close>

lemma and_high_bits_eq_iff:
  "p AND NOT (mask k) = n AND NOT (mask k) \<longleftrightarrow> drop_bit k p = drop_bit k (n :: 'a::len word)"
proof
  assume h: "p AND NOT (mask k) = n AND NOT (mask k)"
  show "drop_bit k p = drop_bit k n"
  proof (rule bit_word_eqI)
    fix i assume "i < LENGTH('a)"
    from h have "bit (p AND NOT (mask k)) (k + i) = bit (n AND NOT (mask k)) (k + i)" by simp
    then show "bit (drop_bit k p) i = bit (drop_bit k n) i"
      using bit_imp_le_length[of p "k + i"] bit_imp_le_length[of n "k + i"]
      by (auto simp: bit_simps)
  qed
next
  assume h: "drop_bit k p = drop_bit k n"
  show "p AND NOT (mask k) = n AND NOT (mask k)"
  proof (rule bit_word_eqI)
    fix i assume i: "i < LENGTH('a)"
    show "bit (p AND NOT (mask k)) i = bit (n AND NOT (mask k)) i"
    proof (cases "i < k")
      case True
      then show ?thesis using i by (simp add: bit_simps)
    next
      case False
      from h have "bit (drop_bit k p) (i - k) = bit (drop_bit k n) (i - k)" by simp
      with False i show ?thesis by (simp add: bit_simps)
    qed
  qed
qed

lemma word_leading_bits:
  "p AND NOT (2 ^ k - 1) = n AND NOT (2 ^ k - 1) \<longleftrightarrow> drop_bit k p = drop_bit k (n :: 'a::len word)"
  by (simp add: and_high_bits_eq_iff flip: mask_eq_exp_minus_1)

text \<open>The length of a family in bits and the leading bits of an address.\<close>

fun addr_bits :: "ip_addr \<Rightarrow> nat" where
  "addr_bits (V4 _) = 32"
| "addr_bits (V6 _) = 128"

fun leading_bits :: "nat \<Rightarrow> ip_addr \<Rightarrow> nat" where
  "leading_bits k (V4 a) = unat a div 2 ^ (32 - k)"
| "leading_bits k (V6 a) = unat a div 2 ^ (128 - k)"

fun same_family :: "ip_addr \<Rightarrow> ip_addr \<Rightarrow> bool" where
  "same_family (V4 _) (V4 _) = True"
| "same_family (V6 _) (V6 _) = True"
| "same_family _ _ = False"

lemma drop_bit_eq_iff_div:
  "drop_bit k p = drop_bit k (n :: 'a::len word) \<longleftrightarrow> unat p div 2 ^ k = unat n div 2 ^ k"
proof -
  have "drop_bit k p = drop_bit k n \<longleftrightarrow> unat (drop_bit k p) = unat (drop_bit k n)"
    by (rule word_unat_eq_iff)
  also have "\<dots> \<longleftrightarrow> drop_bit k (unat p) = drop_bit k (unat n)"
    by (simp only: unat_drop_bit_eq)
  finally show ?thesis by (simp only: drop_bit_eq_div)
qed

lemma unat_div_full: "unat (p :: 'a::len word) div 2 ^ LENGTH('a) = 0"
  by (rule div_less) (rule unsigned_less)

lemma ip_in_prefix_v4:
  "ip_in_prefix (V4 p) (V4 n) l \<longleftrightarrow>
     unat l \<le> 32 \<and> unat p div 2 ^ (32 - unat l) = unat n div 2 ^ (32 - unat l)"
proof -
  consider "l = 0" | "l > 32" | "l = 32" | "l \<noteq> 0" "\<not> l > 32" "l \<noteq> 32" by blast
  then show ?thesis
  proof cases
    case 1
    then show ?thesis using unat_div_full[of p] unat_div_full[of n] by simp
  next
    case 2
    then have "\<not> unat l \<le> 32" by (simp add: word_less_nat_alt)
    with 2 show ?thesis by auto
  next
    case 3
    then show ?thesis by (auto simp: word_unat_eq_iff[of p])
  next
    case 4
    then have "unat l \<le> 32" by (simp add: word_less_nat_alt)
    with 4 show ?thesis
      by (simp add: Let_def word_leading_bits drop_bit_eq_iff_div)
  qed
qed

lemma ip_in_prefix_v6:
  "ip_in_prefix (V6 p) (V6 n) l \<longleftrightarrow>
     unat l \<le> 128 \<and> unat p div 2 ^ (128 - unat l) = unat n div 2 ^ (128 - unat l)"
proof -
  consider "l = 0" | "l > 128" | "l = 128" | "l \<noteq> 0" "\<not> l > 128" "l \<noteq> 128" by blast
  then show ?thesis
  proof cases
    case 1
    then show ?thesis using unat_div_full[of p] unat_div_full[of n] by simp
  next
    case 2
    then have "\<not> unat l \<le> 128" by (simp add: word_less_nat_alt)
    with 2 show ?thesis by auto
  next
    case 3
    then show ?thesis by (auto simp: word_unat_eq_iff[of p])
  next
    case 4
    then have "unat l \<le> 128" by (simp add: word_less_nat_alt)
    with 4 show ?thesis
      by (simp add: Let_def word_leading_bits drop_bit_eq_iff_div)
  qed
qed

text \<open>The specification of a prefix: same family, a length that fits it, and equal leading bits.\<close>

definition prefix_spec :: "ip_addr \<Rightarrow> nat \<Rightarrow> ip_addr \<Rightarrow> bool" where
  "prefix_spec n k p \<longleftrightarrow>
     same_family p n \<and> k \<le> addr_bits n \<and> leading_bits k p = leading_bits k n"

text \<open>An address is in a prefix exactly when both are of one family and agree on the leading bits, the length being
  within the width of the family.\<close>

lemma ip_in_prefix_iff_spec: "ip_in_prefix p n l \<longleftrightarrow> prefix_spec n (unat l) p"
  by (cases p; cases n) (simp_all only: ip_in_prefix_v4 ip_in_prefix_v6 prefix_spec_def
      same_family.simps addr_bits.simps leading_bits.simps ip_in_prefix.simps simp_thms)

text \<open>A network identifier is valid exactly when its prefix length fits its family, or its AS range is ordered and
  spans at most 65536.\<close>

lemma validate_nip_ok:
  "validate_nip nid = Inr () \<longleftrightarrow>
     (case nid of IpPrefix addr l \<Rightarrow> unat l \<le> addr_bits addr
      | AsnRange s e \<Rightarrow> unat s \<le> unat e \<and> unat e \<le> unat s + 65536
      | _ \<Rightarrow> True)"
proof (cases nid)
  case (IpPrefix addr l)
  then show ?thesis by (cases addr) (auto simp: word_less_nat_alt)
next
  case (AsnRange s e)
  show ?thesis
  proof (cases "s > e")
    case True
    then show ?thesis by (simp add: AsnRange word_less_nat_alt)
  next
    case False
    then have le: "s \<le> e" "unat s \<le> unat e" by (simp_all add: not_less word_le_nat_alt)
    then have "unat (saturating_sub_u32 e s) = unat e - unat s"
      by (simp add: saturating_sub_u32_def unat_sub not_less)
    with False le show ?thesis
      by (auto simp: AsnRange max_reasonable_asn_range_def word_less_nat_alt)
  qed
qed auto

lemma ip_asn_disjoint: "is_ip_based nid \<longleftrightarrow> \<not> is_asn_based nid"
  by (cases nid) auto

lemma matches_ip_ip_based: "matches_ip nid p \<Longrightarrow> is_ip_based nid"
  by (cases nid) auto

lemma matches_asn_asn_based: "matches_asn nid a \<Longrightarrow> is_asn_based nid"
  by (cases nid) auto

end
