(* ===== verification/Moqt_Scope.thy ===== *)
theory Moqt_Scope
  imports Cbor_Value
begin

text \<open>
  The MOQT part of \<open>src/src/claims.rs\<close> (actions, binary and namespace matchers, scopes) with the
  scope builder and the role scopes of \<open>src/src/moqt.rs\<close>.

  Shown: the wire numbers of the actions, that no matcher but the explicit wildcard matches every
  input, the meaning of a scope that the builder makes from a namespace path, and exactly what each
  role grants.
\<close>

section \<open>Actions\<close>

datatype moqt_action =
    ClientSetup
  | ServerSetup
  | PublishNamespace
  | SubscribeNamespace
  | Subscribe
  | RequestUpdate
  | Publish
  | Fetch
  | TrackStatus

datatype moqt_resource_shape = ShapeEndpoint | ShapeNamespace | ShapeTrack

fun moqt_action_i32 :: "moqt_action \<Rightarrow> int" where
  "moqt_action_i32 ClientSetup = 0"
| "moqt_action_i32 ServerSetup = 1"
| "moqt_action_i32 PublishNamespace = 2"
| "moqt_action_i32 SubscribeNamespace = 3"
| "moqt_action_i32 Subscribe = 4"
| "moqt_action_i32 RequestUpdate = 5"
| "moqt_action_i32 Publish = 6"
| "moqt_action_i32 Fetch = 7"
| "moqt_action_i32 TrackStatus = 8"

definition moqt_action_is_valid :: "int \<Rightarrow> bool" where
  "moqt_action_is_valid v \<longleftrightarrow> 0 \<le> v \<and> v \<le> 8"

fun resource_shape :: "moqt_action \<Rightarrow> moqt_resource_shape" where
  "resource_shape ClientSetup = ShapeEndpoint"
| "resource_shape ServerSetup = ShapeEndpoint"
| "resource_shape PublishNamespace = ShapeNamespace"
| "resource_shape SubscribeNamespace = ShapeNamespace"
| "resource_shape Subscribe = ShapeTrack"
| "resource_shape RequestUpdate = ShapeTrack"
| "resource_shape Publish = ShapeTrack"
| "resource_shape Fetch = ShapeTrack"
| "resource_shape TrackStatus = ShapeTrack"

definition moqt_action_try_from :: "int \<Rightarrow> moqt_action result" where
  "moqt_action_try_from v =
     (if v = 0 then Inr ClientSetup
      else if v = 1 then Inr ServerSetup
      else if v = 2 then Inr PublishNamespace
      else if v = 3 then Inr SubscribeNamespace
      else if v = 4 then Inr Subscribe
      else if v = 5 then Inr RequestUpdate
      else if v = 6 then Inr Publish
      else if v = 7 then Inr Fetch
      else if v = 8 then Inr TrackStatus
      else Inl (InvalidClaimValue ''Invalid MOQT action: ''))"

lemma moqt_action_try_from_i32 [simp]: "moqt_action_try_from (moqt_action_i32 a) = Inr a"
  by (cases a) (simp_all add: moqt_action_try_from_def)

lemma moqt_action_i32_inj: "moqt_action_i32 a = moqt_action_i32 b \<longleftrightarrow> a = b"
  by (metis moqt_action_try_from_i32 sum.inject(2))

lemma moqt_action_i32_valid [simp]: "moqt_action_is_valid (moqt_action_i32 a)"
  by (cases a) (simp_all add: moqt_action_is_valid_def)

lemma moqt_action_try_from_Inr: "moqt_action_try_from v = Inr a \<longleftrightarrow> v = moqt_action_i32 a"
  by (cases a) (auto simp: moqt_action_try_from_def)

lemma moqt_action_is_valid_cases:
  "moqt_action_is_valid v \<Longrightarrow> v \<in> {0, 1, 2, 3, 4, 5, 6, 7, 8}"
  by (auto simp: moqt_action_is_valid_def)

lemma moqt_action_try_from_ok: "is_ok (moqt_action_try_from v) \<longleftrightarrow> moqt_action_is_valid v"
proof
  assume "is_ok (moqt_action_try_from v)"
  then show "moqt_action_is_valid v"
    by (auto simp: is_ok_iff moqt_action_try_from_Inr)
next
  assume "moqt_action_is_valid v"
  then show "is_ok (moqt_action_try_from v)"
    by (auto dest!: moqt_action_is_valid_cases simp: moqt_action_try_from_def)
qed

section \<open>Binary and namespace matchers\<close>

datatype binary_match_type = BmAny | BmExact | BmPrefix | BmSuffix

record binary_match =
  match_type :: binary_match_type
  pattern :: bytes

definition bm_any :: binary_match where
  "bm_any = \<lparr>match_type = BmAny, pattern = []\<rparr>"

definition bm_exact :: "bytes \<Rightarrow> binary_match" where
  "bm_exact d = \<lparr>match_type = BmExact, pattern = d\<rparr>"

definition bm_prefix :: "bytes \<Rightarrow> binary_match" where
  "bm_prefix d = \<lparr>match_type = BmPrefix, pattern = d\<rparr>"

definition bm_suffix :: "bytes \<Rightarrow> binary_match" where
  "bm_suffix d = \<lparr>match_type = BmSuffix, pattern = d\<rparr>"

definition bm_is_wildcard :: "binary_match \<Rightarrow> bool" where
  "bm_is_wildcard m \<longleftrightarrow> match_type m = BmAny"

definition bm_matches :: "binary_match \<Rightarrow> bytes \<Rightarrow> bool" where
  "bm_matches m input =
     (case match_type m of
        BmAny \<Rightarrow> True
      | BmExact \<Rightarrow> input = pattern m
      | BmPrefix \<Rightarrow> (if pattern m = [] then False else prefix (pattern m) input)
      | BmSuffix \<Rightarrow> (if pattern m = [] then False else suffix (pattern m) input))"

datatype namespace_match = NmMatch binary_match | NmNil

definition nm_exact :: "bytes \<Rightarrow> namespace_match" where
  "nm_exact d = NmMatch (bm_exact d)"

definition nm_prefix :: "bytes \<Rightarrow> namespace_match" where
  "nm_prefix d = NmMatch (bm_prefix d)"

definition nm_suffix :: "bytes \<Rightarrow> namespace_match" where
  "nm_suffix d = NmMatch (bm_suffix d)"

fun nm_matches :: "namespace_match \<Rightarrow> bytes option \<Rightarrow> bool" where
  "nm_matches NmNil None = True"
| "nm_matches NmNil (Some _) = False"
| "nm_matches (NmMatch _) None = False"
| "nm_matches (NmMatch m) (Some d) = bm_matches m d"

lemmas bm_ctors = bm_any_def bm_exact_def bm_prefix_def bm_suffix_def
lemmas nm_ctors = nm_exact_def nm_prefix_def nm_suffix_def

lemma bm_matches_simps [simp]:
  "bm_matches bm_any x"
  "bm_matches (bm_exact d) x \<longleftrightarrow> x = d"
  "bm_matches (bm_prefix d) x \<longleftrightarrow> d \<noteq> [] \<and> prefix d x"
  "bm_matches (bm_suffix d) x \<longleftrightarrow> d \<noteq> [] \<and> suffix d x"
  by (simp_all add: bm_matches_def bm_ctors)

text \<open>Only the explicit wildcard matches every input.\<close>

lemma bm_universal_iff_wildcard: "(\<forall>x. bm_matches m x) \<longleftrightarrow> bm_is_wildcard m"
proof
  assume all: "\<forall>x. bm_matches m x"
  from all have "bm_matches m []" and "bm_matches m (1 # pattern m)" by auto
  then show "bm_is_wildcard m"
    by (auto simp: bm_matches_def bm_is_wildcard_def split: binary_match_type.splits if_splits)
qed (simp add: bm_matches_def bm_is_wildcard_def)

section \<open>Scopes\<close>

record moqt_scope =
  actions :: "moqt_action list"
  namespace_matches :: "namespace_match list"
  track_match :: "binary_match option"

definition scope_new :: moqt_scope where
  "scope_new = \<lparr>actions = [], namespace_matches = [], track_match = None\<rparr>"

definition scope_with_actions :: "moqt_action list \<Rightarrow> moqt_scope \<Rightarrow> moqt_scope" where
  "scope_with_actions acts s = s\<lparr>actions := acts\<rparr>"

definition scope_with_action :: "moqt_action \<Rightarrow> moqt_scope \<Rightarrow> moqt_scope" where
  "scope_with_action a s = s\<lparr>actions := actions s @ [a]\<rparr>"

definition scope_with_namespace_match :: "namespace_match \<Rightarrow> moqt_scope \<Rightarrow> moqt_scope" where
  "scope_with_namespace_match m s = s\<lparr>namespace_matches := namespace_matches s @ [m]\<rparr>"

definition scope_with_namespace_matches :: "namespace_match list \<Rightarrow> moqt_scope \<Rightarrow> moqt_scope" where
  "scope_with_namespace_matches ms s = s\<lparr>namespace_matches := ms\<rparr>"

definition scope_with_track_match :: "binary_match \<Rightarrow> moqt_scope \<Rightarrow> moqt_scope" where
  "scope_with_track_match m s = s\<lparr>track_match := Some m\<rparr>"

definition allows_action :: "moqt_scope \<Rightarrow> moqt_action \<Rightarrow> bool" where
  "allows_action s a \<longleftrightarrow> a \<in> set (actions s)"

text \<open>The loop over the matchers with their index; \<open>namespace.get(i)\<close> is \<open>None\<close> past the end.\<close>

fun ns_matches_from :: "nat \<Rightarrow> namespace_match list \<Rightarrow> bytes list \<Rightarrow> bool" where
  "ns_matches_from i [] ns = True"
| "ns_matches_from i (m # ms) ns =
     (if \<not> nm_matches m (if i < length ns then Some (ns ! i) else None) then False
      else ns_matches_from (Suc i) ms ns)"

definition scope_matches_namespace :: "moqt_scope \<Rightarrow> bytes list \<Rightarrow> bool" where
  "scope_matches_namespace s ns = ns_matches_from 0 (namespace_matches s) ns"

definition scope_matches_track :: "moqt_scope \<Rightarrow> bytes \<Rightarrow> bool" where
  "scope_matches_track s track = (case track_match s of Some m \<Rightarrow> bm_matches m track | None \<Rightarrow> True)"

definition matches_full_track_name :: "moqt_scope \<Rightarrow> bytes list \<Rightarrow> bytes \<Rightarrow> bool" where
  "matches_full_track_name s ns track =
     (if \<not> ns_matches_from 0 (namespace_matches s) ns then False
      else case track_match s of
             Some m \<Rightarrow> (if \<not> bm_matches m track then False else True)
           | None \<Rightarrow> True)"

lemma matches_full_track_name_split:
  "matches_full_track_name s ns t \<longleftrightarrow> scope_matches_namespace s ns \<and> scope_matches_track s t"
  by (auto simp: matches_full_track_name_def scope_matches_namespace_def scope_matches_track_def
      split: option.splits)

text \<open>The loop is the pointwise match of the selectors against the leading tuple elements.\<close>

lemma ns_matches_from_append:
  "ns_matches_from i (ms @ ms') ns \<longleftrightarrow> ns_matches_from i ms ns \<and> ns_matches_from (i + length ms) ms' ns"
  by (induction ms arbitrary: i) auto

lemma ns_matches_from_nth:
  "ns_matches_from i ms ns \<longleftrightarrow>
     (\<forall>j < length ms. nm_matches (ms ! j) (if i + j < length ns then Some (ns ! (i + j)) else None))"
proof (induction ms arbitrary: i)
  case Nil
  then show ?case by simp
next
  case (Cons m ms)
  show ?case
    unfolding ns_matches_from.simps Cons.IH
    by (auto simp: less_Suc_eq_0_disj All_less_Suc2)
qed

lemma ns_matches_from_exact:
  "ns_matches_from i (map nm_exact path) ns \<longleftrightarrow> prefix path (drop i ns)"
proof (induction path arbitrary: i)
  case Nil
  then show ?case by simp
next
  case (Cons p path)
  show ?case
  proof (cases "i < length ns")
    case True
    then have "drop i ns = ns ! i # drop (Suc i) ns" by (simp add: Cons_nth_drop_Suc)
    with True Cons.IH[of "Suc i"] show ?thesis by (auto simp: nm_exact_def)
  next
    case False
    then show ?thesis by (auto simp: nm_exact_def)
  qed
qed

section \<open>The scope builder\<close>

text \<open>\<open>MoqtScopeBuilder\<close> of \<open>src/src/moqt.rs\<close>.\<close>

record scope_builder =
  b_actions :: "moqt_action list"
  b_namespace_matches :: "namespace_match list"
  b_track_match :: "binary_match option"

definition builder_new :: scope_builder where
  "builder_new = \<lparr>b_actions = [], b_namespace_matches = [], b_track_match = None\<rparr>"

definition b_action :: "moqt_action \<Rightarrow> scope_builder \<Rightarrow> scope_builder" where
  "b_action a b = b\<lparr>b_actions := b_actions b @ [a]\<rparr>"

definition b_extend_actions :: "moqt_action list \<Rightarrow> scope_builder \<Rightarrow> scope_builder" where
  "b_extend_actions acts b = b\<lparr>b_actions := b_actions b @ acts\<rparr>"

definition b_publisher :: "scope_builder \<Rightarrow> scope_builder" where
  "b_publisher b = b_extend_actions [PublishNamespace, Publish] b"

definition b_subscriber :: "scope_builder \<Rightarrow> scope_builder" where
  "b_subscriber b = b_extend_actions [SubscribeNamespace, Subscribe, Fetch] b"

definition b_full_access :: "scope_builder \<Rightarrow> scope_builder" where
  "b_full_access b =
     b_extend_actions
       [ClientSetup, ServerSetup, PublishNamespace, SubscribeNamespace, Subscribe, RequestUpdate,
        Publish, Fetch, TrackStatus] b"

definition b_push_namespace :: "namespace_match \<Rightarrow> scope_builder \<Rightarrow> scope_builder" where
  "b_push_namespace m b = b\<lparr>b_namespace_matches := b_namespace_matches b @ [m]\<rparr>"

definition b_namespace_exact :: "bytes \<Rightarrow> scope_builder \<Rightarrow> scope_builder" where
  "b_namespace_exact ns b = b_push_namespace (nm_exact ns) b"

definition b_namespace_prefix :: "bytes \<Rightarrow> scope_builder \<Rightarrow> scope_builder" where
  "b_namespace_prefix ns b = b_push_namespace (nm_prefix ns) b"

definition b_namespace_suffix :: "bytes \<Rightarrow> scope_builder \<Rightarrow> scope_builder" where
  "b_namespace_suffix ns b = b_push_namespace (nm_suffix ns) b"

definition slash_byte :: byte where
  "slash_byte = 0x2f"

fun push_segments :: "bytes list \<Rightarrow> scope_builder \<Rightarrow> scope_builder" where
  "push_segments [] b = b"
| "push_segments (seg # segs) b =
     push_segments segs (if seg \<noteq> [] then b_push_namespace (nm_exact seg) b else b)"

definition b_namespace_path :: "bytes \<Rightarrow> scope_builder \<Rightarrow> scope_builder" where
  "b_namespace_path path b = push_segments (split_on slash_byte path) b"

definition b_namespace_nil :: "scope_builder \<Rightarrow> scope_builder" where
  "b_namespace_nil b = b_push_namespace NmNil b"

definition b_track_exact :: "bytes \<Rightarrow> scope_builder \<Rightarrow> scope_builder" where
  "b_track_exact t b = b\<lparr>b_track_match := Some (bm_exact t)\<rparr>"

definition b_track_prefix :: "bytes \<Rightarrow> scope_builder \<Rightarrow> scope_builder" where
  "b_track_prefix p b = b\<lparr>b_track_match := (if p = [] then None else Some (bm_prefix p))\<rparr>"

definition b_track_suffix :: "bytes \<Rightarrow> scope_builder \<Rightarrow> scope_builder" where
  "b_track_suffix p b = b\<lparr>b_track_match := (if p = [] then None else Some (bm_suffix p))\<rparr>"

definition b_track_any :: "scope_builder \<Rightarrow> scope_builder" where
  "b_track_any b = b\<lparr>b_track_match := None\<rparr>"

definition b_build :: "scope_builder \<Rightarrow> moqt_scope" where
  "b_build b = \<lparr>actions = b_actions b, namespace_matches = b_namespace_matches b,
                track_match = b_track_match b\<rparr>"

lemmas builder_defs = builder_new_def b_action_def b_extend_actions_def b_publisher_def
  b_subscriber_def b_full_access_def b_push_namespace_def b_namespace_exact_def
  b_namespace_prefix_def b_namespace_suffix_def b_namespace_nil_def b_track_exact_def
  b_track_prefix_def b_track_suffix_def b_track_any_def b_build_def

section \<open>Roles\<close>

definition role_publisher :: "bytes \<Rightarrow> bytes \<Rightarrow> moqt_scope" where
  "role_publisher namespace track_pre =
     b_build (b_track_prefix track_pre (b_namespace_exact namespace (b_publisher builder_new)))"

definition role_subscriber :: "bytes \<Rightarrow> bytes \<Rightarrow> moqt_scope" where
  "role_subscriber namespace track_pre =
     b_build (b_track_prefix track_pre (b_namespace_exact namespace (b_subscriber builder_new)))"

definition role_admin :: "bytes \<Rightarrow> moqt_scope" where
  "role_admin namespace = b_build (b_namespace_exact namespace (b_full_access builder_new))"

definition role_read_only :: "bytes \<Rightarrow> bytes \<Rightarrow> moqt_scope" where
  "role_read_only namespace track_pre =
     b_build (b_track_prefix track_pre (b_namespace_exact namespace
       (b_extend_actions [Subscribe, Fetch] builder_new)))"

lemmas role_defs = role_publisher_def role_subscriber_def role_admin_def role_read_only_def

text \<open>What a scope grants: the action is listed and the full track name matches.\<close>

definition scope_grants :: "moqt_scope \<Rightarrow> moqt_action \<Rightarrow> bytes list \<Rightarrow> bytes \<Rightarrow> bool" where
  "scope_grants s a ns t \<longleftrightarrow> allows_action s a \<and> matches_full_track_name s ns t"

lemma push_segments_matches:
  "b_namespace_matches (push_segments segs b) =
     b_namespace_matches b @ map nm_exact (filter (\<lambda>x. x \<noteq> []) segs)"
  by (induction segs arbitrary: b) (auto simp: b_push_namespace_def)

lemma push_segments_other [simp]:
  "b_actions (push_segments segs b) = b_actions b"
  "b_track_match (push_segments segs b) = b_track_match b"
  by (induction segs arbitrary: b) (auto simp: b_push_namespace_def)

definition path_segments :: "bytes \<Rightarrow> bytes list" where
  "path_segments path = filter (\<lambda>x. x \<noteq> []) (split_on slash_byte path)"

lemma namespace_path_matches:
  "b_namespace_matches (b_namespace_path path b) = b_namespace_matches b @ map nm_exact (path_segments path)"
  by (simp add: b_namespace_path_def push_segments_matches path_segments_def)

text \<open>A scope built from a slash-separated path matches exactly the namespaces that begin with the path's non-empty
  segments, and every track.\<close>

lemma build_namespace_path_scope:
  assumes "b_namespace_matches b = []" "b_track_match b = None"
  shows "matches_full_track_name (b_build (b_namespace_path path b)) ns t \<longleftrightarrow>
           prefix (path_segments path) ns"
  using assms
  by (simp add: matches_full_track_name_split scope_matches_namespace_def scope_matches_track_def
      b_build_def namespace_path_matches ns_matches_from_exact)
     (simp add: b_namespace_path_def)

lemma build_namespace_path_nil_scope:
  assumes "b_namespace_matches b = []" "b_track_match b = None"
  shows "matches_full_track_name (b_build (b_namespace_nil (b_namespace_path path b))) ns t \<longleftrightarrow>
           ns = path_segments path"
proof -
  have "ns_matches_from 0 (map nm_exact (path_segments path) @ [NmNil]) ns \<longleftrightarrow> ns = path_segments path"
    unfolding ns_matches_from_append ns_matches_from_exact
    by (auto simp: prefix_def)
  with assms show ?thesis
    by (simp add: matches_full_track_name_split scope_matches_namespace_def scope_matches_track_def
        b_build_def b_namespace_nil_def b_push_namespace_def namespace_path_matches)
       (simp add: b_namespace_path_def)
qed

lemma exact_head_scope:
  "ns_matches_from 0 [nm_exact d] ns \<longleftrightarrow> ns \<noteq> [] \<and> hd ns = d"
  by (cases ns) (auto simp: nm_exact_def)

lemma track_prefix_scope:
  "(case (if p = [] then None else Some (bm_prefix p)) of Some m \<Rightarrow> bm_matches m t | None \<Rightarrow> True)
     \<longleftrightarrow> prefix p t"
  by simp

end
