(* ===== verification/Claims.thy ===== *)
theory Claims
  imports Net_Id Moqt_Scope
begin

text \<open>
  The claim data model of \<open>src/src/claims.rs\<close>: claim keys, the records of each claim family with
  their checked constructors, the composite claims, and \<open>CatToken\<close> with its setters.

  A token is a datatype because composite claims nest tokens; its \<open>custom\<close> \<open>HashMap\<close> is the
  association list of its entries, one per key.
\<close>

section \<open>Claim keys\<close>

abbreviation "CLAIM_ISS \<equiv> 1 :: int"
abbreviation "CLAIM_SUB \<equiv> 2 :: int"
abbreviation "CLAIM_AUD \<equiv> 3 :: int"
abbreviation "CLAIM_EXP \<equiv> 4 :: int"
abbreviation "CLAIM_NBF \<equiv> 5 :: int"
abbreviation "CLAIM_IAT \<equiv> 6 :: int"
abbreviation "CLAIM_CTI \<equiv> 7 :: int"
abbreviation "CLAIM_CNF \<equiv> 8 :: int"
abbreviation "CLAIM_GEOHASH \<equiv> 282 :: int"
abbreviation "CLAIM_CATREPLAY \<equiv> 308 :: int"
abbreviation "CLAIM_CATPOR \<equiv> 309 :: int"
abbreviation "CLAIM_CATV \<equiv> 310 :: int"
abbreviation "CLAIM_CATNIP \<equiv> 311 :: int"
abbreviation "CLAIM_CATU \<equiv> 312 :: int"
abbreviation "CLAIM_CATM \<equiv> 313 :: int"
abbreviation "CLAIM_CATALPN \<equiv> 314 :: int"
abbreviation "CLAIM_CATH \<equiv> 315 :: int"
abbreviation "CLAIM_CATGEOISO3166 \<equiv> 316 :: int"
abbreviation "CLAIM_CATGEOCOORD \<equiv> 317 :: int"
abbreviation "CLAIM_CATGEOALT \<equiv> 318 :: int"
abbreviation "CLAIM_CATTPK \<equiv> 319 :: int"
abbreviation "CLAIM_CATIFDATA \<equiv> 320 :: int"
abbreviation "CLAIM_CATDPOP \<equiv> 321 :: int"
abbreviation "CLAIM_CATIF \<equiv> 322 :: int"
abbreviation "CLAIM_CATR \<equiv> 323 :: int"
abbreviation "CLAIM_OR \<equiv> 324 :: int"
abbreviation "CLAIM_NOR \<equiv> 325 :: int"
abbreviation "CLAIM_AND \<equiv> 326 :: int"
abbreviation "CLAIM_MOQT \<equiv> 327 :: int"
abbreviation "CLAIM_MOQT_REVAL \<equiv> 328 :: int"

abbreviation "CATDPOP_CRIT \<equiv> - 1 :: int"
abbreviation "CATDPOP_WINDOW \<equiv> 0 :: int"
abbreviation "CATDPOP_HONOR_JTI \<equiv> 1 :: int"

section \<open>Core, CAT and informational claims\<close>

record core_claims =
  c_iss :: "string option"
  c_aud :: "string list option"
  c_exp :: "int option"
  c_nbf :: "int option"
  c_cti :: "bytes option"

datatype replay_protection = ReplayPermitted | ReplayProhibited | ReplayReuseDetection

definition replay_protection_try_from :: "u32 \<Rightarrow> replay_protection result" where
  "replay_protection_try_from v =
     (if v = 0 then Inr ReplayPermitted
      else if v = 1 then Inr ReplayProhibited
      else if v = 2 then Inr ReplayReuseDetection
      else Inl (InvalidClaimValue ''Invalid catreplay value: ''))"

fun replay_protection_u32 :: "replay_protection \<Rightarrow> u32" where
  "replay_protection_u32 ReplayPermitted = 0"
| "replay_protection_u32 ReplayProhibited = 1"
| "replay_protection_u32 ReplayReuseDetection = 2"

record probability_of_rejection =
  por_probability :: f64
  por_id :: bytes
  por_expiration :: "int option"

definition por_new :: "f64 \<Rightarrow> bytes \<Rightarrow> probability_of_rejection" where
  "por_new p i = \<lparr>por_probability = p, por_id = i, por_expiration = None\<rparr>"

definition por_with_expiration :: "int \<Rightarrow> probability_of_rejection \<Rightarrow> probability_of_rejection" where
  "por_with_expiration e p = p\<lparr>por_expiration := Some e\<rparr>"

record geo_altitude =
  ga_altitude :: f64
  ga_deviation :: f64

record geo_coordinate =
  geo_lat :: f64
  geo_lon :: f64
  geo_radius :: u32

datatype uri_pattern =
    UpExact string | UpPrefix string | UpSuffix string | UpRegex string | UpHash string

datatype match_value =
    MvExact string
  | MvPrefix string
  | MvSuffix string
  | MvContains string
  | MvRegex string
  | MvSha256 bytes
  | MvSha512_256 bytes

record uri_match_rule =
  ur_component :: int
  ur_matches :: "match_value list"

record header_match_rule =
  hr_name :: string
  hr_matches :: "match_value list"

record cat_claims =
  catreplay :: "replay_protection option"
  catpor :: "probability_of_rejection option"
  catv :: "u32 option"
  catnip :: "network_identifier list option"
  catu :: "uri_match_rule list option"
  catm :: "string list option"
  catalpn :: "bytes list option"
  cath :: "header_match_rule list option"
  catgeoiso3166 :: "string list option"
  catgeocoord :: "geo_coordinate list option"
  geohash :: "string list option"
  catgeoalt :: "geo_altitude option"
  cattpk :: "bytes option"

record informational_claims =
  i_sub :: "string option"
  i_iat :: "int option"
  catifdata :: "string list option"

lemma replay_protection_roundtrip [simp]:
  "replay_protection_try_from (replay_protection_u32 r) = Inr r"
  by (cases r) (simp_all add: replay_protection_try_from_def)

section \<open>Key confirmation and DPoP settings\<close>

record confirmation_claim =
  cnf_jkt :: bytes
  cnf_ckt :: "bytes option"

definition confirmation_new :: "bytes \<Rightarrow> confirmation_claim" where
  "confirmation_new jkt = \<lparr>cnf_jkt = jkt, cnf_ckt = None\<rparr>"

definition confirmation_with_ckt :: "bytes \<Rightarrow> confirmation_claim \<Rightarrow> confirmation_claim" where
  "confirmation_with_ckt ckt c = c\<lparr>cnf_ckt := Some ckt\<rparr>"

definition catdpop_max_window_secs :: int where
  "catdpop_max_window_secs = 3600"

record catdpop_settings =
  dp_crit :: "int list option"
  dp_window :: "int option"
  dp_honor_jti :: "bool option"

definition catdpop_new :: catdpop_settings where
  "catdpop_new = \<lparr>dp_crit = None, dp_window = None, dp_honor_jti = None\<rparr>"

definition always_understood :: "int list" where
  "always_understood = [CATDPOP_CRIT, CATDPOP_WINDOW, CATDPOP_HONOR_JTI]"

definition check_crit_key :: "int \<Rightarrow> unit result" where
  "check_crit_key key =
     (if key \<in> set always_understood
      then Inl (InvalidClaimValue ''catdpop crit must not contain always-understood key: '')
      else Inr ())"

definition with_critical :: "int list \<Rightarrow> catdpop_settings \<Rightarrow> catdpop_settings result" where
  "with_critical keys s = rbind (for_each check_crit_key keys) (\<lambda>_. Inr (s\<lparr>dp_crit := Some keys\<rparr>))"

definition with_window :: "int \<Rightarrow> catdpop_settings \<Rightarrow> catdpop_settings result" where
  "with_window seconds s =
     (if seconds \<le> 0 then Inl (InvalidClaimValue ''catdpop window must be > 0 (got '')
      else if seconds > catdpop_max_window_secs then Inl (InvalidClaimValue ''catdpop window '')
      else Inr (s\<lparr>dp_window := Some seconds\<rparr>))"

definition with_jti_processing :: "bool \<Rightarrow> catdpop_settings \<Rightarrow> catdpop_settings" where
  "with_jti_processing honor s = s\<lparr>dp_honor_jti := Some honor\<rparr>"

definition validate_crit :: "catdpop_settings \<Rightarrow> unit result" where
  "validate_crit s =
     (case dp_crit s of Some crit \<Rightarrow> for_each check_crit_key crit | None \<Rightarrow> Inr ())"

definition effective_window :: "catdpop_settings \<Rightarrow> int" where
  "effective_window s = (case dp_window s of Some w \<Rightarrow> w | None \<Rightarrow> 300)"

definition should_honor_jti :: "catdpop_settings \<Rightarrow> bool" where
  "should_honor_jti s = (case dp_honor_jti s of Some h \<Rightarrow> h | None \<Rightarrow> True)"

record dpop_claims =
  cnf :: "confirmation_claim option"
  catdpop :: "catdpop_settings option"

lemmas catdpop_defs = catdpop_new_def with_critical_def with_window_def with_jti_processing_def
  validate_crit_def effective_window_def should_honor_jti_def check_crit_key_def

text \<open>The settings the public constructors can build.\<close>

inductive catdpop_built :: "catdpop_settings \<Rightarrow> bool" where
  built_new: "catdpop_built catdpop_new"
| built_crit: "catdpop_built s \<Longrightarrow> with_critical ks s = Inr s' \<Longrightarrow> catdpop_built s'"
| built_window: "catdpop_built s \<Longrightarrow> with_window w s = Inr s' \<Longrightarrow> catdpop_built s'"
| built_jti: "catdpop_built s \<Longrightarrow> catdpop_built (with_jti_processing h s)"

text \<open>Whatever sequence of builders made them, DPoP settings list only critical keys the validator understands
  and have a positive window of at most an hour.\<close>

lemma catdpop_built_wf:
  assumes "catdpop_built s"
  shows "validate_crit s = Inr () \<and> 0 < effective_window s \<and>
         effective_window s \<le> catdpop_max_window_secs"
  using assms
proof (induction rule: catdpop_built.induct)
  case built_new
  then show ?case by (simp add: catdpop_defs catdpop_max_window_secs_def)
next
  case (built_crit s ks s')
  then show ?case by (auto simp: catdpop_defs)
next
  case (built_window s w s')
  then show ?case by (auto simp: catdpop_defs split: if_splits)
next
  case (built_jti s h)
  then show ?case by (simp add: catdpop_defs)
qed

section \<open>Per-claim failure actions and renewal\<close>

record cat_if_action =
  ia_status :: u32
  ia_headers :: "(string \<times> string) list option"
  ia_kid :: "string option"

definition name_byte_ok :: "char \<Rightarrow> bool" where
  "name_byte_ok b \<longleftrightarrow> \<not> (b = CHR 0x00 \<or> b = CHR 0x0D \<or> b = CHR 0x0A \<or> b = CHR '':'')"

definition value_byte_ok :: "char \<Rightarrow> bool" where
  "value_byte_ok b \<longleftrightarrow> \<not> (b = CHR 0x00 \<or> b = CHR 0x0D \<or> b = CHR 0x0A)"

definition ensure_header_value_clean :: "string \<Rightarrow> string \<Rightarrow> unit result" where
  "ensure_header_value_clean name v =
     rbind (for_each (\<lambda>b. if name_byte_ok b then Inr ()
              else Inl (InvalidClaimValue ''header name contains prohibited byte: 0x'')) name)
       (\<lambda>_. for_each (\<lambda>b. if value_byte_ok b then Inr ()
              else Inl (InvalidClaimValue ''header value for '')) v)"

definition if_action_new :: "u32 \<Rightarrow> cat_if_action result" where
  "if_action_new status =
     (if \<not> (100 \<le> status \<and> status \<le> 599)
      then Inl (InvalidClaimValue ''catif status must be an HTTP status code in 100..=599 (got '')
      else Inr \<lparr>ia_status = status, ia_headers = None, ia_kid = None\<rparr>)"

definition if_action_with_headers ::
  "(string \<times> string) list \<Rightarrow> cat_if_action \<Rightarrow> cat_if_action result" where
  "if_action_with_headers hs a =
     rbind (for_each (\<lambda>(n, v). ensure_header_value_clean n v) hs)
       (\<lambda>_. Inr (a\<lparr>ia_headers := Some hs\<rparr>))"

definition if_action_with_kid :: "string \<Rightarrow> cat_if_action \<Rightarrow> cat_if_action" where
  "if_action_with_kid kid a = a\<lparr>ia_kid := Some kid\<rparr>"

lemma ensure_header_value_clean_ok:
  "ensure_header_value_clean n v = Inr () \<longleftrightarrow> list_all name_byte_ok n \<and> list_all value_byte_ok v"
  by (auto simp: ensure_header_value_clean_def list_all_iff split: if_splits)

datatype cat_renewal_type = RenewAutomatic | RenewCookie | RenewHeader | RenewRedirect

definition renewal_type_from_u32 :: "u32 \<Rightarrow> cat_renewal_type option" where
  "renewal_type_from_u32 v =
     (if v = 0 then Some RenewAutomatic
      else if v = 1 then Some RenewCookie
      else if v = 2 then Some RenewHeader
      else if v = 3 then Some RenewRedirect
      else None)"

record cat_renewal =
  rn_type :: cat_renewal_type
  rn_expadd :: "f64 option"
  rn_deadline :: "f64 option"
  rn_cookie_name :: "string option"
  rn_header_name :: "string option"
  rn_cookie_params :: "string list option"
  rn_header_params :: "string list option"
  rn_status_code :: "u32 option"

definition validate_renewal_number :: "f64 \<Rightarrow> f64 result" where
  "validate_renewal_number v =
     (if f64_is_nan v then Inl (InvalidClaimValue ''catr '')
      else if f64_is_infinite v then Inl (InvalidClaimValue ''catr '')
      else if f64_is_zero v \<and> f64_sign_negative v then Inl (InvalidClaimValue ''catr '')
      else Inr v)"

definition renewal_base :: "cat_renewal_type \<Rightarrow> cat_renewal" where
  "renewal_base ty =
     \<lparr>rn_type = ty, rn_expadd = None, rn_deadline = None, rn_cookie_name = None,
      rn_header_name = None, rn_cookie_params = None, rn_header_params = None,
      rn_status_code = None\<rparr>"

definition renewal_automatic :: cat_renewal where
  "renewal_automatic = renewal_base RenewAutomatic"

definition renewal_cookie :: "string \<Rightarrow> cat_renewal" where
  "renewal_cookie name = (renewal_base RenewCookie)\<lparr>rn_cookie_name := Some name\<rparr>"

definition renewal_header :: "string \<Rightarrow> cat_renewal" where
  "renewal_header name = (renewal_base RenewHeader)\<lparr>rn_header_name := Some name\<rparr>"

definition renewal_redirect :: "u32 \<Rightarrow> cat_renewal" where
  "renewal_redirect code = (renewal_base RenewRedirect)\<lparr>rn_status_code := Some code\<rparr>"

definition with_expadd :: "f64 \<Rightarrow> cat_renewal \<Rightarrow> cat_renewal result" where
  "with_expadd seconds r = rbind (validate_renewal_number seconds) (\<lambda>v. Inr (r\<lparr>rn_expadd := Some v\<rparr>))"

definition with_deadline :: "f64 \<Rightarrow> cat_renewal \<Rightarrow> cat_renewal result" where
  "with_deadline ts r = rbind (validate_renewal_number ts) (\<lambda>v. Inr (r\<lparr>rn_deadline := Some v\<rparr>))"

definition with_cookie_name :: "string \<Rightarrow> cat_renewal \<Rightarrow> cat_renewal" where
  "with_cookie_name n r = r\<lparr>rn_cookie_name := Some n\<rparr>"

definition with_header_name :: "string \<Rightarrow> cat_renewal \<Rightarrow> cat_renewal" where
  "with_header_name n r = r\<lparr>rn_header_name := Some n\<rparr>"

definition with_cookie_params :: "string list \<Rightarrow> cat_renewal \<Rightarrow> cat_renewal" where
  "with_cookie_params ps r = r\<lparr>rn_cookie_params := Some ps\<rparr>"

definition with_header_params :: "string list \<Rightarrow> cat_renewal \<Rightarrow> cat_renewal" where
  "with_header_params ps r = r\<lparr>rn_header_params := Some ps\<rparr>"

definition with_status_code :: "u32 \<Rightarrow> cat_renewal \<Rightarrow> cat_renewal" where
  "with_status_code c r = r\<lparr>rn_status_code := Some c\<rparr>"

record request_claims =
  catif :: "(int \<times> cat_if_action) list option"
  catr :: "cat_renewal option"

text \<open>A renewal number is any finite double but the negative zero: negative offsets pass.\<close>

lemma validate_renewal_number_iff:
  "validate_renewal_number v = Inr w \<longleftrightarrow> w = v \<and> (\<exists>r. v = Fin r)"
  by (cases v) (auto simp: validate_renewal_number_def)

record moqt_claims =
  mq_moqt :: "moqt_scope list option"
  mq_reval :: "f64 option"

end
