(* ===== verification/Cat_Token.thy ===== *)
theory Cat_Token
  imports Claims "HOL-Library.AList"
begin

text \<open>
  \<open>CatToken\<close> and the composite claims of \<open>src/src/claims.rs\<close>: the token with its setters, the
  depth measures, the evaluation of the OR, NOR and AND operators against a validator of tokens,
  the custom claims and the reserved keys.

  Shown: the evaluation agrees with the Boolean reading of the operators as long as the nesting is
  within \<open>MAX_EVALUATE_DEPTH\<close>, the depth check is exactly the bound on the nesting, and setting a
  custom claim touches no other claim.
\<close>

section \<open>Tokens\<close>

datatype composite_operator = OpOr | OpNor | OpAnd

datatype 'c composite_claims =
  CompositeClaims (or_claim: "'c option") (nor_claim: "'c option") (and_claim: "'c option")

datatype claim_set =
    CsToken cat_token
  | CsComposite composite_claim
and composite_claim =
    CompositeClaim (cc_op: composite_operator) (cc_claims: "claim_set list")
and cat_token =
    CatToken (t_core: core_claims) (t_cat: cat_claims) (t_informational: informational_claims)
      (t_dpop: dpop_claims) (t_request: request_claims)
      (t_composite: "composite_claim composite_claims") (t_moqt: moqt_claims)
      (t_custom: "(int \<times> cbor) list")

definition core_default :: core_claims where
  "core_default = \<lparr>c_iss = None, c_aud = None, c_exp = None, c_nbf = None, c_cti = None\<rparr>"

definition cat_default :: cat_claims where
  "cat_default =
     \<lparr>catreplay = None, catpor = None, catv = None, catnip = None, catu = None, catm = None,
      catalpn = None, cath = None, catgeoiso3166 = None, catgeocoord = None, geohash = None,
      catgeoalt = None, cattpk = None\<rparr>"

definition informational_default :: informational_claims where
  "informational_default = \<lparr>i_sub = None, i_iat = None, catifdata = None\<rparr>"

definition dpop_default :: dpop_claims where
  "dpop_default = \<lparr>cnf = None, catdpop = None\<rparr>"

definition request_default :: request_claims where
  "request_default = \<lparr>catif = None, catr = None\<rparr>"

definition moqt_default :: moqt_claims where
  "moqt_default = \<lparr>mq_moqt = None, mq_reval = None\<rparr>"

definition token_new :: cat_token where
  "token_new = CatToken core_default cat_default informational_default dpop_default
     request_default (CompositeClaims None None None) moqt_default []"

lemmas default_defs = core_default_def cat_default_def informational_default_def dpop_default_def
  request_default_def moqt_default_def token_new_def

fun upd_core :: "(core_claims \<Rightarrow> core_claims) \<Rightarrow> cat_token \<Rightarrow> cat_token" where
  "upd_core f (CatToken co ca i d r c m u) = CatToken (f co) ca i d r c m u"

fun upd_cat :: "(cat_claims \<Rightarrow> cat_claims) \<Rightarrow> cat_token \<Rightarrow> cat_token" where
  "upd_cat f (CatToken co ca i d r c m u) = CatToken co (f ca) i d r c m u"

fun upd_informational :: "(informational_claims \<Rightarrow> informational_claims) \<Rightarrow> cat_token \<Rightarrow> cat_token" where
  "upd_informational f (CatToken co ca i d r c m u) = CatToken co ca (f i) d r c m u"

fun upd_dpop :: "(dpop_claims \<Rightarrow> dpop_claims) \<Rightarrow> cat_token \<Rightarrow> cat_token" where
  "upd_dpop f (CatToken co ca i d r c m u) = CatToken co ca i (f d) r c m u"

fun upd_request :: "(request_claims \<Rightarrow> request_claims) \<Rightarrow> cat_token \<Rightarrow> cat_token" where
  "upd_request f (CatToken co ca i d r c m u) = CatToken co ca i d (f r) c m u"

fun upd_composite ::
  "(composite_claim composite_claims \<Rightarrow> composite_claim composite_claims) \<Rightarrow> cat_token \<Rightarrow> cat_token" where
  "upd_composite f (CatToken co ca i d r c m u) = CatToken co ca i d r (f c) m u"

fun upd_moqt :: "(moqt_claims \<Rightarrow> moqt_claims) \<Rightarrow> cat_token \<Rightarrow> cat_token" where
  "upd_moqt f (CatToken co ca i d r c m u) = CatToken co ca i d r c (f m) u"

fun upd_custom :: "((int \<times> cbor) list \<Rightarrow> (int \<times> cbor) list) \<Rightarrow> cat_token \<Rightarrow> cat_token" where
  "upd_custom f (CatToken co ca i d r c m u) = CatToken co ca i d r c m (f u)"

section \<open>Setters\<close>

text \<open>\<open>match field { Some(v) => v.push(x), None => field = Some(vec![x]) }\<close>\<close>

definition push_opt :: "'a \<Rightarrow> 'a list option \<Rightarrow> 'a list option" where
  "push_opt x v = (case v of Some xs \<Rightarrow> Some (xs @ [x]) | None \<Rightarrow> Some [x])"

definition with_issuer :: "string \<Rightarrow> cat_token \<Rightarrow> cat_token" where
  "with_issuer s = upd_core (\<lambda>c. c\<lparr>c_iss := Some s\<rparr>)"

definition with_audience :: "string list \<Rightarrow> cat_token \<Rightarrow> cat_token" where
  "with_audience a = upd_core (\<lambda>c. c\<lparr>c_aud := Some a\<rparr>)"

definition with_single_audience :: "string \<Rightarrow> cat_token \<Rightarrow> cat_token" where
  "with_single_audience a = with_audience [a]"

definition with_expiration :: "int \<Rightarrow> cat_token \<Rightarrow> cat_token" where
  "with_expiration e = upd_core (\<lambda>c. c\<lparr>c_exp := Some e\<rparr>)"

definition with_not_before :: "int \<Rightarrow> cat_token \<Rightarrow> cat_token" where
  "with_not_before n = upd_core (\<lambda>c. c\<lparr>c_nbf := Some n\<rparr>)"

definition with_cwt_id :: "bytes \<Rightarrow> cat_token \<Rightarrow> cat_token" where
  "with_cwt_id i = upd_core (\<lambda>c. c\<lparr>c_cti := Some i\<rparr>)"

definition with_cwt_id_str :: "string \<Rightarrow> cat_token \<Rightarrow> cat_token" where
  "with_cwt_id_str i = with_cwt_id (map (\<lambda>c. of_nat (ord_of c)) i)"

definition with_version :: "u32 \<Rightarrow> cat_token \<Rightarrow> cat_token" where
  "with_version v = upd_cat (\<lambda>c. c\<lparr>catv := Some v\<rparr>)"

definition with_uri_match_rules :: "uri_match_rule list \<Rightarrow> cat_token \<Rightarrow> cat_token" where
  "with_uri_match_rules rs = upd_cat (\<lambda>c. c\<lparr>catu := Some rs\<rparr>)"

definition with_replay_protection :: "replay_protection \<Rightarrow> cat_token \<Rightarrow> cat_token" where
  "with_replay_protection m = upd_cat (\<lambda>c. c\<lparr>catreplay := Some m\<rparr>)"

definition with_probability_of_rejection ::
  "f64 \<Rightarrow> bytes \<Rightarrow> int option \<Rightarrow> cat_token \<Rightarrow> cat_token" where
  "with_probability_of_rejection p i e =
     upd_cat (\<lambda>c. c\<lparr>catpor := Some \<lparr>por_probability = p, por_id = i, por_expiration = e\<rparr>\<rparr>)"

definition with_geo_coordinate :: "f64 \<Rightarrow> f64 \<Rightarrow> u32 \<Rightarrow> cat_token \<Rightarrow> cat_token" where
  "with_geo_coordinate lat lon rad =
     upd_cat (\<lambda>c. c\<lparr>catgeocoord :=
       push_opt \<lparr>geo_lat = lat, geo_lon = lon, geo_radius = rad\<rparr> (catgeocoord c)\<rparr>)"

definition with_geo_coordinates :: "geo_coordinate list \<Rightarrow> cat_token \<Rightarrow> cat_token" where
  "with_geo_coordinates gs = upd_cat (\<lambda>c. c\<lparr>catgeocoord := Some gs\<rparr>)"

definition with_geohash :: "string \<Rightarrow> cat_token \<Rightarrow> cat_token" where
  "with_geohash g = upd_cat (\<lambda>c. c\<lparr>geohash := push_opt g (geohash c)\<rparr>)"

definition with_subject :: "string \<Rightarrow> cat_token \<Rightarrow> cat_token" where
  "with_subject s = upd_informational (\<lambda>i. i\<lparr>i_sub := Some s\<rparr>)"

definition with_issued_at :: "int \<Rightarrow> cat_token \<Rightarrow> cat_token" where
  "with_issued_at n = upd_informational (\<lambda>i. i\<lparr>i_iat := Some n\<rparr>)"

definition with_interface_data :: "string \<Rightarrow> cat_token \<Rightarrow> cat_token" where
  "with_interface_data d = upd_informational (\<lambda>i. i\<lparr>catifdata := push_opt d (catifdata i)\<rparr>)"

definition with_interface_data_array :: "string list \<Rightarrow> cat_token \<Rightarrow> cat_token" where
  "with_interface_data_array ds = upd_informational (\<lambda>i. i\<lparr>catifdata := Some ds\<rparr>)"

definition with_confirmation :: "bytes \<Rightarrow> cat_token \<Rightarrow> cat_token" where
  "with_confirmation jkt = upd_dpop (\<lambda>d. d\<lparr>cnf := Some (confirmation_new jkt)\<rparr>)"

definition with_cose_key_thumbprint :: "bytes \<Rightarrow> cat_token \<Rightarrow> cat_token" where
  "with_cose_key_thumbprint ckt =
     upd_dpop (\<lambda>d. d\<lparr>cnf := (case cnf d of Some c \<Rightarrow> Some (c\<lparr>cnf_ckt := Some ckt\<rparr>)
                             | None \<Rightarrow> Some \<lparr>cnf_jkt = [], cnf_ckt = Some ckt\<rparr>)\<rparr>)"

definition with_dpop_settings :: "catdpop_settings \<Rightarrow> cat_token \<Rightarrow> cat_token" where
  "with_dpop_settings s = upd_dpop (\<lambda>d. d\<lparr>catdpop := Some s\<rparr>)"

definition with_dpop_window :: "int \<Rightarrow> cat_token \<Rightarrow> cat_token result" where
  "with_dpop_window w t =
     rbind (with_window w (case catdpop (t_dpop t) of Some s \<Rightarrow> s | None \<Rightarrow> catdpop_new))
       (\<lambda>s. Inr (upd_dpop (\<lambda>d. d\<lparr>catdpop := Some s\<rparr>) t))"

definition with_if_action :: "int \<Rightarrow> cat_if_action \<Rightarrow> cat_token \<Rightarrow> cat_token" where
  "with_if_action k a = upd_request (\<lambda>r. r\<lparr>catif := push_opt (k, a) (catif r)\<rparr>)"

definition with_if_actions :: "(int \<times> cat_if_action) list \<Rightarrow> cat_token \<Rightarrow> cat_token" where
  "with_if_actions as = upd_request (\<lambda>r. r\<lparr>catif := Some as\<rparr>)"

definition with_renewal :: "cat_renewal \<Rightarrow> cat_token \<Rightarrow> cat_token" where
  "with_renewal rn = upd_request (\<lambda>r. r\<lparr>catr := Some rn\<rparr>)"

definition with_header_match_rules :: "header_match_rule list \<Rightarrow> cat_token \<Rightarrow> cat_token" where
  "with_header_match_rules rs = upd_cat (\<lambda>c. c\<lparr>cath := Some rs\<rparr>)"

definition with_network_identifiers :: "network_identifier list \<Rightarrow> cat_token \<Rightarrow> cat_token" where
  "with_network_identifiers ns = upd_cat (\<lambda>c. c\<lparr>catnip := Some ns\<rparr>)"

definition with_asn :: "u32 \<Rightarrow> cat_token \<Rightarrow> cat_token" where
  "with_asn a = upd_cat (\<lambda>c. c\<lparr>catnip := push_opt (Asn a) (catnip c)\<rparr>)"

definition with_asn_range :: "u32 \<Rightarrow> u32 \<Rightarrow> cat_token \<Rightarrow> cat_token" where
  "with_asn_range s e = upd_cat (\<lambda>c. c\<lparr>catnip := push_opt (AsnRange s e) (catnip c)\<rparr>)"

definition with_or_composite :: "composite_claim \<Rightarrow> cat_token \<Rightarrow> cat_token" where
  "with_or_composite o' =
     upd_composite (\<lambda>c. CompositeClaims (Some o') (nor_claim c) (and_claim c))"

definition with_nor_composite :: "composite_claim \<Rightarrow> cat_token \<Rightarrow> cat_token" where
  "with_nor_composite n =
     upd_composite (\<lambda>c. CompositeClaims (or_claim c) (Some n) (and_claim c))"

definition with_and_composite :: "composite_claim \<Rightarrow> cat_token \<Rightarrow> cat_token" where
  "with_and_composite a =
     upd_composite (\<lambda>c. CompositeClaims (or_claim c) (nor_claim c) (Some a))"

definition with_moqt_scopes :: "moqt_scope list \<Rightarrow> cat_token \<Rightarrow> cat_token" where
  "with_moqt_scopes ss = upd_moqt (\<lambda>m. m\<lparr>mq_moqt := Some ss\<rparr>)"

definition with_moqt_scope :: "moqt_scope \<Rightarrow> cat_token \<Rightarrow> cat_token" where
  "with_moqt_scope s = upd_moqt (\<lambda>m. m\<lparr>mq_moqt := push_opt s (mq_moqt m)\<rparr>)"

definition with_moqt_reval :: "f64 \<Rightarrow> cat_token \<Rightarrow> cat_token" where
  "with_moqt_reval x = upd_moqt (\<lambda>m. m\<lparr>mq_reval := Some x\<rparr>)"

definition scope_allows :: "moqt_scope \<Rightarrow> moqt_action \<Rightarrow> bytes list \<Rightarrow> bytes \<Rightarrow> bool" where
  "scope_allows s action ns track =
     (if \<not> allows_action s action then False
      else if \<not> scope_matches_namespace s ns then False
      else if track_match s \<noteq> None \<and> \<not> scope_matches_track s track then False
      else True)"

definition allows_moqt_action :: "cat_token \<Rightarrow> moqt_action \<Rightarrow> bytes list \<Rightarrow> bytes \<Rightarrow> bool" where
  "allows_moqt_action t action ns track =
     (case mq_moqt (t_moqt t) of
        Some scopes \<Rightarrow> list_ex (\<lambda>s. scope_allows s action ns track) scopes
      | None \<Rightarrow> False)"

lemma scope_allows_grants: "scope_allows s a ns t \<longleftrightarrow> scope_grants s a ns t"
  by (auto simp: scope_allows_def scope_grants_def matches_full_track_name_split
      scope_matches_track_def split: option.splits)

lemma allows_moqt_action_iff:
  "allows_moqt_action t a ns tr \<longleftrightarrow>
     (\<exists>ss s. mq_moqt (t_moqt t) = Some ss \<and> s \<in> set ss \<and> scope_grants s a ns tr)"
  by (auto simp: allows_moqt_action_def scope_allows_grants list_ex_iff split: option.splits)

section \<open>Custom claims\<close>

definition is_reserved_claim_id :: "int \<Rightarrow> bool" where
  "is_reserved_claim_id key \<longleftrightarrow> key \<in> set
     [CLAIM_ISS, CLAIM_SUB, CLAIM_AUD, CLAIM_EXP, CLAIM_NBF, CLAIM_IAT, CLAIM_CTI, CLAIM_CNF,
      CLAIM_GEOHASH, CLAIM_CATREPLAY, CLAIM_CATPOR, CLAIM_CATV, CLAIM_CATNIP, CLAIM_CATU,
      CLAIM_CATM, CLAIM_CATALPN, CLAIM_CATH, CLAIM_CATGEOISO3166, CLAIM_CATGEOCOORD,
      CLAIM_CATGEOALT, CLAIM_CATTPK, CLAIM_CATIFDATA, CLAIM_CATDPOP, CLAIM_CATIF, CLAIM_CATR,
      CLAIM_MOQT, CLAIM_MOQT_REVAL]"

definition custom_claim :: "cat_token \<Rightarrow> int \<Rightarrow> cbor option" where
  "custom_claim t key = map_of (t_custom t) key"

definition set_custom_claim :: "int \<Rightarrow> cbor \<Rightarrow> cat_token \<Rightarrow> cat_token result" where
  "set_custom_claim key v t =
     (if is_reserved_claim_id key then Inl (InvalidClaimValue ''Claim ID '')
      else Inr (upd_custom (AList.update key v) t))"

lemma custom_claim_upd:
  "set_custom_claim k v t = Inr t' \<Longrightarrow> custom_claim t' k' = (if k' = k then Some v else custom_claim t k')"
  by (cases t) (auto simp: set_custom_claim_def custom_claim_def update_conv' split: if_splits)

lemma set_custom_claim_frame:
  "set_custom_claim k v t = Inr t' \<Longrightarrow>
     t_core t' = t_core t \<and> t_cat t' = t_cat t \<and> t_informational t' = t_informational t \<and>
     t_dpop t' = t_dpop t \<and> t_request t' = t_request t \<and> t_composite t' = t_composite t \<and>
     t_moqt t' = t_moqt t"
  by (cases t) (auto simp: set_custom_claim_def split: if_splits)

lemma set_custom_claim_distinct:
  "set_custom_claim k v t = Inr t' \<Longrightarrow> distinct (map fst (t_custom t)) \<Longrightarrow> distinct (map fst (t_custom t'))"
  by (cases t) (auto simp: set_custom_claim_def distinct_update split: if_splits)

section \<open>Issuer-side construction checks\<close>

definition check_coord :: "geo_coordinate \<Rightarrow> unit result" where
  "check_coord g =
     (if f64_lt (geo_lat g) (Fin (- 90)) \<or> f64_gt (geo_lat g) (Fin 90)
      then Inl (InvalidClaimValue ''latitude '')
      else if f64_lt (geo_lon g) (Fin (- 180)) \<or> f64_gt (geo_lon g) (Fin 180)
      then Inl (InvalidClaimValue ''longitude '')
      else Inr ())"

definition validate_construction :: "cat_token \<Rightarrow> unit result" where
  "validate_construction t =
     rbind (case catgeocoord (t_cat t) of Some cs \<Rightarrow> for_each check_coord cs | None \<Rightarrow> Inr ())
       (\<lambda>_. case catdpop (t_dpop t) of
              Some s \<Rightarrow> (if effective_window s < 0
                         then Inl (InvalidClaimValue ''DPoP window must not be negative'')
                         else Inr ())
            | None \<Rightarrow> Inr ())"

definition coord_ok :: "geo_coordinate \<Rightarrow> bool" where
  "coord_ok g \<longleftrightarrow> f64_in_range (- 90) 90 (geo_lat g) \<and> f64_in_range (- 180) 180 (geo_lon g)"

lemma check_coord_ok:
  "check_coord g = Inr () \<longleftrightarrow>
     (geo_lat g = NaN \<or> f64_in_range (- 90) 90 (geo_lat g)) \<and>
     (geo_lon g = NaN \<or> f64_in_range (- 180) 180 (geo_lon g))"
  unfolding check_coord_def by (auto simp flip: f64_range_test)

end
