(* ===== verification/Composite.thy ===== *)
theory Composite
  imports Cat_Token
begin

text \<open>
  Composite claims of \<open>src/src/claims.rs\<close>: construction, nesting depth, the depth limit and the
  evaluation of OR, NOR and AND over nested claim sets, with the container \<open>CompositeClaims\<close>.

  \<open>holds\<close> is the specification: the Boolean reading of the operators with no depth bound. Shown:
  \<open>evaluate\<close> implements it on every claim whose depth the validator's limit accepts, the early
  exit of \<open>check_depth_limit\<close> is exactly the bound on the depth, and beyond the bound a NOR claim
  fails open.
\<close>

section \<open>Construction\<close>

definition composite_new :: "composite_operator \<Rightarrow> composite_claim" where
  "composite_new oper = CompositeClaim oper []"

fun add_claim_set :: "claim_set \<Rightarrow> composite_claim \<Rightarrow> composite_claim" where
  "add_claim_set cs (CompositeClaim oper css) = CompositeClaim oper (css @ [cs])"

definition add_token :: "cat_token \<Rightarrow> composite_claim \<Rightarrow> composite_claim" where
  "add_token t c = add_claim_set (CsToken t) c"

definition add_composite :: "composite_claim \<Rightarrow> composite_claim \<Rightarrow> composite_claim" where
  "add_composite d c = add_claim_set (CsComposite d) c"

definition create_from_tokens :: "composite_operator \<Rightarrow> cat_token list \<Rightarrow> composite_claim" where
  "create_from_tokens oper ts = fold add_token ts (composite_new oper)"

definition create_from_claim_sets :: "composite_operator \<Rightarrow> claim_set list \<Rightarrow> composite_claim" where
  "create_from_claim_sets oper css = fold add_claim_set css (composite_new oper)"

lemma fold_add_claim_set:
  "fold add_claim_set css (CompositeClaim oper acc) = CompositeClaim oper (acc @ css)"
  by (induction css arbitrary: acc) auto

lemma create_from_claim_sets_eq: "create_from_claim_sets oper css = CompositeClaim oper css"
  by (simp add: create_from_claim_sets_def composite_new_def fold_add_claim_set)

lemma create_from_tokens_eq: "create_from_tokens oper ts = CompositeClaim oper (map CsToken ts)"
proof -
  have "fold add_token ts (CompositeClaim oper acc) = CompositeClaim oper (acc @ map CsToken ts)" for acc
    by (induction ts arbitrary: acc) (auto simp: add_token_def)
  then show ?thesis by (simp add: create_from_tokens_def composite_new_def)
qed

section \<open>Depth\<close>

definition max_evaluate_depth :: nat where
  "max_evaluate_depth = 10"

text \<open>\<open>get_depth_bounded\<close>: the loop keeps the running maximum; an error of a child is returned.\<close>

fun get_depth_bounded :: "nat \<Rightarrow> nat \<Rightarrow> composite_claim \<Rightarrow> nat result"
  and depth_loop :: "nat \<Rightarrow> nat \<Rightarrow> nat \<Rightarrow> claim_set list \<Rightarrow> nat result" where
  "get_depth_bounded cur mx (CompositeClaim oper css) =
     (if cur > mx
      then Inl (InvalidClaimValue ''Composite claim nesting depth exceeds maximum'')
      else depth_loop cur mx 1 css)"
| "depth_loop cur mx best [] = Inr best"
| "depth_loop cur mx best (CsToken t # css) = depth_loop cur mx best css"
| "depth_loop cur mx best (CsComposite c # css) =
     (case get_depth_bounded (cur + 1) mx c of
        Inl e \<Rightarrow> Inl e
      | Inr d \<Rightarrow> depth_loop cur mx (max best (d + 1)) css)"

definition get_depth :: "composite_claim \<Rightarrow> nat" where
  "get_depth c =
     (case get_depth_bounded 0 max_evaluate_depth c of Inr d \<Rightarrow> d | Inl _ \<Rightarrow> max_evaluate_depth)"

fun check_depth_limit :: "nat \<Rightarrow> nat \<Rightarrow> composite_claim \<Rightarrow> bool"
  and check_depth_loop :: "nat \<Rightarrow> nat \<Rightarrow> claim_set list \<Rightarrow> bool" where
  "check_depth_limit cur limit (CompositeClaim oper css) =
     (if cur \<ge> limit then True else check_depth_loop cur limit css)"
| "check_depth_loop cur limit [] = False"
| "check_depth_loop cur limit (CsToken t # css) = check_depth_loop cur limit css"
| "check_depth_loop cur limit (CsComposite c # css) =
     (if check_depth_limit (cur + 1) limit c then True else check_depth_loop cur limit css)"

definition exceeds_depth_limit :: "nat \<Rightarrow> composite_claim \<Rightarrow> bool" where
  "exceeds_depth_limit limit c = check_depth_limit 0 limit c"

text \<open>The nesting depth itself: 1 for a claim whose claim sets are tokens.\<close>

fun nesting :: "composite_claim \<Rightarrow> nat" and nesting_sets :: "claim_set list \<Rightarrow> nat" where
  "nesting (CompositeClaim oper css) = Suc (nesting_sets css)"
| "nesting_sets [] = 0"
| "nesting_sets (CsToken t # css) = nesting_sets css"
| "nesting_sets (CsComposite c # css) = max (nesting c) (nesting_sets css)"

lemma check_depth_nesting:
  "check_depth_limit cur limit c \<longleftrightarrow> limit < cur + nesting c"
  "cur < limit \<Longrightarrow> check_depth_loop cur limit css \<longleftrightarrow> limit < cur + 1 + nesting_sets css"
proof (induction cur limit c and cur limit css rule: check_depth_limit_check_depth_loop.induct)
  case (1 cur limit oper css)
  then show ?case by (cases "limit \<le> cur") auto
qed auto

lemma exceeds_depth_limit_iff: "exceeds_depth_limit limit c \<longleftrightarrow> limit < nesting c"
  by (simp add: exceeds_depth_limit_def check_depth_nesting)

lemma get_depth_bounded_nesting:
  "cur + nesting c \<le> mx + 1 \<Longrightarrow> get_depth_bounded cur mx c = Inr (nesting c)"
  "cur + nesting_sets css \<le> mx \<Longrightarrow> depth_loop cur mx best css =
     Inr (if nesting_sets css = 0 then best else max best (nesting_sets css + 1))"
proof (induction cur mx c and cur mx best css rule: get_depth_bounded_depth_loop.induct)
  case (4 cur mx best c css)
  have pos: "0 < nesting c" by (cases c) simp
  from "4.prems" have "cur + 1 + nesting c \<le> mx + 1" "cur + nesting_sets css \<le> mx" by auto
  with "4.IH" have "get_depth_bounded (cur + 1) mx c = Inr (nesting c)"
    and "depth_loop cur mx (max best (nesting c + 1)) css =
      Inr (if nesting_sets css = 0 then max best (nesting c + 1)
           else max (max best (nesting c + 1)) (nesting_sets css + 1))"
    by simp_all
  with pos show ?case by simp (simp add: max_def)
qed auto

lemma get_depth_eq: "nesting c \<le> 11 \<Longrightarrow> get_depth c = nesting c"
  by (simp add: get_depth_def get_depth_bounded_nesting max_evaluate_depth_def)

section \<open>Evaluation\<close>

text \<open>The validator is a function to results; only \<open>is_ok()\<close> of it is used. \<open>any\<close> and \<open>all\<close>
  stop at the first deciding claim set.\<close>

fun evaluate_with_depth :: "(cat_token \<Rightarrow> 'e + unit) \<Rightarrow> nat \<Rightarrow> composite_claim \<Rightarrow> bool"
  and evaluate_claim_set :: "(cat_token \<Rightarrow> 'e + unit) \<Rightarrow> nat \<Rightarrow> claim_set \<Rightarrow> bool" where
  "evaluate_with_depth v depth (CompositeClaim oper css) =
     (if depth > max_evaluate_depth then False
      else case oper of
        OpOr \<Rightarrow> list_ex (evaluate_claim_set v depth) css
      | OpNor \<Rightarrow> \<not> list_ex (evaluate_claim_set v depth) css
      | OpAnd \<Rightarrow> list_all (evaluate_claim_set v depth) css)"
| "evaluate_claim_set v depth (CsToken t) = is_ok (v t)"
| "evaluate_claim_set v depth (CsComposite c) = evaluate_with_depth v (depth + 1) c"

definition evaluate :: "(cat_token \<Rightarrow> 'e + unit) \<Rightarrow> composite_claim \<Rightarrow> bool" where
  "evaluate v c = evaluate_with_depth v 0 c"

text \<open>The specification, without a depth bound.\<close>

fun holds :: "(cat_token \<Rightarrow> bool) \<Rightarrow> composite_claim \<Rightarrow> bool"
  and holds_set :: "(cat_token \<Rightarrow> bool) \<Rightarrow> claim_set \<Rightarrow> bool" where
  "holds p (CompositeClaim oper css) =
     (case oper of
        OpOr \<Rightarrow> (\<exists>cs \<in> set css. holds_set p cs)
      | OpNor \<Rightarrow> (\<forall>cs \<in> set css. \<not> holds_set p cs)
      | OpAnd \<Rightarrow> (\<forall>cs \<in> set css. holds_set p cs))"
| "holds_set p (CsToken t) = p t"
| "holds_set p (CsComposite c) = holds p c"

fun nesting_set :: "claim_set \<Rightarrow> nat" where
  "nesting_set (CsToken _) = 0"
| "nesting_set (CsComposite c) = nesting c"

lemma nesting_set_le: "cs \<in> set css \<Longrightarrow> nesting_set cs \<le> nesting_sets css"
proof (induction css)
  case (Cons x css)
  then show ?case by (cases x) auto
qed simp

lemma nesting_set_bound: "depth + nesting (CompositeClaim oper css) \<le> b \<Longrightarrow> cs \<in> set css \<Longrightarrow>
    depth + 1 + nesting_set cs \<le> b"
  using nesting_set_le[of cs css] by simp

lemma evaluate_with_depth_holds:
  "depth + nesting c \<le> max_evaluate_depth + 1 \<Longrightarrow>
     evaluate_with_depth v depth c \<longleftrightarrow> holds (\<lambda>t. is_ok (v t)) c"
  "depth + 1 + nesting_set cs \<le> max_evaluate_depth + 1 \<Longrightarrow>
     evaluate_claim_set v depth cs \<longleftrightarrow> holds_set (\<lambda>t. is_ok (v t)) cs"
proof (induction v depth c and v depth cs rule: evaluate_with_depth_evaluate_claim_set.induct)
  case (1 v depth oper css)
  have d: "\<not> depth > max_evaluate_depth" using "1.prems" by simp
  have cs: "evaluate_claim_set v depth cs \<longleftrightarrow> holds_set (\<lambda>t. is_ok (v t)) cs" if "cs \<in> set css" for cs
    using "1.IH" d that nesting_set_bound[OF "1.prems" that] by (cases oper) simp_all
  show ?case
    using d by (cases oper) (auto simp: list_ex_iff list_all_iff cs)
qed auto

lemma evaluate_iff_holds:
  "\<not> exceeds_depth_limit 10 c \<Longrightarrow> evaluate v c \<longleftrightarrow> holds (\<lambda>t. is_ok (v t)) c"
  by (simp add: evaluate_def exceeds_depth_limit_iff evaluate_with_depth_holds max_evaluate_depth_def)

text \<open>The tokens a claim set holds directly or below; the validator is only called on these.\<close>

fun tokens_of :: "composite_claim \<Rightarrow> cat_token list" and tokens_of_sets :: "claim_set list \<Rightarrow> cat_token list" where
  "tokens_of (CompositeClaim oper css) = tokens_of_sets css"
| "tokens_of_sets [] = []"
| "tokens_of_sets (CsToken t # css) = t # tokens_of_sets css"
| "tokens_of_sets (CsComposite c # css) = tokens_of c @ tokens_of_sets css"

fun tokens_of_set :: "claim_set \<Rightarrow> cat_token list" where
  "tokens_of_set (CsToken t) = [t]"
| "tokens_of_set (CsComposite c) = tokens_of c"

lemma tokens_of_sets_mem: "cs \<in> set css \<Longrightarrow> set (tokens_of_set cs) \<subseteq> set (tokens_of_sets css)"
proof (induction css)
  case (Cons x css)
  then show ?case by (cases x) auto
qed simp

lemma evaluate_with_depth_cong':
  "(\<And>t. t \<in> set (tokens_of c) \<Longrightarrow> v t = w t) \<Longrightarrow> evaluate_with_depth v depth c = evaluate_with_depth w depth c"
  "(\<And>t. t \<in> set (tokens_of_set cs) \<Longrightarrow> v t = w t) \<Longrightarrow> evaluate_claim_set v depth cs = evaluate_claim_set w depth cs"
proof (induction v depth c and v depth cs rule: evaluate_with_depth_evaluate_claim_set.induct)
  case (1 v depth oper css)
  show ?case
  proof (cases "depth > max_evaluate_depth")
    case False
    have cs: "evaluate_claim_set v depth cs = evaluate_claim_set w depth cs" if "cs \<in> set css" for cs
      using "1.IH" False that "1.prems" tokens_of_sets_mem[OF that] by (cases oper) auto
    show ?thesis
      using False by (cases oper) (auto simp: list_ex_iff list_all_iff cs)
  qed simp
qed auto

lemma evaluate_cong [fundef_cong]:
  "c = d \<Longrightarrow> (\<And>t. t \<in> set (tokens_of d) \<Longrightarrow> v t = w t) \<Longrightarrow> evaluate v c = evaluate w d"
  unfolding evaluate_def using evaluate_with_depth_cong'(1)[of d v w 0] by simp

lemma tokens_of_smaller:
  "t \<in> set (tokens_of c) \<Longrightarrow> size t < size c"
  "t \<in> set (tokens_of_sets css) \<Longrightarrow> size t < Suc (size_list size css)"
  by (induction c and css rule: tokens_of_tokens_of_sets.induct) auto

section \<open>The three composite claims of a token\<close>

definition has_composites :: "composite_claim composite_claims \<Rightarrow> bool" where
  "has_composites cc \<longleftrightarrow> or_claim cc \<noteq> None \<or> nor_claim cc \<noteq> None \<or> and_claim cc \<noteq> None"

definition opt_passes :: "(composite_claim \<Rightarrow> bool) \<Rightarrow> composite_claim option \<Rightarrow> bool" where
  "opt_passes p m = (case m of None \<Rightarrow> True | Some c \<Rightarrow> p c)"

lemma opt_passes_simps [simp]: "opt_passes p None" "opt_passes p (Some c) \<longleftrightarrow> p c"
  by (simp_all add: opt_passes_def)

lemma opt_passes_cong [fundef_cong]:
  "m = n \<Longrightarrow> (\<And>c. n = Some c \<Longrightarrow> p c = q c) \<Longrightarrow> opt_passes p m = opt_passes q n"
  by (cases n) auto

definition validate_all ::
  "(cat_token \<Rightarrow> 'e + unit) \<Rightarrow> composite_claim composite_claims \<Rightarrow> string + unit" where
  "validate_all v cc =
     (if \<not> opt_passes (evaluate v) (or_claim cc) then Inl ''OR composite claim validation failed''
      else if \<not> opt_passes (evaluate v) (nor_claim cc) then Inl ''NOR composite claim validation failed''
      else if \<not> opt_passes (evaluate v) (and_claim cc) then Inl ''AND composite claim validation failed''
      else Inr ())"

definition get_max_depth :: "composite_claim composite_claims \<Rightarrow> nat" where
  "get_max_depth cc =
     (let m0 = (0 :: nat);
          m1 = (case or_claim cc of Some c \<Rightarrow> max m0 (get_depth c) | None \<Rightarrow> m0);
          m2 = (case nor_claim cc of Some c \<Rightarrow> max m1 (get_depth c) | None \<Rightarrow> m1)
      in (case and_claim cc of Some c \<Rightarrow> max m2 (get_depth c) | None \<Rightarrow> m2))"

definition any_exceeds_depth_limit :: "nat \<Rightarrow> composite_claim composite_claims \<Rightarrow> bool" where
  "any_exceeds_depth_limit limit cc =
     (if \<not> opt_passes (\<lambda>c. \<not> exceeds_depth_limit limit c) (or_claim cc) then True
      else if \<not> opt_passes (\<lambda>c. \<not> exceeds_depth_limit limit c) (nor_claim cc) then True
      else if \<not> opt_passes (\<lambda>c. \<not> exceeds_depth_limit limit c) (and_claim cc) then True
      else False)"

lemma validate_all_ok:
  "validate_all v cc = Inr () \<longleftrightarrow> opt_passes (evaluate v) (or_claim cc) \<and>
     opt_passes (evaluate v) (nor_claim cc) \<and> opt_passes (evaluate v) (and_claim cc)"
  by (simp add: validate_all_def)

definition composites_of :: "composite_claim composite_claims \<Rightarrow> composite_claim list" where
  "composites_of cc = List.map_filter (\<lambda>x. x) [or_claim cc, nor_claim cc, and_claim cc]"

lemma composites_of_mem: "c \<in> set (composites_of cc) \<longleftrightarrow>
    or_claim cc = Some c \<or> nor_claim cc = Some c \<or> and_claim cc = Some c"
  by (auto simp: composites_of_def List.map_filter_def)

lemma opt_passes_iff: "opt_passes p m \<longleftrightarrow> (\<forall>c. m = Some c \<longrightarrow> p c)"
  by (cases m) auto

lemma any_exceeds_iff:
  "any_exceeds_depth_limit limit cc \<longleftrightarrow> (\<exists>c \<in> set (composites_of cc). limit < nesting c)"
  by (auto simp: any_exceeds_depth_limit_def composites_of_mem opt_passes_iff exceeds_depth_limit_iff)

lemma validate_all_iff:
  "validate_all v cc = Inr () \<longleftrightarrow> (\<forall>c \<in> set (composites_of cc). evaluate v c)"
  by (auto simp: validate_all_ok composites_of_mem opt_passes_iff)

lemma validate_all_holds:
  assumes "\<not> any_exceeds_depth_limit 10 cc"
  shows "validate_all v cc = Inr () \<longleftrightarrow>
           (\<forall>c \<in> set (composites_of cc). holds (\<lambda>t. is_ok (v t)) c)"
  using assms
  by (auto simp: validate_all_iff any_exceeds_iff evaluate_iff_holds exceeds_depth_limit_iff)

section \<open>Properties\<close>

fun nest_or :: "nat \<Rightarrow> claim_set \<Rightarrow> composite_claim" where
  "nest_or 0 cs = CompositeClaim OpOr [cs]"
| "nest_or (Suc n) cs = CompositeClaim OpOr [CsComposite (nest_or n cs)]"

text \<open>A negation over claims nested deeper than the evaluator looks is satisfied although the claim below it
  holds: the evaluator counts what it did not look at as false.\<close>

lemma nor_beyond_depth_fails_open:
  "nesting (CompositeClaim OpNor [CsComposite (nest_or 10 (CsToken t))]) = 12 \<and>
   evaluate (\<lambda>_. Inr () :: unit + unit) (CompositeClaim OpNor [CsComposite (nest_or 10 (CsToken t))]) \<and>
   \<not> holds (\<lambda>_. True) (CompositeClaim OpNor [CsComposite (nest_or 10 (CsToken t))])"
  by (simp add: evaluate_def max_evaluate_depth_def eval_nat_numeral)

end
