(* ===== verification/Formats.thy ===== *)
theory Formats
  imports Claims
begin

text \<open>
  The textual formats \<open>src/src/claims.rs\<close> checks: ISO 3166 codes and the POSIX ERE restriction on
  regular expressions. The ERE check is related to a tokenisation of the pattern into escapes and
  literal characters.
\<close>

section \<open>ISO 3166 codes\<close>

definition validate_iso3166_code :: "string \<Rightarrow> unit result" where
  "validate_iso3166_code code =
     (if code = [] then Inl (InvalidClaimValue ''Empty ISO 3166 code'')
      else case split_once CHR ''-'' code of
        Some (country, subdivision) \<Rightarrow>
          (if length country \<noteq> 2 \<or> \<not> list_all is_ascii_upper country \<or> subdivision = [] \<or>
              length subdivision > 3 \<or> \<not> list_all is_ascii_alnum subdivision
           then Inl (InvalidClaimValue ''Invalid ISO 3166 subdivision code: '')
           else Inr ())
      | None \<Rightarrow>
          (if (length code = 2 \<or> length code = 3) \<and> list_all is_ascii_upper code then Inr ()
           else Inl (InvalidClaimValue ''Invalid ISO 3166 code: '')))"

lemma validate_iso3166_code_ok:
  "validate_iso3166_code code = Inr () \<longleftrightarrow>
     (list_all is_ascii_upper code \<and> length code \<in> {2, 3}) \<or>
     (\<exists>c s. code = c @ ''-'' @ s \<and> list_all is_ascii_upper c \<and> length c = 2 \<and>
            list_all is_ascii_alnum s \<and> length s \<in> {1, 2, 3})"
proof -
  have dash: "CHR ''-'' \<notin> set s" if "list_all is_ascii_upper s" for s
    using that by (auto simp: list_all_iff is_ascii_upper_def)
  show ?thesis
  proof (cases "split_once CHR ''-'' code")
    case None
    then have nodash: "CHR ''-'' \<notin> set code" by simp
    show ?thesis
    proof
      assume "validate_iso3166_code code = Inr ()"
      then show "(list_all is_ascii_upper code \<and> length code \<in> {2, 3}) \<or>
          (\<exists>c s. code = c @ ''-'' @ s \<and> list_all is_ascii_upper c \<and> length c = 2 \<and>
            list_all is_ascii_alnum s \<and> length s \<in> {1, 2, 3})"
        using None by (auto simp: validate_iso3166_code_def split: if_splits simp del: split_once_None)
    next
      assume "(list_all is_ascii_upper code \<and> length code \<in> {2, 3}) \<or>
          (\<exists>c s. code = c @ ''-'' @ s \<and> list_all is_ascii_upper c \<and> length c = 2 \<and>
            list_all is_ascii_alnum s \<and> length s \<in> {1, 2, 3})"
      then have "list_all is_ascii_upper code \<and> length code \<in> {2, 3}" using nodash by auto
      then show "validate_iso3166_code code = Inr ()"
        using None by (auto simp: validate_iso3166_code_def simp del: split_once_None)
    qed
  next
    case (Some r)
    obtain c s where r: "r = (c, s)" by (cases r)
    then have code: "code = c @ CHR ''-'' # s" "CHR ''-'' \<notin> set c"
      using Some split_once_SomeD by fastforce+
    have not_up: "\<not> list_all is_ascii_upper code" using dash[of code] code by auto
    have uniq: "c' = c \<and> s' = s" if "code = c' @ ''-'' @ s'" "list_all is_ascii_upper c'" for c' s'
      using split_once_append[OF dash[OF that(2)], of s'] that(1) Some r by simp
    have len: "length s \<in> {1, 2, 3} \<longleftrightarrow> s \<noteq> [] \<and> \<not> length s > 3"
    proof -
      have "length s \<in> {1, 2, 3} \<longleftrightarrow> 0 < length s \<and> \<not> length s > 3"
        unfolding insert_iff empty_iff by presburger
      then show ?thesis by simp
    qed
    have "validate_iso3166_code code = Inr () \<longleftrightarrow> list_all is_ascii_upper c \<and> length c = 2 \<and>
        list_all is_ascii_alnum s \<and> length s \<in> {1, 2, 3}"
      using Some r code(1) len by (auto simp: validate_iso3166_code_def)
    moreover have "(\<exists>c' s'. code = c' @ ''-'' @ s' \<and> list_all is_ascii_upper c' \<and> length c' = 2 \<and>
          list_all is_ascii_alnum s' \<and> length s' \<in> {1, 2, 3}) \<longleftrightarrow>
        list_all is_ascii_upper c \<and> length c = 2 \<and> list_all is_ascii_alnum s \<and> length s \<in> {1, 2, 3}"
      (is "?ex \<longleftrightarrow> ?here")
    proof
      assume ?ex
      then show ?here using uniq by blast
    next
      assume ?here
      moreover have "code = c @ ''-'' @ s" using code(1) by simp
      ultimately show ?ex by blast
    qed
    ultimately show ?thesis using not_up by blast
  qed
qed

section \<open>POSIX extended regular expressions\<close>

definition bslash :: char where "bslash = CHR 0x5C"

definition ere_special :: "char \<Rightarrow> bool" where
  "ere_special c \<longleftrightarrow> c = bslash \<or> c \<in> set ''.*+?|()[]{}^$''"

definition perl_class :: "char \<Rightarrow> bool" where
  "perl_class c \<longleftrightarrow> c \<in> set ''dDwWsSbB''"

fun validate_posix_ere :: "string \<Rightarrow> string option" where
  "validate_posix_ere [] = None"
| "validate_posix_ere [c] = None"
| "validate_posix_ere (c # d # rest) =
     (if c = bslash then
        (if ere_special d then validate_posix_ere rest
         else if perl_class d then Some ([bslash, d] @ '' is a Perl extension, not valid POSIX ERE'')
         else validate_posix_ere rest)
      else if (c = CHR ''*'' \<or> c = CHR ''+'' \<or> c = CHR ''?'') \<and> d = CHR ''?''
        then Some ''Non-greedy quantifiers (*?, +?, ??) are Perl extensions, not valid POSIX ERE''
      else if c = CHR ''('' \<and> d = CHR ''?''
        then Some ''Lookahead/lookbehind (?...) groups are Perl extensions, not valid POSIX ERE''
      else validate_posix_ere (d # rest))"

text \<open>The tokens of a pattern: an escaped character or a literal one.\<close>

datatype ere_token = Esc char | Lit char

fun ere_lex :: "string \<Rightarrow> ere_token list" where
  "ere_lex [] = []"
| "ere_lex [c] = [Lit c]"
| "ere_lex (c # d # rest) = (if c = bslash then Esc d # ere_lex rest else Lit c # ere_lex (d # rest))"

text \<open>The Perl extensions: an escaped class letter, and a question mark right after a quantifier or
  an opening parenthesis.\<close>

fun perl_free :: "ere_token list \<Rightarrow> bool" where
  "perl_free [] = True"
| "perl_free (Esc c # ts) = (\<not> perl_class c \<and> perl_free ts)"
| "perl_free (Lit c # ts) =
     (\<not> (c \<in> set ''*+?('' \<and> (case ts of Lit d # _ \<Rightarrow> d = CHR ''?'' | _ \<Rightarrow> False)) \<and> perl_free ts)"

lemma special_not_perl: "ere_special c \<Longrightarrow> \<not> perl_class c"
  by (auto simp: ere_special_def perl_class_def bslash_def)

lemma ere_lex_head:
  "(case ere_lex (d # rest) of Lit x # _ \<Rightarrow> x = CHR ''?'' | _ \<Rightarrow> False) \<longleftrightarrow> d = CHR ''?''"
  by (cases rest) (auto simp: bslash_def)

lemma validate_posix_ere_iff: "validate_posix_ere p = None \<longleftrightarrow> perl_free (ere_lex p)"
proof (induction p rule: validate_posix_ere.induct)
  case (3 c d rest)
  show ?case
  proof (cases "c = bslash")
    case True
    then show ?thesis using 3 special_not_perl[of d] by auto
  next
    case False
    then have lex: "ere_lex (c # d # rest) = Lit c # ere_lex (d # rest)" by simp
    show ?thesis
      unfolding lex using 3 False ere_lex_head[of d rest] by auto
  qed
qed auto

end
