(* ===== verification/Token_Validator.thy ===== *)
theory Token_Validator
  imports Composite Formats
begin

text \<open>
  \<open>CatTokenValidator\<close> of \<open>src/src/token.rs\<close>: the claim validator with its constructors, the checks
  of time, issuer, audience and version, the privacy, geographic and regex checks, and the recursion
  through composite claims.

  \<open>now\<close> is the one reading of the clock a validation uses; the code reads it again for each nested
  token, the model validates these at the same second. Shown: the validator accepts exactly the
  tokens whose own claims pass and whose composite claims, nested at most ten deep, hold under the
  same validator.
\<close>

section \<open>The validator\<close>

datatype token_provenance = Signed | Encrypted

definition max_clock_skew_tolerance_secs :: int where
  "max_clock_skew_tolerance_secs = 3600"

record cat_token_validator =
  v_issuers :: "string set option"
  v_audiences :: "string set option"
  v_exp_tolerance :: int
  v_nbf_tolerance :: int
  v_allow_unencrypted :: bool

definition check_tolerance :: "int \<Rightarrow> unit result" where
  "check_tolerance seconds =
     (if seconds < 0 then Inl (InvalidClaimValue ''must not be negative'')
      else if seconds > max_clock_skew_tolerance_secs then Inl (InvalidClaimValue ''exceeds cap of '')
      else Inr ())"

definition nonempty_set :: "string list \<Rightarrow> string set" where
  "nonempty_set xs = set (filter (\<lambda>s. s \<noteq> []) xs)"

definition for_expected_issuers :: "string list \<Rightarrow> cat_token_validator" where
  "for_expected_issuers issuers =
     \<lparr>v_issuers = Some (nonempty_set issuers), v_audiences = None, v_exp_tolerance = 0,
      v_nbf_tolerance = 0, v_allow_unencrypted = False\<rparr>"

definition dangerously_any_issuer :: cat_token_validator where
  "dangerously_any_issuer =
     \<lparr>v_issuers = None, v_audiences = None, v_exp_tolerance = 0, v_nbf_tolerance = 0,
      v_allow_unencrypted = False\<rparr>"

definition with_expected_issuers :: "string list \<Rightarrow> cat_token_validator \<Rightarrow> cat_token_validator" where
  "with_expected_issuers issuers v = v\<lparr>v_issuers := Some (nonempty_set issuers)\<rparr>"

definition with_expected_audiences :: "string list \<Rightarrow> cat_token_validator \<Rightarrow> cat_token_validator" where
  "with_expected_audiences auds v = v\<lparr>v_audiences := Some (nonempty_set auds)\<rparr>"

definition with_clock_skew_tolerance :: "int \<Rightarrow> cat_token_validator \<Rightarrow> cat_token_validator result" where
  "with_clock_skew_tolerance secs v =
     rbind (check_tolerance secs) (\<lambda>_. Inr (v\<lparr>v_exp_tolerance := secs, v_nbf_tolerance := secs\<rparr>))"

definition with_separate_tolerances ::
  "int \<Rightarrow> int \<Rightarrow> cat_token_validator \<Rightarrow> cat_token_validator result" where
  "with_separate_tolerances e n v =
     rbind (check_tolerance e) (\<lambda>_. rbind (check_tolerance n)
       (\<lambda>_. Inr (v\<lparr>v_exp_tolerance := e, v_nbf_tolerance := n\<rparr>)))"

definition allow_unencrypted_privacy_claims :: "cat_token_validator \<Rightarrow> cat_token_validator" where
  "allow_unencrypted_privacy_claims v = v\<lparr>v_allow_unencrypted := True\<rparr>"

section \<open>The checks, in the order of the code\<close>

definition check_exp :: "cat_token_validator \<Rightarrow> int \<Rightarrow> cat_token \<Rightarrow> unit result" where
  "check_exp v now t =
     (case c_exp (t_core t) of
        None \<Rightarrow> Inr ()
      | Some e \<Rightarrow>
          rbind (ok_or (checked_i64 (e + v_exp_tolerance v)) (InvalidClaimValue ''exp + tolerance overflows i64''))
            (\<lambda>eff. if now > eff then Inl TokenExpired else Inr ()))"

definition check_nbf :: "cat_token_validator \<Rightarrow> int \<Rightarrow> cat_token \<Rightarrow> unit result" where
  "check_nbf v now t =
     (case c_nbf (t_core t) of
        None \<Rightarrow> Inr ()
      | Some n \<Rightarrow>
          rbind (ok_or (checked_i64 (n - v_nbf_tolerance v)) (InvalidClaimValue ''nbf - tolerance underflows i64''))
            (\<lambda>eff. if now < eff then Inl TokenNotYetValid else Inr ()))"

definition check_issuer :: "cat_token_validator \<Rightarrow> cat_token \<Rightarrow> unit result" where
  "check_issuer v t =
     (case v_issuers v of
        None \<Rightarrow> Inr ()
      | Some expected \<Rightarrow>
          (case c_iss (t_core t) of
             Some iss \<Rightarrow> (if iss = [] \<or> iss \<notin> expected then Inl InvalidIssuer else Inr ())
           | None \<Rightarrow> Inl (MissingRequiredClaim ''iss'')))"

definition check_audience :: "cat_token_validator \<Rightarrow> cat_token \<Rightarrow> unit result" where
  "check_audience v t =
     (case v_audiences v of
        None \<Rightarrow> Inr ()
      | Some expected \<Rightarrow>
          (case c_aud (t_core t) of
             Some aud \<Rightarrow>
               (if \<not> list_ex (\<lambda>a. a \<noteq> [] \<and> a \<in> expected) aud then Inl InvalidAudience else Inr ())
           | None \<Rightarrow> Inl (MissingRequiredClaim ''aud'')))"

definition check_version :: "cat_token \<Rightarrow> unit result" where
  "check_version t =
     (case catv (t_cat t) of
        Some n \<Rightarrow> (if n \<noteq> 1 then Inl (InvalidClaimValue ''Unsupported CAT version: '') else Inr ())
      | None \<Rightarrow> Inr ())"

definition validate_privacy_claims ::
  "cat_token_validator \<Rightarrow> token_provenance \<Rightarrow> cat_token \<Rightarrow> unit result" where
  "validate_privacy_claims v prov t =
     (if v_allow_unencrypted v \<or> prov = Encrypted then Inr ()
      else if i_sub (t_informational t) \<noteq> None then Inl (UnencryptedPrivacyClaim ''sub'')
      else if catgeocoord (t_cat t) \<noteq> None then Inl (UnencryptedPrivacyClaim ''catgeocoord'')
      else if geohash (t_cat t) \<noteq> None then Inl (UnencryptedPrivacyClaim ''geohash'')
      else if catgeoalt (t_cat t) \<noteq> None then Inl (UnencryptedPrivacyClaim ''catgeoalt'')
      else Inr ())"

text \<open>\<open>x.abs() > b\<close>; the comparison is false for a NaN.\<close>

definition check_coordinates :: "geo_coordinate \<Rightarrow> unit result" where
  "check_coordinates g =
     (if f64_abs_gt (geo_lat g) 90 \<or> f64_abs_gt (geo_lon g) 180
      then Inl (GeographicValidationFailed ''Invalid coordinates'') else Inr ())"

definition geohash_char :: "char \<Rightarrow> bool" where
  "geohash_char c \<longleftrightarrow> c \<in> set ''0123456789bcdefghjkmnpqrstuvwxyz''"

definition check_geohash :: "string \<Rightarrow> unit result" where
  "check_geohash g =
     (if length g < 4 \<or> length g > 12
      then Inl (GeographicValidationFailed ''Invalid geohash length: '')
      else for_each (\<lambda>c. if \<not> geohash_char c
                           then Inl (GeographicValidationFailed ''Invalid geohash character: '')
                           else Inr ()) g)"

definition for_each_opt :: "('a \<Rightarrow> unit result) \<Rightarrow> 'a list option \<Rightarrow> unit result" where
  "for_each_opt f m = (case m of Some xs \<Rightarrow> for_each f xs | None \<Rightarrow> Inr ())"

definition validate_geographic_restrictions :: "cat_token \<Rightarrow> unit result" where
  "validate_geographic_restrictions t =
     rbind (for_each_opt check_coordinates (catgeocoord (t_cat t))) (\<lambda>_.
     rbind (for_each_opt check_geohash (geohash (t_cat t))) (\<lambda>_.
     rbind (for_each_opt validate_iso3166_code (catgeoiso3166 (t_cat t))) (\<lambda>_.
     for_each_opt validate_nip (catnip (t_cat t)))))"

definition check_ere :: "string \<Rightarrow> match_value \<Rightarrow> unit result" where
  "check_ere claim mv =
     (case mv of
        MvRegex p \<Rightarrow>
          (case validate_posix_ere p of
             Some err \<Rightarrow> Inl (InvalidClaimValue (claim @ '' regex: '' @ err))
           | None \<Rightarrow> Inr ())
      | _ \<Rightarrow> Inr ())"

definition validate_regex_ere :: "cat_token \<Rightarrow> unit result" where
  "validate_regex_ere t =
     rbind (for_each_opt (\<lambda>r. for_each (check_ere ''catu'') (ur_matches r)) (catu (t_cat t))) (\<lambda>_.
     for_each_opt (\<lambda>r. for_each (check_ere ''cath'') (hr_matches r)) (cath (t_cat t)))"

text \<open>The checks of a token's own claims, without its composite claims.\<close>

definition validate_flat ::
  "cat_token_validator \<Rightarrow> int \<Rightarrow> token_provenance \<Rightarrow> cat_token \<Rightarrow> unit result" where
  "validate_flat v now prov t =
     rbind (check_exp v now t) (\<lambda>_.
     rbind (check_nbf v now t) (\<lambda>_.
     rbind (check_issuer v t) (\<lambda>_.
     rbind (check_audience v t) (\<lambda>_.
     rbind (check_version t) (\<lambda>_.
     rbind (validate_privacy_claims v prov t) (\<lambda>_.
     rbind (validate_geographic_restrictions t) (\<lambda>_.
     validate_regex_ere t)))))))"

section \<open>Composite claims\<close>

definition max_nesting_depth :: nat where
  "max_nesting_depth = 10"

definition validate_composite_claims ::
  "(cat_token \<Rightarrow> unit result) \<Rightarrow> composite_claim composite_claims \<Rightarrow> unit result" where
  "validate_composite_claims validator cc =
     (if has_composites cc then
        (if any_exceeds_depth_limit max_nesting_depth cc
         then Inl (InvalidClaimValue ''Composite claim nesting depth exceeds maximum'')
         else (case validate_all validator cc of
                 Inl e \<Rightarrow> Inl (InvalidClaimValue e)
               | Inr _ \<Rightarrow> Inr ()))
      else Inr ())"

lemma validate_all_cong [fundef_cong]:
  assumes "cc = dd"
    and "\<And>c t. c \<in> set (composites_of dd) \<Longrightarrow> t \<in> set (tokens_of c) \<Longrightarrow> v t = w t"
  shows "validate_all v cc = validate_all w dd"
proof -
  have "evaluate v c = evaluate w c" if "c \<in> set (composites_of dd)" for c
    using assms(2)[OF that] by (intro evaluate_cong) auto
  then have "opt_passes (evaluate v) m = opt_passes (evaluate w) m"
    if "set_option m \<subseteq> set (composites_of dd)" for m
    using that by (cases m) auto
  moreover have "set_option (or_claim dd) \<subseteq> set (composites_of dd)"
    "set_option (nor_claim dd) \<subseteq> set (composites_of dd)"
    "set_option (and_claim dd) \<subseteq> set (composites_of dd)"
    by (auto simp: composites_of_mem)
  ultimately show ?thesis using assms(1) by (simp add: validate_all_def)
qed

lemma validate_composite_claims_cong [fundef_cong]:
  assumes "cc = dd"
    and "\<And>c t. c \<in> set (composites_of dd) \<Longrightarrow> t \<in> set (tokens_of c) \<Longrightarrow> v t = w t"
  shows "validate_composite_claims v cc = validate_composite_claims w dd"
  using validate_all_cong[of cc dd v w] assms by (simp add: validate_composite_claims_def)

lemma composites_smaller: "c \<in> set (composites_of (t_composite t)) \<Longrightarrow> size c < size t"
  by (cases t; cases "t_composite t") (auto simp: composites_of_mem)

lemma nested_token_smaller:
  "c \<in> set (composites_of (t_composite t)) \<Longrightarrow> s \<in> set (tokens_of c) \<Longrightarrow> size s < size t"
  using composites_smaller[of c t] tokens_of_smaller(1)[of s c] by simp

function validate_with_provenance ::
  "cat_token_validator \<Rightarrow> int \<Rightarrow> token_provenance \<Rightarrow> cat_token \<Rightarrow> unit result" where
  "validate_with_provenance v now prov t =
     rbind (validate_flat v now prov t) (\<lambda>_.
       validate_composite_claims (\<lambda>s. validate_with_provenance v now Signed s) (t_composite t))"
  by pat_completeness auto
termination
  by (relation "measure (\<lambda>(_, _, _, t). size t)") (auto intro: nested_token_smaller)

declare validate_with_provenance.simps [simp del]

definition validate :: "cat_token_validator \<Rightarrow> int \<Rightarrow> cat_token \<Rightarrow> unit result" where
  "validate v now t = validate_with_provenance v now Signed t"

lemma validate_composite_claims_ok:
  "validate_composite_claims f cc = Inr () \<longleftrightarrow>
     (\<forall>c \<in> set (composites_of cc). nesting c \<le> max_nesting_depth \<and> holds (\<lambda>t. is_ok (f t)) c)"
proof (cases "has_composites cc")
  case False
  then have "composites_of cc = []"
    by (simp add: has_composites_def composites_of_def List.map_filter_def)
  with False show ?thesis by (simp add: validate_composite_claims_def)
next
  case True
  show ?thesis
  proof (cases "any_exceeds_depth_limit max_nesting_depth cc")
    case ex: True
    then obtain c where "c \<in> set (composites_of cc)" "\<not> nesting c \<le> max_nesting_depth"
      by (auto simp: any_exceeds_iff)
    with True ex show ?thesis by (auto simp: validate_composite_claims_def)
  next
    case ok: False
    then have "validate_all f cc = Inr () \<longleftrightarrow> (\<forall>c \<in> set (composites_of cc). holds (\<lambda>t. is_ok (f t)) c)"
      using validate_all_holds[of cc f] by (simp add: max_nesting_depth_def)
    moreover have "\<forall>c \<in> set (composites_of cc). nesting c \<le> max_nesting_depth"
      using ok by (auto simp: any_exceeds_iff not_less)
    ultimately show ?thesis
      using True ok by (cases "validate_all f cc") (auto simp: validate_composite_claims_def)
  qed
qed

lemma validate_with_provenance_ok:
  "validate_with_provenance v now prov t = Inr () \<longleftrightarrow>
     validate_flat v now prov t = Inr () \<and>
     (\<forall>c \<in> set (composites_of (t_composite t)). nesting c \<le> max_nesting_depth \<and>
        holds (\<lambda>s. is_ok (validate v now s)) c)"
  by (subst validate_with_provenance.simps) (auto simp: validate_composite_claims_ok validate_def)

section \<open>What a validated token satisfies\<close>

definition time_ok :: "cat_token_validator \<Rightarrow> int \<Rightarrow> cat_token \<Rightarrow> bool" where
  "time_ok v now t \<longleftrightarrow>
     (\<forall>e. c_exp (t_core t) = Some e \<longrightarrow> in_i64 (e + v_exp_tolerance v) \<and> now \<le> e + v_exp_tolerance v) \<and>
     (\<forall>n. c_nbf (t_core t) = Some n \<longrightarrow> in_i64 (n - v_nbf_tolerance v) \<and> n - v_nbf_tolerance v \<le> now)"

definition identity_ok :: "cat_token_validator \<Rightarrow> cat_token \<Rightarrow> bool" where
  "identity_ok v t \<longleftrightarrow>
     (\<forall>E. v_issuers v = Some E \<longrightarrow> (\<exists>i. c_iss (t_core t) = Some i \<and> i \<noteq> [] \<and> i \<in> E)) \<and>
     (\<forall>E. v_audiences v = Some E \<longrightarrow>
        (\<exists>as a. c_aud (t_core t) = Some as \<and> a \<in> set as \<and> a \<noteq> [] \<and> a \<in> E)) \<and>
     (\<forall>n. catv (t_cat t) = Some n \<longrightarrow> n = 1)"

definition privacy_ok :: "cat_token_validator \<Rightarrow> token_provenance \<Rightarrow> cat_token \<Rightarrow> bool" where
  "privacy_ok v prov t \<longleftrightarrow> v_allow_unencrypted v \<or> prov = Encrypted \<or>
     (i_sub (t_informational t) = None \<and> catgeocoord (t_cat t) = None \<and> geohash (t_cat t) = None \<and>
      catgeoalt (t_cat t) = None)"

definition opt_list :: "'a list option \<Rightarrow> 'a list" where
  "opt_list m = (case m of Some xs \<Rightarrow> xs | None \<Rightarrow> [])"

definition regexes_of :: "match_value list \<Rightarrow> string list" where
  "regexes_of ms = List.map_filter (\<lambda>m. case m of MvRegex p \<Rightarrow> Some p | _ \<Rightarrow> None) ms"

definition shape_ok :: "cat_token \<Rightarrow> bool" where
  "shape_ok t \<longleftrightarrow>
     (\<forall>g \<in> set (opt_list (catgeocoord (t_cat t))).
        (geo_lat g = NaN \<or> f64_in_range (- 90) 90 (geo_lat g)) \<and>
        (geo_lon g = NaN \<or> f64_in_range (- 180) 180 (geo_lon g))) \<and>
     (\<forall>h \<in> set (opt_list (geohash (t_cat t))). 4 \<le> length h \<and> length h \<le> 12 \<and> list_all geohash_char h) \<and>
     (\<forall>c \<in> set (opt_list (catgeoiso3166 (t_cat t))). validate_iso3166_code c = Inr ()) \<and>
     (\<forall>n \<in> set (opt_list (catnip (t_cat t))). validate_nip n = Inr ()) \<and>
     (\<forall>r \<in> set (opt_list (catu (t_cat t))). \<forall>p \<in> set (regexes_of (ur_matches r)). perl_free (ere_lex p)) \<and>
     (\<forall>r \<in> set (opt_list (cath (t_cat t))). \<forall>p \<in> set (regexes_of (hr_matches r)). perl_free (ere_lex p))"

lemma for_each_opt_ok: "for_each_opt f m = Inr () \<longleftrightarrow> (\<forall>x \<in> set (opt_list m). f x = Inr ())"
  by (cases m) (auto simp: for_each_opt_def opt_list_def)

lemma check_times_ok: "check_exp v now t = Inr () \<and> check_nbf v now t = Inr () \<longleftrightarrow> time_ok v now t"
  by (auto simp: check_exp_def check_nbf_def time_ok_def split: option.splits if_splits)

lemma check_identity_ok:
  "check_issuer v t = Inr () \<and> check_audience v t = Inr () \<and> check_version t = Inr () \<longleftrightarrow> identity_ok v t"
  by (auto simp: check_issuer_def check_audience_def check_version_def identity_ok_def list_ex_iff
      split: option.splits if_splits)

lemma check_privacy_ok: "validate_privacy_claims v prov t = Inr () \<longleftrightarrow> privacy_ok v prov t"
  by (auto simp: validate_privacy_claims_def privacy_ok_def)

lemma check_ere_ok: "for_each (check_ere c) ms = Inr () \<longleftrightarrow> (\<forall>p \<in> set (regexes_of ms). perl_free (ere_lex p))"
proof -
  have "check_ere c m = Inr () \<longleftrightarrow> (\<forall>p. m = MvRegex p \<longrightarrow> perl_free (ere_lex p))" for m
    by (cases m) (auto simp: check_ere_def validate_posix_ere_iff[symmetric] split: option.splits)
  then show ?thesis
    by (auto simp: regexes_of_def List.map_filter_def split: match_value.splits)
qed

lemma check_geohash_ok:
  "check_geohash h = Inr () \<longleftrightarrow> 4 \<le> length h \<and> length h \<le> 12 \<and> list_all geohash_char h"
  by (auto simp: check_geohash_def list_all_iff split: if_splits)

lemma check_coordinates_ok:
  "check_coordinates g = Inr () \<longleftrightarrow>
     (geo_lat g = NaN \<or> f64_in_range (- 90) 90 (geo_lat g)) \<and>
     (geo_lon g = NaN \<or> f64_in_range (- 180) 180 (geo_lon g))"
proof -
  have "\<not> f64_abs_gt x b \<longleftrightarrow> x = NaN \<or> f64_in_range (- b) b x" for x b
    using f64_range_test[of x "- b" b] by (auto simp: f64_abs_gt_def)
  then show ?thesis unfolding check_coordinates_def by auto
qed

lemma check_shape_ok:
  "validate_geographic_restrictions t = Inr () \<and> validate_regex_ere t = Inr () \<longleftrightarrow> shape_ok t"
  unfolding validate_geographic_restrictions_def validate_regex_ere_def shape_ok_def
  by (simp add: for_each_opt_ok check_coordinates_ok check_geohash_ok check_ere_ok del: for_each_ok)

lemma validate_flat_ok:
  "validate_flat v now prov t = Inr () \<longleftrightarrow>
     time_ok v now t \<and> identity_ok v t \<and> privacy_ok v prov t \<and> shape_ok t"
  unfolding validate_flat_def
  by (simp add: check_privacy_ok flip: check_times_ok check_identity_ok check_shape_ok)

text \<open>C11: the validator accepts a token exactly when its times, its issuer, audience and version, its privacy
  claims and the shape of its geographic and pattern claims are in order, and every composite claim is nested
  within the limit and holds, a nested token counting as true when the validator accepts it.\<close>

theorem validator_accepts:
  "validate_with_provenance v now prov t = Inr () \<longleftrightarrow>
     time_ok v now t \<and> identity_ok v t \<and> privacy_ok v prov t \<and> shape_ok t \<and>
     (\<forall>c \<in> set (composites_of (t_composite t)).
        nesting c \<le> max_nesting_depth \<and> holds (\<lambda>s. is_ok (validate v now s)) c)"
  unfolding validate_with_provenance_ok validate_flat_ok by blast

text \<open>The tolerances the constructors can set.\<close>

definition tolerances_ok :: "cat_token_validator \<Rightarrow> bool" where
  "tolerances_ok v \<longleftrightarrow> 0 \<le> v_exp_tolerance v \<and> v_exp_tolerance v \<le> 3600 \<and>
     0 \<le> v_nbf_tolerance v \<and> v_nbf_tolerance v \<le> 3600"

inductive validator_built :: "cat_token_validator \<Rightarrow> bool" where
  vb_issuers: "validator_built (for_expected_issuers is)"
| vb_any: "validator_built dangerously_any_issuer"
| vb_with_issuers: "validator_built v \<Longrightarrow> validator_built (with_expected_issuers is v)"
| vb_with_audiences: "validator_built v \<Longrightarrow> validator_built (with_expected_audiences as v)"
| vb_skew: "validator_built v \<Longrightarrow> with_clock_skew_tolerance s v = Inr v' \<Longrightarrow> validator_built v'"
| vb_separate: "validator_built v \<Longrightarrow> with_separate_tolerances e n v = Inr v' \<Longrightarrow> validator_built v'"
| vb_unenc: "validator_built v \<Longrightarrow> validator_built (allow_unencrypted_privacy_claims v)"

lemma check_tolerance_ok: "check_tolerance s = Inr u \<longleftrightarrow> 0 \<le> s \<and> s \<le> 3600"
  by (auto simp: check_tolerance_def max_clock_skew_tolerance_secs_def)

text \<open>However a validator is built, its tolerances are between zero and an hour and its issuer and audience sets
  never hold the empty string.\<close>

lemma validator_built_ok:
  "validator_built v \<Longrightarrow> tolerances_ok v \<and> (\<forall>E. v_issuers v = Some E \<longrightarrow> [] \<notin> E) \<and>
     (\<forall>E. v_audiences v = Some E \<longrightarrow> [] \<notin> E)"
  by (induction rule: validator_built.induct)
     (auto simp: tolerances_ok_def for_expected_issuers_def dangerously_any_issuer_def
        with_expected_issuers_def with_expected_audiences_def with_clock_skew_tolerance_def
        with_separate_tolerances_def allow_unencrypted_privacy_claims_def check_tolerance_ok
        nonempty_set_def)

end
