(* ===== verification/Moq_Codec.thy ===== *)
theory Moq_Codec
  imports Claims
begin

text \<open>
  The text encodings of MOQ names in \<open>src/src/dpop.rs\<close> and \<open>src/src/moqt.rs\<close>: the canonical
  dotted-hex encoding of namespaces and tracks, and the \<open>moqt://\<close> resource URI with its base64url
  segments.

  Both join encoded elements with a separator the element encoding never produces; the locale
  \<open>text_codec\<close> states that interface once. The canonical encoding provides it; base64url is a
  parameter, so the theorems on the resource URI assume the interface of it.
\<close>

section \<open>Encodings that can be joined\<close>

locale text_codec =
  fixes enc :: "bytes \<Rightarrow> string"
    and dec :: "string \<Rightarrow> 'e + bytes"
    and sep :: char
  assumes dec_enc: "dec (enc x) = Inr x"
    and sep_free: "sep \<notin> set (enc x)"
begin

definition enc_list :: "bytes list \<Rightarrow> string" where
  "enc_list xs = join_with [sep] (map enc xs)"

definition dec_list :: "string \<Rightarrow> 'e + bytes list" where
  "dec_list s = map_r dec (split_on sep s)"

lemma split_enc_list: "xs \<noteq> [] \<Longrightarrow> split_on sep (enc_list xs) = map enc xs"
  unfolding enc_list_def by (rule split_on_join) (auto simp: sep_free)

lemma dec_enc_list: "xs \<noteq> [] \<Longrightarrow> dec_list (enc_list xs) = Inr xs"
  by (simp add: dec_list_def split_enc_list map_r_inverse dec_enc)

lemma enc_inj: "enc x = enc y \<longleftrightarrow> x = y"
  by (metis dec_enc sum.inject(2))

lemma enc_list_inj: "xs \<noteq> [] \<Longrightarrow> ys \<noteq> [] \<Longrightarrow> enc_list xs = enc_list ys \<longleftrightarrow> xs = ys"
  by (metis dec_enc_list sum.inject(2))

end

section \<open>The canonical encoding\<close>

definition char_of_byte :: "byte \<Rightarrow> char" where
  "char_of_byte b = char_of (unat b)"

definition byte_of_char :: "char \<Rightarrow> byte" where
  "byte_of_char c = of_nat (ord_of c)"

definition moq_is_safe :: "char \<Rightarrow> bool" where
  "moq_is_safe c \<longleftrightarrow> is_ascii_alnum c \<or> c = CHR ''_''"

definition lower_hex :: "nat \<Rightarrow> char" where
  "lower_hex n = (if n < 10 then char_of (48 + n) else char_of (87 + n))"

definition moq_canonical_byte :: "byte \<Rightarrow> string" where
  "moq_canonical_byte b =
     (if moq_is_safe (char_of_byte b) then [char_of_byte b]
      else [CHR ''.'', lower_hex (unat b div 16), lower_hex (unat b mod 16)])"

definition moq_canonical_element :: "bytes \<Rightarrow> string" where
  "moq_canonical_element bs = concat (map moq_canonical_byte bs)"

definition moq_canonical_tns :: "bytes list \<Rightarrow> string" where
  "moq_canonical_tns tns = join_with ''-'' (map moq_canonical_element tns)"

definition moq_hex_digit :: "char \<Rightarrow> nat result" where
  "moq_hex_digit b =
     (if 48 \<le> ord_of b \<and> ord_of b \<le> 57 then Inr (ord_of b - 48)
      else if 97 \<le> ord_of b \<and> ord_of b \<le> 102 then Inr (ord_of b - 97 + 10)
      else if 65 \<le> ord_of b \<and> ord_of b \<le> 70 then Inr (ord_of b - 65 + 10)
      else Inl (InvalidClaimValue ''invalid hex digit 0x''))"

text \<open>\<open>(hi << 4) | lo\<close> of two nibbles.\<close>

definition byte_of_nibbles :: "nat \<Rightarrow> nat \<Rightarrow> byte" where
  "byte_of_nibbles hi lo = or (push_bit 4 (of_nat hi)) (of_nat lo)"

fun moq_element_from_canonical :: "string \<Rightarrow> bytes result" where
  "moq_element_from_canonical [] = Inr []"
| "moq_element_from_canonical (b # s) =
     (if b = CHR ''.'' then
        (case s of
           h # l # rest \<Rightarrow>
             rbind (moq_hex_digit h) (\<lambda>hi. rbind (moq_hex_digit l) (\<lambda>lo.
             rbind (moq_element_from_canonical rest) (\<lambda>bs. Inr (byte_of_nibbles hi lo # bs))))
         | _ \<Rightarrow> Inl (InvalidClaimValue ''truncated MOQ escape''))
      else if moq_is_safe b then
        rbind (moq_element_from_canonical s) (\<lambda>bs. Inr (byte_of_char b # bs))
      else Inl (InvalidClaimValue ''unescaped MOQ byte 0x''))"

definition moq_tns_from_canonical :: "string \<Rightarrow> bytes list result" where
  "moq_tns_from_canonical s = map_r moq_element_from_canonical (split_on CHR ''-'' s)"

lemma byte_char [simp]: "byte_of_char (char_of_byte b) = b"
  using unsigned_less[of b, where 'a = nat] by (simp add: byte_of_char_def char_of_byte_def)

lemma lower_hex_digit [simp]: "n < 16 \<Longrightarrow> moq_hex_digit (lower_hex n) = Inr n"
  by (auto simp: moq_hex_digit_def lower_hex_def)

lemma lower_hex_ord: "n < 16 \<Longrightarrow> ord_of (lower_hex n) \<in> {48..57} \<union> {97..102}"
  by (auto simp: lower_hex_def)

lemma safe_not_dot: "moq_is_safe c \<Longrightarrow> c \<noteq> CHR ''.'' \<and> c \<noteq> CHR ''-''"
  by (auto simp: moq_is_safe_def ascii_defs)

lemma byte_of_nibbles_halves [simp]:
  "byte_of_nibbles (unat (b :: byte) div 16) (unat b mod 16) = b"
proof -
  have "of_nat (unat b div 16) = drop_bit 4 b"
    by (simp add: drop_bit_eq_div word_arith_nat_div)
  moreover have "of_nat (unat b mod 16) = take_bit 4 b"
    by (simp add: take_bit_eq_mod word_arith_nat_mod)
  ultimately show ?thesis
    by (simp only: byte_of_nibbles_def) (rule bit_word_eqI, auto simp: bit_simps)
qed

lemma byte_halves: "unat (b :: byte) div 16 < 16" "unat b mod 16 < 16"
  using unsigned_less[of b, where 'a = nat] by simp_all

lemma moq_element_roundtrip [simp]:
  "moq_element_from_canonical (moq_canonical_element bs) = Inr bs"
proof (induction bs)
  case Nil
  then show ?case by (simp add: moq_canonical_element_def)
next
  case (Cons b bs)
  then show ?case
    using safe_not_dot[of "char_of_byte b"] byte_halves[of b]
    by (cases "moq_is_safe (char_of_byte b)")
       (auto simp: moq_canonical_element_def moq_canonical_byte_def)
qed

lemma lower_hex_no_dash: "n < 16 \<Longrightarrow> lower_hex n \<noteq> CHR ''-''"
  using lower_hex_ord[of n] by fastforce

lemma moq_canonical_byte_no_dash: "CHR ''-'' \<notin> set (moq_canonical_byte b)"
  using safe_not_dot[of "char_of_byte b"]
    lower_hex_no_dash[OF byte_halves(1), of b] lower_hex_no_dash[OF byte_halves(2), of b]
  by (auto simp: moq_canonical_byte_def)

lemma moq_element_no_dash: "CHR ''-'' \<notin> set (moq_canonical_element bs)"
  using moq_canonical_byte_no_dash by (auto simp: moq_canonical_element_def)

interpretation moq: text_codec moq_canonical_element moq_element_from_canonical "CHR ''-''"
  by unfold_locales (simp_all add: moq_element_no_dash)

lemma moq_canonical_tns_enc: "moq_canonical_tns tns = moq.enc_list tns"
  by (simp add: moq_canonical_tns_def moq.enc_list_def)

lemma moq_tns_from_canonical_dec: "moq_tns_from_canonical s = moq.dec_list s"
  by (simp add: moq_tns_from_canonical_def moq.dec_list_def)

lemma moq_tns_roundtrip: "tns \<noteq> [] \<Longrightarrow> moq_tns_from_canonical (moq_canonical_tns tns) = Inr tns"
  by (simp add: moq_canonical_tns_enc moq_tns_from_canonical_dec moq.dec_enc_list)

section \<open>The resource URI\<close>

definition construct_moqt_uri ::
  "(bytes \<Rightarrow> string) \<Rightarrow> string \<Rightarrow> bytes list option \<Rightarrow> bytes option \<Rightarrow> string result" where
  "construct_moqt_uri b64 endpoint namespace track =
     (if CHR ''?'' \<in> set endpoint \<or> CHR ''#'' \<in> set endpoint \<or> CHR ''/'' \<in> set endpoint
      then Inl (InvalidClaimValue ''MOQT endpoint must not contain '')
      else case namespace of
        Some ns \<Rightarrow>
          (if ns = [] then Inl (InvalidClaimValue ''MOQT resource namespace tuple must have at least one element'')
           else Inr (''moqt://'' @ endpoint @ ''?tns='' @ join_with '','' (map b64 ns) @
                     (case track of Some t \<Rightarrow> ''&tn='' @ b64 t | None \<Rightarrow> [])))
      | None \<Rightarrow>
          (if track \<noteq> None then Inl (InvalidClaimValue ''MOQT resource track requires a namespace tuple'')
           else Inr (''moqt://'' @ endpoint)))"

record moqt_resource_uri =
  mu_endpoint :: string
  mu_namespace :: "bytes list option"
  mu_track :: "bytes option"

definition dpop_err :: "string \<Rightarrow> cat_error" where
  "dpop_err s = DpopValidationFailed s"

text \<open>One query segment; the error of the decoder is replaced by the message of the code.\<close>

definition b64_or :: "string \<Rightarrow> (string \<Rightarrow> 'e + bytes) \<Rightarrow> string \<Rightarrow> bytes result" where
  "b64_or msg b64d s = (case b64d s of Inl _ \<Rightarrow> Inl (dpop_err msg) | Inr x \<Rightarrow> Inr x)"

definition parse_query_pair ::
  "(string \<Rightarrow> 'e + bytes) \<Rightarrow> string \<Rightarrow> bytes list option \<times> bytes option \<Rightarrow>
     (bytes list option \<times> bytes option) result" where
  "parse_query_pair b64d pair st =
     (case split_once CHR ''='' pair of
        None \<Rightarrow> Inl (dpop_err ''DPoP proof resource query segment has no '')
      | Some (k, v) \<Rightarrow>
          (if k = ''tns'' \<and> fst st = None then
             (if v = [] then Inl (dpop_err ''DPoP proof resource tns value is empty'')
              else rbind (map_r (b64_or ''DPoP proof resource tns segment base64 decode: '' b64d)
                            (split_on CHR '','' v))
                     (\<lambda>segs. Inr (Some segs, snd st)))
           else if k = ''tn'' \<and> snd st = None then
             rbind (b64_or ''DPoP proof resource tn base64 decode: '' b64d v) (\<lambda>t. Inr (fst st, Some t))
           else Inl (dpop_err ''DPoP proof resource has unexpected or repeated query key '')))"

fun parse_query ::
  "(string \<Rightarrow> 'e + bytes) \<Rightarrow> string list \<Rightarrow> bytes list option \<times> bytes option \<Rightarrow>
     (bytes list option \<times> bytes option) result" where
  "parse_query b64d [] st = Inr st"
| "parse_query b64d (p # ps) st = rbind (parse_query_pair b64d p st) (parse_query b64d ps)"

definition parse_moqt_resource_uri ::
  "(string \<Rightarrow> 'e + bytes) \<Rightarrow> string \<Rightarrow> moqt_resource_uri result" where
  "parse_moqt_resource_uri b64d uri =
     (case strip_prefix ''moqt://'' uri of
        None \<Rightarrow> Inl (dpop_err ''DPoP proof resource must start with moqt://; got '')
      | Some rest \<Rightarrow>
          (if CHR ''#'' \<in> set rest \<or> CHR ''/'' \<in> set rest
           then Inl (dpop_err ''DPoP proof resource must not contain '')
           else
             let (endpoint, query) =
                   (case split_once CHR ''?'' rest of Some (e, q) \<Rightarrow> (e, Some q) | None \<Rightarrow> (rest, None))
             in if endpoint = [] then Inl (dpop_err ''DPoP proof resource endpoint is empty'')
                else rbind (case query of
                              Some q \<Rightarrow> parse_query b64d (split_on CHR ''&'' q) (None, None)
                            | None \<Rightarrow> Inr (None, None))
                  (\<lambda>(ns, tn).
                     if tn \<noteq> None \<and> ns = None
                     then Inl (dpop_err ''DPoP proof resource carries tn without tns'')
                     else Inr \<lparr>mu_endpoint = endpoint, mu_namespace = ns, mu_track = tn\<rparr>)))"

text \<open>What the code relies on of base64url without padding: it decodes what it encodes, its
  alphabet has none of the reserved characters, and only the empty input encodes to the empty
  string.\<close>

definition b64url_char :: "char \<Rightarrow> bool" where
  "b64url_char c \<longleftrightarrow> is_ascii_alnum c \<or> c = CHR ''-'' \<or> c = CHR ''_''"

definition b64url_codec :: "(bytes \<Rightarrow> string) \<Rightarrow> (string \<Rightarrow> 'e + bytes) \<Rightarrow> bool" where
  "b64url_codec b64 b64d \<longleftrightarrow>
     (\<forall>x. b64d (b64 x) = Inr x) \<and> (\<forall>x. list_all b64url_char (b64 x))"

lemma b64url_char_reserved [simp]:
  "\<not> b64url_char CHR '',''" "\<not> b64url_char CHR ''&''" "\<not> b64url_char CHR ''=''"
  "\<not> b64url_char CHR ''#''" "\<not> b64url_char CHR ''/''" "\<not> b64url_char CHR ''?''"
  by code_simp+

lemma b64url_free:
  assumes "b64url_codec b64 b64d" "\<not> b64url_char c"
  shows "c \<notin> set (b64 x)"
  using assms by (auto simp: b64url_codec_def list_all_iff)

lemma b64url_text_codec: "b64url_codec b64 b64d \<Longrightarrow> text_codec b64 b64d CHR '',''"
  by unfold_locales (auto simp: b64url_free b64url_codec_def)

lemma b64_join_free:
  assumes "b64url_codec b64 b64d" "\<not> b64url_char c" "c \<noteq> CHR '',''"
  shows "c \<notin> set (join_with '','' (map b64 ns))"
  using set_join_with[of "'',''" "map b64 ns"] b64url_free[OF assms(1,2)] assms(3) by auto

lemma b64_or_ok: "b64d s = Inr x \<Longrightarrow> b64_or m b64d s = Inr x"
  by (simp add: b64_or_def)

lemma b64_or_list:
  assumes "b64url_codec b64 b64d" "ns \<noteq> []"
  shows "map_r (b64_or m b64d) (split_on CHR '','' (join_with '','' (map b64 ns))) = Inr ns"
proof -
  have "split_on CHR '','' (join_with '','' (map b64 ns)) = map b64 ns"
    using text_codec.split_enc_list[OF b64url_text_codec[OF assms(1)] assms(2)]
    by (simp add: text_codec.enc_list_def[OF b64url_text_codec[OF assms(1)]])
  moreover have "b64_or m b64d (b64 x) = Inr x" for x
    using assms(1) by (simp add: b64_or_def b64url_codec_def)
  ultimately show ?thesis by (simp add: map_r_inverse)
qed

lemma parse_tns_pair:
  assumes "b64url_codec b64 b64d" "ns \<noteq> []" "join_with '','' (map b64 ns) \<noteq> []"
  shows "parse_query_pair b64d (''tns='' @ join_with '','' (map b64 ns)) (None, tn) = Inr (Some ns, tn)"
  using split_once_append[of "CHR ''=''" "''tns''" "join_with '','' (map b64 ns)"] assms(3)
    b64_or_list[OF assms(1,2)]
  by (simp add: parse_query_pair_def del: split_once_append)

lemma parse_tn_pair:
  assumes "b64url_codec b64 b64d"
  shows "parse_query_pair b64d (''tn='' @ b64 t) (ns, None) = Inr (ns, Some t)"
  using split_once_append[of "CHR ''=''" "''tn''" "b64 t"] assms
  by (simp add: parse_query_pair_def b64_or_def b64url_codec_def del: split_once_append)

lemma construct_moqt_uri_endpoint:
  "construct_moqt_uri b64 e ns tn = Inr u \<Longrightarrow>
     CHR ''?'' \<notin> set e \<and> CHR ''#'' \<notin> set e \<and> CHR ''/'' \<notin> set e"
  by (auto simp: construct_moqt_uri_def split: if_splits)

text \<open>The query part of a constructed URI and what the parser makes of it.\<close>

definition tns_query :: "(bytes \<Rightarrow> string) \<Rightarrow> bytes list \<Rightarrow> bytes option \<Rightarrow> string" where
  "tns_query b64 ns tn =
     ''tns='' @ join_with '','' (map b64 ns) @ (case tn of Some t \<Rightarrow> ''&tn='' @ b64 t | None \<Rightarrow> [])"

lemma tns_query_free:
  assumes "b64url_codec b64 b64d" "c \<in> {CHR ''#'', CHR ''/''}"
  shows "c \<notin> set (tns_query b64 ns tn)"
  using assms b64_join_free[OF assms(1), of c ns] b64url_free[OF assms(1), of c]
  by (auto simp: tns_query_def split: option.splits)

lemma split_tns_query:
  assumes "b64url_codec b64 b64d"
  shows "split_on CHR ''&'' (tns_query b64 ns tn) =
     (''tns='' @ join_with '','' (map b64 ns)) # (case tn of Some t \<Rightarrow> [''tn='' @ b64 t] | None \<Rightarrow> [])"
proof -
  define k where "k = ''tns='' @ join_with '','' (map b64 ns)"
  have 1: "CHR ''&'' \<notin> set k"
    unfolding k_def using b64_join_free[OF assms, of "CHR ''&''" ns] by simp
  show ?thesis
  proof (cases tn)
    case None
    then show ?thesis
      using split_on_no_sep[OF 1] by (simp only: tns_query_def k_def option.case append_Nil2)
  next
    case (Some t)
    define v where "v = ''tn='' @ b64 t"
    have "CHR ''&'' \<notin> set v" unfolding v_def using b64url_free[OF assms, of "CHR ''&''" t] by simp
    then have "split_on CHR ''&'' (k @ ''&'' @ v) = [k, v]"
      using split_on_append[of "CHR ''&''" k v] split_on_no_sep[of "CHR ''&''" v] 1 by simp
    moreover have "tns_query b64 ns tn = k @ ''&'' @ v"
      by (simp add: Some tns_query_def k_def v_def)
    ultimately show ?thesis by (simp only: k_def v_def Some option.case)
  qed
qed

lemma parse_tns_query:
  assumes "b64url_codec b64 b64d" "ns \<noteq> []" "join_with '','' (map b64 ns) \<noteq> []"
  shows "parse_query b64d (split_on CHR ''&'' (tns_query b64 ns tn)) (None, None) = Inr (Some ns, tn)"
  unfolding split_tns_query[OF assms(1)]
  using parse_tns_pair[OF assms, of None] parse_tn_pair[OF assms(1), of _ "Some ns"]
  by (cases tn) simp_all

lemma parse_after_scheme:
  "parse_moqt_resource_uri b64d (''moqt://'' @ rest) =
     (if CHR ''#'' \<in> set rest \<or> CHR ''/'' \<in> set rest
      then Inl (dpop_err ''DPoP proof resource must not contain '')
      else
        let (endpoint, query) =
              (case split_once CHR ''?'' rest of Some (e, q) \<Rightarrow> (e, Some q) | None \<Rightarrow> (rest, None))
        in if endpoint = [] then Inl (dpop_err ''DPoP proof resource endpoint is empty'')
           else rbind (case query of
                         Some q \<Rightarrow> parse_query b64d (split_on CHR ''&'' q) (None, None)
                       | None \<Rightarrow> Inr (None, None))
             (\<lambda>(ns, tn).
                if tn \<noteq> None \<and> ns = None
                then Inl (dpop_err ''DPoP proof resource carries tn without tns'')
                else Inr \<lparr>mu_endpoint = endpoint, mu_namespace = ns, mu_track = tn\<rparr>))"
  by (simp only: parse_moqt_resource_uri_def strip_prefix_append option.case)

lemma construct_moqt_uri_tns:
  assumes "construct_moqt_uri b64 e (Some ns) tn = Inr u"
  shows "ns \<noteq> [] \<and> u = ''moqt://'' @ e @ CHR ''?'' # tns_query b64 ns tn"
  using assms by (auto simp: construct_moqt_uri_def tns_query_def split: if_splits)

lemma b64_empty:
  assumes "b64url_codec b64 b64d" "b64 [] = []"
  shows "b64 x = [] \<longleftrightarrow> x = []"
  using assms unfolding b64url_codec_def by (metis sum.inject(2))

lemma b64_join_empty:
  assumes "b64url_codec b64 b64d" "b64 [] = []" "ns \<noteq> []"
  shows "join_with '','' (map b64 ns) = [] \<longleftrightarrow> ns = [[]]"
proof (cases ns)
  case (Cons x xs)
  then show ?thesis using b64_empty[OF assms(1,2)] by (cases xs) auto
qed (use assms(3) in simp)

lemma parse_tns_empty:
  assumes "b64url_codec b64 b64d" "b64 [] = []"
  shows "parse_query b64d (split_on CHR ''&'' (tns_query b64 [[]] tn)) (None, None) =
    Inl (dpop_err ''DPoP proof resource tns value is empty'')"
proof -
  have "parse_query_pair b64d ''tns='' (None, None) = Inl (dpop_err ''DPoP proof resource tns value is empty'')"
    using split_once_append[of "CHR ''=''" "''tns''" "[]"] by (simp add: parse_query_pair_def del: split_once_append)
  then show ?thesis by (simp add: split_tns_query[OF assms(1)] assms(2))
qed

lemma parse_constructed_namespace:
  assumes "b64url_codec b64 b64d" "construct_moqt_uri b64 e (Some ns) tn = Inr u" "e \<noteq> []"
  shows "parse_moqt_resource_uri b64d u =
    rbind (parse_query b64d (split_on CHR ''&'' (tns_query b64 ns tn)) (None, None)) (\<lambda>(ns, tn).
      if tn \<noteq> None \<and> ns = None
      then Inl (dpop_err ''DPoP proof resource carries tn without tns'')
      else Inr \<lparr>mu_endpoint = e, mu_namespace = ns, mu_track = tn\<rparr>)"
proof -
  have e: "CHR ''?'' \<notin> set e" "CHR ''#'' \<notin> set e" "CHR ''/'' \<notin> set e"
    using construct_moqt_uri_endpoint[OF assms(2)] by auto
  have free: "CHR ''#'' \<notin> set (tns_query b64 ns tn)" "CHR ''/'' \<notin> set (tns_query b64 ns tn)"
    using tns_query_free[OF assms(1)] by auto
  show ?thesis
    using construct_moqt_uri_tns[OF assms(2)] e free assms(3) by (simp only: parse_after_scheme) simp
qed

text \<open>C32: the resource URI built for an endpoint, an optional namespace tuple and an optional track
  parses back to exactly these when the endpoint is not empty and the tuple is not the one whose only
  element is empty; in these two cases, which the builder accepts, the parser refuses the text as one
  without an endpoint, or without a \<open>tns\<close> value. Of base64url the theorem uses that it decodes what it
  encodes, its alphabet, and that nothing is encoded as the empty text.\<close>

theorem parse_constructed_uri:
  assumes "b64url_codec b64 b64d" "b64 [] = []" "construct_moqt_uri b64 e ns tn = Inr u"
  shows "parse_moqt_resource_uri b64d u =
    (if e = [] then Inl (dpop_err ''DPoP proof resource endpoint is empty'')
     else if ns = Some [[]] then Inl (dpop_err ''DPoP proof resource tns value is empty'')
     else Inr \<lparr>mu_endpoint = e, mu_namespace = ns, mu_track = tn\<rparr>)"
proof (cases ns)
  case None
  then have e: "CHR ''?'' \<notin> set e" "CHR ''#'' \<notin> set e" "CHR ''/'' \<notin> set e"
    and u: "tn = None" "u = ''moqt://'' @ e"
    using construct_moqt_uri_endpoint[OF assms(3)] assms(3) by (auto simp: construct_moqt_uri_def split: if_splits)
  have n: "split_once CHR ''?'' e = None" using e(1) by simp
  show ?thesis using e None u(1) by (simp only: u(2) parse_after_scheme n) simp
next
  case (Some xs)
  note built = assms(3)[unfolded Some]
  note ns = construct_moqt_uri_tns[OF built]
  show ?thesis
  proof (cases "e = []")
    case True
    have "CHR ''#'' \<notin> set (tns_query b64 xs tn)" "CHR ''/'' \<notin> set (tns_query b64 xs tn)"
      using tns_query_free[OF assms(1)] by auto
    then show ?thesis using ns True by (simp only: parse_after_scheme) simp
  next
    case e: False
    show ?thesis
    proof (cases "xs = [[]]")
      case True
      then show ?thesis using Some e
        by (simp only: parse_constructed_namespace[OF assms(1) built e] parse_tns_empty[OF assms(1,2)]) simp
    next
      case False
      then have "join_with '','' (map b64 xs) \<noteq> []" using b64_join_empty[OF assms(1,2)] ns by simp
      then show ?thesis using ns[THEN conjunct1] e False Some
        by (simp add: parse_constructed_namespace[OF assms(1) built e] parse_tns_query[OF assms(1)])
    qed
  qed
qed

end
