(* ===== verification/Jwk.thy ===== *)
theory Jwk
  imports Moq_Codec
begin

text \<open>
  JSON Web Keys (\<open>src/src/jwk.rs\<close>): the key record, the canonical JSON of RFC 7638 that its
  thumbprint hashes, the checks before a verification key is rebuilt, and the constant-time
  comparison of \<open>src/src/crypto.rs\<close>.

  SHA-256, base64url and the acceptance test of the key libraries are arguments.
\<close>

section \<open>Constant-time comparison\<close>

definition constant_time_eq :: "bytes \<Rightarrow> bytes \<Rightarrow> bool" where
  "constant_time_eq a b =
     (if length a \<noteq> length b then False
      else fold (\<lambda>(x, y) diff. or diff (xor x y)) (zip a b) 0 = 0)"

lemma or_zero_iff: "or (x :: byte) y = 0 \<longleftrightarrow> x = 0 \<and> y = 0"
  by (auto simp: bit_eq_iff bit_simps)

lemma xor_zero_iff: "xor (x :: byte) y = 0 \<longleftrightarrow> x = y"
  by (auto simp: bit_eq_iff bit_simps)

lemma fold_diff_zero:
  "length a = length b \<Longrightarrow>
     fold (\<lambda>(x, y) diff. or diff (xor x y)) (zip a b) d = 0 \<longleftrightarrow> d = 0 \<and> a = (b :: bytes)"
  by (induction a b arbitrary: d rule: list_induct2) (auto simp: or_zero_iff xor_zero_iff)

lemma constant_time_eq_iff [simp]: "constant_time_eq a b \<longleftrightarrow> a = b"
  by (auto simp: constant_time_eq_def fold_diff_zero)

section \<open>Keys and their canonical form\<close>

record jwk =
  jwk_kty :: string
  jwk_crv :: "string option"
  jwk_x :: "string option"
  jwk_y :: "string option"
  jwk_n :: "string option"
  jwk_e :: "string option"

definition validate_base64url_safe :: "string \<Rightarrow> unit result" where
  "validate_base64url_safe s =
     for_each (\<lambda>c. if \<not> is_ascii_alnum c \<and> c \<noteq> CHR ''-'' \<and> c \<noteq> CHR ''_''
                   then Inl (InvalidClaimValue ''JWK field contains invalid character'') else Inr ()) s"

definition dquote :: char where "dquote = CHR 0x22"
definition backslash :: char where "backslash = CHR 0x5C"

text \<open>A quoted JSON string, and the object text of the two key types.\<close>

definition quoted :: "string \<Rightarrow> string" where
  "quoted s = dquote # s @ [dquote]"

definition ec_json :: "string \<Rightarrow> string \<Rightarrow> string \<Rightarrow> string" where
  "ec_json crv x y =
     ''{'' @ quoted ''crv'' @ '':'' @ quoted crv @ '','' @ quoted ''kty'' @ '':'' @ quoted ''EC'' @ '','' @
     quoted ''x'' @ '':'' @ quoted x @ '','' @ quoted ''y'' @ '':'' @ quoted y @ ''}''"

definition rsa_json :: "string \<Rightarrow> string \<Rightarrow> string" where
  "rsa_json e n =
     ''{'' @ quoted ''e'' @ '':'' @ quoted e @ '','' @ quoted ''kty'' @ '':'' @ quoted ''RSA'' @ '','' @
     quoted ''n'' @ '':'' @ quoted n @ ''}''"

definition canonical_json :: "jwk \<Rightarrow> string result" where
  "canonical_json k =
     (if jwk_kty k = ''EC'' then
        rbind (ok_or (jwk_crv k) (InvalidClaimValue ''EC JWK missing crv'')) (\<lambda>crv.
        rbind (ok_or (jwk_x k) (InvalidClaimValue ''EC JWK missing x'')) (\<lambda>x.
        rbind (ok_or (jwk_y k) (InvalidClaimValue ''EC JWK missing y'')) (\<lambda>y.
        rbind (validate_base64url_safe x) (\<lambda>_.
        rbind (validate_base64url_safe y) (\<lambda>_.
        if dquote \<in> set crv \<or> backslash \<in> set crv
        then Inl (InvalidClaimValue ''JWK crv contains invalid characters'')
        else Inr (ec_json crv x y))))))
      else if jwk_kty k = ''RSA'' then
        rbind (ok_or (jwk_e k) (InvalidClaimValue ''RSA JWK missing e'')) (\<lambda>e.
        rbind (ok_or (jwk_n k) (InvalidClaimValue ''RSA JWK missing n'')) (\<lambda>n.
        rbind (validate_base64url_safe e) (\<lambda>_.
        rbind (validate_base64url_safe n) (\<lambda>_.
        Inr (rsa_json e n)))))
      else Inl (UnsupportedAlgorithm ''Unsupported key type: ''))"

definition thumbprint :: "(bytes \<Rightarrow> bytes) \<Rightarrow> jwk \<Rightarrow> bytes result" where
  "thumbprint sha k = rbind (canonical_json k) (\<lambda>s. Inr (sha (map byte_of_char s)))"

definition thumbprint_base64 :: "(bytes \<Rightarrow> bytes) \<Rightarrow> (bytes \<Rightarrow> string) \<Rightarrow> jwk \<Rightarrow> string result" where
  "thumbprint_base64 sha b64 k = rbind (thumbprint sha k) (\<lambda>t. Inr (b64 t))"

text \<open>The members of a key that RFC 7638 covers.\<close>

definition key_members :: "jwk \<Rightarrow> string option list" where
  "key_members k =
     (if jwk_kty k = ''EC'' then [jwk_crv k, jwk_x k, jwk_y k] else [jwk_e k, jwk_n k])"

lemma validate_base64url_safe_ok:
  "validate_base64url_safe s = Inr () \<longleftrightarrow> list_all b64url_char s"
  by (auto simp: validate_base64url_safe_def list_all_iff b64url_char_def)

lemma quoted_append_inj:
  "dquote \<notin> set a \<Longrightarrow> dquote \<notin> set b \<Longrightarrow> quoted a @ u = quoted b @ v \<longleftrightarrow> a = b \<and> u = v"
  unfolding quoted_def by (induction a b rule: list_induct2') auto

lemma quoted_inj: "quoted a = quoted b \<longleftrightarrow> a = b"
  by (simp add: quoted_def)

lemma b64url_no_quote: "list_all b64url_char s \<Longrightarrow> dquote \<notin> set s"
proof -
  have "\<not> b64url_char dquote" by code_simp
  then show "list_all b64url_char s \<Longrightarrow> dquote \<notin> set s" by (auto simp: list_all_iff)
qed

lemma ec_json_inj:
  assumes "dquote \<notin> set c" "dquote \<notin> set c'" "dquote \<notin> set x" "dquote \<notin> set x'"
    and "dquote \<notin> set y" "dquote \<notin> set y'"
  shows "ec_json c x y = ec_json c' x' y' \<longleftrightarrow> c = c' \<and> x = x' \<and> y = y'"
  unfolding ec_json_def using assms
  by (simp add: quoted_append_inj quoted_inj)

lemma rsa_json_inj:
  assumes "dquote \<notin> set e" "dquote \<notin> set e'" "dquote \<notin> set n" "dquote \<notin> set n'"
  shows "rsa_json e n = rsa_json e' n' \<longleftrightarrow> e = e' \<and> n = n'"
  unfolding rsa_json_def using assms by (simp add: quoted_append_inj quoted_inj)

lemma ec_rsa_distinct: "ec_json c x y \<noteq> rsa_json e n"
  by (simp add: ec_json_def rsa_json_def quoted_def)

lemma canonical_json_cases:
  "canonical_json k = Inr s \<longleftrightarrow>
     (jwk_kty k = ''EC'' \<and> (\<exists>c x y. jwk_crv k = Some c \<and> jwk_x k = Some x \<and> jwk_y k = Some y \<and>
        list_all b64url_char x \<and> list_all b64url_char y \<and> dquote \<notin> set c \<and> backslash \<notin> set c \<and>
        s = ec_json c x y)) \<or>
     (jwk_kty k = ''RSA'' \<and> (\<exists>e n. jwk_e k = Some e \<and> jwk_n k = Some n \<and>
        list_all b64url_char e \<and> list_all b64url_char n \<and> s = rsa_json e n))"
  by (cases "jwk_crv k"; cases "jwk_x k"; cases "jwk_y k"; cases "jwk_e k"; cases "jwk_n k")
     (auto simp: canonical_json_def validate_base64url_safe_ok)

text \<open>C31: keys with the same canonical form have the same type and the same members of RFC 7638, whatever characters
  their fields hold, so no field can smuggle another.\<close>

theorem canonical_json_inj:
  assumes "canonical_json j = Inr s" "canonical_json k = Inr s"
  shows "jwk_kty j = jwk_kty k \<and> key_members j = key_members k"
  using assms ec_json_inj rsa_json_inj ec_rsa_distinct b64url_no_quote
  unfolding canonical_json_cases key_members_def by (auto dest!: b64url_no_quote) metis+

section \<open>Rebuilding a verification key\<close>

text \<open>The uncompressed point handed to the P-256 library, and the modulus and exponent handed to
  the RSA library; \<open>accept\<close> is the library's own check.\<close>

definition b64_field :: "(string \<Rightarrow> string + bytes) \<Rightarrow> string \<Rightarrow> bytes result" where
  "b64_field b64d s = (case b64d s of Inl e \<Rightarrow> Inl (InvalidBase64 e) | Inr x \<Rightarrow> Inr x)"

definition to_verifying_key ::
  "(string \<Rightarrow> string + bytes) \<Rightarrow> (bytes \<Rightarrow> bool) \<Rightarrow> jwk \<Rightarrow> bytes result" where
  "to_verifying_key b64d accept k =
     (if jwk_kty k \<noteq> ''EC'' then Inl (InvalidClaimValue ''Not an EC key'')
      else if jwk_crv k \<noteq> Some ''P-256'' then Inl (InvalidClaimValue ''Not a P-256 curve'')
      else
        rbind (ok_or (jwk_x k) (InvalidClaimValue ''Missing x coordinate'')) (\<lambda>x.
        rbind (ok_or (jwk_y k) (InvalidClaimValue ''Missing y coordinate'')) (\<lambda>y.
        rbind (b64_field b64d x) (\<lambda>xb.
        rbind (b64_field b64d y) (\<lambda>yb.
        if accept (4 # xb @ yb) then Inr (4 # xb @ yb) else Inl (KeyOperationFailed ''''))))))"

fun bytes_be :: "nat \<Rightarrow> bytes \<Rightarrow> nat" where
  "bytes_be acc [] = acc"
| "bytes_be acc (b # bs) = bytes_be (256 * acc + unat b) bs"

definition to_rsa_public_key ::
  "(string \<Rightarrow> string + bytes) \<Rightarrow> (nat \<times> nat \<Rightarrow> bool) \<Rightarrow> jwk \<Rightarrow> (nat \<times> nat) result" where
  "to_rsa_public_key b64d accept k =
     (if jwk_kty k \<noteq> ''RSA'' then Inl (InvalidClaimValue ''Not an RSA key'')
      else
        rbind (ok_or (jwk_n k) (InvalidClaimValue ''RSA JWK missing n'')) (\<lambda>n.
        rbind (ok_or (jwk_e k) (InvalidClaimValue ''RSA JWK missing e'')) (\<lambda>e.
        rbind (b64_field b64d n) (\<lambda>nb.
        rbind (b64_field b64d e) (\<lambda>eb.
        if accept (bytes_be 0 nb, bytes_be 0 eb) then Inr (bytes_be 0 nb, bytes_be 0 eb)
        else Inl (KeyOperationFailed ''Invalid RSA public key: ''))))))"

end
