(* ===== verification/Dpop.thy ===== *)
theory Dpop
  imports Jwk Claims Moqt_Scope
begin

text \<open>
  DPoP proofs in memory (\<open>src/src/dpop.rs\<close>): the header, the authorization context, the payload with
  its freshness check, the proof record with its builders, and the structural validation that needs
  no key. The clock is the argument \<open>now\<close>, in seconds.

  The cached thumbprint of a proof is not a field: it is a function of the header's key.
\<close>

section \<open>Header\<close>

datatype dpop_wire_format = WireCwt | WireJwt

definition dpop_typ :: string where "dpop_typ = ''dpop-proof+cwt''"
definition dpop_typ_jwt :: string where "dpop_typ_jwt = ''dpop-proof+jwt''"

abbreviation "ALG_HMAC256_256 \<equiv> 5 :: int"
abbreviation "ALG_ES256 \<equiv> - 7 :: int"
abbreviation "ALG_PS256 \<equiv> - 37 :: int"

definition supported_dpop_cose_algorithms :: "int list" where
  "supported_dpop_cose_algorithms = [ALG_ES256, ALG_PS256]"

record dpop_header =
  dh_alg :: int
  dh_typ :: string
  dh_jwk :: jwk

fun wire_typ :: "dpop_wire_format \<Rightarrow> string" where
  "wire_typ WireCwt = dpop_typ"
| "wire_typ WireJwt = dpop_typ_jwt"

definition dpop_header_new :: "dpop_wire_format \<Rightarrow> int \<Rightarrow> jwk \<Rightarrow> dpop_header" where
  "dpop_header_new fmt alg k = \<lparr>dh_alg = alg, dh_typ = wire_typ fmt, dh_jwk = k\<rparr>"

definition is_supported_algorithm :: "dpop_header \<Rightarrow> bool" where
  "is_supported_algorithm h \<longleftrightarrow> dh_alg h \<in> set supported_dpop_cose_algorithms"

definition header_is_valid :: "dpop_header \<Rightarrow> bool" where
  "header_is_valid h \<longleftrightarrow> (dh_typ h = dpop_typ \<or> dh_typ h = dpop_typ_jwt) \<and> is_supported_algorithm h"

section \<open>Authorization context\<close>

record authorization_context =
  ax_type :: string
  ax_action :: moqt_action
  ax_tns :: "bytes list"
  ax_tn :: bytes
  ax_resource :: "string option"

definition actx_new_moqt :: "moqt_action \<Rightarrow> bytes list \<Rightarrow> bytes \<Rightarrow> authorization_context" where
  "actx_new_moqt a ns track =
     \<lparr>ax_type = ''moqt'', ax_action = a, ax_tns = ns, ax_tn = track, ax_resource = None\<rparr>"

definition actx_with_resource :: "string \<Rightarrow> authorization_context \<Rightarrow> authorization_context" where
  "actx_with_resource r x = x\<lparr>ax_resource := Some r\<rparr>"

definition actx_is_valid :: "authorization_context \<Rightarrow> bool" where
  "actx_is_valid x =
     (if ax_type x \<noteq> ''moqt'' then False
      else case resource_shape (ax_action x) of
        ShapeEndpoint \<Rightarrow> True
      | ShapeNamespace \<Rightarrow> ax_tns x \<noteq> []
      | ShapeTrack \<Rightarrow> ax_tns x \<noteq> [])"

fun moqt_action_wire_name :: "moqt_action \<Rightarrow> string" where
  "moqt_action_wire_name ClientSetup = ''SETUP''"
| "moqt_action_wire_name ServerSetup = ''SETUP''"
| "moqt_action_wire_name PublishNamespace = ''PUB_NS''"
| "moqt_action_wire_name SubscribeNamespace = ''SUB_NS''"
| "moqt_action_wire_name Subscribe = ''SUBSCRIBE''"
| "moqt_action_wire_name RequestUpdate = ''REQ_UPDATE''"
| "moqt_action_wire_name Publish = ''PUBLISH''"
| "moqt_action_wire_name Fetch = ''FETCH''"
| "moqt_action_wire_name TrackStatus = ''TRK_STATUS''"

definition moqt_action_from_wire_name :: "string \<Rightarrow> moqt_action result" where
  "moqt_action_from_wire_name s =
     (if s = ''SETUP'' then Inr ClientSetup
      else if s = ''PUB_NS'' then Inr PublishNamespace
      else if s = ''SUB_NS'' then Inr SubscribeNamespace
      else if s = ''SUBSCRIBE'' then Inr Subscribe
      else if s = ''REQ_UPDATE'' then Inr RequestUpdate
      else if s = ''PUBLISH'' then Inr Publish
      else if s = ''FETCH'' then Inr Fetch
      else if s = ''TRK_STATUS'' then Inr TrackStatus
      else Inl (InvalidClaimValue ''unknown MOQT action''))"

lemma action_wire_roundtrip:
  "moqt_action_from_wire_name (moqt_action_wire_name a) =
     Inr (if a = ServerSetup then ClientSetup else a)"
  by (cases a) (simp_all add: moqt_action_from_wire_name_def)

section \<open>Payload\<close>

record dpop_payload =
  pl_cti :: "bytes option"
  pl_iat :: int
  pl_actx :: authorization_context
  pl_ath :: "bytes option"
  pl_nonce :: "string option"

definition payload_new :: "int \<Rightarrow> authorization_context \<Rightarrow> dpop_payload" where
  "payload_new now x =
     \<lparr>pl_cti = None, pl_iat = now, pl_actx = x, pl_ath = None, pl_nonce = None\<rparr>"

definition payload_is_valid :: "dpop_payload \<Rightarrow> bool" where
  "payload_is_valid p \<longleftrightarrow> actx_is_valid (pl_actx p) \<and> pl_iat p > 0"

definition is_fresh_with_future_tolerance :: "int \<Rightarrow> int \<Rightarrow> int \<Rightarrow> dpop_payload \<Rightarrow> bool" where
  "is_fresh_with_future_tolerance now window tol p =
     (case checked_i64 (now - pl_iat p) of
        None \<Rightarrow> False
      | Some age \<Rightarrow>
          (if age > window then False
           else if age < - tol then False
           else True))"

definition is_fresh :: "int \<Rightarrow> int \<Rightarrow> dpop_payload \<Rightarrow> bool" where
  "is_fresh now window p = is_fresh_with_future_tolerance now window 5 p"

lemma is_fresh_iff:
  assumes "in_i64 window"
  shows "is_fresh now window p \<longleftrightarrow> pl_iat p - 5 \<le> now \<and> now \<le> pl_iat p + window"
  using assms
  by (auto simp: is_fresh_def is_fresh_with_future_tolerance_def checked_i64_def in_i64_def
      i64_min_def i64_max_def split: option.splits)

section \<open>Key confirmation\<close>

definition confirmation_from_jwk :: "(bytes \<Rightarrow> bytes) \<Rightarrow> jwk \<Rightarrow> confirmation_claim result" where
  "confirmation_from_jwk sha k = rbind (thumbprint sha k) (\<lambda>t. Inr (confirmation_new t))"

definition confirmation_matches_jwk ::
  "(bytes \<Rightarrow> bytes) \<Rightarrow> confirmation_claim \<Rightarrow> jwk \<Rightarrow> unit result" where
  "confirmation_matches_jwk sha c k =
     rbind (thumbprint sha k)
       (\<lambda>t. if constant_time_eq (cnf_jkt c) t then Inr () else Inl InvalidDpopBinding)"

definition confirmation_matches_thumbprint :: "confirmation_claim \<Rightarrow> bytes \<Rightarrow> bool" where
  "confirmation_matches_thumbprint c jkt = constant_time_eq (cnf_jkt c) jkt"

lemma confirmation_roundtrip:
  "confirmation_from_jwk sha k = Inr c \<Longrightarrow> confirmation_matches_jwk sha c k = Inr ()"
  by (cases "thumbprint sha k")
     (auto simp: confirmation_from_jwk_def confirmation_matches_jwk_def confirmation_new_def)

section \<open>Proofs\<close>

record signed_input =
  si_header :: bytes
  si_payload :: bytes

definition signed_default :: signed_input where
  "signed_default = \<lparr>si_header = [], si_payload = []\<rparr>"

definition signed_is_empty :: "signed_input \<Rightarrow> bool" where
  "signed_is_empty s \<longleftrightarrow> si_header s = [] \<and> si_payload s = []"

record dpop_proof =
  dp_header :: dpop_header
  dp_payload :: dpop_payload
  dp_signature :: bytes
  dp_signed :: signed_input
  dp_wire :: dpop_wire_format

definition proof_new :: "dpop_header \<Rightarrow> dpop_payload \<Rightarrow> bytes \<Rightarrow> dpop_proof" where
  "proof_new h p s =
     \<lparr>dp_header = h, dp_payload = p, dp_signature = s, dp_signed = signed_default, dp_wire = WireCwt\<rparr>"

definition jwk_thumbprint :: "(bytes \<Rightarrow> bytes) \<Rightarrow> dpop_proof \<Rightarrow> bytes result" where
  "jwk_thumbprint sha pf = thumbprint sha (dh_jwk (dp_header pf))"

definition with_wire_format :: "dpop_wire_format \<Rightarrow> dpop_proof \<Rightarrow> dpop_proof" where
  "with_wire_format fmt pf =
     pf\<lparr>dp_wire := fmt, dp_header := (dp_header pf)\<lparr>dh_typ := wire_typ fmt\<rparr>, dp_signed := signed_default\<rparr>"

definition create_for_moqt ::
  "int \<Rightarrow> moqt_action \<Rightarrow> bytes list \<Rightarrow> bytes \<Rightarrow> int \<Rightarrow> jwk \<Rightarrow> dpop_proof" where
  "create_for_moqt now a ns track alg k =
     proof_new (dpop_header_new WireCwt alg k) (payload_new now (actx_new_moqt a ns track)) []"

definition upd_payload :: "(dpop_payload \<Rightarrow> dpop_payload) \<Rightarrow> dpop_proof \<Rightarrow> dpop_proof" where
  "upd_payload f pf = pf\<lparr>dp_payload := f (dp_payload pf), dp_signed := signed_default\<rparr>"

definition with_replay_id :: "bytes \<Rightarrow> dpop_proof \<Rightarrow> dpop_proof" where
  "with_replay_id i = upd_payload (\<lambda>p. p\<lparr>pl_cti := Some i\<rparr>)"

definition with_resource :: "string \<Rightarrow> dpop_proof \<Rightarrow> dpop_proof" where
  "with_resource r = upd_payload (\<lambda>p. p\<lparr>pl_actx := actx_with_resource r (pl_actx p)\<rparr>)"

definition with_access_token_hash :: "bytes \<Rightarrow> dpop_proof \<Rightarrow> dpop_proof" where
  "with_access_token_hash h = upd_payload (\<lambda>p. p\<lparr>pl_ath := Some h\<rparr>)"

definition with_access_token_hash_b64 ::
  "(string \<Rightarrow> 'e + bytes) \<Rightarrow> string \<Rightarrow> dpop_proof \<Rightarrow> dpop_proof" where
  "with_access_token_hash_b64 b64d s =
     with_access_token_hash (case b64d s of Inr h \<Rightarrow> h | Inl _ \<Rightarrow> map byte_of_char s)"

definition with_nonce :: "string \<Rightarrow> dpop_proof \<Rightarrow> dpop_proof" where
  "with_nonce n = upd_payload (\<lambda>p. p\<lparr>pl_nonce := Some n\<rparr>)"

definition proof_is_valid :: "int \<Rightarrow> dpop_proof \<Rightarrow> catdpop_settings \<Rightarrow> bool" where
  "proof_is_valid now pf st \<longleftrightarrow>
     is_ok (validate_crit st) \<and> header_is_valid (dp_header pf) \<and> payload_is_valid (dp_payload pf) \<and>
     is_fresh now (effective_window st) (dp_payload pf) \<and> dp_signature pf \<noteq> []"

definition validate_with_settings :: "int \<Rightarrow> dpop_proof \<Rightarrow> catdpop_settings \<Rightarrow> unit result" where
  "validate_with_settings now pf st =
     rbind (validate_crit st) (\<lambda>_.
       if \<not> header_is_valid (dp_header pf) then Inl (DpopValidationFailed ''Invalid header'')
       else if \<not> payload_is_valid (dp_payload pf) then Inl (DpopValidationFailed ''Invalid payload'')
       else if \<not> is_fresh now (effective_window st) (dp_payload pf)
         then Inl (DpopValidationFailed ''Proof expired'')
       else if dp_signature pf = [] then Inl (DpopValidationFailed ''Missing signature'')
       else Inr ())"

lemma validate_with_settings_ok: "validate_with_settings now pf st = Inr () \<longleftrightarrow> proof_is_valid now pf st"
  by (cases "validate_crit st") (auto simp: validate_with_settings_def proof_is_valid_def is_ok_def)

text \<open>Every builder drops the cached signed bytes, so a signature never covers stale bytes.\<close>

lemma builders_reset_signed:
  "dp_signed (with_wire_format fmt pf) = signed_default"
  "dp_signed (with_replay_id i pf) = signed_default"
  "dp_signed (with_resource r pf) = signed_default"
  "dp_signed (with_access_token_hash h pf) = signed_default"
  "dp_signed (with_nonce n pf) = signed_default"
  by (simp_all add: with_wire_format_def with_replay_id_def with_resource_def
      with_access_token_hash_def with_nonce_def upd_payload_def)

text \<open>\<open>looks_like_jwt\<close>: ASCII with two dots.\<close>

definition looks_like_jwt :: "bytes \<Rightarrow> bool" where
  "looks_like_jwt bs =
     (if bs = [] \<or> \<not> list_all (\<lambda>b. unat b < 128) bs then False
      else length (filter (\<lambda>b. b = 46) bs) = 2)"

end
