(* ===== verification/Dpop_Cwt.thy ===== *)
theory Dpop_Cwt
  imports Dpop Cbor_Value
begin

text \<open>
  The CWT wire form of a DPoP proof (\<open>mod cwt\<close> of \<open>src/src/dpop.rs\<close>) over CBOR values: the integer
  keyed maps of the protected header, the payload, the authorization context and the COSE key, the
  COSE_Sign1 envelope, and the signing input of \<open>src/src/crypto.rs\<close>.

  Writing a CBOR value to bytes and reading one back is the \<open>ciborium\<close> crate and base64url is the
  \<open>base64\<close> crate: both are fields of \<open>codec_env\<close>, with the law the round trips rely on stated as
  \<open>codec_laws\<close>.
\<close>

section \<open>The codecs the code calls\<close>

record codec_env =
  ce_write :: "cbor \<Rightarrow> bytes result"
  ce_read :: "bytes \<Rightarrow> (cbor \<times> nat) result"
  ce_b64 :: "bytes \<Rightarrow> string"
  ce_b64d :: "string \<Rightarrow> string + bytes"

definition codec_laws :: "codec_env \<Rightarrow> bool" where
  "codec_laws E \<longleftrightarrow>
     (\<forall>v b. cbor_nesting v \<le> cbor_max_recursion_depth \<longrightarrow> ce_write E v = Inr b \<longrightarrow>
        ce_read E b = Inr (v, length b)) \<and>
     (\<forall>x. ce_b64d E (ce_b64 E x) = Inr x)"

fun try_fold :: "('a \<Rightarrow> 's \<Rightarrow> 'e + 's) \<Rightarrow> 'a list \<Rightarrow> 's \<Rightarrow> 'e + 's" where
  "try_fold f [] s = Inr s"
| "try_fold f (x # xs) s = rbind (f x s) (try_fold f xs)"

lemma try_fold_inv:
  assumes "try_fold f xs s = Inr s'" "P s" "\<And>x s s'. P s \<Longrightarrow> f x s = Inr s' \<Longrightarrow> P s'"
  shows "P s'"
  using assms(1,2) by (induction xs arbitrary: s) (auto intro: assms(3))

definition decode_one :: "codec_env \<Rightarrow> bytes \<Rightarrow> cbor result" where
  "decode_one E bs =
     rbind (ce_read E bs) (\<lambda>(v, pos).
       if pos < length bs then Inl (InvalidCbor ''trailing bytes after CBOR item'') else Inr v)"

text \<open>\<open>out\<close> is the list built so far.\<close>

fun into_int_keyed_map :: "(int \<times> cbor) list \<Rightarrow> (cbor \<times> cbor) list \<Rightarrow> (int \<times> cbor) list result" where
  "into_int_keyed_map out [] = Inr out"
| "into_int_keyed_map out ((k, v) # m) =
     (case k of
        CInt i \<Rightarrow>
          (if \<not> in_i64 i then Inl (InvalidCbor ''CBOR map key out of i64 range'')
           else if list_ex (\<lambda>(k2, _). k2 = i) out then Inl (InvalidCbor ''duplicate CBOR map key'')
           else into_int_keyed_map (out @ [(i, v)]) m)
      | _ \<Rightarrow> Inl (InvalidCbor ''CBOR map must have integer keys''))"

fun int_value :: "cat_error \<Rightarrow> cbor \<Rightarrow> int result" where
  "int_value e (CInt i) = (if in_i64 i then Inr i else Inl InvalidTokenFormat)"
| "int_value e _ = Inl e"

fun text_value :: "cat_error \<Rightarrow> cbor \<Rightarrow> string result" where
  "text_value e (CText t) = Inr t"
| "text_value e _ = Inl e"

fun bytes_value :: "cat_error \<Rightarrow> cbor \<Rightarrow> bytes result" where
  "bytes_value e (CBytes b) = Inr b"
| "bytes_value e _ = Inl e"

fun map_value :: "cat_error \<Rightarrow> cbor \<Rightarrow> (cbor \<times> cbor) list result" where
  "map_value e (CMap m) = Inr m"
| "map_value e _ = Inl e"

definition int_entries :: "(int \<times> cbor) list \<Rightarrow> cbor" where
  "int_entries es = CMap (map (\<lambda>(k, v). (CInt k, v)) es)"

lemma into_int_keyed_entries:
  "distinct (map fst (out @ es)) \<Longrightarrow> list_all (\<lambda>e. in_i64 (fst e)) es \<Longrightarrow>
     into_int_keyed_map out (map (\<lambda>(k, v). (CInt k, v)) es) = Inr (out @ es)"
  by (induction es arbitrary: out) (auto simp: list_ex_iff rev_image_eqI)

lemma into_int_keyed_sound:
  "into_int_keyed_map out m = Inr es \<Longrightarrow> distinct (map fst out) \<Longrightarrow>
     distinct (map fst es) \<and> length es = length out + length m"
proof (induction out m rule: into_int_keyed_map.induct)
  case (2 out k v m)
  then show ?case
    by (cases k) (force simp: list_ex_iff split: if_splits)+
qed simp

lemma ce_read_write:
  "codec_laws E \<Longrightarrow> ce_write E v = Inr b \<Longrightarrow> cbor_nesting v \<le> cbor_max_recursion_depth \<Longrightarrow>
     ce_read E b = Inr (v, length b)"
  by (simp add: codec_laws_def)

lemma decode_one_write:
  "codec_laws E \<Longrightarrow> ce_write E v = Inr b \<Longrightarrow> cbor_nesting v \<le> cbor_max_recursion_depth \<Longrightarrow> decode_one E b = Inr v"
  by (simp add: decode_one_def codec_laws_def)

section \<open>COSE keys\<close>

abbreviation "COSE_KTY_EC2 \<equiv> 2 :: int"
abbreviation "COSE_KTY_RSA \<equiv> 3 :: int"
abbreviation "COSE_CRV_P256 \<equiv> 1 :: int"
abbreviation "COSE_TAG_SIGN1 \<equiv> 18 :: nat"

definition opt_text :: "string option \<Rightarrow> string" where
  "opt_text m = (case m of Some s \<Rightarrow> s | None \<Rightarrow> [])"

definition jwk_to_cose_key :: "codec_env \<Rightarrow> jwk \<Rightarrow> cbor result" where
  "jwk_to_cose_key E k =
     (if jwk_kty k = ''EC'' then
        (if jwk_crv k \<noteq> Some ''P-256'' then Inl (UnsupportedAlgorithm ''unsupported EC curve'')
         else
           rbind (b64_field (ce_b64d E) (opt_text (jwk_x k))) (\<lambda>x.
           rbind (b64_field (ce_b64d E) (opt_text (jwk_y k))) (\<lambda>y.
           Inr (int_entries [(1, CInt COSE_KTY_EC2), (3, CInt ALG_ES256), (-1, CInt COSE_CRV_P256),
                             (-2, CBytes x), (-3, CBytes y)]))))
      else if jwk_kty k = ''RSA'' then
        rbind (b64_field (ce_b64d E) (opt_text (jwk_n k))) (\<lambda>n.
        rbind (b64_field (ce_b64d E) (opt_text (jwk_e k))) (\<lambda>e.
        Inr (int_entries [(1, CInt COSE_KTY_RSA), (3, CInt ALG_PS256), (-1, CBytes n), (-2, CBytes e)])))
      else Inl (UnsupportedAlgorithm ''COSE_Key encoding not implemented for kty=''))"

record cose_acc =
  ca_crv :: "int option"
  ca_x :: "bytes option"
  ca_y :: "bytes option"
  ca_n :: "bytes option"
  ca_e :: "bytes option"

definition cose_kty_entry ::
  "int \<times> cbor \<Rightarrow> int option \<times> (int \<times> cbor) list \<Rightarrow> (int option \<times> (int \<times> cbor) list) result" where
  "cose_kty_entry kv st =
     (if fst kv = 1 then rbind (int_value InvalidTokenFormat (snd kv)) (\<lambda>i. Inr (Some i, snd st))
      else Inr (fst st, snd st @ [kv]))"

definition cose_key_entry :: "int \<Rightarrow> int \<times> cbor \<Rightarrow> cose_acc \<Rightarrow> cose_acc result" where
  "cose_key_entry kty kv a =
     (if kty = COSE_KTY_EC2 \<and> fst kv = -1 then
        rbind (int_value InvalidTokenFormat (snd kv)) (\<lambda>i. Inr (a\<lparr>ca_crv := Some i\<rparr>))
      else if kty = COSE_KTY_EC2 \<and> fst kv = -2 then
        rbind (bytes_value InvalidTokenFormat (snd kv)) (\<lambda>b. Inr (a\<lparr>ca_x := Some b\<rparr>))
      else if kty = COSE_KTY_EC2 \<and> fst kv = -3 then
        rbind (bytes_value InvalidTokenFormat (snd kv)) (\<lambda>b. Inr (a\<lparr>ca_y := Some b\<rparr>))
      else if kty = COSE_KTY_RSA \<and> fst kv = -1 then
        rbind (bytes_value InvalidTokenFormat (snd kv)) (\<lambda>b. Inr (a\<lparr>ca_n := Some b\<rparr>))
      else if kty = COSE_KTY_RSA \<and> fst kv = -2 then
        rbind (bytes_value InvalidTokenFormat (snd kv)) (\<lambda>b. Inr (a\<lparr>ca_e := Some b\<rparr>))
      else Inr a)"

definition cose_key_to_jwk :: "codec_env \<Rightarrow> cbor \<Rightarrow> jwk result" where
  "cose_key_to_jwk E v =
     rbind (map_value (InvalidClaimValue ''COSE_Key must be a CBOR map'') v) (\<lambda>m.
     rbind (into_int_keyed_map [] m) (\<lambda>entries.
     rbind (try_fold cose_kty_entry entries (None, [])) (\<lambda>(kty_opt, buffered).
     rbind (ok_or kty_opt (MissingRequiredClaim ''kty'')) (\<lambda>kty.
     rbind (try_fold (cose_key_entry kty) buffered
              \<lparr>ca_crv = None, ca_x = None, ca_y = None, ca_n = None, ca_e = None\<rparr>) (\<lambda>a.
     if kty = COSE_KTY_EC2 then
       rbind (ok_or (ca_crv a) (MissingRequiredClaim ''crv'')) (\<lambda>crv.
       if crv \<noteq> COSE_CRV_P256 then Inl (UnsupportedAlgorithm ''unsupported EC crv'')
       else
         rbind (ok_or (ca_x a) (MissingRequiredClaim ''x'')) (\<lambda>x.
         rbind (ok_or (ca_y a) (MissingRequiredClaim ''y'')) (\<lambda>y.
         Inr \<lparr>jwk_kty = ''EC'', jwk_crv = Some ''P-256'', jwk_x = Some (ce_b64 E x),
              jwk_y = Some (ce_b64 E y), jwk_n = None, jwk_e = None\<rparr>)))
     else if kty = COSE_KTY_RSA then
       rbind (ok_or (ca_n a) (MissingRequiredClaim ''n'')) (\<lambda>n.
       rbind (ok_or (ca_e a) (MissingRequiredClaim ''e'')) (\<lambda>e.
       Inr \<lparr>jwk_kty = ''RSA'', jwk_crv = None, jwk_x = None, jwk_y = None,
            jwk_n = Some (ce_b64 E n), jwk_e = Some (ce_b64 E e)\<rparr>))
     else Inl (UnsupportedAlgorithm ''kty=''))))))"

text \<open>The keys the crate builds: base64url of the coordinates, and no member of the other type.\<close>

definition jwk_canonical :: "codec_env \<Rightarrow> jwk \<Rightarrow> bool" where
  "jwk_canonical E k \<longleftrightarrow>
     (\<exists>x y. k = \<lparr>jwk_kty = ''EC'', jwk_crv = Some ''P-256'', jwk_x = Some (ce_b64 E x),
                 jwk_y = Some (ce_b64 E y), jwk_n = None, jwk_e = None\<rparr>) \<or>
     (\<exists>n e. k = \<lparr>jwk_kty = ''RSA'', jwk_crv = None, jwk_x = None, jwk_y = None,
                 jwk_n = Some (ce_b64 E n), jwk_e = Some (ce_b64 E e)\<rparr>)"

lemma small_in_i64: "- 1000 \<le> x \<Longrightarrow> x \<le> 1000 \<Longrightarrow> in_i64 x"
  by (simp add: in_i64_def i64_min_def i64_max_def)

lemma numeral_in_i64 [simp]:
  "(numeral n :: int) \<le> 1000 \<Longrightarrow> in_i64 (numeral n)"
  "(numeral n :: int) \<le> 1000 \<Longrightarrow> in_i64 (- numeral n)"
  using zero_le_numeral[where 'a = int and n = n] by (auto intro!: small_in_i64 simp del: zero_le_numeral)

lemma unit_in_i64 [simp]: "in_i64 0" "in_i64 1" "in_i64 (-1)"
  by (simp_all add: in_i64_def i64_min_def i64_max_def)

lemma int_entries_read:
  "distinct (map fst es) \<Longrightarrow> list_all (\<lambda>e. in_i64 (fst e)) es \<Longrightarrow>
     rbind (map_value err (int_entries es)) (into_int_keyed_map []) = Inr es"
  using into_int_keyed_entries[of "[]" es] by (simp add: int_entries_def)

lemma int_entries_into:
  "distinct (map fst es) \<Longrightarrow> list_all (\<lambda>e. in_i64 (fst e)) es \<Longrightarrow>
     into_int_keyed_map [] (map (\<lambda>(k, v). (CInt k, v)) es) = Inr es"
  using into_int_keyed_entries[of "[]" es] by simp

text \<open>What the COSE form keeps of a key: the members of its type, with the coordinates encoded again.\<close>

definition b64_again :: "codec_env \<Rightarrow> string option \<Rightarrow> string option" where
  "b64_again E m = (case ce_b64d E (opt_text m) of Inr b \<Rightarrow> Some (ce_b64 E b) | Inl _ \<Rightarrow> None)"

definition wire_jwk :: "codec_env \<Rightarrow> jwk \<Rightarrow> jwk" where
  "wire_jwk E k =
     (if jwk_kty k = ''EC''
      then \<lparr>jwk_kty = ''EC'', jwk_crv = Some ''P-256'', jwk_x = b64_again E (jwk_x k),
             jwk_y = b64_again E (jwk_y k), jwk_n = None, jwk_e = None\<rparr>
      else \<lparr>jwk_kty = ''RSA'', jwk_crv = None, jwk_x = None, jwk_y = None,
             jwk_n = b64_again E (jwk_n k), jwk_e = b64_again E (jwk_e k)\<rparr>)"

lemma b64_field_again: "b64_field (ce_b64d E) (opt_text m) = Inr b \<Longrightarrow> b64_again E m = Some (ce_b64 E b)"
  by (auto simp: b64_field_def b64_again_def split: sum.splits)

lemma jwk_cose_wire: "jwk_to_cose_key E k = Inr v \<Longrightarrow> cose_key_to_jwk E v = Inr (wire_jwk E k)"
  by (auto simp: jwk_to_cose_key_def cose_key_to_jwk_def wire_jwk_def b64_field_again int_entries_def
      cose_kty_entry_def cose_key_entry_def split: if_splits)

lemma cose_key_canonical: "cose_key_to_jwk E v = Inr k \<Longrightarrow> jwk_canonical E k"
  by (auto simp: cose_key_to_jwk_def jwk_canonical_def split: if_splits)

lemma wire_jwk_canonical: "codec_laws E \<Longrightarrow> jwk_canonical E k \<Longrightarrow> wire_jwk E k = k"
  by (auto simp: wire_jwk_def jwk_canonical_def b64_again_def opt_text_def codec_laws_def)

lemma jwk_cose_nesting: "jwk_to_cose_key E k = Inr v \<Longrightarrow> cbor_nesting v \<le> 1"
  by (auto simp: jwk_to_cose_key_def int_entries_def split: if_splits)

lemma jwk_canonical_encodes:
  assumes "codec_laws E" "jwk_canonical E k"
  shows "\<exists>v. jwk_to_cose_key E k = Inr v"
  using assms
  by (auto simp: jwk_canonical_def jwk_to_cose_key_def codec_laws_def b64_field_def opt_text_def)

section \<open>Protected header\<close>

definition encode_header :: "codec_env \<Rightarrow> dpop_header \<Rightarrow> bytes result" where
  "encode_header E h =
     rbind (jwk_to_cose_key E (dh_jwk h)) (\<lambda>ck.
       ce_write E (int_entries [(1, CInt (dh_alg h)), (4, ck), (16, CText (dh_typ h))]))"

record header_acc =
  ha_alg :: "int option"
  ha_typ :: "string option"
  ha_key :: "cbor option"

definition header_entry :: "int \<times> cbor \<Rightarrow> header_acc \<Rightarrow> header_acc result" where
  "header_entry kv a =
     (if fst kv = 1 then
        rbind (int_value (InvalidClaimValue ''alg must be an integer'') (snd kv))
          (\<lambda>i. Inr (a\<lparr>ha_alg := Some i\<rparr>))
      else if fst kv = 16 then
        rbind (text_value InvalidTokenFormat (snd kv)) (\<lambda>t. Inr (a\<lparr>ha_typ := Some t\<rparr>))
      else if fst kv = 4 then Inr (a\<lparr>ha_key := Some (snd kv)\<rparr>)
      else Inr a)"

definition decode_header :: "codec_env \<Rightarrow> bytes \<Rightarrow> dpop_header result" where
  "decode_header E bs =
     rbind (decode_one E bs) (\<lambda>v.
     rbind (map_value InvalidTokenFormat v) (\<lambda>m.
     rbind (into_int_keyed_map [] m) (\<lambda>entries.
     rbind (try_fold header_entry entries \<lparr>ha_alg = None, ha_typ = None, ha_key = None\<rparr>) (\<lambda>a.
     rbind (ok_or (ha_alg a) (MissingRequiredClaim ''alg'')) (\<lambda>alg.
     rbind (ok_or (ha_typ a) (MissingRequiredClaim ''typ'')) (\<lambda>typ.
     rbind (ok_or (ha_key a) (MissingRequiredClaim ''COSE_Key'')) (\<lambda>ck.
     rbind (cose_key_to_jwk E ck) (\<lambda>k.
     Inr \<lparr>dh_alg = alg, dh_typ = typ, dh_jwk = k\<rparr>))))))))"

lemma header_wire:
  assumes "codec_laws E" "in_i64 (dh_alg h)" "encode_header E h = Inr b"
  shows "decode_header E b = Inr (h\<lparr>dh_jwk := wire_jwk E (dh_jwk h)\<rparr>)"
proof -
  obtain ck where ck: "jwk_to_cose_key E (dh_jwk h) = Inr ck"
    and b: "ce_write E (int_entries [(1, CInt (dh_alg h)), (4, ck), (16, CText (dh_typ h))]) = Inr b"
    using assms(3) by (auto simp: encode_header_def)
  show ?thesis
    using decode_one_write[OF assms(1) b] jwk_cose_nesting[OF ck] jwk_cose_wire[OF ck] assms(2)
    by (simp add: decode_header_def int_entries_def header_entry_def cbor_max_recursion_depth_def)
qed

lemma decoded_header_wire:
  assumes "codec_laws E" "decode_header E b = Inr h"
  shows "wire_jwk E (dh_jwk h) = dh_jwk h"
proof -
  obtain ck where "cose_key_to_jwk E ck = Inr (dh_jwk h)" using assms(2) by (auto simp: decode_header_def)
  then show ?thesis using wire_jwk_canonical[OF assms(1)] cose_key_canonical by blast
qed

section \<open>Authorization context\<close>

definition actx_to_cbor :: "authorization_context \<Rightarrow> cbor" where
  "actx_to_cbor x =
     int_entries
       ([(0, CText (ax_type x)), (1, CText (moqt_action_wire_name (ax_action x))),
         (2, CText (moq_canonical_tns (ax_tns x)))] @
        (if ax_tn x \<noteq> [] then [(3, CText (moq_canonical_element (ax_tn x)))] else []) @
        (case ax_resource x of
           Some r \<Rightarrow> [(4, CMap [(CText ''resource'', CText r)])]
         | None \<Rightarrow> []))"

record actx_acc =
  aa_type :: "string option"
  aa_action :: "moqt_action option"
  aa_tns :: "bytes list option"
  aa_tn :: bytes
  aa_resource :: "string option"

fun resource_param :: "cbor \<times> cbor \<Rightarrow> string option \<Rightarrow> string option" where
  "resource_param (CText name, CText text) r = (if name = ''resource'' then Some text else r)"
| "resource_param _ r = r"

definition actx_entry :: "int \<times> cbor \<Rightarrow> actx_acc \<Rightarrow> actx_acc result" where
  "actx_entry kv a =
     (if fst kv = 0 then
        rbind (text_value InvalidTokenFormat (snd kv)) (\<lambda>t. Inr (a\<lparr>aa_type := Some t\<rparr>))
      else if fst kv = 1 then
        rbind (text_value (InvalidClaimValue ''actx.action must be text'') (snd kv)) (\<lambda>name.
        rbind (moqt_action_from_wire_name name) (\<lambda>act. Inr (a\<lparr>aa_action := Some act\<rparr>)))
      else if fst kv = 2 then
        rbind (text_value (InvalidClaimValue ''actx.tns must be text'') (snd kv)) (\<lambda>t.
        rbind (moq_tns_from_canonical t) (\<lambda>tns. Inr (a\<lparr>aa_tns := Some tns\<rparr>)))
      else if fst kv = 3 then
        rbind (text_value (InvalidClaimValue ''actx.tn must be text'') (snd kv)) (\<lambda>t.
        rbind (moq_element_from_canonical t) (\<lambda>tn. Inr (a\<lparr>aa_tn := tn\<rparr>)))
      else if fst kv = 4 then
        (case snd kv of
           CMap m \<Rightarrow> Inr (a\<lparr>aa_resource := fold resource_param m (aa_resource a)\<rparr>)
         | _ \<Rightarrow> Inr a)
      else Inr a)"

definition cbor_to_actx :: "cbor \<Rightarrow> authorization_context result" where
  "cbor_to_actx v =
     rbind (map_value (InvalidClaimValue ''actx must be a CBOR map'') v) (\<lambda>m.
     rbind (into_int_keyed_map [] m) (\<lambda>entries.
     rbind (try_fold actx_entry entries
              \<lparr>aa_type = None, aa_action = None, aa_tns = None, aa_tn = [], aa_resource = None\<rparr>) (\<lambda>a.
     rbind (ok_or (aa_type a) (MissingRequiredClaim ''actx.type'')) (\<lambda>ty.
     rbind (ok_or (aa_action a) (MissingRequiredClaim ''actx.action'')) (\<lambda>act.
     rbind (ok_or (aa_tns a) (MissingRequiredClaim ''actx.tns'')) (\<lambda>tns.
     Inr \<lparr>ax_type = ty, ax_action = act, ax_tns = tns, ax_tn = aa_tn a, ax_resource = aa_resource a\<rparr>))))))"

text \<open>What the wire form makes of a context: the direction of a setup is lost, and the empty
  namespace tuple comes back as a tuple of one empty segment.\<close>

definition wire_actx :: "authorization_context \<Rightarrow> authorization_context" where
  "wire_actx x =
     x\<lparr>ax_action := (if ax_action x = ServerSetup then ClientSetup else ax_action x),
       ax_tns := (if ax_tns x = [] then [[]] else ax_tns x)\<rparr>"

lemma moq_tns_wire:
  "moq_tns_from_canonical (moq_canonical_tns tns) = Inr (if tns = [] then [[]] else tns)"
  by (cases "tns = []")
     (simp_all add: moq_tns_roundtrip, simp add: moq_canonical_tns_def moq_tns_from_canonical_def)

lemma actx_wire: "cbor_to_actx (actx_to_cbor x) = Inr (wire_actx x)"
  by (cases "ax_tn x = []"; cases "ax_resource x")
     (simp_all add: cbor_to_actx_def actx_to_cbor_def int_entries_def actx_entry_def wire_actx_def
       action_wire_roundtrip moq_tns_wire)

lemma actx_nesting: "cbor_nesting (actx_to_cbor x) \<le> 2"
  by (simp add: actx_to_cbor_def int_entries_def split: option.split)

section \<open>Payload\<close>

definition opt_entry :: "int \<Rightarrow> ('a \<Rightarrow> cbor) \<Rightarrow> 'a option \<Rightarrow> (int \<times> cbor) list" where
  "opt_entry k f m = (case m of Some x \<Rightarrow> [(k, f x)] | None \<Rightarrow> [])"

definition encode_payload :: "codec_env \<Rightarrow> dpop_payload \<Rightarrow> bytes result" where
  "encode_payload E p =
     ce_write E (int_entries
       ([(6, CInt (pl_iat p))] @ opt_entry 7 CBytes (pl_cti p) @ [(400, actx_to_cbor (pl_actx p))] @
        opt_entry 401 CText (pl_nonce p) @ opt_entry 402 CBytes (pl_ath p)))"

record payload_acc =
  pa_iat :: "int option"
  pa_cti :: "bytes option"
  pa_actx :: "authorization_context option"
  pa_ath :: "bytes option"
  pa_nonce :: "string option"

definition payload_entry :: "int \<times> cbor \<Rightarrow> payload_acc \<Rightarrow> payload_acc result" where
  "payload_entry kv a =
     (if fst kv = 6 then
        rbind (int_value (InvalidClaimValue ''iat must be integer'') (snd kv))
          (\<lambda>i. Inr (a\<lparr>pa_iat := Some i\<rparr>))
      else if fst kv = 7 then
        rbind (bytes_value (InvalidClaimValue ''cti must be a byte string'') (snd kv))
          (\<lambda>b. Inr (a\<lparr>pa_cti := Some b\<rparr>))
      else if fst kv = 400 then
        rbind (cbor_to_actx (snd kv)) (\<lambda>x. Inr (a\<lparr>pa_actx := Some x\<rparr>))
      else if fst kv = 402 then
        rbind (bytes_value (InvalidClaimValue ''ath must be a byte string'') (snd kv))
          (\<lambda>b. Inr (a\<lparr>pa_ath := Some b\<rparr>))
      else if fst kv = 401 then
        rbind (text_value InvalidTokenFormat (snd kv)) (\<lambda>t. Inr (a\<lparr>pa_nonce := Some t\<rparr>))
      else Inr a)"

definition decode_payload :: "codec_env \<Rightarrow> bytes \<Rightarrow> dpop_payload result" where
  "decode_payload E bs =
     rbind (decode_one E bs) (\<lambda>v.
     rbind (map_value InvalidTokenFormat v) (\<lambda>m.
     rbind (into_int_keyed_map [] m) (\<lambda>entries.
     rbind (try_fold payload_entry entries
              \<lparr>pa_iat = None, pa_cti = None, pa_actx = None, pa_ath = None, pa_nonce = None\<rparr>) (\<lambda>a.
     rbind (ok_or (pa_iat a) (MissingRequiredClaim ''iat'')) (\<lambda>iat.
     rbind (ok_or (pa_actx a) (MissingRequiredClaim ''actx'')) (\<lambda>x.
     Inr \<lparr>pl_cti = pa_cti a, pl_iat = iat, pl_actx = x, pl_ath = pa_ath a, pl_nonce = pa_nonce a\<rparr>))))))"

lemma payload_wire:
  assumes "codec_laws E" "in_i64 (pl_iat p)" "encode_payload E p = Inr b"
  shows "decode_payload E b = Inr (p\<lparr>pl_actx := wire_actx (pl_actx p)\<rparr>)"
  using decode_one_write[OF assms(1) assms(3)[unfolded encode_payload_def]] assms(2) actx_nesting[of "pl_actx p"]
  by (cases "pl_cti p"; cases "pl_nonce p"; cases "pl_ath p")
     (simp_all add: decode_payload_def opt_entry_def int_entries_def payload_entry_def actx_wire
       cbor_max_recursion_depth_def)

section \<open>Envelope\<close>

definition max_dpop_wire_size :: nat where
  "max_dpop_wire_size = 16 * 1024"

definition cwt_encode_header_and_payload ::
  "codec_env \<Rightarrow> dpop_header \<Rightarrow> dpop_payload \<Rightarrow> signed_input result" where
  "cwt_encode_header_and_payload E h p =
     rbind (encode_header E h) (\<lambda>hb. rbind (encode_payload E p) (\<lambda>pb.
       Inr \<lparr>si_header = hb, si_payload = pb\<rparr>))"

definition cwt_signed_bytes :: "codec_env \<Rightarrow> dpop_proof \<Rightarrow> signed_input result" where
  "cwt_signed_bytes E pf =
     (if signed_is_empty (dp_signed pf) then cwt_encode_header_and_payload E (dp_header pf) (dp_payload pf)
      else Inr (dp_signed pf))"

definition cwt_encode :: "codec_env \<Rightarrow> dpop_proof \<Rightarrow> bytes result" where
  "cwt_encode E pf =
     rbind (cwt_signed_bytes E pf) (\<lambda>s.
       ce_write E (CTag COSE_TAG_SIGN1
         (CArray [CBytes (si_header s), CMap [], CBytes (si_payload s), CBytes (dp_signature pf)])))"

fun sign1_parts :: "cbor \<Rightarrow> (bytes \<times> bytes \<times> bytes) result" where
  "sign1_parts (CTag tag inner) =
     (if tag \<noteq> COSE_TAG_SIGN1 then Inl InvalidTokenFormat
      else case inner of
        CArray [CBytes h, CMap [], CBytes p, CBytes s] \<Rightarrow> Inr (h, p, s)
      | _ \<Rightarrow> Inl InvalidTokenFormat)"
| "sign1_parts _ = Inl InvalidTokenFormat"

definition cwt_decode :: "codec_env \<Rightarrow> bytes \<Rightarrow> dpop_proof result" where
  "cwt_decode E bs =
     (if length bs > max_dpop_wire_size then Inl InvalidTokenFormat
      else
        rbind (decode_one E bs) (\<lambda>v.
        rbind (sign1_parts v) (\<lambda>(hb, pb, sg).
        rbind (decode_header E hb) (\<lambda>h.
        rbind (decode_payload E pb) (\<lambda>p.
        Inr \<lparr>dp_header = h, dp_payload = p, dp_signature = sg,
             dp_signed = \<lparr>si_header = hb, si_payload = pb\<rparr>, dp_wire = WireCwt\<rparr>)))))"

definition cose_context_string :: "int \<Rightarrow> string" where
  "cose_context_string alg = (if alg = ALG_HMAC256_256 then ''MAC0'' else ''Signature1'')"

definition create_signing_input :: "codec_env \<Rightarrow> bytes \<Rightarrow> bytes \<Rightarrow> int \<Rightarrow> bytes result" where
  "create_signing_input E hdr pl alg =
     ce_write E (CArray [CText (cose_context_string alg), CBytes hdr, CBytes [], CBytes pl])"

definition cwt_signing_input :: "codec_env \<Rightarrow> dpop_proof \<Rightarrow> bytes result" where
  "cwt_signing_input E pf =
     rbind (cwt_signed_bytes E pf)
       (\<lambda>s. create_signing_input E (si_header s) (si_payload s) (dh_alg (dp_header pf)))"

text \<open>The bytes a signature covers determine the protected header, the payload and the signing context, so a
  signature cannot be moved to other contents.\<close>

lemma create_signing_input_inj:
  assumes "codec_laws E" "create_signing_input E h p a = Inr b" "create_signing_input E h' p' a' = Inr b"
  shows "h = h' \<and> p = p' \<and> cose_context_string a = cose_context_string a'"
  using decode_one_write[OF assms(1) assms(2)[unfolded create_signing_input_def]]
    decode_one_write[OF assms(1) assms(3)[unfolded create_signing_input_def]]
  by (simp add: cbor_max_recursion_depth_def)

lemma cwt_decode_signed:
  assumes "cwt_decode E bs = Inr pf"
  shows "decode_header E (si_header (dp_signed pf)) = Inr (dp_header pf) \<and>
         decode_payload E (si_payload (dp_signed pf)) = Inr (dp_payload pf)"
  using assms by (auto simp: cwt_decode_def split: if_splits)

text \<open>What the CWT form makes of a proof whose signed bytes are \<open>s\<close>.\<close>

definition cwt_form :: "codec_env \<Rightarrow> dpop_proof \<Rightarrow> signed_input \<Rightarrow> dpop_proof" where
  "cwt_form E pf s =
     pf\<lparr>dp_signed := s, dp_wire := WireCwt,
        dp_header := (dp_header pf)\<lparr>dh_jwk := wire_jwk E (dh_jwk (dp_header pf))\<rparr>,
        dp_payload := (dp_payload pf)\<lparr>pl_actx := wire_actx (pl_actx (dp_payload pf))\<rparr>\<rparr>"

lemma cwt_own_parts:
  assumes "codec_laws E" "in_i64 (dh_alg h)" "in_i64 (pl_iat p)" "cwt_encode_header_and_payload E h p = Inr s"
  shows "decode_header E (si_header s) = Inr (h\<lparr>dh_jwk := wire_jwk E (dh_jwk h)\<rparr>) \<and>
    decode_payload E (si_payload s) = Inr (p\<lparr>pl_actx := wire_actx (pl_actx p)\<rparr>)"
  using assms header_wire payload_wire by (auto simp: cwt_encode_header_and_payload_def)

lemma cwt_decode_parts:
  assumes "codec_laws E" "length bs \<le> max_dpop_wire_size"
    and "cwt_signed_bytes E pf = Inr s" "cwt_encode E pf = Inr bs"
    and "decode_header E (si_header s) = Inr ((dp_header pf)\<lparr>dh_jwk := wire_jwk E (dh_jwk (dp_header pf))\<rparr>)"
      "decode_payload E (si_payload s) = Inr ((dp_payload pf)\<lparr>pl_actx := wire_actx (pl_actx (dp_payload pf))\<rparr>)"
  shows "cwt_decode E bs = Inr (cwt_form E pf s)"
proof -
  have b: "ce_write E (CTag COSE_TAG_SIGN1
      (CArray [CBytes (si_header s), CMap [], CBytes (si_payload s), CBytes (dp_signature pf)])) = Inr bs"
    using assms(3,4) by (simp add: cwt_encode_def)
  show ?thesis using decode_one_write[OF assms(1) b] assms(2,5,6)
    by (simp add: cwt_decode_def cwt_form_def cbor_max_recursion_depth_def)
qed

section \<open>What a decoded proof carries\<close>

lemma moq_tns_decoded: "moq_tns_from_canonical s = Inr tns \<Longrightarrow> tns \<noteq> []"
  unfolding moq_tns_from_canonical_def by (auto simp: map_r_eq_Inr dest: list_all2_lengthD)

lemma wire_name_setup: "moqt_action_from_wire_name s = Inr act \<Longrightarrow> act \<noteq> ServerSetup"
  by (auto simp: moqt_action_from_wire_name_def split: if_splits)

lemma cbor_actx_action:
  assumes "cbor_to_actx v = Inr x"
  shows "ax_action x \<noteq> ServerSetup"
proof -
  obtain es a where a: "try_fold actx_entry es
      \<lparr>aa_type = None, aa_action = None, aa_tns = None, aa_tn = [], aa_resource = None\<rparr> = Inr a"
    and x: "aa_action a = Some (ax_action x)"
    using assms by (auto simp: cbor_to_actx_def)
  from a have "aa_action a \<noteq> Some ServerSetup"
    by (rule try_fold_inv[where P = "\<lambda>a. aa_action a \<noteq> Some ServerSetup"])
       (auto simp: actx_entry_def wire_name_setup split: if_splits cbor.splits)
  then show ?thesis using x by simp
qed

text \<open>Whatever the bytes, a context read from the CBOR form has a namespace tuple with a segment.\<close>

lemma cbor_actx_tns:
  assumes "cbor_to_actx v = Inr x"
  shows "ax_tns x \<noteq> []"
proof -
  obtain es a where a: "try_fold actx_entry es
      \<lparr>aa_type = None, aa_action = None, aa_tns = None, aa_tn = [], aa_resource = None\<rparr> = Inr a"
    and x: "aa_tns a = Some (ax_tns x)"
    using assms by (auto simp: cbor_to_actx_def)
  from a have "aa_tns a \<noteq> Some []"
    by (rule try_fold_inv[where P = "\<lambda>a. aa_tns a \<noteq> Some []"])
       (auto simp: actx_entry_def moq_tns_decoded split: if_splits cbor.splits)
  then show ?thesis using x by simp
qed

lemma decoded_payload_wire:
  assumes "decode_payload E pb = Inr p"
  shows "wire_actx (pl_actx p) = pl_actx p"
proof -
  obtain es a where a: "try_fold payload_entry es
      \<lparr>pa_iat = None, pa_cti = None, pa_actx = None, pa_ath = None, pa_nonce = None\<rparr> = Inr a"
    and x: "pa_actx a = Some (pl_actx p)"
    using assms by (auto simp: decode_payload_def)
  from a have "\<forall>x. pa_actx a = Some x \<longrightarrow> wire_actx x = x"
    by (rule try_fold_inv[where P = "\<lambda>a. \<forall>x. pa_actx a = Some x \<longrightarrow> wire_actx x = x"])
       (auto simp: payload_entry_def wire_actx_def dest: cbor_actx_tns cbor_actx_action split: if_splits)
  then show ?thesis using x by simp
qed

lemma decode_payload_tns: "decode_payload E pb = Inr p \<Longrightarrow> ax_tns (pl_actx p) \<noteq> []"
  using arg_cong[OF decoded_payload_wire, where f = ax_tns] by (force simp: wire_actx_def split: if_splits)

lemma cwt_decoded_tns: "cwt_decode E bs = Inr pf \<Longrightarrow> ax_tns (pl_actx (dp_payload pf)) \<noteq> []"
  using cwt_decode_signed decode_payload_tns by blast

end
