(* ===== verification/Pipeline.thy ===== *)
theory Pipeline
  imports Token_Validator Dpop_Cwt
begin

text \<open>
  The path of a token from bytes to claims that may be used: the admission policy and the typed
  stages of \<open>src/src/pipeline.rs\<close>, the key resolvers of \<open>src/src/key_resolver.rs\<close>, and the COSE
  envelope and the decoder of \<open>src/src/token.rs\<close>.

  A verification algorithm is its identifier and its verification function. The full claim decoder
  (\<open>Cwt::decode_payload_with_limits\<close>), the issuer peek and the decryption of an encrypted envelope
  are arguments of the decoder; \<open>Encrypt\<close> supplies the ones of the crate.
\<close>

section \<open>Stages\<close>

record token_header =
  th_alg :: int
  th_kid :: "bytes option"

record verified_token =
  vt_token :: cat_token
  vt_header :: token_header
  vt_provenance :: token_provenance
  vt_serialized :: bytes

text \<open>A validated token has the same fields; only \<open>validate_token\<close> builds one.\<close>

datatype validated_token = ValidatedToken verified_token

fun validated_claims :: "validated_token \<Rightarrow> cat_token" where
  "validated_claims (ValidatedToken t) = vt_token t"

fun validated_serialized :: "validated_token \<Rightarrow> bytes" where
  "validated_serialized (ValidatedToken t) = vt_serialized t"

definition validate_token :: "cat_token_validator \<Rightarrow> int \<Rightarrow> verified_token \<Rightarrow> validated_token result" where
  "validate_token v now t =
     rbind (validate_with_provenance v now (vt_provenance t) (vt_token t)) (\<lambda>_. Inr (ValidatedToken t))"

lemma validate_token_ok:
  assumes "validate_token v now t = Inr tok"
  shows "tok = ValidatedToken t" "time_ok v now (vt_token t)" "identity_ok v (vt_token t)"
  using assms by (auto simp: validate_token_def validate_with_provenance_ok validate_flat_ok)

section \<open>Admission\<close>

record admission_policy =
  ap_max_token_size :: nat
  ap_algorithms :: "int set option"
  ap_kids :: "bytes set option"

definition admission_new :: admission_policy where
  "admission_new = \<lparr>ap_max_token_size = 16 * 1024, ap_algorithms = None, ap_kids = None\<rparr>"

definition with_max_token_size :: "nat \<Rightarrow> admission_policy \<Rightarrow> admission_policy" where
  "with_max_token_size n p = p\<lparr>ap_max_token_size := n\<rparr>"

definition with_allowed_algorithms :: "int list \<Rightarrow> admission_policy \<Rightarrow> admission_policy" where
  "with_allowed_algorithms algs p = p\<lparr>ap_algorithms := Some (set algs)\<rparr>"

definition with_allowed_kids :: "bytes list \<Rightarrow> admission_policy \<Rightarrow> admission_policy" where
  "with_allowed_kids kids p = p\<lparr>ap_kids := Some (set kids)\<rparr>"

text \<open>The errors carry the sorted allow list; the sorted list of \<open>kid\<close>s is left out of the model's
  error, which keeps only what was found.\<close>

definition admission_check :: "admission_policy \<Rightarrow> bytes \<Rightarrow> token_header \<Rightarrow> unit result" where
  "admission_check p raw h =
     (if length raw > ap_max_token_size p then Inl InvalidTokenFormat
      else if (case ap_algorithms p of Some as \<Rightarrow> th_alg h \<notin> as | None \<Rightarrow> False)
        then Inl (AlgorithmNotAllowed (th_alg h) (sorted_list_of_set (the (ap_algorithms p))))
      else case ap_kids p of
        None \<Rightarrow> Inr ()
      | Some ks \<Rightarrow>
          (case th_kid h of
             Some kid \<Rightarrow> (if kid \<in> ks then Inr () else Inl (KidNotAllowed (Some kid) []))
           | None \<Rightarrow> Inl (KidNotAllowed None [])))"

text \<open>The admission check passes exactly the envelopes within the size limit whose algorithm and \<open>kid\<close> are on the
  allow lists that are set.\<close>

lemma admission_check_ok:
  "admission_check p raw h = Inr () \<longleftrightarrow>
     length raw \<le> ap_max_token_size p \<and>
     (\<forall>as. ap_algorithms p = Some as \<longrightarrow> th_alg h \<in> as) \<and>
     (\<forall>ks. ap_kids p = Some ks \<longrightarrow> (\<exists>k \<in> ks. th_kid h = Some k))"
  by (auto simp: admission_check_def split: option.splits)

section \<open>Key resolution\<close>

record algorithm =
  al_id :: int
  al_verify :: "bytes \<Rightarrow> bytes \<Rightarrow> unit result"

record key_hint =
  kh_alg :: int
  kh_kid :: "bytes option"
  kh_issuer :: "string option"

definition key_hint_of_header :: "token_header \<Rightarrow> key_hint" where
  "key_hint_of_header h = \<lparr>kh_alg = th_alg h, kh_kid = th_kid h, kh_issuer = None\<rparr>"

definition hint_with_issuer :: "string option \<Rightarrow> key_hint \<Rightarrow> key_hint" where
  "hint_with_issuer i h = h\<lparr>kh_issuer := i\<rparr>"

record single_key_resolver =
  sk_algorithm :: algorithm
  sk_issuer :: "string option"
  sk_kid :: "bytes option"

definition single_key_new :: "algorithm \<Rightarrow> string \<Rightarrow> single_key_resolver" where
  "single_key_new a i = \<lparr>sk_algorithm = a, sk_issuer = Some i, sk_kid = None\<rparr>"

definition single_key_any_issuer :: "algorithm \<Rightarrow> single_key_resolver" where
  "single_key_any_issuer a = \<lparr>sk_algorithm = a, sk_issuer = None, sk_kid = None\<rparr>"

definition require_kid :: "bytes \<Rightarrow> single_key_resolver \<Rightarrow> single_key_resolver" where
  "require_kid kid r = (if kid \<noteq> [] then r\<lparr>sk_kid := Some kid\<rparr> else r)"

definition single_key_resolve :: "single_key_resolver \<Rightarrow> key_hint \<Rightarrow> algorithm result" where
  "single_key_resolve r h =
     (if kh_alg h \<noteq> al_id (sk_algorithm r)
      then Inl (AlgorithmMismatch (al_id (sk_algorithm r)) (kh_alg h))
      else
        rbind (case sk_issuer r of
                 None \<Rightarrow> Inr ()
               | Some expected \<Rightarrow>
                   (case kh_issuer h of
                      Some actual \<Rightarrow> (if actual = expected then Inr () else Inl InvalidIssuer)
                    | None \<Rightarrow> Inl (MissingRequiredClaim ''iss''))) (\<lambda>_.
        rbind (case sk_kid r of
                 None \<Rightarrow> Inr ()
               | Some expected \<Rightarrow>
                   (case kh_kid h of
                      Some actual \<Rightarrow>
                        (if actual = expected then Inr ()
                         else Inl (ConfigurationRefused ''kid mismatch: header kid does not match pinned kid''))
                    | None \<Rightarrow>
                        Inl (ConfigurationRefused ''kid missing from protected header but required by resolver'')))
          (\<lambda>_. Inr (sk_algorithm r))))"

type_synonym key_entry = "string \<times> bytes \<times> int"
type_synonym key_ring = "key_entry \<Rightarrow> algorithm option"

definition ring_new :: key_ring where
  "ring_new = (\<lambda>_. None)"

definition add_key :: "string \<Rightarrow> bytes \<Rightarrow> algorithm \<Rightarrow> key_ring \<Rightarrow> key_ring" where
  "add_key iss kid a r = r((iss, kid, al_id a) \<mapsto> a)"

definition remove_key :: "string \<Rightarrow> bytes \<Rightarrow> int \<Rightarrow> key_ring \<Rightarrow> key_ring \<times> bool" where
  "remove_key iss kid alg r = (r((iss, kid, alg) := None), r (iss, kid, alg) \<noteq> None)"

definition ring_resolve :: "key_ring \<Rightarrow> key_hint \<Rightarrow> algorithm result" where
  "ring_resolve r h =
     rbind (ok_or (kh_issuer h) (MissingRequiredClaim ''iss'')) (\<lambda>iss.
     rbind (ok_or (kh_kid h) (ConfigurationRefused ''kid missing from protected header'')) (\<lambda>kid.
     ok_or (r (iss, kid, kh_alg h)) (ConfigurationRefused ''no key registered for'')))"

text \<open>The contract of a resolver: the key it returns carries the algorithm of the hint.\<close>

locale key_resolver =
  fixes resolve :: "key_hint \<Rightarrow> algorithm result"
  assumes resolve_alg: "resolve h = Inr a \<Longrightarrow> al_id a = kh_alg h"

inductive ring_built :: "key_ring \<Rightarrow> bool" where
  built_ring_new: "ring_built ring_new"
| built_add: "ring_built r \<Longrightarrow> ring_built (add_key iss kid a r)"
| built_remove: "ring_built r \<Longrightarrow> ring_built (fst (remove_key iss kid alg r))"

lemma ring_built_ids: "ring_built r \<Longrightarrow> r (iss, kid, alg) = Some a \<Longrightarrow> al_id a = alg"
  by (induction r rule: ring_built.induct)
     (auto simp: ring_new_def add_key_def remove_key_def split: if_splits)

interpretation skr: key_resolver "single_key_resolve r" for r
  by unfold_locales (auto simp: single_key_resolve_def split: if_splits)

lemma ring_key_resolver: "ring_built r \<Longrightarrow> key_resolver (ring_resolve r)"
  by unfold_locales (auto simp: ring_resolve_def ring_built_ids)

lemma ring_resolve_ok:
  "ring_resolve r h = Inr a \<longleftrightarrow>
     (\<exists>iss kid. kh_issuer h = Some iss \<and> kh_kid h = Some kid \<and> r (iss, kid, kh_alg h) = Some a)"
  by (auto simp: ring_resolve_def)

text \<open>The single-key resolver hands out its key exactly when the header names its algorithm and, where they are
  pinned, its issuer and \<open>kid\<close>.\<close>

lemma single_key_resolve_ok:
  "single_key_resolve r h = Inr a \<longleftrightarrow>
     a = sk_algorithm r \<and> kh_alg h = al_id a \<and>
     (\<forall>i. sk_issuer r = Some i \<longrightarrow> kh_issuer h = Some i) \<and>
     (\<forall>k. sk_kid r = Some k \<longrightarrow> kh_kid h = Some k)"
  by (auto simp: single_key_resolve_def split: option.splits if_splits)

section \<open>The COSE envelope\<close>

abbreviation "COSE_TAG_MAC0 \<equiv> 17 :: nat"

definition max_token_size :: nat where
  "max_token_size = 16 * 1024"

record cose_envelope =
  en_tag :: nat
  en_header_cbor :: bytes
  en_payload_cbor :: bytes
  en_signature :: bytes
  en_alg :: int
  en_kid :: "bytes option"

text \<open>One entry of the protected header; entries with other keys are skipped, and the second
  \<open>kid\<close> of a map replaces the first.\<close>

fun header_info_entry ::
  "cbor \<times> cbor \<Rightarrow> int option \<times> bytes option \<Rightarrow> (int option \<times> bytes option) result" where
  "header_info_entry (CInt k, v) st =
     (if \<not> in_i64 k then Inl InvalidTokenFormat
      else if k = 1 then
        (if fst st \<noteq> None then Inl (InvalidCbor ''Duplicate alg in protected header'')
         else rbind (int_value (InvalidClaimValue ''alg must be an integer'') v) (\<lambda>a. Inr (Some a, snd st)))
      else if k = 4 then
        (case v of
           CBytes b \<Rightarrow> Inr (fst st, Some b)
         | CText s \<Rightarrow> Inr (fst st, Some (map byte_of_char s))
         | _ \<Rightarrow> Inr st)
      else Inr st)"
| "header_info_entry _ st = Inr st"

text \<open>The reader is given a slice, so bytes after the header map are ignored.\<close>

definition extract_header_info :: "codec_env \<Rightarrow> bytes \<Rightarrow> (int \<times> bytes option) result" where
  "extract_header_info E hdr =
     rbind (ce_read E hdr) (\<lambda>(v, _).
     rbind (map_value InvalidTokenFormat v) (\<lambda>m.
     rbind (try_fold header_info_entry m (None, None)) (\<lambda>(alg, kid).
     rbind (ok_or alg (MissingRequiredClaim ''alg'')) (\<lambda>a. Inr (a, kid)))))"

fun envelope_parts :: "cbor \<Rightarrow> (nat \<times> bytes \<times> bytes \<times> bytes) result" where
  "envelope_parts (CTag tag inner) =
     (if tag \<noteq> COSE_TAG_SIGN1 \<and> tag \<noteq> COSE_TAG_MAC0 then Inl InvalidTokenFormat
      else case inner of
        CArray [CBytes h, CMap _, CBytes p, CBytes s] \<Rightarrow> Inr (tag, h, p, s)
      | _ \<Rightarrow> Inl InvalidTokenFormat)"
| "envelope_parts _ = Inl InvalidTokenFormat"

definition parse_cose_envelope :: "codec_env \<Rightarrow> bytes \<Rightarrow> cose_envelope result" where
  "parse_cose_envelope E bs =
     (if length bs > max_token_size then Inl InvalidTokenFormat
      else
        rbind (decode_one E bs) (\<lambda>v.
        rbind (envelope_parts v) (\<lambda>(tag, h, p, s).
        rbind (extract_header_info E h) (\<lambda>(alg, kid).
        Inr \<lparr>en_tag = tag, en_header_cbor = h, en_payload_cbor = p, en_signature = s,
             en_alg = alg, en_kid = kid\<rparr>))))"

definition tag_for :: "int \<Rightarrow> nat" where
  "tag_for alg = (if alg = ALG_HMAC256_256 then COSE_TAG_MAC0 else COSE_TAG_SIGN1)"

section \<open>The decoder\<close>

type_synonym 'l claim_decoder = "'l \<Rightarrow> bytes \<Rightarrow> cat_token result"

definition verify_and_decode ::
  "codec_env \<Rightarrow> 'l claim_decoder \<Rightarrow> cose_envelope \<Rightarrow> algorithm \<Rightarrow> 'l \<Rightarrow> bytes \<Rightarrow> verified_token result" where
  "verify_and_decode E dec en a limits serialized =
     (if en_tag en \<noteq> tag_for (al_id a) then Inl InvalidTokenFormat
      else if en_alg en \<noteq> al_id a then Inl (AlgorithmMismatch (al_id a) (en_alg en))
      else
        rbind (create_signing_input E (en_header_cbor en) (en_payload_cbor en) (al_id a)) (\<lambda>input.
        rbind (al_verify a input (en_signature en)) (\<lambda>_.
        rbind (dec limits (en_payload_cbor en)) (\<lambda>t.
        Inr \<lparr>vt_token = t, vt_header = \<lparr>th_alg = en_alg en, th_kid = en_kid en\<rparr>,
             vt_provenance = Signed, vt_serialized = serialized\<rparr>))))"

datatype decoder_key = KeyAlgorithm algorithm | KeyResolverFn "key_hint \<Rightarrow> algorithm result"

record 'l decoder =
  de_key :: decoder_key
  de_admission :: "admission_policy option"
  de_encryption_key :: "bytes option"
  de_limits :: 'l

definition run_admission :: "admission_policy option \<Rightarrow> bytes \<Rightarrow> token_header \<Rightarrow> unit result" where
  "run_admission p raw h = (case p of Some pol \<Rightarrow> admission_check pol raw h | None \<Rightarrow> Inr ())"

definition select_algorithm ::
  "(bytes \<Rightarrow> string option result) \<Rightarrow> 'l decoder \<Rightarrow> cose_envelope \<Rightarrow> bytes \<Rightarrow> algorithm result" where
  "select_algorithm peek d en raw =
     (let h = \<lparr>th_alg = en_alg en, th_kid = en_kid en\<rparr>
      in rbind (run_admission (de_admission d) raw h) (\<lambda>_.
         case de_key d of
           KeyAlgorithm a \<Rightarrow> Inr a
         | KeyResolverFn resolve \<Rightarrow>
             rbind (peek (en_payload_cbor en)) (\<lambda>iss. resolve (hint_with_issuer iss (key_hint_of_header h)))))"

definition decode_signed ::
  "codec_env \<Rightarrow> 'l claim_decoder \<Rightarrow> (bytes \<Rightarrow> string option result) \<Rightarrow> 'l decoder \<Rightarrow> bytes \<Rightarrow>
     verified_token result" where
  "decode_signed E dec peek d bs =
     rbind (parse_cose_envelope E bs) (\<lambda>en.
     rbind (select_algorithm peek d en bs) (\<lambda>a.
     verify_and_decode E dec en a (de_limits d) bs))"

definition decode_token ::
  "codec_env \<Rightarrow> 'l claim_decoder \<Rightarrow> (bytes \<Rightarrow> string option result) \<Rightarrow> ('l \<Rightarrow> nat) \<Rightarrow>
     (bytes \<Rightarrow> bytes \<Rightarrow> nat \<Rightarrow> bytes result) \<Rightarrow> 'l decoder \<Rightarrow> bytes \<Rightarrow> verified_token result" where
  "decode_token E dec peek max_payload decrypt d bs =
     (case de_encryption_key d of
        Some k \<Rightarrow>
          rbind (decrypt bs k (min max_token_size (max_payload (de_limits d)))) (\<lambda>inner.
          rbind (decode_signed E dec peek d inner) (\<lambda>t.
          Inr (t\<lparr>vt_provenance := Encrypted, vt_serialized := bs\<rparr>)))
      | None \<Rightarrow> decode_signed E dec peek d bs)"

text \<open>What a verified token rests on: an envelope whose signature the selected algorithm accepted
  over the received header and payload bytes, with the algorithm of the header.\<close>

definition signature_checked :: "codec_env \<Rightarrow> algorithm \<Rightarrow> cose_envelope \<Rightarrow> bool" where
  "signature_checked E a en \<longleftrightarrow>
     en_alg en = al_id a \<and> en_tag en = tag_for (al_id a) \<and>
     (\<exists>input. create_signing_input E (en_header_cbor en) (en_payload_cbor en) (al_id a) = Inr input \<and>
        al_verify a input (en_signature en) = Inr ())"

lemma verify_and_decode_ok:
  "verify_and_decode E dec en a limits bs = Inr t \<longleftrightarrow>
     signature_checked E a en \<and>
     (\<exists>c. dec limits (en_payload_cbor en) = Inr c \<and>
        t = \<lparr>vt_token = c, vt_header = \<lparr>th_alg = en_alg en, th_kid = en_kid en\<rparr>,
             vt_provenance = Signed, vt_serialized = bs\<rparr>)"
  by (auto simp: verify_and_decode_def signature_checked_def split: if_splits)

text \<open>C9: every token \<open>decode_signed\<close> returns was signed: the envelope parsed from the input names the algorithm that
  was selected for it, its signature verified over the received header and payload bytes, and the claims are
  decoded from those bytes.\<close>

theorem decode_signed_ok:
  assumes "decode_signed E dec peek d bs = Inr t"
  shows "\<exists>en a. parse_cose_envelope E bs = Inr en \<and> select_algorithm peek d en bs = Inr a \<and>
     signature_checked E a en \<and> dec (de_limits d) (en_payload_cbor en) = Inr (vt_token t) \<and>
     vt_header t = \<lparr>th_alg = en_alg en, th_kid = en_kid en\<rparr> \<and> vt_provenance t = Signed \<and>
     vt_serialized t = bs"
  using assms by (auto simp: decode_signed_def verify_and_decode_ok)

context key_resolver
begin

lemma selected_alg:
  "select_algorithm peek d en raw = Inr a \<Longrightarrow> de_key d = KeyResolverFn resolve \<Longrightarrow> al_id a = en_alg en"
  using resolve_alg
  by (fastforce simp: select_algorithm_def Let_def hint_with_issuer_def key_hint_of_header_def)

end

section \<open>Encoding a token\<close>

text \<open>The header of an encoded token comes from a fresh \<open>Cwt\<close>: it has no \<open>kid\<close> and the type \<open>CAT\<close>.
  \<open>Cwt::encode_payload\<close> is the argument \<open>enc\<close>, the signing function is \<open>sign\<close>.\<close>

record cwt_header =
  cwt_alg :: int
  cwt_kid :: "string option"
  cwt_typ :: "string option"

definition cwt_header_new :: "int \<Rightarrow> cwt_header" where
  "cwt_header_new alg = \<lparr>cwt_alg = alg, cwt_kid = None, cwt_typ = Some ''CAT''\<rparr>"

definition with_key_id :: "string \<Rightarrow> cwt_header \<Rightarrow> cwt_header" where
  "with_key_id kid h = h\<lparr>cwt_kid := Some kid\<rparr>"

definition header_entries :: "cwt_header \<Rightarrow> (int \<times> cbor) list" where
  "header_entries h =
     [(1, CInt (cwt_alg h))] @ opt_entry 4 CText (cwt_kid h) @ opt_entry 16 CText (cwt_typ h)"

definition encode_protected_header :: "codec_env \<Rightarrow> int \<Rightarrow> bytes result" where
  "encode_protected_header E alg = ce_write E (int_entries (header_entries (cwt_header_new alg)))"

definition encode_token ::
  "codec_env \<Rightarrow> (cat_token \<Rightarrow> bytes result) \<Rightarrow> int \<Rightarrow> (bytes \<Rightarrow> bytes result) \<Rightarrow> cat_token \<Rightarrow>
     bytes result" where
  "encode_token E enc alg sign t =
     rbind (validate_construction t) (\<lambda>_.
     rbind (encode_protected_header E alg) (\<lambda>h.
     rbind (enc t) (\<lambda>p.
     rbind (create_signing_input E h p alg) (\<lambda>input.
     rbind (sign input) (\<lambda>s.
     ce_write E (CTag (tag_for alg) (CArray [CBytes h, CMap [], CBytes p, CBytes s])))))))"

lemma extract_encoded_header:
  assumes "codec_laws E" "in_i64 alg" "encode_protected_header E alg = Inr h"
  shows "extract_header_info E h = Inr (alg, None)"
  using assms(2) ce_read_write[OF assms(1) assms(3)[unfolded encode_protected_header_def]]
  by (simp add: header_entries_def cwt_header_new_def opt_entry_def int_entries_def extract_header_info_def
      cbor_max_recursion_depth_def)

lemma parse_encoded_token:
  assumes laws: "codec_laws E" and alg: "in_i64 alg"
    and e: "encode_token E enc alg sign t = Inr bs" "length bs \<le> max_token_size"
  shows "\<exists>h p s input. enc t = Inr p \<and> create_signing_input E h p alg = Inr input \<and> sign input = Inr s \<and>
     parse_cose_envelope E bs =
       Inr \<lparr>en_tag = tag_for alg, en_header_cbor = h, en_payload_cbor = p, en_signature = s,
            en_alg = alg, en_kid = None\<rparr>"
proof -
  obtain h p input s where h: "encode_protected_header E alg = Inr h" and p: "enc t = Inr p"
    and i: "create_signing_input E h p alg = Inr input" and s: "sign input = Inr s"
    and b: "ce_write E (CTag (tag_for alg) (CArray [CBytes h, CMap [], CBytes p, CBytes s])) = Inr bs"
    using e(1) by (auto simp: encode_token_def)
  have "parse_cose_envelope E bs =
       Inr \<lparr>en_tag = tag_for alg, en_header_cbor = h, en_payload_cbor = p, en_signature = s,
            en_alg = alg, en_kid = None\<rparr>"
    using decode_one_write[OF laws b] e(2) extract_encoded_header[OF laws alg h]
    by (simp add: parse_cose_envelope_def tag_for_def cbor_max_recursion_depth_def)
  with p i s show ?thesis by blast
qed

text \<open>What \<open>encode_token\<close> writes, the decoder with the matching key reads back as the same claims.\<close>

lemma encode_decode_signed:
  assumes laws: "codec_laws E" and alg: "in_i64 (al_id a)"
    and enc: "\<And>p. enc t = Inr p \<Longrightarrow> dec (de_limits d) p = Inr t"
    and sign: "\<And>m s. sign m = Inr s \<Longrightarrow> al_verify a m s = Inr ()"
    and d: "de_key d = KeyAlgorithm a" "de_admission d = None"
    and e: "encode_token E enc (al_id a) sign t = Inr bs" "length bs \<le> max_token_size"
  shows "decode_signed E dec peek d bs =
     Inr \<lparr>vt_token = t, vt_header = \<lparr>th_alg = al_id a, th_kid = None\<rparr>,
          vt_provenance = Signed, vt_serialized = bs\<rparr>"
proof -
  obtain h p s input where p: "enc t = Inr p"
    and i: "create_signing_input E h p (al_id a) = Inr input" and s: "sign input = Inr s"
    and en: "parse_cose_envelope E bs =
       Inr \<lparr>en_tag = tag_for (al_id a), en_header_cbor = h, en_payload_cbor = p, en_signature = s,
            en_alg = al_id a, en_kid = None\<rparr>"
    using parse_encoded_token[OF laws alg e] by blast
  show ?thesis
    using i sign[OF s] enc[OF p] d
    by (simp add: decode_signed_def en select_algorithm_def run_admission_def verify_and_decode_def)
qed

text \<open>A token written by \<open>encode_token\<close> never resolves through a key ring, because its header has no \<open>kid\<close>.\<close>

lemma ring_refuses_encoded:
  assumes "codec_laws E" "in_i64 alg" "encode_token E enc alg sign t = Inr bs"
    and "length bs \<le> max_token_size" "de_key d = KeyResolverFn (ring_resolve r)"
  shows "\<not> is_ok (decode_signed E dec peek d bs)"
proof -
  obtain h p s input where en: "parse_cose_envelope E bs =
       Inr \<lparr>en_tag = tag_for alg, en_header_cbor = h, en_payload_cbor = p, en_signature = s,
            en_alg = alg, en_kid = None\<rparr>"
    using parse_encoded_token[OF assms(1-4)] by blast
  have "\<not> is_ok (ring_resolve r (hint_with_issuer i (key_hint_of_header \<lparr>th_alg = alg, th_kid = None\<rparr>)))" for i
    by (auto simp: is_ok_iff ring_resolve_def hint_with_issuer_def key_hint_of_header_def)
  then show ?thesis
    using assms(5) by (auto simp: is_ok_iff decode_signed_def en select_algorithm_def Let_def)
qed

end
