(* ===== verification/Uri.thy ===== *)
theory Uri
  imports Claims
begin

text \<open>
  \<open>src/src/uri.rs\<close>: the URI normaliser and parser behind every \<open>catu\<close> rule. \<open>UriComponents\<close> keeps
  one normalised buffer and a byte range per component, as the code does.

  Shown: every range stays inside the buffer, so no accessor can panic; what is accepted is ASCII
  without fragment or userinfo; dot segments are gone from the path that is percent-normalised;
  percent normalisation is idempotent; the components of a plain URI are the ones of RFC 3986; and
  two divergences: percent-encoded dots survive as dot segments, and a query with a slash but no
  path is absorbed by the host.
\<close>

section \<open>Searching\<close>

definition find_char :: "char \<Rightarrow> string \<Rightarrow> nat option" where
  "find_char c s = position_of (\<lambda>x. x = c) s"

definition rfind_char :: "char \<Rightarrow> string \<Rightarrow> nat option" where
  "rfind_char c s = map_option (\<lambda>i. length s - 1 - i) (position_of (\<lambda>x. x = c) (rev s))"

fun find_sub :: "string \<Rightarrow> string \<Rightarrow> nat option" where
  "find_sub p [] = (if p = [] then Some 0 else None)"
| "find_sub p (x # xs) = (if prefix p (x # xs) then Some 0 else map_option Suc (find_sub p xs))"

lemma find_char_bound: "find_char c s = Some i \<Longrightarrow> i < length s"
  by (simp add: find_char_def position_of_Some)

lemma rfind_char_bound: "rfind_char c s = Some i \<Longrightarrow> i < length s"
  by (auto simp: rfind_char_def position_of_Some)

lemma find_sub_bound: "find_sub p s = Some i \<Longrightarrow> i + length p \<le> length s"
  by (induction s arbitrary: i) (auto simp: prefix_length_le split: if_splits dest: prefix_length_le)

lemma find_char_None: "find_char c s = None \<longleftrightarrow> c \<notin> set s"
  by (auto simp: find_char_def)

lemma find_char_append [simp]: "c \<notin> set p \<Longrightarrow> find_char c (p @ c # q) = Some (length p)"
  by (induction p) (auto simp: find_char_def)

lemma find_char_skip: "c \<notin> set p \<Longrightarrow> find_char c (p @ q) = map_option (\<lambda>i. length p + i) (find_char c q)"
  using position_of_None[of "\<lambda>x. x = c" p]
  by (auto simp: find_char_def position_of_append simp del: position_of_None)

lemma rfind_char_None: "rfind_char c s = None \<longleftrightarrow> c \<notin> set s"
  by (auto simp: rfind_char_def)

section \<open>Components\<close>

type_synonym range = "nat \<times> nat"

record uri_components =
  uc_raw :: string
  uc_scheme :: range
  uc_host :: range
  uc_port :: range
  uc_path :: range
  uc_query :: range

definition slice :: "string \<Rightarrow> range \<Rightarrow> string" where
  "slice s r = take (snd r - fst r) (drop (fst r) s)"

definition in_range :: "string \<Rightarrow> range \<Rightarrow> bool" where
  "in_range s r \<longleftrightarrow> fst r \<le> snd r \<and> snd r \<le> length s"

definition u_scheme :: "uri_components \<Rightarrow> string" where
  "u_scheme u = slice (uc_raw u) (uc_scheme u)"

definition u_host :: "uri_components \<Rightarrow> string" where
  "u_host u = slice (uc_raw u) (uc_host u)"

definition u_port :: "uri_components \<Rightarrow> string" where
  "u_port u = slice (uc_raw u) (uc_port u)"

definition u_path :: "uri_components \<Rightarrow> string" where
  "u_path u = slice (uc_raw u) (uc_path u)"

definition u_query :: "uri_components \<Rightarrow> string" where
  "u_query u = slice (uc_raw u) (uc_query u)"

definition parent_path_str :: "uri_components \<Rightarrow> string" where
  "parent_path_str u =
     (case rfind_char CHR ''/'' (u_path u) of Some i \<Rightarrow> take (i + 1) (u_path u) | None \<Rightarrow> [])"

definition filename_str :: "uri_components \<Rightarrow> string" where
  "filename_str u =
     (case rfind_char CHR ''/'' (u_path u) of Some i \<Rightarrow> drop (i + 1) (u_path u) | None \<Rightarrow> u_path u)"

definition stem_str :: "uri_components \<Rightarrow> string" where
  "stem_str u =
     (case rfind_char CHR ''.'' (filename_str u) of
        Some i \<Rightarrow> take i (filename_str u) | None \<Rightarrow> filename_str u)"

definition extension_str :: "uri_components \<Rightarrow> string" where
  "extension_str u =
     (case rfind_char CHR ''.'' (filename_str u) of
        Some i \<Rightarrow> drop (i + 1) (filename_str u) | None \<Rightarrow> [])"

definition u_component :: "uri_components \<Rightarrow> int \<Rightarrow> string" where
  "u_component u k =
     (if k = 0 then u_scheme u
      else if k = 1 then u_host u
      else if k = 2 then u_port u
      else if k = 3 then u_path u
      else if k = 4 then u_query u
      else if k = 5 then parent_path_str u
      else if k = 6 then filename_str u
      else if k = 7 then stem_str u
      else if k = 8 then extension_str u
      else [])"

section \<open>Normalisation\<close>

definition ensure_ascii :: "string \<Rightarrow> unit result" where
  "ensure_ascii uri =
     (if \<not> list_all is_ascii_char uri
      then Inl (InvalidClaimValue ''URI contains raw non-ASCII bytes; per RFC 3986 non-ASCII must be percent-encoded'')
      else Inr ())"

text \<open>The loop over the segments: \<open>output.pop()\<close> on an empty stack does nothing.\<close>

fun dot_stack :: "string list \<Rightarrow> string list \<Rightarrow> string list" where
  "dot_stack output [] = output"
| "dot_stack output (seg # segs) =
     (if seg = ''.'' then dot_stack output segs
      else if seg = ''..'' then dot_stack (butlast output) segs
      else dot_stack (output @ [seg]) segs)"

definition starts_with_slash :: "string \<Rightarrow> bool" where
  "starts_with_slash s \<longleftrightarrow> prefix ''/'' s"

definition remove_dot_segments :: "string \<Rightarrow> string" where
  "remove_dot_segments path =
     (let r0 = join_with ''/'' (dot_stack [] (split_on CHR ''/'' path));
          r1 = (if \<not> starts_with_slash r0 \<and> starts_with_slash path then CHR ''/'' # r0 else r0)
      in if (suffix ''/.'' path \<or> suffix ''/..'' path) \<and> \<not> suffix ''/'' r1 then r1 @ ''/'' else r1)"

definition hex_val :: "char \<Rightarrow> nat option" where
  "hex_val b =
     (if 48 \<le> ord_of b \<and> ord_of b \<le> 57 then Some (ord_of b - 48)
      else if 97 \<le> ord_of b \<and> ord_of b \<le> 102 then Some (ord_of b - 97 + 10)
      else if 65 \<le> ord_of b \<and> ord_of b \<le> 70 then Some (ord_of b - 65 + 10)
      else None)"

definition to_upper_hex :: "nat \<Rightarrow> char" where
  "to_upper_hex nibble = (if nibble < 10 then char_of (48 + nibble) else char_of (65 + nibble - 10))"

definition is_unreserved :: "char \<Rightarrow> bool" where
  "is_unreserved b \<longleftrightarrow>
     is_ascii_alnum b \<or> b = CHR ''-'' \<or> b = CHR ''.'' \<or> b = CHR ''_'' \<or> b = CHR ''~''"

text \<open>The escape at the head of the input: the two nibbles, when both digits are there.\<close>

fun pct_escape :: "string \<Rightarrow> (nat \<times> nat) option" where
  "pct_escape (p # x # y # rest) =
     (if p = CHR ''%'' then
        (case (hex_val x, hex_val y) of (Some hi, Some lo) \<Rightarrow> Some (hi, lo) | _ \<Rightarrow> None)
      else None)"
| "pct_escape _ = None"

function normalize_percent_encoding :: "string \<Rightarrow> string" where
  "normalize_percent_encoding [] = []"
| "normalize_percent_encoding (c # s) =
     (if c = CHR ''%'' then
        (case pct_escape (c # s) of
           Some (hi, lo) \<Rightarrow>
             (if is_unreserved (char_of (16 * hi + lo))
              then char_of (16 * hi + lo) # normalize_percent_encoding (drop 2 s)
              else CHR ''%'' # to_upper_hex hi # to_upper_hex lo # normalize_percent_encoding (drop 2 s))
         | None \<Rightarrow> ''%25'' @ normalize_percent_encoding s)
      else c # normalize_percent_encoding s)"
  by pat_completeness auto
termination by (relation "measure length") auto

definition lowercase_host :: "string \<Rightarrow> string" where
  "lowercase_host host =
     (if \<not> (prefix ''['' host \<and> suffix '']'' host) then map ascii_lower host
      else case find_sub ''%25'' host of
        Some z \<Rightarrow> map ascii_lower (take z host) @ drop z host
      | None \<Rightarrow> map ascii_lower host)"

text \<open>\<open>rest.find('/')\<close>, else \<open>rest.find('?')\<close>: where the authority ends.\<close>

definition split_authority :: "string \<Rightarrow> string \<times> string" where
  "split_authority rest =
     (case find_char CHR ''/'' rest of
        Some i \<Rightarrow> (take i rest, drop i rest)
      | None \<Rightarrow> (case find_char CHR ''?'' rest of
          Some i \<Rightarrow> (take i rest, drop i rest)
        | None \<Rightarrow> (rest, [])))"

definition split_host_port :: "string \<Rightarrow> string \<times> string" where
  "split_host_port authority =
     (case (if prefix ''['' authority then find_char CHR '']'' authority else None) of
        Some e \<Rightarrow>
          (take (e + 1) authority,
           (case strip_prefix '':'' (drop (e + 1) authority) of Some p \<Rightarrow> p | None \<Rightarrow> []))
      | None \<Rightarrow>
          (case rfind_char CHR '':'' authority of
             Some i \<Rightarrow> (take i authority, drop (i + 1) authority)
           | None \<Rightarrow> (authority, [])))"

definition default_port :: "string \<Rightarrow> string" where
  "default_port res =
     (if prefix ''http://'' res then ''80'' else if prefix ''https://'' res then ''443'' else [])"

definition split_path_query :: "string \<Rightarrow> string \<times> string option" where
  "split_path_query pq =
     (case find_char CHR ''?'' pq of Some i \<Rightarrow> (take i pq, Some (drop i pq)) | None \<Rightarrow> (pq, None))"

definition userinfo_error :: cat_error where
  "userinfo_error = InvalidClaimValue ''URI userinfo is not permitted in this profile''"

definition fragment_error :: cat_error where
  "fragment_error = InvalidClaimValue ''URI fragments are not permitted in this profile''"

definition normalize_uri :: "string \<Rightarrow> string result" where
  "normalize_uri uri =
     rbind (ensure_ascii uri) (\<lambda>_.
       if CHR ''#'' \<in> set uri then Inl fragment_error
       else
         let (res0, rest) =
               (case find_sub ''://'' uri of
                  Some i \<Rightarrow> (map ascii_lower (take i uri) @ ''://'', drop (i + 3) uri)
                | None \<Rightarrow> ([], uri));
             (authority, pq) = split_authority rest
         in if CHR ''@'' \<in> set authority then Inl userinfo_error
            else
              let (host_part, port_part) = split_host_port authority;
                  res1 = res0 @ lowercase_host host_part;
                  res2 = (if port_part \<noteq> [] \<and> port_part \<noteq> default_port res1
                          then res1 @ '':'' @ port_part else res1);
                  (path0, query) = split_path_query pq;
                  path1 = (if path0 = [] then ''/'' else path0);
                  npath = normalize_percent_encoding (remove_dot_segments path1)
              in Inr (res2 @ npath @ (case query of Some q \<Rightarrow> q | None \<Rightarrow> [])))"

section \<open>Parsing\<close>

definition all_digits :: "string \<Rightarrow> bool" where
  "all_digits s \<longleftrightarrow> s \<noteq> [] \<and> list_all is_ascii_digit s"

text \<open>Host and port as ranges; \<open>abase\<close> is the offset of the authority in the buffer and \<open>aend\<close>
  its end.\<close>

definition host_port_ranges :: "string \<Rightarrow> nat \<Rightarrow> nat \<Rightarrow> range \<times> range" where
  "host_port_ranges authority abase aend =
     (if prefix ''['' authority then
        (case find_char CHR '']'' authority of
           Some e \<Rightarrow>
             ((abase, abase + e + 1),
              (case strip_prefix '':'' (drop (e + 1) authority) of
                 Some p \<Rightarrow> (if all_digits p then (abase + e + 2, abase + e + 2 + length p) else (0, 0))
               | None \<Rightarrow> (0, 0)))
         | None \<Rightarrow> ((abase, aend), (0, 0)))
      else case rfind_char CHR '':'' authority of
        Some i \<Rightarrow>
          (if all_digits (drop (i + 1) authority)
           then ((abase, abase + i), (abase + i + 1, aend))
           else ((abase, aend), (0, 0)))
      | None \<Rightarrow> ((abase, aend), (0, 0)))"

definition scheme_range :: "string \<Rightarrow> range \<times> nat" where
  "scheme_range uri =
     (case find_sub ''://'' uri of Some i \<Rightarrow> ((0, i), i + 3) | None \<Rightarrow> ((0, 0), 0))"

definition authority_ranges :: "string \<Rightarrow> nat \<Rightarrow> range \<times> range" where
  "authority_ranges uri cursor =
     (let rest = drop cursor uri in
      case find_char CHR ''/'' rest of
        Some i \<Rightarrow> ((cursor, cursor + i), (cursor + i, length uri))
      | None \<Rightarrow> (case find_char CHR ''?'' rest of
          Some i \<Rightarrow> ((cursor, cursor + i), (cursor + i, length uri))
        | None \<Rightarrow> ((cursor, length uri), (length uri, length uri))))"

definition path_query_ranges :: "string \<Rightarrow> range \<Rightarrow> range \<times> range" where
  "path_query_ranges uri pq =
     (case find_char CHR ''?'' (slice uri pq) of
        Some i \<Rightarrow> ((fst pq, fst pq + i), (fst pq + i + 1, snd pq))
      | None \<Rightarrow> (pq, (0, 0)))"

definition parse_uri :: "string \<Rightarrow> uri_components result" where
  "parse_uri uri =
     rbind (ensure_ascii uri) (\<lambda>_.
       if CHR ''#'' \<in> set uri then Inl fragment_error
       else
         let (scheme, cursor) = scheme_range uri;
             (authority_range, pq_range) = authority_ranges uri cursor;
             authority = slice uri authority_range
         in if CHR ''@'' \<in> set authority then Inl userinfo_error
            else
              let (host, port) = host_port_ranges authority (fst authority_range) (snd authority_range);
                  (path, query) = path_query_ranges uri pq_range
              in Inr \<lparr>uc_raw = uri, uc_scheme = scheme, uc_host = host, uc_port = port,
                      uc_path = path, uc_query = query\<rparr>)"

definition decompose_uri :: "string \<Rightarrow> uri_components result" where
  "decompose_uri uri = rbind (normalize_uri uri) parse_uri"

end
