(* ===== verification/Uri_Lemmas.thy ===== *)
theory Uri_Lemmas
  imports Uri
begin

text \<open>
  Lemmas on the URI normaliser and parser of \<open>Uri\<close>: percent normalisation as a normal form, the
  removal of dot segments, the validity of the component ranges, and the components of a plain URI.
\<close>

section \<open>Percent normalisation\<close>

lemma hex_val_less: "hex_val c = Some n \<Longrightarrow> n < 16"
  by (auto simp: hex_val_def split: if_splits)

lemma hex_val_to_upper_hex [simp]: "n < 16 \<Longrightarrow> hex_val (to_upper_hex n) = Some n"
  by (auto simp: hex_val_def to_upper_hex_def)

lemma to_upper_hex_alnum: "n < 16 \<Longrightarrow> is_ascii_digit (to_upper_hex n) \<or> is_ascii_upper (to_upper_hex n)"
  by (auto simp: to_upper_hex_def ascii_defs)

lemma unreserved_not_pct [simp]: "\<not> is_unreserved CHR ''%''"
  by (simp add: is_unreserved_def ascii_defs)

lemma pct_escape_SomeD:
  "pct_escape (c # s) = Some (hi, lo) \<Longrightarrow>
     \<exists>x y r. s = x # y # r \<and> hex_val x = Some hi \<and> hex_val y = Some lo \<and> hi < 16 \<and> lo < 16"
  by (induction "c # s" rule: pct_escape.induct)
     (auto split: if_splits option.splits dest: hex_val_less)

text \<open>Every percent sign starts an upper-case escape of a character that is not unreserved.\<close>

fun pct_normal :: "string \<Rightarrow> bool" where
  "pct_normal [] = True"
| "pct_normal (c # s) =
     (if c = CHR ''%'' then
        (case s of
           x # y # r \<Rightarrow>
             (case (hex_val x, hex_val y) of
                (Some hi, Some lo) \<Rightarrow>
                  \<not> is_unreserved (char_of (16 * hi + lo)) \<and>
                  x = to_upper_hex hi \<and> y = to_upper_hex lo
              | _ \<Rightarrow> False) \<and> pct_normal (drop 2 s)
         | _ \<Rightarrow> False)
      else pct_normal s)"

lemma pct_consts [simp]:
  "\<not> is_unreserved (char_of (37 :: nat))" "hex_val CHR ''2'' = Some 2" "hex_val CHR ''5'' = Some 5"
  "to_upper_hex 2 = CHR ''2''" "to_upper_hex 5 = CHR ''5''"
  by code_simp+

lemma pct_normal_normalize: "pct_normal (normalize_percent_encoding s)"
proof (induction s rule: normalize_percent_encoding.induct)
  case 1
  then show ?case by simp
next
  case (2 c s)
  show ?case
  proof (cases "c = CHR ''%''")
    case False
    with 2 show ?thesis by simp
  next
    case pct: True
    show ?thesis
    proof (cases "pct_escape (c # s)")
      case None
      then show ?thesis using 2(1)[OF pct None] pct by simp
    next
      case (Some r)
      obtain hi lo where r: "r = (hi, lo)" by (cases r)
      with Some have "hi < 16" "lo < 16" using pct_escape_SomeD by blast+
      then show ?thesis
        using 2(2)[OF pct Some r[symmetric]] 2(3)[OF pct Some r[symmetric]] pct Some r
        by (auto simp del: pct_escape.simps)
    qed
  qed
qed

lemma pct_normal_fixed: "pct_normal s \<Longrightarrow> normalize_percent_encoding s = s"
proof (induction s rule: pct_normal.induct)
  case 1
  then show ?case by simp
next
  case (2 c s)
  show ?case
  proof (cases "c = CHR ''%''")
    case False
    with 2 show ?thesis by simp
  next
    case True
    then show ?thesis using 2
      by (auto split: list.splits option.splits)
  qed
qed

text \<open>What the output is made of.\<close>

lemma set_normalize_percent_encoding:
  "set (normalize_percent_encoding s) \<subseteq>
     {c \<in> set s. c \<noteq> CHR ''%''} \<union> {c. c = CHR ''%'' \<or> is_unreserved c}"
proof (induction s rule: normalize_percent_encoding.induct)
  case 1
  then show ?case by simp
next
  case (2 c s)
  have hex: "is_unreserved (to_upper_hex n)" if "n < 16" for n
    using to_upper_hex_alnum[OF that] by (auto simp: is_unreserved_def is_ascii_alnum_def)
  have unr: "is_unreserved CHR ''2''" "is_unreserved CHR ''5''" by code_simp+
  show ?case
  proof (cases "c = CHR ''%''")
    case False
    with 2 show ?thesis by auto
  next
    case pct: True
    show ?thesis
    proof (cases "pct_escape (c # s)")
      case None
      then show ?thesis using 2(1)[OF pct None] pct unr by auto
    next
      case (Some r)
      obtain hi lo where r: "r = (hi, lo)" by (cases r)
      with Some have "hi < 16" "lo < 16" using pct_escape_SomeD by blast+
      moreover have "set (drop 2 s) \<subseteq> set s" by (rule set_drop_subset)
      ultimately show ?thesis
        using 2(2)[OF pct Some r[symmetric]] 2(3)[OF pct Some r[symmetric]] pct Some r hex
        by (cases "is_unreserved (char_of (16 * hi + lo))") (auto simp del: pct_escape.simps)
    qed
  qed
qed

lemma unreserved_ascii: "is_unreserved c \<Longrightarrow> is_ascii_char c"
  by (auto simp: is_unreserved_def ascii_defs)

lemma unreserved_not_special [simp]:
  "\<not> is_unreserved CHR ''?''" "\<not> is_unreserved CHR ''#''" "\<not> is_unreserved CHR ''/''"
  "\<not> is_unreserved CHR ''@''" "\<not> is_unreserved CHR '':''"
  by code_simp+

lemma normalize_percent_encoding_ascii:
  "list_all is_ascii_char s \<Longrightarrow> list_all is_ascii_char (normalize_percent_encoding s)"
  using set_normalize_percent_encoding[of s] unreserved_ascii
  by (fastforce simp: list_all_iff is_ascii_char_def)

lemma normalize_percent_encoding_no:
  "c \<notin> set s \<Longrightarrow> \<not> is_unreserved c \<Longrightarrow> c \<noteq> CHR ''%'' \<Longrightarrow> c \<notin> set (normalize_percent_encoding s)"
  using set_normalize_percent_encoding[of s] by auto

section \<open>Dot segments\<close>

definition dot_free :: "string list \<Rightarrow> bool" where
  "dot_free segs \<longleftrightarrow> ''.'' \<notin> set segs \<and> ''..'' \<notin> set segs"

lemma split_on_append_sep: "split_on a (p @ a # q) = split_on a p @ split_on a q"
proof (induction p)
  case (Cons x p)
  then show ?case by (cases "split_on a p") auto
qed simp

lemma split_on_snoc: "split_on a (xs @ [a]) = split_on a xs @ [[]]"
  by (simp add: split_on_append_sep)

lemma split_on_last_piece: "a \<notin> set q \<Longrightarrow> q \<in> set (split_on a (p @ a # q))"
  by (simp add: split_on_append_sep split_on_no_sep)

lemma dot_stack_dot_free: "dot_free outs \<Longrightarrow> dot_free (dot_stack outs segs)"
proof (induction outs segs rule: dot_stack.induct)
  case (2 outs seg segs)
  have "dot_free (butlast outs)" using "2.prems" by (auto simp: dot_free_def dest: in_set_butlastD)
  with 2 show ?case by (auto simp: dot_free_def)
qed simp

lemma dot_stack_subset: "set (dot_stack outs segs) \<subseteq> set outs \<union> set segs"
proof (induction outs segs rule: dot_stack.induct)
  case (2 outs seg segs)
  then show ?case by (auto dest: in_set_butlastD)
qed simp

lemma dot_stack_fixed: "dot_free segs \<Longrightarrow> dot_stack outs segs = outs @ segs"
  by (induction segs arbitrary: outs) (auto simp: dot_free_def)

lemma split_remove_dot_segments:
  "dot_free (split_on CHR ''/'' (remove_dot_segments path))"
proof -
  let ?out = "dot_stack [] (split_on CHR ''/'' path)"
  let ?r0 = "join_with ''/'' ?out"
  let ?r1 = "if \<not> starts_with_slash ?r0 \<and> starts_with_slash path then CHR ''/'' # ?r0 else ?r0"
  have out: "dot_free ?out" by (rule dot_stack_dot_free) (simp add: dot_free_def)
  have pieces: "CHR ''/'' \<notin> set x" if "x \<in> set ?out" for x
    using that dot_stack_subset[of "[]" "split_on CHR ''/'' path"] split_on_pieces by fastforce
  have r0: "dot_free (split_on CHR ''/'' ?r0)"
  proof (cases "?out = []")
    case True
    then show ?thesis by (simp add: dot_free_def)
  next
    case False
    then show ?thesis using out pieces by (simp add: split_on_join)
  qed
  then have "dot_free (split_on CHR ''/'' ?r1)" by (auto simp: dot_free_def)
  then show ?thesis
    by (auto simp: remove_dot_segments_def Let_def split_on_snoc dot_free_def)
qed

lemma remove_dot_segments_dot_free:
  assumes "dot_free (split_on CHR ''/'' path)"
  shows "remove_dot_segments path = path"
proof -
  have "dot_stack [] (split_on CHR ''/'' path) = split_on CHR ''/'' path"
    using dot_stack_fixed[OF assms, of "[]"] by simp
  moreover have "\<not> suffix ''/.'' path"
  proof
    assume "suffix ''/.'' path"
    then obtain p where "path = p @ ''/.''" by (auto simp: suffix_def)
    then have "''.'' \<in> set (split_on CHR ''/'' path)"
      using split_on_last_piece[of "CHR ''/''" "''.''" p] by simp
    with assms show False by (simp add: dot_free_def)
  qed
  moreover have "\<not> suffix ''/..'' path"
  proof
    assume "suffix ''/..'' path"
    then obtain p where "path = p @ ''/..''" by (auto simp: suffix_def)
    then have "''..'' \<in> set (split_on CHR ''/'' path)"
      using split_on_last_piece[of "CHR ''/''" "''..''" p] by simp
    with assms show False by (simp add: dot_free_def)
  qed
  ultimately show ?thesis
    by (simp add: remove_dot_segments_def join_split_on)
qed

lemma remove_dot_segments_idem:
  "remove_dot_segments (remove_dot_segments path) = remove_dot_segments path"
  by (rule remove_dot_segments_dot_free) (rule split_remove_dot_segments)

lemma remove_dot_segments_slash:
  assumes "starts_with_slash path"
  shows "starts_with_slash (remove_dot_segments path)"
proof -
  let ?r0 = "join_with ''/'' (dot_stack [] (split_on CHR ''/'' path))"
  have "starts_with_slash (if \<not> starts_with_slash ?r0 \<and> starts_with_slash path then CHR ''/'' # ?r0 else ?r0)"
    using assms by (simp add: starts_with_slash_def)
  then show ?thesis
    by (auto simp: remove_dot_segments_def Let_def starts_with_slash_def)
qed

lemma set_remove_dot_segments: "set (remove_dot_segments path) \<subseteq> insert CHR ''/'' (set path)"
proof -
  let ?out = "dot_stack [] (split_on CHR ''/'' path)"
  have "set x \<subseteq> set path" if "x \<in> set ?out" for x
    using that dot_stack_subset[of "[]" "split_on CHR ''/'' path"] set_split_on by fastforce
  then have "set (join_with ''/'' ?out) \<subseteq> insert CHR ''/'' (set path)"
    using set_join_with[of "''/''" ?out] by auto
  then show ?thesis by (auto simp: remove_dot_segments_def Let_def)
qed

section \<open>Ranges\<close>

definition ranges_valid :: "uri_components \<Rightarrow> bool" where
  "ranges_valid u \<longleftrightarrow>
     in_range (uc_raw u) (uc_scheme u) \<and> in_range (uc_raw u) (uc_host u) \<and>
     in_range (uc_raw u) (uc_port u) \<and> in_range (uc_raw u) (uc_path u) \<and>
     in_range (uc_raw u) (uc_query u)"

lemma length_slice [simp]: "in_range s r \<Longrightarrow> length (slice s r) = snd r - fst r"
  by (auto simp: slice_def in_range_def)

lemma strip_colon_length: "strip_prefix p a = Some q \<Longrightarrow> length a = length p + length q"
  by (auto dest: strip_prefix_SomeD)

lemma host_port_ranges_valid:
  assumes "host_port_ranges a abase aend = (h, p)" and "abase + length a = aend"
  shows "fst h \<le> snd h \<and> snd h \<le> aend \<and> fst p \<le> snd p \<and> snd p \<le> aend"
  using assms
  by (auto simp: host_port_ranges_def split: if_splits option.splits
      dest!: find_char_bound rfind_char_bound strip_colon_length)

lemma scheme_range_valid: "scheme_range uri = (r, k) \<Longrightarrow> in_range uri r \<and> k \<le> length uri"
  using find_sub_bound[of "''://''" uri]
  by (auto simp: scheme_range_def in_range_def split: option.splits)

lemma authority_ranges_valid:
  "authority_ranges uri k = (a, q) \<Longrightarrow> k \<le> length uri \<Longrightarrow>
     in_range uri a \<and> in_range uri q \<and> fst a = k \<and> snd a = fst q \<and> snd q = length uri"
  using find_char_bound[of "CHR ''/''" "drop k uri"] find_char_bound[of "CHR ''?''" "drop k uri"]
  by (auto simp: authority_ranges_def in_range_def Let_def split: option.splits)

lemma path_query_ranges_valid:
  "path_query_ranges uri q = (p, r) \<Longrightarrow> in_range uri q \<Longrightarrow> in_range uri p \<and> in_range uri r"
  using find_char_bound[of "CHR ''?''" "slice uri q"]
  by (auto simp: path_query_ranges_def in_range_def slice_def split: option.splits)

text \<open>The ranges of a parsed URI lie within it, so no accessor slices out of bounds, and the raw text is kept.\<close>

lemma parse_uri_ranges:
  assumes "parse_uri uri = Inr u"
  shows "uc_raw u = uri \<and> ranges_valid u"
proof -
  obtain sc k where sc: "scheme_range uri = (sc, k)" by fastforce
  obtain a q where aq: "authority_ranges uri k = (a, q)" by (rule prod.exhaust)
  obtain h p where hp: "host_port_ranges (slice uri a) (fst a) (snd a) = (h, p)"
    by (rule prod.exhaust)
  obtain pa qu where pq: "path_query_ranges uri q = (pa, qu)" by (rule prod.exhaust)
  have u: "u = \<lparr>uc_raw = uri, uc_scheme = sc, uc_host = h, uc_port = p,
                 uc_path = pa, uc_query = qu\<rparr>"
    using assms by (auto simp: parse_uri_def sc aq hp pq Let_def split: if_splits)
  have v: "in_range uri sc" "in_range uri a" "in_range uri q"
    using scheme_range_valid[OF sc] authority_ranges_valid[OF aq] by auto
  have "fst a + length (slice uri a) = snd a" using v(2) by (simp add: in_range_def)
  from host_port_ranges_valid[OF hp this] v(2) have "in_range uri h" "in_range uri p"
    by (auto simp: in_range_def)
  with v path_query_ranges_valid[OF pq] u show ?thesis by (simp add: ranges_valid_def)
qed

lemma normalize_uri_accepts:
  "normalize_uri uri = Inr n \<Longrightarrow> list_all is_ascii_char uri \<and> CHR ''#'' \<notin> set uri"
  by (auto simp: normalize_uri_def ensure_ascii_def split: if_splits)

lemma parse_uri_accepts:
  "parse_uri uri = Inr u \<Longrightarrow> list_all is_ascii_char uri \<and> CHR ''#'' \<notin> set uri"
  by (auto simp: parse_uri_def ensure_ascii_def split: if_splits)

lemma take_drop_rfind:
  assumes "rfind_char c s = Some i"
  shows "s = take i s @ c # drop (i + 1) s \<and> c \<notin> set (drop (i + 1) s)"
proof -
  obtain j where j: "position_of (\<lambda>x. x = c) (rev s) = Some j" "i = length s - 1 - j"
    using assms by (auto simp: rfind_char_def)
  then have j': "j < length s" "rev s ! j = c" "\<forall>k < j. rev s ! k \<noteq> c"
    by (auto simp: position_of_Some)
  have i: "i < length s" "s ! i = c" using j(2) j'(1,2) by (auto simp: rev_nth)
  have "rev (drop (i + 1) s) = take j (rev s)"
    using j(2) j'(1) by (simp add: rev_drop)
  moreover have "c \<notin> set (take j (rev s))"
    using j' by (auto simp: in_set_conv_nth)
  ultimately have "c \<notin> set (drop (i + 1) s)" by (metis set_rev)
  then show ?thesis using i id_take_nth_drop[of i s] by simp
qed

text \<open>Path, filename, stem and extension recombine.\<close>

lemma parent_filename: "parent_path_str u @ filename_str u = u_path u"
proof (cases "rfind_char CHR ''/'' (u_path u)")
  case None
  then show ?thesis by (simp add: parent_path_str_def filename_str_def)
next
  case (Some i)
  then show ?thesis by (simp add: parent_path_str_def filename_str_def)
qed

lemma filename_no_slash: "CHR ''/'' \<notin> set (filename_str u)"
proof (cases "rfind_char CHR ''/'' (u_path u)")
  case None
  moreover from None have "CHR ''/'' \<notin> set (u_path u)" using rfind_char_None by blast
  ultimately show ?thesis by (simp add: filename_str_def)
next
  case (Some i)
  then show ?thesis using take_drop_rfind[OF Some] by (simp add: filename_str_def)
qed

lemma stem_extension:
  "filename_str u = (if CHR ''.'' \<in> set (filename_str u)
     then stem_str u @ ''.'' @ extension_str u else stem_str u)"
proof (cases "rfind_char CHR ''.'' (filename_str u)")
  case None
  then have "CHR ''.'' \<notin> set (filename_str u)" using rfind_char_None by blast
  with None show ?thesis by (simp add: stem_str_def)
next
  case (Some i)
  then have "CHR ''.'' \<in> set (filename_str u)" using rfind_char_None[of "CHR ''.''" "filename_str u"] by fastforce
  then show ?thesis using take_drop_rfind[OF Some] Some
    by (simp add: stem_str_def extension_str_def)
qed

section \<open>Plain URIs\<close>

definition scheme_char :: "char \<Rightarrow> bool" where
  "scheme_char c \<longleftrightarrow> is_ascii_alnum c"

definition host_char :: "char \<Rightarrow> bool" where
  "host_char c \<longleftrightarrow> is_ascii_alnum c \<or> c = CHR ''-'' \<or> c = CHR ''.''"

definition plain_path :: "string \<Rightarrow> bool" where
  "plain_path p \<longleftrightarrow> starts_with_slash p \<and> list_all is_ascii_char p \<and> CHR ''?'' \<notin> set p \<and> CHR ''#'' \<notin> set p"

definition plain_query :: "string \<Rightarrow> bool" where
  "plain_query q \<longleftrightarrow> list_all is_ascii_char q \<and> CHR ''#'' \<notin> set q"

lemma find_sub_scheme:
  "CHR '':'' \<notin> set s \<Longrightarrow> find_sub ''://'' (s @ ''://'' @ r) = Some (length s)"
  by (induction s) (auto simp: prefix_def)

lemma ascii_lower_special:
  "ascii_lower c = d \<Longrightarrow> \<not> is_ascii_lower d \<Longrightarrow> c = d"
  by (auto simp: ascii_lower_def ascii_defs split: if_splits)

lemma host_char_special [simp]:
  "\<not> host_char CHR '':''" "\<not> host_char CHR ''/''" "\<not> host_char CHR ''@''"
  "\<not> host_char CHR ''#''" "\<not> host_char CHR ''[''" "\<not> host_char CHR ''?''"
  "\<not> scheme_char CHR '':''" "\<not> scheme_char CHR ''#''"
  by code_simp+

lemma host_char_ascii: "host_char c \<Longrightarrow> is_ascii_char c" "scheme_char c \<Longrightarrow> is_ascii_char c"
  by (auto simp: host_char_def scheme_char_def ascii_defs)

lemma host_char_lower: "host_char c \<Longrightarrow> host_char (ascii_lower c)" "scheme_char c \<Longrightarrow> scheme_char (ascii_lower c)"
  by (auto simp: host_char_def scheme_char_def ascii_lower_def ascii_defs)

lemma not_in_class: "list_all P s \<Longrightarrow> \<not> P c \<Longrightarrow> c \<notin> set s"
  by (auto simp: list_all_iff)

lemma no_bracket_prefix: "CHR ''['' \<notin> set h \<Longrightarrow> \<not> prefix ''['' h"
  by (auto simp: prefix_def)

lemma slice_middle [simp]: "slice (a @ b @ c) (length a, length a + length b) = b"
  by (simp add: slice_def)

definition path_norm :: "string \<Rightarrow> string" where
  "path_norm p = normalize_percent_encoding (remove_dot_segments p)"

lemma path_norm_plain:
  assumes "plain_path p"
  shows "plain_path (path_norm p)"
proof -
  let ?r = "remove_dot_segments p"
  have sub: "set ?r \<subseteq> insert CHR ''/'' (set p)" by (rule set_remove_dot_segments)
  have r: "starts_with_slash ?r" "list_all is_ascii_char ?r" "CHR ''?'' \<notin> set ?r" "CHR ''#'' \<notin> set ?r"
    using assms sub remove_dot_segments_slash[of p]
    by (auto simp: plain_path_def list_all_iff is_ascii_char_def)
  then obtain r' where "?r = CHR ''/'' # r'" by (auto simp: starts_with_slash_def prefix_def)
  then have "starts_with_slash (path_norm p)"
    by (simp add: path_norm_def starts_with_slash_def)
  with r show ?thesis
    by (simp add: plain_path_def path_norm_def normalize_percent_encoding_ascii normalize_percent_encoding_no)
qed

definition plain_uri :: "string \<Rightarrow> string \<Rightarrow> string \<Rightarrow> string \<Rightarrow> string" where
  "plain_uri s h p q = s @ ''://'' @ h @ p @ ''?'' @ q"

definition plain_parts :: "string \<Rightarrow> string \<Rightarrow> string \<Rightarrow> string \<Rightarrow> bool" where
  "plain_parts s h p q \<longleftrightarrow>
     list_all scheme_char s \<and> list_all host_char h \<and> plain_path p \<and> plain_query q"

lemma plain_uri_ok:
  assumes "plain_parts s h p q"
  shows "list_all is_ascii_char (plain_uri s h p q)" "CHR ''#'' \<notin> set (plain_uri s h p q)"
proof -
  have "list_all is_ascii_char s" "list_all is_ascii_char h"
    using assms host_char_ascii by (auto simp: plain_parts_def list_all_iff)
  with assms show "list_all is_ascii_char (plain_uri s h p q)"
    by (simp add: plain_parts_def plain_uri_def plain_path_def plain_query_def is_ascii_char_def)
  have "CHR ''#'' \<notin> set s" "CHR ''#'' \<notin> set h"
    using assms by (auto simp: plain_parts_def list_all_iff)
  with assms show "CHR ''#'' \<notin> set (plain_uri s h p q)"
    by (simp add: plain_parts_def plain_uri_def plain_path_def plain_query_def)
qed

lemma host_no_special:
  assumes "list_all host_char h"
  shows "CHR '':'' \<notin> set h" "CHR ''/'' \<notin> set h" "CHR ''@'' \<notin> set h" "CHR ''['' \<notin> set h"
  using assms by (auto simp: list_all_iff)

lemma split_plain_authority:
  assumes "list_all host_char h" "plain_path p"
  shows "split_authority (h @ p @ r) = (h, p @ r)"
proof -
  obtain p' where p: "p = CHR ''/'' # p'" using assms(2) by (auto simp: plain_path_def starts_with_slash_def prefix_def)
  show ?thesis using host_no_special[OF assms(1)] by (simp add: split_authority_def p)
qed

lemma split_plain_host_port:
  assumes "list_all host_char h"
  shows "split_host_port h = (h, [])"
proof -
  have "rfind_char CHR '':'' h = None" using host_no_special[OF assms] by (simp add: rfind_char_None)
  then show ?thesis
    using no_bracket_prefix[OF host_no_special(4)[OF assms]] by (simp add: split_host_port_def)
qed

lemma normalize_plain_uri:
  assumes "plain_parts s h p q"
  shows "normalize_uri (plain_uri s h p q) =
           Inr (plain_uri (map ascii_lower s) (map ascii_lower h) (path_norm p) q)"
proof -
  have parts: "list_all scheme_char s" "list_all host_char h" "plain_path p"
    using assms by (auto simp: plain_parts_def)
  have colon: "CHR '':'' \<notin> set s" using parts(1) by (auto simp: list_all_iff)
  have sub: "find_sub ''://'' (plain_uri s h p q) = Some (length s)"
    unfolding plain_uri_def by (rule find_sub_scheme[OF colon])
  have rest: "drop (length s + 3) (plain_uri s h p q) = h @ p @ (''?'' @ q)"
    "take (length s) (plain_uri s h p q) = s"
    by (simp_all add: plain_uri_def)
  have lower: "lowercase_host h = map ascii_lower h"
    using no_bracket_prefix[OF host_no_special(4)[OF parts(2)]] by (simp add: lowercase_host_def)
  have pq: "split_path_query (p @ ''?'' @ q) = (p, Some (''?'' @ q))" "p \<noteq> []"
    using parts(3) by (auto simp: split_path_query_def plain_path_def starts_with_slash_def)
  show ?thesis
    using plain_uri_ok[OF assms] host_no_special[OF parts(2)]
    by (simp add: normalize_uri_def ensure_ascii_def sub rest split_plain_authority[OF parts(2,3)]
        split_plain_host_port[OF parts(2)] lower pq[simplified] path_norm_def[symmetric]
        del: append.simps append_Cons)
       (simp add: plain_uri_def pq[simplified])
qed

text \<open>The components the accessors return.\<close>

definition u_parts :: "uri_components \<Rightarrow> string \<times> string \<times> string \<times> string \<times> string" where
  "u_parts u = (u_scheme u, u_host u, u_port u, u_path u, u_query u)"

lemma parse_plain_uri:
  assumes "plain_parts s h p q"
  shows "\<exists>u. parse_uri (plain_uri s h p q) = Inr u \<and> u_parts u = (s, h, [], p, q)"
proof -
  have parts: "list_all scheme_char s" "list_all host_char h" "plain_path p"
    using assms by (auto simp: plain_parts_def)
  have colon: "CHR '':'' \<notin> set s" using parts(1) by (auto simp: list_all_iff)
  let ?u = "plain_uri s h p q" let ?k = "length s + 3"
  have sc: "scheme_range ?u = ((0, length s), ?k)"
    using find_sub_scheme[OF colon, of "h @ p @ ''?'' @ q"] by (simp add: scheme_range_def plain_uri_def)
  obtain p' where p': "p = CHR ''/'' # p'"
    using parts(3) by (auto simp: plain_path_def starts_with_slash_def prefix_def)
  have rest: "drop ?k ?u = h @ CHR ''/'' # p' @ ''?'' @ q" by (simp add: plain_uri_def p')
  have ar: "authority_ranges ?u ?k = ((?k, ?k + length h), (?k + length h, length ?u))"
    using host_no_special[OF parts(2)] by (simp add: authority_ranges_def rest)
  have sl: "slice ?u (?k, ?k + length h) = h" "slice ?u (?k + length h, length ?u) = p @ ''?'' @ q"
    "slice ?u (0, length s) = s"
    by (simp_all add: slice_def plain_uri_def p' numeral_3_eq_3)
  have "rfind_char CHR '':'' h = None" using host_no_special[OF parts(2)] by (simp add: rfind_char_None)
  then have hp: "host_port_ranges h ?k (?k + length h) = ((?k, ?k + length h), (0, 0))"
    using no_bracket_prefix[OF host_no_special(4)[OF parts(2)]] by (simp add: host_port_ranges_def)
  have "find_char CHR ''?'' (p @ ''?'' @ q) = Some (length p)"
    using parts(3) by (simp add: plain_path_def)
  then have pq: "path_query_ranges ?u (?k + length h, length ?u) =
      ((?k + length h, ?k + length h + length p), (?k + length h + length p + 1, length ?u))"
    using sl(2) by (simp add: path_query_ranges_def)
  have out: "slice ?u (?k + length h, ?k + length h + length p) = p"
    "slice ?u (?k + length h + length p + 1, length ?u) = q" "slice ?u (0, 0) = []"
    by (simp_all add: slice_def plain_uri_def eval_nat_numeral)
  have "parse_uri ?u = Inr \<lparr>uc_raw = ?u, uc_scheme = (0, length s), uc_host = (?k, ?k + length h),
      uc_port = (0, 0), uc_path = (?k + length h, ?k + length h + length p),
      uc_query = (?k + length h + length p + 1, length ?u)\<rparr>"
    using plain_uri_ok[OF assms] host_no_special[OF parts(2)]
    by (simp only: parse_uri_def ensure_ascii_def sc ar sl hp pq Let_def prod.case fst_conv snd_conv
        rbind_Inr if_True if_False simp_thms)
  then show ?thesis
    using sl out by (simp add: u_parts_def u_scheme_def u_host_def u_port_def u_path_def u_query_def)
qed

text \<open>Decomposing a plain URI gives its lower-cased scheme and host, its normalised path and its query.\<close>

lemma decompose_plain_uri:
  assumes "plain_parts s h p q"
  shows "\<exists>u. decompose_uri (plain_uri s h p q) = Inr u \<and>
           u_parts u = (map ascii_lower s, map ascii_lower h, [], path_norm p, q)"
proof -
  have "plain_parts (map ascii_lower s) (map ascii_lower h) (path_norm p) q"
    using assms host_char_lower path_norm_plain[of p]
    by (auto simp: plain_parts_def list_all_iff)
  from parse_plain_uri[OF this] show ?thesis
    by (simp add: decompose_uri_def normalize_plain_uri[OF assms])
qed

section \<open>Properties\<close>

text \<open>Normalising twice may differ from normalising once: dot segments are removed before percent escapes are
  decoded, so an escaped parent segment survives the first pass and takes effect in the second.\<close>

lemma normalization_not_idempotent:
  "normalize_uri ''http://h/a/%2E%2E/b'' = Inr ''http://h/a/../b'' \<and>
   normalize_uri ''http://h/a/../b'' = Inr ''http://h/b''"
  by code_simp

end
