(* ===== verification/Token_Rules.thy ===== *)
theory Token_Rules
  imports Cat_Token Uri_Lemmas Formats
begin

text \<open>
  The request-side enforcement of \<open>src/src/token.rs\<close>: methods, match values, headers, URI rules,
  network identifiers, geography, probability of rejection, and the removal of token parameters
  from a URI.

  The regex engine and the digests are fields of \<open>match_env\<close> (the process-wide regex cache only
  saves compilations), the great-circle distance and the random draw are arguments, and the block
  list is a membership test (\<open>Por_Block_List\<close> supplies it); a refused draw returns the identifier to
  add to it.
\<close>

section \<open>Methods and match values\<close>

definition validate_method :: "cat_token \<Rightarrow> string \<Rightarrow> unit result" where
  "validate_method t method =
     (case catm (t_cat t) of
        Some methods \<Rightarrow>
          (if \<not> list_ex (\<lambda>m. m = method) methods then Inl (InvalidClaimValue ''Method not allowed: '')
           else Inr ())
      | None \<Rightarrow> Inr ())"

record match_env =
  env_regex :: "string \<Rightarrow> (string \<Rightarrow> bool) option"
  env_sha256 :: "string \<Rightarrow> bytes"
  env_sha512_256 :: "string \<Rightarrow> bytes"

definition max_regex_input_len :: nat where
  "max_regex_input_len = 4096"

fun apply_match_value :: "match_env \<Rightarrow> match_value \<Rightarrow> string \<Rightarrow> bool" where
  "apply_match_value env (MvExact s) x = (x = s)"
| "apply_match_value env (MvPrefix s) x = prefix s x"
| "apply_match_value env (MvSuffix s) x = suffix s x"
| "apply_match_value env (MvContains s) x = sublist s x"
| "apply_match_value env (MvRegex p) x =
     (if length x > max_regex_input_len then False
      else case env_regex env p of Some re \<Rightarrow> re x | None \<Rightarrow> False)"
| "apply_match_value env (MvSha256 h) x = (env_sha256 env x = h)"
| "apply_match_value env (MvSha512_256 h) x = (env_sha512_256 env x = h)"

section \<open>Headers\<close>

definition is_hws :: "char \<Rightarrow> bool" where
  "is_hws c \<longleftrightarrow> c = CHR '' '' \<or> c = CHR 0x09"

definition is_cr :: "char \<Rightarrow> bool" where "is_cr c \<longleftrightarrow> c = CHR 0x0D"
definition is_lf :: "char \<Rightarrow> bool" where "is_lf c \<longleftrightarrow> c = CHR 0x0A"

text \<open>One pass: a CR LF followed by white space becomes one space and the white space is skipped.\<close>

function unfold_header_value :: "string \<Rightarrow> string" where
  "unfold_header_value (a # b # c # rest) =
     (if is_cr a \<and> is_lf b \<and> is_hws c then CHR '' '' # unfold_header_value (dropWhile is_hws rest)
      else a # unfold_header_value (b # c # rest))"
| "unfold_header_value [a, b] = [a, b]"
| "unfold_header_value [a] = [a]"
| "unfold_header_value [] = []"
  by pat_completeness auto
termination
  by (relation "measure length") (auto simp: le_imp_less_Suc length_dropWhile_le le_SucI)

fun has_fold :: "string \<Rightarrow> bool" where
  "has_fold (a # b # c # rest) = (is_cr a \<and> is_lf b \<and> is_hws c \<or> has_fold (b # c # rest))"
| "has_fold _ = False"

definition check_header_rule ::
  "match_env \<Rightarrow> (string \<times> string) list \<Rightarrow> header_match_rule \<Rightarrow> unit result" where
  "check_header_rule env headers rule =
     (case find (\<lambda>(name, _). eq_ignore_ascii_case (hr_name rule) name) headers of
        Some (_, v) \<Rightarrow>
          (if \<not> list_ex (\<lambda>mv. apply_match_value env mv (unfold_header_value v)) (hr_matches rule)
           then Inl (InvalidClaimValue ''Header '') else Inr ())
      | None \<Rightarrow> Inl (InvalidClaimValue ''Required header ''))"

definition validate_all_headers ::
  "match_env \<Rightarrow> cat_token \<Rightarrow> (string \<times> string) list \<Rightarrow> unit result" where
  "validate_all_headers env t headers =
     (case cath (t_cat t) of
        Some rules \<Rightarrow> for_each (check_header_rule env headers) rules
      | None \<Rightarrow> Inr ())"

lemma unfold_fixed: "\<not> has_fold s \<Longrightarrow> unfold_header_value s = s"
  by (induction s rule: unfold_header_value.induct) auto

lemma no_cr_no_fold: "CHR 0x0D \<notin> set s \<Longrightarrow> \<not> has_fold s"
  by (induction s rule: has_fold.induct) (auto simp: is_cr_def)

lemma unfold_no_cr: "CHR 0x0D \<notin> set s \<Longrightarrow> unfold_header_value s = s"
  by (intro unfold_fixed no_cr_no_fold)

lemma find_Some_first:
  "find P xs = Some x \<longleftrightarrow> (\<exists>ys zs. xs = ys @ x # zs \<and> P x \<and> (\<forall>y \<in> set ys. \<not> P y))"
proof (induction xs)
  case (Cons a xs)
  show ?case
  proof (cases "P a")
    case True
    then show ?thesis by (auto simp: Cons_eq_append_conv)
  next
    case False
    then have "find P (a # xs) = find P xs" by simp
    with False show ?thesis
      unfolding Cons.IH \<open>find P (a # xs) = find P xs\<close>
      by (auto simp: Cons_eq_append_conv) (metis set_ConsD)+
  qed
qed simp

section \<open>URI rules\<close>

definition check_uri_rule :: "match_env \<Rightarrow> uri_components \<Rightarrow> uri_match_rule \<Rightarrow> unit result" where
  "check_uri_rule env u rule =
     (if \<not> list_ex (\<lambda>mv. apply_match_value env mv (u_component u (ur_component rule))) (ur_matches rule)
      then Inl (InvalidClaimValue ''catu: URI component '') else Inr ())"

definition enforce_catu :: "match_env \<Rightarrow> cat_token \<Rightarrow> string \<Rightarrow> unit result" where
  "enforce_catu env t request_uri =
     (case catu (t_cat t) of
        None \<Rightarrow> Inr ()
      | Some rules \<Rightarrow> rbind (decompose_uri request_uri) (\<lambda>u. for_each (check_uri_rule env u) rules))"

text \<open>The URI rules pass exactly when the request URI decomposes and every rule has a match value that its component
  satisfies.\<close>

lemma enforce_catu_ok:
  "enforce_catu env t uri = Inr () \<longleftrightarrow>
     (\<forall>rules. catu (t_cat t) = Some rules \<longrightarrow>
        (\<exists>u. decompose_uri uri = Inr u \<and>
          (\<forall>r \<in> set rules. \<exists>mv \<in> set (ur_matches r).
             apply_match_value env mv (u_component u (ur_component r)))))"
  by (cases "catu (t_cat t)") (auto simp: enforce_catu_def check_uri_rule_def list_ex_iff split: if_splits)

section \<open>Network identifiers\<close>

definition nip_matches_peer :: "ip_addr option \<Rightarrow> u32 option \<Rightarrow> network_identifier \<Rightarrow> bool" where
  "nip_matches_peer ip asn n =
     (if (case ip of Some a \<Rightarrow> matches_ip n a | None \<Rightarrow> False) then True
      else if (case asn of Some a \<Rightarrow> matches_asn n a | None \<Rightarrow> False) then True
      else False)"

definition enforce_catnip :: "cat_token \<Rightarrow> ip_addr option \<Rightarrow> u32 option \<Rightarrow> unit result" where
  "enforce_catnip t ip asn =
     (case catnip (t_cat t) of
        None \<Rightarrow> Inr ()
      | Some nips \<Rightarrow>
          (if nips = [] then Inr ()
           else if list_ex is_ip_based nips \<and> ip = None then Inl (MissingRelayContext ''catnip'' ''peer_ip'')
           else if list_ex is_asn_based nips \<and> asn = None then Inl (MissingRelayContext ''catnip'' ''peer_asn'')
           else if \<not> list_ex (nip_matches_peer ip asn) nips
             then Inl (InvalidClaimValue ''catnip: peer network identifier does not match any token identifier'')
           else Inr ()))"

lemma nip_matches_peer_iff:
  "nip_matches_peer ip asn n \<longleftrightarrow>
     (\<exists>a. ip = Some a \<and> matches_ip n a) \<or> (\<exists>a. asn = Some a \<and> matches_asn n a)"
  by (auto simp: nip_matches_peer_def split: option.splits)

text \<open>The network rules pass exactly when some identifier matches the peer, an address being required for address
  rules and an AS number for AS rules.\<close>

lemma enforce_catnip_ok:
  assumes "catnip (t_cat t) = Some nips" "nips \<noteq> []"
  shows "enforce_catnip t ip asn = Inr () \<longleftrightarrow>
     ((\<exists>n \<in> set nips. is_ip_based n) \<longrightarrow> ip \<noteq> None) \<and>
     ((\<exists>n \<in> set nips. is_asn_based n) \<longrightarrow> asn \<noteq> None) \<and>
     (\<exists>n \<in> set nips. (\<exists>a. ip = Some a \<and> matches_ip n a) \<or> (\<exists>a. asn = Some a \<and> matches_asn n a))"
  using assms
  by (simp add: enforce_catnip_def list_ex_iff flip: nip_matches_peer_iff)

section \<open>Geography\<close>

record request_location =
  loc_latitude :: "f64 option"
  loc_longitude :: "f64 option"
  loc_country_code :: "string option"
  loc_subdivision_code :: "string option"
  loc_geohash :: "string option"
  loc_ip_address :: "ip_addr option"

definition nonempty_opt :: "'a list option \<Rightarrow> bool" where
  "nonempty_opt m = (case m of Some xs \<Rightarrow> xs \<noteq> [] | None \<Rightarrow> False)"

definition iso_code_matches :: "string \<Rightarrow> string option \<Rightarrow> string \<Rightarrow> bool" where
  "iso_code_matches country subdivision code =
     (case split_once CHR ''-'' code of
        Some (c, sub) \<Rightarrow>
          eq_ignore_ascii_case c country \<and>
          (case subdivision of Some s \<Rightarrow> eq_ignore_ascii_case s sub | None \<Rightarrow> False)
      | None \<Rightarrow> eq_ignore_ascii_case code country)"

definition f64_le :: "f64 \<Rightarrow> f64 \<Rightarrow> bool" where
  "f64_le x y \<longleftrightarrow> x \<noteq> NaN \<and> y \<noteq> NaN \<and> \<not> f64_lt y x"

definition u32_as_f64 :: "u32 \<Rightarrow> f64" where
  "u32_as_f64 n = Fin (of_nat (unat n))"

definition geo_iso :: "request_location \<Rightarrow> string list \<Rightarrow> unit result" where
  "geo_iso loc codes =
     rbind (ok_or (loc_country_code loc) (MissingRelayContext ''catgeoiso3166'' ''peer_location.country_code''))
       (\<lambda>country.
          if \<not> list_ex (iso_code_matches country (loc_subdivision_code loc)) codes
          then Inl (GeographicValidationFailed ''peer country/subdivision does not match catgeoiso3166'')
          else Inr ())"

definition geo_coord ::
  "(f64 \<Rightarrow> f64 \<Rightarrow> f64 \<Rightarrow> f64 \<Rightarrow> f64) \<Rightarrow> request_location \<Rightarrow> geo_coordinate list \<Rightarrow> unit result" where
  "geo_coord haversine loc zones =
     rbind (ok_or (loc_latitude loc) (MissingRelayContext ''catgeocoord'' ''peer_location.latitude''))
       (\<lambda>lat. rbind (ok_or (loc_longitude loc) (MissingRelayContext ''catgeocoord'' ''peer_location.longitude''))
         (\<lambda>lon.
            if \<not> list_ex (\<lambda>z. f64_le (haversine (geo_lat z) (geo_lon z) lat lon) (u32_as_f64 (geo_radius z))) zones
            then Inl (GeographicValidationFailed ''peer coordinates outside every catgeocoord zone'')
            else Inr ()))"

definition geo_hash :: "request_location \<Rightarrow> string list \<Rightarrow> unit result" where
  "geo_hash loc hashes =
     rbind (ok_or (loc_geohash loc) (MissingRelayContext ''geohash'' ''peer_location.geohash''))
       (\<lambda>peer.
          if \<not> list_ex (\<lambda>h. prefix h peer) hashes
          then Inl (GeographicValidationFailed ''peer geohash does not match any catgeo geohash'')
          else Inr ())"

definition enforce_geo ::
  "(f64 \<Rightarrow> f64 \<Rightarrow> f64 \<Rightarrow> f64 \<Rightarrow> f64) \<Rightarrow> cat_token \<Rightarrow> request_location option \<Rightarrow> unit result" where
  "enforce_geo haversine t peer_location =
     (let has_iso = nonempty_opt (catgeoiso3166 (t_cat t));
          has_coord = nonempty_opt (catgeocoord (t_cat t));
          has_geohash = nonempty_opt (geohash (t_cat t))
      in if \<not> has_iso \<and> \<not> has_coord \<and> \<not> has_geohash then Inr ()
         else rbind (ok_or peer_location (MissingRelayContext ''catgeo*'' ''peer_location'')) (\<lambda>loc.
           rbind (if has_iso then geo_iso loc (the (catgeoiso3166 (t_cat t))) else Inr ()) (\<lambda>_.
           rbind (if has_coord then geo_coord haversine loc (the (catgeocoord (t_cat t))) else Inr ()) (\<lambda>_.
           if has_geohash then geo_hash loc (the (geohash (t_cat t))) else Inr ()))))"

lemma nonempty_opt_Some: "nonempty_opt m \<longleftrightarrow> (\<exists>x xs. m = Some (x # xs))"
  by (cases m) (auto simp: nonempty_opt_def neq_Nil_conv)

lemma enforce_geo_no_location:
  "enforce_geo h t None = Inr () \<longleftrightarrow>
     \<not> nonempty_opt (catgeoiso3166 (t_cat t)) \<and> \<not> nonempty_opt (catgeocoord (t_cat t)) \<and>
     \<not> nonempty_opt (geohash (t_cat t))"
  by (simp add: enforce_geo_def Let_def)

section \<open>Probability of rejection\<close>

text \<open>The block list is the membership test \<open>is_blocked\<close> (with the expiry applied); \<open>draw\<close> is the
  random number in the unit interval or the failure of the generator. The first component of the
  result is the identifier the code adds to the list.\<close>

definition enforce_catpor ::
  "(bytes \<Rightarrow> bool) \<Rightarrow> f64 result \<Rightarrow> cat_token \<Rightarrow> (bytes \<times> int option) option \<times> unit result" where
  "enforce_catpor is_blocked draw t =
     (case catpor (t_cat t) of
        None \<Rightarrow> (None, Inr ())
      | Some p \<Rightarrow>
          (if is_blocked (por_id p) then (None, Inl RejectedByProbability)
           else case draw of
             Inl e \<Rightarrow> (None, Inl e)
           | Inr r \<Rightarrow>
               (if f64_lt r (por_probability p)
                then (Some (por_id p, por_expiration p), Inl RejectedByProbability)
                else (None, Inr ()))))"

section \<open>Token parameters of a URI\<close>

text \<open>\<open>u8::from_str_radix\<close> on two characters, which takes a leading plus sign.\<close>

definition radix16_pair :: "char \<Rightarrow> char \<Rightarrow> nat option" where
  "radix16_pair x y =
     (if x = CHR ''+'' then hex_val y
      else case (hex_val x, hex_val y) of (Some hi, Some lo) \<Rightarrow> Some (16 * hi + lo) | _ \<Rightarrow> None)"

fun percent_decode_bytes :: "string \<Rightarrow> string" where
  "percent_decode_bytes (p # x # y # rest) =
     (if p = CHR ''%'' then
        (case radix16_pair x y of
           Some n \<Rightarrow> char_of n # percent_decode_bytes rest
         | None \<Rightarrow> p # percent_decode_bytes (x # y # rest))
      else p # percent_decode_bytes (x # y # rest))"
| "percent_decode_bytes s = s"

definition percent_decode :: "string \<Rightarrow> string" where
  "percent_decode s = (let r = percent_decode_bytes s in if utf8_valid r then r else s)"

definition param_key :: "string \<Rightarrow> string" where
  "param_key p = takeWhile (\<lambda>c. c \<noteq> CHR ''='') p"

definition strip_token_from_uri :: "string list \<Rightarrow> string \<Rightarrow> string" where
  "strip_token_from_uri param_names uri =
     (case split_once CHR ''?'' uri of
        Some (base, query) \<Rightarrow>
          (let filtered = filter (\<lambda>p. percent_decode (param_key p) \<notin> set param_names) (split_on CHR ''&'' query)
           in if filtered = [] then base else base @ ''?'' @ join_with ''&'' filtered)
      | None \<Rightarrow> uri)"

text \<open>The query parameters of a URI.\<close>

definition query_params :: "string \<Rightarrow> string list" where
  "query_params uri = (case split_once CHR ''?'' uri of Some (_, q) \<Rightarrow> split_on CHR ''&'' q | None \<Rightarrow> [])"

text \<open>Stripping token parameters removes exactly the query parameters whose decoded name is listed and keeps the
  others in order.\<close>

lemma strip_params:
  "query_params (strip_token_from_uri names uri) =
     filter (\<lambda>p. percent_decode (param_key p) \<notin> set names) (query_params uri)"
proof (cases "split_once CHR ''?'' uri")
  case None
  then show ?thesis by (simp add: strip_token_from_uri_def query_params_def del: split_once_None)
next
  case (Some r)
  obtain b q where r: "r = (b, q)" by (cases r)
  then have b: "CHR ''?'' \<notin> set b" using Some split_once_SomeD by fastforce
  let ?f = "filter (\<lambda>p. percent_decode (param_key p) \<notin> set names) (split_on CHR ''&'' q)"
  show ?thesis
  proof (cases "?f = []")
    case True
    have "split_once CHR ''?'' b = None" using b by simp
    then show ?thesis using Some r True
      by (simp add: strip_token_from_uri_def query_params_def del: split_once_None)
  next
    case False
    have "CHR ''&'' \<notin> set x" if "x \<in> set ?f" for x using that split_on_pieces by fastforce
    then have "split_on CHR ''&'' (join_with ''&'' ?f) = ?f"
      using False by (intro split_on_join) auto
    then show ?thesis using Some r False b
      by (simp add: strip_token_from_uri_def query_params_def Let_def)
  qed
qed

end
