(* ===== verification/Dpop_Jwt.thy ===== *)
theory Dpop_Jwt
  imports Dpop_Cwt
begin

text \<open>
  The JWT wire form of a DPoP proof (\<open>mod jwt\<close> of \<open>src/src/dpop.rs\<close>), and the dispatch between the
  two wire forms: signing input, encoding and decoding.

  \<open>serde_json\<close> is a parameter: writing a value, reading one, and visiting the keys of the top-level
  object. A JSON object is a finite map from member names, as \<open>serde_json::Map\<close> is.
\<close>

section \<open>JSON values\<close>

datatype json =
    JNull
  | JBool bool
  | JInt int
  | JFloat f64
  | JStr string
  | JArr "json list"
  | JObj "string \<Rightarrow> json option"

fun as_str :: "json \<Rightarrow> string option" where
  "as_str (JStr s) = Some s"
| "as_str _ = None"

fun as_i64 :: "json \<Rightarrow> int option" where
  "as_i64 (JInt i) = (if in_i64 i then Some i else None)"
| "as_i64 _ = None"

fun as_object :: "json \<Rightarrow> (string \<Rightarrow> json option) option" where
  "as_object (JObj m) = Some m"
| "as_object _ = None"

record jwt_env = codec_env +
  je_write :: "json \<Rightarrow> bytes result"
  je_read :: "bytes \<Rightarrow> json result"
  je_keys :: "bytes \<Rightarrow> string list result"

definition jwt_laws :: "jwt_env \<Rightarrow> bool" where
  "jwt_laws E \<longleftrightarrow>
     codec_laws (codec_env.truncate E) \<and> b64url_codec (ce_b64 E) (ce_b64d E) \<and>
     (\<forall>m b. je_write E (JObj m) = Inr b \<longrightarrow>
        je_read E b = Inr (JObj m) \<and> (\<exists>ks. je_keys E b = Inr ks \<and> distinct ks))"

definition get_str :: "string \<Rightarrow> (string \<Rightarrow> json option) \<Rightarrow> string option" where
  "get_str k m = Option.bind (m k) as_str"

definition opt_member :: "string \<Rightarrow> string option \<Rightarrow> (string \<Rightarrow> json option) \<Rightarrow> (string \<Rightarrow> json option)" where
  "opt_member k v m = (case v of Some s \<Rightarrow> m(k \<mapsto> JStr s) | None \<Rightarrow> m)"

text \<open>The loop over the keys stops at the first repeated one.\<close>

fun check_unique :: "string set \<Rightarrow> string list \<Rightarrow> unit result" where
  "check_unique seen [] = Inr ()"
| "check_unique seen (k # ks) =
     (if k \<in> seen then Inl (InvalidClaimValue ''duplicate JSON key: '') else check_unique (insert k seen) ks)"

definition reject_duplicate_top_level_keys :: "jwt_env \<Rightarrow> bytes \<Rightarrow> unit result" where
  "reject_duplicate_top_level_keys E bs = rbind (je_keys E bs) (check_unique {})"

lemma check_unique_ok: "check_unique seen ks = Inr () \<longleftrightarrow> distinct ks \<and> set ks \<inter> seen = {}"
  by (induction ks arbitrary: seen) auto

section \<open>Header\<close>

definition cose_to_jose_algorithm :: "int \<Rightarrow> string option" where
  "cose_to_jose_algorithm a =
     (if a = ALG_HMAC256_256 then Some ''HS256'' else if a = ALG_ES256 then Some ''ES256''
      else if a = ALG_PS256 then Some ''PS256'' else None)"

definition jose_to_cose_algorithm :: "string \<Rightarrow> int option" where
  "jose_to_cose_algorithm s =
     (if s = ''HS256'' then Some ALG_HMAC256_256 else if s = ''ES256'' then Some ALG_ES256
      else if s = ''PS256'' then Some ALG_PS256 else None)"

lemma jose_cose_roundtrip: "cose_to_jose_algorithm a = Some s \<Longrightarrow> jose_to_cose_algorithm s = Some a"
  by (auto simp: cose_to_jose_algorithm_def jose_to_cose_algorithm_def split: if_splits)

text \<open>The derived serialisation of \<open>Jwk\<close>: absent members are skipped, and on reading an absent or
  null member is \<open>None\<close>.\<close>

definition jwk_to_json :: "jwk \<Rightarrow> json" where
  "jwk_to_json k =
     JObj (opt_member ''e'' (jwk_e k) (opt_member ''n'' (jwk_n k) (opt_member ''y'' (jwk_y k)
       (opt_member ''x'' (jwk_x k) (opt_member ''crv'' (jwk_crv k) [''kty'' \<mapsto> JStr (jwk_kty k)])))))"

definition opt_string_member :: "string \<Rightarrow> (string \<Rightarrow> json option) \<Rightarrow> string option result" where
  "opt_string_member k m =
     (case m k of
        None \<Rightarrow> Inr None
      | Some JNull \<Rightarrow> Inr None
      | Some (JStr s) \<Rightarrow> Inr (Some s)
      | Some _ \<Rightarrow> Inl (InvalidClaimValue ''jwk: ''))"

definition jwk_from_json :: "json \<Rightarrow> jwk result" where
  "jwk_from_json v =
     rbind (ok_or (as_object v) (InvalidClaimValue ''jwk: '')) (\<lambda>m.
     rbind (ok_or (get_str ''kty'' m) (InvalidClaimValue ''jwk: '')) (\<lambda>kty.
     rbind (opt_string_member ''crv'' m) (\<lambda>crv.
     rbind (opt_string_member ''x'' m) (\<lambda>x.
     rbind (opt_string_member ''y'' m) (\<lambda>y.
     rbind (opt_string_member ''n'' m) (\<lambda>n.
     rbind (opt_string_member ''e'' m) (\<lambda>e.
     Inr \<lparr>jwk_kty = kty, jwk_crv = crv, jwk_x = x, jwk_y = y, jwk_n = n, jwk_e = e\<rparr>)))))))"

lemma jwk_json_roundtrip [simp]: "jwk_from_json (jwk_to_json k) = Inr k"
  by (cases "jwk_crv k"; cases "jwk_x k"; cases "jwk_y k"; cases "jwk_n k"; cases "jwk_e k")
     (simp_all add: jwk_from_json_def jwk_to_json_def opt_member_def opt_string_member_def get_str_def)

definition encode_header_json :: "jwt_env \<Rightarrow> dpop_header \<Rightarrow> bytes result" where
  "encode_header_json E h =
     rbind (ok_or (cose_to_jose_algorithm (dh_alg h)) (UnsupportedAlgorithm ''no JOSE mapping for COSE alg''))
       (\<lambda>alg. je_write E (JObj [''alg'' \<mapsto> JStr alg, ''typ'' \<mapsto> JStr (dh_typ h),
                                ''jwk'' \<mapsto> jwk_to_json (dh_jwk h)]))"

definition read_object :: "jwt_env \<Rightarrow> bytes \<Rightarrow> (string \<Rightarrow> json option) result" where
  "read_object E bs =
     rbind (reject_duplicate_top_level_keys E bs) (\<lambda>_.
     rbind (je_read E bs) (\<lambda>v. ok_or (as_object v) InvalidTokenFormat))"

definition jwt_decode_header :: "jwt_env \<Rightarrow> bytes \<Rightarrow> dpop_header result" where
  "jwt_decode_header E bs =
     rbind (read_object E bs) (\<lambda>m.
     rbind (ok_or (get_str ''alg'' m) (MissingRequiredClaim ''alg'')) (\<lambda>s.
     rbind (ok_or (jose_to_cose_algorithm s) (UnsupportedAlgorithm s)) (\<lambda>alg.
     rbind (ok_or (get_str ''typ'' m) (MissingRequiredClaim ''typ'')) (\<lambda>typ.
     rbind (ok_or (m ''jwk'') (MissingRequiredClaim ''jwk'')) (\<lambda>jv.
     rbind (jwk_from_json jv) (\<lambda>k.
     Inr \<lparr>dh_alg = alg, dh_typ = typ, dh_jwk = k\<rparr>))))))"

lemma read_object_write:
  "jwt_laws E \<Longrightarrow> je_write E (JObj m) = Inr b \<Longrightarrow> read_object E b = Inr m"
  by (force simp: jwt_laws_def read_object_def reject_duplicate_top_level_keys_def check_unique_ok)

lemma jwt_header_roundtrip:
  assumes "jwt_laws E" "encode_header_json E h = Inr b"
  shows "jwt_decode_header E b = Inr h"
proof -
  obtain alg where alg: "cose_to_jose_algorithm (dh_alg h) = Some alg"
    and b: "je_write E (JObj [''alg'' \<mapsto> JStr alg, ''typ'' \<mapsto> JStr (dh_typ h),
                              ''jwk'' \<mapsto> jwk_to_json (dh_jwk h)]) = Inr b"
    using assms(2) by (auto simp: encode_header_json_def)
  show ?thesis
    using read_object_write[OF assms(1) b] jose_cose_roundtrip[OF alg]
    by (simp add: jwt_decode_header_def get_str_def)
qed

section \<open>Payload\<close>

definition actx_to_json :: "authorization_context \<Rightarrow> json" where
  "actx_to_json x =
     (let m0 = [''type'' \<mapsto> JStr (ax_type x), ''action'' \<mapsto> JStr (moqt_action_wire_name (ax_action x)),
                ''tns'' \<mapsto> JStr (moq_canonical_tns (ax_tns x))];
          m1 = (if ax_tn x \<noteq> [] then m0(''tn'' \<mapsto> JStr (moq_canonical_element (ax_tn x))) else m0)
      in JObj (opt_member ''resource'' (ax_resource x) m1))"

definition tns_from_json :: "json option \<Rightarrow> bytes list result" where
  "tns_from_json v =
     (case v of
        Some (JStr s) \<Rightarrow> (if s = [] then Inr [] else moq_tns_from_canonical s)
      | Some _ \<Rightarrow> Inl (InvalidClaimValue ''actx.tns must be a text string in MOQ canonical form'')
      | None \<Rightarrow> Inl (MissingRequiredClaim ''actx.tns''))"

definition tn_from_json :: "json option \<Rightarrow> bytes result" where
  "tn_from_json v =
     (case v of
        Some (JStr s) \<Rightarrow> (if s = [] then Inr [] else moq_element_from_canonical s)
      | Some _ \<Rightarrow> Inl (InvalidClaimValue ''actx.tn must be a text string'')
      | None \<Rightarrow> Inr [])"

definition actx_from_json :: "json \<Rightarrow> authorization_context result" where
  "actx_from_json v =
     rbind (ok_or (as_object v) (InvalidClaimValue ''actx must be a JSON object'')) (\<lambda>m.
     rbind (ok_or (get_str ''type'' m) (MissingRequiredClaim ''actx.type'')) (\<lambda>ty.
     rbind (ok_or (get_str ''action'' m) (MissingRequiredClaim ''actx.action'')) (\<lambda>name.
     rbind (moqt_action_from_wire_name name) (\<lambda>act.
     rbind (tns_from_json (m ''tns'')) (\<lambda>tns.
     rbind (tn_from_json (m ''tn'')) (\<lambda>tn.
     Inr \<lparr>ax_type = ty, ax_action = act, ax_tns = tns, ax_tn = tn, ax_resource = get_str ''resource'' m\<rparr>))))))"

text \<open>What the JSON form makes of a context: a tuple of one empty segment comes back empty, so the
  empty tuple of a setup proof survives.\<close>

definition jwt_actx :: "authorization_context \<Rightarrow> authorization_context" where
  "jwt_actx x =
     x\<lparr>ax_action := (if ax_action x = ServerSetup then ClientSetup else ax_action x),
       ax_tns := (if ax_tns x = [[]] then [] else ax_tns x)\<rparr>"

lemma element_nil_iff: "moq_canonical_element bs = [] \<longleftrightarrow> bs = []"
  by (cases bs) (auto simp: moq_canonical_element_def moq_canonical_byte_def)

lemma tns_nil_iff: "moq_canonical_tns tns = [] \<longleftrightarrow> tns = [] \<or> tns = [[]]"
  by (cases tns rule: list.exhaust; cases "tl tns")
     (auto simp: moq_canonical_tns_def element_nil_iff join_with_Cons)

lemma tns_json:
  "tns_from_json (Some (JStr (moq_canonical_tns tns))) = Inr (if tns = [[]] then [] else tns)"
  by (auto simp: tns_from_json_def tns_nil_iff moq_tns_wire)

lemma actx_json: "actx_from_json (actx_to_json x) = Inr (jwt_actx x)"
  by (cases "ax_tn x = []"; cases "ax_resource x")
     (simp_all add: actx_from_json_def actx_to_json_def Let_def opt_member_def get_str_def tns_json
       action_wire_roundtrip jwt_actx_def tn_from_json_def element_nil_iff)

definition cti_member :: "bytes option \<Rightarrow> (string \<Rightarrow> json option) \<Rightarrow> (string \<Rightarrow> json option) result" where
  "cti_member cti m =
     (case cti of
        None \<Rightarrow> Inr m
      | Some c \<Rightarrow>
          (if utf8_valid (map char_of_byte c) then Inr (m(''jti'' \<mapsto> JStr (map char_of_byte c)))
           else Inl (InvalidClaimValue ''JWT encoding requires jti to be UTF-8 text'')))"

definition encode_payload_json :: "jwt_env \<Rightarrow> dpop_payload \<Rightarrow> bytes result" where
  "encode_payload_json E p =
     rbind (cti_member (pl_cti p) [''iat'' \<mapsto> JInt (pl_iat p)]) (\<lambda>m.
       je_write E (JObj (opt_member ''ath'' (map_option (ce_b64 E) (pl_ath p))
         (opt_member ''nonce'' (pl_nonce p) (m(''actx'' \<mapsto> actx_to_json (pl_actx p)))))))"

definition jti_from_json :: "json option \<Rightarrow> bytes option result" where
  "jti_from_json v =
     (case v of
        Some (JStr s) \<Rightarrow> Inr (Some (map byte_of_char s))
      | Some _ \<Rightarrow> Inl (InvalidClaimValue ''jti must be a string'')
      | None \<Rightarrow> Inr None)"

definition ath_from_json :: "jwt_env \<Rightarrow> json option \<Rightarrow> bytes option result" where
  "ath_from_json E v =
     (case v of
        Some (JStr s) \<Rightarrow> rbind (b64_field (ce_b64d E) s) (\<lambda>h. Inr (Some h))
      | Some _ \<Rightarrow> Inl (InvalidClaimValue ''ath must be a base64url string'')
      | None \<Rightarrow> Inr None)"

definition jwt_decode_payload :: "jwt_env \<Rightarrow> bytes \<Rightarrow> dpop_payload result" where
  "jwt_decode_payload E bs =
     rbind (read_object E bs) (\<lambda>m.
     rbind (ok_or (Option.bind (m ''iat'') as_i64) (MissingRequiredClaim ''iat'')) (\<lambda>iat.
     rbind (jti_from_json (m ''jti'')) (\<lambda>cti.
     rbind (ok_or (m ''actx'') (MissingRequiredClaim ''actx'')) (\<lambda>xv.
     rbind (actx_from_json xv) (\<lambda>x.
     rbind (ath_from_json E (m ''ath'')) (\<lambda>ath.
     Inr \<lparr>pl_cti = cti, pl_iat = iat, pl_actx = x, pl_ath = ath, pl_nonce = get_str ''nonce'' m\<rparr>))))))"

lemma map_byte_char [simp]: "map (byte_of_char \<circ> char_of_byte) c = c"
  by (simp add: map_idI)

lemma jwt_payload_wire:
  assumes "jwt_laws E" "in_i64 (pl_iat p)" "encode_payload_json E p = Inr b"
  shows "jwt_decode_payload E b = Inr (p\<lparr>pl_actx := jwt_actx (pl_actx p)\<rparr>)"
proof -
  obtain m where m: "cti_member (pl_cti p) [''iat'' \<mapsto> JInt (pl_iat p)] = Inr m"
    and b: "je_write E (JObj (opt_member ''ath'' (map_option (ce_b64 E) (pl_ath p))
         (opt_member ''nonce'' (pl_nonce p) (m(''actx'' \<mapsto> actx_to_json (pl_actx p)))))) = Inr b"
    using assms(3) by (auto simp: encode_payload_json_def)
  have b64: "ce_b64d E (ce_b64 E x) = Inr x" for x
    using assms(1) by (simp add: jwt_laws_def b64url_codec_def)
  show ?thesis
    using read_object_write[OF assms(1) b] m assms(2)
    by (cases "pl_cti p"; cases "pl_nonce p"; cases "pl_ath p")
       (auto simp: jwt_decode_payload_def cti_member_def opt_member_def get_str_def jti_from_json_def
         ath_from_json_def b64_field_def b64 actx_json split: if_splits)
qed

section \<open>Compact serialisation\<close>

definition jwt_encode_header_and_payload ::
  "jwt_env \<Rightarrow> dpop_header \<Rightarrow> dpop_payload \<Rightarrow> signed_input result" where
  "jwt_encode_header_and_payload E h p =
     rbind (encode_header_json E h) (\<lambda>hb. rbind (encode_payload_json E p) (\<lambda>pb.
       Inr \<lparr>si_header = hb, si_payload = pb\<rparr>))"

definition jwt_signed_bytes :: "jwt_env \<Rightarrow> dpop_proof \<Rightarrow> signed_input result" where
  "jwt_signed_bytes E pf =
     (if signed_is_empty (dp_signed pf) then jwt_encode_header_and_payload E (dp_header pf) (dp_payload pf)
      else Inr (dp_signed pf))"

definition jwt_encode :: "jwt_env \<Rightarrow> dpop_proof \<Rightarrow> bytes result" where
  "jwt_encode E pf =
     rbind (jwt_signed_bytes E pf) (\<lambda>s.
       Inr (map byte_of_char (ce_b64 E (si_header s) @ ''.'' @ ce_b64 E (si_payload s) @ ''.'' @
              ce_b64 E (dp_signature pf))))"

definition jws_signing_input :: "jwt_env \<Rightarrow> signed_input \<Rightarrow> bytes" where
  "jws_signing_input E s = map byte_of_char (ce_b64 E (si_header s) @ ''.'' @ ce_b64 E (si_payload s))"

definition jwt_signing_input :: "jwt_env \<Rightarrow> dpop_proof \<Rightarrow> bytes result" where
  "jwt_signing_input E pf = rbind (jwt_signed_bytes E pf) (\<lambda>s. Inr (jws_signing_input E s))"

definition jwt_decode :: "jwt_env \<Rightarrow> bytes \<Rightarrow> dpop_proof result" where
  "jwt_decode E bs =
     (if length bs > max_dpop_wire_size then Inl InvalidTokenFormat
      else if \<not> utf8_valid (map char_of_byte bs) then Inl InvalidTokenFormat
      else case split_on CHR ''.'' (map char_of_byte bs) of
        [h, p, sg] \<Rightarrow>
          rbind (b64_field (ce_b64d E) h) (\<lambda>hb.
          rbind (b64_field (ce_b64d E) p) (\<lambda>pb.
          rbind (b64_field (ce_b64d E) sg) (\<lambda>sb.
          rbind (jwt_decode_header E hb) (\<lambda>hd.
          rbind (jwt_decode_payload E pb) (\<lambda>pl.
          Inr \<lparr>dp_header = hd, dp_payload = pl, dp_signature = sb,
               dp_signed = \<lparr>si_header = hb, si_payload = pb\<rparr>, dp_wire = WireJwt\<rparr>)))))
      | _ \<Rightarrow> Inl InvalidTokenFormat)"

lemma ascii_char_byte: "ord_of c < 0x80 \<Longrightarrow> char_of_byte (byte_of_char c) = c"
  by (simp add: byte_of_char_def char_of_byte_def unat_of_nat)

lemma b64url_char_ascii: "b64url_char c \<Longrightarrow> ord_of c < 0x80 \<and> c \<noteq> CHR ''.''"
proof -
  have "\<not> b64url_char CHR ''.''" by code_simp
  then show "b64url_char c \<Longrightarrow> ord_of c < 0x80 \<and> c \<noteq> CHR ''.''"
    by (auto simp: b64url_char_def ascii_defs)
qed

lemma map_ascii_bytes:
  "list_all (\<lambda>c. ord_of c < 0x80) s \<Longrightarrow> map (char_of_byte \<circ> byte_of_char) s = s"
  by (induction s) (auto simp: ascii_char_byte)

text \<open>What the JWT form makes of a proof whose signed bytes are \<open>s\<close>.\<close>

definition jwt_form :: "dpop_proof \<Rightarrow> signed_input \<Rightarrow> dpop_proof" where
  "jwt_form pf s =
     pf\<lparr>dp_signed := s, dp_wire := WireJwt,
        dp_payload := (dp_payload pf)\<lparr>pl_actx := jwt_actx (pl_actx (dp_payload pf))\<rparr>\<rparr>"

lemma jwt_own_parts:
  assumes "jwt_laws E" "in_i64 (pl_iat p)" "jwt_encode_header_and_payload E h p = Inr s"
  shows "jwt_decode_header E (si_header s) = Inr h \<and>
    jwt_decode_payload E (si_payload s) = Inr (p\<lparr>pl_actx := jwt_actx (pl_actx p)\<rparr>)"
  using assms jwt_header_roundtrip jwt_payload_wire by (auto simp: jwt_encode_header_and_payload_def)

lemma jwt_decode_parts:
  assumes laws: "jwt_laws E" and "length bs \<le> max_dpop_wire_size"
    and "jwt_signed_bytes E pf = Inr s" "jwt_encode E pf = Inr bs"
    and "jwt_decode_header E (si_header s) = Inr (dp_header pf)"
      "jwt_decode_payload E (si_payload s) = Inr ((dp_payload pf)\<lparr>pl_actx := jwt_actx (pl_actx (dp_payload pf))\<rparr>)"
  shows "jwt_decode E bs = Inr (jwt_form pf s)"
proof -
  have b64: "ce_b64d E (ce_b64 E x) = Inr x" "list_all b64url_char (ce_b64 E x)" for x
    using laws by (simp_all add: jwt_laws_def b64url_codec_def)
  have asc: "list_all (\<lambda>c. ord_of c < 0x80) (ce_b64 E x)" "CHR ''.'' \<notin> set (ce_b64 E x)" for x
    using b64(2)[of x] b64url_char_ascii by (auto simp: list_all_iff)
  let ?t = "ce_b64 E (si_header s) @ ''.'' @ ce_b64 E (si_payload s) @ ''.'' @ ce_b64 E (dp_signature pf)"
  have b: "bs = map byte_of_char ?t" using assms(3,4) by (simp add: jwt_encode_def)
  have t: "list_all (\<lambda>c. ord_of c < 0x80) ?t" using asc(1) by simp
  then have txt1: "map char_of_byte bs = ?t" "utf8_valid ?t"
    unfolding b map_map using map_ascii_bytes utf8_valid_ascii by blast+
  have parts: "split_on CHR ''.'' ?t = [ce_b64 E (si_header s), ce_b64 E (si_payload s), ce_b64 E (dp_signature pf)]"
    using asc(2) by (simp add: split_on_append split_on_no_sep)
  show ?thesis
    using assms(2,5,6) txt1 parts by (simp add: jwt_decode_def jwt_form_def b64_field_def b64)
qed

text \<open>Decoding has already made of a context what the JSON form makes of it.\<close>

lemma moq_element_empty: "moq_element_from_canonical s = Inr [] \<Longrightarrow> s = []"
  by (cases s) (auto split: if_splits list.splits)

lemma split_on_empty: "split_on a s = [[]] \<Longrightarrow> s = []"
  by (cases s) (auto split: if_splits list.splits)

lemma moq_tns_empty: "moq_tns_from_canonical s = Inr [[]] \<Longrightarrow> s = []"
proof -
  assume "moq_tns_from_canonical s = Inr [[]]"
  then obtain e where e: "split_on CHR ''-'' s = [e]" "moq_element_from_canonical e = Inr []"
    by (auto simp: moq_tns_from_canonical_def map_r_eq_Inr list_all2_Cons2)
  then show "s = []" using moq_element_empty[OF e(2)] split_on_empty[of "CHR ''-''" s] by simp
qed

lemma tns_from_json_not: "tns_from_json v = Inr tns \<Longrightarrow> tns \<noteq> [[]]"
  using moq_tns_empty by (auto simp: tns_from_json_def split: option.splits json.splits if_splits)

lemma decoded_actx_json:
  assumes "actx_from_json v = Inr x"
  shows "jwt_actx x = x"
proof -
  obtain name w where "moqt_action_from_wire_name name = Inr (ax_action x)" "tns_from_json w = Inr (ax_tns x)"
    using assms by (auto simp: actx_from_json_def)
  then show ?thesis using wire_name_setup[of name] tns_from_json_not[of w] by (simp add: jwt_actx_def)
qed

lemma decoded_payload_json: "jwt_decode_payload E b = Inr p \<Longrightarrow> jwt_actx (pl_actx p) = pl_actx p"
  by (auto simp: jwt_decode_payload_def dest: decoded_actx_json)

section \<open>Dispatch\<close>

definition proof_signing_input :: "jwt_env \<Rightarrow> dpop_proof \<Rightarrow> bytes result" where
  "proof_signing_input E pf =
     (case dp_wire pf of
        WireCwt \<Rightarrow> cwt_signing_input (codec_env.truncate E) pf
      | WireJwt \<Rightarrow> jwt_signing_input E pf)"

definition proof_encode :: "jwt_env \<Rightarrow> dpop_proof \<Rightarrow> bytes result" where
  "proof_encode E pf =
     (case dp_wire pf of
        WireCwt \<Rightarrow> cwt_encode (codec_env.truncate E) pf
      | WireJwt \<Rightarrow> jwt_encode E pf)"

definition proof_decode_as :: "jwt_env \<Rightarrow> bytes \<Rightarrow> dpop_wire_format \<Rightarrow> dpop_proof result" where
  "proof_decode_as E bs fmt =
     (case fmt of WireCwt \<Rightarrow> cwt_decode (codec_env.truncate E) bs | WireJwt \<Rightarrow> jwt_decode E bs)"

definition proof_decode :: "jwt_env \<Rightarrow> bytes \<Rightarrow> dpop_proof result" where
  "proof_decode E bs =
     (if looks_like_jwt bs then jwt_decode E bs else cwt_decode (codec_env.truncate E) bs)"

text \<open>\<open>sign\<close>: the algorithm is its COSE identifier and its signing function.\<close>

definition proof_sign ::
  "jwt_env \<Rightarrow> int \<Rightarrow> (bytes \<Rightarrow> bytes result) \<Rightarrow> dpop_proof \<Rightarrow> dpop_proof result" where
  "proof_sign E alg_id do_sign pf =
     (if alg_id \<noteq> dh_alg (dp_header pf) then Inl (AlgorithmMismatch (dh_alg (dp_header pf)) alg_id)
      else
        rbind (case dp_wire pf of
                 WireCwt \<Rightarrow> cwt_encode_header_and_payload (codec_env.truncate E) (dp_header pf) (dp_payload pf)
               | WireJwt \<Rightarrow> jwt_encode_header_and_payload E (dp_header pf) (dp_payload pf)) (\<lambda>s.
        rbind (case dp_wire pf of
                 WireCwt \<Rightarrow> create_signing_input (codec_env.truncate E) (si_header s) (si_payload s)
                              (dh_alg (dp_header pf))
               | WireJwt \<Rightarrow> Inr (jws_signing_input E s)) (\<lambda>input.
        rbind (do_sign input) (\<lambda>sg. Inr (pf\<lparr>dp_signature := sg, dp_signed := s\<rparr>)))))"

text \<open>A signed proof presents to the verifier the very input its signature was computed over.\<close>

lemma sign_covers_signing_input:
  assumes "proof_sign E a do_sign pf = Inr pf'" "\<not> signed_is_empty (dp_signed pf')"
  shows "\<exists>input. proof_signing_input E pf' = Inr input \<and> do_sign input = Inr (dp_signature pf')"
  using assms
  by (cases "dp_wire pf")
     (auto simp: proof_sign_def proof_signing_input_def cwt_signing_input_def jwt_signing_input_def
       cwt_signed_bytes_def jwt_signed_bytes_def split: if_splits)

section \<open>Properties\<close>

lemma jwt_text_looks_like_jwt:
  assumes "b64url_codec b64 b64d"
  shows "looks_like_jwt (map byte_of_char (b64 h @ ''.'' @ b64 p @ ''.'' @ b64 s))"
proof -
  have c: "ord_of c < 0x80 \<and> c \<noteq> CHR ''.''" if "c \<in> set (b64 x)" for c x
    using assms b64url_char_ascii that by (auto simp: b64url_codec_def list_all_iff)
  have dot: "byte_of_char c = 46 \<longleftrightarrow> c = CHR ''.''" if "ord_of c < 0x80" for c
  proof -
    have "byte_of_char (CHR ''.'') = 46" by code_simp
    moreover have "char_of_byte (byte_of_char c) = c" using that by (rule ascii_char_byte)
    moreover have "char_of_byte 46 = CHR ''.''" by code_simp
    ultimately show ?thesis by metis
  qed
  have small: "unat (byte_of_char c) < 128" if "ord_of c < 0x80" for c
    using that by (simp add: byte_of_char_def unat_of_nat)
  have none: "filter (\<lambda>b. b = 46) (map byte_of_char (b64 x)) = []" for x
    using c dot by (auto simp: filter_empty_conv)
  show ?thesis
    using c small none dot
    by (auto simp: looks_like_jwt_def list_all_iff)
qed

text \<open>The proofs a program has: built and not yet signed, signed by \<open>sign\<close>, or decoded. The signed bytes
  such a proof carries, if any, decode to its header and its payload.\<close>

definition crate_proof :: "jwt_env \<Rightarrow> dpop_proof \<Rightarrow> bool" where
  "crate_proof E pf \<longleftrightarrow> dp_signed pf = signed_default \<or>
     (\<exists>a do_sign pf0. proof_sign E a do_sign pf0 = Inr pf) \<or>
     (\<exists>bs. proof_decode_as E bs (dp_wire pf) = Inr pf)"

lemma jwt_signed_parts:
  assumes laws: "jwt_laws E" and i: "in_i64 (pl_iat (dp_payload pf))" and w: "dp_wire pf = WireJwt"
    and "crate_proof E pf" and s: "jwt_signed_bytes E pf = Inr s"
  shows "jwt_decode_header E (si_header s) = Inr (dp_header pf) \<and>
    jwt_decode_payload E (si_payload s) = Inr ((dp_payload pf)\<lparr>pl_actx := jwt_actx (pl_actx (dp_payload pf))\<rparr>)"
proof (cases "jwt_encode_header_and_payload E (dp_header pf) (dp_payload pf) = Inr s")
  case True
  then show ?thesis by (rule jwt_own_parts[OF laws i])
next
  case False
  then have n: "\<not> signed_is_empty (dp_signed pf)" "s = dp_signed pf" using s by (auto simp: jwt_signed_bytes_def split: if_splits)
  moreover have "proof_sign E a f pf0 \<noteq> Inr pf" for a f pf0
    using False n(2) w by (cases "dp_wire pf0") (auto simp: proof_sign_def split: if_splits)
  ultimately obtain bs where "jwt_decode E bs = Inr pf"
    using assms(4) w by (auto simp: crate_proof_def proof_decode_as_def signed_default_def signed_is_empty_def)
  then have "jwt_decode_header E (si_header s) = Inr (dp_header pf)" "jwt_decode_payload E (si_payload s) = Inr (dp_payload pf)"
    using n(2) by (auto simp: jwt_decode_def split: if_splits list.splits)
  then show ?thesis using decoded_payload_json by simp
qed

lemma cwt_signed_parts:
  assumes laws: "codec_laws (codec_env.truncate E)" and i: "in_i64 (dh_alg (dp_header pf))" "in_i64 (pl_iat (dp_payload pf))"
    and w: "dp_wire pf = WireCwt" and "crate_proof E pf" and s: "cwt_signed_bytes (codec_env.truncate E) pf = Inr s"
  shows "decode_header (codec_env.truncate E) (si_header s) =
      Inr ((dp_header pf)\<lparr>dh_jwk := wire_jwk (codec_env.truncate E) (dh_jwk (dp_header pf))\<rparr>) \<and>
    decode_payload (codec_env.truncate E) (si_payload s) =
      Inr ((dp_payload pf)\<lparr>pl_actx := wire_actx (pl_actx (dp_payload pf))\<rparr>)"
proof (cases "cwt_encode_header_and_payload (codec_env.truncate E) (dp_header pf) (dp_payload pf) = Inr s")
  case True
  then show ?thesis by (rule cwt_own_parts[OF laws i])
next
  case False
  then have n: "\<not> signed_is_empty (dp_signed pf)" "s = dp_signed pf" using s by (auto simp: cwt_signed_bytes_def split: if_splits)
  moreover have "proof_sign E a f pf0 \<noteq> Inr pf" for a f pf0
    using False n(2) w by (cases "dp_wire pf0") (auto simp: proof_sign_def split: if_splits)
  ultimately obtain bs where "cwt_decode (codec_env.truncate E) bs = Inr pf"
    using assms(5) w by (auto simp: crate_proof_def proof_decode_as_def signed_default_def signed_is_empty_def)
  then have h: "decode_header (codec_env.truncate E) (si_header s) = Inr (dp_header pf)"
    and p: "decode_payload (codec_env.truncate E) (si_payload s) = Inr (dp_payload pf)"
    using cwt_decode_signed n(2) by auto
  show ?thesis using h p decoded_header_wire[OF laws h] decoded_payload_wire[OF p] by simp
qed

text \<open>C29: what a proof is after the CWT form. For every proof of that format that was built, signed or
  decoded, of which the encoder makes at most 16 KiB, decoding gives back the format, the signature, the
  bytes signed (those it carries, or the encoding of its header and payload), and the header and payload
  but for what the form does not say: the direction of a setup, the empty namespace tuple (read as a
  tuple of one empty segment), and of the key the members that are not of its type and the spelling of
  its coordinates. The algorithm and the time are 64-bit integers, as their types say.\<close>

theorem cwt_proof_roundtrip:
  assumes "codec_laws (codec_env.truncate E)" "crate_proof E pf" "dp_wire pf = WireCwt"
    and "in_i64 (dh_alg (dp_header pf))" "in_i64 (pl_iat (dp_payload pf))"
    and "proof_encode E pf = Inr bs" "length bs \<le> max_dpop_wire_size"
  shows "\<exists>s. cwt_signed_bytes (codec_env.truncate E) pf = Inr s \<and>
    proof_decode_as E bs WireCwt = Inr (cwt_form (codec_env.truncate E) pf s)"
proof -
  have enc: "cwt_encode (codec_env.truncate E) pf = Inr bs" using assms(3,6) by (simp add: proof_encode_def)
  then obtain s where s: "cwt_signed_bytes (codec_env.truncate E) pf = Inr s" by (auto simp: cwt_encode_def)
  from cwt_signed_parts[OF assms(1,4,5,3,2) s] cwt_decode_parts[OF assms(1,7) s enc] s
  show ?thesis by (auto simp: proof_decode_as_def)
qed


end
