(* ===== verification/Jti_Store.thy ===== *)
theory Jti_Store
  imports Claims "HOL-Library.AList"
begin

text \<open>
  The replay stores of \<open>src/src/dpop.rs\<close>: the contract of the \<open>JtiStore\<close> trait as the locale
  \<open>jti_store\<close>, the strict in-memory store with its shards, cap, counter and cleanup, and the split
  of the capacity over the shards of the LRU store.

  The strict store is an atomic operation here (one caller at a time), which provides the contract.
  \<open>Jti_Race\<close> interleaves the steps its threads take, \<open>Lru_Store\<close> has the store that evicts.
  The keyed hash that selects a shard is a parameter.
\<close>

section \<open>Runs that remember keys\<close>

text \<open>A sequence of requests against one state, with the requests it accepted, oldest first.\<close>

fun filter_run :: "('x \<Rightarrow> 's \<Rightarrow> 's \<times> bool) \<Rightarrow> 'x list \<Rightarrow> 's \<Rightarrow> 's \<times> 'x list" where
  "filter_run f [] s = (s, [])"
| "filter_run f (x # xs) s =
     (let (s1, ok) = f x s; (s2, acc) = filter_run f xs s1 in (s2, if ok then x # acc else acc))"

text \<open>If every step keeps the invariant, never forgets a key, and accepts a request only when its
  key is new and then remembers it, then the accepted keys are pairwise different and new.\<close>

lemma filter_run_fresh:
  fixes inv :: "'s \<Rightarrow> bool" and seen :: "'s \<Rightarrow> 'k set"
  assumes step: "\<And>x s. x \<in> set xs \<Longrightarrow> inv s \<Longrightarrow> inv (fst (f x s)) \<and> seen s \<subseteq> seen (fst (f x s)) \<and>
      (snd (f x s) \<longrightarrow> key x \<notin> seen s \<and> key x \<in> seen (fst (f x s)))"
    and "inv s"
  shows "distinct (map key (snd (filter_run f xs s))) \<and> key ` set (snd (filter_run f xs s)) \<inter> seen s = {}"
  using assms
proof (induction xs arbitrary: s)
  case (Cons x xs)
  have 1: "inv (fst (f x s))" "seen s \<subseteq> seen (fst (f x s))"
    "snd (f x s) \<longrightarrow> key x \<notin> seen s \<and> key x \<in> seen (fst (f x s))"
    using Cons.prems(1)[OF _ Cons.prems(2), of x] by simp_all
  have "distinct (map key (snd (filter_run f xs (fst (f x s))))) \<and>
      key ` set (snd (filter_run f xs (fst (f x s)))) \<inter> seen (fst (f x s)) = {}"
    using Cons.prems(1) by (intro Cons.IH 1(1)) simp_all
  with 1(2,3) show ?case
    by (auto simp: case_prod_beta Let_def)
qed simp

lemma filter_run_inv:
  fixes inv :: "'s \<Rightarrow> bool"
  shows "(\<And>x s. x \<in> set xs \<Longrightarrow> inv s \<Longrightarrow> inv (fst (f x s))) \<Longrightarrow> inv s \<Longrightarrow> inv (fst (filter_run f xs s))"
  by (induction xs arbitrary: s) (simp_all add: case_prod_beta Let_def)

lemma filter_run_subset: "set (snd (filter_run f xs s)) \<subseteq> set xs"
  by (induction xs arbitrary: s) (auto simp: case_prod_beta Let_def)

section \<open>The contract of a replay store\<close>

locale jti_store =
  fixes insert_jti :: "string \<Rightarrow> int \<Rightarrow> 's \<Rightarrow> 's \<times> unit result"
    and seen :: "'s \<Rightarrow> string set"
    and inv :: "'s \<Rightarrow> bool"
  assumes inv_insert: "inv s \<Longrightarrow> inv (fst (insert_jti k i s))"
    and insert_seen: "inv s \<Longrightarrow> k \<in> seen s \<Longrightarrow> \<exists>e. snd (insert_jti k i s) = Inl e"
    and insert_ok: "inv s \<Longrightarrow> snd (insert_jti k i s) = Inr () \<Longrightarrow>
      seen (fst (insert_jti k i s)) = insert k (seen s)"
    and insert_err: "inv s \<Longrightarrow> snd (insert_jti k i s) = Inl e \<Longrightarrow>
      seen (fst (insert_jti k i s)) = seen s"
begin

definition run :: "(string \<times> int) list \<Rightarrow> 's \<Rightarrow> 's \<times> (string \<times> int) list" where
  "run = filter_run (\<lambda>(k, i) s. map_prod id is_ok (insert_jti k i s))"

lemma insert_step:
  "inv s \<Longrightarrow> inv (fst (insert_jti k i s)) \<and> seen s \<subseteq> seen (fst (insert_jti k i s)) \<and>
     (is_ok (snd (insert_jti k i s)) \<longrightarrow> k \<notin> seen s \<and> k \<in> seen (fst (insert_jti k i s)))"
  using inv_insert[of s k i] insert_seen[of s k i] insert_ok[of s k i] insert_err[of s k i]
  by (cases "snd (insert_jti k i s)") auto

lemma run_inv: "inv s \<Longrightarrow> inv (fst (run rs s))"
  unfolding run_def by (rule filter_run_inv) (auto simp: inv_insert split: prod.splits)

lemma run_accepts_fresh:
  "inv s \<Longrightarrow> distinct (map fst (snd (run rs s))) \<and> fst ` set (snd (run rs s)) \<inter> seen s = {}"
  unfolding run_def by (intro filter_run_fresh[where inv = inv]) (simp_all add: insert_step case_prod_beta)

end

section \<open>The strict store\<close>

definition max_jti_length_bytes :: nat where
  "max_jti_length_bytes = 256"

definition default_jti_shards :: nat where
  "default_jti_shards = 16"

record strict_store =
  ss_shards :: "(string \<times> int) list list"
  ss_window :: int
  ss_max_entries :: "nat option"
  ss_total_entries :: nat
  ss_rejected :: nat

definition strict_build :: "int \<Rightarrow> nat option \<Rightarrow> strict_store" where
  "strict_build window mx =
     \<lparr>ss_shards = replicate default_jti_shards [], ss_window = window, ss_max_entries = mx,
      ss_total_entries = 0, ss_rejected = 0\<rparr>"

definition strict_new :: "int \<Rightarrow> nat \<Rightarrow> strict_store" where
  "strict_new window max_entries = strict_build window (Some max_entries)"

definition dangerously_unbounded :: "int \<Rightarrow> strict_store" where
  "dangerously_unbounded window = strict_build window None"

definition with_max_entries :: "nat \<Rightarrow> strict_store \<Rightarrow> strict_store" where
  "with_max_entries mx s =
     s\<lparr>ss_max_entries := (case ss_max_entries s of Some cur \<Rightarrow> Some (min cur mx) | None \<Rightarrow> Some mx)\<rparr>"

definition shard_index :: "(string \<Rightarrow> nat) \<Rightarrow> string \<Rightarrow> strict_store \<Rightarrow> nat" where
  "shard_index hash key s = hash key mod length (ss_shards s)"

definition at_cap :: "strict_store \<Rightarrow> bool" where
  "at_cap s \<longleftrightarrow> (case ss_max_entries s of Some mx \<Rightarrow> ss_total_entries s \<ge> mx | None \<Rightarrow> False)"

definition strict_check_and_insert ::
  "(string \<Rightarrow> nat) \<Rightarrow> string \<Rightarrow> int \<Rightarrow> strict_store \<Rightarrow> strict_store \<times> unit result" where
  "strict_check_and_insert hash key iat s =
     (if length key > max_jti_length_bytes then (s, Inl (DpopValidationFailed ''JTI exceeds ''))
      else if at_cap s
        then (s\<lparr>ss_rejected := ss_rejected s + 1\<rparr>,
              Inl (DpopValidationFailed ''strict JTI store at max_entries=''))
      else
        let i = shard_index hash key s; entries = ss_shards s ! i
        in if map_of entries key \<noteq> None then (s, Inl ReplayAttackDetected)
           else (s\<lparr>ss_shards := (ss_shards s)[i := AList.update key iat entries],
                   ss_total_entries := ss_total_entries s + 1\<rparr>, Inr ()))"

definition strict_len :: "strict_store \<Rightarrow> nat" where
  "strict_len s = ss_total_entries s"

definition strict_cleanup :: "int \<Rightarrow> int \<Rightarrow> strict_store \<Rightarrow> strict_store" where
  "strict_cleanup now max_age s =
     (let kept = map (filter (\<lambda>(_, iat). saturating_i64 (now - iat) < max_age)) (ss_shards s);
          removed = sum_list (map length (ss_shards s)) - sum_list (map length kept)
      in s\<lparr>ss_shards := kept,
           ss_total_entries := (if removed > 0 then ss_total_entries s - removed
                                else ss_total_entries s)\<rparr>)"

definition cleanup_expired :: "int \<Rightarrow> strict_store \<Rightarrow> strict_store" where
  "cleanup_expired now s = strict_cleanup now (ss_window s) s"

text \<open>What a store remembers, and its invariant: every key sits once in its shard, and the counter
  is the number of entries.\<close>

definition strict_entries :: "strict_store \<Rightarrow> (string \<times> int) list" where
  "strict_entries s = concat (ss_shards s)"

definition strict_seen :: "strict_store \<Rightarrow> string set" where
  "strict_seen s = fst ` set (strict_entries s)"

definition strict_inv :: "(string \<Rightarrow> nat) \<Rightarrow> strict_store \<Rightarrow> bool" where
  "strict_inv hash s \<longleftrightarrow>
     ss_shards s \<noteq> [] \<and>
     (\<forall>i < length (ss_shards s). distinct (map fst (ss_shards s ! i)) \<and>
        (\<forall>e \<in> set (ss_shards s ! i). shard_index hash (fst e) s = i)) \<and>
     ss_total_entries s = length (strict_entries s)"

lemma length_concat_update:
  "i < length xs \<Longrightarrow> length (concat (xs[i := ys])) + length (xs ! i) = length (concat xs) + length ys"
  by (induction xs arbitrary: i) (auto split: nat.splits)

lemma set_concat_update_append:
  "i < length xs \<Longrightarrow> set (concat (xs[i := xs ! i @ [e]])) = insert e (set (concat xs))"
  by (induction xs arbitrary: i) (auto split: nat.splits)

lemma update_new_append: "map_of es k = None \<Longrightarrow> AList.update k v es = es @ [(k, v)]"
  by (induction es) (auto split: if_splits)

lemma strict_inv_build [simp]: "strict_inv hash (strict_build w mx)"
  by (simp add: strict_inv_def strict_build_def default_jti_shards_def strict_entries_def)

lemma shard_index_less: "strict_inv hash s \<Longrightarrow> shard_index hash k s < length (ss_shards s)"
  by (simp add: shard_index_def strict_inv_def)

lemma seen_in_shard:
  assumes "strict_inv hash s"
  shows "k \<in> strict_seen s \<longleftrightarrow> map_of (ss_shards s ! shard_index hash k s) k \<noteq> None"
proof
  assume "k \<in> strict_seen s"
  then obtain v l where "l \<in> set (ss_shards s)" "(k, v) \<in> set l"
    by (auto simp: strict_seen_def strict_entries_def)
  then obtain i where i: "i < length (ss_shards s)" "(k, v) \<in> set (ss_shards s ! i)"
    by (auto simp: in_set_conv_nth)
  then have "shard_index hash k s = i" using assms by (fastforce simp: strict_inv_def)
  with i show "map_of (ss_shards s ! shard_index hash k s) k \<noteq> None"
    by (auto dest: weak_map_of_SomeI)
next
  assume "map_of (ss_shards s ! shard_index hash k s) k \<noteq> None"
  then obtain v where "(k, v) \<in> set (ss_shards s ! shard_index hash k s)"
    by (auto dest: map_of_SomeD)
  with shard_index_less[OF assms, of k] show "k \<in> strict_seen s"
    by (force simp: strict_seen_def strict_entries_def)
qed

text \<open>The branches of an insertion.\<close>

lemma strict_insert_cases:
  assumes "strict_inv hash s"
  shows "strict_check_and_insert hash k i s =
     (if length k > max_jti_length_bytes then (s, Inl (DpopValidationFailed ''JTI exceeds ''))
      else if at_cap s then (s\<lparr>ss_rejected := ss_rejected s + 1\<rparr>,
              Inl (DpopValidationFailed ''strict JTI store at max_entries=''))
      else if k \<in> strict_seen s then (s, Inl ReplayAttackDetected)
      else (s\<lparr>ss_shards := (ss_shards s)[shard_index hash k s :=
                 ss_shards s ! shard_index hash k s @ [(k, i)]],
              ss_total_entries := ss_total_entries s + 1\<rparr>, Inr ()))"
  using seen_in_shard[OF assms, of k]
  by (auto simp: strict_check_and_insert_def Let_def update_new_append)

lemma strict_insert_entries:
  assumes "strict_inv hash s" "snd (strict_check_and_insert hash k i s) = Inr ()"
  shows "set (strict_entries (fst (strict_check_and_insert hash k i s))) = insert (k, i) (set (strict_entries s))"
  using assms set_concat_update_append[OF shard_index_less[OF assms(1)], of k "(k, i)"]
  by (auto simp: strict_insert_cases strict_entries_def split: if_splits)

lemma strict_insert_rejected:
  assumes "strict_inv hash s" "snd (strict_check_and_insert hash k i s) = Inl e"
  shows "strict_entries (fst (strict_check_and_insert hash k i s)) = strict_entries s"
  using assms by (auto simp: strict_insert_cases strict_entries_def split: if_splits)

lemma strict_inv_insert:
  assumes "strict_inv hash s"
  shows "strict_inv hash (fst (strict_check_and_insert hash k i s))"
proof (cases "length k > max_jti_length_bytes \<or> at_cap s \<or> k \<in> strict_seen s")
  case True
  with assms show ?thesis
    by (auto simp: strict_insert_cases strict_inv_def strict_entries_def shard_index_def)
next
  case False
  let ?i = "shard_index hash k s" and ?l = "ss_shards s"
  let ?e = "?l ! ?i @ [(k, i)]"
  have i: "?i < length ?l" by (rule shard_index_less[OF assms])
  have new: "k \<notin> fst ` set (?l ! ?i)"
    using seen_in_shard[OF assms, of k] False by (simp add: map_of_eq_None_iff)
  have len: "length (concat (?l[?i := ?e])) = Suc (length (concat ?l))"
    using length_concat_update[OF i, of ?e] by simp
  have "distinct (map fst (?l[?i := ?e] ! j)) \<and>
      (\<forall>e \<in> set (?l[?i := ?e] ! j). hash (fst e) mod length ?l = j)" if "j < length ?l" for j
    using that assms i new by (auto simp: strict_inv_def shard_index_def nth_list_update)
  with False assms len i show ?thesis
    by (auto simp: strict_insert_cases strict_inv_def strict_entries_def shard_index_def)
qed

interpretation ss: jti_store "strict_check_and_insert hash" strict_seen "strict_inv hash" for hash
proof (unfold_locales, goal_cases)
  case (1 s k i)
  then show ?case by (rule strict_inv_insert)
next
  case (2 s k i)
  then show ?case by (auto simp: strict_insert_cases)
next
  case (3 s k i)
  then show ?case using strict_insert_entries[of hash s k i] by (simp add: strict_seen_def)
next
  case (4 s k i e)
  then show ?case using strict_insert_rejected[of hash s k i e] by (simp add: strict_seen_def)
qed

section \<open>Cap and cleanup\<close>

text \<open>An insertion never takes the strict store past its cap.\<close>

lemma strict_insert_cap:
  assumes "strict_inv hash s" "ss_max_entries s = Some mx" "length (strict_entries s) \<le> mx"
  shows "length (strict_entries (fst (strict_check_and_insert hash k i s))) \<le> mx"
proof -
  have inv: "strict_inv hash (fst (strict_check_and_insert hash k i s))"
    by (rule strict_inv_insert[OF assms(1)])
  have "ss_total_entries s = length (strict_entries s)" using assms(1) by (simp add: strict_inv_def)
  moreover have "ss_total_entries (fst (strict_check_and_insert hash k i s)) \<le> mx"
    using assms calculation by (auto simp: strict_insert_cases at_cap_def)
  ultimately show ?thesis using inv by (simp add: strict_inv_def)
qed

lemma filter_concat_map: "concat (map (filter P) xss) = filter P (concat xss)"
  by (induction xss) auto

lemma sum_list_length_concat: "sum_list (map length xss) = length (concat xss)"
  by (simp add: length_concat)

lemma strict_cleanup_entries:
  "strict_entries (strict_cleanup now age s) =
     filter (\<lambda>(_, iat). saturating_i64 (now - iat) < age) (strict_entries s)"
  by (simp add: strict_cleanup_def Let_def strict_entries_def filter_concat_map)

lemma strict_cleanup_inv:
  assumes "strict_inv hash s"
  shows "strict_inv hash (strict_cleanup now age s)"
proof -
  let ?P = "\<lambda>(_ :: string, iat). saturating_i64 (now - iat) < age"
  have le: "length (filter ?P (concat (ss_shards s))) \<le> length (concat (ss_shards s))"
    by (rule length_filter_le)
  have "ss_total_entries s = length (concat (ss_shards s))"
    using assms by (simp add: strict_inv_def strict_entries_def)
  moreover have "(if b - a > 0 then b - (b - a) else b) = a" if "a \<le> b" for a b :: nat
    using that by auto
  from this[OF le] calculation have tot: "ss_total_entries (strict_cleanup now age s) = length (filter ?P (concat (ss_shards s)))"
    unfolding strict_cleanup_def Let_def sum_list_length_concat filter_concat_map
    by (auto split: if_splits)
  have sh: "ss_shards (strict_cleanup now age s) = map (filter ?P) (ss_shards s)"
    by (simp add: strict_cleanup_def Let_def)
  have "distinct (map fst (filter ?P (ss_shards s ! i))) \<and>
      (\<forall>e \<in> set (filter ?P (ss_shards s ! i)). hash (fst e) mod length (ss_shards s) = i)"
    if "i < length (ss_shards s)" for i
  proof -
    have "distinct (map fst (ss_shards s ! i))"
      and "\<forall>e \<in> set (ss_shards s ! i). hash (fst e) mod length (ss_shards s) = i"
      using assms that by (simp_all add: strict_inv_def shard_index_def)
    then show ?thesis by (simp add: distinct_map_filter)
  qed
  moreover have "ss_total_entries (strict_cleanup now age s) = length (strict_entries (strict_cleanup now age s))"
    unfolding strict_cleanup_entries using tot by (simp add: strict_entries_def)
  ultimately show ?thesis
    using assms by (simp add: strict_inv_def shard_index_def sh)
qed

section \<open>The shards of the LRU store\<close>

definition min_jti_cache_size :: nat where "min_jti_cache_size = 1000"
definition max_jti_cache_size :: nat where "max_jti_cache_size = 10000000"

definition clamp :: "nat \<Rightarrow> nat \<Rightarrow> nat \<Rightarrow> nat" where
  "clamp lo hi x = max lo (min hi x)"

definition lru_shard_capacities :: "nat \<Rightarrow> nat \<Rightarrow> nat list" where
  "lru_shard_capacities capacity shards =
     (let requested = clamp min_jti_cache_size max_jti_cache_size capacity;
          shard_count = min (max shards 1) requested;
          base = requested div shard_count;
          remainder = requested mod shard_count
      in map (\<lambda>i. max (base + (if i < remainder then 1 else 0)) 1) [0..<shard_count])"

lemma sum_extra: "r \<le> n \<Longrightarrow> (\<Sum>i\<leftarrow>[0..<n]. if i < r then 1 else 0) = (r :: nat)"
proof (induction n)
  case (Suc n)
  show ?case
  proof (cases "r = Suc n")
    case True
    have "(\<Sum>i\<leftarrow>[0..<Suc n]. if i < Suc n then 1 else 0) = (\<Sum>i\<leftarrow>[0..<Suc n]. 1 :: nat)"
      by (rule arg_cong[of _ _ sum_list]) (simp del: upt_Suc)
    with True show ?thesis by (simp add: sum_list_triv del: upt_Suc)
  qed (use Suc in simp)
qed simp

lemma lru_shard_capacities_sum:
  "sum_list (lru_shard_capacities capacity shards) = clamp min_jti_cache_size max_jti_cache_size capacity"
proof -
  define req where "req = clamp min_jti_cache_size max_jti_cache_size capacity"
  define n where "n = min (max shards 1) req"
  have "req > 0" by (simp add: req_def clamp_def min_jti_cache_size_def)
  then have n: "0 < n" "n \<le> req" by (simp_all add: n_def)
  then have "1 \<le> req div n" by (simp add: div_greater_zero_iff Suc_leI)
  then have eq: "lru_shard_capacities capacity shards =
      map (\<lambda>i. req div n + (if i < req mod n then 1 else 0)) [0..<n]"
    unfolding lru_shard_capacities_def Let_def req_def[symmetric] n_def[symmetric]
    by (auto simp: max_def)
  have "req mod n \<le> n" using n by (simp add: less_imp_le)
  then show ?thesis
    unfolding eq sum_list_addf sum_extra[OF \<open>req mod n \<le> n\<close>]
    by (simp add: sum_list_triv req_def[symmetric])
qed

section \<open>Properties\<close>

text \<open>A full strict store recovers. After a cleanup that finds every entry older than the window, any key of
  legal length is accepted again.\<close>

lemma strict_cleanup_frees:
  assumes "strict_inv hash s" "ss_max_entries s = Some mx" "0 < mx" "length k \<le> max_jti_length_bytes"
    and "\<forall>(k, iat) \<in> set (strict_entries s). age \<le> saturating_i64 (now - iat)"
  shows "snd (strict_check_and_insert hash k i (strict_cleanup now age s)) = Inr ()"
proof -
  have inv: "strict_inv hash (strict_cleanup now age s)" by (rule strict_cleanup_inv[OF assms(1)])
  have e: "strict_entries (strict_cleanup now age s) = []"
    using assms(5) by (auto simp: strict_cleanup_entries filter_empty_conv)
  then have "strict_seen (strict_cleanup now age s) = {}" by (simp add: strict_seen_def)
  moreover have "ss_total_entries (strict_cleanup now age s) = 0" using inv e by (simp add: strict_inv_def)
  moreover have "ss_max_entries (strict_cleanup now age s) = Some mx"
    using assms(2) by (simp add: strict_cleanup_def Let_def)
  ultimately show ?thesis
    using assms(3,4) unfolding strict_insert_cases[OF inv] by (simp add: at_cap_def)
qed

end
