(* ===== verification/Dpop_Validator.thy ===== *)
theory Dpop_Validator
  imports Dpop_Jwt Jti_Store
begin

text \<open>
  The DPoP validator (\<open>DpopValidator\<close> of \<open>src/src/dpop.rs\<close>): its constructors, the checks before and
  after the signature, the key under which a proof is remembered, and the commit to the replay store.

  The replay store is a trait object in the code; here it is a record of operations with its state
  passed explicitly, and the locale \<open>jti_store\<close> is what the theorems ask of it. The primitives of the
  cryptographic crates are fields of \<open>crypto_env\<close>.
\<close>

section \<open>Primitives and stores\<close>

record crypto_env = jwt_env +
  cr_sha256 :: "bytes \<Rightarrow> bytes"
  cr_hex :: "bytes \<Rightarrow> string"
  cr_p256_accept :: "bytes \<Rightarrow> bool"
  cr_rsa_accept :: "nat \<times> nat \<Rightarrow> bool"
  cr_es256_sig :: "bytes \<Rightarrow> bool"
  cr_es256_verify :: "bytes \<Rightarrow> bytes \<Rightarrow> bytes \<Rightarrow> bool"
  cr_rsa_size :: "nat \<times> nat \<Rightarrow> nat"
  cr_ps256_sig :: "bytes \<Rightarrow> bool"
  cr_ps256_verify :: "nat \<times> nat \<Rightarrow> bytes \<Rightarrow> bytes \<Rightarrow> bool"

record 's store_ops =
  st_insert :: "string \<Rightarrow> int \<Rightarrow> 's \<Rightarrow> 's \<times> unit result"
  st_len :: "'s \<Rightarrow> nat"
  st_cleanup :: "int \<Rightarrow> 's \<Rightarrow> 's"
  st_premature :: "'s \<Rightarrow> nat"
  st_is_strict :: bool

definition strict_ops :: "(string \<Rightarrow> nat) \<Rightarrow> int \<Rightarrow> strict_store store_ops" where
  "strict_ops hash now =
     \<lparr>st_insert = strict_check_and_insert hash, st_len = strict_len, st_cleanup = strict_cleanup now,
      st_premature = (\<lambda>_. 0), st_is_strict = True\<rparr>"

record dpop_validator =
  dv_settings :: catdpop_settings
  dv_jti_expiry :: int
  dv_capacity :: nat

definition twice_window :: "catdpop_settings \<Rightarrow> int" where
  "twice_window st =
     (case checked_i64 (effective_window st * 2) of Some w \<Rightarrow> w | None \<Rightarrow> i64_max)"

definition dv_with_cache_size :: "catdpop_settings \<Rightarrow> nat \<Rightarrow> dpop_validator" where
  "dv_with_cache_size st cache_size =
     \<lparr>dv_settings = st, dv_jti_expiry = twice_window st,
      dv_capacity = clamp min_jti_cache_size max_jti_cache_size cache_size\<rparr>"

definition default_jti_cache_size :: nat where
  "default_jti_cache_size = 100000"

definition dv_new :: "catdpop_settings \<Rightarrow> dpop_validator" where
  "dv_new st = dv_with_cache_size st default_jti_cache_size"

definition dv_with_jti_store :: "catdpop_settings \<Rightarrow> dpop_validator" where
  "dv_with_jti_store st = \<lparr>dv_settings = st, dv_jti_expiry = twice_window st, dv_capacity = 0\<rparr>"

definition dv_with_jti_store_strict :: "catdpop_settings \<Rightarrow> 's store_ops \<Rightarrow> dpop_validator result" where
  "dv_with_jti_store_strict st ops =
     (if \<not> st_is_strict ops then Inl (ConfigurationRefused ''JtiStore::is_strict() returned false'')
      else Inr (dv_with_jti_store st))"

definition preflight :: "catdpop_settings \<Rightarrow> unit result" where
  "preflight st =
     (let window = effective_window st
      in if window \<le> 0 then Inl (InvalidClaimValue ''DPoP freshness window must be > 0 (got '')
         else if window > catdpop_max_window_secs then Inl (InvalidClaimValue ''DPoP freshness window exceeds cap'')
         else Inr ())"

record jti_cache_stats =
  js_size :: nat
  js_capacity :: nat
  js_under_pressure :: bool
  js_premature_evictions :: nat

definition jti_cache_stats_of :: "'s store_ops \<Rightarrow> dpop_validator \<Rightarrow> 's \<Rightarrow> jti_cache_stats" where
  "jti_cache_stats_of ops v s =
     \<lparr>js_size = st_len ops s, js_capacity = dv_capacity v,
      js_under_pressure = (dv_capacity v > 0 \<and> st_len ops s \<ge> dv_capacity v * 9 div 10),
      js_premature_evictions = st_premature ops s\<rparr>"

definition cleanup_expired_jtis :: "'s store_ops \<Rightarrow> dpop_validator \<Rightarrow> 's \<Rightarrow> 's" where
  "cleanup_expired_jtis ops v s = st_cleanup ops (dv_jti_expiry v) s"

section \<open>Checks\<close>

definition check_ath :: "dpop_proof \<Rightarrow> bytes option \<Rightarrow> unit result" where
  "check_ath pf access_token_hash =
     (case access_token_hash of
        None \<Rightarrow> Inr ()
      | Some expected \<Rightarrow>
          (case pl_ath (dp_payload pf) of
             Some ath \<Rightarrow>
               (if \<not> constant_time_eq ath expected
                then Inl (DpopValidationFailed ''Access token hash mismatch'') else Inr ())
           | None \<Rightarrow> Inl (DpopValidationFailed ''Missing access token hash (ath) in proof'')))"

definition validate_claims_pre_sig ::
  "crypto_env \<Rightarrow> int \<Rightarrow> dpop_validator \<Rightarrow> dpop_proof \<Rightarrow> moqt_action \<Rightarrow> bytes \<Rightarrow> bytes option \<Rightarrow> unit result" where
  "validate_claims_pre_sig C now v pf act jkt ath =
     (if \<not> header_is_valid (dp_header pf) then Inl (DpopValidationFailed ''Invalid header'')
      else if \<not> payload_is_valid (dp_payload pf) then Inl (DpopValidationFailed ''Invalid payload'')
      else if pl_cti (dp_payload pf) = None
        then Inl (DpopValidationFailed ''DPoP proof missing required cti claim'')
      else if \<not> is_fresh now (effective_window (dv_settings v)) (dp_payload pf)
        then Inl (DpopValidationFailed ''Proof expired'')
      else if ax_action (pl_actx (dp_payload pf)) \<noteq> act
        then Inl (DpopValidationFailed ''Action mismatch'')
      else
        rbind (jwk_thumbprint (cr_sha256 C) pf) (\<lambda>t.
          if \<not> constant_time_eq t jkt then Inl InvalidDpopBinding
          else check_ath pf ath))"

definition min_rsa_key_size :: nat where
  "min_rsa_key_size = 256"

definition ps256_new_verifier :: "crypto_env \<Rightarrow> nat \<times> nat \<Rightarrow> (nat \<times> nat) result" where
  "ps256_new_verifier C k =
     (if cr_rsa_size C k < min_rsa_key_size then Inl (KeyOperationFailed ''RSA key too small'') else Inr k)"

definition es256_verify :: "crypto_env \<Rightarrow> bytes \<Rightarrow> bytes \<Rightarrow> bytes \<Rightarrow> unit result" where
  "es256_verify C k msg sg =
     (if \<not> cr_es256_sig C sg then Inl (KeyOperationFailed '''')
      else if cr_es256_verify C k msg sg then Inr () else Inl SignatureVerificationFailed)"

definition ps256_verify :: "crypto_env \<Rightarrow> nat \<times> nat \<Rightarrow> bytes \<Rightarrow> bytes \<Rightarrow> unit result" where
  "ps256_verify C k msg sg =
     (if \<not> cr_ps256_sig C sg then Inl (KeyOperationFailed '''')
      else if cr_ps256_verify C k msg sg then Inr () else Inl SignatureVerificationFailed)"

definition verify_with_embedded_key :: "crypto_env \<Rightarrow> dpop_proof \<Rightarrow> unit result" where
  "verify_with_embedded_key C pf =
     rbind (proof_signing_input (jwt_env.truncate C) pf) (\<lambda>msg.
       let k = dh_jwk (dp_header pf)
       in if dh_alg (dp_header pf) = ALG_ES256 then
            rbind (to_verifying_key (ce_b64d C) (cr_p256_accept C) k) (\<lambda>vk.
              es256_verify C vk msg (dp_signature pf))
          else if dh_alg (dp_header pf) = ALG_PS256 then
            rbind (to_rsa_public_key (ce_b64d C) (cr_rsa_accept C) k) (\<lambda>rk.
            rbind (ps256_new_verifier C rk) (\<lambda>vk. ps256_verify C vk msg (dp_signature pf)))
          else Inl (DpopAlgorithmNotSupported ''''))"

definition validate_without_jti_commit ::
  "crypto_env \<Rightarrow> int \<Rightarrow> dpop_validator \<Rightarrow> dpop_proof \<Rightarrow> moqt_action \<Rightarrow> bytes \<Rightarrow> bytes option \<Rightarrow> unit result" where
  "validate_without_jti_commit C now v pf act jkt ath =
     rbind (validate_claims_pre_sig C now v pf act jkt ath) (\<lambda>_.
       if \<not> is_supported_algorithm (dp_header pf) then Inl (DpopAlgorithmNotSupported '''')
       else rbind (jwk_thumbprint (cr_sha256 C) pf) (\<lambda>t.
         if \<not> constant_time_eq t jkt then Inl DpopKeyMismatch
         else verify_with_embedded_key C pf))"

lemma check_ath_ok: "check_ath pf a = Inr () \<longleftrightarrow> (\<forall>h. a = Some h \<longrightarrow> pl_ath (dp_payload pf) = Some h)"
  by (cases a; cases "pl_ath (dp_payload pf)") (auto simp: check_ath_def)

text \<open>What an accepted proof is known to carry.\<close>

definition proof_bound ::
  "crypto_env \<Rightarrow> int \<Rightarrow> dpop_validator \<Rightarrow> dpop_proof \<Rightarrow> moqt_action \<Rightarrow> bytes \<Rightarrow> bytes option \<Rightarrow> bool" where
  "proof_bound C now v pf act jkt ath \<longleftrightarrow>
     header_is_valid (dp_header pf) \<and> payload_is_valid (dp_payload pf) \<and>
     pl_cti (dp_payload pf) \<noteq> None \<and> is_fresh now (effective_window (dv_settings v)) (dp_payload pf) \<and>
     ax_action (pl_actx (dp_payload pf)) = act \<and> jwk_thumbprint (cr_sha256 C) pf = Inr jkt \<and>
     (\<forall>h. ath = Some h \<longrightarrow> pl_ath (dp_payload pf) = Some h)"

lemma validate_claims_pre_sig_ok:
  "validate_claims_pre_sig C now v pf act jkt ath = Inr () \<longleftrightarrow> proof_bound C now v pf act jkt ath"
  by (cases "jwk_thumbprint (cr_sha256 C) pf")
     (auto simp: validate_claims_pre_sig_def proof_bound_def check_ath_ok)

lemma validate_without_jti_commit_ok:
  "validate_without_jti_commit C now v pf act jkt ath = Inr () \<longleftrightarrow>
     proof_bound C now v pf act jkt ath \<and> verify_with_embedded_key C pf = Inr ()"
  by (auto simp: validate_without_jti_commit_def validate_claims_pre_sig_ok)
     (auto simp: proof_bound_def header_is_valid_def)

lemma preflight_ok:
  "preflight st = Inr () \<longleftrightarrow> 0 < effective_window st \<and> effective_window st \<le> catdpop_max_window_secs"
  by (auto simp: preflight_def Let_def)

section \<open>The commit key\<close>

definition iss_text :: "string option \<Rightarrow> string" where
  "iss_text iss = (case iss of Some i \<Rightarrow> i | None \<Rightarrow> ''_'')"

definition dpop_commit_key_forced ::
  "crypto_env \<Rightarrow> dpop_proof \<Rightarrow> bytes \<Rightarrow> string option \<Rightarrow> (string \<times> int) option" where
  "dpop_commit_key_forced C pf jkt iss =
     (case pl_cti (dp_payload pf) of
        None \<Rightarrow> None
      | Some cti \<Rightarrow>
          Some (iss_text iss @ '':'' @ cr_hex C jkt @ '':'' @ cr_hex C cti, pl_iat (dp_payload pf)))"

definition dpop_commit_key ::
  "crypto_env \<Rightarrow> dpop_validator \<Rightarrow> dpop_proof \<Rightarrow> bytes \<Rightarrow> string option \<Rightarrow> (string \<times> int) option" where
  "dpop_commit_key C v pf jkt iss =
     (if \<not> should_honor_jti (dv_settings v) then None else dpop_commit_key_forced C pf jkt iss)"

text \<open>What the key relies on of the hexadecimal encoding: it is injective and writes no colon.\<close>

definition hex_law :: "(bytes \<Rightarrow> string) \<Rightarrow> bool" where
  "hex_law h \<longleftrightarrow> inj h \<and> (\<forall>x. CHR '':'' \<notin> set (h x))"

lemma last_separator:
  assumes "a @ c # b = a' @ c # b'" "c \<notin> set b" "c \<notin> set b'"
  shows "a = a' \<and> b = b'"
proof -
  have "rev b @ c # rev a = rev b' @ c # rev a'"
    using arg_cong[OF assms(1), of rev] by simp
  then have "split_once c (rev b @ c # rev a) = split_once c (rev b' @ c # rev a')" by simp
  then show ?thesis using assms(2,3) by simp
qed

lemma commit_key_inj:
  assumes "hex_law h"
    and "i @ '':'' @ h t @ '':'' @ h c = i' @ '':'' @ h t' @ '':'' @ h c'"
  shows "i = i' \<and> t = t' \<and> c = c'"
proof -
  have f: "CHR '':'' \<notin> set (h x)" and i: "h x = h y \<longleftrightarrow> x = y" for x y
    using assms(1) by (auto simp: hex_law_def inj_def)
  have "i @ '':'' @ h t = i' @ '':'' @ h t'" and c: "h c = h c'"
    using last_separator[of "i @ '':'' @ h t" "CHR '':''" "h c" "i' @ '':'' @ h t'" "h c'"] assms(2) f
    by auto
  then have "i = i'" "h t = h t'"
    using last_separator[of i "CHR '':''" "h t" i' "h t'"] f by auto
  then show ?thesis using c by (simp add: i)
qed

section \<open>Validation with the commit\<close>

definition dv_insert_jti ::
  "crypto_env \<Rightarrow> 's store_ops \<Rightarrow> dpop_validator \<Rightarrow> dpop_proof \<Rightarrow> bytes \<Rightarrow> string option \<Rightarrow> 's \<Rightarrow> 's \<times> unit result" where
  "dv_insert_jti C ops v pf jkt iss s =
     (case dpop_commit_key C v pf jkt iss of
        Some (key, iat) \<Rightarrow> st_insert ops key iat s
      | None \<Rightarrow> (s, Inr ()))"

definition dpop_validate ::
  "crypto_env \<Rightarrow> int \<Rightarrow> 's store_ops \<Rightarrow> dpop_validator \<Rightarrow> dpop_proof \<Rightarrow> moqt_action \<Rightarrow> bytes \<Rightarrow>
     bytes option \<Rightarrow> string option \<Rightarrow> 's \<Rightarrow> 's \<times> unit result" where
  "dpop_validate C now ops v pf act jkt ath iss s =
     (case validate_without_jti_commit C now v pf act jkt ath of
        Inl e \<Rightarrow> (s, Inl e)
      | Inr _ \<Rightarrow> dv_insert_jti C ops v pf jkt iss s)"

text \<open>A request as the validator sees it, and a run of them against one store.\<close>

record dpop_request =
  rq_now :: int
  rq_proof :: dpop_proof
  rq_action :: moqt_action
  rq_jkt :: bytes
  rq_ath :: "bytes option"
  rq_iss :: "string option"

definition dpop_run ::
  "crypto_env \<Rightarrow> 's store_ops \<Rightarrow> dpop_validator \<Rightarrow> dpop_request list \<Rightarrow> 's \<Rightarrow> 's \<times> dpop_request list" where
  "dpop_run C ops v = filter_run (\<lambda>r s. map_prod id is_ok
     (dpop_validate C (rq_now r) ops v (rq_proof r) (rq_action r) (rq_jkt r) (rq_ath r) (rq_iss r) s))"

text \<open>What identifies the use of a proof: issuer, holder key and \<open>cti\<close>.\<close>

definition use_id :: "dpop_request \<Rightarrow> string \<times> bytes \<times> bytes option" where
  "use_id r = (iss_text (rq_iss r), rq_jkt r, pl_cti (dp_payload (rq_proof r)))"

definition request_key :: "crypto_env \<Rightarrow> dpop_request \<Rightarrow> string" where
  "request_key C r =
     (case dpop_commit_key_forced C (rq_proof r) (rq_jkt r) (rq_iss r) of Some (k, _) \<Rightarrow> k | None \<Rightarrow> [])"

lemma accepted_step:
  assumes h: "should_honor_jti (dv_settings v)"
    and ok: "snd (dpop_validate C now ops v pf act jkt ath iss s) = Inr u"
  shows "\<exists>cti. pl_cti (dp_payload pf) = Some cti \<and>
     dpop_validate C now ops v pf act jkt ath iss s =
       st_insert ops (iss_text iss @ '':'' @ cr_hex C jkt @ '':'' @ cr_hex C cti) (pl_iat (dp_payload pf)) s"
proof -
  have v: "validate_without_jti_commit C now v pf act jkt ath = Inr ()"
    using ok by (auto simp: dpop_validate_def split: sum.splits)
  then obtain cti where "pl_cti (dp_payload pf) = Some cti"
    by (auto simp: validate_without_jti_commit_ok proof_bound_def)
  then show ?thesis
    using h v by (simp add: dpop_validate_def dv_insert_jti_def dpop_commit_key_def dpop_commit_key_forced_def)
qed

context jti_store
begin

text \<open>The validator over any store that keeps the contract: the requests it accepts have pairwise
  different keys, none of them remembered before.\<close>

lemma validate_step:
  assumes "st_insert ops = insert_jti" "should_honor_jti (dv_settings v)" "inv s"
  shows "inv (fst (dpop_validate C now ops v pf act jkt ath iss s)) \<and>
     seen s \<subseteq> seen (fst (dpop_validate C now ops v pf act jkt ath iss s)) \<and>
     (is_ok (snd (dpop_validate C now ops v pf act jkt ath iss s)) \<longrightarrow>
        (\<exists>cti. pl_cti (dp_payload pf) = Some cti \<and>
          iss_text iss @ '':'' @ cr_hex C jkt @ '':'' @ cr_hex C cti \<notin> seen s \<and>
          iss_text iss @ '':'' @ cr_hex C jkt @ '':'' @ cr_hex C cti
            \<in> seen (fst (dpop_validate C now ops v pf act jkt ath iss s))))"
    (is "_ \<and> _ \<and> (_ \<longrightarrow> ?fresh)")
proof (intro conjI impI)
  let ?r = "dpop_validate C now ops v pf act jkt ath iss s"
  show "inv (fst ?r)" "seen s \<subseteq> seen (fst ?r)"
    using insert_step[OF assms(3)] assms
    by (auto simp: dpop_validate_def dv_insert_jti_def split: sum.splits option.splits)
  assume "is_ok (snd ?r)"
  then obtain u where u: "snd ?r = Inr u" by (auto simp: is_ok_iff)
  from accepted_step[OF assms(2) u] obtain cti where cti: "pl_cti (dp_payload pf) = Some cti"
    and ins: "?r = insert_jti (iss_text iss @ '':'' @ cr_hex C jkt @ '':'' @ cr_hex C cti) (pl_iat (dp_payload pf)) s"
    unfolding assms(1) by blast
  show ?fresh
    using insert_step[OF assms(3), of "iss_text iss @ '':'' @ cr_hex C jkt @ '':'' @ cr_hex C cti"
        "pl_iat (dp_payload pf)"] u cti
    by (simp only: ins[symmetric]) auto
qed

lemma dpop_run_fresh:
  assumes "st_insert ops = insert_jti" "should_honor_jti (dv_settings v)" "inv s"
  shows "distinct (map (request_key C) (snd (dpop_run C ops v rs s)))"
proof -
  have "distinct (map (request_key C) (snd (dpop_run C ops v rs s))) \<and>
      request_key C ` set (snd (dpop_run C ops v rs s)) \<inter> seen s = {}"
    unfolding dpop_run_def
    using validate_step[OF assms(1,2)] assms(3)
    by (intro filter_run_fresh[where inv = inv])
       (auto simp: request_key_def dpop_commit_key_forced_def, (fastforce+)?)
  then show ?thesis ..
qed

end

lemma request_key_use_id: "use_id r = use_id r' \<Longrightarrow> request_key C r = request_key C r'"
  by (auto simp: request_key_def dpop_commit_key_forced_def use_id_def split: option.splits)

lemma distinct_map_finer:
  assumes "distinct (map k xs)" "\<And>x y. u x = u y \<Longrightarrow> k x = k y"
  shows "distinct (map u xs)"
proof -
  have "distinct xs" "inj_on k (set xs)" using assms(1) by (simp_all add: distinct_map)
  moreover have "inj_on u (set xs)"
    by (rule inj_onI) (use assms(2) \<open>inj_on k (set xs)\<close> in \<open>blast dest: inj_onD\<close>)
  ultimately show ?thesis by (simp add: distinct_map)
qed

text \<open>Over the strict store, a validator that honours \<open>jti\<close> accepts no two requests with the same issuer, holder
  key and \<open>cti\<close>, in any run.\<close>

lemma strict_run_single_use:
  assumes "should_honor_jti (dv_settings v)" "strict_inv hash s"
  shows "distinct (map use_id (snd (dpop_run C (strict_ops hash now) v rs s)))"
proof -
  have "st_insert (strict_ops hash now) = strict_check_and_insert hash" by (simp add: strict_ops_def)
  from ss.dpop_run_fresh[OF this assms, of C rs] show ?thesis by (rule distinct_map_finer) (rule request_key_use_id)
qed

section \<open>Properties\<close>

text \<open>Proofs with the same commit key were made for the same issuer text, by the same holder key and with
  the same \<open>cti\<close>, so remembering one never blocks another.\<close>

lemma commit_key_distinguishes:
  assumes "hex_law (cr_hex C)" "dpop_commit_key_forced C pf jkt iss = Some (k, i)"
    and "dpop_commit_key_forced C pf' jkt' iss' = Some (k, i')"
  shows "iss_text iss = iss_text iss' \<and> jkt = jkt' \<and> pl_cti (dp_payload pf) = pl_cti (dp_payload pf')"
proof -
  obtain c c' where c: "pl_cti (dp_payload pf) = Some c" "pl_cti (dp_payload pf') = Some c'"
    and "k = iss_text iss @ '':'' @ cr_hex C jkt @ '':'' @ cr_hex C c"
    and "k = iss_text iss' @ '':'' @ cr_hex C jkt' @ '':'' @ cr_hex C c'"
    using assms(2,3) by (auto simp: dpop_commit_key_forced_def split: option.splits)
  then show ?thesis using commit_key_inj[OF assms(1)] by metis
qed

end
