(* ===== verification/Moqt_Auth.thy ===== *)
theory Moqt_Auth
  imports Pipeline Token_Rules Dpop_Validator
begin

text \<open>
  The authorization of a MOQT request (\<open>src/src/moqt.rs\<close>): the request context, the validator and
  its builders, the fail-closed pre-commit pipeline with its numbered steps, and the commit to the
  two replay stores.

  The clock, the random draw, the great-circle distance and the primitives of the libraries are
  fields of \<open>auth_env\<close>; the replay stores are passed as state.
\<close>

section \<open>Request context\<close>

record relay_request_context =
  rc_relay_endpoint :: string
  rc_action :: moqt_action
  rc_namespace :: "bytes list"
  rc_track :: bytes
  rc_peer_tls_alpn :: "bytes option"
  rc_peer_ip :: "ip_addr option"
  rc_peer_asn :: "u32 option"
  rc_request_uri :: "string option"
  rc_request_method :: "string option"
  rc_request_headers :: "(string \<times> string) list"
  rc_tenant_id :: "string option"
  rc_dpop_proof :: "dpop_proof option"
  rc_expected_dpop_nonce :: "string option"
  rc_peer_location :: "request_location option"

definition context_new :: "string \<Rightarrow> moqt_action \<Rightarrow> bytes list \<Rightarrow> bytes \<Rightarrow> relay_request_context" where
  "context_new e a ns t =
     \<lparr>rc_relay_endpoint = e, rc_action = a, rc_namespace = ns, rc_track = t, rc_peer_tls_alpn = None,
      rc_peer_ip = None, rc_peer_asn = None, rc_request_uri = None, rc_request_method = None,
      rc_request_headers = [], rc_tenant_id = None, rc_dpop_proof = None, rc_expected_dpop_nonce = None,
      rc_peer_location = None\<rparr>"

definition with_peer_tls_alpn :: "bytes \<Rightarrow> relay_request_context \<Rightarrow> relay_request_context" where
  "with_peer_tls_alpn a c = c\<lparr>rc_peer_tls_alpn := Some a\<rparr>"
definition with_peer_ip :: "ip_addr \<Rightarrow> relay_request_context \<Rightarrow> relay_request_context" where
  "with_peer_ip a c = c\<lparr>rc_peer_ip := Some a\<rparr>"
definition with_peer_asn :: "u32 \<Rightarrow> relay_request_context \<Rightarrow> relay_request_context" where
  "with_peer_asn a c = c\<lparr>rc_peer_asn := Some a\<rparr>"
definition with_request_uri :: "string \<Rightarrow> relay_request_context \<Rightarrow> relay_request_context" where
  "with_request_uri u c = c\<lparr>rc_request_uri := Some u\<rparr>"
definition with_request_method :: "string \<Rightarrow> relay_request_context \<Rightarrow> relay_request_context" where
  "with_request_method m c = c\<lparr>rc_request_method := Some m\<rparr>"
definition with_tenant_id :: "string \<Rightarrow> relay_request_context \<Rightarrow> relay_request_context" where
  "with_tenant_id t c = c\<lparr>rc_tenant_id := Some t\<rparr>"
definition with_dpop_proof :: "dpop_proof \<Rightarrow> relay_request_context \<Rightarrow> relay_request_context" where
  "with_dpop_proof p c = c\<lparr>rc_dpop_proof := Some p\<rparr>"
definition with_expected_dpop_nonce :: "string \<Rightarrow> relay_request_context \<Rightarrow> relay_request_context" where
  "with_expected_dpop_nonce n c = c\<lparr>rc_expected_dpop_nonce := Some n\<rparr>"
definition with_peer_location :: "request_location \<Rightarrow> relay_request_context \<Rightarrow> relay_request_context" where
  "with_peer_location l c = c\<lparr>rc_peer_location := Some l\<rparr>"

definition name_byte_bad :: "char \<Rightarrow> bool" where
  "name_byte_bad c \<longleftrightarrow> ord_of c \<in> {0x00, 0x0D, 0x0A, 0x20, 0x09, 0x3A}"

definition value_byte_bad :: "char \<Rightarrow> bool" where
  "value_byte_bad c \<longleftrightarrow> ord_of c \<in> {0x00, 0x0D, 0x0A}"

definition validate_header_pair :: "string \<Rightarrow> string \<Rightarrow> unit result" where
  "validate_header_pair name v =
     (if name = [] then Inl (InvalidClaimValue ''request header name must be non-empty'')
      else if \<not> list_all is_ascii_char name then Inl (InvalidClaimValue ''request header name is not ASCII'')
      else
        rbind (for_each (\<lambda>b. if name_byte_bad b
                 then Inl (InvalidClaimValue ''request header name contains disallowed byte'') else Inr ()) name)
          (\<lambda>_. for_each (\<lambda>b. if value_byte_bad b
                 then Inl (InvalidClaimValue ''request header value contains framing byte'') else Inr ()) v))"

definition with_request_headers ::
  "(string \<times> string) list \<Rightarrow> relay_request_context \<Rightarrow> relay_request_context result" where
  "with_request_headers hs c =
     rbind (for_each (\<lambda>(n, v). validate_header_pair n v) hs) (\<lambda>_. Inr (c\<lparr>rc_request_headers := hs\<rparr>))"

definition add_request_header ::
  "string \<Rightarrow> string \<Rightarrow> relay_request_context \<Rightarrow> relay_request_context result" where
  "add_request_header n v c =
     rbind (validate_header_pair n v)
       (\<lambda>_. Inr (c\<lparr>rc_request_headers := rc_request_headers c @ [(n, v)]\<rparr>))"

text \<open>The contexts the public methods can build.\<close>

inductive context_built :: "relay_request_context \<Rightarrow> bool" where
  cb_new: "context_built (context_new e a ns t)"
| cb_alpn: "context_built c \<Longrightarrow> context_built (with_peer_tls_alpn x c)"
| cb_ip: "context_built c \<Longrightarrow> context_built (with_peer_ip ip c)"
| cb_asn: "context_built c \<Longrightarrow> context_built (with_peer_asn n c)"
| cb_uri: "context_built c \<Longrightarrow> context_built (with_request_uri u c)"
| cb_method: "context_built c \<Longrightarrow> context_built (with_request_method m c)"
| cb_headers: "context_built c \<Longrightarrow> with_request_headers hs c = Inr c' \<Longrightarrow> context_built c'"
| cb_header: "context_built c \<Longrightarrow> add_request_header hn hv c = Inr c' \<Longrightarrow> context_built c'"
| cb_tenant: "context_built c \<Longrightarrow> context_built (with_tenant_id tn c)"
| cb_proof: "context_built c \<Longrightarrow> context_built (with_dpop_proof pf c)"
| cb_nonce: "context_built c \<Longrightarrow> context_built (with_expected_dpop_nonce no c)"
| cb_location: "context_built c \<Longrightarrow> context_built (with_peer_location l c)"

definition header_clean :: "string \<times> string \<Rightarrow> bool" where
  "header_clean h \<longleftrightarrow> fst h \<noteq> [] \<and> list_all (\<lambda>c. is_ascii_char c \<and> \<not> name_byte_bad c) (fst h) \<and>
     list_all (\<lambda>c. \<not> value_byte_bad c) (snd h)"

lemma validate_header_pair_ok: "validate_header_pair n v = Inr () \<longleftrightarrow> header_clean (n, v)"
  by (auto simp: validate_header_pair_def header_clean_def list_all_iff)

lemmas context_defs = context_new_def with_peer_tls_alpn_def with_peer_ip_def with_peer_asn_def
  with_request_uri_def with_request_method_def with_tenant_id_def with_dpop_proof_def
  with_expected_dpop_nonce_def with_peer_location_def with_request_headers_def add_request_header_def

text \<open>Whatever sequence of builders made a request context, no header in it carries a framing byte.\<close>

lemma context_headers_clean: "context_built c \<Longrightarrow> list_all header_clean (rc_request_headers c)"
  by (induction c rule: context_built.induct)
     (auto simp: context_defs list_all_iff validate_header_pair_ok)

section \<open>Validator\<close>

record moqt_validator =
  mv_min_reval :: "f64 option"
  mv_supports_reval :: bool
  mv_dpop :: "dpop_validator option"
  mv_expected_resource :: "string option"
  mv_require_aud :: bool
  mv_require_dpop :: bool
  mv_require_cattpk :: bool
  mv_require_tracking :: bool

definition mv_new :: moqt_validator where
  "mv_new = \<lparr>mv_min_reval = None, mv_supports_reval = True, mv_dpop = None, mv_expected_resource = None,
     mv_require_aud = True, mv_require_dpop = False, mv_require_cattpk = False, mv_require_tracking = False\<rparr>"

definition with_min_revalidation_interval :: "f64 \<Rightarrow> moqt_validator \<Rightarrow> moqt_validator" where
  "with_min_revalidation_interval s v = v\<lparr>mv_min_reval := Some s\<rparr>"
definition disable_revalidation_support :: "moqt_validator \<Rightarrow> moqt_validator" where
  "disable_revalidation_support v = v\<lparr>mv_supports_reval := False\<rparr>"
definition dpop_best_effort :: "catdpop_settings \<Rightarrow> moqt_validator \<Rightarrow> moqt_validator" where
  "dpop_best_effort st v = v\<lparr>mv_dpop := Some (dv_new st)\<rparr>"
definition dpop_strict :: "catdpop_settings \<Rightarrow> 's store_ops \<Rightarrow> moqt_validator \<Rightarrow> moqt_validator result" where
  "dpop_strict st ops v = rbind (dv_with_jti_store_strict st ops) (\<lambda>d. Inr (v\<lparr>mv_dpop := Some d\<rparr>))"
definition with_expected_resource :: "string \<Rightarrow> moqt_validator \<Rightarrow> moqt_validator" where
  "with_expected_resource r v = v\<lparr>mv_expected_resource := Some r\<rparr>"
definition dangerously_allow_missing_audience :: "moqt_validator \<Rightarrow> moqt_validator" where
  "dangerously_allow_missing_audience v = v\<lparr>mv_require_aud := False\<rparr>"
definition require_dpop :: "moqt_validator \<Rightarrow> moqt_validator" where
  "require_dpop v = v\<lparr>mv_require_dpop := True\<rparr>"
definition require_cattpk :: "moqt_validator \<Rightarrow> moqt_validator" where
  "require_cattpk v = v\<lparr>mv_require_cattpk := True\<rparr>"
definition require_dpop_replay_tracking :: "moqt_validator \<Rightarrow> moqt_validator" where
  "require_dpop_replay_tracking v = v\<lparr>mv_require_tracking := True\<rparr>"

definition check_reval :: "moqt_validator \<Rightarrow> f64 \<Rightarrow> unit result" where
  "check_reval v reval =
     (if \<not> mv_supports_reval v then Inl RevalidationRequired
      else case mv_min_reval v of
        Some m \<Rightarrow>
          (if f64_gt reval (Fin 0) \<and> f64_lt reval m then Inl RevalidationIntervalTooShort else Inr ())
      | None \<Rightarrow> Inr ())"

definition check_scope_actions :: "moqt_scope \<Rightarrow> unit result" where
  "check_scope_actions s =
     for_each (\<lambda>a. if \<not> moqt_action_is_valid (moqt_action_i32 a)
                   then Inl (InvalidClaimValue ''Invalid MOQT action: '') else Inr ()) (actions s)"

definition validate_moqt_claims :: "moqt_validator \<Rightarrow> cat_token \<Rightarrow> unit result" where
  "validate_moqt_claims v t =
     rbind (case mq_reval (t_moqt t) of Some r \<Rightarrow> check_reval v r | None \<Rightarrow> Inr ()) (\<lambda>_.
       case mq_moqt (t_moqt t) of Some ss \<Rightarrow> for_each check_scope_actions ss | None \<Rightarrow> Inr ())"

lemma check_scope_actions_ok [simp]: "check_scope_actions s = Inr ()"
  by (simp add: check_scope_actions_def)

lemma validate_moqt_claims_ok:
  "validate_moqt_claims v t = Inr () \<longleftrightarrow>
     (\<forall>r. mq_reval (t_moqt t) = Some r \<longrightarrow> check_reval v r = Inr ())"
  by (auto simp: validate_moqt_claims_def split: option.splits)

section \<open>Scope match\<close>

definition scope_matches :: "moqt_scope \<Rightarrow> relay_request_context \<Rightarrow> bool" where
  "scope_matches s c =
     (if \<not> allows_action s (rc_action c) then False
      else if \<not> ns_matches_from 0 (namespace_matches s) (rc_namespace c) then False
      else case track_match s of
             Some m \<Rightarrow> (if \<not> bm_matches m (rc_track c) then False else True)
           | None \<Rightarrow> True)"

definition match_scope_index :: "cat_token \<Rightarrow> relay_request_context \<Rightarrow> nat option" where
  "match_scope_index t c =
     (case mq_moqt (t_moqt t) of
        None \<Rightarrow> None
      | Some scopes \<Rightarrow> position_of (\<lambda>s. scope_matches s c) scopes)"

lemma scope_matches_grants:
  "scope_matches s c \<longleftrightarrow> scope_grants s (rc_action c) (rc_namespace c) (rc_track c)"
  by (auto simp: scope_matches_def scope_grants_def matches_full_track_name_def split: option.splits)

section \<open>Shape of the proof's resource\<close>

definition enforce_resource_shape :: "moqt_action \<Rightarrow> moqt_resource_uri \<Rightarrow> unit result" where
  "enforce_resource_shape a u =
     (case resource_shape a of
        ShapeEndpoint \<Rightarrow>
          (if mu_namespace u \<noteq> None \<or> mu_track u \<noteq> None
           then Inl (dpop_err ''DPoP proof resource carries namespace/track for setup action'') else Inr ())
      | ShapeNamespace \<Rightarrow>
          (if mu_namespace u = None then Inl (dpop_err ''DPoP proof resource missing namespace'')
           else if mu_track u \<noteq> None
             then Inl (dpop_err ''DPoP proof resource carries track for namespace action'') else Inr ())
      | ShapeTrack \<Rightarrow>
          (if mu_namespace u = None \<or> mu_track u = None
           then Inl (dpop_err ''DPoP proof resource missing namespace or track for track action'') else Inr ()))"

definition enforce_actx_shape :: "moqt_action \<Rightarrow> authorization_context \<Rightarrow> unit result" where
  "enforce_actx_shape a x =
     (case resource_shape a of
        ShapeEndpoint \<Rightarrow>
          (if ax_tns x \<noteq> [] then Inl (dpop_err ''DPoP actx carries namespace for setup action'')
           else if ax_tn x \<noteq> [] then Inl (dpop_err ''DPoP actx carries track for setup action'') else Inr ())
      | ShapeNamespace \<Rightarrow>
          (if ax_tns x = [] then Inl (dpop_err ''DPoP actx missing namespace'')
           else if ax_tn x \<noteq> [] then Inl (dpop_err ''DPoP actx carries track for namespace action'')
           else Inr ())
      | ShapeTrack \<Rightarrow>
          (if ax_tns x = [] \<or> ax_tn x = []
           then Inl (dpop_err ''DPoP actx missing namespace or track for track action'') else Inr ()))"

text \<open>The shape an action demands of a namespace and a track.\<close>

definition shape_allows :: "moqt_action \<Rightarrow> bool \<Rightarrow> bool \<Rightarrow> bool" where
  "shape_allows a has_ns has_track \<longleftrightarrow>
     (case resource_shape a of
        ShapeEndpoint \<Rightarrow> \<not> has_ns \<and> \<not> has_track
      | ShapeNamespace \<Rightarrow> has_ns \<and> \<not> has_track
      | ShapeTrack \<Rightarrow> has_ns \<and> has_track)"

lemma enforce_resource_shape_ok:
  "enforce_resource_shape a u = Inr () \<longleftrightarrow> shape_allows a (mu_namespace u \<noteq> None) (mu_track u \<noteq> None)"
  by (auto simp: enforce_resource_shape_def shape_allows_def split: moqt_resource_shape.splits)

lemma enforce_actx_shape_ok:
  "enforce_actx_shape a x = Inr () \<longleftrightarrow> shape_allows a (ax_tns x \<noteq> []) (ax_tn x \<noteq> [])"
  by (auto simp: enforce_actx_shape_def shape_allows_def split: moqt_resource_shape.splits)

end
