(* ===== verification/Moqt_Authorize.thy ===== *)
theory Moqt_Authorize
  imports Moqt_Auth
begin

text \<open>
  The authorization pipeline of \<open>src/src/moqt.rs\<close>: \<open>authorize_precommit\<close> with its steps in source
  order, \<open>commit\<close> with its two stores, and the two entry points. The lemmas at the end state what a
  successful run has established.
\<close>

section \<open>Environment and results\<close>

record auth_env =
  ae_crypto :: crypto_env
  ae_match :: match_env
  ae_haversine :: "f64 \<Rightarrow> f64 \<Rightarrow> f64 \<Rightarrow> f64 \<Rightarrow> f64"
  ae_draw :: "f64 result"
  ae_now :: int

datatype cat_replay_obligation = ObProhibited bytes | ObReuseDetection bytes

record pre_commit =
  pc_scope_index :: nat
  pc_renewal :: "cat_renewal option"
  pc_revalidation :: "f64 option"
  pc_jti_commit :: "(string \<times> int) option"
  pc_replay :: "cat_replay_obligation option"

record authorized_request =
  au_scope_index :: nat
  au_requires_revalidation :: bool
  au_revalidation_interval :: "f64 option"
  au_renewal :: "cat_renewal option"
  au_reuse_detected :: bool

definition allowed :: "nat \<Rightarrow> authorized_request" where
  "allowed i = \<lparr>au_scope_index = i, au_requires_revalidation = False, au_revalidation_interval = None,
     au_renewal = None, au_reuse_detected = False\<rparr>"

definition finalize :: "pre_commit \<Rightarrow> bool \<Rightarrow> authorized_request" where
  "finalize p reuse =
     (let a = (allowed (pc_scope_index p))\<lparr>au_reuse_detected := reuse, au_renewal := pc_renewal p\<rparr>
      in case pc_revalidation p of
           Some interval \<Rightarrow>
             (if f64_gt interval (Fin 0)
              then a\<lparr>au_requires_revalidation := True, au_revalidation_interval := Some interval\<rparr> else a)
         | None \<Rightarrow> a)"

section \<open>Steps 2 to 8\<close>

definition step_version :: "cat_token \<Rightarrow> unit result" where
  "step_version t =
     (case catv (t_cat t) of
        Some v \<Rightarrow> (if v > 1 then Inl (InvalidClaimValue ''catv: unsupported token version'') else Inr ())
      | None \<Rightarrow> Inr ())"

definition step_audience :: "moqt_validator \<Rightarrow> cat_token \<Rightarrow> relay_request_context \<Rightarrow> unit result" where
  "step_audience v t c =
     (case c_aud (t_core t) of
        Some auds \<Rightarrow> (if rc_relay_endpoint c \<notin> set auds then Inl InvalidAudience else Inr ())
      | None \<Rightarrow> (if mv_require_aud v then Inl (MissingRequiredClaim ''aud'') else Inr ()))"

definition step_policy :: "moqt_validator \<Rightarrow> cat_token \<Rightarrow> unit result" where
  "step_policy v t =
     (if mv_require_dpop v \<and> cnf (t_dpop t) = None then Inl (MissingRequiredClaim ''cnf'')
      else if mv_require_cattpk v \<and> cattpk (t_cat t) = None then Inl (MissingRequiredClaim ''cattpk'')
      else Inr ())"

definition step_alpn :: "cat_token \<Rightarrow> relay_request_context \<Rightarrow> unit result" where
  "step_alpn t c =
     (case catalpn (t_cat t) of
        None \<Rightarrow> Inr ()
      | Some alpns \<Rightarrow>
          rbind (ok_or (rc_peer_tls_alpn c) (MissingRelayContext ''catalpn'' ''peer_tls_alpn'')) (\<lambda>peer.
            if \<not> list_ex (\<lambda>a. a = peer) alpns
            then Inl (InvalidClaimValue ''peer TLS ALPN does not match token catalpn'') else Inr ()))"

definition step_uri :: "auth_env \<Rightarrow> cat_token \<Rightarrow> relay_request_context \<Rightarrow> unit result" where
  "step_uri A t c =
     (if catu (t_cat t) \<noteq> None then
        rbind (ok_or (rc_request_uri c) (MissingRelayContext ''catu'' ''request_uri''))
          (enforce_catu (ae_match A) t)
      else Inr ())"

definition step_method :: "cat_token \<Rightarrow> relay_request_context \<Rightarrow> unit result" where
  "step_method t c =
     (if catm (t_cat t) \<noteq> None then
        rbind (ok_or (rc_request_method c) (MissingRelayContext ''catm'' ''request_method'')) (validate_method t)
      else Inr ())"

definition step_headers :: "auth_env \<Rightarrow> cat_token \<Rightarrow> relay_request_context \<Rightarrow> unit result" where
  "step_headers A t c =
     (if cath (t_cat t) \<noteq> None then validate_all_headers (ae_match A) t (rc_request_headers c) else Inr ())"

text \<open>Steps 1 to 8b, in order.\<close>

definition precommit_claims ::
  "auth_env \<Rightarrow> moqt_validator \<Rightarrow> cat_token \<Rightarrow> relay_request_context \<Rightarrow> unit result" where
  "precommit_claims A v t c =
     rbind (validate_moqt_claims v t) (\<lambda>_.
     rbind (step_version t) (\<lambda>_.
     rbind (step_audience v t c) (\<lambda>_.
     rbind (step_policy v t) (\<lambda>_.
     rbind (step_alpn t c) (\<lambda>_.
     rbind (step_uri A t c) (\<lambda>_.
     rbind (step_method t c) (\<lambda>_.
     rbind (step_headers A t c) (\<lambda>_.
     rbind (enforce_catnip t (rc_peer_ip c) (rc_peer_asn c)) (\<lambda>_.
     enforce_geo (ae_haversine A) t (rc_peer_location c))))))))))"

section \<open>Steps 9 to 11\<close>

definition step_catpor ::
  "auth_env \<Rightarrow> cat_token \<Rightarrow> (bytes \<Rightarrow> bool) option \<Rightarrow> (bytes \<times> int option) option \<times> unit result" where
  "step_catpor A t blocked =
     (if catpor (t_cat t) \<noteq> None then
        (case blocked of
           Some b \<Rightarrow> enforce_catpor b (ae_draw A) t
         | None \<Rightarrow> (None, Inl (MissingRelayContext ''catpor'' ''catpor_block_list'')))
      else (None, Inr ()))"

definition step_replay :: "cat_token \<Rightarrow> bool \<Rightarrow> cat_replay_obligation option result" where
  "step_replay t guard =
     (case catreplay (t_cat t) of
        Some ReplayProhibited \<Rightarrow>
          (if \<not> guard then Inl (MissingRelayContext ''catreplay'' ''replay_guard'')
           else rbind (ok_or (c_cti (t_core t)) (MissingRequiredClaim ''cti required when catreplay=Prohibited''))
                  (\<lambda>cti. Inr (Some (ObProhibited cti))))
      | Some ReplayReuseDetection \<Rightarrow>
          (if \<not> guard then Inl (MissingRelayContext ''catreplay'' ''replay_guard'')
           else rbind (ok_or (c_cti (t_core t)) (MissingRequiredClaim ''cti required when catreplay=ReuseDetection''))
                  (\<lambda>cti. Inr (Some (ObReuseDetection cti))))
      | _ \<Rightarrow> Inr None)"

section \<open>Step 12\<close>

definition dpop_tuple_check :: "relay_request_context \<Rightarrow> authorization_context \<Rightarrow> unit result" where
  "dpop_tuple_check c x =
     (if resource_shape (rc_action c) = ShapeEndpoint then Inr ()
      else if ax_tns x \<noteq> rc_namespace c then Inl (dpop_err ''DPoP proof namespace does not match request'')
      else if ax_tn x \<noteq> rc_track c then Inl (dpop_err ''DPoP proof track does not match request'')
      else Inr ())"

definition dpop_expected_resource :: "moqt_validator \<Rightarrow> authorization_context \<Rightarrow> unit result" where
  "dpop_expected_resource v x =
     (case mv_expected_resource v of
        None \<Rightarrow> Inr ()
      | Some expected \<Rightarrow>
          (case ax_resource x of
             Some r \<Rightarrow> (if r \<noteq> expected then Inl (dpop_err ''DPoP proof resource does not match expected'') else Inr ())
           | None \<Rightarrow> Inl (dpop_err ''DPoP proof missing required resource binding'')))"

definition dpop_resource_check ::
  "auth_env \<Rightarrow> relay_request_context \<Rightarrow> authorization_context \<Rightarrow> unit result" where
  "dpop_resource_check A c x =
     (case ax_resource x of
        None \<Rightarrow> Inr ()
      | Some r \<Rightarrow>
          rbind (parse_moqt_resource_uri (ce_b64d (ae_crypto A)) r) (\<lambda>u.
            if mu_endpoint u \<noteq> rc_relay_endpoint c
            then Inl (dpop_err ''DPoP proof resource endpoint does not match relay'')
            else if (case mu_namespace u of Some ns \<Rightarrow> ax_tns x \<noteq> ns | None \<Rightarrow> False)
              then Inl (dpop_err ''DPoP proof resource namespace tuple disagrees with actx.tns'')
            else if (case mu_track u of Some tn \<Rightarrow> ax_tn x \<noteq> tn | None \<Rightarrow> False)
              then Inl (dpop_err ''DPoP proof resource track disagrees with actx.tn'')
            else enforce_resource_shape (rc_action c) u))"

definition dpop_nonce_check :: "relay_request_context \<Rightarrow> dpop_payload \<Rightarrow> unit result" where
  "dpop_nonce_check c p =
     (case rc_expected_dpop_nonce c of
        None \<Rightarrow> Inr ()
      | Some expected \<Rightarrow>
          (case pl_nonce p of
             Some actual \<Rightarrow>
               (if actual = expected then Inr ()
                else Inl (dpop_err ''DPoP proof nonce does not match server challenge''))
           | None \<Rightarrow> Inl (dpop_err ''DPoP proof missing required server nonce'')))"

definition step_dpop ::
  "auth_env \<Rightarrow> moqt_validator \<Rightarrow> validated_token \<Rightarrow> relay_request_context \<Rightarrow> (string \<times> int) option result" where
  "step_dpop A v tok c =
     (let t = validated_claims tok; C = ae_crypto A
      in case cnf (t_dpop t) of
        None \<Rightarrow> Inr None
      | Some cn \<Rightarrow>
          rbind (ok_or (rc_dpop_proof c) (dpop_err ''Token requires DPoP proof but none provided'')) (\<lambda>pf.
          rbind (ok_or (mv_dpop v) (dpop_err ''DPoP validation not configured'')) (\<lambda>dv.
          rbind (jwk_thumbprint (cr_sha256 C) pf) (\<lambda>jkt.
          if \<not> confirmation_matches_thumbprint cn jkt then Inl InvalidDpopBinding
          else
            rbind (validate_without_jti_commit C (ae_now A) dv pf (rc_action c) (cnf_jkt cn)
                     (Some (cr_sha256 C (validated_serialized tok)))) (\<lambda>_.
            rbind (dpop_tuple_check c (pl_actx (dp_payload pf))) (\<lambda>_.
            rbind (dpop_expected_resource v (pl_actx (dp_payload pf))) (\<lambda>_.
            rbind (dpop_resource_check A c (pl_actx (dp_payload pf))) (\<lambda>_.
            rbind (enforce_actx_shape (rc_action c) (pl_actx (dp_payload pf))) (\<lambda>_.
            rbind (dpop_nonce_check c (dp_payload pf)) (\<lambda>_.
            Inr (if mv_require_tracking v
                 then dpop_commit_key_forced C pf (cnf_jkt cn) (c_iss (t_core t))
                 else dpop_commit_key C dv pf (cnf_jkt cn) (c_iss (t_core t)))))))))))))"

text \<open>Steps 10 to 12 and the result.\<close>

definition precommit_rest ::
  "auth_env \<Rightarrow> moqt_validator \<Rightarrow> validated_token \<Rightarrow> relay_request_context \<Rightarrow> bool \<Rightarrow> pre_commit result" where
  "precommit_rest A v tok c guard =
     (let t = validated_claims tok
      in rbind (step_replay t guard) (\<lambda>ob.
         rbind (ok_or (match_scope_index t c) (MoqtActionNotAuthorized ''no MOQT scope matches action'')) (\<lambda>i.
         rbind (step_dpop A v tok c) (\<lambda>commit.
         Inr \<lparr>pc_scope_index = i, pc_renewal = catr (t_request t), pc_revalidation = mq_reval (t_moqt t),
              pc_jti_commit = commit, pc_replay = ob\<rparr>))))"

text \<open>The first component is the entry step 9 adds to the block list.\<close>

definition authorize_precommit ::
  "auth_env \<Rightarrow> moqt_validator \<Rightarrow> validated_token \<Rightarrow> relay_request_context \<Rightarrow> bool \<Rightarrow> (bytes \<Rightarrow> bool) option \<Rightarrow>
     (bytes \<times> int option) option \<times> pre_commit result" where
  "authorize_precommit A v tok c guard blocked =
     (case precommit_claims A v (validated_claims tok) c of
        Inl e \<Rightarrow> (None, Inl e)
      | Inr _ \<Rightarrow>
          (case step_catpor A (validated_claims tok) blocked of
             (add, Inl e) \<Rightarrow> (add, Inl e)
           | (add, Inr _) \<Rightarrow> (add, precommit_rest A v tok c guard)))"

section \<open>Commit\<close>

text \<open>The replay guard is its \<open>check_and_record\<close> over its own state.\<close>

type_synonym 'g replay_guard = "bytes \<Rightarrow> 'g \<Rightarrow> 'g \<times> bool result"

definition commit_jti ::
  "'s store_ops \<Rightarrow> moqt_validator \<Rightarrow> pre_commit \<Rightarrow> 's \<Rightarrow> 's \<times> unit result" where
  "commit_jti ops v p s =
     (case pc_jti_commit p of
        None \<Rightarrow> (s, Inr ())
      | Some (key, iat) \<Rightarrow>
          (case mv_dpop v of
             None \<Rightarrow> (s, Inl (dpop_err ''DPoP JTI commit requested but validator not configured''))
           | Some _ \<Rightarrow> st_insert ops key iat s))"

definition commit_cti ::
  "'g replay_guard option \<Rightarrow> pre_commit \<Rightarrow> 'g \<Rightarrow> 'g \<times> bool result" where
  "commit_cti guard p g =
     (case pc_replay p of
        None \<Rightarrow> (g, Inr False)
      | Some (ObProhibited cti) \<Rightarrow>
          (case guard of
             None \<Rightarrow> (g, Inl (MissingRelayContext ''catreplay'' ''replay_guard''))
           | Some chk \<Rightarrow>
               (case chk cti g of
                  (g1, Inl e) \<Rightarrow> (g1, Inl e)
                | (g1, Inr seen) \<Rightarrow> (g1, if seen then Inl ReplayAttackDetected else Inr False)))
      | Some (ObReuseDetection cti) \<Rightarrow>
          (case guard of
             None \<Rightarrow> (g, Inl (MissingRelayContext ''catreplay'' ''replay_guard''))
           | Some chk \<Rightarrow> chk cti g))"

definition commit ::
  "'s store_ops \<Rightarrow> moqt_validator \<Rightarrow> pre_commit \<Rightarrow> 'g replay_guard option \<Rightarrow> 's \<times> 'g \<Rightarrow>
     ('s \<times> 'g) \<times> authorized_request result" where
  "commit ops v p guard sg =
     (case commit_jti ops v p (fst sg) of
        (s1, Inl e) \<Rightarrow> ((s1, snd sg), Inl e)
      | (s1, Inr _) \<Rightarrow>
          (case commit_cti guard p (snd sg) of
             (g1, Inl e) \<Rightarrow> ((s1, g1), Inl e)
           | (g1, Inr reuse) \<Rightarrow> ((s1, g1), Inr (finalize p reuse))))"

text \<open>With a block list the first component is again what step 9 adds to it.\<close>

definition authorize_with_replay ::
  "auth_env \<Rightarrow> 's store_ops \<Rightarrow> moqt_validator \<Rightarrow> validated_token \<Rightarrow> relay_request_context \<Rightarrow>
     'g replay_guard \<Rightarrow> (bytes \<Rightarrow> bool) option \<Rightarrow> 's \<times> 'g \<Rightarrow>
     (bytes \<times> int option) option \<times> ('s \<times> 'g) \<times> authorized_request result" where
  "authorize_with_replay A ops v tok c guard blocked sg =
     (case authorize_precommit A v tok c True blocked of
        (add, Inl e) \<Rightarrow> (add, sg, Inl e)
      | (add, Inr p) \<Rightarrow> (add, commit ops v p (Some guard) sg))"

definition authorize ::
  "auth_env \<Rightarrow> 's store_ops \<Rightarrow> moqt_validator \<Rightarrow> validated_token \<Rightarrow> relay_request_context \<Rightarrow> 's \<Rightarrow>
     's \<times> authorized_request result" where
  "authorize A ops v tok c s =
     (case snd (authorize_precommit A v tok c False None) of
        Inl e \<Rightarrow> (s, Inl e)
      | Inr p \<Rightarrow>
          (case commit ops v p (None :: unit replay_guard option) (s, ()) of ((s1, _), r) \<Rightarrow> (s1, r)))"

definition catif_action_for :: "cat_token \<Rightarrow> int \<Rightarrow> cat_if_action option" where
  "catif_action_for t key =
     (case catif (t_request t) of
        None \<Rightarrow> None
      | Some acts \<Rightarrow> map_option snd (find (\<lambda>(k, _). k = key) acts))"

section \<open>What each step establishes\<close>

lemma step_version_ok: "step_version t = Inr () \<longleftrightarrow> (\<forall>v. catv (t_cat t) = Some v \<longrightarrow> v \<le> 1)"
  by (auto simp: step_version_def split: option.splits)

lemma step_audience_ok:
  "step_audience v t c = Inr () \<longleftrightarrow>
     (case c_aud (t_core t) of Some auds \<Rightarrow> rc_relay_endpoint c \<in> set auds | None \<Rightarrow> \<not> mv_require_aud v)"
  by (auto simp: step_audience_def split: option.splits)

lemma step_policy_ok:
  "step_policy v t = Inr () \<longleftrightarrow>
     (mv_require_dpop v \<longrightarrow> cnf (t_dpop t) \<noteq> None) \<and> (mv_require_cattpk v \<longrightarrow> cattpk (t_cat t) \<noteq> None)"
  by (auto simp: step_policy_def)

lemma step_alpn_ok:
  "step_alpn t c = Inr () \<longleftrightarrow>
     (\<forall>as. catalpn (t_cat t) = Some as \<longrightarrow> (\<exists>p \<in> set as. rc_peer_tls_alpn c = Some p))"
  by (cases "catalpn (t_cat t)"; cases "rc_peer_tls_alpn c") (auto simp: step_alpn_def list_ex_iff)

lemma step_uri_ok:
  "step_uri A t c = Inr () \<longleftrightarrow>
     (catu (t_cat t) \<noteq> None \<longrightarrow>
        (\<exists>u. rc_request_uri c = Some u \<and> enforce_catu (ae_match A) t u = Inr ()))"
  by (simp add: step_uri_def)

lemma step_method_ok:
  "step_method t c = Inr () \<longleftrightarrow>
     (\<forall>ms. catm (t_cat t) = Some ms \<longrightarrow> (\<exists>m \<in> set ms. rc_request_method c = Some m))"
  by (cases "catm (t_cat t)"; cases "rc_request_method c")
     (auto simp: step_method_def validate_method_def list_ex_iff)

text \<open>The signed claims a request has to satisfy before the scope is looked at.\<close>

definition claims_satisfied ::
  "auth_env \<Rightarrow> moqt_validator \<Rightarrow> cat_token \<Rightarrow> relay_request_context \<Rightarrow> bool" where
  "claims_satisfied A v t c \<longleftrightarrow>
     (\<forall>r. mq_reval (t_moqt t) = Some r \<longrightarrow> check_reval v r = Inr ()) \<and>
     (\<forall>n. catv (t_cat t) = Some n \<longrightarrow> n \<le> 1) \<and>
     (case c_aud (t_core t) of Some auds \<Rightarrow> rc_relay_endpoint c \<in> set auds | None \<Rightarrow> \<not> mv_require_aud v) \<and>
     (mv_require_dpop v \<longrightarrow> cnf (t_dpop t) \<noteq> None) \<and>
     (mv_require_cattpk v \<longrightarrow> cattpk (t_cat t) \<noteq> None) \<and>
     (\<forall>as. catalpn (t_cat t) = Some as \<longrightarrow> (\<exists>p \<in> set as. rc_peer_tls_alpn c = Some p)) \<and>
     (catu (t_cat t) \<noteq> None \<longrightarrow>
        (\<exists>u. rc_request_uri c = Some u \<and> enforce_catu (ae_match A) t u = Inr ())) \<and>
     (\<forall>ms. catm (t_cat t) = Some ms \<longrightarrow> (\<exists>m \<in> set ms. rc_request_method c = Some m)) \<and>
     validate_all_headers (ae_match A) t (rc_request_headers c) = Inr () \<and>
     enforce_catnip t (rc_peer_ip c) (rc_peer_asn c) = Inr () \<and>
     enforce_geo (ae_haversine A) t (rc_peer_location c) = Inr ()"

lemma step_headers_eq: "step_headers A t c = validate_all_headers (ae_match A) t (rc_request_headers c)"
  by (auto simp: step_headers_def validate_all_headers_def)

lemma precommit_claims_ok: "precommit_claims A v t c = Inr () \<longleftrightarrow> claims_satisfied A v t c"
  by (simp add: precommit_claims_def claims_satisfied_def validate_moqt_claims_ok step_version_ok
      step_audience_ok step_policy_ok step_alpn_ok step_uri_ok step_method_ok step_headers_eq)

definition rejection_satisfied :: "auth_env \<Rightarrow> cat_token \<Rightarrow> (bytes \<Rightarrow> bool) option \<Rightarrow> bool" where
  "rejection_satisfied A t blocked \<longleftrightarrow>
     (\<forall>p. catpor (t_cat t) = Some p \<longrightarrow>
        (\<exists>b r. blocked = Some b \<and> \<not> b (por_id p) \<and> ae_draw A = Inr r \<and> \<not> f64_lt r (por_probability p)))"

lemma step_catpor_ok:
  "snd (step_catpor A t blocked) = Inr () \<longleftrightarrow> rejection_satisfied A t blocked"
  by (cases "catpor (t_cat t)"; cases blocked; cases "ae_draw A")
     (auto simp: step_catpor_def rejection_satisfied_def enforce_catpor_def)

definition obligation_of :: "cat_token \<Rightarrow> cat_replay_obligation option" where
  "obligation_of t =
     (case (catreplay (t_cat t), c_cti (t_core t)) of
        (Some ReplayProhibited, Some cti) \<Rightarrow> Some (ObProhibited cti)
      | (Some ReplayReuseDetection, Some cti) \<Rightarrow> Some (ObReuseDetection cti)
      | _ \<Rightarrow> None)"

lemma step_replay_ok:
  "step_replay t guard = Inr ob \<longleftrightarrow>
     (catreplay (t_cat t) \<in> {Some ReplayProhibited, Some ReplayReuseDetection} \<longrightarrow>
        guard \<and> c_cti (t_core t) \<noteq> None) \<and> ob = obligation_of t"
  by (auto simp: step_replay_def obligation_of_def split: option.splits replay_protection.splits)

text \<open>The proof of possession: the checks of the validator against this token's confirmation and
  this token's bytes, the agreement with the request, and the resource and nonce bindings.\<close>

definition resource_agrees :: "auth_env \<Rightarrow> relay_request_context \<Rightarrow> authorization_context \<Rightarrow> bool" where
  "resource_agrees A c x \<longleftrightarrow>
     (\<forall>r. ax_resource x = Some r \<longrightarrow>
        (\<exists>u. parse_moqt_resource_uri (ce_b64d (ae_crypto A)) r = Inr u \<and>
           mu_endpoint u = rc_relay_endpoint c \<and>
           (\<forall>ns. mu_namespace u = Some ns \<longrightarrow> ax_tns x = ns) \<and>
           (\<forall>tn. mu_track u = Some tn \<longrightarrow> ax_tn x = tn) \<and>
           shape_allows (rc_action c) (mu_namespace u \<noteq> None) (mu_track u \<noteq> None)))"

definition proof_accepted ::
  "auth_env \<Rightarrow> moqt_validator \<Rightarrow> validated_token \<Rightarrow> relay_request_context \<Rightarrow> confirmation_claim \<Rightarrow>
     dpop_proof \<Rightarrow> dpop_validator \<Rightarrow> bool" where
  "proof_accepted A v tok c cn pf dv \<longleftrightarrow>
     rc_dpop_proof c = Some pf \<and> mv_dpop v = Some dv \<and>
     proof_bound (ae_crypto A) (ae_now A) dv pf (rc_action c) (cnf_jkt cn)
       (Some (cr_sha256 (ae_crypto A) (validated_serialized tok))) \<and>
     verify_with_embedded_key (ae_crypto A) pf = Inr () \<and>
     (resource_shape (rc_action c) \<noteq> ShapeEndpoint \<longrightarrow>
        ax_tns (pl_actx (dp_payload pf)) = rc_namespace c \<and> ax_tn (pl_actx (dp_payload pf)) = rc_track c) \<and>
     (\<forall>r. mv_expected_resource v = Some r \<longrightarrow> ax_resource (pl_actx (dp_payload pf)) = Some r) \<and>
     resource_agrees A c (pl_actx (dp_payload pf)) \<and>
     shape_allows (rc_action c) (ax_tns (pl_actx (dp_payload pf)) \<noteq> []) (ax_tn (pl_actx (dp_payload pf)) \<noteq> []) \<and>
     (\<forall>n. rc_expected_dpop_nonce c = Some n \<longrightarrow> pl_nonce (dp_payload pf) = Some n)"

definition proof_commit_key ::
  "auth_env \<Rightarrow> moqt_validator \<Rightarrow> cat_token \<Rightarrow> confirmation_claim \<Rightarrow> dpop_proof \<Rightarrow> dpop_validator \<Rightarrow>
     (string \<times> int) option" where
  "proof_commit_key A v t cn pf dv =
     (if mv_require_tracking v then dpop_commit_key_forced (ae_crypto A) pf (cnf_jkt cn) (c_iss (t_core t))
      else dpop_commit_key (ae_crypto A) dv pf (cnf_jkt cn) (c_iss (t_core t)))"

lemma ex_unit: "(\<exists>u :: unit. P u) \<longleftrightarrow> P ()"
  by (metis (full_types) unit.exhaust)

lemma if_Inl_eq: "(if b then Inl e else m) = Inr a \<longleftrightarrow> \<not> b \<and> m = Inr a"
  by simp

lemma opt_differs: "(case m of Some y \<Rightarrow> x \<noteq> y | None \<Rightarrow> False) \<longleftrightarrow> \<not> (\<forall>y. m = Some y \<longrightarrow> x = y)"
  by (cases m) auto

lemma proof_bound_thumbprint: "proof_bound C now v pf act jkt ath \<Longrightarrow> jwk_thumbprint (cr_sha256 C) pf = Inr jkt"
  by (simp add: proof_bound_def)

lemma dpop_tuple_check_ok:
  "dpop_tuple_check c x = Inr () \<longleftrightarrow>
     (resource_shape (rc_action c) \<noteq> ShapeEndpoint \<longrightarrow> ax_tns x = rc_namespace c \<and> ax_tn x = rc_track c)"
  by (auto simp: dpop_tuple_check_def)

lemma dpop_expected_resource_ok:
  "dpop_expected_resource v x = Inr () \<longleftrightarrow>
     (\<forall>r. mv_expected_resource v = Some r \<longrightarrow> ax_resource x = Some r)"
  by (auto simp: dpop_expected_resource_def split: option.splits)

lemma dpop_resource_check_ok: "dpop_resource_check A c x = Inr () \<longleftrightarrow> resource_agrees A c x"
  by (cases "ax_resource x")
     (simp_all add: dpop_resource_check_def resource_agrees_def enforce_resource_shape_ok if_Inl_eq opt_differs)

lemma dpop_nonce_check_ok:
  "dpop_nonce_check c p = Inr () \<longleftrightarrow> (\<forall>n. rc_expected_dpop_nonce c = Some n \<longrightarrow> pl_nonce p = Some n)"
  by (auto simp: dpop_nonce_check_def split: option.splits)

lemma step_dpop_none: "cnf (t_dpop (validated_claims tok)) = None \<Longrightarrow> step_dpop A v tok c = Inr k \<longleftrightarrow> k = None"
  by (auto simp: step_dpop_def)

lemma step_dpop_some:
  assumes "cnf (t_dpop (validated_claims tok)) = Some cn"
  shows "step_dpop A v tok c = Inr k \<longleftrightarrow>
     (\<exists>pf dv. proof_accepted A v tok c cn pf dv \<and>
        k = proof_commit_key A v (validated_claims tok) cn pf dv)"
  unfolding step_dpop_def Let_def assms option.case rbind_eq_Inr ok_or_eq_Inr if_Inl_eq ex_unit
    validate_without_jti_commit_ok dpop_tuple_check_ok dpop_expected_resource_ok dpop_resource_check_ok
    enforce_actx_shape_ok dpop_nonce_check_ok confirmation_matches_thumbprint_def constant_time_eq_iff
    proof_accepted_def proof_commit_key_def[symmetric] sum.inject
  using proof_bound_thumbprint by blast

definition proof_satisfied ::
  "auth_env \<Rightarrow> moqt_validator \<Rightarrow> validated_token \<Rightarrow> relay_request_context \<Rightarrow> (string \<times> int) option \<Rightarrow> bool" where
  "proof_satisfied A v tok c k \<longleftrightarrow>
     (case cnf (t_dpop (validated_claims tok)) of
        None \<Rightarrow> k = None
      | Some cn \<Rightarrow> \<exists>pf dv. proof_accepted A v tok c cn pf dv \<and>
                   k = proof_commit_key A v (validated_claims tok) cn pf dv)"

lemma step_dpop_ok: "step_dpop A v tok c = Inr k \<longleftrightarrow> proof_satisfied A v tok c k"
  by (cases "cnf (t_dpop (validated_claims tok))")
     (simp_all add: proof_satisfied_def step_dpop_none step_dpop_some)

section \<open>What authorization establishes\<close>

lemma authorize_precommit_iff:
  "snd (authorize_precommit A v tok c guard blocked) = Inr p \<longleftrightarrow>
     claims_satisfied A v (validated_claims tok) c \<and>
     rejection_satisfied A (validated_claims tok) blocked \<and>
     (catreplay (t_cat (validated_claims tok)) \<in> {Some ReplayProhibited, Some ReplayReuseDetection} \<longrightarrow>
        guard \<and> c_cti (t_core (validated_claims tok)) \<noteq> None) \<and>
     match_scope_index (validated_claims tok) c = Some (pc_scope_index p) \<and>
     proof_satisfied A v tok c (pc_jti_commit p) \<and>
     pc_renewal p = catr (t_request (validated_claims tok)) \<and>
     pc_revalidation p = mq_reval (t_moqt (validated_claims tok)) \<and>
     pc_replay p = obligation_of (validated_claims tok)"
  (is "?l \<longleftrightarrow> ?r")
proof -
  have "?l \<longleftrightarrow> precommit_claims A v (validated_claims tok) c = Inr () \<and>
      snd (step_catpor A (validated_claims tok) blocked) = Inr () \<and>
      precommit_rest A v tok c guard = Inr p"
    by (auto simp: authorize_precommit_def split: sum.splits prod.splits)
  also have "precommit_rest A v tok c guard = Inr p \<longleftrightarrow>
      (catreplay (t_cat (validated_claims tok)) \<in> {Some ReplayProhibited, Some ReplayReuseDetection} \<longrightarrow>
        guard \<and> c_cti (t_core (validated_claims tok)) \<noteq> None) \<and>
      match_scope_index (validated_claims tok) c = Some (pc_scope_index p) \<and>
      proof_satisfied A v tok c (pc_jti_commit p) \<and>
      pc_renewal p = catr (t_request (validated_claims tok)) \<and>
      pc_revalidation p = mq_reval (t_moqt (validated_claims tok)) \<and>
      pc_replay p = obligation_of (validated_claims tok)"
    unfolding precommit_rest_def Let_def rbind_eq_Inr step_replay_ok step_dpop_ok ok_or_eq_Inr
    by (cases p) auto
  finally show ?thesis by (simp add: precommit_claims_ok step_catpor_ok conj_assoc)
qed

lemma match_scope_grants:
  "match_scope_index t c = Some i \<longleftrightarrow>
     (\<exists>ss. mq_moqt (t_moqt t) = Some ss \<and> i < length ss \<and>
        scope_grants (ss ! i) (rc_action c) (rc_namespace c) (rc_track c) \<and>
        (\<forall>j < i. \<not> scope_grants (ss ! j) (rc_action c) (rc_namespace c) (rc_track c)))"
  by (auto simp: match_scope_index_def position_of_Some scope_matches_grants split: option.splits)

section \<open>Commit\<close>

lemma commit_ok:
  "snd (commit ops v p guard sg) = Inr r \<longleftrightarrow>
     snd (commit_jti ops v p (fst sg)) = Inr () \<and>
     (\<exists>reuse. snd (commit_cti guard p (snd sg)) = Inr reuse \<and> r = finalize p reuse)"
  by (auto simp: commit_def split: prod.splits sum.splits)

lemma commit_state:
  "fst (fst (commit ops v p guard sg)) = fst (commit_jti ops v p (fst sg))"
  "snd (commit_jti ops v p (fst sg)) = Inl e \<Longrightarrow>
     snd (fst (commit ops v p guard sg)) = snd sg \<and> snd (commit ops v p guard sg) = Inl e"
  by (auto simp: commit_def split: prod.splits sum.splits)

lemma finalize_scope: "au_scope_index (finalize p reuse) = pc_scope_index p"
  by (auto simp: finalize_def allowed_def Let_def split: option.splits)

lemma authorize_ok:
  "snd (authorize A ops v tok c s) = Inr r \<longleftrightarrow>
     (\<exists>p. snd (authorize_precommit A v tok c False None) = Inr p \<and>
        snd (commit_jti ops v p s) = Inr () \<and> pc_replay p = None \<and> r = finalize p False)"
  by (auto simp: authorize_def commit_def commit_cti_def
      split: prod.splits sum.splits option.splits cat_replay_obligation.splits)

lemma authorize_state:
  "fst (authorize A ops v tok c s) =
     (case snd (authorize_precommit A v tok c False None) of
        Inl e \<Rightarrow> s | Inr p \<Rightarrow> fst (commit_jti ops v p s))"
  by (auto simp: authorize_def commit_def split: prod.splits sum.splits)

lemma finalize_revalidation:
  "au_requires_revalidation (finalize p reuse) \<longleftrightarrow>
     (\<exists>i. pc_revalidation p = Some i \<and> f64_gt i (Fin 0) \<and>
        au_revalidation_interval (finalize p reuse) = Some i)"
  by (auto simp: finalize_def allowed_def Let_def split: option.splits)

section \<open>Single use across requests\<close>

record auth_request =
  ar_now :: int
  ar_token :: validated_token
  ar_context :: relay_request_context

text \<open>A sequence of requests against one replay store.\<close>

definition auth_run ::
  "auth_env \<Rightarrow> 's store_ops \<Rightarrow> moqt_validator \<Rightarrow> auth_request list \<Rightarrow> 's \<Rightarrow> 's \<times> auth_request list" where
  "auth_run A ops v = filter_run (\<lambda>r s. map_prod id is_ok
     (authorize (A\<lparr>ae_now := ar_now r\<rparr>) ops v (ar_token r) (ar_context r) s))"

text \<open>The issuer, the holder key and the \<open>cti\<close> of the proof a request was authorized with.\<close>

definition proof_use :: "auth_request \<Rightarrow> string \<times> bytes option \<times> bytes option" where
  "proof_use r =
     (iss_text (c_iss (t_core (validated_claims (ar_token r)))),
      map_option cnf_jkt (cnf (t_dpop (validated_claims (ar_token r)))),
      Option.bind (rc_dpop_proof (ar_context r)) (\<lambda>pf. pl_cti (dp_payload pf)))"

definition auth_key :: "crypto_env \<Rightarrow> auth_request \<Rightarrow> string" where
  "auth_key C r =
     (case proof_use r of
        (i, Some jkt, Some cti) \<Rightarrow> i @ '':'' @ cr_hex C jkt @ '':'' @ cr_hex C cti
      | _ \<Rightarrow> [])"

lemma auth_request_eta [simp]:
  "\<lparr>ar_now = ar_now r, ar_token = ar_token r, ar_context = ar_context r\<rparr> = (r :: auth_request)"
  by (cases r) simp

lemma tracked_commit_key:
  assumes "snd (authorize_precommit A v tok c g b) = Inr p" "mv_require_dpop v" "mv_require_tracking v"
  shows "\<exists>iat. pc_jti_commit p =
           Some (auth_key (ae_crypto A) \<lparr>ar_now = n, ar_token = tok, ar_context = c\<rparr>, iat) \<and> mv_dpop v \<noteq> None"
proof -
  have "proof_satisfied A v tok c (pc_jti_commit p)" "cnf (t_dpop (validated_claims tok)) \<noteq> None"
    using assms(1,2) by (simp_all add: authorize_precommit_iff claims_satisfied_def)
  then obtain cn pf dv where "cnf (t_dpop (validated_claims tok)) = Some cn"
    and "proof_accepted A v tok c cn pf dv"
    and "pc_jti_commit p = proof_commit_key A v (validated_claims tok) cn pf dv"
    by (auto simp: proof_satisfied_def)
  with assms(3) show ?thesis
    by (auto simp: proof_accepted_def proof_bound_def proof_commit_key_def dpop_commit_key_forced_def
        auth_key_def proof_use_def)
qed

context jti_store
begin

lemma authorize_step:
  assumes ops: "st_insert ops = insert_jti" and v: "mv_require_dpop v" "mv_require_tracking v"
    and "inv s"
  shows "inv (fst (authorize A ops v tok c s)) \<and> seen s \<subseteq> seen (fst (authorize A ops v tok c s)) \<and>
     (is_ok (snd (authorize A ops v tok c s)) \<longrightarrow>
        auth_key (ae_crypto A) \<lparr>ar_now = n, ar_token = tok, ar_context = c\<rparr> \<notin> seen s \<and>
        auth_key (ae_crypto A) \<lparr>ar_now = n, ar_token = tok, ar_context = c\<rparr>
          \<in> seen (fst (authorize A ops v tok c s)))"
proof (cases "snd (authorize_precommit A v tok c False None)")
  case (Inl e)
  then show ?thesis using \<open>inv s\<close> by (auto simp: authorize_state is_ok_iff authorize_ok)
next
  case (Inr p)
  obtain iat where k: "pc_jti_commit p =
      Some (auth_key (ae_crypto A) \<lparr>ar_now = n, ar_token = tok, ar_context = c\<rparr>, iat)"
    and dv: "mv_dpop v \<noteq> None"
    using tracked_commit_key[OF Inr v] by blast
  then have "commit_jti ops v p s =
      insert_jti (auth_key (ae_crypto A) \<lparr>ar_now = n, ar_token = tok, ar_context = c\<rparr>) iat s"
    using ops by (auto simp: commit_jti_def)
  then show ?thesis
    using insert_step[OF \<open>inv s\<close>, of "auth_key (ae_crypto A) \<lparr>ar_now = n, ar_token = tok, ar_context = c\<rparr>" iat]
    by (auto simp: authorize_state is_ok_iff authorize_ok Inr)
qed

lemma auth_run_fresh:
  assumes "st_insert ops = insert_jti" "mv_require_dpop v" "mv_require_tracking v" "inv s"
  shows "distinct (map proof_use (snd (auth_run A ops v rs s)))"
proof -
  have "distinct (map (auth_key (ae_crypto A)) (snd (auth_run A ops v rs s))) \<and>
      auth_key (ae_crypto A) ` set (snd (auth_run A ops v rs s)) \<inter> seen s = {}"
    unfolding auth_run_def
  proof (rule filter_run_fresh[where inv = inv])
    fix r :: auth_request and s'
    assume "inv s'"
    from authorize_step[OF assms(1-3) this, of "A\<lparr>ae_now := ar_now r\<rparr>" "ar_token r" "ar_context r" "ar_now r"]
    show "inv (fst (map_prod id is_ok (authorize (A\<lparr>ae_now := ar_now r\<rparr>) ops v (ar_token r) (ar_context r) s'))) \<and>
        seen s' \<subseteq> seen (fst (map_prod id is_ok (authorize (A\<lparr>ae_now := ar_now r\<rparr>) ops v (ar_token r) (ar_context r) s'))) \<and>
        (snd (map_prod id is_ok (authorize (A\<lparr>ae_now := ar_now r\<rparr>) ops v (ar_token r) (ar_context r) s')) \<longrightarrow>
          auth_key (ae_crypto A) r \<notin> seen s' \<and>
          auth_key (ae_crypto A) r
            \<in> seen (fst (map_prod id is_ok (authorize (A\<lparr>ae_now := ar_now r\<rparr>) ops v (ar_token r) (ar_context r) s'))))"
      by simp
  qed (rule assms(4))
  then have "distinct (map (auth_key (ae_crypto A)) (snd (auth_run A ops v rs s)))" ..
  then show ?thesis by (rule distinct_map_finer) (simp add: auth_key_def)
qed

end

section \<open>Replay guards\<close>

text \<open>The contract of a replay guard: an answer says whether the identifier was recorded, and
  records it; an error may or may not have recorded it.\<close>

locale replay_guard =
  fixes check_and_record :: "bytes \<Rightarrow> 'g \<Rightarrow> 'g \<times> bool result"
    and recorded :: "'g \<Rightarrow> bytes set"
  assumes answer: "snd (check_and_record cti g) = Inr b \<Longrightarrow>
      b = (cti \<in> recorded g) \<and> recorded (fst (check_and_record cti g)) = insert cti (recorded g)"
    and failure: "snd (check_and_record cti g) = Inl e \<Longrightarrow>
      recorded g \<subseteq> recorded (fst (check_and_record cti g))"

text \<open>A sequence of requests with a replay guard beside the replay store.\<close>

definition guarded_run ::
  "auth_env \<Rightarrow> 's store_ops \<Rightarrow> moqt_validator \<Rightarrow> 'g replay_guard \<Rightarrow> auth_request list \<Rightarrow> 's \<times> 'g \<Rightarrow>
     ('s \<times> 'g) \<times> auth_request list" where
  "guarded_run A ops v guard = filter_run (\<lambda>r sg. map_prod id is_ok
     (snd (authorize_with_replay (A\<lparr>ae_now := ar_now r\<rparr>) ops v (ar_token r) (ar_context r) guard None sg)))"

definition request_cti :: "auth_request \<Rightarrow> bytes option" where
  "request_cti r = c_cti (t_core (validated_claims (ar_token r)))"

context replay_guard
begin

lemma recorded_mono: "recorded g \<subseteq> recorded (fst (check_and_record cti g))"
  using answer failure by (cases "snd (check_and_record cti g)") blast+

lemma commit_cti_fst:
  "fst (commit_cti (Some check_and_record) p g) =
     (case pc_replay p of
        None \<Rightarrow> g
      | Some (ObProhibited cti) \<Rightarrow> fst (check_and_record cti g)
      | Some (ObReuseDetection cti) \<Rightarrow> fst (check_and_record cti g))"
  by (simp add: commit_cti_def split: option.split cat_replay_obligation.split prod.split sum.split)

lemma commit_cti_recorded: "recorded g \<subseteq> recorded (fst (commit_cti (Some check_and_record) p g))"
  using recorded_mono by (simp add: commit_cti_fst split: option.split cat_replay_obligation.split)

lemma commit_cti_fresh:
  assumes "pc_replay p = Some (ObProhibited cti)" "snd (commit_cti (Some check_and_record) p g) = Inr b"
  shows "cti \<notin> recorded g \<and> cti \<in> recorded (fst (commit_cti (Some check_and_record) p g))"
proof -
  have "snd (check_and_record cti g) = Inr False"
    using assms by (simp add: commit_cti_def split: prod.splits sum.splits if_splits)
  from answer[OF this] show ?thesis using assms(1) by (simp add: commit_cti_fst)
qed

lemma commit_recorded: "recorded (snd sg) \<subseteq> recorded (snd (fst (commit ops v p (Some check_and_record) sg)))"
  using commit_cti_recorded[of "snd sg" p]
  by (force simp: commit_def split: prod.splits sum.splits)

lemma guarded_step:
  assumes "catreplay (t_cat (validated_claims tok)) = Some ReplayProhibited"
  shows "recorded (snd sg) \<subseteq> recorded (snd (fst (snd (authorize_with_replay A ops v tok c check_and_record b sg)))) \<and>
     (is_ok (snd (snd (authorize_with_replay A ops v tok c check_and_record b sg))) \<longrightarrow>
        (\<exists>cti. c_cti (t_core (validated_claims tok)) = Some cti \<and> cti \<notin> recorded (snd sg) \<and>
           cti \<in> recorded (snd (fst (snd (authorize_with_replay A ops v tok c check_and_record b sg))))))"
proof (cases "snd (authorize_precommit A v tok c True b)")
  case (Inl e)
  then show ?thesis by (auto simp: authorize_with_replay_def is_ok_def split: prod.splits)
next
  case (Inr p)
  have run: "snd (authorize_with_replay A ops v tok c check_and_record b sg) =
      commit ops v p (Some check_and_record) sg"
    using Inr by (auto simp: authorize_with_replay_def split: prod.splits)
  obtain cti where cti: "c_cti (t_core (validated_claims tok)) = Some cti" "pc_replay p = Some (ObProhibited cti)"
    using Inr assms by (auto simp: authorize_precommit_iff obligation_of_def)
  have "cti \<notin> recorded (snd sg) \<and> cti \<in> recorded (snd (fst (commit ops v p (Some check_and_record) sg)))"
    if ok: "is_ok (snd (commit ops v p (Some check_and_record) sg))"
  proof -
    obtain r where "snd (commit ops v p (Some check_and_record) sg) = Inr r"
      using ok by (auto simp: is_ok_iff)
    then obtain reuse where j: "snd (commit_jti ops v p (fst sg)) = Inr ()"
      and b: "snd (commit_cti (Some check_and_record) p (snd sg)) = Inr reuse"
      unfolding commit_ok by blast
    have "snd (fst (commit ops v p (Some check_and_record) sg)) = fst (commit_cti (Some check_and_record) p (snd sg))"
      using j b by (auto simp: commit_def split: prod.splits sum.splits)
    then show ?thesis using commit_cti_fresh[OF cti(2) b] by simp
  qed
  then show ?thesis using cti(1) commit_recorded[of sg ops v p] run by auto
qed

lemma guarded_run_fresh:
  assumes "\<And>r. r \<in> set rs \<Longrightarrow> catreplay (t_cat (validated_claims (ar_token r))) = Some ReplayProhibited"
  shows "distinct (map (the \<circ> request_cti) (snd (guarded_run A ops v check_and_record rs sg)))"
proof -
  have "distinct (map (the \<circ> request_cti) (snd (guarded_run A ops v check_and_record rs sg))) \<and>
     (the \<circ> request_cti) ` set (snd (guarded_run A ops v check_and_record rs sg)) \<inter> (recorded \<circ> snd) sg = {}"
    unfolding guarded_run_def
  proof (rule filter_run_fresh[where inv = "\<lambda>_. True"])
    fix r and sg' :: "'a \<times> 'g"
    assume "r \<in> set rs"
    from guarded_step[OF assms[OF this], of sg' "A\<lparr>ae_now := ar_now r\<rparr>" ops v "ar_context r" None]
    show "True \<and> (recorded \<circ> snd) sg' \<subseteq> (recorded \<circ> snd) (fst (map_prod id is_ok (snd (authorize_with_replay
          (A\<lparr>ae_now := ar_now r\<rparr>) ops v (ar_token r) (ar_context r) check_and_record None sg')))) \<and>
        (snd (map_prod id is_ok (snd (authorize_with_replay (A\<lparr>ae_now := ar_now r\<rparr>) ops v (ar_token r)
          (ar_context r) check_and_record None sg'))) \<longrightarrow>
          (the \<circ> request_cti) r \<notin> (recorded \<circ> snd) sg' \<and>
          (the \<circ> request_cti) r \<in> (recorded \<circ> snd) (fst (map_prod id is_ok (snd (authorize_with_replay
          (A\<lparr>ae_now := ar_now r\<rparr>) ops v (ar_token r) (ar_context r) check_and_record None sg')))))"
      by (auto simp: request_cti_def)
  qed simp
  then show ?thesis ..
qed

end

text \<open>The guard of \<open>tests/test_unified_authorize.rs\<close>, a list of the identifiers seen.\<close>

definition mem_check_and_record :: "bytes \<Rightarrow> bytes list \<Rightarrow> bytes list \<times> bool result" where
  "mem_check_and_record cti g = (let already = cti \<in> set g in (if already then g else g @ [cti], Inr already))"

interpretation mem: replay_guard mem_check_and_record set
  by unfold_locales (auto simp: mem_check_and_record_def Let_def)

end
