(* ===== verification/Sample_Deployment.thy ===== *)
theory Sample_Deployment
  imports Moqt_Authorize
begin

text \<open>
  A concrete deployment the witnesses evaluate: the hexadecimal text codec, codecs given by a finite
  table, toy cryptographic primitives, one relay, one token bound to one holder key, and the proof
  that holder presents. Nothing here models the crate; every component it instantiates is a
  parameter of the development.
\<close>

section \<open>Codecs\<close>

definition hex_text :: "bytes \<Rightarrow> string" where
  "hex_text bs = concat (map (\<lambda>b. [lower_hex (unat b div 16), lower_hex (unat b mod 16)]) bs)"

fun hex_read :: "string \<Rightarrow> string + bytes" where
  "hex_read [] = Inr []"
| "hex_read [c] = Inl ''odd length''"
| "hex_read (h # l # rest) =
     (case (moq_hex_digit h, moq_hex_digit l) of
        (Inr a, Inr b) \<Rightarrow> rbind (hex_read rest) (\<lambda>bs. Inr (byte_of_nibbles a b # bs))
      | _ \<Rightarrow> Inl ''not a digit'')"

lemma hex_read_text [simp]: "hex_read (hex_text bs) = Inr bs"
  by (induction bs) (simp_all add: hex_text_def byte_halves)

lemma lower_hex_alnum: "n < 16 \<Longrightarrow> is_ascii_alnum (lower_hex n)"
  using lower_hex_ord[of n] by (auto simp: ascii_defs)

lemma hex_text_b64url: "list_all b64url_char (hex_text bs)"
  by (auto simp: hex_text_def list_all_iff b64url_char_def lower_hex_alnum byte_halves)

lemma hex_codec: "b64url_codec hex_text hex_read"
  by (simp add: b64url_codec_def hex_text_b64url)

lemma hex_text_law: "hex_law hex_text"
proof -
  have "\<not> b64url_char CHR '':''" by code_simp
  then have "CHR '':'' \<notin> set (hex_text x)" for x
    using hex_text_b64url[of x] by (auto simp: list_all_iff)
  moreover have "inj hex_text" by (metis hex_read_text injI old.sum.inject(2))
  ultimately show ?thesis by (simp add: hex_law_def)
qed

text \<open>A codec that writes and reads the pairs of a table.\<close>

definition table_write :: "('a \<times> bytes) list \<Rightarrow> 'a \<Rightarrow> bytes result" where
  "table_write T v = ok_or (map_of T v) (InvalidCbor ''not in the table'')"

definition table_read :: "('a \<times> bytes) list \<Rightarrow> bytes \<Rightarrow> 'a result" where
  "table_read T b = ok_or (map_of (map prod.swap T) b) (InvalidCbor ''not in the table'')"

lemma table_read_write:
  assumes "distinct (map snd T)" "table_write T v = Inr b"
  shows "table_read T b = Inr v"
proof -
  have "map_of T v = Some b" using assms(2) by (simp add: table_write_def)
  then have "(b, v) \<in> set (map prod.swap T)" by (auto dest!: map_of_SomeD)
  moreover have "distinct (map fst (map prod.swap T))" using assms(1) by (simp add: comp_def)
  ultimately show ?thesis by (simp add: table_read_def map_of_is_SomeI)
qed

definition table_codec :: "(cbor \<times> bytes) list \<Rightarrow> codec_env" where
  "table_codec T = \<lparr>ce_write = table_write T,
     ce_read = (\<lambda>b. rbind (table_read T b) (\<lambda>v. Inr (v, length b))), ce_b64 = hex_text, ce_b64d = hex_read\<rparr>"

lemma table_codec_laws: "distinct (map snd T) \<Longrightarrow> codec_laws (table_codec T)"
  by (simp add: codec_laws_def table_codec_def table_read_write)

definition table_jwt :: "(cbor \<times> bytes) list \<Rightarrow> (json \<times> bytes) list \<Rightarrow> jwt_env" where
  "table_jwt T J = codec_env.extend (table_codec T)
     \<lparr>je_write = table_write J, je_read = table_read J, je_keys = (\<lambda>b. Inr [])\<rparr>"

lemma table_jwt_laws:
  "distinct (map snd T) \<Longrightarrow> distinct (map snd J) \<Longrightarrow> jwt_laws (table_jwt T J)"
  using hex_codec table_codec_laws[of T]
  by (simp add: jwt_laws_def table_jwt_def codec_env.defs table_codec_def table_read_write)

section \<open>Primitives\<close>

text \<open>Hashing is the identity and the holder's only signature is \<open>[7]\<close>.\<close>

definition sample_crypto :: crypto_env where
  "sample_crypto = \<lparr>ce_write = (\<lambda>v. Inr [1]), ce_read = (\<lambda>b. Inl (InvalidCbor '''')), ce_b64 = hex_text,
     ce_b64d = hex_read, je_write = (\<lambda>v. Inr [2]), je_read = (\<lambda>b. Inl InvalidTokenFormat),
     je_keys = (\<lambda>b. Inr []), cr_sha256 = (\<lambda>b. b), cr_hex = hex_text, cr_p256_accept = (\<lambda>k. True),
     cr_rsa_accept = (\<lambda>k. True), cr_es256_sig = (\<lambda>s. True),
     cr_es256_verify = (\<lambda>k m s. k = [4, 1, 2] \<and> s = [7]), cr_rsa_size = (\<lambda>k. 256),
     cr_ps256_sig = (\<lambda>s. True), cr_ps256_verify = (\<lambda>k m s. False)\<rparr>"

definition sample_match :: match_env where
  "sample_match = \<lparr>env_regex = (\<lambda>p. Some (\<lambda>x. x = p)), env_sha256 = map byte_of_char,
     env_sha512_256 = map byte_of_char\<rparr>"

definition sample_env :: auth_env where
  "sample_env = \<lparr>ae_crypto = sample_crypto, ae_match = sample_match, ae_haversine = (\<lambda>a b c d. Fin 0),
     ae_draw = Inr (Fin 0), ae_now = 1000\<rparr>"

section \<open>One holder, one token, one relay\<close>

definition sample_jwk :: jwk where
  "sample_jwk = \<lparr>jwk_kty = ''EC'', jwk_crv = Some ''P-256'', jwk_x = Some ''01'', jwk_y = Some ''02'',
     jwk_n = None, jwk_e = None\<rparr>"

definition sample_jkt :: bytes where
  "sample_jkt = map byte_of_char (ec_json ''P-256'' ''01'' ''02'')"

definition sample_scope :: moqt_scope where
  "sample_scope = scope_with_namespace_match (nm_exact [97]) (scope_with_action Subscribe scope_new)"

definition sample_claims :: cat_token where
  "sample_claims = with_moqt_scope sample_scope (with_confirmation sample_jkt
     (with_cwt_id [9] (with_issuer ''iss'' (with_single_audience ''relay'' token_new))))"

definition sample_token :: validated_token where
  "sample_token = ValidatedToken \<lparr>vt_token = sample_claims, vt_header = \<lparr>th_alg = -7, th_kid = None\<rparr>,
     vt_provenance = Signed, vt_serialized = [1, 2, 3]\<rparr>"

definition sample_proof :: dpop_proof where
  "sample_proof = (with_access_token_hash [1, 2, 3] (with_replay_id [5]
     (create_for_moqt 1000 Subscribe [[97]] [98] (-7) sample_jwk)))\<lparr>dp_signature := [7]\<rparr>"

definition sample_context :: relay_request_context where
  "sample_context = with_dpop_proof sample_proof (context_new ''relay'' Subscribe [[97]] [98])"

definition sample_validator :: moqt_validator where
  "sample_validator = (require_dpop_replay_tracking (require_dpop mv_new))
     \<lparr>mv_dpop := Some (dv_with_jti_store catdpop_new)\<rparr>"

definition sample_key :: string where
  "sample_key = ''iss:'' @ hex_text sample_jkt @ '':05''"

lemmas sample_defs = sample_crypto_def sample_match_def sample_env_def sample_jwk_def
  sample_scope_def sample_claims_def sample_token_def sample_proof_def sample_context_def
  sample_validator_def

text \<open>The same token demanding a single use.\<close>

definition sample_prohibited :: validated_token where
  "sample_prohibited = ValidatedToken \<lparr>vt_token = with_replay_protection ReplayProhibited sample_claims,
     vt_header = \<lparr>th_alg = -7, th_kid = None\<rparr>, vt_provenance = Signed, vt_serialized = [1, 2, 3]\<rparr>"

text \<open>The CBOR values of a setup proof and the bytes a table gives them.\<close>

definition setup_proof :: dpop_proof where
  "setup_proof = (with_access_token_hash [1, 2, 3] (with_replay_id [5]
     (create_for_moqt 1000 ClientSetup [] [] (-7) sample_jwk)))\<lparr>dp_signature := [7]\<rparr>"

definition setup_header_cbor :: cbor where
  "setup_header_cbor = int_entries [(1, CInt (-7)),
     (4, int_entries [(1, CInt 2), (3, CInt (-7)), (-1, CInt 1), (-2, CBytes [1]), (-3, CBytes [2])]),
     (16, CText dpop_typ)]"

definition setup_payload_cbor :: cbor where
  "setup_payload_cbor = int_entries [(6, CInt 1000), (7, CBytes [5]),
     (400, actx_to_cbor (actx_new_moqt ClientSetup [] [])), (402, CBytes [1, 2, 3])]"

definition setup_table :: "(cbor \<times> bytes) list" where
  "setup_table = [(setup_header_cbor, [1]), (setup_payload_cbor, [2]),
     (CTag 18 (CArray [CBytes [1], CMap [], CBytes [2], CBytes [7]]), [3])]"

text \<open>The JSON values of the same proof in its JWT form.\<close>

definition setup_header_json :: json where
  "setup_header_json = JObj [''alg'' \<mapsto> JStr ''ES256'', ''typ'' \<mapsto> JStr dpop_typ_jwt,
     ''jwk'' \<mapsto> jwk_to_json sample_jwk]"

definition setup_payload_json :: json where
  "setup_payload_json = JObj (opt_member ''ath'' (Some (hex_text [1, 2, 3]))
     (opt_member ''nonce'' None ([''iat'' \<mapsto> JInt 1000, ''jti'' \<mapsto> JStr [char_of_byte 5],
        ''actx'' \<mapsto> actx_to_json (actx_new_moqt ClientSetup [] [])])))"

definition setup_json_table :: "(json \<times> bytes) list" where
  "setup_json_table = [(setup_header_json, [1]), (setup_payload_json, [2])]"

section \<open>The sample request is authorized\<close>

lemma sample_precommit:
  "snd (authorize_precommit sample_env sample_validator sample_token sample_context True None) =
     Inr \<lparr>pc_scope_index = 0, pc_renewal = None, pc_revalidation = None,
          pc_jti_commit = Some (sample_key, 1000), pc_replay = None\<rparr>"
  by code_simp

lemma sample_authorized:
  "snd (authorize sample_env (strict_ops length 1000) sample_validator sample_token sample_context
     (strict_new 300 10)) = Inr (allowed 0)"
  by code_simp

lemma setup_cwt_decodes: "is_ok (cwt_decode (table_codec setup_table) [3])"
  by code_simp

end
