(* ===== verification/Trie.thy ===== *)
theory Trie
  imports Claims "HOL-Library.AList"
begin

text \<open>
  \<open>src/src/trie.rs\<close>: the character tries that index prefix and suffix patterns of URIs, with
  insertion, search, membership, enumeration and removal. A node's \<open>HashMap\<close> of children is the
  association list of its entries, one per key; \<open>'c\<close> is the type of characters.

  \<open>entry\<close> reads a trie as a finite map from patterns to values. Shown: every operation refines the
  map operation of its name, the invariant is kept, \<open>size\<close> counts the stored patterns, and the two
  tries provide the interface \<open>affix_index\<close> on which the matcher rests.
\<close>

section \<open>Nodes\<close>

datatype ('c, 'v) trie_node =
  TrieNode (children: "('c \<times> ('c, 'v) trie_node) list") (is_terminal: bool) (value_of: "'v option")

definition max_trie_depth :: nat where
  "max_trie_depth = 1000"

definition node_new :: "('c, 'v) trie_node" where
  "node_new = TrieNode [] False None"

text \<open>The loop of \<open>insert\<close>; the flag says whether the pattern is new.\<close>

fun node_insert :: "'c list \<Rightarrow> 'v \<Rightarrow> ('c, 'v) trie_node \<Rightarrow> ('c, 'v) trie_node \<times> bool" where
  "node_insert [] v (TrieNode ch t x) = (TrieNode ch True (Some v), \<not> t)"
| "node_insert (c # cs) v (TrieNode ch t x) =
     (let (child, new) = node_insert cs v (case map_of ch c of Some n \<Rightarrow> n | None \<Rightarrow> node_new)
      in (TrieNode (AList.update c child ch) t x, new))"

fun node_search :: "('c, 'v) trie_node \<Rightarrow> 'c list \<Rightarrow> 'v list" where
  "node_search cur [] = []"
| "node_search cur (c # cs) =
     (case map_of (children cur) c of
        Some next_node \<Rightarrow>
          (if is_terminal next_node
           then (case value_of next_node of Some v \<Rightarrow> [v] | None \<Rightarrow> []) else [])
          @ node_search next_node cs
      | None \<Rightarrow> [])"

fun node_contains :: "('c, 'v) trie_node \<Rightarrow> 'c list \<Rightarrow> bool" where
  "node_contains cur [] = is_terminal cur"
| "node_contains cur (c # cs) =
     (case map_of (children cur) c of
        Some next_node \<Rightarrow> (if is_terminal next_node then True else node_contains next_node cs)
      | None \<Rightarrow> False)"

text \<open>\<open>remove_recursive_static\<close>: the child is taken out of the map and put back unless it has
  become useless.\<close>

fun node_remove :: "nat \<Rightarrow> 'c list \<Rightarrow> ('c, 'v) trie_node \<Rightarrow> ('c, 'v) trie_node \<times> bool" where
  "node_remove index [] (TrieNode ch t x) =
     (if index > max_trie_depth then (TrieNode ch t x, False)
      else if t then (TrieNode ch False None, True)
      else (TrieNode ch t x, False))"
| "node_remove index (c # cs) (TrieNode ch t x) =
     (if index > max_trie_depth then (TrieNode ch t x, False)
      else case map_of ch c of
        None \<Rightarrow> (TrieNode ch t x, False)
      | Some child \<Rightarrow>
          (let (child', removed) = node_remove (index + 1) cs child;
               rest = AList.delete c ch
           in if removed then
                (if \<not> is_terminal child' \<and> children child' = []
                 then (TrieNode rest t x, True)
                 else (TrieNode (AList.update c child' rest) t x, True))
              else (TrieNode (AList.update c child' rest) t x, False)))"

section \<open>The node as a map\<close>

fun node_at :: "('c, 'v) trie_node \<Rightarrow> 'c list \<Rightarrow> ('c, 'v) trie_node option" where
  "node_at n [] = Some n"
| "node_at n (c # cs) = (case map_of (children n) c of Some m \<Rightarrow> node_at m cs | None \<Rightarrow> None)"

definition entry :: "('c, 'v) trie_node \<Rightarrow> 'c list \<Rightarrow> 'v option" where
  "entry n p = (case node_at n p of Some m \<Rightarrow> (if is_terminal m then value_of m else None) | None \<Rightarrow> None)"

text \<open>A terminal node has a value.\<close>

inductive wf_node :: "('c, 'v) trie_node \<Rightarrow> bool" where
  wf_nodeI: "(t \<longrightarrow> x \<noteq> None) \<Longrightarrow> (\<And>c m. map_of ch c = Some m \<Longrightarrow> wf_node m) \<Longrightarrow>
     wf_node (TrieNode ch t x)"

inductive_simps wf_node_simps [simp]: "wf_node (TrieNode ch t x)"

lemma wf_node_new [simp]: "wf_node node_new"
  by (simp add: node_new_def)

lemma entry_Nil [simp]: "entry (TrieNode ch t x) [] = (if t then x else None)"
  by (simp add: entry_def)

lemma entry_Cons [simp]:
  "entry (TrieNode ch t x) (c # cs) = (case map_of ch c of Some m \<Rightarrow> entry m cs | None \<Rightarrow> None)"
  by (auto simp: entry_def split: option.splits)

lemma entry_new [simp]: "entry node_new p = None"
  by (cases p) (simp_all add: node_new_def)

lemma terminal_entry: "wf_node n \<Longrightarrow> is_terminal n \<longleftrightarrow> entry n [] \<noteq> None"
  by (cases n) auto

lemma wf_child: "wf_node n \<Longrightarrow> map_of (children n) c = Some m \<Longrightarrow> wf_node m"
  by (cases n) auto

lemma wf_node_insert: "wf_node n \<Longrightarrow> wf_node (fst (node_insert p v n))"
proof (induction p v n rule: node_insert.induct)
  case (2 c cs v ch t x)
  have "wf_node (case map_of ch c of Some n \<Rightarrow> n | None \<Rightarrow> node_new)"
    using "2.prems" by (auto split: option.splits)
  with 2 show ?case
    by (auto simp: case_prod_beta update_conv' split: if_splits)
qed auto

lemma entry_node_insert:
  "wf_node n \<Longrightarrow> entry (fst (node_insert p v n)) q = (if q = p then Some v else entry n q)"
proof (induction p v n arbitrary: q rule: node_insert.induct)
  case (1 v ch t x)
  then show ?case by (cases q) auto
next
  case (2 c cs v ch t x)
  have wf: "wf_node (case map_of ch c of Some n \<Rightarrow> n | None \<Rightarrow> node_new)"
    using "2.prems" by (auto split: option.splits)
  show ?case
    using "2.IH"[OF wf]
    by (cases q; cases "map_of ch c") (auto simp: case_prod_beta update_conv')
qed

lemma node_insert_new: "wf_node n \<Longrightarrow> snd (node_insert p v n) \<longleftrightarrow> entry n p = None"
proof (induction p v n rule: node_insert.induct)
  case (2 c cs v ch t x)
  have wf: "wf_node (case map_of ch c of Some n \<Rightarrow> n | None \<Rightarrow> node_new)"
    using "2.prems" by (auto split: option.splits)
  show ?case using "2.IH"[OF wf] by (cases "map_of ch c") (auto simp: case_prod_beta)
qed auto

lemma wf_node_remove: "wf_node n \<Longrightarrow> wf_node (fst (node_remove i p n))"
proof (induction i p n rule: node_remove.induct)
  case (2 i c cs ch t x)
  show ?case
  proof (cases "map_of ch c")
    case None
    with 2 show ?thesis by auto
  next
    case (Some m)
    obtain m' b where m': "node_remove (i + 1) cs m = (m', b)" by fastforce
    show ?thesis
    proof (cases "i > max_trie_depth")
      case True
      with 2 show ?thesis by simp
    next
      case False
      have "wf_node m'" using 2 False Some m' by auto
      with 2 False Some m' show ?thesis
        by (auto simp: update_conv' delete_conv' Let_def split: if_splits)
    qed
  qed
qed auto

lemma useless_entry: "\<not> is_terminal n \<Longrightarrow> children n = [] \<Longrightarrow> entry n q = None"
  by (cases n; cases q) auto

lemma entry_node_remove:
  assumes "wf_node n" "i + length p \<le> max_trie_depth"
  shows "snd (node_remove i p n) = (entry n p \<noteq> None) \<and>
         (\<forall>q. entry (fst (node_remove i p n)) q = (if q = p then None else entry n q))"
  using assms
proof (induction i p n rule: node_remove.induct)
  case (1 i ch t x)
  have "entry (TrieNode ch b y) q = (if q = [] then if b then y else None else entry (TrieNode ch t x) q)"
    for b y q by (cases q) auto
  with 1 show ?case by (auto split: if_splits)
next
  case (2 i c cs ch t x)
  from "2.prems" have i: "\<not> i > max_trie_depth" by simp
  show ?case
  proof (cases "map_of ch c")
    case None
    have "entry (TrieNode ch t x) q = (if q = c # cs then None else entry (TrieNode ch t x) q)" for q
      using None by (cases q) auto
    with None i show ?thesis by auto
  next
    case (Some m)
    obtain m' b where m': "node_remove (i + 1) cs m = (m', b)" by fastforce
    have wf: "wf_node m" "Suc i + length cs \<le> max_trie_depth" using "2.prems" Some by auto
    have IH: "b = (entry m cs \<noteq> None)" "\<And>q. entry m' q = (if q = cs then None else entry m q)"
      using "2.IH"[OF i Some] wf m' by auto
    have upd: "entry (TrieNode (AList.update c m' (AList.delete c ch)) t x) q =
        (if q = c # cs then None else entry (TrieNode ch t x) q)" for q
      using Some IH(2) by (cases q) (auto simp: update_conv' delete_conv')
    have del: "entry (TrieNode (AList.delete c ch) t x) q =
        (if q = c # cs then None else entry (TrieNode ch t x) q)"
      if "\<not> is_terminal m'" "children m' = []" for q
    proof -
      have e: "entry m r = None" if "r \<noteq> cs" for r
        using IH(2)[of r] useless_entry[OF \<open>\<not> is_terminal m'\<close> \<open>children m' = []\<close>, of r] that by simp
      show ?thesis using Some e by (cases q) (auto simp: delete_conv')
    qed
    have ent: "entry (TrieNode ch t x) (c # cs) = entry m cs" using Some by simp
    have f: "node_remove i (c # cs) (TrieNode ch t x) =
        (if b \<and> \<not> is_terminal m' \<and> children m' = [] then (TrieNode (AList.delete c ch) t x, True)
         else (TrieNode (AList.update c m' (AList.delete c ch)) t x, b))"
      using i Some m' by (simp add: Let_def)
    show ?thesis
      unfolding f ent using upd del IH(1) by (simp del: entry_Cons)
  qed
qed

section \<open>Search along a text\<close>

lemma map_filter_upt_Suc:
  "List.map_filter f [Suc 0..<Suc (Suc n)] =
     (case f (Suc 0) of Some v \<Rightarrow> [v] | None \<Rightarrow> []) @ List.map_filter (\<lambda>i. f (Suc i)) [Suc 0..<Suc n]"
proof -
  have "[Suc 0..<Suc (Suc n)] = Suc 0 # map Suc [Suc 0..<Suc n]"
    by (simp add: upt_conv_Cons map_Suc_upt del: upt_Suc)
  then show ?thesis
    by (simp add: List.map_filter_def filter_map comp_def split: option.splits del: upt_Suc)
qed

lemma node_search_entries:
  "node_search n xs = List.map_filter (\<lambda>i. entry n (take i xs)) [1..<Suc (length xs)]"
proof (induction n xs rule: node_search.induct)
  case (1 cur)
  then show ?case by (simp add: List.map_filter_def)
next
  case (2 cur c cs)
  obtain ch t x where cur: "cur = TrieNode ch t x" by (cases cur)
  show ?case
  proof (cases "map_of ch c")
    case None
    have "entry cur (take i (c # cs)) = None" if "i \<ge> 1" for i
      using that None by (cases i) (auto simp: cur)
    then have "List.map_filter (\<lambda>i. entry cur (take i (c # cs))) [1..<Suc (length (c # cs))] = []"
      by (auto simp: List.map_filter_def filter_empty_conv simp del: upt_Suc)
    then show ?thesis using None cur by (simp only: node_search.simps trie_node.sel option.case)
  next
    case (Some m)
    obtain ch' t' x' where m: "m = TrieNode ch' t' x'" by (cases m)
    show ?thesis
      using 2[of m] Some
      by (simp add: cur map_filter_upt_Suc m del: upt_Suc) 
  qed
qed

lemma set_node_search:
  "set (node_search n xs) = {v. \<exists>p. p \<noteq> [] \<and> prefix p xs \<and> entry n p = Some v}"
proof -
  have "v \<in> set (node_search n xs) \<longleftrightarrow> (\<exists>p. p \<noteq> [] \<and> prefix p xs \<and> entry n p = Some v)" for v
  proof
    assume "v \<in> set (node_search n xs)"
    then obtain i where i: "1 \<le> i" "i < Suc (length xs)" "entry n (take i xs) = Some v"
      by (auto simp: node_search_entries List.map_filter_def simp del: upt_Suc)
    then have "take i xs \<noteq> []" by auto
    with i(3) take_is_prefix[of i xs] show "\<exists>p. p \<noteq> [] \<and> prefix p xs \<and> entry n p = Some v" by blast
  next
    assume "\<exists>p. p \<noteq> [] \<and> prefix p xs \<and> entry n p = Some v"
    then obtain p where p: "p \<noteq> []" "prefix p xs" "entry n p = Some v" by blast
    then have "take (length p) xs = p" "1 \<le> length p" "length p < Suc (length xs)"
      by (auto simp: prefix_def Suc_le_eq)
    with p(3) show "v \<in> set (node_search n xs)"
      by (auto simp: node_search_entries List.map_filter_def image_iff simp del: upt_Suc intro!: bexI[of _ "length p"])
  qed
  then show ?thesis by blast
qed

lemma node_contains_iff:
  "wf_node n \<Longrightarrow> node_contains n xs \<longleftrightarrow>
     (\<exists>p. (p \<noteq> [] \<or> xs = []) \<and> prefix p xs \<and> entry n p \<noteq> None)"
proof (induction n xs rule: node_contains.induct)
  case (1 cur)
  then show ?case by (auto simp: terminal_entry)
next
  case (2 cur c cs)
  obtain ch t x where cur: "cur = TrieNode ch t x" by (cases cur)
  have ex: "(\<exists>p. (p \<noteq> [] \<or> c # cs = []) \<and> prefix p (c # cs) \<and> entry cur p \<noteq> None) \<longleftrightarrow>
      (\<exists>m q. map_of ch c = Some m \<and> prefix q cs \<and> entry m q \<noteq> None)"
    by (auto simp: prefix_Cons cur split: option.splits) (metis entry_Cons option.simps(5) cur)+
  show ?case
  proof (cases "map_of ch c")
    case None
    with ex show ?thesis by (simp add: cur)
  next
    case (Some m)
    have wf: "wf_node m" using "2.prems" Some cur by auto
    have "(\<exists>q. prefix q cs \<and> entry m q \<noteq> None) \<longleftrightarrow> is_terminal m \<or> node_contains m cs"
    proof -
      have "node_contains m cs \<longleftrightarrow> (\<exists>p. (p \<noteq> [] \<or> cs = []) \<and> prefix p cs \<and> entry m p \<noteq> None)"
        if "\<not> is_terminal m"
        using "2.IH"[of m] Some wf that by (simp add: cur)
      then show ?thesis using terminal_entry[OF wf] Nil_prefix[of cs] by metis
    qed
    with ex Some show ?thesis by (simp add: cur)
  qed
qed

section \<open>Enumeration\<close>

text \<open>\<open>get_all_patterns\<close> with its explicit stack, top first; \<open>clen\<close> is the length of a string in
  bytes, which the code compares with the depth cap. The children are pushed in the order of the
  entries, so the last one is on top.\<close>

definition push_children ::
  "'c list \<Rightarrow> ('c \<times> ('c, 'v) trie_node) list \<Rightarrow> (('c, 'v) trie_node \<times> 'c list) list \<Rightarrow>
     (('c, 'v) trie_node \<times> 'c list) list" where
  "push_children pre ch stack = rev (map (\<lambda>(c, m). (m, pre @ [c])) ch) @ stack"

definition stack_size :: "(('c, 'v) trie_node \<times> 'c list) list \<Rightarrow> nat" where
  "stack_size stack = sum_list (map (\<lambda>(n, _). Suc (size_trie_node (\<lambda>_. 0) (\<lambda>_. 0) n)) stack)"

lemma stack_size_children:
  fixes ch :: "('c \<times> ('c, 'v) trie_node) list"
  shows "stack_size (push_children pre ch stack) < stack_size ((TrieNode ch t x, pre) # stack)"
proof -
  have le: "sum_list (map (\<lambda>(c, m). Suc (size_trie_node (\<lambda>_. 0) (\<lambda>_. 0) m)) cs) \<le>
      size_list (size_prod (\<lambda>_. 0) (size_trie_node (\<lambda>_. 0) (\<lambda>_. 0))) cs"
    for cs :: "('c \<times> ('c, 'v) trie_node) list"
    by (induction cs) auto
  have "sum_list (map g (rev ch)) = sum_list (map g ch)" for g :: "'c \<times> ('c, 'v) trie_node \<Rightarrow> nat"
    by (metis rev_map sum_list_rev)
  with le[of ch] show ?thesis
    by (simp add: stack_size_def push_children_def rev_map comp_def case_prod_unfold)
qed

function all_patterns_loop ::
  "('c list \<Rightarrow> nat) \<Rightarrow> (('c, 'v) trie_node \<times> 'c list) list \<Rightarrow> 'c list list \<Rightarrow> 'c list list" where
  "all_patterns_loop clen [] patterns = patterns"
| "all_patterns_loop clen ((TrieNode ch t x, pre) # stack) patterns =
     (if clen pre > max_trie_depth then all_patterns_loop clen stack patterns
      else all_patterns_loop clen (push_children pre ch stack)
             (if t then patterns @ [pre] else patterns))"
  by pat_completeness auto
termination
proof (relation "measure (\<lambda>(_, stack, _). stack_size stack)", goal_cases)
  case 1
  then show ?case by simp
next
  case (2 clen ch t x pre stack patterns)
  then show ?case by (simp add: stack_size_def)
next
  case (3 clen ch t x pre stack patterns)
  then show ?case using stack_size_children by auto
qed

definition node_patterns :: "('c list \<Rightarrow> nat) \<Rightarrow> ('c, 'v) trie_node \<Rightarrow> 'c list list" where
  "node_patterns clen n = all_patterns_loop clen [(n, [])] []"

text \<open>The patterns a stack still has to deliver.\<close>

definition reach :: "('c list \<Rightarrow> nat) \<Rightarrow> ('c, 'v) trie_node \<Rightarrow> 'c list \<Rightarrow> 'c list set" where
  "reach clen n pre = {p. \<exists>q. p = pre @ q \<and> entry n q \<noteq> None \<and> clen p \<le> max_trie_depth}"

definition pending :: "('c list \<Rightarrow> nat) \<Rightarrow> (('c, 'v) trie_node \<times> 'c list) list \<Rightarrow> 'c list set" where
  "pending clen stack = (\<Union>(n, pre) \<in> set stack. reach clen n pre)"

lemma pending_Cons [simp]: "pending clen ((n, pre) # stack) = reach clen n pre \<union> pending clen stack"
  by (simp add: pending_def)

lemma pending_push:
  "pending clen (push_children pre ch stack) =
     (\<Union>(c, m) \<in> set ch. reach clen m (pre @ [c])) \<union> pending clen stack"
  by (auto simp: pending_def push_children_def)

definition keys_distinct :: "('c \<times> 'a) list \<Rightarrow> bool" where
  "keys_distinct ch \<longleftrightarrow> distinct (map fst ch)"

inductive distinct_node :: "('c, 'v) trie_node \<Rightarrow> bool" where
  distinct_nodeI: "keys_distinct ch \<Longrightarrow> (\<And>c m. map_of ch c = Some m \<Longrightarrow> distinct_node m) \<Longrightarrow>
     distinct_node (TrieNode ch t x)"

inductive_simps distinct_node_simps [simp]: "distinct_node (TrieNode ch t x)"

lemma distinct_node_new [simp]: "distinct_node node_new"
  by (simp add: node_new_def keys_distinct_def)

lemma distinct_node_insert: "distinct_node n \<Longrightarrow> distinct_node (fst (node_insert p v n))"
proof (induction p v n rule: node_insert.induct)
  case (2 c cs v ch t x)
  have "distinct_node (case map_of ch c of Some n \<Rightarrow> n | None \<Rightarrow> node_new)"
    using "2.prems" by (auto split: option.splits)
  with 2 show ?case
    by (auto simp: case_prod_beta update_conv' keys_distinct_def distinct_update split: if_splits)
qed auto

lemma distinct_node_remove: "distinct_node n \<Longrightarrow> distinct_node (fst (node_remove i p n))"
proof (induction i p n rule: node_remove.induct)
  case (2 i c cs ch t x)
  show ?case
  proof (cases "i > max_trie_depth \<or> map_of ch c = None")
    case True
    with 2 show ?thesis by (auto split: option.splits)
  next
    case False
    then obtain m where m: "map_of ch c = Some m" "\<not> i > max_trie_depth" by auto
    obtain m' b where m': "node_remove (i + 1) cs m = (m', b)" by fastforce
    have "distinct_node m'" using 2 m m' by auto
    with 2 m m' show ?thesis
      by (auto simp: Let_def keys_distinct_def update_conv' delete_conv' distinct_delete distinct_update
          split: if_splits)
  qed
qed auto

lemma reach_node:
  assumes "keys_distinct ch" and "t \<longrightarrow> x \<noteq> None"
  shows "reach clen (TrieNode ch t x) pre =
           (if t \<and> clen pre \<le> max_trie_depth then {pre} else {}) \<union>
           (\<Union>(c, m) \<in> set ch. reach clen m (pre @ [c]))"
proof -
  have mem: "(c, m) \<in> set ch \<longleftrightarrow> map_of ch c = Some m" for c m
    using assms(1) by (auto simp: keys_distinct_def)
  have "p \<in> reach clen (TrieNode ch t x) pre \<longleftrightarrow>
      (t \<and> clen pre \<le> max_trie_depth \<and> p = pre) \<or>
      (\<exists>c m. map_of ch c = Some m \<and> p \<in> reach clen m (pre @ [c]))" for p
  proof
    assume "p \<in> reach clen (TrieNode ch t x) pre"
    then obtain q where q: "p = pre @ q" "entry (TrieNode ch t x) q \<noteq> None" "clen p \<le> max_trie_depth"
      by (auto simp: reach_def)
    then show "(t \<and> clen pre \<le> max_trie_depth \<and> p = pre) \<or>
        (\<exists>c m. map_of ch c = Some m \<and> p \<in> reach clen m (pre @ [c]))"
      by (cases q) (auto simp: reach_def split: if_splits option.splits)
  next
    assume "(t \<and> clen pre \<le> max_trie_depth \<and> p = pre) \<or>
        (\<exists>c m. map_of ch c = Some m \<and> p \<in> reach clen m (pre @ [c]))"
    then show "p \<in> reach clen (TrieNode ch t x) pre"
    proof
      assume "t \<and> clen pre \<le> max_trie_depth \<and> p = pre"
      then show ?thesis using assms(2) by (auto simp: reach_def intro!: exI[of _ "[]"])
    next
      assume "\<exists>c m. map_of ch c = Some m \<and> p \<in> reach clen m (pre @ [c])"
      then obtain c m q where "map_of ch c = Some m" "p = pre @ c # q" "entry m q \<noteq> None" "clen p \<le> max_trie_depth"
        by (auto simp: reach_def)
      then show ?thesis by (auto simp: reach_def intro!: exI[of _ "c # q"])
    qed
  qed
  moreover have "(\<Union>(c, m) \<in> set ch. reach clen m (pre @ [c])) =
      {p. \<exists>c m. map_of ch c = Some m \<and> p \<in> reach clen m (pre @ [c])}"
    using mem by fastforce
  ultimately show ?thesis by (simp add: set_eq_iff) blast
qed

lemma reach_too_long:
  assumes "\<And>xs ys. clen xs \<le> clen (xs @ ys)" and "clen pre > max_trie_depth"
  shows "reach clen n pre = {}"
proof -
  have "\<not> clen (pre @ q) \<le> max_trie_depth" for q
    using assms(1)[of pre q] assms(2) by simp
  then show ?thesis by (auto simp: reach_def)
qed

lemma all_patterns_loop_set:
  assumes "\<forall>(n, pre) \<in> set stack. distinct_node n \<and> wf_node n"
    and "\<forall>xs ys. clen xs \<le> clen (xs @ ys)"
  shows "set (all_patterns_loop clen stack patterns) = set patterns \<union> pending clen stack"
  using assms
proof (induction clen stack patterns rule: all_patterns_loop.induct)
  case (1 clen patterns)
  then show ?case by (simp add: pending_def)
next
  case (2 clen ch t x pre stack patterns)
  have node: "distinct_node (TrieNode ch t x)" "wf_node (TrieNode ch t x)"
    using "2.prems"(1) by auto
  have rest: "\<forall>(n, pre) \<in> set stack. distinct_node n \<and> wf_node n"
    using "2.prems"(1) by auto
  show ?case
  proof (cases "clen pre > max_trie_depth")
    case True
    have "reach clen (TrieNode ch t x) pre = {}"
      by (rule reach_too_long) (use "2.prems"(2) True in auto)
    with True show ?thesis
      using "2.IH"(1)[OF True rest "2.prems"(2)] by simp
  next
    case False
    have mem: "(c, m) \<in> set ch \<Longrightarrow> map_of ch c = Some m" for c m
      using node(1) by (auto simp: keys_distinct_def)
    have "\<forall>(n, p) \<in> set (push_children pre ch stack). distinct_node n \<and> wf_node n"
      using node rest mem by (fastforce simp: push_children_def)
    from "2.IH"(2)[OF False this "2.prems"(2)]
    show ?thesis
      using False node reach_node[of ch t x clen pre] by (auto simp: pending_push)
  qed
qed

lemma set_node_patterns:
  assumes "distinct_node n" "wf_node n" "\<And>xs ys. clen xs \<le> clen (xs @ ys)"
  shows "set (node_patterns clen n) = {p. entry n p \<noteq> None \<and> clen p \<le> max_trie_depth}"
proof -
  have "set (node_patterns clen n) = set [] \<union> pending clen [(n, [])]"
    unfolding node_patterns_def by (rule all_patterns_loop_set) (use assms in auto)
  then show ?thesis by (simp add: pending_def reach_def)
qed

end
