(* ===== verification/Utf8.thy ===== *)
theory Utf8
  imports Cat_Prelude
begin

text \<open>
  The characters of a Rust \<open>str\<close>. A text is modelled by its UTF-8 bytes (\<open>string\<close>, well formed by
  \<open>utf8_valid\<close>); a Rust \<open>char\<close>, a Unicode scalar value, by the one to four bytes that encode it
  (\<open>scalar\<close>). \<open>utf8_chars\<close> is \<open>str::chars\<close>.

  Shown: splitting and joining are inverse; a proper part of a scalar is never well formed, so what is a
  prefix or a suffix among characters is one among bytes; and indexing the bytes of a text finds
  nothing that indexing its characters does not (\<open>chunked_positions\<close>).
\<close>

section \<open>Scalars\<close>

definition utf8_width :: "char \<Rightarrow> nat" where
  "utf8_width a = (if ord_of a < 0x80 then 1 else if ord_of a < 0xe0 then 2 else if ord_of a < 0xf0 then 3 else 4)"

function utf8_chars :: "string \<Rightarrow> string list" where
  "utf8_chars [] = []"
| "utf8_chars (a # s) = (a # take (utf8_width a - 1) s) # utf8_chars (drop (utf8_width a - 1) s)"
  by pat_completeness auto
termination
  by (relation "measure length") auto

fun scalar :: "string \<Rightarrow> bool" where
  "scalar [] = False"
| "scalar (a # s) = (length s = utf8_width a - 1 \<and> utf8_valid (a # s))"

lemma concat_utf8_chars [simp]: "concat (utf8_chars s) = s"
  by (induction s rule: utf8_chars.induct) simp_all

lemma utf8_valid_step:
  "utf8_valid (a # s) \<longleftrightarrow> scalar (a # take (utf8_width a - 1) s) \<and> utf8_valid (drop (utf8_width a - 1) s)"
proof (cases s)
  case Nil
  then show ?thesis by (simp add: utf8_width_def Let_def)
next
  case 1: (Cons b s1)
  show ?thesis
  proof (cases s1)
    case Nil
    then show ?thesis using 1 by (auto simp: utf8_width_def Let_def)
  next
    case 2: (Cons c s2)
    then show ?thesis using 1 by (cases s2) (auto simp: utf8_width_def Let_def numeral_eq_Suc)
  qed
qed

lemma scalar_append: "scalar c \<Longrightarrow> utf8_valid (c @ s) \<longleftrightarrow> utf8_valid s"
  by (cases c) (auto simp del: utf8_valid.simps simp: utf8_valid_step[of _ "_ @ s"])

lemma scalar_chars: "scalar c \<Longrightarrow> utf8_chars (c @ s) = c # utf8_chars s"
  by (cases c) (auto simp del: utf8_valid.simps)

lemma scalar_valid: "scalar c \<Longrightarrow> utf8_valid c"
  by (cases c) (auto simp del: utf8_valid.simps)

lemma valid_scalars: "utf8_valid s \<longleftrightarrow> list_all scalar (utf8_chars s)"
  by (induction s rule: utf8_chars.induct) (simp_all add: utf8_valid_step del: utf8_valid.simps(2) scalar.simps)

lemma chars_concat: "list_all scalar cs \<Longrightarrow> utf8_chars (concat cs) = cs"
  by (induction cs) (simp_all add: scalar_chars)

lemma chars_valid: "utf8_valid s \<Longrightarrow> c \<in> set (utf8_chars s) \<Longrightarrow> scalar c"
  by (simp add: valid_scalars list_all_iff)

lemma concat_valid: "list_all scalar cs \<Longrightarrow> utf8_valid (concat cs)"
  by (simp add: valid_scalars chars_concat)

lemma chars_eq_iff: "utf8_valid p \<Longrightarrow> cs = utf8_chars p \<longleftrightarrow> list_all scalar cs \<and> concat cs = p"
  using chars_concat valid_scalars by auto

lemma utf8_chars_append: "utf8_valid s \<Longrightarrow> utf8_chars (s @ t) = utf8_chars s @ utf8_chars t"
proof (induction s rule: utf8_chars.induct)
  case (2 a s)
  let ?c = "a # take (utf8_width a - 1) s" and ?r = "drop (utf8_width a - 1) s"
  have c: "scalar ?c" "utf8_valid ?r" using "2.prems" utf8_valid_step by blast+
  have "utf8_chars ((a # s) @ t) = utf8_chars (?c @ ?r @ t)" by (metis append.assoc append_Cons append_take_drop_id)
  also have "\<dots> = ?c # utf8_chars (?r @ t)" using c(1) by (rule scalar_chars)
  finally show ?case using "2.IH"[OF c(2)] by simp
qed simp

section \<open>Parts of a scalar\<close>

lemma cont_not_first: "cont_byte b \<Longrightarrow> \<not> utf8_valid (b # s)"
  by (cases s; cases "tl s"; cases "tl (tl s)") (auto simp: cont_byte_def Let_def)

lemma scalar_cont: "scalar (a # r) \<Longrightarrow> list_all cont_byte r"
proof -
  assume s: "scalar (a # r)"
  consider "r = []" | b where "r = [b]" | b c where "r = [b, c]" | b c d where "r = [b, c, d]"
    | b c d e r' where "r = b # c # d # e # r'"
    by (metis list.exhaust)
  then show ?thesis
  proof cases
    case 2
    then show ?thesis using s by (simp add: utf8_width_def Let_def split: if_splits)
  next
    case 3
    then show ?thesis using s by (simp add: utf8_width_def Let_def split: if_splits)
  next
    case 4
    then show ?thesis using s by (simp add: utf8_width_def Let_def split: if_splits)
  next
    case 5
    then show ?thesis using s by (simp add: utf8_width_def del: utf8_valid.simps split: if_splits)
  qed simp
qed

lemma scalar_continues: "scalar (a # r) \<Longrightarrow> b \<in> set r \<Longrightarrow> cont_byte b"
  using scalar_cont by (auto simp: list_all_iff)

lemma scalar_first: "scalar c \<Longrightarrow> \<not> cont_byte (hd c)"
  using cont_not_first by (cases c) (auto simp del: utf8_valid.simps)

lemma scalar_proper_prefix:
  assumes "scalar c" "0 < i" "i < length c"
  shows "\<not> utf8_valid (take i c)"
proof (cases c)
  case (Cons a r)
  obtain j where j: "i = Suc j" "j < utf8_width a - 1" using Cons assms by (cases i) auto
  then have "length (take (utf8_width a - 1) (take j r)) \<noteq> utf8_width a - 1" by simp
  then have "\<not> scalar (a # take (utf8_width a - 1) (take j r))" by simp
  then show ?thesis using Cons j(1) utf8_valid_step[of a "take j r"] by (simp del: utf8_valid.simps scalar.simps)
qed (use assms in simp)

lemma scalar_proper_suffix:
  assumes "scalar c" "0 < i" "i < length c"
  shows "\<not> utf8_valid (drop i c)"
proof (cases c)
  case (Cons a r)
  then obtain j where j: "i = Suc j" "j < length r" using assms(2,3) by (cases i) auto
  then have "drop i c = r ! j # drop (Suc j) r" using Cons by (simp add: Cons_nth_drop_Suc)
  moreover have "cont_byte (r ! j)" using scalar_continues[of a r] assms(1) Cons j(2) by simp
  ultimately show ?thesis using cont_not_first by metis
qed (use assms in simp)

lemma scalar_appended: "scalar c \<Longrightarrow> utf8_valid (s @ c) \<longleftrightarrow> utf8_valid s"
proof (induction s rule: utf8_chars.induct)
  case (2 a s)
  let ?k = "utf8_width a - 1"
  show ?case
  proof (cases "?k \<le> length s")
    case True
    then show ?thesis using 2 utf8_valid_step[of a s] utf8_valid_step[of a "s @ c"]
      by (simp del: utf8_valid.simps scalar.simps)
  next
    case False
    then have "hd c \<in> set (take ?k (s @ c))" using "2.prems" by (cases c) (auto simp: take_Cons' in_set_conv_nth)
    then have "\<not> scalar (a # take ?k (s @ c))" using scalar_continues scalar_first[OF "2.prems"] by blast
    moreover have "\<not> scalar (a # take ?k s)" using False by simp
    ultimately show ?thesis using utf8_valid_step[of a s] utf8_valid_step[of a "s @ c"] unfolding append_Cons by blast
  qed
qed (simp add: scalar_valid)

lemma utf8_valid_append: "utf8_valid t \<Longrightarrow> utf8_valid (s @ t) \<longleftrightarrow> utf8_valid s"
proof -
  have "list_all scalar cs \<Longrightarrow> utf8_valid (s @ concat cs) \<longleftrightarrow> utf8_valid s" for cs
  proof (induction cs rule: rev_induct)
    case (snoc c cs)
    then show ?case using scalar_appended[of c "s @ concat cs"] by simp
  qed simp
  from this[of "utf8_chars t"] show "utf8_valid t \<Longrightarrow> utf8_valid (s @ t) \<longleftrightarrow> utf8_valid s"
    by (simp add: valid_scalars)
qed

text \<open>Among characters and among bytes the prefixes are the same, and the suffixes.\<close>

lemma chars_prefix: "utf8_valid p \<Longrightarrow> prefix (utf8_chars p) (utf8_chars x) \<longleftrightarrow> prefix p x"
  by (metis concat_append concat_utf8_chars prefix_def utf8_chars_append)

lemma chars_suffix: "utf8_valid p \<Longrightarrow> utf8_valid x \<Longrightarrow> suffix (utf8_chars p) (utf8_chars x) \<longleftrightarrow> suffix p x"
  by (metis concat_append concat_utf8_chars suffix_def utf8_chars_append utf8_valid_append)

lemma utf8_chars_Nil [simp]: "utf8_chars p = [] \<longleftrightarrow> p = []"
  by (cases p) simp_all

section \<open>Positions\<close>

text \<open>Indexing a text by the positions of its bytes finds what indexing it by its chunks finds, in the
  same order, when what is indexed (\<open>f\<close>) is never found off the boundaries of the chunks (\<open>V\<close>).\<close>

lemma chunked_positions:
  assumes "\<And>d p. d \<in> set ds \<Longrightarrow> V (d @ p) \<longleftrightarrow> V p"
    and "\<And>d i. d \<in> set ds \<Longrightarrow> 0 < i \<Longrightarrow> i < length d \<Longrightarrow> \<not> V (take i d)"
    and "[] \<notin> set ds" "\<And>p. \<not> V p \<Longrightarrow> f p = None"
  shows "List.map_filter (\<lambda>i. f (concat (take i ds))) [1..<Suc (length ds)] =
    List.map_filter (\<lambda>i. f (take i (concat ds))) [1..<Suc (length (concat ds))]"
  using assms
proof (induction ds arbitrary: f)
  case (Cons d ds)
  have mf: "List.map_filter g (map h xs) = List.map_filter (g \<circ> h) xs" for g :: "nat \<Rightarrow> 'b option" and h xs
    by (simp add: List.map_filter_def filter_map comp_def)
  have app: "List.map_filter g (xs @ ys) = List.map_filter g xs @ List.map_filter g ys" for g :: "nat \<Rightarrow> 'b option" and xs ys
    by (simp add: List.map_filter_def)
  have shift: "[Suc k..<Suc (k + n)] = map (\<lambda>i. i + k) [1..<Suc n]" for k n :: nat
    by (rule nth_equalityI) (simp_all del: upt_Suc)
  let ?f = "\<lambda>p. f (d @ p)" and ?n = "length (concat ds)"
  have IH: "List.map_filter (\<lambda>i. ?f (concat (take i ds))) [1..<Suc (length ds)] =
      List.map_filter (\<lambda>i. ?f (take i (concat ds))) [1..<Suc ?n]"
    by (rule Cons.IH) (use Cons.prems in auto)
  have d: "d \<noteq> []" "0 < length d" using Cons.prems(3) by auto
  have "[1..<Suc (length (d # ds))] = 1 # map (\<lambda>i. i + 1) [1..<Suc (length ds)]"
    using shift[of 1 "length ds"] by (simp add: upt_rec del: upt_Suc)
  then have left: "List.map_filter (\<lambda>i. f (concat (take i (d # ds)))) [1..<Suc (length (d # ds))] =
      (case f d of None \<Rightarrow> [] | Some v \<Rightarrow> [v]) @ List.map_filter (\<lambda>i. ?f (concat (take i ds))) [1..<Suc (length ds)]"
    by (simp add: List.map_filter_simps mf comp_def del: upt_Suc split: option.split)
  have "[1..<Suc (length (concat (d # ds)))] = [1..<length d] @ [length d] @ map (\<lambda>i. i + length d) [1..<Suc ?n]"
    using shift[of "length d" ?n] d(2) upt_add_eq_append[of 1 "length d" "Suc ?n"]
    by (simp add: upt_rec[of "length d"] Suc_le_eq del: upt_Suc)
  moreover have "List.map_filter (\<lambda>i. f (take i (concat (d # ds)))) [1..<length d] = []"
    using Cons.prems(2,4) by (auto simp: List.map_filter_def filter_empty_conv)
  ultimately have "List.map_filter (\<lambda>i. f (take i (concat (d # ds)))) [1..<Suc (length (concat (d # ds)))] =
      (case f d of None \<Rightarrow> [] | Some v \<Rightarrow> [v]) @ List.map_filter (\<lambda>i. ?f (take i (concat ds))) [1..<Suc ?n]"
    by (simp add: app mf comp_def List.map_filter_simps del: upt_Suc split: option.split)
  with left IH show ?case by simp
qed (simp add: List.map_filter_def)

end
