(* ===== verification/Uri_Matcher.thy ===== *)
theory Uri_Matcher
  imports Trie Utf8
begin

text \<open>
  The tries and the matcher of \<open>src/src/trie.rs\<close>: \<open>PrefixTrie\<close>, \<open>SuffixTrie\<close> (a trie of reversed
  patterns) and \<open>UriMatcher\<close>. The interface \<open>affix_index\<close> states what the matcher needs from a
  trie, \<open>removable_index\<close> adds removal and the counter; both tries provide both.

  The regex engine, the hex decoder and SHA-256 are parameters of the matcher. Texts are their UTF-8
  bytes; the tries of the matcher are indexed, as in the code, by the characters of the patterns
  (\<open>utf8_chars\<close> of \<open>Utf8\<close>), from the first or from the last.
\<close>

section \<open>The interface of an index of affixes\<close>

locale affix_index =
  fixes empty :: 't
    and ins :: "'c list \<Rightarrow> 'v \<Rightarrow> 't \<Rightarrow> 't"
    and search :: "'t \<Rightarrow> 'c list \<Rightarrow> 'v list"
    and entries :: "'t \<Rightarrow> 'c list \<Rightarrow> 'v option"
    and inv :: "'t \<Rightarrow> bool"
    and affix :: "'c list \<Rightarrow> 'c list \<Rightarrow> bool"
  assumes inv_empty: "inv empty"
    and inv_ins: "inv t \<Longrightarrow> inv (ins p v t)"
    and entries_empty: "entries empty p = None"
    and entries_ins: "inv t \<Longrightarrow> entries (ins p v t) q = (if q = p then Some v else entries t q)"
    and set_search: "inv t \<Longrightarrow>
      set (search t x) = {v. \<exists>p. p \<noteq> [] \<and> affix p x \<and> entries t p = Some v}"
begin

definition loaded :: "('c list \<Rightarrow> 'v) \<Rightarrow> 'c list list \<Rightarrow> 't" where
  "loaded f ps = fold (\<lambda>p. ins p (f p)) ps empty"

lemma inv_fold: "inv t \<Longrightarrow> inv (fold (\<lambda>p. ins p (f p)) ps t)"
  by (induction ps arbitrary: t) (auto simp: inv_ins)

lemma entries_fold:
  "inv t \<Longrightarrow> entries (fold (\<lambda>p. ins p (f p)) ps t) q = (if q \<in> set ps then Some (f q) else entries t q)"
  by (induction ps arbitrary: t) (auto simp: inv_ins entries_ins)

lemma search_nonempty:
  "inv t \<Longrightarrow> search t x \<noteq> [] \<longleftrightarrow> (\<exists>p v. p \<noteq> [] \<and> affix p x \<and> entries t p = Some v)"
proof -
  assume "inv t"
  have "search t x \<noteq> [] \<longleftrightarrow> (\<exists>v. v \<in> set (search t x))" by (cases "search t x") auto
  then show ?thesis unfolding set_search[OF \<open>inv t\<close>] by blast
qed

lemma search_ins:
  "inv t \<Longrightarrow> search (ins p v t) x \<noteq> [] \<longleftrightarrow> search t x \<noteq> [] \<or> (p \<noteq> [] \<and> affix p x)"
  by (auto simp: search_nonempty inv_ins entries_ins split: if_splits)

lemma search_empty: "search empty x = []"
  using search_nonempty[OF inv_empty, of x] by (auto simp: entries_empty)

lemma loaded_search: "search (loaded f ps) x \<noteq> [] \<longleftrightarrow> (\<exists>p \<in> set ps. p \<noteq> [] \<and> affix p x)"
  by (auto simp: loaded_def search_nonempty inv_fold inv_empty entries_fold entries_empty split: if_splits)

end

locale removable_index = affix_index empty ins search entries inv affix
  for empty :: 't
    and ins :: "'c list \<Rightarrow> 'v \<Rightarrow> 't \<Rightarrow> 't"
    and search :: "'t \<Rightarrow> 'c list \<Rightarrow> 'v list"
    and entries :: "'t \<Rightarrow> 'c list \<Rightarrow> 'v option"
    and inv :: "'t \<Rightarrow> bool"
    and affix :: "'c list \<Rightarrow> 'c list \<Rightarrow> bool" +
  fixes del :: "'c list \<Rightarrow> 't \<Rightarrow> 't \<times> bool"
    and count :: "'t \<Rightarrow> nat"
    and removable :: "'c list \<Rightarrow> bool"
  assumes inv_del: "inv t \<Longrightarrow> inv (fst (del p t))"
    and entries_del: "inv t \<Longrightarrow> removable p \<Longrightarrow>
      entries (fst (del p t)) q = (if q = p then None else entries t q)"
    and del_found: "inv t \<Longrightarrow> removable p \<Longrightarrow> snd (del p t) \<longleftrightarrow> entries t p \<noteq> None"
    and count_card: "inv t \<Longrightarrow> finite (dom (entries t)) \<and> count t = card (dom (entries t))"
begin

lemma dom_ins: "inv t \<Longrightarrow> dom (entries (ins p v t)) = insert p (dom (entries t))"
  by (auto simp: entries_ins split: if_splits)

lemma dom_del: "inv t \<Longrightarrow> removable p \<Longrightarrow> dom (entries (fst (del p t))) = dom (entries t) - {p}"
  by (auto simp: entries_del split: if_splits)

lemma count_ins:
  "inv t \<Longrightarrow> count (ins p v t) = (if entries t p = None then count t + 1 else count t)"
  using count_card[of t] count_card[OF inv_ins, of t p v]
  by (auto simp: dom_ins card_insert_if domIff)

lemma count_del:
  "inv t \<Longrightarrow> removable p \<Longrightarrow> count (fst (del p t)) = (if snd (del p t) then count t - 1 else count t)"
  using count_card[of t] count_card[OF inv_del, of t p]
  by (auto simp: dom_del del_found domIff)

lemma del_ins:
  "inv t \<Longrightarrow> removable p \<Longrightarrow> entries t p = None \<Longrightarrow>
     snd (del p (ins p v t)) \<and> entries (fst (del p (ins p v t))) = entries t"
  by (auto simp: del_found inv_ins entries_ins entries_del fun_eq_iff)

end

section \<open>The prefix trie\<close>

record ('c, 'v) prefix_trie =
  pt_root :: "('c, 'v) trie_node"
  pt_size :: nat

definition prefix_new :: "('c, 'v) prefix_trie" where
  "prefix_new = \<lparr>pt_root = node_new, pt_size = 0\<rparr>"

definition prefix_insert :: "'c list \<Rightarrow> 'v \<Rightarrow> ('c, 'v) prefix_trie \<Rightarrow> ('c, 'v) prefix_trie" where
  "prefix_insert p v t =
     (let (root', new) = node_insert p v (pt_root t)
      in \<lparr>pt_root = root', pt_size = (if new then pt_size t + 1 else pt_size t)\<rparr>)"

definition search_prefix :: "('c, 'v) prefix_trie \<Rightarrow> 'c list \<Rightarrow> 'v list" where
  "search_prefix t x = node_search (pt_root t) x"

definition contains_prefix :: "('c, 'v) prefix_trie \<Rightarrow> 'c list \<Rightarrow> bool" where
  "contains_prefix t x = node_contains (pt_root t) x"

definition prefix_all_patterns :: "('c list \<Rightarrow> nat) \<Rightarrow> ('c, 'v) prefix_trie \<Rightarrow> 'c list list" where
  "prefix_all_patterns clen t = node_patterns clen (pt_root t)"

definition prefix_remove :: "'c list \<Rightarrow> ('c, 'v) prefix_trie \<Rightarrow> ('c, 'v) prefix_trie \<times> bool" where
  "prefix_remove p t =
     (let (root', removed) = node_remove 0 p (pt_root t)
      in (\<lparr>pt_root = root', pt_size = (if removed then pt_size t - 1 else pt_size t)\<rparr>, removed))"

definition node_inv :: "('c, 'v) trie_node \<Rightarrow> nat \<Rightarrow> bool" where
  "node_inv n k \<longleftrightarrow> wf_node n \<and> distinct_node n \<and> finite (dom (entry n)) \<and> k = card (dom (entry n))"

definition prefix_inv :: "('c, 'v) prefix_trie \<Rightarrow> bool" where
  "prefix_inv t \<longleftrightarrow> node_inv (pt_root t) (pt_size t)"

definition prefix_entries :: "('c, 'v) prefix_trie \<Rightarrow> 'c list \<Rightarrow> 'v option" where
  "prefix_entries t = entry (pt_root t)"

definition removable_path :: "'c list \<Rightarrow> bool" where
  "removable_path p \<longleftrightarrow> length p \<le> max_trie_depth"

lemma dom_entry_insert: "wf_node n \<Longrightarrow> dom (entry (fst (node_insert p v n))) = insert p (dom (entry n))"
  by (auto simp: entry_node_insert split: if_splits)

lemma node_inv_new: "node_inv node_new 0"
  by (simp add: node_inv_def dom_def)

lemma node_inv_insert:
  assumes "node_inv n k"
  shows "node_inv (fst (node_insert p v n)) (if snd (node_insert p v n) then k + 1 else k)"
  using assms
  by (auto simp: node_inv_def wf_node_insert distinct_node_insert dom_entry_insert node_insert_new
      card_insert_if domIff)

text \<open>A pattern longer than the depth cap is not found by \<open>remove\<close>.\<close>

lemma node_remove_too_long:
  assumes "wf_node n" "i + length p > max_trie_depth"
  shows "\<not> snd (node_remove i p n) \<and> entry (fst (node_remove i p n)) = entry n"
  using assms
proof (induction i p n rule: node_remove.induct)
  case (2 i c cs ch t x)
  show ?case
  proof (cases "i > max_trie_depth \<or> map_of ch c = None")
    case True
    then show ?thesis by (auto split: option.splits)
  next
    case False
    then obtain m where m: "map_of ch c = Some m" "\<not> i > max_trie_depth" by auto
    obtain m' b where m': "node_remove (i + 1) cs m = (m', b)" by fastforce
    have "\<not> b \<and> entry m' = entry m" using 2 m m' by auto
    moreover have "entry (TrieNode (AList.update c m' (AList.delete c ch)) t x) q = entry (TrieNode ch t x) q" for q
      using calculation m(1) by (cases q) (auto simp: update_conv' delete_conv' split: option.splits)
    ultimately show ?thesis using m m' by (simp add: Let_def fun_eq_iff del: entry_Cons)
  qed
qed auto

lemma node_inv_remove:
  assumes "node_inv n k"
  shows "node_inv (fst (node_remove 0 p n)) (if snd (node_remove 0 p n) then k - 1 else k)"
proof (cases "length p \<le> max_trie_depth")
  case True
  have wf: "wf_node n" using assms by (simp add: node_inv_def)
  note E = entry_node_remove[OF wf, of 0 p]
  have d: "dom (entry (fst (node_remove 0 p n))) = dom (entry n) - {p}"
  proof -
    have "entry (fst (node_remove 0 p n)) q = (if q = p then None else entry n q)" for q
      using E True by simp
    then show ?thesis by (simp add: set_eq_iff domIff)
  qed
  have f: "snd (node_remove 0 p n) \<longleftrightarrow> p \<in> dom (entry n)" using E True by auto
  from assms show ?thesis
    by (simp add: node_inv_def wf_node_remove distinct_node_remove d f)
next
  case False
  then show ?thesis
    using node_remove_too_long[of n 0 p] assms
    by (auto simp: node_inv_def wf_node_remove distinct_node_remove)
qed

interpretation pt: removable_index prefix_new prefix_insert search_prefix prefix_entries prefix_inv
  prefix prefix_remove pt_size removable_path
proof (unfold_locales, goal_cases)
  case 1
  then show ?case by (simp add: prefix_inv_def prefix_new_def node_inv_new)
next
  case (2 t p v)
  then show ?case
    using node_inv_insert[of "pt_root t" "pt_size t" p v]
    by (simp add: prefix_inv_def prefix_insert_def case_prod_beta)
next
  case (3 p)
  then show ?case by (simp add: prefix_entries_def prefix_new_def)
next
  case (4 t p v q)
  then show ?case
    by (simp add: prefix_inv_def node_inv_def prefix_entries_def prefix_insert_def case_prod_beta
        entry_node_insert)
next
  case (5 t x)
  then show ?case by (simp add: search_prefix_def prefix_entries_def set_node_search)
next
  case (6 t p)
  then show ?case
    using node_inv_remove[of "pt_root t" "pt_size t" p]
    by (simp add: prefix_inv_def prefix_remove_def case_prod_beta)
next
  case (7 t p q)
  then show ?case
    using entry_node_remove[of "pt_root t" 0 p]
    by (simp add: prefix_inv_def node_inv_def prefix_entries_def prefix_remove_def case_prod_beta
        removable_path_def)
next
  case (8 t p)
  then show ?case
    using entry_node_remove[of "pt_root t" 0 p]
    by (simp add: prefix_inv_def node_inv_def prefix_entries_def prefix_remove_def case_prod_beta
        removable_path_def)
next
  case (9 t)
  then show ?case by (simp add: prefix_inv_def node_inv_def prefix_entries_def)
qed

section \<open>The suffix trie\<close>

record ('c, 'v) suffix_trie =
  st_root :: "('c, 'v) trie_node"
  st_size :: nat

definition suffix_new :: "('c, 'v) suffix_trie" where
  "suffix_new = \<lparr>st_root = node_new, st_size = 0\<rparr>"

definition suffix_insert :: "'c list \<Rightarrow> 'v \<Rightarrow> ('c, 'v) suffix_trie \<Rightarrow> ('c, 'v) suffix_trie" where
  "suffix_insert p v t =
     (let (root', new) = node_insert (rev p) v (st_root t)
      in \<lparr>st_root = root', st_size = (if new then st_size t + 1 else st_size t)\<rparr>)"

definition search_suffix :: "('c, 'v) suffix_trie \<Rightarrow> 'c list \<Rightarrow> 'v list" where
  "search_suffix t x = node_search (st_root t) (rev x)"

definition contains_suffix :: "('c, 'v) suffix_trie \<Rightarrow> 'c list \<Rightarrow> bool" where
  "contains_suffix t x = node_contains (st_root t) (rev x)"

definition suffix_all_patterns :: "('c list \<Rightarrow> nat) \<Rightarrow> ('c, 'v) suffix_trie \<Rightarrow> 'c list list" where
  "suffix_all_patterns clen t = map rev (node_patterns clen (st_root t))"

definition suffix_remove :: "'c list \<Rightarrow> ('c, 'v) suffix_trie \<Rightarrow> ('c, 'v) suffix_trie \<times> bool" where
  "suffix_remove p t =
     (let (root', removed) = node_remove 0 (rev p) (st_root t)
      in (\<lparr>st_root = root', st_size = (if removed then st_size t - 1 else st_size t)\<rparr>, removed))"

definition suffix_inv :: "('c, 'v) suffix_trie \<Rightarrow> bool" where
  "suffix_inv t \<longleftrightarrow> node_inv (st_root t) (st_size t)"

definition suffix_entries :: "('c, 'v) suffix_trie \<Rightarrow> 'c list \<Rightarrow> 'v option" where
  "suffix_entries t p = entry (st_root t) (rev p)"

lemma set_search_suffix:
  "set (search_suffix t x) = {v. \<exists>p. p \<noteq> [] \<and> suffix p x \<and> suffix_entries t p = Some v}"
proof -
  have "(\<exists>p. p \<noteq> [] \<and> prefix p (rev x) \<and> entry (st_root t) p = Some v) \<longleftrightarrow>
      (\<exists>p. p \<noteq> [] \<and> suffix p x \<and> entry (st_root t) (rev p) = Some v)" for v
    by (metis rev_is_Nil_conv rev_rev_ident suffix_to_prefix)
  then show ?thesis by (simp add: search_suffix_def set_node_search suffix_entries_def)
qed

lemma dom_suffix_entries: "dom (suffix_entries t) = rev ` dom (entry (st_root t))"
proof -
  have "p \<in> dom (suffix_entries t) \<longleftrightarrow> p \<in> rev ` dom (entry (st_root t))" for p
    by (auto simp: suffix_entries_def domIff image_iff intro!: bexI[of _ "rev p"])
  then show ?thesis by blast
qed

interpretation st: removable_index suffix_new suffix_insert search_suffix suffix_entries suffix_inv
  suffix suffix_remove st_size removable_path
proof (unfold_locales, goal_cases)
  case 1
  then show ?case by (simp add: suffix_inv_def suffix_new_def node_inv_new)
next
  case (2 t p v)
  then show ?case
    using node_inv_insert[of "st_root t" "st_size t" "rev p" v]
    by (simp add: suffix_inv_def suffix_insert_def case_prod_beta)
next
  case (3 p)
  then show ?case by (simp add: suffix_entries_def suffix_new_def)
next
  case (4 t p v q)
  then show ?case
    by (simp add: suffix_inv_def node_inv_def suffix_entries_def suffix_insert_def case_prod_beta
        entry_node_insert)
next
  case (5 t x)
  show ?case by (rule set_search_suffix)
next
  case (6 t p)
  then show ?case
    using node_inv_remove[of "st_root t" "st_size t" "rev p"]
    by (simp add: suffix_inv_def suffix_remove_def case_prod_beta)
next
  case (7 t p q)
  then show ?case
    using entry_node_remove[of "st_root t" 0 "rev p"]
    by (simp add: suffix_inv_def node_inv_def suffix_entries_def suffix_remove_def case_prod_beta
        removable_path_def)
next
  case (8 t p)
  then show ?case
    using entry_node_remove[of "st_root t" 0 "rev p"]
    by (simp add: suffix_inv_def node_inv_def suffix_entries_def suffix_remove_def case_prod_beta
        removable_path_def)
next
  case (9 t)
  then show ?case
    by (simp add: suffix_inv_def node_inv_def dom_suffix_entries card_image)
qed

section \<open>The matcher\<close>

record uri_matcher_limits =
  max_regex_pattern_length :: nat
  max_regex_patterns :: nat

definition uri_matcher_limits_default :: uri_matcher_limits where
  "uri_matcher_limits_default =
     \<lparr>max_regex_pattern_length = 4 * 1024, max_regex_patterns = 100\<rparr>"

record 're uri_matcher =
  um_prefix :: "(string, string) prefix_trie"
  um_suffix :: "(string, string) suffix_trie"
  um_exact :: "(string \<times> string) list"
  um_regex :: "('re \<times> string) list"
  um_hash :: "(bytes \<times> string) list"
  um_limits :: uri_matcher_limits

definition um_with_limits :: "uri_matcher_limits \<Rightarrow> 're uri_matcher" where
  "um_with_limits l =
     \<lparr>um_prefix = prefix_new, um_suffix = suffix_new, um_exact = [], um_regex = [], um_hash = [],
      um_limits = l\<rparr>"

definition um_new :: "'re uri_matcher" where
  "um_new = um_with_limits uri_matcher_limits_default"

text \<open>The parameters: \<open>compile\<close> builds a regex or fails, \<open>hexd\<close> decodes hexadecimal.\<close>

fun add_pattern ::
  "(string \<Rightarrow> string + 're) \<Rightarrow> (string \<Rightarrow> string + bytes) \<Rightarrow> uri_pattern \<Rightarrow> 're uri_matcher \<Rightarrow>
     string + 're uri_matcher" where
  "add_pattern compile hexd (UpExact uri) m = Inr (m\<lparr>um_exact := AList.update uri uri (um_exact m)\<rparr>)"
| "add_pattern compile hexd (UpPrefix p) m = Inr (m\<lparr>um_prefix := prefix_insert (utf8_chars p) p (um_prefix m)\<rparr>)"
| "add_pattern compile hexd (UpSuffix p) m = Inr (m\<lparr>um_suffix := suffix_insert (utf8_chars p) p (um_suffix m)\<rparr>)"
| "add_pattern compile hexd (UpRegex p) m =
     (if length (um_regex m) \<ge> max_regex_patterns (um_limits m) then Inl ''Too many regex patterns: ''
      else if length p > max_regex_pattern_length (um_limits m) then Inl ''Regex pattern too long: ''
      else rbind (compile p) (\<lambda>re. Inr (m\<lparr>um_regex := um_regex m @ [(re, p)]\<rparr>)))"
| "add_pattern compile hexd (UpHash h) m =
     (case hexd h of
        Inl e \<Rightarrow> Inl ''Invalid hash hex: ''
      | Inr bs \<Rightarrow>
          (if length bs \<noteq> 32 then Inl ''Hash must be 32 bytes (SHA-256)''
           else Inr (m\<lparr>um_hash := AList.update bs h (um_hash m)\<rparr>)))"

definition um_matches ::
  "('re \<Rightarrow> string \<Rightarrow> bool) \<Rightarrow> (string \<Rightarrow> bytes) \<Rightarrow> 're uri_matcher \<Rightarrow> string \<Rightarrow> bool" where
  "um_matches is_match sha256 m uri =
     (if map_of (um_exact m) uri \<noteq> None then True
      else if search_prefix (um_prefix m) (utf8_chars uri) \<noteq> [] then True
      else if search_suffix (um_suffix m) (utf8_chars uri) \<noteq> [] then True
      else if list_ex (\<lambda>(re, _). is_match re uri) (um_regex m) then True
      else if map_of (um_hash m) (sha256 uri) \<noteq> None then True
      else False)"

definition get_matching_patterns ::
  "('re \<Rightarrow> string \<Rightarrow> bool) \<Rightarrow> (string \<Rightarrow> bytes) \<Rightarrow> 're uri_matcher \<Rightarrow> string \<Rightarrow> string list" where
  "get_matching_patterns is_match sha256 m uri =
     (case map_of (um_exact m) uri of Some p \<Rightarrow> [''exact:'' @ p] | None \<Rightarrow> [])
     @ map (\<lambda>p. ''prefix:'' @ p) (search_prefix (um_prefix m) (utf8_chars uri))
     @ map (\<lambda>p. ''suffix:'' @ p) (search_suffix (um_suffix m) (utf8_chars uri))
     @ map (\<lambda>(_, p). ''regex:'' @ p) (filter (\<lambda>(re, _). is_match re uri) (um_regex m))
     @ (case map_of (um_hash m) (sha256 uri) of Some p \<Rightarrow> [''hash:'' @ p] | None \<Rightarrow> [])"

text \<open>The patterns are added one by one; the first error ends the loading.\<close>

fun add_patterns ::
  "(string \<Rightarrow> string + 're) \<Rightarrow> (string \<Rightarrow> string + bytes) \<Rightarrow> uri_pattern list \<Rightarrow> 're uri_matcher \<Rightarrow>
     string + 're uri_matcher" where
  "add_patterns compile hexd [] m = Inr m"
| "add_patterns compile hexd (p # ps) m =
     (case add_pattern compile hexd p m of Inl e \<Rightarrow> Inl e | Inr m' \<Rightarrow> add_patterns compile hexd ps m')"

text \<open>What a pattern means.\<close>

fun pattern_matches ::
  "(string \<Rightarrow> string + 're) \<Rightarrow> ('re \<Rightarrow> string \<Rightarrow> bool) \<Rightarrow> (string \<Rightarrow> string + bytes) \<Rightarrow>
     (string \<Rightarrow> bytes) \<Rightarrow> uri_pattern \<Rightarrow> string \<Rightarrow> bool" where
  "pattern_matches compile is_match hexd sha256 (UpExact s) uri = (uri = s)"
| "pattern_matches compile is_match hexd sha256 (UpPrefix s) uri = (s \<noteq> [] \<and> prefix s uri)"
| "pattern_matches compile is_match hexd sha256 (UpSuffix s) uri = (s \<noteq> [] \<and> suffix s uri)"
| "pattern_matches compile is_match hexd sha256 (UpRegex s) uri =
     (case compile s of Inr re \<Rightarrow> is_match re uri | Inl _ \<Rightarrow> False)"
| "pattern_matches compile is_match hexd sha256 (UpHash s) uri =
     (case hexd s of Inr bs \<Rightarrow> length bs = 32 \<and> sha256 uri = bs | Inl _ \<Rightarrow> False)"

text \<open>What the type \<open>String\<close> guarantees of the patterns that go into a trie.\<close>

fun pattern_text :: "uri_pattern \<Rightarrow> bool" where
  "pattern_text (UpPrefix s) = utf8_valid s"
| "pattern_text (UpSuffix s) = utf8_valid s"
| "pattern_text _ = True"

definition um_inv :: "'re uri_matcher \<Rightarrow> bool" where
  "um_inv m \<longleftrightarrow> prefix_inv (um_prefix m) \<and> suffix_inv (um_suffix m) \<and>
     length (um_regex m) \<le> max_regex_patterns (um_limits m) \<and>
     (\<forall>(re, p) \<in> set (um_regex m). length p \<le> max_regex_pattern_length (um_limits m))"

lemma um_inv_new [simp]: "um_inv (um_with_limits l)"
  by (simp add: um_inv_def um_with_limits_def pt.inv_empty st.inv_empty)

lemma um_inv_add: "um_inv m \<Longrightarrow> add_pattern compile hexd p m = Inr m' \<Longrightarrow>
    um_inv m' \<and> um_limits m' = um_limits m"
  by (cases p) (auto simp: um_inv_def pt.inv_ins st.inv_ins split: if_splits sum.splits)

lemma um_matches_iff:
  "um_matches is_match sha256 m uri \<longleftrightarrow>
     map_of (um_exact m) uri \<noteq> None \<or> search_prefix (um_prefix m) (utf8_chars uri) \<noteq> [] \<or>
     search_suffix (um_suffix m) (utf8_chars uri) \<noteq> [] \<or> (\<exists>(re, p) \<in> set (um_regex m). is_match re uri) \<or>
     map_of (um_hash m) (sha256 uri) \<noteq> None"
  by (simp add: um_matches_def list_ex_iff del: not_None_eq)

lemma um_matches_add:
  assumes "um_inv m" "add_pattern compile hexd p m = Inr m'" "pattern_text p" "utf8_valid uri"
  shows "um_matches is_match sha256 m' uri \<longleftrightarrow>
           um_matches is_match sha256 m uri \<or> pattern_matches compile is_match hexd sha256 p uri"
proof -
  have inv: "prefix_inv (um_prefix m)" "suffix_inv (um_suffix m)" using assms(1) by (auto simp: um_inv_def)
  show ?thesis
  proof (cases p)
    case (UpExact s)
    with assms(2) show ?thesis by (auto simp: um_matches_iff update_conv' split: if_splits)
  next
    case (UpPrefix s)
    with assms(2) have "m' = m\<lparr>um_prefix := prefix_insert (utf8_chars s) s (um_prefix m)\<rparr>" by simp
    with UpPrefix show ?thesis
      using pt.search_ins[OF inv(1), of "utf8_chars s" s "utf8_chars uri"] assms(3)
      by (auto simp: um_matches_iff chars_prefix)
  next
    case (UpSuffix s)
    with assms(2) have "m' = m\<lparr>um_suffix := suffix_insert (utf8_chars s) s (um_suffix m)\<rparr>" by simp
    with UpSuffix show ?thesis
      using st.search_ins[OF inv(2), of "utf8_chars s" s "utf8_chars uri"] assms(3,4)
      by (auto simp: um_matches_iff chars_suffix)
  next
    case (UpRegex s)
    with assms(2) show ?thesis by (auto simp: um_matches_iff split: if_splits)
  next
    case (UpHash s)
    with assms(2) show ?thesis
      by (auto simp: um_matches_iff update_conv' split: if_splits sum.splits)
  qed
qed

lemma um_matches_new: "\<not> um_matches is_match sha256 (um_with_limits l) uri"
  by (simp add: um_matches_iff um_with_limits_def pt.search_empty st.search_empty)

text \<open>After adding patterns a URI matches exactly when it matched before or matches one of them, and the limits and
  the invariant are kept.\<close>

lemma um_add_patterns:
  assumes "um_inv m" "add_patterns compile hexd ps m = Inr m'" "\<forall>p \<in> set ps. pattern_text p" "utf8_valid uri"
  shows "um_inv m' \<and> um_limits m' = um_limits m \<and>
         (um_matches is_match sha256 m' uri \<longleftrightarrow>
           um_matches is_match sha256 m uri \<or>
           (\<exists>p \<in> set ps. pattern_matches compile is_match hexd sha256 p uri))"
  using assms(1-3)
proof (induction ps arbitrary: m)
  case (Cons p ps)
  then obtain m1 where m1: "add_pattern compile hexd p m = Inr m1" "add_patterns compile hexd ps m1 = Inr m'"
    by (auto split: sum.splits)
  have "pattern_text p" "\<forall>p \<in> set ps. pattern_text p" using Cons.prems(3) by simp_all
  from um_inv_add[OF Cons.prems(1) m1(1)] Cons.IH[OF _ m1(2) this(2)] um_matches_add[OF Cons.prems(1) m1(1) this(1) assms(4)]
  show ?case by auto
qed simp

section \<open>Properties\<close>

text \<open>C34: the prefix trie refines a finite map from patterns to values: insertion and removal are map updates (removal
  up to the depth cap), the search returns the values of the non-empty stored prefixes of the text, the
  size is the number of patterns.\<close>

theorem prefix_trie_refines_map:
  assumes "prefix_inv t"
  shows "prefix_inv (prefix_insert p v t) \<and> prefix_inv (fst (prefix_remove p t)) \<and>
     prefix_entries (prefix_insert p v t) = (prefix_entries t)(p \<mapsto> v) \<and>
     (length p \<le> max_trie_depth \<longrightarrow> prefix_entries (fst (prefix_remove p t)) = (prefix_entries t)(p := None)) \<and>
     set (search_prefix t x) = {v. \<exists>q. q \<noteq> [] \<and> prefix q x \<and> prefix_entries t q = Some v} \<and>
     pt_size t = card (dom (prefix_entries t))"
proof -
  have "prefix_entries (prefix_insert p v t) = (prefix_entries t)(p \<mapsto> v)"
    using pt.entries_ins[OF assms] by (auto simp: fun_eq_iff)
  moreover have "prefix_entries (fst (prefix_remove p t)) = (prefix_entries t)(p := None)"
    if "length p \<le> max_trie_depth"
    using pt.entries_del[OF assms] that by (auto simp: fun_eq_iff removable_path_def)
  ultimately show ?thesis
    using pt.inv_ins[OF assms] pt.inv_del[OF assms] pt.set_search[OF assms] pt.count_card[OF assms] by auto
qed

text \<open>C40: the matcher means its patterns. Loaded with any patterns it accepts, it matches a URI exactly
  when one of them does: an exact pattern the URI itself, a non-empty prefix or suffix pattern what
  begins or ends with its bytes (though the tries compare characters), a regex what the engine says, a
  hash the URI of that SHA-256; an empty prefix or suffix pattern matches nothing. It keeps the limits
  it was made with, on the number of regexes and on their length. Patterns and URI are UTF-8 texts.\<close>

theorem uri_matcher_exact:
  assumes "add_patterns compile hexd ps (um_with_limits l) = Inr m" "\<forall>p \<in> set ps. pattern_text p" "utf8_valid uri"
  shows "(um_matches is_match sha256 m uri \<longleftrightarrow>
      (\<exists>p \<in> set ps. pattern_matches compile is_match hexd sha256 p uri)) \<and>
    um_limits m = l \<and> length (um_regex m) \<le> max_regex_patterns l \<and>
    (\<forall>(re, p) \<in> set (um_regex m). length p \<le> max_regex_pattern_length l)"
proof -
  have l: "um_limits (um_with_limits l) = l" by (simp add: um_with_limits_def)
  show ?thesis
    using um_add_patterns[OF um_inv_new assms, of is_match sha256]
    by (elim conjE) (simp add: um_inv_def um_matches_new l)
qed

end
