(* ===== verification/Jti_Race.thy ===== *)
theory Jti_Race
  imports Jti_Store
begin

text \<open>
  \<open>InMemoryStrictJtiStore::check_and_insert\<close> of \<open>src/src/dpop.rs\<close> under concurrent callers. A call
  takes three steps that other calls may interleave: it reads the entry counter against the cap with
  a relaxed load (after refusing a key that is too long), then under the shard lock it looks the key up
  and inserts it, then it raises the counter; the code does so before it releases the lock, here
  other calls may come between, which only adds interleavings. Shards are locked one key at a time, so the entries are one set of keys here; a call
  that reaches the lock runs its lookup and insertion without interruption.

  Shown by rule induction over the reachable states: no key is accepted twice, whatever the
  interleaving; the counter lags the entries by the calls between insertion and count; the overshoot
  of the cap is bounded by the calls in flight. And a reachable state in which the cap is exceeded.
\<close>

section \<open>States and steps\<close>

text \<open>\<open>rs_checked\<close>: keys of the calls that passed the cap check and wait for the lock;
  \<open>rs_inserted\<close>: calls that inserted and have not counted yet; \<open>rs_accepted\<close>: keys accepted.\<close>

record race_state =
  rs_entries :: "string list"
  rs_total :: nat
  rs_checked :: "string list"
  rs_inserted :: nat
  rs_accepted :: "string list"
  rs_replays :: nat
  rs_rejected :: nat

definition race_init :: race_state where
  "race_init = \<lparr>rs_entries = [], rs_total = 0, rs_checked = [], rs_inserted = 0, rs_accepted = [],
                rs_replays = 0, rs_rejected = 0\<rparr>"

definition step_check :: "nat \<Rightarrow> string \<Rightarrow> race_state \<Rightarrow> race_state" where
  "step_check mx key s =
     (if length key > max_jti_length_bytes then s
      else if rs_total s \<ge> mx then s\<lparr>rs_rejected := rs_rejected s + 1\<rparr>
      else s\<lparr>rs_checked := key # rs_checked s\<rparr>)"

definition step_insert :: "string \<Rightarrow> race_state \<Rightarrow> race_state" where
  "step_insert key s =
     (let s' = s\<lparr>rs_checked := remove1 key (rs_checked s)\<rparr>
      in if key \<in> set (rs_entries s) then s'\<lparr>rs_replays := rs_replays s + 1\<rparr>
         else s'\<lparr>rs_entries := key # rs_entries s, rs_inserted := rs_inserted s + 1,
                 rs_accepted := key # rs_accepted s\<rparr>)"

definition step_count :: "race_state \<Rightarrow> race_state" where
  "step_count s = s\<lparr>rs_total := rs_total s + 1, rs_inserted := rs_inserted s - 1\<rparr>"

inductive race_step :: "nat \<Rightarrow> race_state \<Rightarrow> race_state \<Rightarrow> bool" for mx where
  race_check: "race_step mx s (step_check mx key s)"
| race_insert: "key \<in> set (rs_checked s) \<Longrightarrow> race_step mx s (step_insert key s)"
| race_count: "rs_inserted s > 0 \<Longrightarrow> race_step mx s (step_count s)"

inductive race_reachable :: "nat \<Rightarrow> race_state \<Rightarrow> bool" for mx where
  race_start: "race_reachable mx race_init"
| race_next: "race_reachable mx s \<Longrightarrow> race_step mx s s' \<Longrightarrow> race_reachable mx s'"

inductive_cases race_stepE: "race_step mx s s'"

lemmas race_steps = step_check_def max_jti_length_bytes_def step_insert_def step_count_def

section \<open>Invariants\<close>

definition in_flight :: "race_state \<Rightarrow> nat" where
  "in_flight s = length (rs_checked s) + rs_inserted s"

definition race_inv :: "race_state \<Rightarrow> bool" where
  "race_inv s \<longleftrightarrow> distinct (rs_accepted s) \<and> set (rs_accepted s) = set (rs_entries s) \<and>
     distinct (rs_entries s) \<and> length (rs_entries s) = rs_total s + rs_inserted s"

lemma race_inv_step: "race_step mx s s' \<Longrightarrow> race_inv s \<Longrightarrow> race_inv s'"
  by (erule race_stepE) (auto simp: race_steps race_inv_def Let_def)

lemma race_reachable_inv: "race_reachable mx s \<Longrightarrow> race_inv s"
proof (induction rule: race_reachable.induct)
  case race_start
  then show ?case by (simp add: race_inv_def race_init_def)
next
  case (race_next s s')
  then show ?case using race_inv_step by blast
qed

text \<open>A call passed the check while the counter was below the cap, so the entries exceed the cap by
  no more than the most calls that were ever in flight together.\<close>

definition overshoot_ok :: "nat \<Rightarrow> nat \<Rightarrow> race_state \<Rightarrow> bool" where
  "overshoot_ok mx k s \<longleftrightarrow> rs_total s + rs_inserted s + length (rs_checked s) \<le> mx + k"

inductive race_bounded :: "nat \<Rightarrow> nat \<Rightarrow> race_state \<Rightarrow> bool" for mx k where
  bounded_start: "race_bounded mx k race_init"
| bounded_next: "race_bounded mx k s \<Longrightarrow> race_step mx s s' \<Longrightarrow> in_flight s' \<le> k \<Longrightarrow> race_bounded mx k s'"

lemma race_bounded_reachable: "race_bounded mx k s \<Longrightarrow> race_reachable mx s"
  by (induction rule: race_bounded.induct) (auto intro: race_reachable.intros)

lemma race_bounded_overshoot: "race_bounded mx k s \<Longrightarrow> overshoot_ok mx k s"
proof (induction rule: race_bounded.induct)
  case bounded_start
  then show ?case by (simp add: overshoot_ok_def race_init_def)
next
  case (bounded_next s s')
  from bounded_next(2) show ?case
  proof (cases rule: race_step.cases)
    case (race_check key)
    with bounded_next show ?thesis
      by (auto simp: overshoot_ok_def race_steps in_flight_def split: if_splits)
  next
    case (race_insert key)
    then have "length (remove1 key (rs_checked s)) = length (rs_checked s) - 1" "rs_checked s \<noteq> []"
      by (auto simp: length_remove1)
    with bounded_next race_insert show ?thesis
      by (cases "rs_checked s") (auto simp: overshoot_ok_def race_steps Let_def split: if_splits)
  next
    case race_count
    with bounded_next show ?thesis by (auto simp: overshoot_ok_def race_steps)
  qed
qed

text \<open>C35: under concurrency the strict store may pass its cap, but by no more than the number of calls in flight.\<close>

theorem race_bounded_entries:
  "race_bounded mx k s \<Longrightarrow> length (rs_entries s) \<le> mx + k"
  using race_bounded_overshoot[of mx k s] race_reachable_inv[OF race_bounded_reachable, of mx k s]
  by (simp add: overshoot_ok_def race_inv_def)

text \<open>Two calls that read the counter before either inserts.\<close>

definition race_overflow :: race_state where
  "race_overflow =
     step_insert ''a'' (step_insert ''b'' (step_check 1 ''b'' (step_check 1 ''a'' race_init)))"

lemma race_overflow_run: "race_reachable 1 race_overflow"
  unfolding race_overflow_def
proof (intro race_next[OF race_next[OF race_next[OF race_next[OF race_start]]]])
  show "race_step 1 race_init (step_check 1 ''a'' race_init)" by (rule race_check)
  show "race_step 1 (step_check 1 ''a'' race_init) (step_check 1 ''b'' (step_check 1 ''a'' race_init))"
    by (rule race_check)
  show "race_step 1 (step_check 1 ''b'' (step_check 1 ''a'' race_init))
      (step_insert ''b'' (step_check 1 ''b'' (step_check 1 ''a'' race_init)))"
    by (rule race_insert) (simp add: race_steps race_init_def)
  show "race_step 1 (step_insert ''b'' (step_check 1 ''b'' (step_check 1 ''a'' race_init)))
      (step_insert ''a'' (step_insert ''b'' (step_check 1 ''b'' (step_check 1 ''a'' race_init))))"
    by (rule race_insert) (simp add: race_steps race_init_def)
qed

text \<open>The overshoot happens: two calls that read the counter before either inserts leave two entries in a store
  capped at one.\<close>

lemma race_overflow_reachable:
  "race_reachable 1 race_overflow \<and> length (rs_entries race_overflow) = 2"
  using race_overflow_run by (simp add: race_overflow_def race_steps race_init_def Let_def)

end
