(* ===== verification/Cwt_Value.thy ===== *)
theory Cwt_Value
  imports Claims Dpop_Cwt
begin

unbundle bit_operations_syntax

text \<open>
  The value codecs of \<open>src/src/cwt.rs\<close> the claim map is made of: the coordinate reference wrapper,
  the deterministic order of map keys at every depth, the conversions between doubles and integers,
  match values, network identifiers and the matchers of MOQT scopes.

  Encoding a prefix slices the octets of an address, which panics when the length exceeds the
  family: the encoder of an identifier returns no value there.

  Shown: every codec reads back what it wrote, and a map the order check accepts has distinct
  integer keys in the canonical order.
\<close>

section \<open>The coordinate reference wrapper\<close>

definition cbor_tag_ipv4 :: nat where "cbor_tag_ipv4 = 52"
definition cbor_tag_ipv6 :: nat where "cbor_tag_ipv6 = 54"
definition cbor_tag_crs :: nat where "cbor_tag_crs = 279"
definition crs_wgs84 :: int where "crs_wgs84 = 0"

definition u64_or_max :: "int \<Rightarrow> int" where
  "u64_or_max i = (if 0 \<le> i \<and> i < 2 ^ 64 then i else 2 ^ 64 - 1)"

fun unwrap_crs_tag :: "cbor \<Rightarrow> cbor result" where
  "unwrap_crs_tag (CTag tag inner) =
     (if tag \<noteq> cbor_tag_crs then Inr (CTag tag inner)
      else case inner of
        CArray [crs, v] \<Rightarrow>
          (case crs of
             CInt i \<Rightarrow>
               (if u64_or_max i \<noteq> crs_wgs84 then Inl (InvalidClaimValue ''Unsupported CRS identifier: '')
                else Inr v)
           | _ \<Rightarrow> Inl (InvalidClaimValue ''CRS Wrapper: invalid CRS identifier type''))
      | _ \<Rightarrow> Inl (InvalidClaimValue ''CRS Wrapper tag 279: expected [crs_id, value]''))"
| "unwrap_crs_tag v = Inr v"

fun reject_unexpected_tag :: "cbor \<Rightarrow> string \<Rightarrow> unit result" where
  "reject_unexpected_tag (CTag tag v) name = Inl (InvalidClaimValue (name @ '': unexpected CBOR tag ''))"
| "reject_unexpected_tag _ name = Inr ()"

section \<open>The order of map keys\<close>

datatype ordering = Less | Equal | Greater

definition int_cmp :: "int \<Rightarrow> int \<Rightarrow> ordering" where
  "int_cmp a b = (if a < b then Less else if a = b then Equal else Greater)"

definition cbor_canonical_key_cmp :: "int \<Rightarrow> int \<Rightarrow> ordering" where
  "cbor_canonical_key_cmp a b =
     (if 0 \<le> a \<and> 0 \<le> b then int_cmp a b
      else if a < 0 \<and> b < 0 then int_cmp b a
      else if 0 \<le> a then Less
      else Greater)"

datatype key_fp = FpInt int | FpText string | FpBytes bytes | FpOther string

fun key_fingerprint :: "cbor \<Rightarrow> key_fp option" where
  "key_fingerprint (CInt i) = Some (FpInt i)"
| "key_fingerprint (CText s) = Some (FpText s)"
| "key_fingerprint (CBytes b) = Some (FpBytes b)"
| "key_fingerprint (CBool _) = Some (FpOther ''bool'')"
| "key_fingerprint CNull = Some (FpOther ''null'')"
| "key_fingerprint (CFloat _) = Some (FpOther ''float'')"
| "key_fingerprint _ = None"

definition i64_or_max :: "int \<Rightarrow> int" where
  "i64_or_max i = (if in_i64 i then i else i64_max)"

text \<open>\<open>seen\<close> is the set of fingerprints, \<open>prev\<close> the last integer key. The entry to record is the
  second component; a key without a fingerprint records nothing.\<close>

definition check_key :: "int option \<Rightarrow> key_fp list \<Rightarrow> cbor \<Rightarrow> (int option \<times> key_fp list) result" where
  "check_key prev seen k =
     rbind (case key_fingerprint k of
              Some fp \<Rightarrow> if fp \<in> set seen then Inl (InvalidCbor ''Duplicate map key'') else Inr (fp # seen)
            | None \<Rightarrow> Inr seen) (\<lambda>seen'.
     case k of
       CInt i \<Rightarrow>
         (let k = i64_or_max i
          in case prev of
               Some p \<Rightarrow>
                 (if cbor_canonical_key_cmp k p \<noteq> Greater
                  then Inl (InvalidCbor ''Map keys not in deterministic order per RFC 8949 '')
                  else Inr (Some k, seen'))
             | None \<Rightarrow> Inr (Some k, seen'))
     | _ \<Rightarrow> Inr (prev, seen'))"

definition check_depth :: "nat \<Rightarrow> nat \<Rightarrow> unit result" where
  "check_depth depth mx =
     (if depth > mx then Inl (InvalidCbor ''CBOR nesting depth exceeds limit of '') else Inr ())"

fun validate_nested :: "nat \<Rightarrow> nat \<Rightarrow> cbor \<Rightarrow> unit result"
  and validate_entries :: "nat \<Rightarrow> nat \<Rightarrow> int option \<Rightarrow> key_fp list \<Rightarrow> (cbor \<times> cbor) list \<Rightarrow> unit result"
  and validate_items :: "nat \<Rightarrow> nat \<Rightarrow> cbor list \<Rightarrow> unit result" where
  "validate_nested depth mx v =
     rbind (check_depth depth mx) (\<lambda>_.
       case v of
         CMap m \<Rightarrow> rbind (check_depth depth mx) (\<lambda>_. validate_entries depth mx None [] m)
       | CArray xs \<Rightarrow> validate_items (depth + 1) mx xs
       | CTag _ inner \<Rightarrow> validate_nested (depth + 1) mx inner
       | _ \<Rightarrow> Inr ())"
| "validate_entries depth mx prev seen [] = Inr ()"
| "validate_entries depth mx prev seen ((k, v) # m) =
     rbind (check_key prev seen k) (\<lambda>(prev', seen').
     rbind (validate_nested (depth + 1) mx v) (\<lambda>_. validate_entries depth mx prev' seen' m))"
| "validate_items depth mx [] = Inr ()"
| "validate_items depth mx (x # xs) =
     rbind (validate_nested depth mx x) (\<lambda>_. validate_items depth mx xs)"

definition validate_cbor_map_ordering :: "nat \<Rightarrow> (cbor \<times> cbor) list \<Rightarrow> unit result" where
  "validate_cbor_map_ordering mx m =
     rbind (check_depth 0 mx) (\<lambda>_. validate_entries 0 mx None [] m)"

text \<open>\<open>sort_by\<close> is stable.\<close>

fun insert_by :: "('a \<Rightarrow> 'a \<Rightarrow> ordering) \<Rightarrow> 'a \<Rightarrow> 'a list \<Rightarrow> 'a list" where
  "insert_by cmp x [] = [x]"
| "insert_by cmp x (y # ys) = (if cmp x y = Greater then y # insert_by cmp x ys else x # y # ys)"

definition sort_by :: "('a \<Rightarrow> 'a \<Rightarrow> ordering) \<Rightarrow> 'a list \<Rightarrow> 'a list" where
  "sort_by cmp xs = foldr (insert_by cmp) xs []"

fun key_i64 :: "cbor \<Rightarrow> int" where
  "key_i64 (CInt i) = i64_or_max i"
| "key_i64 _ = i64_max"

definition sort_integer_keyed_map :: "(cbor \<times> cbor) list \<Rightarrow> (cbor \<times> cbor) list" where
  "sort_integer_keyed_map m = sort_by (\<lambda>(a, _) (b, _). cbor_canonical_key_cmp (key_i64 a) (key_i64 b)) m"

section \<open>Numbers\<close>

definition validate_float :: "f64 \<Rightarrow> string \<Rightarrow> unit result" where
  "validate_float f name =
     (if f64_is_nan f then Inl (InvalidClaimValue (name @ '': NaN is not permitted per CTA-5007-B ''))
      else if f64_is_infinite f then Inl (InvalidClaimValue (name @ '': infinity is not permitted per CTA-5007-B ''))
      else if f64_is_zero f \<and> f64_sign_negative f
        then Inl (InvalidClaimValue (name @ '': negative zero is not permitted per CTA-5007-B ''))
      else Inr ())"

text \<open>\<open>f == f.trunc()\<close> for a finite double.\<close>

definition f64_integral :: "f64 \<Rightarrow> bool" where
  "f64_integral f \<longleftrightarrow> of_int \<lfloor>f64_rat f\<rfloor> = f64_rat f"

text \<open>\<open>as f64\<close> rounds an integer to 53 significant bits, ties to the even one.\<close>

fun bit_len :: "nat \<Rightarrow> nat" where
  "bit_len n = (if n = 0 then 0 else Suc (bit_len (n div 2)))"

declare bit_len.simps [simp del]

definition round_53 :: "nat \<Rightarrow> nat" where
  "round_53 n =
     (let s = bit_len n - 53; q = n div 2 ^ s; r = n mod 2 ^ s
      in if s = 0 then n
         else (if 2 * r > 2 ^ s \<or> (2 * r = 2 ^ s \<and> odd q) then q + 1 else q) * 2 ^ s)"

definition i64_as_f64 :: "int \<Rightarrow> f64" where
  "i64_as_f64 i = Fin (of_int (sgn i * int (round_53 (nat \<bar>i\<bar>))))"

definition safe_float_to_i64 :: "f64 \<Rightarrow> string \<Rightarrow> int result" where
  "safe_float_to_i64 f name =
     rbind (validate_float f name) (\<lambda>_.
       if \<not> f64_integral f
         then Inl (InvalidClaimValue (name @ '': fractional numeric dates are not permitted in this profile''))
       else if f64_rat f \<ge> 2 ^ 63 \<or> f64_rat f \<le> - (2 ^ 63)
         then Inl (InvalidClaimValue (name @ '': float magnitude ''))
       else Inr \<lfloor>f64_rat f\<rfloor>)"

definition safe_float_to_u32 :: "f64 \<Rightarrow> string \<Rightarrow> u32 result" where
  "safe_float_to_u32 f name =
     rbind (validate_float f name) (\<lambda>_.
       if f64_rat f < 0 then Inl (InvalidClaimValue (name @ '': value must not be negative''))
       else if \<not> f64_integral f
         then Inl (InvalidClaimValue (name @ '': fractional values are not permitted in this profile''))
       else if f64_rat f > 2 ^ 32 - 1 then Inl (InvalidClaimValue (name @ '': float magnitude ''))
       else Inr (of_int \<lfloor>f64_rat f\<rfloor>))"

definition encode_number_shortest :: "f64 \<Rightarrow> cbor" where
  "encode_number_shortest f =
     (if f64_is_finite f \<and> f64_integral f \<and> \<bar>f64_rat f\<bar> < 2 ^ 63 then CInt \<lfloor>f64_rat f\<rfloor> else CFloat f)"

fun i64_value :: "cat_error \<Rightarrow> cat_error \<Rightarrow> cbor \<Rightarrow> int result" where
  "i64_value range_err type_err (CInt i) = (if in_i64 i then Inr i else Inl range_err)"
| "i64_value range_err type_err _ = Inl type_err"

fun u32_value :: "cat_error \<Rightarrow> cat_error \<Rightarrow> cbor \<Rightarrow> u32 result" where
  "u32_value range_err type_err (CInt i) = (if 0 \<le> i \<and> i < 2 ^ 32 then Inr (of_int i) else Inl range_err)"
| "u32_value range_err type_err _ = Inl type_err"

text \<open>A number: a float as it is, an integer within 64 bits as a double.\<close>

fun number_value :: "cat_error \<Rightarrow> cat_error \<Rightarrow> cbor \<Rightarrow> f64 result" where
  "number_value range_err type_err (CFloat f) = Inr f"
| "number_value range_err type_err (CInt i) = (if in_i64 i then Inr (i64_as_f64 i) else Inl range_err)"
| "number_value range_err type_err _ = Inl type_err"

text \<open>A numeric date: an integer, or a float without fraction.\<close>

fun date_value :: "string \<Rightarrow> cat_error \<Rightarrow> cbor \<Rightarrow> int result" where
  "date_value name type_err (CInt i) = (if in_i64 i then Inr i else Inl InvalidTokenFormat)"
| "date_value name type_err (CFloat f) = safe_float_to_i64 f name"
| "date_value name type_err _ = Inl type_err"

fun array_value :: "cat_error \<Rightarrow> cbor \<Rightarrow> cbor list result" where
  "array_value e (CArray xs) = Inr xs"
| "array_value e _ = Inl e"

definition decode_text_array :: "string \<Rightarrow> cbor \<Rightarrow> string list result" where
  "decode_text_array ctx v =
     rbind (array_value (InvalidClaimValue (ctx @ '' must be an array'')) v)
       (map_r (text_value (InvalidClaimValue (ctx @ '' must contain only text strings''))))"

section \<open>Match values\<close>

abbreviation "MATCH_EXACT \<equiv> 0 :: int"
abbreviation "MATCH_PREFIX \<equiv> 1 :: int"
abbreviation "MATCH_SUFFIX \<equiv> 2 :: int"
abbreviation "MATCH_CONTAINS \<equiv> 3 :: int"
abbreviation "MATCH_REGEX \<equiv> 4 :: int"
abbreviation "MATCH_SHA256 \<equiv> - 1 :: int"
abbreviation "MATCH_SHA512_256 \<equiv> - 2 :: int"

fun encode_match_value :: "match_value \<Rightarrow> cbor \<times> cbor" where
  "encode_match_value (MvExact s) = (CInt MATCH_EXACT, CText s)"
| "encode_match_value (MvPrefix s) = (CInt MATCH_PREFIX, CText s)"
| "encode_match_value (MvSuffix s) = (CInt MATCH_SUFFIX, CText s)"
| "encode_match_value (MvContains s) = (CInt MATCH_CONTAINS, CText s)"
| "encode_match_value (MvRegex s) = (CInt MATCH_REGEX, CText s)"
| "encode_match_value (MvSha256 h) = (CInt MATCH_SHA256, CBytes h)"
| "encode_match_value (MvSha512_256 h) = (CInt MATCH_SHA512_256, CBytes h)"

definition decode_match_value :: "cbor \<Rightarrow> cbor \<Rightarrow> match_value result" where
  "decode_match_value key v =
     rbind (int_value InvalidTokenFormat key) (\<lambda>t.
     let text = (\<lambda>f. rbind (text_value InvalidTokenFormat v) (\<lambda>s. Inr (f s)));
         hash = (\<lambda>f. rbind (bytes_value InvalidTokenFormat v) (\<lambda>b. Inr (f b)))
     in if t = MATCH_EXACT then text MvExact
        else if t = MATCH_PREFIX then text MvPrefix
        else if t = MATCH_SUFFIX then text MvSuffix
        else if t = MATCH_CONTAINS then text MvContains
        else if t = MATCH_REGEX then text MvRegex
        else if t = MATCH_SHA256 then hash MvSha256
        else if t = MATCH_SHA512_256 then hash MvSha512_256
        else Inl (InvalidClaimValue ''Unknown match type: ''))"

lemma decode_encode_match_value [simp]:
  "decode_match_value (fst (encode_match_value m)) (snd (encode_match_value m)) = Inr m"
  by (cases m) (simp_all add: decode_match_value_def Let_def)

section \<open>Network identifiers\<close>

fun be_bytes :: "nat \<Rightarrow> nat \<Rightarrow> bytes" where
  "be_bytes 0 n = []"
| "be_bytes (Suc k) n = of_nat (n div 256 ^ k) # be_bytes k n"

definition from_be :: "bytes \<Rightarrow> nat" where
  "from_be bs = foldl (\<lambda>n b. n * 256 + unat b) 0 bs"

fun octets :: "ip_addr \<Rightarrow> bytes" where
  "octets (V4 a) = be_bytes 4 (unat a)"
| "octets (V6 a) = be_bytes 16 (unat a)"

fun ip_tag :: "ip_addr \<Rightarrow> nat" where
  "ip_tag (V4 _) = cbor_tag_ipv4"
| "ip_tag (V6 _) = cbor_tag_ipv6"

definition prefix_byte_count :: "byte \<Rightarrow> nat" where
  "prefix_byte_count l = (unat l + 7) div 8"

fun encode_network_identifier :: "network_identifier \<Rightarrow> cbor option" where
  "encode_network_identifier (IpAddress a) = Some (CTag (ip_tag a) (CBytes (octets a)))"
| "encode_network_identifier (IpPrefix a l) =
     (let n = prefix_byte_count l
      in if n > length (octets a) then None
         else Some (CTag (ip_tag a) (CMap [(CInt (uint l), CBytes (take n (octets a)))])))"
| "encode_network_identifier (Asn a) = Some (CInt (uint a))"
| "encode_network_identifier (AsnRange s e) = Some (CArray [CInt (uint s), CInt (uint e)])"

definition validate_host_bits_zero :: "bytes \<Rightarrow> byte \<Rightarrow> unit result" where
  "validate_host_bits_zero bs l =
     (let k = unat l mod 8
      in if k \<noteq> 0 \<and> bs \<noteq> [] \<and> last bs AND drop_bit k 0xff \<noteq> 0
         then Inl (InvalidClaimValue ''catnip: non-zero host bits in prefix /'') else Inr ())"

text \<open>\<open>octets[..copy_len].copy_from_slice(..)\<close> into zeros.\<close>

definition pad_octets :: "nat \<Rightarrow> bytes \<Rightarrow> bytes" where
  "pad_octets n bs = take n bs @ replicate (n - length bs) 0"

fun ip_from_tag :: "nat \<Rightarrow> bytes \<Rightarrow> ip_addr option" where
  "ip_from_tag tag bs =
     (if tag = cbor_tag_ipv4 \<and> length bs = 4 then Some (V4 (of_nat (from_be bs)))
      else if tag = cbor_tag_ipv6 \<and> length bs = 16 then Some (V6 (of_nat (from_be bs)))
      else None)"

definition ip_max_bits :: "nat \<Rightarrow> int result" where
  "ip_max_bits tag =
     (if tag = cbor_tag_ipv4 then Inr 32
      else if tag = cbor_tag_ipv6 then Inr 128
      else Inl (InvalidClaimValue ''Unknown IP tag: ''))"

definition decode_prefix_length :: "nat \<Rightarrow> cbor \<Rightarrow> byte result" where
  "decode_prefix_length tag k =
     rbind (int_value InvalidTokenFormat k) (\<lambda>v.
     rbind (ip_max_bits tag) (\<lambda>max_bits.
       if v < 0 \<or> v > max_bits then Inl (InvalidClaimValue ''catnip: prefix length '')
       else Inr (of_int v)))"

definition decode_ip_prefix :: "nat \<Rightarrow> cbor \<Rightarrow> cbor \<Rightarrow> network_identifier result" where
  "decode_ip_prefix tag k v =
     rbind (decode_prefix_length tag k) (\<lambda>l.
     rbind (bytes_value InvalidTokenFormat v) (\<lambda>bs.
       if length bs \<noteq> prefix_byte_count l
         then Inl (InvalidClaimValue ''catnip: address-with-prefix form not allowed (got '')
       else rbind (validate_host_bits_zero bs l) (\<lambda>_.
         let n = (if tag = cbor_tag_ipv4 then 4 else 16)
         in case ip_from_tag tag (pad_octets n bs) of
              Some a \<Rightarrow> Inr (IpPrefix a l)
            | None \<Rightarrow> Inl (InvalidClaimValue ''Unknown IP tag: ''))))"

fun decode_network_identifier :: "cbor \<Rightarrow> network_identifier result" where
  "decode_network_identifier (CTag tag inner) =
     (case inner of
        CBytes bs \<Rightarrow>
          (case ip_from_tag tag bs of
             Some a \<Rightarrow> Inr (IpAddress a)
           | None \<Rightarrow> Inl (InvalidClaimValue ''Invalid IP tag/size: tag=''))
      | CMap [(k, v)] \<Rightarrow> decode_ip_prefix tag k v
      | _ \<Rightarrow> Inl InvalidTokenFormat)"
| "decode_network_identifier (CArray [s, e]) =
     rbind (u32_value InvalidTokenFormat InvalidTokenFormat s) (\<lambda>a.
     rbind (u32_value InvalidTokenFormat InvalidTokenFormat e) (\<lambda>b. Inr (AsnRange a b)))"
| "decode_network_identifier v =
     rbind (u32_value InvalidTokenFormat InvalidTokenFormat v) (\<lambda>a. Inr (Asn a))"

section \<open>Matchers of MOQT scopes\<close>

definition MATCH_TYPE_PREFIX :: int where "MATCH_TYPE_PREFIX = 1"
definition MATCH_TYPE_SUFFIX :: int where "MATCH_TYPE_SUFFIX = 2"

definition encode_binary_match :: "binary_match \<Rightarrow> cbor result" where
  "encode_binary_match m =
     (case match_type m of
        BmAny \<Rightarrow> Inl (InvalidClaimValue ''BinaryMatch::Any cannot be encoded on the wire; use Option::None to omit'')
      | BmExact \<Rightarrow> Inr (CBytes (pattern m))
      | BmPrefix \<Rightarrow> Inr (CArray [CInt MATCH_TYPE_PREFIX, CBytes (pattern m)])
      | BmSuffix \<Rightarrow> Inr (CArray [CInt MATCH_TYPE_SUFFIX, CBytes (pattern m)]))"

fun encode_namespace_match :: "namespace_match \<Rightarrow> cbor result" where
  "encode_namespace_match NmNil = Inr CNull"
| "encode_namespace_match (NmMatch m) =
     (if match_type m = BmAny
      then Inl (InvalidClaimValue ''Namespace wildcard must use Option::None, not BinaryMatch::Any'')
      else encode_binary_match m)"

fun decode_binary_match :: "cbor \<Rightarrow> binary_match result" where
  "decode_binary_match CNull =
     Inl (InvalidClaimValue ''CBOR null is not a valid binary match; use omission for wildcard'')"
| "decode_binary_match (CBytes d) = Inr (bm_exact d)"
| "decode_binary_match (CArray [t, p]) =
     rbind (int_value InvalidTokenFormat t) (\<lambda>ty.
     rbind (bytes_value InvalidTokenFormat p) (\<lambda>pat.
       if ty = 1 then
         (if pat = [] then Inl (InvalidClaimValue ''prefix match pattern must not be empty'') else Inr (bm_prefix pat))
       else if ty = 2 then
         (if pat = [] then Inl (InvalidClaimValue ''suffix match pattern must not be empty'') else Inr (bm_suffix pat))
       else Inl (InvalidClaimValue ''Unknown match type: '')))"
| "decode_binary_match _ = Inl InvalidTokenFormat"

fun decode_namespace_match :: "cbor \<Rightarrow> namespace_match result" where
  "decode_namespace_match CNull = Inr NmNil"
| "decode_namespace_match v = rbind (decode_binary_match v) (\<lambda>m. Inr (NmMatch m))"

section \<open>What the codecs read back\<close>

text \<open>A matcher the wire form can carry.\<close>

definition bm_wire :: "binary_match \<Rightarrow> bool" where
  "bm_wire m \<longleftrightarrow> match_type m \<noteq> BmAny \<and> (match_type m \<in> {BmPrefix, BmSuffix} \<longrightarrow> pattern m \<noteq> [])"

lemma binary_match_roundtrip:
  assumes "bm_wire m"
  shows "\<exists>v. encode_binary_match m = Inr v \<and> v \<noteq> CNull \<and> decode_binary_match v = Inr m"
  using assms by (cases m; cases "match_type m")
    (auto simp: bm_wire_def encode_binary_match_def MATCH_TYPE_PREFIX_def MATCH_TYPE_SUFFIX_def
      bm_exact_def bm_prefix_def bm_suffix_def)

fun nm_wire :: "namespace_match \<Rightarrow> bool" where
  "nm_wire NmNil \<longleftrightarrow> True"
| "nm_wire (NmMatch m) \<longleftrightarrow> bm_wire m"

lemma namespace_match_roundtrip:
  assumes "nm_wire n"
  shows "\<exists>v. encode_namespace_match n = Inr v \<and> decode_namespace_match v = Inr n"
proof (cases n)
  case (NmMatch m)
  with assms obtain v where v: "encode_binary_match m = Inr v" "v \<noteq> CNull" "decode_binary_match v = Inr m"
    using binary_match_roundtrip[of m] by auto
  moreover have "decode_namespace_match v = Inr (NmMatch m)" using v by (cases v) auto
  moreover have "match_type m \<noteq> BmAny" using assms NmMatch by (simp add: bm_wire_def)
  ultimately show ?thesis using NmMatch by auto
qed simp

lemma length_be_bytes [simp]: "length (be_bytes k n) = k"
  by (induction k) auto

lemma from_be_acc: "foldl (\<lambda>n b. n * 256 + unat b) a (be_bytes k n) = a * 256 ^ k + n mod 256 ^ k"
proof (induction k arbitrary: a)
  case (Suc k)
  have "n mod 256 ^ Suc k = 256 ^ k * (n div 256 ^ k mod 256) + n mod 256 ^ k"
    by (metis mod_mult2_eq mult.commute power_Suc)
  then show ?case using Suc by (simp add: unat_of_nat algebra_simps)
qed simp

lemma from_be_bytes [simp]: "from_be (be_bytes k n) = n mod 256 ^ k"
  by (simp add: from_be_def from_be_acc)

lemma ip_from_tag_octets [simp]: "ip_from_tag (ip_tag a) (octets a) = Some a"
proof (cases a)
  case (V4 x)
  then show ?thesis using unsigned_less[of x, where 'a = nat] by (simp add: cbor_tag_ipv4_def)
next
  case (V6 x)
  then show ?thesis using unsigned_less[of x, where 'a = nat] by (simp add: cbor_tag_ipv4_def cbor_tag_ipv6_def)
qed

text \<open>An identifier whose prefix fits its family and sets no bit beyond it.\<close>

fun ip_value :: "ip_addr \<Rightarrow> nat" where
  "ip_value (V4 a) = unat a"
| "ip_value (V6 a) = unat a"

fun nip_wire :: "network_identifier \<Rightarrow> bool" where
  "nip_wire (IpPrefix a l) \<longleftrightarrow> unat l \<le> addr_bits a \<and> 2 ^ (addr_bits a - unat l) dvd ip_value a"
| "nip_wire _ \<longleftrightarrow> True"

lemma octets_be: "octets a = be_bytes (addr_bits a div 8) (ip_value a)"
  by (cases a) auto

lemma be_bytes_nth: "i < k \<Longrightarrow> be_bytes k n ! i = of_nat (n div 256 ^ (k - 1 - i))"
proof (induction k arbitrary: i)
  case (Suc k)
  then show ?case by (cases i) auto
qed simp

lemma dvd_div_power:
  assumes "256 ^ m dvd (n :: nat)" "j < m"
  shows "256 dvd n div 256 ^ j"
proof -
  obtain c where "n = 256 ^ m * c" using assms(1) by auto
  moreover have "(256 :: nat) ^ m = 256 ^ j * (256 * 256 ^ (m - Suc j))"
    using assms(2) by (simp flip: power_add power_Suc)
  ultimately show ?thesis by (simp add: mult.assoc)
qed

lemma be_bytes_padded:
  assumes "n \<le> k" "256 ^ (k - n) dvd v"
  shows "pad_octets k (take n (be_bytes k v)) = be_bytes k v"
proof (rule nth_equalityI)
  fix i assume "i < length (pad_octets k (take n (be_bytes k v)))"
  then have i: "i < k" using assms(1) by (simp add: pad_octets_def)
  show "pad_octets k (take n (be_bytes k v)) ! i = be_bytes k v ! i"
  proof (cases "i < n")
    case False
    have "256 dvd v div 256 ^ (k - 1 - i)" using dvd_div_power[OF assms(2)] False i by simp
    then have "(of_nat (v div 256 ^ (k - 1 - i)) :: byte) = 0" by (simp add: word_of_nat_eq_0_iff)
    then show ?thesis using False i assms(1) by (simp add: pad_octets_def nth_append be_bytes_nth)
  qed (use assms i in \<open>simp add: pad_octets_def nth_append\<close>)
qed (use assms in \<open>simp add: pad_octets_def\<close>)

text \<open>The bits of the last octet of a prefix that lie beyond it.\<close>

lemma host_bits_last:
  assumes "l \<le> 8 * k" "l mod 8 \<noteq> 0" and n: "n = (l + 7) div 8"
  shows "last (take n (be_bytes k v)) AND drop_bit (l mod 8) 0xff = of_nat (v div 256 ^ (k - n) mod 2 ^ (8 * n - l))"
proof -
  define q where "q = l div 8"
  have l: "l = 8 * q + l mod 8" "0 < l mod 8" "l mod 8 < 8" using assms(2) by (simp_all add: q_def)
  then have nq: "n = Suc q" unfolding n by linarith
  have n: "0 < n" "n \<le> k" using nq l assms(1) by linarith+
  have e: "8 * n - l = 8 - l mod 8" using nq l by linarith
  have "last (take n (be_bytes k v)) = of_nat (v div 256 ^ (k - n))"
  proof -
    have "length (take n (be_bytes k v)) = n" using n by simp
    then have "last (take n (be_bytes k v)) = take n (be_bytes k v) ! (n - 1)"
      using n(1) by (metis last_conv_nth length_0_conv less_numeral_extra(3))
    then show ?thesis using n be_bytes_nth[of "n - 1" k v] by simp
  qed
  moreover have "drop_bit (l mod 8) (0xff :: byte) = mask (8 - l mod 8)"
  proof -
    have "l mod 8 \<in> {1, 2, 3, 4, 5, 6, 7}" using assms(2) by auto
    then show ?thesis by (auto simp: mask_eq_exp_minus_1)
  qed
  moreover have "take_bit j (of_nat x :: byte) = of_nat (x mod 2 ^ j)" for j x
    by (metis take_bit_eq_mod take_bit_of_nat)
  ultimately show ?thesis by (simp add: e flip: take_bit_eq_mask)
qed

lemma host_bits_of_prefix:
  assumes "l \<le> 8 * k" "2 ^ (8 * k - l) dvd v" "l mod 8 \<noteq> 0"
  shows "last (take ((l + 7) div 8) (be_bytes k v)) AND drop_bit (l mod 8) 0xff = 0"
proof -
  define n where "n = (l + 7) div 8"
  have e: "8 * k - l = 8 * (k - n) + (8 * n - l)" using assms(1,3) unfolding n_def by linarith
  obtain c where c: "v = 2 ^ (8 * k - l) * c" using assms(2) by auto
  have "(2 :: nat) ^ (8 * k - l) = 256 ^ (k - n) * 2 ^ (8 * n - l)"
    unfolding e power_add by (simp add: power_mult)
  then have "v div 256 ^ (k - n) mod 2 ^ (8 * n - l) = 0" unfolding c by simp
  then show ?thesis using host_bits_last[OF assms(1,3) n_def, of v] by (simp add: n_def)
qed

lemma u32_roundtrip: "u32_value e e' (CInt (uint a)) = Inr a"
  using unsigned_less[of a, where 'a = int] by simp

lemma u32_in_i64 [simp]: "in_i64 (uint (a :: u32))"
proof -
  have "uint a < 2 ^ 32" "- 9223372036854775808 \<le> uint a"
    using unsigned_less[of a, where 'a = int] order.trans[of "- 9223372036854775808" 0 "uint a"] by simp_all
  then show ?thesis by (simp add: in_i64_def i64_min_def i64_max_def)
qed

lemma decode_prefix_length_fits:
  assumes "unat l \<le> addr_bits a"
  shows "decode_prefix_length (ip_tag a) (CInt (uint l)) = Inr l"
proof -
  have "int (unat l) \<le> int (addr_bits a)" using assms by (simp only: of_nat_le_iff)
  then have "uint l \<le> int (addr_bits a)" "- 9223372036854775808 \<le> uint l"
    using order.trans[of "- 9223372036854775808" 0 "uint l"] by simp_all
  then show ?thesis
    by (cases a) (auto simp: decode_prefix_length_def ip_max_bits_def cbor_tag_ipv4_def cbor_tag_ipv6_def
        in_i64_def i64_min_def i64_max_def)
qed

lemma nip_roundtrip:
  assumes "nip_wire n"
  shows "\<exists>v. encode_network_identifier n = Some v \<and> decode_network_identifier v = Inr n"
proof (cases n)
  case (IpAddress a)
  then show ?thesis by (simp del: ip_from_tag.simps)
next
  case (Asn a)
  then show ?thesis by (simp add: u32_roundtrip del: u32_value.simps)
next
  case (AsnRange s e)
  then show ?thesis by (simp add: u32_roundtrip del: u32_value.simps)
next
  case (IpPrefix a l)
  define k where "k = addr_bits a div 8"
  have k: "addr_bits a = 8 * k" "k = 4 \<or> k = 16" by (cases a; simp add: k_def)+
  have w: "unat l \<le> 8 * k" "2 ^ (8 * k - unat l) dvd ip_value a" using assms IpPrefix k by auto
  define m where "m = prefix_byte_count l"
  have m: "m \<le> k" "8 * (k - m) \<le> 8 * k - unat l" using w(1) unfolding m_def prefix_byte_count_def by linarith+
  have "256 ^ (k - m) dvd ip_value a"
  proof -
    have "(256 :: nat) ^ (k - m) = 2 ^ (8 * (k - m))" by (simp add: power_mult)
    then show ?thesis using w(2) le_imp_power_dvd[OF m(2), of 2] by (metis dvd_trans)
  qed
  then have pad: "pad_octets k (take m (octets a)) = octets a"
    using be_bytes_padded[OF m(1)] by (simp add: octets_be k_def)
  have len: "length (octets a) = k" by (simp add: octets_be k_def)
  have host: "validate_host_bits_zero (take m (octets a)) l = Inr ()"
    using host_bits_of_prefix[OF w] by (auto simp: validate_host_bits_zero_def Let_def octets_be k_def m_def prefix_byte_count_def)
  have "decode_prefix_length (ip_tag a) (CInt (uint l)) = Inr l"
    using w(1) k(1) by (intro decode_prefix_length_fits) simp
  then have "decode_ip_prefix (ip_tag a) (CInt (uint l)) (CBytes (take m (octets a))) = Inr (IpPrefix a l)"
    using m(1) host pad len ip_from_tag_octets[of a] k
    by (cases a) (simp_all add: decode_ip_prefix_def m_def[symmetric] Let_def cbor_tag_ipv4_def cbor_tag_ipv6_def k_def del: ip_from_tag.simps octets.simps)
  then show ?thesis using IpPrefix m(1) len by (simp add: m_def Let_def del: octets.simps)
qed
section \<open>What the order check accepts\<close>

definition canon_less :: "int \<Rightarrow> int \<Rightarrow> bool" where
  "canon_less a b \<longleftrightarrow> cbor_canonical_key_cmp b a = Greater"

lemma canon_less_iff: "canon_less a b \<longleftrightarrow> (if 0 \<le> a then b < 0 \<or> a < b else b < a)"
  by (auto simp: canon_less_def cbor_canonical_key_cmp_def int_cmp_def)

lemma canon_less_trans: "canon_less a b \<Longrightarrow> canon_less b c \<Longrightarrow> canon_less a c"
  by (auto simp: canon_less_iff split: if_splits)

lemma canon_less_ascending: "0 \<le> a \<Longrightarrow> a < b \<Longrightarrow> canon_less a b"
  by (simp add: canon_less_iff)

fun key_fps :: "(cbor \<times> cbor) list \<Rightarrow> key_fp list" where
  "key_fps [] = []"
| "key_fps ((k, v) # m) = (case key_fingerprint k of None \<Rightarrow> key_fps m | Some fp \<Rightarrow> fp # key_fps m)"

fun int_keys :: "(cbor \<times> cbor) list \<Rightarrow> int list" where
  "int_keys [] = []"
| "int_keys ((CInt i, v) # m) = i64_or_max i # int_keys m"
| "int_keys (_ # m) = int_keys m"

text \<open>What the check looks at: in every map no fingerprint occurs twice and the integer keys ascend in
  the order of the code (\<open>Cwt_Order\<close> compares it with that of RFC 8949).\<close>

fun canonical :: "cbor \<Rightarrow> bool" where
  "canonical (CMap m) \<longleftrightarrow>
     distinct (key_fps m) \<and> sorted_wrt canon_less (int_keys m) \<and> list_all (\<lambda>(k, v). canonical v) m"
| "canonical (CArray xs) \<longleftrightarrow> list_all canonical xs"
| "canonical (CTag t v) \<longleftrightarrow> canonical v"
| "canonical _ \<longleftrightarrow> True"

fun cbor_height :: "cbor \<Rightarrow> nat" where
  "cbor_height (CMap m) = foldr max (map (\<lambda>(k, v). Suc (cbor_height v)) m) 0"
| "cbor_height (CArray xs) = foldr max (map (\<lambda>x. Suc (cbor_height x)) xs) 0"
| "cbor_height (CTag t v) = Suc (cbor_height v)"
| "cbor_height _ = 0"

lemma check_depth_ok [simp]: "check_depth d mx = Inr u \<longleftrightarrow> d \<le> mx"
  by (simp add: check_depth_def)

lemma check_key_ok:
  "check_key prev seen k = Inr st \<longleftrightarrow>
     (\<forall>fp. key_fingerprint k = Some fp \<longrightarrow> fp \<notin> set seen) \<and>
     (\<forall>i p. k = CInt i \<longrightarrow> prev = Some p \<longrightarrow> canon_less p (i64_or_max i)) \<and>
     st = (case k of CInt i \<Rightarrow> Some (i64_or_max i) | _ \<Rightarrow> prev,
           case key_fingerprint k of Some fp \<Rightarrow> fp # seen | None \<Rightarrow> seen)"
  by (cases k; cases prev) (auto simp: check_key_def canon_less_def Let_def)

lemma height_le: "cbor_height (CMap m) \<le> n \<longleftrightarrow> (\<forall>(k, v) \<in> set m. Suc (cbor_height v) \<le> n)"
  "cbor_height (CArray xs) \<le> n \<longleftrightarrow> (\<forall>x \<in> set xs. Suc (cbor_height x) \<le> n)"
  using foldr_max_le[of "map (\<lambda>(k, v). Suc (cbor_height v)) m" n]
    foldr_max_le[of "map (\<lambda>x. Suc (cbor_height x)) xs" n] by auto

declare validate_nested.simps [simp del]

lemma validate_nested_iff:
  "validate_nested d mx v = Inr u \<longleftrightarrow> canonical v \<and> d + cbor_height v \<le> mx"
  "validate_entries d mx prev seen m = Inr u \<longleftrightarrow>
     distinct (key_fps m) \<and> set (key_fps m) \<inter> set seen = {} \<and>
     sorted_wrt canon_less ((case prev of None \<Rightarrow> [] | Some p \<Rightarrow> [p]) @ int_keys m) \<and>
     (\<forall>(k, v) \<in> set m. canonical v \<and> Suc d + cbor_height v \<le> mx)"
  "validate_items d mx xs = Inr u \<longleftrightarrow> (\<forall>x \<in> set xs. canonical x \<and> d + cbor_height x \<le> mx)"
proof (induction d mx v and d mx prev seen m and d mx xs rule: validate_nested_validate_entries_validate_items.induct)
  case (1 d mx v)
  show ?case
  proof (cases v)
    case (CTag t w)
    then show ?thesis using 1 by (auto simp: validate_nested.simps[of d mx "CTag t w"])
  next
    case (CArray xs)
    have "d + cbor_height v \<le> mx \<longleftrightarrow> d \<le> mx \<and> (\<forall>x \<in> set xs. Suc d + cbor_height x \<le> mx)"
      using height_le(2)[of xs "mx - d"] CArray by (auto simp: le_diff_conv2)
    then show ?thesis using 1 CArray by (auto simp: validate_nested.simps[of d mx "CArray xs"] list_all_iff)
  next
    case (CMap m)
    have "d + cbor_height v \<le> mx \<longleftrightarrow> d \<le> mx \<and> (\<forall>(k, w) \<in> set m. Suc d + cbor_height w \<le> mx)"
      using height_le(1)[of m "mx - d"] CMap by (auto simp: le_diff_conv2)
    then show ?thesis using 1 CMap by (auto simp: validate_nested.simps[of d mx "CMap m"] list_all_iff)
  qed (simp_all add: validate_nested.simps[of d mx])
next
  case (3 d mx prev seen k v m)
  show ?case
  proof (cases "check_key prev seen k")
    case (Inl e)
    then have "\<not> ((\<forall>fp. key_fingerprint k = Some fp \<longrightarrow> fp \<notin> set seen) \<and>
      (\<forall>i p. k = CInt i \<longrightarrow> prev = Some p \<longrightarrow> canon_less p (i64_or_max i)))"
      using check_key_ok[of prev seen k] by auto
    with Inl show ?thesis by (cases k) (auto split: option.splits)
  next
    case (Inr st)
    then have st: "st = (case k of CInt i \<Rightarrow> Some (i64_or_max i) | _ \<Rightarrow> prev,
           case key_fingerprint k of Some fp \<Rightarrow> fp # seen | None \<Rightarrow> seen)"
      and k: "\<And>fp. key_fingerprint k = Some fp \<Longrightarrow> fp \<notin> set seen"
      "\<forall>i p. k = CInt i \<longrightarrow> prev = Some p \<longrightarrow> canon_less p (i64_or_max i)"
      unfolding check_key_ok by blast+
    show ?thesis
      using Inr 3 k unfolding st
      by (cases k; cases prev) (auto split: option.splits intro: canon_less_trans)
  qed
next
  case (2 depth mx prev seen)
  then show ?case by (auto split: option.split)
qed auto

lemma validate_ordering_exact:
  "validate_cbor_map_ordering mx m = Inr () \<longleftrightarrow> canonical (CMap m) \<and> cbor_height (CMap m) \<le> mx"
proof -
  have "(\<forall>(k, v) \<in> set m. Suc 0 + cbor_height v \<le> mx) \<longleftrightarrow> cbor_height (CMap m) \<le> mx"
    using height_le(1)[of m mx] by auto
  then show ?thesis
    by (auto simp: validate_cbor_map_ordering_def validate_nested_iff(2) list_all_iff)
qed

section \<open>Numbers survive\<close>

text \<open>A finite number whose integer value, if it has one, is a double; every finite \<open>f64\<close> but the
  negative zero is one.\<close>

definition f64_plain :: "f64 \<Rightarrow> bool" where
  "f64_plain x \<longleftrightarrow> (\<exists>r. x = Fin r) \<and>
     (f64_integral x \<and> \<bar>f64_rat x\<bar> < 2 ^ 63 \<longrightarrow> i64_as_f64 \<lfloor>f64_rat x\<rfloor> = x)"

lemma validate_float_ok: "validate_float x name = Inr u \<longleftrightarrow> (\<exists>r. x = Fin r)"
  by (cases x) (auto simp: validate_float_def)

lemma small_floor_in_i64: "\<bar>r\<bar> < (2 :: rat) ^ 63 \<Longrightarrow> in_i64 \<lfloor>r\<rfloor>"
  unfolding in_i64_def i64_min_def i64_max_def by (auto simp: le_floor_iff floor_le_iff abs_less_iff)

lemma number_roundtrip: "f64_plain x \<Longrightarrow> number_value e e' (encode_number_shortest x) = Inr x"
  by (auto simp: encode_number_shortest_def f64_plain_def small_floor_in_i64)

lemma bit_len_less: "n < 2 ^ k \<Longrightarrow> bit_len n \<le> k"
proof (induction n arbitrary: k rule: bit_len.induct)
  case (1 n)
  show ?case
  proof (cases "n = 0")
    case True
    then show ?thesis by (simp add: bit_len.simps)
  next
    case False
    with "1.prems" obtain j where j: "k = Suc j" by (cases k) auto
    with "1.prems" have "n div 2 < 2 ^ j" by simp
    then show ?thesis using False "1.IH"[of j] j by (subst bit_len.simps) simp
  qed
qed

lemma i64_as_f64_small: "\<bar>i\<bar> < 2 ^ 53 \<Longrightarrow> i64_as_f64 i = Fin (of_int i)"
proof -
  assume a: "\<bar>i\<bar> < 2 ^ 53"
  then have "nat \<bar>i\<bar> < 2 ^ 53" by simp
  then have "bit_len (nat \<bar>i\<bar>) \<le> 53" by (rule bit_len_less)
  then have "round_53 (nat \<bar>i\<bar>) = nat \<bar>i\<bar>" by (simp add: round_53_def)
  then show ?thesis by (simp add: i64_as_f64_def sgn_mult_abs)
qed

end
