(* ===== verification/Cwt_Limits.thy ===== *)
theory Cwt_Limits
  imports Cwt_Value
begin

text \<open>
  The limits of the claim decoder in \<open>src/src/cwt.rs\<close>: \<open>CwtLimits\<close> with its checked builder, and the
  counters a decoding run carries. A step of the decoder is a function of the counters that fails,
  returns a value and the new counters, or does not return.

  Shown: limits the builder accepts are positive, below their caps and consistent, and no run of the
  decoder leaves a counter above its limit.
\<close>

section \<open>Limits\<close>

record cwt_limits =
  max_cbor_payload_size :: nat
  max_moqt_scopes :: nat
  max_custom_claims :: nat
  max_string_claim_length :: nat
  max_namespace_matches_per_scope :: nat
  max_uri_patterns :: nat
  max_nesting_depth :: nat
  max_total_items :: nat
  max_total_string_bytes :: nat
  max_regex_count :: nat
  max_catnip_entries :: nat

definition default_limits :: cwt_limits where
  "default_limits =
     \<lparr>max_cbor_payload_size = 16 * 1024, max_moqt_scopes = 1000, max_custom_claims = 100,
      max_string_claim_length = 8 * 1024, max_namespace_matches_per_scope = 100,
      max_uri_patterns = 1000, max_nesting_depth = 8, max_total_items = 10000,
      max_total_string_bytes = 512 * 1024, max_regex_count = 50, max_catnip_entries = 1000\<rparr>"

definition cap_limits :: cwt_limits where
  "cap_limits =
     \<lparr>max_cbor_payload_size = 4 * 1024 * 1024, max_moqt_scopes = 100000, max_custom_claims = 10000,
      max_string_claim_length = 1024 * 1024, max_namespace_matches_per_scope = 10000,
      max_uri_patterns = 100000, max_nesting_depth = 32, max_total_items = 1000000,
      max_total_string_bytes = 16 * 1024 * 1024, max_regex_count = 10000, max_catnip_entries = 100000\<rparr>"

definition check_range :: "string \<Rightarrow> nat \<Rightarrow> nat \<Rightarrow> nat result" where
  "check_range name v cap =
     (if v = 0 then Inl (InvalidClaimValue (name @ '': limit must be > 0''))
      else if v > cap then Inl (InvalidClaimValue (name @ '': ''))
      else Inr v)"

definition set_max_cbor_payload_size :: "nat \<Rightarrow> cwt_limits \<Rightarrow> cwt_limits result" where
  "set_max_cbor_payload_size n L = rbind (check_range ''max_cbor_payload_size'' n (max_cbor_payload_size cap_limits))
     (\<lambda>v. Inr (L\<lparr>max_cbor_payload_size := v\<rparr>))"

definition set_max_moqt_scopes :: "nat \<Rightarrow> cwt_limits \<Rightarrow> cwt_limits result" where
  "set_max_moqt_scopes n L = rbind (check_range ''max_moqt_scopes'' n (max_moqt_scopes cap_limits))
     (\<lambda>v. Inr (L\<lparr>max_moqt_scopes := v\<rparr>))"

definition set_max_custom_claims :: "nat \<Rightarrow> cwt_limits \<Rightarrow> cwt_limits result" where
  "set_max_custom_claims n L = rbind (check_range ''max_custom_claims'' n (max_custom_claims cap_limits))
     (\<lambda>v. Inr (L\<lparr>max_custom_claims := v\<rparr>))"

definition set_max_string_claim_length :: "nat \<Rightarrow> cwt_limits \<Rightarrow> cwt_limits result" where
  "set_max_string_claim_length n L =
     rbind (check_range ''max_string_claim_length'' n (max_string_claim_length cap_limits))
     (\<lambda>v. Inr (L\<lparr>max_string_claim_length := v\<rparr>))"

definition set_max_namespace_matches_per_scope :: "nat \<Rightarrow> cwt_limits \<Rightarrow> cwt_limits result" where
  "set_max_namespace_matches_per_scope n L =
     rbind (check_range ''max_namespace_matches_per_scope'' n (max_namespace_matches_per_scope cap_limits))
     (\<lambda>v. Inr (L\<lparr>max_namespace_matches_per_scope := v\<rparr>))"

definition set_max_uri_patterns :: "nat \<Rightarrow> cwt_limits \<Rightarrow> cwt_limits result" where
  "set_max_uri_patterns n L = rbind (check_range ''max_uri_patterns'' n (max_uri_patterns cap_limits))
     (\<lambda>v. Inr (L\<lparr>max_uri_patterns := v\<rparr>))"

definition set_max_nesting_depth :: "nat \<Rightarrow> cwt_limits \<Rightarrow> cwt_limits result" where
  "set_max_nesting_depth n L = rbind (check_range ''max_nesting_depth'' n (max_nesting_depth cap_limits))
     (\<lambda>v. Inr (L\<lparr>max_nesting_depth := v\<rparr>))"

definition set_max_total_items :: "nat \<Rightarrow> cwt_limits \<Rightarrow> cwt_limits result" where
  "set_max_total_items n L = rbind (check_range ''max_total_items'' n (max_total_items cap_limits))
     (\<lambda>v. Inr (L\<lparr>max_total_items := v\<rparr>))"

definition set_max_total_string_bytes :: "nat \<Rightarrow> cwt_limits \<Rightarrow> cwt_limits result" where
  "set_max_total_string_bytes n L =
     rbind (check_range ''max_total_string_bytes'' n (max_total_string_bytes cap_limits))
     (\<lambda>v. Inr (L\<lparr>max_total_string_bytes := v\<rparr>))"

definition set_max_regex_count :: "nat \<Rightarrow> cwt_limits \<Rightarrow> cwt_limits result" where
  "set_max_regex_count n L = rbind (check_range ''max_regex_count'' n (max_regex_count cap_limits))
     (\<lambda>v. Inr (L\<lparr>max_regex_count := v\<rparr>))"

definition set_max_catnip_entries :: "nat \<Rightarrow> cwt_limits \<Rightarrow> cwt_limits result" where
  "set_max_catnip_entries n L = rbind (check_range ''max_catnip_entries'' n (max_catnip_entries cap_limits))
     (\<lambda>v. Inr (L\<lparr>max_catnip_entries := v\<rparr>))"

definition build_limits :: "cwt_limits \<Rightarrow> cwt_limits result" where
  "build_limits L =
     (if max_string_claim_length L > max_total_string_bytes L
      then Inl (InvalidClaimValue ''max_string_claim_length must not exceed max_total_string_bytes'')
      else Inr L)"

lemmas limit_setters = set_max_cbor_payload_size_def set_max_moqt_scopes_def set_max_custom_claims_def
  set_max_string_claim_length_def set_max_namespace_matches_per_scope_def set_max_uri_patterns_def
  set_max_nesting_depth_def set_max_total_items_def set_max_total_string_bytes_def
  set_max_regex_count_def set_max_catnip_entries_def

definition setters :: "(nat \<Rightarrow> cwt_limits \<Rightarrow> cwt_limits result) list" where
  "setters = [set_max_cbor_payload_size, set_max_moqt_scopes, set_max_custom_claims,
     set_max_string_claim_length, set_max_namespace_matches_per_scope, set_max_uri_patterns,
     set_max_nesting_depth, set_max_total_items, set_max_total_string_bytes, set_max_regex_count,
     set_max_catnip_entries]"

text \<open>The limits a chain of builder calls reaches.\<close>

inductive limits_built :: "cwt_limits \<Rightarrow> bool" where
  limits_default: "limits_built default_limits"
| limits_set: "limits_built L \<Longrightarrow> f \<in> set setters \<Longrightarrow> f n L = Inr L' \<Longrightarrow> limits_built L'"

definition fields_of :: "cwt_limits \<Rightarrow> nat list" where
  "fields_of L = [max_cbor_payload_size L, max_moqt_scopes L, max_custom_claims L,
     max_string_claim_length L, max_namespace_matches_per_scope L, max_uri_patterns L,
     max_nesting_depth L, max_total_items L, max_total_string_bytes L, max_regex_count L,
     max_catnip_entries L]"

lemma check_range_ok: "check_range name v cap = Inr w \<longleftrightarrow> w = v \<and> 0 < v \<and> v \<le> cap"
  by (auto simp: check_range_def)

lemma limits_built_range: "limits_built L \<Longrightarrow> list_all2 (\<lambda>v cap. 0 < v \<and> v \<le> cap) (fields_of L) (fields_of cap_limits)"
proof (induction rule: limits_built.induct)
  case limits_default
  show ?case by (simp add: fields_of_def default_limits_def cap_limits_def)
next
  case (limits_set L f n L')
  from limits_set.hyps(2) limits_set.hyps(3) limits_set.IH show ?case
    unfolding setters_def list.set insert_iff empty_iff
    by (elim disjE FalseE) (clarsimp simp: limit_setters check_range_ok fields_of_def)+
qed

text \<open>C28: limits that leave the builder are positive, within the policy caps, and a single string
  fits the budget for all strings.\<close>

theorem built_limits_ok:
  assumes "limits_built L" "build_limits L = Inr L'"
  shows "list_all2 (\<lambda>v cap. 0 < v \<and> v \<le> cap) (fields_of L') (fields_of cap_limits) \<and>
     max_string_claim_length L' \<le> max_total_string_bytes L'"
  using assms limits_built_range[of L] by (auto simp: build_limits_def split: if_splits)

theorem built_limits_ok_witness:
  "max_string_claim_length default_limits \<le> max_total_string_bytes default_limits"
proof -
  have "build_limits default_limits = Inr default_limits" by (simp add: build_limits_def default_limits_def)
  then show ?thesis using built_limits_ok[OF limits_default] by blast
qed

section \<open>Counters\<close>

record decode_counters =
  dc_items :: nat
  dc_string_bytes :: nat
  dc_regexes :: nat
  dc_uri_patterns :: nat

definition counters_zero :: decode_counters where
  "counters_zero = \<lparr>dc_items = 0, dc_string_bytes = 0, dc_regexes = 0, dc_uri_patterns = 0\<rparr>"

type_synonym 'a decode = "decode_counters \<Rightarrow> ('a \<times> decode_counters) result option"

definition dret :: "'a \<Rightarrow> 'a decode" where
  "dret a c = Some (Inr (a, c))"

definition dfail :: "cat_error \<Rightarrow> 'a decode" where
  "dfail e c = Some (Inl e)"

definition dlift :: "'a result \<Rightarrow> 'a decode" where
  "dlift m c = Some (rbind m (\<lambda>a. Inr (a, c)))"

definition dbind :: "'a decode \<Rightarrow> ('a \<Rightarrow> 'b decode) \<Rightarrow> 'b decode" where
  "dbind m k c = obind (m c) (\<lambda>(a, c1). k a c1)"

fun dmap :: "('a \<Rightarrow> 'b decode) \<Rightarrow> 'a list \<Rightarrow> 'b list decode" where
  "dmap f [] = dret []"
| "dmap f (x # xs) = dbind (f x) (\<lambda>y. dbind (dmap f xs) (\<lambda>ys. dret (y # ys)))"

fun dfold :: "('a \<Rightarrow> 's \<Rightarrow> 's decode) \<Rightarrow> 'a list \<Rightarrow> 's \<Rightarrow> 's decode" where
  "dfold f [] s = dret s"
| "dfold f (x # xs) s = dbind (f x s) (dfold f xs)"

definition count_item :: "cwt_limits \<Rightarrow> unit decode" where
  "count_item L c =
     (let n = dc_items c + 1
      in if n > max_total_items L then dfail (InvalidCbor ''Too many CBOR items: exceeds limit of '') c
         else dret () (c\<lparr>dc_items := n\<rparr>))"

definition count_string :: "cwt_limits \<Rightarrow> nat \<Rightarrow> unit decode" where
  "count_string L len c =
     (let n = dc_string_bytes c + len
      in if n > max_total_string_bytes L then dfail (InvalidCbor ''Total string bytes exceeds limit of '') c
         else dret () (c\<lparr>dc_string_bytes := n\<rparr>))"

definition count_uri_pattern :: "cwt_limits \<Rightarrow> unit decode" where
  "count_uri_pattern L c =
     (let n = dc_uri_patterns c + 1
      in if n > max_uri_patterns L then dfail (InvalidCbor ''Too many URI patterns: exceeds limit of '') c
         else dret () (c\<lparr>dc_uri_patterns := n\<rparr>))"

definition count_regex :: "cwt_limits \<Rightarrow> unit decode" where
  "count_regex L c =
     (let n = dc_regexes c + 1
      in if n > max_regex_count L then dfail (InvalidCbor ''Too many regex patterns: exceeds limit of '') c
         else dret () (c\<lparr>dc_regexes := n\<rparr>))"

definition validate_string_length :: "cwt_limits \<Rightarrow> string \<Rightarrow> string \<Rightarrow> unit result" where
  "validate_string_length L name s =
     (if length s > max_string_claim_length L then Inl (InvalidClaimValue (name @ '' too long: '')) else Inr ())"

section \<open>Counters stay within the limits\<close>

definition counters_ok :: "cwt_limits \<Rightarrow> decode_counters \<Rightarrow> bool" where
  "counters_ok L c \<longleftrightarrow> dc_items c \<le> max_total_items L \<and> dc_string_bytes c \<le> max_total_string_bytes L \<and>
     dc_regexes c \<le> max_regex_count L \<and> dc_uri_patterns c \<le> max_uri_patterns L"

text \<open>From counters within the limits a step ends, and leaves them within the limits if it succeeds.\<close>

definition runs :: "cwt_limits \<Rightarrow> 'a decode \<Rightarrow> bool" where
  "runs L m \<longleftrightarrow> (\<forall>c. counters_ok L c \<longrightarrow> ended (m c) \<and> (\<forall>a c'. m c = Some (Inr (a, c')) \<longrightarrow> counters_ok L c'))"

text \<open>What a step returns when it succeeds.\<close>

definition yields :: "'a decode \<Rightarrow> 'a \<Rightarrow> bool" where
  "yields m a \<longleftrightarrow> (\<exists>c c'. m c = Some (Inr (a, c')))"

named_theorems runs_intro \<open>decoder steps that end with the counters within the limits\<close>

lemma runs_dret [runs_intro]: "runs L (dret a)"
  by (simp add: runs_def dret_def)

lemma runs_dfail [runs_intro]: "runs L (dfail e)"
  by (simp add: runs_def dfail_def)

lemma runs_dlift [runs_intro]: "runs L (dlift m)"
  by (auto simp: runs_def dlift_def)

lemma dbind_eq_Inr: "dbind m k c = Some (Inr r) \<longleftrightarrow> (\<exists>a c1. m c = Some (Inr (a, c1)) \<and> k a c1 = Some (Inr r))"
  unfolding dbind_def obind_eq_Inr by auto

lemma runs_dbind [runs_intro]:
  assumes "runs L m" "\<And>a. yields m a \<Longrightarrow> runs L (k a)"
  shows "runs L (dbind m k)"
  unfolding runs_def
proof (intro allI impI conjI)
  fix c assume c: "counters_ok L c"
  then have "ended (m c)" using assms(1) by (simp add: runs_def)
  moreover have "ended (k a c1)" if "m c = Some (Inr (a, c1))" for a c1
  proof -
    have "yields m a" using that unfolding yields_def by blast
    moreover have "counters_ok L c1" using assms(1) c that unfolding runs_def by blast
    ultimately show ?thesis using assms(2)[of a] unfolding runs_def by blast
  qed
  ultimately show "ended (dbind m k c)" unfolding dbind_def by (auto intro!: obind_total)
  fix b c' assume "dbind m k c = Some (Inr (b, c'))"
  then obtain a c1 where m: "m c = Some (Inr (a, c1))" and k: "k a c1 = Some (Inr (b, c'))"
    unfolding dbind_eq_Inr by blast
  have "yields m a" using m unfolding yields_def by blast
  moreover have "counters_ok L c1" using assms(1) c m unfolding runs_def by blast
  ultimately show "counters_ok L c'" using assms(2)[of a] k unfolding runs_def by blast
qed

lemma runs_dmap [runs_intro]: "(\<And>x. runs L (f x)) \<Longrightarrow> runs L (dmap f xs)"
  by (induction xs) (simp_all add: runs_dret runs_dbind)

lemma runs_dfold [runs_intro]: "(\<And>x s. x \<in> set xs \<Longrightarrow> runs L (f x s)) \<Longrightarrow> runs L (dfold f xs s)"
  by (induction xs arbitrary: s) (simp_all add: runs_dret runs_dbind)

lemma runs_counts [runs_intro]:
  "runs L (count_item L)" "runs L (count_string L n)" "runs L (count_uri_pattern L)" "runs L (count_regex L)"
  by (auto simp: runs_def counters_ok_def count_item_def count_string_def count_uri_pattern_def
      count_regex_def dret_def dfail_def Let_def split: if_splits)

lemma runs_if [runs_intro]: "(b \<Longrightarrow> runs L m) \<Longrightarrow> (\<not> b \<Longrightarrow> runs L m') \<Longrightarrow> runs L (if b then m else m')"
  by simp

lemma runs_case_option [runs_intro]:
  "(v = None \<Longrightarrow> runs L m) \<Longrightarrow> (\<And>x. v = Some x \<Longrightarrow> runs L (f x)) \<Longrightarrow>
     runs L (case v of None \<Rightarrow> m | Some x \<Rightarrow> f x)"
  by (simp split: option.split)

lemma runs_case_prod [runs_intro]: "(\<And>x y. p = (x, y) \<Longrightarrow> runs L (f x y)) \<Longrightarrow> runs L (case p of (x, y) \<Rightarrow> f x y)"
  by (simp split: prod.split)

lemma runs_case_cbor [runs_intro]:
  assumes "\<And>i. runs L (f1 i)" "\<And>b. runs L (f2 b)" "\<And>x. runs L (f3 x)" "\<And>s. runs L (f4 s)"
    "\<And>b. runs L (f5 b)" "runs L f6" "\<And>t v. runs L (f7 t v)" "\<And>xs. runs L (f8 xs)" "\<And>m. runs L (f9 m)"
  shows "runs L (case v of CInt i \<Rightarrow> f1 i | CBytes b \<Rightarrow> f2 b | CFloat x \<Rightarrow> f3 x | CText s \<Rightarrow> f4 s
     | CBool b \<Rightarrow> f5 b | CNull \<Rightarrow> f6 | CTag t v \<Rightarrow> f7 t v | CArray xs \<Rightarrow> f8 xs | CMap m \<Rightarrow> f9 m)"
  using assms by (cases v) auto

lemma yields_dlift [simp]: "yields (dlift m) a \<longleftrightarrow> m = Inr a"
  by (auto simp: yields_def dlift_def)

end
