(* ===== verification/Cwt_Decode.thy ===== *)
theory Cwt_Decode
  imports Cwt_Limits Composite
begin

text \<open>
  \<open>Cwt::decode_payload_with_limits\<close> of \<open>src/src/cwt.rs\<close>: one decoder per claim, the dispatch on the
  claim label, and the recursion through composite claims, which writes a nested claim set to bytes
  again and decodes these. Recursion takes fuel; the depth limit of the CBOR reader bounds it.

  Shown: the counters of a run stay within the limits, fuel beyond the reader's depth limit always
  gives an answer and the same one, and what every decoded token satisfies.
\<close>

section \<open>Texts, bytes and numbers\<close>

definition dlimited_text :: "cwt_limits \<Rightarrow> string \<Rightarrow> string \<Rightarrow> string decode" where
  "dlimited_text L name s =
     dbind (dlift (validate_string_length L name s)) (\<lambda>_.
     dbind (count_string L (length s)) (\<lambda>_. dret s))"

definition decode_text_claim :: "cwt_limits \<Rightarrow> string \<Rightarrow> string \<Rightarrow> cbor \<Rightarrow> string decode" where
  "decode_text_claim L claim name v =
     dbind (dlift (reject_unexpected_tag v claim)) (\<lambda>_.
       case v of
         CText s \<Rightarrow> dlimited_text L name s
       | _ \<Rightarrow> dfail (InvalidClaimValue (claim @ '' must be a text string'')))"

definition decode_aud :: "cwt_limits \<Rightarrow> cbor \<Rightarrow> string list decode" where
  "decode_aud L v =
     dbind (dlift (reject_unexpected_tag v ''aud'')) (\<lambda>_.
       case v of
         CText s \<Rightarrow> dbind (dlimited_text L ''audience'' s) (\<lambda>s. dret [s])
       | CArray xs \<Rightarrow>
           dmap (\<lambda>x. dbind (count_item L) (\<lambda>_.
             case x of
               CText s \<Rightarrow> dlimited_text L ''audience'' s
             | _ \<Rightarrow> dfail (InvalidClaimValue ''aud array items must be text strings''))) xs
       | _ \<Rightarrow> dfail (InvalidClaimValue ''aud must be a text string or array of text strings''))"

definition decode_date :: "string \<Rightarrow> cbor \<Rightarrow> int decode" where
  "decode_date name v =
     dbind (dlift (reject_unexpected_tag v name)) (\<lambda>_.
       dlift (date_value name (InvalidClaimValue (name @ '' must be an integer or float'')) v))"

definition decode_bytes_claim :: "string \<Rightarrow> string \<Rightarrow> cbor \<Rightarrow> bytes decode" where
  "decode_bytes_claim name what v =
     dbind (dlift (reject_unexpected_tag v name)) (\<lambda>_.
       dlift (bytes_value (InvalidClaimValue (name @ '' must be '' @ what)) v))"

definition decode_catreplay :: "cbor \<Rightarrow> replay_protection decode" where
  "decode_catreplay v =
     dbind (dlift (reject_unexpected_tag v ''catreplay'')) (\<lambda>_.
       dlift (rbind (u32_value (InvalidClaimValue ''Invalid catreplay value'')
                      (InvalidClaimValue ''catreplay must be an integer'') v) replay_protection_try_from))"

definition decode_catpor :: "cbor \<Rightarrow> probability_of_rejection decode" where
  "decode_catpor v =
     dbind (dlift (reject_unexpected_tag v ''catpor'')) (\<lambda>_. dlift (
     rbind (case v of
              CArray [p, i] \<Rightarrow> Inr (p, i, None)
            | CArray [p, i, e] \<Rightarrow> Inr (p, i, Some e)
            | _ \<Rightarrow> Inl (InvalidClaimValue ''catpor must be an array with 2 or 3 elements'')) (\<lambda>(p, i, e).
     rbind (number_value InvalidTokenFormat (InvalidClaimValue ''Invalid catpor probability'') p) (\<lambda>prob.
     rbind (bytes_value (InvalidClaimValue ''Invalid catpor id'') i) (\<lambda>idb.
     rbind (case e of
              None \<Rightarrow> Inr None
            | Some x \<Rightarrow> rbind (int_value (InvalidClaimValue ''catpor expiration must be an integer'') x)
                           (\<lambda>n. Inr (Some n))) (\<lambda>expiry.
     rbind (validate_float prob ''catpor.probability'') (\<lambda>_.
       if \<not> f64_in_range 0 1 prob
         then Inl (InvalidClaimValue ''catpor probability must be in [0.0, 1.0], got '')
       else Inr \<lparr>por_probability = prob, por_id = idb, por_expiration = expiry\<rparr>)))))))"

definition decode_catv :: "cbor \<Rightarrow> u32 decode" where
  "decode_catv v =
     dbind (dlift (reject_unexpected_tag v ''catv'')) (\<lambda>_.
       dlift (u32_value (InvalidClaimValue ''Invalid catv value'') (InvalidClaimValue ''catv must be an integer'') v))"

section \<open>Match rules\<close>

definition decode_catnip :: "cwt_limits \<Rightarrow> cbor \<Rightarrow> network_identifier list decode" where
  "decode_catnip L v =
     dbind (dlift (reject_unexpected_tag v ''catnip'')) (\<lambda>_.
     dbind (dlift (array_value (InvalidClaimValue ''catnip must be an array'') v)) (\<lambda>xs.
       if length xs > max_catnip_entries L then dfail (InvalidCbor ''Too many catnip entries: '')
       else dmap (\<lambda>x. dbind (count_item L) (\<lambda>_. dlift (decode_network_identifier x))) xs))"

fun is_regex :: "match_value \<Rightarrow> bool" where
  "is_regex (MvRegex _) = True"
| "is_regex _ = False"

definition decode_matches :: "cwt_limits \<Rightarrow> (cbor \<times> cbor) list \<Rightarrow> match_value list decode" where
  "decode_matches L m =
     dmap (\<lambda>(k, v). dbind (dlift (decode_match_value k v)) (\<lambda>mv.
       dbind (if is_regex mv then count_regex L else dret ()) (\<lambda>_. dret mv))) m"

definition decode_catu :: "cwt_limits \<Rightarrow> cbor \<Rightarrow> uri_match_rule list decode" where
  "decode_catu L v =
     dbind (dlift (reject_unexpected_tag v ''catu'')) (\<lambda>_.
     dbind (dlift (map_value (InvalidClaimValue ''catu must be a map'') v)) (\<lambda>m.
       dmap (\<lambda>(k, x).
         dbind (dlift (int_value (InvalidClaimValue ''catu map keys must be integers'') k)) (\<lambda>comp.
         dbind (dlift (map_value (InvalidClaimValue ''catu map values must be maps'') x)) (\<lambda>mm.
         dbind (decode_matches L mm) (\<lambda>ms.
         dbind (count_uri_pattern L) (\<lambda>_. dret \<lparr>ur_component = comp, ur_matches = ms\<rparr>))))) m))"

definition decode_counted_texts :: "cwt_limits \<Rightarrow> cat_error \<Rightarrow> cbor list \<Rightarrow> string list decode" where
  "decode_counted_texts L e xs = dmap (\<lambda>x. dbind (count_item L) (\<lambda>_. dlift (text_value e x))) xs"

definition decode_catm :: "cwt_limits \<Rightarrow> cbor \<Rightarrow> string list decode" where
  "decode_catm L v =
     dbind (dlift (reject_unexpected_tag v ''catm'')) (\<lambda>_.
     dbind (dlift (array_value (InvalidClaimValue ''catm must be an array'') v)) (\<lambda>xs.
       if length xs > 50 then dfail (InvalidClaimValue ''catm: too many methods ('')
       else decode_counted_texts L (InvalidClaimValue ''catm array items must be text strings'') xs))"

definition decode_catalpn :: "cwt_limits \<Rightarrow> cbor \<Rightarrow> bytes list decode" where
  "decode_catalpn L v =
     dbind (dlift (reject_unexpected_tag v ''catalpn'')) (\<lambda>_.
     dbind (dlift (array_value (InvalidClaimValue ''catalpn must be an array'') v)) (\<lambda>xs.
       if length xs > 50 then dfail (InvalidClaimValue ''catalpn: too many entries ('')
       else dmap (\<lambda>x. dbind (count_item L) (\<lambda>_.
              dlift (bytes_value (InvalidClaimValue ''catalpn array items must be byte strings per CTA-5007-B '') x))) xs))"

definition decode_cath :: "cwt_limits \<Rightarrow> cbor \<Rightarrow> header_match_rule list decode" where
  "decode_cath L v =
     dbind (dlift (reject_unexpected_tag v ''cath'')) (\<lambda>_.
     dbind (dlift (map_value (InvalidClaimValue ''cath must be a map'') v)) (\<lambda>m.
       dmap (\<lambda>(k, x).
         dbind (dlift (text_value (InvalidClaimValue ''cath map keys must be text strings'') k)) (\<lambda>name.
         dbind (dlift (map_value (InvalidClaimValue ''cath map values must be maps'') x)) (\<lambda>mm.
         dbind (decode_matches L mm) (\<lambda>ms. dret \<lparr>hr_name = name, hr_matches = ms\<rparr>)))) m))"

section \<open>Geographic claims\<close>

definition decode_catgeoiso3166 :: "cwt_limits \<Rightarrow> cbor \<Rightarrow> string list decode" where
  "decode_catgeoiso3166 L v =
     dbind (dlift (reject_unexpected_tag v ''catgeoiso3166'')) (\<lambda>_.
     dbind (dlift (array_value (InvalidClaimValue ''catgeoiso3166 must be an array'') v))
       (decode_counted_texts L (InvalidClaimValue ''catgeoiso3166 array items must be text strings'')))"

fun decode_radius :: "cbor \<Rightarrow> u32 result" where
  "decode_radius (CInt r) =
     (if \<not> in_i64 r then Inl (InvalidClaimValue ''Invalid catgeocoord radius'')
      else if r < 0 then Inl (InvalidClaimValue ''catgeocoord radius must not be negative'')
      else if r \<ge> 2 ^ 32 then Inl (InvalidClaimValue ''catgeocoord radius exceeds u32 range'')
      else Inr (of_int r))"
| "decode_radius (CFloat f) = safe_float_to_u32 f ''catgeocoord radius''"
| "decode_radius _ = Inl (InvalidClaimValue ''catgeocoord radius must be a number'')"

fun decode_zone :: "cbor \<Rightarrow> geo_coordinate result" where
  "decode_zone (CArray [la, lo, ra]) =
     rbind (number_value (InvalidClaimValue ''Invalid catgeocoord latitude'')
              (InvalidClaimValue ''catgeocoord latitude must be a number'') la) (\<lambda>lat.
     rbind (number_value (InvalidClaimValue ''Invalid catgeocoord longitude'')
              (InvalidClaimValue ''catgeocoord longitude must be a number'') lo) (\<lambda>lon.
     rbind (decode_radius ra) (\<lambda>rad.
     rbind (validate_float lat ''catgeocoord.lat'') (\<lambda>_.
     rbind (validate_float lon ''catgeocoord.lon'') (\<lambda>_.
       if f64_abs_gt lat 90 then Inl (InvalidClaimValue ''catgeocoord latitude out of range (-90 to 90)'')
       else if f64_abs_gt lon 180 then Inl (InvalidClaimValue ''catgeocoord longitude out of range (-180 to 180)'')
       else Inr \<lparr>geo_lat = lat, geo_lon = lon, geo_radius = rad\<rparr>)))))"
| "decode_zone (CArray _) =
     Inl (InvalidClaimValue ''catgeocoord zone must have exactly 3 elements (lat, lon, radius), got '')"
| "decode_zone _ = Inl (InvalidClaimValue ''catgeocoord zones must be arrays'')"

text \<open>An empty list leaves the claim absent.\<close>

definition non_empty :: "'a list \<Rightarrow> 'a list option" where
  "non_empty xs = (if xs = [] then None else Some xs)"

definition decode_catgeocoord :: "cwt_limits \<Rightarrow> cbor \<Rightarrow> geo_coordinate list option decode" where
  "decode_catgeocoord L v =
     dbind (dlift (unwrap_crs_tag v)) (\<lambda>w.
     dbind (dlift (array_value (InvalidClaimValue ''catgeocoord must be an array'') w)) (\<lambda>zones.
     dbind (dmap (\<lambda>z. dbind (count_item L) (\<lambda>_. dlift (decode_zone z))) zones) (\<lambda>cs.
       dret (non_empty cs))))"

definition decode_geohash :: "cbor \<Rightarrow> string list option decode" where
  "decode_geohash v =
     dbind (dlift (unwrap_crs_tag v)) (\<lambda>w. dlift (
       case w of
         CText s \<Rightarrow> Inr (Some [s])
       | CArray xs \<Rightarrow>
           rbind (map_r (text_value (InvalidClaimValue ''geohash array items must be text strings'')) xs)
             (\<lambda>hs. Inr (non_empty hs))
       | _ \<Rightarrow> Inl (InvalidClaimValue ''geohash must be text or an array of text'')))"

definition decode_catgeoalt :: "cbor \<Rightarrow> geo_altitude decode" where
  "decode_catgeoalt v =
     dbind (dlift (unwrap_crs_tag v)) (\<lambda>w. dlift (
       case w of
         CArray [a, d] \<Rightarrow>
           rbind (number_value InvalidTokenFormat (InvalidClaimValue ''Invalid catgeoalt altitude'') a) (\<lambda>alt.
           rbind (number_value InvalidTokenFormat (InvalidClaimValue ''Invalid catgeoalt deviation'') d) (\<lambda>dev.
           rbind (validate_float alt ''catgeoalt.altitude'') (\<lambda>_.
           rbind (validate_float dev ''catgeoalt.deviation'') (\<lambda>_.
             Inr \<lparr>ga_altitude = alt, ga_deviation = dev\<rparr>))))
       | _ \<Rightarrow> Inl (InvalidClaimValue ''catgeoalt must be an array of [altitude, deviation]'')))"

definition decode_catifdata :: "cwt_limits \<Rightarrow> cbor \<Rightarrow> string list option decode" where
  "decode_catifdata L v =
     dbind (dlift (reject_unexpected_tag v ''catifdata'')) (\<lambda>_.
       case v of
         CText s \<Rightarrow> dret (Some [s])
       | CArray xs \<Rightarrow>
           dbind (decode_counted_texts L (InvalidClaimValue ''catifdata array items must be text strings'') xs)
             (\<lambda>ds. dret (non_empty ds))
       | _ \<Rightarrow> dfail (InvalidClaimValue ''catifdata must be text or an array of text''))"

section \<open>Key confirmation and DPoP settings\<close>

abbreviation "CNF_JKT \<equiv> 323 :: int"
abbreviation "CNF_JKT_LEGACY \<equiv> 3 :: int"
abbreviation "CNF_CKT \<equiv> 6 :: int"

definition cnf_entry :: "cbor \<times> cbor \<Rightarrow> bytes \<times> bytes option \<Rightarrow> (bytes \<times> bytes option) result" where
  "cnf_entry kv st =
     rbind (i64_value (InvalidClaimValue ''Invalid cnf map key'')
              (InvalidClaimValue ''cnf map keys must be integers'') (fst kv)) (\<lambda>k.
       if k = CNF_JKT \<or> k = CNF_JKT_LEGACY then
         rbind (bytes_value (InvalidClaimValue ''cnf jkt value must be bytes'') (snd kv)) (\<lambda>b. Inr (b, snd st))
       else if k = CNF_CKT then
         rbind (bytes_value (InvalidClaimValue ''cnf ckt value must be bytes'') (snd kv)) (\<lambda>b. Inr (fst st, Some b))
       else Inr st)"

definition decode_cnf :: "cbor \<Rightarrow> confirmation_claim option decode" where
  "decode_cnf v =
     dbind (dlift (reject_unexpected_tag v ''cnf'')) (\<lambda>_. dlift (
     rbind (map_value (InvalidClaimValue ''cnf must be a map'') v) (\<lambda>m.
     rbind (try_fold cnf_entry m ([], None)) (\<lambda>(jkt, ckt).
       Inr (if jkt \<noteq> [] \<or> ckt \<noteq> None then Some \<lparr>cnf_jkt = jkt, cnf_ckt = ckt\<rparr> else None)))))"

definition decode_crit :: "cbor \<Rightarrow> int list result" where
  "decode_crit v =
     rbind (array_value (InvalidClaimValue ''catdpop crit must be an array'') v)
       (map_r (i64_value (InvalidClaimValue ''Invalid catdpop crit value'')
                 (InvalidClaimValue ''catdpop crit items must be integers'')))"

definition catdpop_entry :: "cbor \<times> cbor \<Rightarrow> catdpop_settings \<Rightarrow> catdpop_settings result" where
  "catdpop_entry kv s =
     rbind (i64_value (InvalidClaimValue ''Invalid catdpop map key'')
              (InvalidClaimValue ''catdpop map keys must be integers'') (fst kv)) (\<lambda>k.
       if k = CATDPOP_CRIT then rbind (decode_crit (snd kv)) (\<lambda>ks. Inr (s\<lparr>dp_crit := Some ks\<rparr>))
       else if k = CATDPOP_WINDOW then
         rbind (i64_value (InvalidClaimValue ''Invalid DPoP window value'')
                  (InvalidClaimValue ''catdpop window must be an integer'') (snd kv)) (\<lambda>w.
           if \<not> (1 \<le> w \<and> w \<le> catdpop_max_window_secs)
             then Inl (InvalidClaimValue ''catdpop window must be in 1..='')
           else Inr (s\<lparr>dp_window := Some w\<rparr>))
       else if k = CATDPOP_HONOR_JTI then
         rbind (i64_value (InvalidClaimValue ''Invalid catdpop honor_jti value'')
                  (InvalidClaimValue ''catdpop honor_jti must be an integer'') (snd kv)) (\<lambda>j.
           if j = 0 then Inr (s\<lparr>dp_honor_jti := Some False\<rparr>)
           else if j = 1 then Inr (s\<lparr>dp_honor_jti := Some True\<rparr>)
           else Inl (InvalidClaimValue ''catdpop honor_jti must be 0 or 1''))
       else Inl (InvalidClaimValue ''Unknown catdpop sub-key: ''))"

definition decode_catdpop :: "cbor \<Rightarrow> catdpop_settings decode" where
  "decode_catdpop v =
     dbind (dlift (reject_unexpected_tag v ''catdpop'')) (\<lambda>_. dlift (
     rbind (map_value (InvalidClaimValue ''catdpop must be a map'') v) (\<lambda>m.
     rbind (try_fold catdpop_entry m catdpop_new) (\<lambda>s.
     rbind (validate_crit s) (\<lambda>_. Inr s)))))"

section \<open>Failure actions and renewal\<close>

definition decode_if_header :: "cbor \<times> cbor \<Rightarrow> (string \<times> string) result" where
  "decode_if_header kv =
     rbind (text_value (InvalidClaimValue ''catif header keys must be text'') (fst kv)) (\<lambda>k.
     rbind (text_value (InvalidClaimValue ''catif header values must be text strings'') (snd kv)) (\<lambda>v.
       Inr (k, v)))"

definition decode_if_headers :: "cbor list \<Rightarrow> (string \<times> string) list option result" where
  "decode_if_headers rest =
     (case rest of
        [] \<Rightarrow> Inr None
      | h # _ \<Rightarrow>
          rbind (map_value (InvalidClaimValue ''catif headers must be a map'') h) (\<lambda>hm.
          rbind (map_r decode_if_header hm) (\<lambda>hs. Inr (non_empty hs))))"

definition decode_if_kid :: "cbor list \<Rightarrow> string option result" where
  "decode_if_kid rest =
     (case rest of
        h # k # _ \<Rightarrow> rbind (text_value (InvalidClaimValue ''catif kid must be a text string'') k) (\<lambda>s. Inr (Some s))
      | _ \<Rightarrow> Inr None)"

definition decode_if_action :: "cbor \<Rightarrow> cat_if_action result" where
  "decode_if_action v =
     rbind (array_value (InvalidClaimValue ''catif action values must be arrays'') v) (\<lambda>arr.
       case arr of
         [] \<Rightarrow> Inl (InvalidClaimValue ''catif action array must not be empty'')
       | st # rest \<Rightarrow>
           if length arr > 3
             then Inl (InvalidClaimValue ''catif action array must have at most 3 members (status, headers, kid)'')
           else
             rbind (u32_value (InvalidClaimValue ''Invalid catif status value'')
                      (InvalidClaimValue ''catif status must be an integer'') st) (\<lambda>status.
             rbind (decode_if_headers rest) (\<lambda>headers.
             rbind (decode_if_kid rest) (\<lambda>kid.
             rbind (if_action_new status) (\<lambda>a.
             rbind (case headers of Some hs \<Rightarrow> if_action_with_headers hs a | None \<Rightarrow> Inr a) (\<lambda>a.
               Inr (case kid of Some k \<Rightarrow> if_action_with_kid k a | None \<Rightarrow> a)))))))"

definition decode_catif :: "cwt_limits \<Rightarrow> cbor \<Rightarrow> (int \<times> cat_if_action) list option decode" where
  "decode_catif L v =
     dbind (dlift (reject_unexpected_tag v ''catif'')) (\<lambda>_.
     dbind (dlift (map_value (InvalidClaimValue ''catif must be a map'') v)) (\<lambda>m.
     dbind (dmap (\<lambda>(k, x).
         dbind (count_item L) (\<lambda>_. dlift (
           rbind (i64_value (InvalidClaimValue ''Invalid catif map key'')
                    (InvalidClaimValue ''catif map keys must be integers'') k) (\<lambda>key.
           rbind (decode_if_action x) (\<lambda>a. Inr (key, a)))))) m) (\<lambda>as.
       dret (non_empty as))))"

abbreviation "CATR_TYPE \<equiv> 0 :: int"
abbreviation "CATR_EXPADD \<equiv> 1 :: int"
abbreviation "CATR_DEADLINE \<equiv> 2 :: int"
abbreviation "CATR_COOKIE_NAME \<equiv> 3 :: int"
abbreviation "CATR_HEADER_NAME \<equiv> 4 :: int"
abbreviation "CATR_ADDITIONAL_COOKIE_PARAMS \<equiv> 5 :: int"
abbreviation "CATR_ADDITIONAL_HEADER_PARAMS \<equiv> 6 :: int"
abbreviation "CATR_STATUS_CODE \<equiv> 7 :: int"

definition decode_renewal_number :: "string \<Rightarrow> cbor \<Rightarrow> f64 result" where
  "decode_renewal_number name v =
     (case v of
        CInt i \<Rightarrow> (if in_i64 i then Inr (i64_as_f64 i) else Inl (InvalidClaimValue (''Invalid '' @ name @ '' value'')))
      | CFloat f \<Rightarrow> rbind (validate_float f name) (\<lambda>_. Inr f)
      | _ \<Rightarrow> Inl (InvalidClaimValue (name @ '' must be a number'')))"

text \<open>The eight locals of the \<open>catr\<close> loop: the renewal type apart, they are the fields of a renewal.\<close>

type_synonym renewal_acc = "cat_renewal_type option \<times> cat_renewal"

definition decode_renewal_type :: "cbor \<Rightarrow> cat_renewal_type result" where
  "decode_renewal_type v =
     rbind (u32_value (InvalidClaimValue ''Invalid catr type value'')
              (InvalidClaimValue ''catr type must be an integer'') v) (\<lambda>t.
       ok_or (renewal_type_from_u32 t) (InvalidClaimValue ''Unknown catr type: ''))"

definition catr_entry :: "cbor \<times> cbor \<Rightarrow> renewal_acc \<Rightarrow> renewal_acc result" where
  "catr_entry kv st =
     (let v = snd kv; set = (\<lambda>f. Inr (fst st, f (snd st)))
      in rbind (i64_value (InvalidClaimValue ''Invalid catr map key'')
                  (InvalidClaimValue ''catr map keys must be integers'') (fst kv)) (\<lambda>k.
        if k = CATR_TYPE then rbind (decode_renewal_type v) (\<lambda>t. Inr (Some t, snd st))
        else if k = CATR_EXPADD then
          rbind (decode_renewal_number ''catr expadd'' v) (\<lambda>x. set (\<lambda>r. r\<lparr>rn_expadd := Some x\<rparr>))
        else if k = CATR_DEADLINE then
          rbind (decode_renewal_number ''catr deadline'' v) (\<lambda>x. set (\<lambda>r. r\<lparr>rn_deadline := Some x\<rparr>))
        else if k = CATR_COOKIE_NAME then
          rbind (text_value (InvalidClaimValue ''catr cookie_name must be text'') v)
            (\<lambda>s. set (\<lambda>r. r\<lparr>rn_cookie_name := Some s\<rparr>))
        else if k = CATR_HEADER_NAME then
          rbind (text_value (InvalidClaimValue ''catr header_name must be text'') v)
            (\<lambda>s. set (\<lambda>r. r\<lparr>rn_header_name := Some s\<rparr>))
        else if k = CATR_ADDITIONAL_COOKIE_PARAMS then
          rbind (decode_text_array ''catr cookie_params'' v) (\<lambda>ps. set (\<lambda>r. r\<lparr>rn_cookie_params := Some ps\<rparr>))
        else if k = CATR_ADDITIONAL_HEADER_PARAMS then
          rbind (decode_text_array ''catr header_params'' v) (\<lambda>ps. set (\<lambda>r. r\<lparr>rn_header_params := Some ps\<rparr>))
        else if k = CATR_STATUS_CODE then
          rbind (u32_value (InvalidClaimValue ''Invalid catr status_code value'')
                   (InvalidClaimValue ''catr status_code must be an integer'') v)
            (\<lambda>c. set (\<lambda>r. r\<lparr>rn_status_code := Some c\<rparr>))
        else Inr st))"

definition finish_catr :: "renewal_acc \<Rightarrow> cat_renewal option result" where
  "finish_catr st =
     (case fst st of
        None \<Rightarrow> Inr None
      | Some t \<Rightarrow>
          (case rn_expadd (snd st) of
             None \<Rightarrow> Inl (InvalidClaimValue ''catr expadd is required when renewal type is present'')
           | Some ea \<Rightarrow>
               if f64_lt ea (Fin 0) \<or> f64_is_zero ea
                 then Inl (InvalidClaimValue ''catr expadd must be a positive integer'')
               else Inr (Some ((snd st)\<lparr>rn_type := t\<rparr>))))"

definition decode_catr :: "cwt_limits \<Rightarrow> cbor \<Rightarrow> cat_renewal option decode" where
  "decode_catr L v =
     dbind (dlift (reject_unexpected_tag v ''catr'')) (\<lambda>_.
     dbind (dlift (map_value (InvalidClaimValue ''catr must be a map'') v)) (\<lambda>m.
     dbind (dfold (\<lambda>kv st. dbind (count_item L) (\<lambda>_. dlift (catr_entry kv st))) m (None, renewal_base RenewAutomatic))
       (\<lambda>st. dlift (finish_catr st))))"

section \<open>MOQT claims\<close>

definition in_i32 :: "int \<Rightarrow> bool" where
  "in_i32 i \<longleftrightarrow> - (2 ^ 31) \<le> i \<and> i < 2 ^ 31"

fun decode_action :: "cbor \<Rightarrow> moqt_action result" where
  "decode_action (CInt i) =
     (if in_i32 i then moqt_action_try_from i
      else Inl (InvalidClaimValue ''MOQT action values must be integers''))"
| "decode_action _ = Inl (InvalidClaimValue ''MOQT action values must be integers'')"

fun nil_last :: "namespace_match list \<Rightarrow> bool" where
  "nil_last [] = True"
| "nil_last (NmNil # rest) = (rest = [])"
| "nil_last (NmMatch m # rest) = nil_last rest"

definition decode_scope_namespaces :: "cwt_limits \<Rightarrow> cbor list \<Rightarrow> namespace_match list result" where
  "decode_scope_namespaces L rest =
     (case rest of
        [] \<Rightarrow> Inr []
      | ns # _ \<Rightarrow>
          rbind (array_value (InvalidClaimValue ''MOQT namespace matches must be an array'') ns) (\<lambda>xs.
            if length xs > max_namespace_matches_per_scope L
              then Inl (InvalidClaimValue ''Too many namespace matches per scope: '')
            else map_r decode_namespace_match xs))"

definition decode_scope :: "cwt_limits \<Rightarrow> cbor \<Rightarrow> moqt_scope result" where
  "decode_scope L v =
     rbind (array_value (InvalidClaimValue ''MOQT scope values must be arrays'') v) (\<lambda>arr.
       case arr of
         [] \<Rightarrow> Inl (InvalidClaimValue ''MOQT scope array must have 1-3 elements, got '')
       | a # rest \<Rightarrow>
           if length arr > 3 then Inl (InvalidClaimValue ''MOQT scope array must have 1-3 elements, got '')
           else
             rbind (array_value (InvalidClaimValue ''MOQT scope actions must be an array'') a) (\<lambda>as.
             rbind (map_r decode_action as) (\<lambda>acts.
               if acts = [] then Inl (InvalidClaimValue ''MOQT scope must have at least one action'')
               else
                 rbind (decode_scope_namespaces L rest) (\<lambda>nms.
                   if \<not> nil_last nms then Inl (InvalidClaimValue ''Namespace nil must be the last element (found element at index '')
                   else
                     rbind (case rest of ns # t # _ \<Rightarrow> rbind (decode_binary_match t) (\<lambda>m. Inr (Some m)) | _ \<Rightarrow> Inr None)
                       (\<lambda>tm. Inr \<lparr>actions = acts, namespace_matches = nms, track_match = tm\<rparr>)))))"

definition decode_moqt :: "cwt_limits \<Rightarrow> cbor \<Rightarrow> moqt_scope list decode" where
  "decode_moqt L v =
     dbind (dlift (reject_unexpected_tag v ''moqt'')) (\<lambda>_. dlift (
     rbind (array_value (InvalidClaimValue ''moqt must be an array'') v) (\<lambda>xs.
       if length xs > max_moqt_scopes L then Inl (InvalidClaimValue ''Too many MOQT scopes: '')
       else map_r (decode_scope L) xs)))"

definition decode_moqt_reval :: "cbor \<Rightarrow> f64 decode" where
  "decode_moqt_reval v =
     dbind (dlift (reject_unexpected_tag v ''moqt_reval'')) (\<lambda>_. dlift (
       case v of
         CFloat f \<Rightarrow> rbind (validate_float f ''moqt_reval'') (\<lambda>_. Inr f)
       | CInt i \<Rightarrow> (if in_i64 i then Inr (i64_as_f64 i) else Inl (InvalidClaimValue ''Invalid moqt_reval value''))
       | _ \<Rightarrow> Inl (InvalidClaimValue ''moqt_reval must be a number'')))"

section \<open>The claim map\<close>

definition custom_full :: "cwt_limits \<Rightarrow> cat_token \<Rightarrow> bool" where
  "custom_full L t \<longleftrightarrow> length (t_custom t) \<ge> max_custom_claims L"

definition decode_core_claim :: "cwt_limits \<Rightarrow> int \<Rightarrow> cbor \<Rightarrow> cat_token \<Rightarrow> cat_token decode" where
  "decode_core_claim L k v t =
     (if k = CLAIM_ISS then
        dbind (decode_text_claim L ''iss'' ''issuer'' v) (\<lambda>s. dret (upd_core (\<lambda>c. c\<lparr>c_iss := Some s\<rparr>) t))
      else if k = CLAIM_AUD then dbind (decode_aud L v) (\<lambda>a. dret (upd_core (\<lambda>c. c\<lparr>c_aud := Some a\<rparr>) t))
      else if k = CLAIM_EXP then dbind (decode_date ''exp'' v) (\<lambda>n. dret (upd_core (\<lambda>c. c\<lparr>c_exp := Some n\<rparr>) t))
      else if k = CLAIM_NBF then dbind (decode_date ''nbf'' v) (\<lambda>n. dret (upd_core (\<lambda>c. c\<lparr>c_nbf := Some n\<rparr>) t))
      else dbind (decode_bytes_claim ''cti'' ''a byte string'' v) (\<lambda>b. dret (upd_core (\<lambda>c. c\<lparr>c_cti := Some b\<rparr>) t)))"

definition decode_cat_claim :: "cwt_limits \<Rightarrow> int \<Rightarrow> cbor \<Rightarrow> cat_token \<Rightarrow> cat_token decode" where
  "decode_cat_claim L k v t =
     (let set = (\<lambda>f. dret (upd_cat f t))
      in if k = CLAIM_CATREPLAY then dbind (decode_catreplay v) (\<lambda>r. set (\<lambda>c. c\<lparr>catreplay := Some r\<rparr>))
         else if k = CLAIM_CATPOR then dbind (decode_catpor v) (\<lambda>p. set (\<lambda>c. c\<lparr>catpor := Some p\<rparr>))
         else if k = CLAIM_CATV then dbind (decode_catv v) (\<lambda>n. set (\<lambda>c. c\<lparr>catv := Some n\<rparr>))
         else if k = CLAIM_CATNIP then dbind (decode_catnip L v) (\<lambda>ns. set (\<lambda>c. c\<lparr>catnip := Some ns\<rparr>))
         else if k = CLAIM_CATU then dbind (decode_catu L v) (\<lambda>rs. set (\<lambda>c. c\<lparr>catu := Some rs\<rparr>))
         else if k = CLAIM_CATM then dbind (decode_catm L v) (\<lambda>ms. set (\<lambda>c. c\<lparr>catm := Some ms\<rparr>))
         else if k = CLAIM_CATALPN then dbind (decode_catalpn L v) (\<lambda>as. set (\<lambda>c. c\<lparr>catalpn := Some as\<rparr>))
         else if k = CLAIM_CATH then dbind (decode_cath L v) (\<lambda>rs. set (\<lambda>c. c\<lparr>cath := Some rs\<rparr>))
         else if k = CLAIM_CATGEOISO3166 then
           dbind (decode_catgeoiso3166 L v) (\<lambda>cs. set (\<lambda>c. c\<lparr>catgeoiso3166 := Some cs\<rparr>))
         else if k = CLAIM_CATGEOCOORD then
           dbind (decode_catgeocoord L v) (\<lambda>gs. case gs of Some g \<Rightarrow> set (\<lambda>c. c\<lparr>catgeocoord := Some g\<rparr>) | None \<Rightarrow> dret t)
         else if k = CLAIM_GEOHASH then
           dbind (decode_geohash v) (\<lambda>hs. case hs of Some h \<Rightarrow> set (\<lambda>c. c\<lparr>geohash := Some h\<rparr>) | None \<Rightarrow> dret t)
         else if k = CLAIM_CATGEOALT then dbind (decode_catgeoalt v) (\<lambda>g. set (\<lambda>c. c\<lparr>catgeoalt := Some g\<rparr>))
         else dbind (decode_bytes_claim ''cattpk'' ''bytes'' v) (\<lambda>b. set (\<lambda>c. c\<lparr>cattpk := Some b\<rparr>)))"

definition decode_other_claim :: "cwt_limits \<Rightarrow> int \<Rightarrow> cbor \<Rightarrow> cat_token \<Rightarrow> cat_token decode" where
  "decode_other_claim L k v t =
     (if k = CLAIM_SUB then
        dbind (decode_text_claim L ''sub'' ''subject'' v) (\<lambda>s. dret (upd_informational (\<lambda>i. i\<lparr>i_sub := Some s\<rparr>) t))
      else if k = CLAIM_IAT then
        dbind (decode_date ''iat'' v) (\<lambda>n. dret (upd_informational (\<lambda>i. i\<lparr>i_iat := Some n\<rparr>) t))
      else if k = CLAIM_CATIFDATA then
        dbind (decode_catifdata L v) (\<lambda>ds.
          case ds of Some d \<Rightarrow> dret (upd_informational (\<lambda>i. i\<lparr>catifdata := Some d\<rparr>) t) | None \<Rightarrow> dret t)
      else if k = CLAIM_CNF then
        dbind (decode_cnf v) (\<lambda>c. case c of Some c \<Rightarrow> dret (upd_dpop (\<lambda>d. d\<lparr>cnf := Some c\<rparr>) t) | None \<Rightarrow> dret t)
      else if k = CLAIM_CATDPOP then dbind (decode_catdpop v) (\<lambda>s. dret (upd_dpop (\<lambda>d. d\<lparr>catdpop := Some s\<rparr>) t))
      else if k = CLAIM_CATIF then
        dbind (decode_catif L v) (\<lambda>a. case a of Some a \<Rightarrow> dret (upd_request (\<lambda>r. r\<lparr>catif := Some a\<rparr>) t) | None \<Rightarrow> dret t)
      else if k = CLAIM_CATR then
        dbind (decode_catr L v) (\<lambda>n. case n of Some n \<Rightarrow> dret (upd_request (\<lambda>r. r\<lparr>catr := Some n\<rparr>) t) | None \<Rightarrow> dret t)
      else if k = CLAIM_MOQT then dbind (decode_moqt L v) (\<lambda>ss. dret (upd_moqt (\<lambda>m. m\<lparr>mq_moqt := Some ss\<rparr>) t))
      else dbind (decode_moqt_reval v) (\<lambda>x. dret (upd_moqt (\<lambda>m. m\<lparr>mq_reval := Some x\<rparr>) t)))"

definition set_composite_claim :: "int \<Rightarrow> composite_claim \<Rightarrow> cat_token \<Rightarrow> cat_token" where
  "set_composite_claim k c =
     (if k = CLAIM_OR then with_or_composite c
      else if k = CLAIM_NOR then with_nor_composite c
      else with_and_composite c)"

definition core_ids :: "int list" where
  "core_ids = [CLAIM_ISS, CLAIM_AUD, CLAIM_EXP, CLAIM_NBF, CLAIM_CTI]"

definition cat_ids :: "int list" where
  "cat_ids = [CLAIM_CATREPLAY, CLAIM_CATPOR, CLAIM_CATV, CLAIM_CATNIP, CLAIM_CATU, CLAIM_CATM,
     CLAIM_CATALPN, CLAIM_CATH, CLAIM_CATGEOISO3166, CLAIM_CATGEOCOORD, CLAIM_GEOHASH,
     CLAIM_CATGEOALT, CLAIM_CATTPK]"

definition other_ids :: "int list" where
  "other_ids = [CLAIM_SUB, CLAIM_IAT, CLAIM_CATIFDATA, CLAIM_CNF, CLAIM_CATDPOP, CLAIM_CATIF, CLAIM_CATR,
     CLAIM_MOQT, CLAIM_MOQT_REVAL]"

definition composite_ids :: "int list" where
  "composite_ids = [CLAIM_OR, CLAIM_NOR, CLAIM_AND]"

text \<open>One iteration of the loop over the claim map; \<open>dcomp\<close> decodes a composite claim.\<close>

definition claim_label :: "cbor \<Rightarrow> int result" where
  "claim_label = int_value (InvalidCbor ''non-integer claim label rejected'')"

definition decode_claim_value ::
  "cwt_limits \<Rightarrow> (int \<Rightarrow> cbor \<Rightarrow> composite_claim decode) \<Rightarrow> int \<Rightarrow> cbor \<Rightarrow> cat_token \<Rightarrow> cat_token decode" where
  "decode_claim_value L dcomp k v t =
     (if k \<in> set core_ids then decode_core_claim L k v t
      else if k \<in> set cat_ids then decode_cat_claim L k v t
      else if k \<in> set other_ids then decode_other_claim L k v t
      else if k \<in> set composite_ids then
        dbind (dlift (reject_unexpected_tag v ''composite'')) (\<lambda>_.
        dbind (dcomp k v) (\<lambda>c. dret (set_composite_claim k c t)))
      else if custom_full L t then dfail (InvalidClaimValue ''Too many custom claims (max '')
      else dret (upd_custom (AList.update k v) t))"

definition decode_claim ::
  "cwt_limits \<Rightarrow> (int \<Rightarrow> cbor \<Rightarrow> composite_claim decode) \<Rightarrow> cbor \<times> cbor \<Rightarrow> cat_token \<Rightarrow> cat_token decode" where
  "decode_claim L dcomp kv t =
     dbind (count_item L) (\<lambda>_. dbind (dlift (claim_label (fst kv))) (\<lambda>k. decode_claim_value L dcomp k (snd kv) t))"

definition operator_of :: "int \<Rightarrow> composite_operator result" where
  "operator_of k =
     (if k = CLAIM_OR then Inr OpOr
      else if k = CLAIM_NOR then Inr OpNor
      else if k = CLAIM_AND then Inr OpAnd
      else Inl (InvalidClaimValue ''Unknown composite operator''))"

text \<open>A map with one entry, under a composite label.\<close>

fun nested_composite :: "(cbor \<times> cbor) list \<Rightarrow> (int \<times> cbor) option" where
  "nested_composite [(CInt i, v)] = (if i \<in> set composite_ids then Some (i, v) else None)"
| "nested_composite _ = None"

fun decode_payload_from :: "nat \<Rightarrow> codec_env \<Rightarrow> cwt_limits \<Rightarrow> bytes \<Rightarrow> cat_token decode"
  and decode_composite_claim :: "nat \<Rightarrow> codec_env \<Rightarrow> cwt_limits \<Rightarrow> nat \<Rightarrow> int \<Rightarrow> cbor \<Rightarrow> composite_claim decode" where
  "decode_payload_from 0 E L bs c = None"
| "decode_payload_from (Suc f) E L bs c =
     (if length bs > max_cbor_payload_size L then dfail (InvalidCbor ''CBOR payload too large: '')
      else
        dbind (dlift (decode_one E bs)) (\<lambda>v.
        dbind (dlift (map_value InvalidTokenFormat v)) (\<lambda>m.
        dbind (dlift (validate_cbor_map_ordering (max_nesting_depth L) m)) (\<lambda>_.
        dfold (decode_claim L (decode_composite_claim f E L 0)) m token_new)))) c"
| "decode_composite_claim 0 E L depth k v c = None"
| "decode_composite_claim (Suc f) E L depth k v c =
     (if depth \<ge> max_nesting_depth L then dfail (InvalidClaimValue ''Composite claim nesting too deep'')
      else
        dbind (dlift (operator_of k)) (\<lambda>oper.
        dbind (dlift (array_value (InvalidClaimValue ''Composite claim must be an array'') v)) (\<lambda>xs.
        dfold (\<lambda>x comp.
          dbind (count_item L) (\<lambda>_.
          dbind (dlift (map_value (InvalidClaimValue ''Composite claim set must be a map'') x)) (\<lambda>m.
            case nested_composite m of
              Some (i, w) \<Rightarrow>
                dbind (decode_composite_claim f E L (depth + 1) i w) (\<lambda>d. dret (add_composite d comp))
            | None \<Rightarrow>
                dbind (dlift (ce_write E x)) (\<lambda>buf.
                dbind (decode_payload_from f E L buf) (\<lambda>t. dret (add_token t comp)))))) xs (composite_new oper)))) c"

text \<open>The reader refuses values nested deeper than \<open>CBOR_MAX_RECURSION_DEPTH\<close>, so this fuel is
  enough for every payload.\<close>

definition decode_payload_with_limits :: "codec_env \<Rightarrow> cwt_limits \<Rightarrow> bytes \<Rightarrow> cat_token result" where
  "decode_payload_with_limits E L bs =
     rbind (the (decode_payload_from (Suc cbor_max_recursion_depth) E L bs counters_zero)) (\<lambda>(t, _). Inr t)"

definition cwt_decode_payload :: "codec_env \<Rightarrow> bytes \<Rightarrow> cat_token result" where
  "cwt_decode_payload E = decode_payload_with_limits E default_limits"

section \<open>Termination, and the counters within the limits\<close>

lemma runs_dlimited_text [runs_intro]: "runs L (dlimited_text L name s)"
  unfolding dlimited_text_def by (intro runs_intro)

lemma runs_text_claim [runs_intro]: "runs L (decode_text_claim L claim name v)"
  unfolding decode_text_claim_def by (intro runs_intro)

lemma runs_decode_matches [runs_intro]: "runs L (decode_matches L m)"
  unfolding decode_matches_def by (intro runs_intro)

lemma runs_counted_texts [runs_intro]: "runs L (decode_counted_texts L e xs)"
  unfolding decode_counted_texts_def by (intro runs_intro)

lemma runs_claims [runs_intro]:
  "runs L (decode_aud L v)" "runs L (decode_date name v)" "runs L (decode_bytes_claim name what v)"
  "runs L (decode_catreplay v)" "runs L (decode_catpor v)" "runs L (decode_catv v)"
  "runs L (decode_catnip L v)" "runs L (decode_catu L v)" "runs L (decode_catm L v)"
  "runs L (decode_catalpn L v)" "runs L (decode_cath L v)" "runs L (decode_catgeoiso3166 L v)"
  "runs L (decode_catgeocoord L v)" "runs L (decode_geohash v)" "runs L (decode_catgeoalt v)"
  "runs L (decode_catifdata L v)" "runs L (decode_cnf v)" "runs L (decode_catdpop v)"
  "runs L (decode_catif L v)" "runs L (decode_catr L v)" "runs L (decode_moqt L v)"
  "runs L (decode_moqt_reval v)"
  unfolding decode_aud_def decode_date_def decode_bytes_claim_def decode_catreplay_def decode_catpor_def
    decode_catv_def decode_catnip_def decode_catu_def decode_catm_def decode_catalpn_def decode_cath_def
    decode_catgeoiso3166_def decode_catgeocoord_def decode_geohash_def decode_catgeoalt_def
    decode_catifdata_def decode_cnf_def decode_catdpop_def decode_catif_def decode_catr_def
    decode_moqt_def decode_moqt_reval_def
  by (intro runs_intro)+

lemma runs_claim_groups [runs_intro]:
  "runs L (decode_core_claim L k v t)" "runs L (decode_cat_claim L k v t)" "runs L (decode_other_claim L k v t)"
  unfolding decode_core_claim_def decode_cat_claim_def decode_other_claim_def Let_def
  by (intro runs_intro)+

lemma runs_decode_claim:
  "(\<And>i. runs L (dcomp i (snd kv))) \<Longrightarrow> runs L (decode_claim L dcomp kv t)"
  unfolding decode_claim_def decode_claim_value_def by (intro runs_intro)

lemma decode_payload_0: "decode_payload_from 0 E L bs = (\<lambda>c. None)"
  by (rule ext) simp

lemma decode_composite_0: "decode_composite_claim 0 E L d k v = (\<lambda>c. None)"
  by (rule ext) simp

lemma decode_payload_Suc:
  "decode_payload_from (Suc f) E L bs =
     (if length bs > max_cbor_payload_size L then dfail (InvalidCbor ''CBOR payload too large: '')
      else
        dbind (dlift (decode_one E bs)) (\<lambda>v.
        dbind (dlift (map_value InvalidTokenFormat v)) (\<lambda>m.
        dbind (dlift (validate_cbor_map_ordering (max_nesting_depth L) m)) (\<lambda>_.
        dfold (decode_claim L (decode_composite_claim f E L 0)) m token_new))))"
  by (rule ext) (simp only: decode_payload_from.simps)

lemma decode_composite_Suc:
  "decode_composite_claim (Suc f) E L depth k v =
     (if depth \<ge> max_nesting_depth L then dfail (InvalidClaimValue ''Composite claim nesting too deep'')
      else
        dbind (dlift (operator_of k)) (\<lambda>oper.
        dbind (dlift (array_value (InvalidClaimValue ''Composite claim must be an array'') v)) (\<lambda>xs.
        dfold (\<lambda>x comp.
          dbind (count_item L) (\<lambda>_.
          dbind (dlift (map_value (InvalidClaimValue ''Composite claim set must be a map'') x)) (\<lambda>m.
            case nested_composite m of
              Some (i, w) \<Rightarrow>
                dbind (decode_composite_claim f E L (depth + 1) i w) (\<lambda>d. dret (add_composite d comp))
            | None \<Rightarrow>
                dbind (dlift (ce_write E x)) (\<lambda>buf.
                dbind (decode_payload_from f E L buf) (\<lambda>t. dret (add_token t comp)))))) xs (composite_new oper))))"
  by (rule ext) (simp only: decode_composite_claim.simps)

text \<open>What the code relies on of the reader: the values it returns are not nested deeper than the limit
  it is called with, and what was written is read back.\<close>

definition reader_bounded :: "codec_env \<Rightarrow> bool" where
  "reader_bounded E \<longleftrightarrow> (\<forall>b v n. ce_read E b = Inr (v, n) \<longrightarrow> cbor_nesting v \<le> cbor_max_recursion_depth)"

lemma map_nesting: "(k, v) \<in> set m \<Longrightarrow> cbor_nesting v < cbor_nesting (CMap m)"
proof -
  assume a: "(k, v) \<in> set m"
  have "\<forall>x \<in> set (map (\<lambda>(k, v). max (cbor_nesting k) (cbor_nesting v)) m).
      x \<le> foldr max (map (\<lambda>(k, v). max (cbor_nesting k) (cbor_nesting v)) m) 0"
    using foldr_max_le[of "map (\<lambda>(k, v). max (cbor_nesting k) (cbor_nesting v)) m"] by blast
  then have "max (cbor_nesting k) (cbor_nesting v) \<le> foldr max (map (\<lambda>(k, v). max (cbor_nesting k) (cbor_nesting v)) m) 0"
    using a by force
  then show ?thesis by (simp add: less_Suc_eq_le)
qed

lemma array_nesting: "x \<in> set xs \<Longrightarrow> cbor_nesting x < cbor_nesting (CArray xs)"
  using foldr_max_le[of "map cbor_nesting xs"] by (auto simp: less_Suc_eq_le)

lemma nested_composite_Some:
  "nested_composite m = Some (i, w) \<Longrightarrow> m = [(CInt i, w)] \<and> i \<in> set composite_ids"
  by (cases m rule: nested_composite.cases) (auto split: if_splits)

lemma array_value_Inr [simp]: "array_value e v = Inr xs \<longleftrightarrow> v = CArray xs"
  by (cases v) auto

lemma map_value_Inr [simp]: "map_value e v = Inr m \<longleftrightarrow> v = CMap m"
  by (cases v) auto

lemma decode_one_read: "decode_one E bs = Inr v \<Longrightarrow> ce_read E bs = Inr (v, length bs) \<or> (\<exists>n. ce_read E bs = Inr (v, n))"
  by (auto simp: decode_one_def split: if_splits)

text \<open>A payload and a composite claim of nesting below the fuel are decoded.\<close>

lemma decode_payload_runs:
  assumes laws: "codec_laws E"
  shows "(\<And>v. decode_one E bs = Inr v \<Longrightarrow> cbor_nesting v < f) \<Longrightarrow> 0 < f \<Longrightarrow> f \<le> Suc cbor_max_recursion_depth \<Longrightarrow>
        runs L (decode_payload_from f E L bs)"
    and "cbor_nesting v < f \<Longrightarrow> f \<le> Suc cbor_max_recursion_depth \<Longrightarrow> runs L (decode_composite_claim f E L d k v)"
proof (induction f arbitrary: bs d k v)
  case (Suc f)
  {
    case 1
    have "runs L (decode_claim L (decode_composite_claim f E L 0) kv t)"
      if "decode_one E bs = Inr w" "w = CMap m" "kv \<in> set m" for w m kv t
    proof (rule runs_decode_claim)
      fix i
      have "cbor_nesting (snd kv) < cbor_nesting w" using that(2,3) map_nesting[of "fst kv" "snd kv" m] by simp
      then show "runs L (decode_composite_claim f E L 0 i (snd kv))" using "1.prems"(1)[OF that(1)] "1.prems"(3)
        by (intro Suc.IH(2)) simp_all
    qed
    then show ?case unfolding decode_payload_Suc by (intro runs_intro) auto
  next
    case 2
    have "runs L (decode_payload_from f E L buf)" if "v = CArray xs" "x \<in> set xs" "ce_write E x = Inr buf" for xs x buf
    proof (rule Suc.IH(1))
      have "cbor_nesting x < f" using 2 array_nesting[OF that(2)] that(1) by simp
      then show "0 < f" by simp
      show f: "f \<le> Suc cbor_max_recursion_depth" using 2 by simp
      have "decode_one E buf = Inr x" using decode_one_write[OF laws that(3)] \<open>cbor_nesting x < f\<close> f by simp
      then show "cbor_nesting w < f" if "decode_one E buf = Inr w" for w using that \<open>cbor_nesting x < f\<close> by simp
    qed
    moreover have "runs L (decode_composite_claim f E L (Suc d) i w)"
      if "v = CArray xs" "CMap m \<in> set xs" "nested_composite m = Some (i, w)" for xs m i w
      using 2 array_nesting[OF that(2)] that(1) map_nesting[of "CInt i" w m] nested_composite_Some[OF that(3)]
      by (intro Suc.IH(2)) simp_all
    ultimately show ?case unfolding decode_composite_Suc by (intro runs_intro) auto
  }
qed (simp_all)

text \<open>More fuel gives the same answer.\<close>

definition dagrees :: "'a decode \<Rightarrow> 'a decode \<Rightarrow> bool" where
  "dagrees m m' \<longleftrightarrow> (\<forall>c. agrees (m c) (m' c))"

lemma dagrees_refl [simp]: "dagrees m m"
  by (simp add: dagrees_def)

lemma dagrees_dbind: "dagrees m m' \<Longrightarrow> (\<And>a. dagrees (k a) (k' a)) \<Longrightarrow> dagrees (dbind m k) (dbind m' k')"
  unfolding dagrees_def dbind_def by (auto intro!: agrees_obind)

lemma dagrees_dfold: "(\<And>x s. dagrees (f x s) (g x s)) \<Longrightarrow> dagrees (dfold f xs s) (dfold g xs s)"
  by (induction xs arbitrary: s) (simp_all add: dagrees_dbind)

lemma dagrees_decode_claim:
  "(\<And>i w. dagrees (d i w) (d' i w)) \<Longrightarrow> dagrees (decode_claim L d kv t) (decode_claim L d' kv t)"
  unfolding decode_claim_def decode_claim_value_def by (auto intro!: dagrees_dbind)

lemma decode_payload_agrees:
  "f \<le> f' \<Longrightarrow> dagrees (decode_payload_from f E L bs) (decode_payload_from f' E L bs)"
  "f \<le> f' \<Longrightarrow> dagrees (decode_composite_claim f E L d k v) (decode_composite_claim f' E L d k v)"
proof (induction f arbitrary: f' bs d k v)
  case 0
  {
    case 1 show ?case by (simp add: dagrees_def decode_payload_0)
  next
    case 2 show ?case by (simp add: dagrees_def decode_composite_0)
  }
next
  case (Suc f)
  {
    case 1
    then obtain g where g: "f' = Suc g" "f \<le> g" by (cases f') auto
    show ?case unfolding g(1) decode_payload_Suc
      by (auto intro!: dagrees_dbind dagrees_dfold dagrees_decode_claim Suc.IH(2)[OF g(2)])
  next
    case 2
    then obtain g where g: "f' = Suc g" "f \<le> g" by (cases f') auto
    show ?case unfolding g(1) decode_composite_Suc
      by (auto intro!: dagrees_dbind dagrees_dfold Suc.IH[OF g(2)] split: option.split)
  }
qed

text \<open>C26: decoding a payload ends, whatever the bytes: with the recursion limit of the reader, fuel for
  one more level than the limit gives an answer that more fuel does not change, and when a token
  comes out the items, string bytes, patterns and regular expressions counted over the whole of it,
  nested claim sets included, are within the limits.\<close>

theorem decode_payload_ends:
  assumes "codec_laws E" "reader_bounded E"
  shows "\<exists>r. decode_payload_from (Suc cbor_max_recursion_depth + k) E L bs counters_zero = Some r \<and>
     decode_payload_with_limits E L bs = rbind r (\<lambda>(t, _). Inr t) \<and>
     (\<forall>t c. r = Inr (t, c) \<longrightarrow> counters_ok L c)"
proof -
  have "cbor_nesting v < Suc cbor_max_recursion_depth" if "decode_one E bs = Inr v" for v
    using assms(2) decode_one_read[OF that] unfolding reader_bounded_def by (auto simp: less_Suc_eq_le)
  then have "runs L (decode_payload_from (Suc cbor_max_recursion_depth) E L bs)"
    by (intro decode_payload_runs(1)[OF assms(1)]) auto
  moreover have z: "counters_ok L counters_zero" by (simp add: counters_ok_def counters_zero_def)
  ultimately obtain r where r: "decode_payload_from (Suc cbor_max_recursion_depth) E L bs counters_zero = Some r"
    and c: "\<And>t c. r = Inr (t, c) \<Longrightarrow> counters_ok L c"
    unfolding runs_def ended_def by blast
  have "decode_payload_from (Suc cbor_max_recursion_depth + k) E L bs counters_zero = Some r"
    using decode_payload_agrees(1)[of "Suc cbor_max_recursion_depth" "Suc cbor_max_recursion_depth + k" E L bs] r
    unfolding dagrees_def agrees_def ended_def by (metis le_add1 option.distinct(1))
  moreover have "decode_payload_with_limits E L bs = rbind r (\<lambda>(t, _). Inr t)"
    using r by (simp add: decode_payload_with_limits_def del: decode_payload_from.simps)
  ultimately show ?thesis using c by blast
qed

end
