(* ===== verification/Cwt_Encode.thy ===== *)
theory Cwt_Encode
  imports Cwt_Decode
begin

text \<open>
  \<open>Cwt::encode_payload\<close> of \<open>src/src/cwt.rs\<close>: the entry each claim writes, in the order of the code,
  the \<open>BTreeMap\<close> they are inserted into (an association list kept in ascending order of the keys),
  and the claim sets of composite claims. A step returns no value where the encoder of a network
  prefix panics.
\<close>

section \<open>The map of claims\<close>

fun bt_insert :: "int \<Rightarrow> cbor \<Rightarrow> (int \<times> cbor) list \<Rightarrow> (int \<times> cbor) list" where
  "bt_insert k v [] = [(k, v)]"
| "bt_insert k v ((j, w) # m) =
     (if k < j then (k, v) # (j, w) # m
      else if k = j then (k, v) # m
      else (j, w) # bt_insert k v m)"

definition btree_of :: "(int \<times> cbor) list \<Rightarrow> (int \<times> cbor) list" where
  "btree_of es = fold (\<lambda>(k, v). bt_insert k v) es []"

type_synonym entries = "(int \<times> cbor) list"

text \<open>\<open>if let Some(x) = field { map.insert(key, f(x)); }\<close>\<close>

definition put :: "int \<Rightarrow> ('a \<Rightarrow> cbor) \<Rightarrow> 'a option \<Rightarrow> entries result option" where
  "put k f m = Some (Inr (case m of None \<Rightarrow> [] | Some x \<Rightarrow> [(k, f x)]))"

definition put_r :: "int \<Rightarrow> ('a \<Rightarrow> cbor result option) \<Rightarrow> 'a option \<Rightarrow> entries result option" where
  "put_r k f m =
     (case m of None \<Rightarrow> Some (Inr []) | Some x \<Rightarrow> obind (f x) (\<lambda>v. Some (Inr [(k, v)])))"

fun in_order :: "entries result option list \<Rightarrow> entries result option" where
  "in_order [] = Some (Inr [])"
| "in_order (m # ms) = obind m (\<lambda>es. obind (in_order ms) (\<lambda>fs. Some (Inr (es @ fs))))"

section \<open>The claims\<close>

definition text_array :: "string list \<Rightarrow> cbor" where
  "text_array ss = CArray (map CText ss)"

definition encode_catpor :: "probability_of_rejection \<Rightarrow> cbor result" where
  "encode_catpor p =
     rbind (validate_float (por_probability p) ''catpor.probability'') (\<lambda>_.
       Inr (CArray ([encode_number_shortest (por_probability p), CBytes (por_id p)] @
         (case por_expiration p of Some e \<Rightarrow> [CInt e] | None \<Rightarrow> []))))"

fun encode_nips :: "network_identifier list \<Rightarrow> cbor list option" where
  "encode_nips [] = Some []"
| "encode_nips (n # ns) =
     (case encode_network_identifier n of
        None \<Rightarrow> None
      | Some v \<Rightarrow> (case encode_nips ns of None \<Rightarrow> None | Some vs \<Rightarrow> Some (v # vs)))"

definition encode_catnip :: "network_identifier list \<Rightarrow> cbor result option" where
  "encode_catnip ns = map_option (\<lambda>vs. Inr (CArray vs)) (encode_nips ns)"

definition encode_matches :: "match_value list \<Rightarrow> cbor" where
  "encode_matches ms = CMap (sort_integer_keyed_map (map encode_match_value ms))"

definition encode_catu :: "uri_match_rule list \<Rightarrow> cbor" where
  "encode_catu rs =
     CMap (sort_integer_keyed_map (map (\<lambda>r. (CInt (ur_component r), encode_matches (ur_matches r))) rs))"

definition encode_cath :: "header_match_rule list \<Rightarrow> cbor" where
  "encode_cath rs = CMap (map (\<lambda>r. (CText (hr_name r), encode_matches (hr_matches r))) rs)"

definition encode_catgeocoord :: "geo_coordinate list \<Rightarrow> cbor result" where
  "encode_catgeocoord gs =
     rbind (for_each (\<lambda>g. rbind (validate_float (geo_lat g) ''catgeocoord.lat'')
              (\<lambda>_. validate_float (geo_lon g) ''catgeocoord.lon'')) gs) (\<lambda>_.
       Inr (CArray (map (\<lambda>g. CArray [encode_number_shortest (geo_lat g), encode_number_shortest (geo_lon g),
              CInt (uint (geo_radius g))]) gs)))"

text \<open>A list of one text is written as the text.\<close>

definition text_or_array :: "string list \<Rightarrow> cbor" where
  "text_or_array ss = (case ss of [s] \<Rightarrow> CText s | _ \<Rightarrow> text_array ss)"

definition encode_catgeoalt :: "geo_altitude \<Rightarrow> cbor result" where
  "encode_catgeoalt g =
     rbind (validate_float (ga_altitude g) ''catgeoalt.altitude'') (\<lambda>_.
     rbind (validate_float (ga_deviation g) ''catgeoalt.deviation'') (\<lambda>_.
       Inr (CArray [encode_number_shortest (ga_altitude g), encode_number_shortest (ga_deviation g)])))"

text \<open>An empty map is not inserted.\<close>

definition put_map :: "int \<Rightarrow> ('a \<Rightarrow> (cbor \<times> cbor) list) \<Rightarrow> 'a option \<Rightarrow> entries result option" where
  "put_map k f m =
     Some (Inr (case m of None \<Rightarrow> [] | Some x \<Rightarrow> (if f x = [] then [] else [(k, CMap (f x))])))"

definition opt_pair :: "int \<Rightarrow> ('a \<Rightarrow> cbor) \<Rightarrow> 'a option \<Rightarrow> (cbor \<times> cbor) list" where
  "opt_pair k f m = (case m of None \<Rightarrow> [] | Some x \<Rightarrow> [(CInt k, f x)])"

definition encode_cnf :: "confirmation_claim \<Rightarrow> (cbor \<times> cbor) list" where
  "encode_cnf c =
     opt_pair CNF_CKT CBytes (cnf_ckt c) @
     (if cnf_jkt c \<noteq> [] then [(CInt CNF_JKT, CBytes (cnf_jkt c))] else [])"

definition encode_catdpop :: "catdpop_settings \<Rightarrow> (cbor \<times> cbor) list" where
  "encode_catdpop s =
     opt_pair CATDPOP_WINDOW CInt (dp_window s) @
     opt_pair CATDPOP_HONOR_JTI (\<lambda>h. CInt (if h then 1 else 0)) (dp_honor_jti s) @
     opt_pair CATDPOP_CRIT (\<lambda>ks. CArray (map CInt ks)) (dp_crit s)"

definition encode_if_action :: "cat_if_action \<Rightarrow> cbor" where
  "encode_if_action a =
     CArray ([CInt (uint (ia_status a))] @
       (case ia_headers a of
          Some hs \<Rightarrow> [CMap (map (\<lambda>(k, v). (CText k, CText v)) hs)]
        | None \<Rightarrow> []) @
       (case ia_kid a of
          Some kid \<Rightarrow> (if ia_headers a = None then [CMap []] else []) @ [CText kid]
        | None \<Rightarrow> []))"

definition encode_catif :: "(int \<times> cat_if_action) list \<Rightarrow> cbor" where
  "encode_catif as = CMap (map (\<lambda>(k, a). (CInt k, encode_if_action a)) (sort_key fst as))"

fun renewal_type_u32 :: "cat_renewal_type \<Rightarrow> int" where
  "renewal_type_u32 RenewAutomatic = 0"
| "renewal_type_u32 RenewCookie = 1"
| "renewal_type_u32 RenewHeader = 2"
| "renewal_type_u32 RenewRedirect = 3"

definition catr_entries :: "cat_renewal \<Rightarrow> (cbor \<times> cbor) list" where
  "catr_entries r =
     [(CInt CATR_TYPE, CInt (renewal_type_u32 (rn_type r)))] @
     opt_pair CATR_EXPADD encode_number_shortest (rn_expadd r) @
     opt_pair CATR_DEADLINE encode_number_shortest (rn_deadline r) @
     opt_pair CATR_COOKIE_NAME CText (rn_cookie_name r) @
     opt_pair CATR_HEADER_NAME CText (rn_header_name r) @
     opt_pair CATR_ADDITIONAL_COOKIE_PARAMS text_array (rn_cookie_params r) @
     opt_pair CATR_ADDITIONAL_HEADER_PARAMS text_array (rn_header_params r) @
     opt_pair CATR_STATUS_CODE (\<lambda>c. CInt (uint c)) (rn_status_code r)"

definition encode_catr :: "cat_renewal \<Rightarrow> cbor" where
  "encode_catr r = CMap (catr_entries r)"

text \<open>The loop over the namespace matches of a scope.\<close>

fun encode_namespaces :: "bool \<Rightarrow> namespace_match list \<Rightarrow> cbor list result" where
  "encode_namespaces seen_nil [] = Inr []"
| "encode_namespaces seen_nil (n # ns) =
     (if seen_nil then Inl (InvalidClaimValue ''Namespace nil must be the last element'')
      else rbind (encode_namespace_match n) (\<lambda>v.
           rbind (encode_namespaces (n = NmNil) ns) (\<lambda>vs. Inr (v # vs))))"

definition encode_scope :: "moqt_scope \<Rightarrow> cbor result" where
  "encode_scope s =
     (if actions s = [] then Inl (InvalidClaimValue ''MOQT scope must have at least one action'')
      else
        rbind (if namespace_matches s = [] then Inr []
               else rbind (encode_namespaces False (namespace_matches s)) (\<lambda>vs. Inr [CArray vs])) (\<lambda>ns.
        rbind (case track_match s of
                 None \<Rightarrow> Inr []
               | Some m \<Rightarrow>
                   (if match_type m = BmAny
                    then Inl (InvalidClaimValue ''Track wildcard must use Option::None, not BinaryMatch::Any'')
                    else rbind (encode_binary_match m) (\<lambda>v.
                         Inr ((if namespace_matches s = [] then [CArray []] else []) @ [v])))) (\<lambda>tm.
          Inr (CArray ([CArray (map (\<lambda>a. CInt (moqt_action_i32 a)) (actions s))] @ ns @ tm)))))"

definition encode_moqt :: "moqt_scope list \<Rightarrow> cbor result" where
  "encode_moqt ss = rbind (map_r encode_scope ss) (\<lambda>vs. Inr (CArray vs))"

definition encode_moqt_reval :: "f64 \<Rightarrow> cbor result" where
  "encode_moqt_reval x = rbind (validate_float x ''moqt_reval'') (\<lambda>_. Inr (encode_number_shortest x))"

section \<open>The payload\<close>

text \<open>The claims of one token that is not a claim set of a composite claim, up to \<open>moqt_reval\<close>.\<close>

definition flat_steps ::
  "core_claims \<Rightarrow> cat_claims \<Rightarrow> informational_claims \<Rightarrow> dpop_claims \<Rightarrow> request_claims \<Rightarrow> moqt_claims \<Rightarrow>
     entries result option list" where
  "flat_steps co ca i d r m =
     [put CLAIM_ISS CText (c_iss co),
      put CLAIM_AUD text_array (c_aud co),
      put CLAIM_EXP CInt (c_exp co),
      put CLAIM_NBF CInt (c_nbf co),
      put CLAIM_CTI CBytes (c_cti co),
      put CLAIM_CATREPLAY (\<lambda>x. CInt (uint (replay_protection_u32 x))) (catreplay ca),
      put_r CLAIM_CATPOR (\<lambda>x. Some (encode_catpor x)) (catpor ca),
      put CLAIM_CATV (\<lambda>x. CInt (uint x)) (catv ca),
      put_r CLAIM_CATNIP encode_catnip (catnip ca),
      put CLAIM_CATU encode_catu (catu ca),
      put CLAIM_CATM text_array (catm ca),
      put CLAIM_CATALPN (\<lambda>xs. CArray (map CBytes xs)) (catalpn ca),
      put CLAIM_CATH encode_cath (cath ca),
      put CLAIM_CATGEOISO3166 text_array (catgeoiso3166 ca),
      put_r CLAIM_CATGEOCOORD (\<lambda>x. Some (encode_catgeocoord x)) (catgeocoord ca),
      put CLAIM_GEOHASH text_or_array (geohash ca),
      put_r CLAIM_CATGEOALT (\<lambda>x. Some (encode_catgeoalt x)) (catgeoalt ca),
      put CLAIM_CATTPK CBytes (cattpk ca),
      put CLAIM_SUB CText (i_sub i),
      put CLAIM_IAT CInt (i_iat i),
      put CLAIM_CATIFDATA text_or_array (catifdata i),
      put_map CLAIM_CNF encode_cnf (cnf d),
      put_map CLAIM_CATDPOP encode_catdpop (catdpop d),
      put CLAIM_CATIF encode_catif (catif r),
      put CLAIM_CATR encode_catr (catr r),
      put_r CLAIM_MOQT (\<lambda>x. Some (encode_moqt x)) (mq_moqt m),
      put_r CLAIM_MOQT_REVAL (\<lambda>x. Some (encode_moqt_reval x)) (mq_reval m)]"

definition encode_flat_claims ::
  "core_claims \<Rightarrow> cat_claims \<Rightarrow> informational_claims \<Rightarrow> dpop_claims \<Rightarrow> request_claims \<Rightarrow> moqt_claims \<Rightarrow>
     entries result option" where
  "encode_flat_claims co ca i d r m = in_order (flat_steps co ca i d r m)"

fun operator_id :: "composite_operator \<Rightarrow> int" where
  "operator_id OpOr = CLAIM_OR"
| "operator_id OpNor = CLAIM_NOR"
| "operator_id OpAnd = CLAIM_AND"

text \<open>The last step: the map in ascending order, as bytes.\<close>

definition write_claims :: "codec_env \<Rightarrow> entries \<Rightarrow> bytes result" where
  "write_claims E es = ce_write E (CMap (map (\<lambda>(k, v). (CInt k, v)) (btree_of es)))"

fun encode_payload_token :: "codec_env \<Rightarrow> cat_token \<Rightarrow> bytes result option"
  and encode_composite_claim :: "codec_env \<Rightarrow> composite_claim \<Rightarrow> cbor result option"
  and encode_claim_sets :: "codec_env \<Rightarrow> claim_set list \<Rightarrow> cbor list result option" where
  "encode_payload_token E (CatToken co ca i d r (CompositeClaims c_or c_nor c_and) m u) =
     obind (encode_flat_claims co ca i d r m) (\<lambda>es.
     obind (case c_or of None \<Rightarrow> Some (Inr [])
            | Some c \<Rightarrow> obind (encode_composite_claim E c) (\<lambda>v. Some (Inr [(CLAIM_OR, v)]))) (\<lambda>os.
     obind (case c_nor of None \<Rightarrow> Some (Inr [])
            | Some c \<Rightarrow> obind (encode_composite_claim E c) (\<lambda>v. Some (Inr [(CLAIM_NOR, v)]))) (\<lambda>ns.
     obind (case c_and of None \<Rightarrow> Some (Inr [])
            | Some c \<Rightarrow> obind (encode_composite_claim E c) (\<lambda>v. Some (Inr [(CLAIM_AND, v)]))) (\<lambda>as.
       Some (write_claims E (es @ os @ ns @ as @ u))))))"
| "encode_composite_claim E (CompositeClaim oper css) =
     obind (encode_claim_sets E css) (\<lambda>vs. Some (Inr (CArray vs)))"
| "encode_claim_sets E [] = Some (Inr [])"
| "encode_claim_sets E (CsToken t # css) =
     obind (encode_payload_token E t) (\<lambda>b.
     obind (Some (rbind (ce_read E b) (\<lambda>(v, _). Inr v))) (\<lambda>v.
     obind (encode_claim_sets E css) (\<lambda>vs. Some (Inr (v # vs)))))"
| "encode_claim_sets E (CsComposite c # css) =
     obind (encode_composite_claim E c) (\<lambda>v.
     obind (encode_claim_sets E css) (\<lambda>vs.
       Some (Inr (CMap [(CInt (operator_id (cc_op c)), v)] # vs))))"

end
