(* ===== verification/Cwt_Roundtrip.thy ===== *)
theory Cwt_Roundtrip
  imports Cwt_Encode
begin

text \<open>
  What \<open>encode_payload\<close> writes, \<open>decode_payload_with_limits\<close> reads back. A decoder step is described
  by what it returns and what it counts; the tokens the wire form can carry are those that meet the
  conditions of \<open>claims_wire\<close>.
\<close>

section \<open>What a step counts\<close>

definition cadd :: "decode_counters \<Rightarrow> decode_counters \<Rightarrow> decode_counters" where
  "cadd c d = \<lparr>dc_items = dc_items c + dc_items d, dc_string_bytes = dc_string_bytes c + dc_string_bytes d,
     dc_regexes = dc_regexes c + dc_regexes d, dc_uri_patterns = dc_uri_patterns c + dc_uri_patterns d\<rparr>"

definition csum :: "decode_counters list \<Rightarrow> decode_counters" where
  "csum cs = foldr cadd cs counters_zero"

definition citem :: decode_counters where "citem = counters_zero\<lparr>dc_items := 1\<rparr>"
definition cstring :: "string \<Rightarrow> decode_counters" where "cstring s = counters_zero\<lparr>dc_string_bytes := length s\<rparr>"
definition cregex :: decode_counters where "cregex = counters_zero\<lparr>dc_regexes := 1\<rparr>"
definition curi :: decode_counters where "curi = counters_zero\<lparr>dc_uri_patterns := 1\<rparr>"

lemma cadd_zero [simp]: "cadd counters_zero c = c" "cadd c counters_zero = c"
  by (simp_all add: cadd_def counters_zero_def)

lemma cadd_assoc: "cadd (cadd a b) c = cadd a (cadd b c)"
  by (simp add: cadd_def)

lemma cadd_commute: "cadd a b = cadd b a"
  by (simp add: cadd_def)

lemma csum_simps [simp]: "csum [] = counters_zero" "csum (c # cs) = cadd c (csum cs)"
  by (simp_all add: csum_def)

lemma csum_append: "csum (cs @ ds) = cadd (csum cs) (csum ds)"
  by (induction cs) (simp_all add: cadd_assoc)

lemma counters_ok_cadd: "counters_ok L (cadd c d) \<Longrightarrow> counters_ok L c"
  by (auto simp: counters_ok_def cadd_def)

definition costs :: "cwt_limits \<Rightarrow> 'a decode \<Rightarrow> 'a \<Rightarrow> decode_counters \<Rightarrow> bool" where
  "costs L m a d \<longleftrightarrow> (\<forall>c. counters_ok L (cadd c d) \<longrightarrow> m c = Some (Inr (a, cadd c d)))"

lemma costs_dret: "costs L (dret a) a counters_zero"
  by (simp add: costs_def dret_def)

lemma costs_dlift: "m = Inr a \<Longrightarrow> costs L (dlift m) a counters_zero"
  by (simp add: costs_def dlift_def)

lemma costs_dbind:
  assumes "costs L m a d" "costs L (k a) b d'"
  shows "costs L (dbind m k) b (cadd d d')"
  unfolding costs_def
proof (intro allI impI)
  fix c assume ok: "counters_ok L (cadd c (cadd d d'))"
  then have ok': "counters_ok L (cadd (cadd c d) d')" by (simp only: cadd_assoc)
  then have "m c = Some (Inr (a, cadd c d))"
    using assms(1) counters_ok_cadd unfolding costs_def by blast
  moreover have "k a (cadd c d) = Some (Inr (b, cadd (cadd c d) d'))"
    using assms(2) ok' unfolding costs_def by blast
  ultimately show "dbind m k c = Some (Inr (b, cadd c (cadd d d')))"
    by (simp add: dbind_def cadd_assoc)
qed

lemma costs_dbind0: "costs L m a counters_zero \<Longrightarrow> costs L (k a) b d \<Longrightarrow> costs L (dbind m k) b d"
  using costs_dbind[of L m a counters_zero k b d] by simp

lemma costs_last: "costs L m a d \<Longrightarrow> f a = b \<Longrightarrow> costs L (dbind m (\<lambda>x. dret (f x))) b d"
  using costs_dbind[of L m a d "\<lambda>x. dret (f x)" b counters_zero] costs_dret[of L "f a"] by simp

lemma costs_count:
  "costs L (count_item L) () citem"
  "costs L (count_string L (length s)) () (cstring s)"
  "costs L (count_regex L) () cregex"
  "costs L (count_uri_pattern L) () curi"
  by (auto simp: costs_def count_item_def count_string_def count_regex_def count_uri_pattern_def Let_def
      citem_def cstring_def cregex_def curi_def counters_zero_def cadd_def counters_ok_def dret_def)

lemma costs_dmap:
  "(\<And>x. x \<in> set xs \<Longrightarrow> costs L (f (enc x)) x (g x)) \<Longrightarrow> costs L (dmap f (map enc xs)) xs (csum (map g xs))"
proof (induction xs)
  case Nil
  then show ?case by (simp add: costs_dret)
next
  case (Cons x xs)
  have "costs L (dmap f (map enc xs)) xs (csum (map g xs))" using Cons by simp
  then have "costs L (dbind (dmap f (map enc xs)) (\<lambda>ys. dret (x # ys))) (x # xs) (csum (map g xs))"
    by (rule costs_last) simp
  with Cons.prems[of x] show ?case by (simp add: costs_dbind)
qed

section \<open>Texts and dates\<close>

lemma costs_limited_text: "length s \<le> max_string_claim_length L \<Longrightarrow> costs L (dlimited_text L name s) s (cstring s)"
  unfolding dlimited_text_def
  by (intro costs_dbind0[OF costs_dlift] costs_last[OF costs_count(2)])
     (simp_all add: validate_string_length_def)

lemma costs_text_claim:
  "length s \<le> max_string_claim_length L \<Longrightarrow> costs L (decode_text_claim L claim name (CText s)) s (cstring s)"
  unfolding decode_text_claim_def by (simp add: costs_dbind0[OF costs_dlift] costs_limited_text)

lemma costs_date: "in_i64 n \<Longrightarrow> costs L (decode_date name (CInt n)) n counters_zero"
  unfolding decode_date_def by (simp add: costs_dbind0[OF costs_dlift] costs_dlift)

lemma costs_bytes: "costs L (decode_bytes_claim name what (CBytes b)) b counters_zero"
  unfolding decode_bytes_claim_def by (simp add: costs_dbind0[OF costs_dlift] costs_dlift)

definition aud_cost :: "string list \<Rightarrow> decode_counters" where
  "aud_cost as = csum (map (\<lambda>s. cadd citem (cstring s)) as)"

lemma costs_aud:
  assumes "list_all (\<lambda>s. length s \<le> max_string_claim_length L) as"
  shows "costs L (decode_aud L (text_array as)) as (aud_cost as)"
proof -
  have "costs L (dmap (\<lambda>x. dbind (count_item L) (\<lambda>_.
             case x of CText s \<Rightarrow> dlimited_text L ''audience'' s
             | _ \<Rightarrow> dfail (InvalidClaimValue ''aud array items must be text strings''))) (map CText as)) as
       (csum (map (\<lambda>s. cadd citem (cstring s)) as))"
    by (rule costs_dmap) (use assms in \<open>auto simp: list_all_iff intro!: costs_dbind costs_count costs_limited_text\<close>)
  then show ?thesis unfolding decode_aud_def text_array_def aud_cost_def
    by (simp add: costs_dbind0[OF costs_dlift])
qed

lemma costs_catreplay: "costs L (decode_catreplay (CInt (uint (replay_protection_u32 r)))) r counters_zero"
  unfolding decode_catreplay_def
  by (simp add: costs_dbind0[OF costs_dlift] costs_dlift u32_roundtrip del: u32_value.simps)

lemma costs_catv: "costs L (decode_catv (CInt (uint n))) n counters_zero"
  unfolding decode_catv_def
  by (simp add: costs_dbind0[OF costs_dlift] costs_dlift u32_roundtrip del: u32_value.simps)

definition por_wire :: "probability_of_rejection \<Rightarrow> bool" where
  "por_wire p \<longleftrightarrow> f64_plain (por_probability p) \<and> f64_in_range 0 1 (por_probability p) \<and>
     (\<forall>e. por_expiration p = Some e \<longrightarrow> in_i64 e)"

lemma costs_catpor:
  assumes "por_wire p" "encode_catpor p = Inr v"
  shows "costs L (decode_catpor v) p counters_zero"
proof -
  have v: "v = CArray ([encode_number_shortest (por_probability p), CBytes (por_id p)] @
         (case por_expiration p of Some e \<Rightarrow> [CInt e] | None \<Rightarrow> []))"
    using assms(2) by (simp add: encode_catpor_def)
  have "\<exists>r. por_probability p = Fin r" using assms(1) by (auto simp: por_wire_def f64_plain_def)
  then show ?thesis using assms(1) unfolding v decode_catpor_def
    by (cases p) (auto simp: por_wire_def number_roundtrip validate_float_ok
        intro!: costs_dbind0[OF costs_dlift] costs_dlift split: option.splits)
qed

section \<open>Match rules and network identifiers\<close>

definition items_cost :: "'a list \<Rightarrow> decode_counters" where
  "items_cost xs = csum (map (\<lambda>_. citem) xs)"

lemma costs_items:
  assumes "\<And>x. x \<in> set xs \<Longrightarrow> dec (enc x) = Inr x"
  shows "costs L (dmap (\<lambda>v. dbind (count_item L) (\<lambda>_. dlift (dec v))) (map enc xs)) xs (items_cost xs)"
  unfolding items_cost_def
proof (rule costs_dmap)
  fix x assume "x \<in> set xs"
  then have "costs L (dlift (dec (enc x))) x counters_zero" by (intro costs_dlift assms)
  then show "costs L (dbind (count_item L) (\<lambda>_. dlift (dec (enc x)))) x citem"
    using costs_dbind[OF costs_count(1)] by fastforce
qed

lemma encode_nips_Some:
  "list_all nip_wire ns \<Longrightarrow> \<exists>vs. encode_nips ns = Some vs \<and> list_all2 (\<lambda>n v. decode_network_identifier v = Inr n) ns vs"
proof (induction ns)
  case (Cons n ns)
  then obtain v vs where "encode_network_identifier n = Some v" "decode_network_identifier v = Inr n"
    "encode_nips ns = Some vs" "list_all2 (\<lambda>n v. decode_network_identifier v = Inr n) ns vs"
    using nip_roundtrip[of n] by auto
  then show ?case by simp
qed simp

definition catnip_wire :: "cwt_limits \<Rightarrow> network_identifier list \<Rightarrow> bool" where
  "catnip_wire L ns \<longleftrightarrow> list_all nip_wire ns \<and> length ns \<le> max_catnip_entries L"

lemma costs_catnip:
  assumes "catnip_wire L ns" "encode_catnip ns = Some (Inr v)"
  shows "costs L (decode_catnip L v) ns (items_cost ns)"
proof -
  obtain vs where vs: "v = CArray vs" "list_all2 (\<lambda>n v. decode_network_identifier v = Inr n) ns vs"
    using assms encode_nips_Some[of ns] by (auto simp: encode_catnip_def catnip_wire_def)
  have "costs L (dmap (\<lambda>x. dbind (count_item L) (\<lambda>_. dlift (decode_network_identifier x))) vs) ns (items_cost ns)"
    using vs(2) unfolding items_cost_def
  proof (induction ns vs rule: list_all2_induct)
    case Nil
    then show ?case by (simp add: costs_dret)
  next
    case (Cons n ns v vs)
    have "costs L (dbind (count_item L) (\<lambda>_. dlift (decode_network_identifier v))) n citem"
      using costs_dbind[OF costs_count(1) costs_dlift[OF Cons(1)]] by simp
    moreover have "costs L (dbind (dmap (\<lambda>x. dbind (count_item L) (\<lambda>_. dlift (decode_network_identifier x))) vs)
        (\<lambda>ys. dret (n # ys))) (n # ns) (csum (map (\<lambda>_. citem) ns))"
      by (rule costs_last[OF Cons(3)]) simp
    ultimately show ?case by (simp add: costs_dbind)
  qed
  moreover have "length vs = length ns" using vs(2) by (simp add: list_all2_lengthD)
  ultimately show ?thesis using assms(1) unfolding decode_catnip_def vs(1) catnip_wire_def
    by (simp add: costs_dbind0[OF costs_dlift])
qed

text \<open>Sorting a sorted list.\<close>

lemma sort_by_sorted: "sorted_wrt (\<lambda>a b. cmp a b \<noteq> Greater) xs \<Longrightarrow> sort_by cmp xs = xs"
proof (induction xs)
  case (Cons x xs)
  then show ?case by (cases xs) (simp_all add: sort_by_def)
qed (simp add: sort_by_def)

lemma canon_less_cmp: "canon_less a b \<Longrightarrow> cbor_canonical_key_cmp a b = Less"
  by (auto simp: canon_less_iff cbor_canonical_key_cmp_def int_cmp_def split: if_splits)

lemma sort_integer_keyed_sorted:
  assumes "sorted_wrt canon_less (map (key_i64 \<circ> fst) m)"
  shows "sort_integer_keyed_map m = m"
  unfolding sort_integer_keyed_map_def
proof (rule sort_by_sorted)
  show "sorted_wrt (\<lambda>a b. (case a of (a, _) \<Rightarrow> \<lambda>(b, _). cbor_canonical_key_cmp (key_i64 a) (key_i64 b)) b \<noteq> Greater) m"
    using assms unfolding sorted_wrt_map
    by (rule sorted_wrt_mono_rel[rotated]) (auto simp: canon_less_cmp)
qed

definition match_key :: "match_value \<Rightarrow> int" where
  "match_key m = key_i64 (fst (encode_match_value m))"

definition matches_wire :: "match_value list \<Rightarrow> bool" where
  "matches_wire ms \<longleftrightarrow> sorted_wrt canon_less (map match_key ms)"

definition matches_cost :: "match_value list \<Rightarrow> decode_counters" where
  "matches_cost ms = csum (map (\<lambda>m. if is_regex m then cregex else counters_zero) ms)"

lemma encode_matches_wire: "matches_wire ms \<Longrightarrow> encode_matches ms = CMap (map encode_match_value ms)"
  unfolding encode_matches_def matches_wire_def match_key_def
  by (subst sort_integer_keyed_sorted) (simp_all add: comp_def)

lemma costs_matches: "costs L (decode_matches L (map encode_match_value ms)) ms (matches_cost ms)"
  unfolding decode_matches_def matches_cost_def
proof (rule costs_dmap)
  fix m
  have "costs L (if is_regex m then count_regex L else dret ()) () (if is_regex m then cregex else counters_zero)"
    by (simp add: costs_count costs_dret)
  then have "costs L (dbind (if is_regex m then count_regex L else dret ()) (\<lambda>_. dret m)) m
      (if is_regex m then cregex else counters_zero)" by (rule costs_last) simp
  then have "costs L (dbind (dlift (decode_match_value (fst (encode_match_value m)) (snd (encode_match_value m))))
      (\<lambda>mv. dbind (if is_regex mv then count_regex L else dret ()) (\<lambda>_. dret mv))) m
      (if is_regex m then cregex else counters_zero)"
    by (intro costs_dbind0[OF costs_dlift[OF decode_encode_match_value]])
  then show "costs L (case encode_match_value m of (k, v) \<Rightarrow> dbind (dlift (decode_match_value k v)) (\<lambda>mv.
       dbind (if is_regex mv then count_regex L else dret ()) (\<lambda>_. dret mv))) m
       (if is_regex m then cregex else counters_zero)"
    by (simp add: case_prod_beta)
qed

definition catu_wire :: "uri_match_rule list \<Rightarrow> bool" where
  "catu_wire rs \<longleftrightarrow> list_all (\<lambda>r. in_i64 (ur_component r) \<and> matches_wire (ur_matches r)) rs \<and>
     sorted_wrt canon_less (map ur_component rs)"

definition catu_cost :: "uri_match_rule list \<Rightarrow> decode_counters" where
  "catu_cost rs = csum (map (\<lambda>r. cadd (matches_cost (ur_matches r)) curi) rs)"

lemma catu_wire_encoded:
  assumes "catu_wire rs"
  shows "encode_catu rs = CMap (map (\<lambda>r. (CInt (ur_component r), encode_matches (ur_matches r))) rs)"
proof -
  have "map (key_i64 \<circ> fst) (map (\<lambda>r. (CInt (ur_component r), encode_matches (ur_matches r))) rs) = map ur_component rs"
    using assms by (auto simp: catu_wire_def list_all_iff i64_or_max_def)
  then have "sorted_wrt canon_less (map (key_i64 \<circ> fst) (map (\<lambda>r. (CInt (ur_component r), encode_matches (ur_matches r))) rs))"
    using assms by (simp only: catu_wire_def)
  from sort_integer_keyed_sorted[OF this] show ?thesis unfolding encode_catu_def by simp
qed

lemma costs_catu:
  assumes "catu_wire rs"
  shows "costs L (decode_catu L (encode_catu rs)) rs (catu_cost rs)"
proof -
  have "costs L (dmap (\<lambda>(k, x).
         dbind (dlift (int_value (InvalidClaimValue ''catu map keys must be integers'') k)) (\<lambda>comp.
         dbind (dlift (map_value (InvalidClaimValue ''catu map values must be maps'') x)) (\<lambda>mm.
         dbind (decode_matches L mm) (\<lambda>ms.
         dbind (count_uri_pattern L) (\<lambda>_. dret \<lparr>ur_component = comp, ur_matches = ms\<rparr>)))))
      (map (\<lambda>r. (CInt (ur_component r), encode_matches (ur_matches r))) rs)) rs
      (csum (map (\<lambda>r. cadd (matches_cost (ur_matches r)) curi) rs))"
  proof (rule costs_dmap)
    fix r assume "r \<in> set rs"
    then have r: "in_i64 (ur_component r)" "encode_matches (ur_matches r) = CMap (map encode_match_value (ur_matches r))"
      using assms by (auto simp: catu_wire_def list_all_iff encode_matches_wire)
    have "costs L (dbind (count_uri_pattern L) (\<lambda>_. dret \<lparr>ur_component = ur_component r, ur_matches = ur_matches r\<rparr>)) r curi"
      by (rule costs_last[OF costs_count(4)]) simp
    then have "costs L (dbind (decode_matches L (map encode_match_value (ur_matches r))) (\<lambda>ms.
        dbind (count_uri_pattern L) (\<lambda>_. dret \<lparr>ur_component = ur_component r, ur_matches = ms\<rparr>))) r
        (cadd (matches_cost (ur_matches r)) curi)"
      by (rule costs_dbind[OF costs_matches])
    then show "costs L (case (CInt (ur_component r), encode_matches (ur_matches r)) of (k, x) \<Rightarrow>
         dbind (dlift (int_value (InvalidClaimValue ''catu map keys must be integers'') k)) (\<lambda>comp.
         dbind (dlift (map_value (InvalidClaimValue ''catu map values must be maps'') x)) (\<lambda>mm.
         dbind (decode_matches L mm) (\<lambda>ms.
         dbind (count_uri_pattern L) (\<lambda>_. dret \<lparr>ur_component = comp, ur_matches = ms\<rparr>))))) r
         (cadd (matches_cost (ur_matches r)) curi)"
      unfolding r(2) case_prod_conv
      by (intro costs_dbind0[OF costs_dlift[where a = "ur_component r"]] costs_dbind0[OF costs_dlift[where a = "map encode_match_value (ur_matches r)"]])
         (simp_all add: r(1))
  qed
  then show ?thesis unfolding catu_wire_encoded[OF assms] decode_catu_def catu_cost_def
    by (simp add: costs_dbind0[OF costs_dlift])
qed

definition cath_cost :: "header_match_rule list \<Rightarrow> decode_counters" where
  "cath_cost rs = csum (map (\<lambda>r. matches_cost (hr_matches r)) rs)"

lemma costs_cath:
  assumes "list_all (\<lambda>r. matches_wire (hr_matches r)) rs"
  shows "costs L (decode_cath L (encode_cath rs)) rs (cath_cost rs)"
proof -
  have "costs L (dmap (\<lambda>(k, x).
         dbind (dlift (text_value (InvalidClaimValue ''cath map keys must be text strings'') k)) (\<lambda>name.
         dbind (dlift (map_value (InvalidClaimValue ''cath map values must be maps'') x)) (\<lambda>mm.
         dbind (decode_matches L mm) (\<lambda>ms. dret \<lparr>hr_name = name, hr_matches = ms\<rparr>))))
      (map (\<lambda>r. (CText (hr_name r), encode_matches (hr_matches r))) rs)) rs
      (csum (map (\<lambda>r. matches_cost (hr_matches r)) rs))"
  proof (rule costs_dmap)
    fix r assume "r \<in> set rs"
    then have r: "encode_matches (hr_matches r) = CMap (map encode_match_value (hr_matches r))"
      using assms by (auto simp: list_all_iff encode_matches_wire)
    have "costs L (dbind (decode_matches L (map encode_match_value (hr_matches r)))
        (\<lambda>ms. dret \<lparr>hr_name = hr_name r, hr_matches = ms\<rparr>)) r (matches_cost (hr_matches r))"
      by (rule costs_last[OF costs_matches]) simp
    then show "costs L (case (CText (hr_name r), encode_matches (hr_matches r)) of (k, x) \<Rightarrow>
         dbind (dlift (text_value (InvalidClaimValue ''cath map keys must be text strings'') k)) (\<lambda>name.
         dbind (dlift (map_value (InvalidClaimValue ''cath map values must be maps'') x)) (\<lambda>mm.
         dbind (decode_matches L mm) (\<lambda>ms. dret \<lparr>hr_name = name, hr_matches = ms\<rparr>)))) r
         (matches_cost (hr_matches r))"
      unfolding r case_prod_conv
      by (intro costs_dbind0[OF costs_dlift[where a = "hr_name r"]] costs_dbind0[OF costs_dlift[where a = "map encode_match_value (hr_matches r)"]])
         simp_all
  qed
  then show ?thesis unfolding encode_cath_def decode_cath_def cath_cost_def
    by (simp add: costs_dbind0[OF costs_dlift])
qed

section \<open>Lists of texts, geographic claims\<close>

lemma costs_counted_texts: "costs L (decode_counted_texts L e (map CText ss)) ss (items_cost ss)"
  unfolding decode_counted_texts_def by (rule costs_items) simp

lemma costs_catm: "length ms \<le> 50 \<Longrightarrow> costs L (decode_catm L (text_array ms)) ms (items_cost ms)"
  unfolding decode_catm_def text_array_def
  by (simp add: costs_dbind0[OF costs_dlift] costs_counted_texts)

lemma costs_catalpn: "length as \<le> 50 \<Longrightarrow> costs L (decode_catalpn L (CArray (map CBytes as))) as (items_cost as)"
  unfolding decode_catalpn_def
  by (simp add: costs_dbind0[OF costs_dlift] costs_items)

lemma costs_catgeoiso: "costs L (decode_catgeoiso3166 L (text_array cs)) cs (items_cost cs)"
  unfolding decode_catgeoiso3166_def text_array_def
  by (simp add: costs_dbind0[OF costs_dlift] costs_counted_texts)

definition coord_wire :: "geo_coordinate \<Rightarrow> bool" where
  "coord_wire g \<longleftrightarrow> f64_plain (geo_lat g) \<and> f64_plain (geo_lon g) \<and>
     f64_in_range (- 90) 90 (geo_lat g) \<and> f64_in_range (- 180) 180 (geo_lon g)"

lemma f64_abs_range: "f64_in_range (- b) b x \<Longrightarrow> \<not> f64_abs_gt x b"
  by (cases x) (auto simp: f64_abs_gt_def f64_in_range_def f64_gt_def)

lemma in_range_simps: "f64_plain x \<Longrightarrow> \<exists>r. x = Fin r"
  by (auto simp: f64_plain_def)

lemma decode_encode_zone:
  assumes "coord_wire g"
  shows "decode_zone (CArray [encode_number_shortest (geo_lat g), encode_number_shortest (geo_lon g),
     CInt (uint (geo_radius g))]) = Inr g"
proof -
  have b: "uint (geo_radius g) < 2 ^ 32" "0 \<le> uint (geo_radius g)"
    using unsigned_less[of "geo_radius g", where 'a = int] by simp_all
  have "f64_in_range (- 90) 90 (geo_lat g)" "f64_in_range (- 180) 180 (geo_lon g)"
    and "\<exists>r. geo_lat g = Fin r" "\<exists>r. geo_lon g = Fin r"
    using assms by (auto simp: coord_wire_def in_range_simps)
  then show ?thesis using assms b
    by (simp add: coord_wire_def number_roundtrip validate_float_ok f64_abs_range)
qed

lemma costs_catgeocoord:
  assumes "gs \<noteq> []" "list_all coord_wire gs" "encode_catgeocoord gs = Inr v"
  shows "costs L (decode_catgeocoord L v) (Some gs) (items_cost gs)"
proof -
  have v: "v = CArray (map (\<lambda>g. CArray [encode_number_shortest (geo_lat g), encode_number_shortest (geo_lon g),
              CInt (uint (geo_radius g))]) gs)"
    using assms(3) by (simp add: encode_catgeocoord_def)
  have "costs L (dmap (\<lambda>z. dbind (count_item L) (\<lambda>_. dlift (decode_zone z)))
      (map (\<lambda>g. CArray [encode_number_shortest (geo_lat g), encode_number_shortest (geo_lon g),
              CInt (uint (geo_radius g))]) gs)) gs (items_cost gs)"
    by (rule costs_items) (use assms(2) in \<open>simp add: list_all_iff decode_encode_zone del: decode_zone.simps\<close>)
  then have "costs L (dbind (dmap (\<lambda>z. dbind (count_item L) (\<lambda>_. dlift (decode_zone z)))
      (map (\<lambda>g. CArray [encode_number_shortest (geo_lat g), encode_number_shortest (geo_lon g),
              CInt (uint (geo_radius g))]) gs)) (\<lambda>cs. dret (non_empty cs))) (Some gs) (items_cost gs)"
    by (rule costs_last) (simp add: non_empty_def assms(1))
  then show ?thesis unfolding v decode_catgeocoord_def by (simp add: costs_dbind0[OF costs_dlift])
qed

lemma map_r_texts [simp]: "map_r (text_value e) (map CText ss) = Inr ss"
  by (induction ss) simp_all

lemma text_or_array_cases: "(\<exists>s. ss = [s] \<and> text_or_array ss = CText s) \<or> text_or_array ss = text_array ss"
  by (auto simp: text_or_array_def split: list.split)

lemma costs_geohash: "hs \<noteq> [] \<Longrightarrow> costs L (decode_geohash (text_or_array hs)) (Some hs) counters_zero"
  using text_or_array_cases[of hs] unfolding decode_geohash_def
  by (elim disjE) (auto simp: text_array_def non_empty_def costs_dbind0[OF costs_dlift] costs_dlift)

definition catgeoalt_wire :: "geo_altitude \<Rightarrow> bool" where
  "catgeoalt_wire g \<longleftrightarrow> f64_plain (ga_altitude g) \<and> f64_plain (ga_deviation g)"

lemma costs_catgeoalt:
  assumes "catgeoalt_wire g" "encode_catgeoalt g = Inr v"
  shows "costs L (decode_catgeoalt v) g counters_zero"
proof -
  have v: "v = CArray [encode_number_shortest (ga_altitude g), encode_number_shortest (ga_deviation g)]"
    using assms(2) by (simp add: encode_catgeoalt_def)
  have "\<exists>r. ga_altitude g = Fin r" "\<exists>r. ga_deviation g = Fin r"
    using assms(1) by (auto simp: catgeoalt_wire_def in_range_simps)
  then show ?thesis using assms(1) unfolding v decode_catgeoalt_def
    by (auto simp: catgeoalt_wire_def number_roundtrip validate_float_ok
        intro!: costs_dbind0[OF costs_dlift] costs_dlift)
qed

definition catifdata_cost :: "string list \<Rightarrow> decode_counters" where
  "catifdata_cost ds = (if length ds = 1 then counters_zero else items_cost ds)"

lemma costs_catifdata:
  assumes "ds \<noteq> []"
  shows "costs L (decode_catifdata L (text_or_array ds)) (Some ds) (catifdata_cost ds)"
proof (cases "length ds = 1")
  case True
  then obtain s where "ds = [s]" by (auto simp: length_Suc_conv)
  then show ?thesis unfolding decode_catifdata_def catifdata_cost_def
    by (simp add: text_or_array_def costs_dbind0[OF costs_dlift] costs_dret)
next
  case False
  then have e: "text_or_array ds = text_array ds" using text_or_array_cases[of ds] by auto
  have "costs L (dbind (decode_counted_texts L e' (map CText ds)) (\<lambda>ds. dret (non_empty ds))) (Some ds) (items_cost ds)" for e'
    by (rule costs_last[OF costs_counted_texts]) (simp add: non_empty_def assms)
  then show ?thesis using False unfolding decode_catifdata_def catifdata_cost_def e
    by (simp add: text_array_def costs_dbind0[OF costs_dlift])
qed

section \<open>Key confirmation, DPoP settings\<close>

lemma i64_value_small [simp]: "in_i64 i \<Longrightarrow> i64_value e e' (CInt i) = Inr i"
  by simp

lemma costs_cnf:
  assumes "encode_cnf c \<noteq> []"
  shows "costs L (decode_cnf (CMap (encode_cnf c))) (Some c) counters_zero"
  using assms unfolding decode_cnf_def
  by (cases c; cases "cnf_ckt c")
     (auto simp: encode_cnf_def opt_pair_def cnf_entry_def intro!: costs_dbind0[OF costs_dlift] costs_dlift)

definition catdpop_wire :: "catdpop_settings \<Rightarrow> bool" where
  "catdpop_wire s \<longleftrightarrow> encode_catdpop s \<noteq> [] \<and>
     (\<forall>w. dp_window s = Some w \<longrightarrow> 1 \<le> w \<and> w \<le> catdpop_max_window_secs) \<and>
     (\<forall>ks. dp_crit s = Some ks \<longrightarrow> list_all in_i64 ks) \<and> validate_crit s = Inr ()"

lemma decode_crit_ints: "list_all in_i64 ks \<Longrightarrow> decode_crit (CArray (map CInt ks)) = Inr ks"
proof -
  assume "list_all in_i64 ks"
  then have "map_r (i64_value e e') (map CInt ks) = Inr ks" for e e'
    by (induction ks) simp_all
  then show ?thesis by (simp add: decode_crit_def)
qed

lemma window_in_i64: "1 \<le> w \<Longrightarrow> w \<le> catdpop_max_window_secs \<Longrightarrow> in_i64 w"
  by (simp add: in_i64_def i64_min_def i64_max_def catdpop_max_window_secs_def)

lemma costs_catdpop:
  assumes "catdpop_wire s"
  shows "costs L (decode_catdpop (CMap (encode_catdpop s))) s counters_zero"
proof -
  have "try_fold catdpop_entry (encode_catdpop s) catdpop_new = Inr s"
    using assms unfolding catdpop_wire_def
    by (cases s; cases "dp_window s"; cases "dp_honor_jti s"; cases "dp_crit s")
       (auto simp: encode_catdpop_def opt_pair_def catdpop_entry_def catdpop_new_def decode_crit_ints window_in_i64)
  then show ?thesis using assms unfolding decode_catdpop_def
    by (auto simp: catdpop_wire_def intro!: costs_dbind0[OF costs_dlift] costs_dlift)
qed

section \<open>Failure actions and renewal\<close>

definition if_action_wire :: "cat_if_action \<Rightarrow> bool" where
  "if_action_wire a \<longleftrightarrow> 100 \<le> ia_status a \<and> ia_status a \<le> 599 \<and>
     (\<forall>hs. ia_headers a = Some hs \<longrightarrow> hs \<noteq> [] \<and> list_all (\<lambda>(n, v). ensure_header_value_clean n v = Inr ()) hs)"

definition catif_wire :: "(int \<times> cat_if_action) list \<Rightarrow> bool" where
  "catif_wire as \<longleftrightarrow> as \<noteq> [] \<and> sorted_wrt (<) (map fst as) \<and>
     list_all (\<lambda>(k, a). 0 \<le> k \<and> in_i64 k \<and> if_action_wire a) as"

lemma map_r_if_headers: "map_r decode_if_header (map (\<lambda>(k, v). (CText k, CText v)) hs) = Inr hs"
  by (induction hs) (auto simp: decode_if_header_def)

lemma decode_encode_if_action:
  assumes "if_action_wire a"
  shows "decode_if_action (encode_if_action a) = Inr a"
proof -
  have new: "if_action_new (ia_status a) = Inr \<lparr>ia_status = ia_status a, ia_headers = None, ia_kid = None\<rparr>"
    using assms by (simp add: if_action_new_def if_action_wire_def)
  have hs: "if_action_with_headers hs b = Inr (b\<lparr>ia_headers := Some hs\<rparr>) \<and> hs \<noteq> []" if "ia_headers a = Some hs" for hs b
    using that assms by (auto simp: if_action_with_headers_def if_action_wire_def list_all_iff)
  show ?thesis
    by (cases a; cases "ia_headers a"; cases "ia_kid a")
       (use new hs in \<open>auto simp: encode_if_action_def decode_if_action_def decode_if_headers_def decode_if_kid_def
          map_r_if_headers u32_roundtrip non_empty_def if_action_with_kid_def simp del: u32_value.simps\<close>)
qed

lemma sort_key_fst_sorted: "sorted_wrt (<) (map fst as) \<Longrightarrow> sort_key fst (as :: (int \<times> 'a) list) = as"
  by (intro sort_key_id_if_sorted) (simp add: sorted_wrt_map sorted_wrt_iff_nth_less less_imp_le)

lemma costs_catif:
  assumes "catif_wire as"
  shows "costs L (decode_catif L (encode_catif as)) (Some as) (items_cost as)"
proof -
  have "costs L (dmap (\<lambda>(k, x).
         dbind (count_item L) (\<lambda>_. dlift (
           rbind (i64_value (InvalidClaimValue ''Invalid catif map key'')
                    (InvalidClaimValue ''catif map keys must be integers'') k) (\<lambda>key.
           rbind (decode_if_action x) (\<lambda>a. Inr (key, a))))))
      (map (\<lambda>(k, a). (CInt k, encode_if_action a)) as)) as (items_cost as)"
    unfolding items_cost_def
  proof (rule costs_dmap)
    fix ka assume ka: "ka \<in> set as"
    obtain k a where e: "ka = (k, a)" by (cases ka)
    with ka assms have "in_i64 k" "if_action_wire a" by (auto simp: catif_wire_def list_all_iff)
    then have "costs L (dlift (rbind (i64_value (InvalidClaimValue ''Invalid catif map key'')
                    (InvalidClaimValue ''catif map keys must be integers'') (CInt k)) (\<lambda>key.
           rbind (decode_if_action (encode_if_action a)) (\<lambda>a. Inr (key, a))))) (k, a) counters_zero"
      by (intro costs_dlift) (simp add: decode_encode_if_action)
    from costs_dbind[OF costs_count(1)[of L], where k = "\<lambda>_. dlift (rbind (i64_value (InvalidClaimValue ''Invalid catif map key'')
                    (InvalidClaimValue ''catif map keys must be integers'') (CInt k)) (\<lambda>key.
           rbind (decode_if_action (encode_if_action a)) (\<lambda>a. Inr (key, a))))", OF this]
    show "costs L (case case ka of (k, a) \<Rightarrow> (CInt k, encode_if_action a) of (k, x) \<Rightarrow>
         dbind (count_item L) (\<lambda>_. dlift (
           rbind (i64_value (InvalidClaimValue ''Invalid catif map key'')
                    (InvalidClaimValue ''catif map keys must be integers'') k) (\<lambda>key.
           rbind (decode_if_action x) (\<lambda>a. Inr (key, a)))))) ka citem"
      by (simp add: e)
  qed
  from costs_last[OF this, where f = non_empty and b = "Some as"]
  show ?thesis using assms unfolding encode_catif_def decode_catif_def
    by (simp add: costs_dbind0[OF costs_dlift] sort_key_fst_sorted catif_wire_def non_empty_def)
qed

definition catr_wire :: "cat_renewal \<Rightarrow> bool" where
  "catr_wire r \<longleftrightarrow> (\<exists>x. rn_expadd r = Some x \<and> f64_plain x \<and> 0 < f64_rat x) \<and>
     (\<forall>x. rn_deadline r = Some x \<longrightarrow> f64_plain x)"

lemma decode_renewal_plain: "f64_plain x \<Longrightarrow> decode_renewal_number name (encode_number_shortest x) = Inr x"
  by (auto simp: decode_renewal_number_def encode_number_shortest_def f64_plain_def small_floor_in_i64 validate_float_ok)

lemma renewal_type_roundtrip: "decode_renewal_type (CInt (renewal_type_u32 t)) = Inr t"
  by (cases t) (simp_all add: decode_renewal_type_def renewal_type_from_u32_def)

lemma decode_text_array_array: "decode_text_array name (text_array ss) = Inr ss"
  by (simp add: decode_text_array_def text_array_def)

lemma try_fold_append: "try_fold f (xs @ ys) s = rbind (try_fold f xs s) (try_fold f ys)"
proof (induction xs arbitrary: s)
  case (Cons x xs)
  then show ?case by (cases "f x s") auto
qed simp

lemma costs_counted_fold:
  "try_fold g xs s = Inr s' \<Longrightarrow> costs L (dfold (\<lambda>x st. dbind (count_item L) (\<lambda>_. dlift (g x st))) xs s) s' (items_cost xs)"
proof (induction xs arbitrary: s)
  case Nil
  then show ?case by (simp add: items_cost_def costs_dret)
next
  case (Cons x xs)
  then obtain t where t: "g x s = Inr t" "try_fold g xs t = Inr s'" by auto
  have "costs L (dbind (count_item L) (\<lambda>_. dlift (g x s))) t citem"
    using costs_dbind[OF costs_count(1) costs_dlift[OF t(1)]] by simp
  from this Cons.IH[OF t(2)]
  have "costs L (dbind (dbind (count_item L) (\<lambda>_. dlift (g x s)))
      (dfold (\<lambda>x st. dbind (count_item L) (\<lambda>_. dlift (g x st))) xs)) s' (cadd citem (items_cost xs))"
    by (rule costs_dbind)
  then show ?case by (simp add: items_cost_def)
qed

definition keep_or :: "'a option \<Rightarrow> 'a option \<Rightarrow> 'a option" where
  "keep_or old m = (case m of None \<Rightarrow> old | Some x \<Rightarrow> Some x)"

lemma catr_opt_entries:
  "(\<forall>x. n = Some x \<longrightarrow> f64_plain x) \<Longrightarrow> try_fold catr_entry (opt_pair CATR_EXPADD encode_number_shortest n) st =
     Inr (fst st, (snd st)\<lparr>rn_expadd := keep_or (rn_expadd (snd st)) n\<rparr>)"
  "(\<forall>x. n = Some x \<longrightarrow> f64_plain x) \<Longrightarrow> try_fold catr_entry (opt_pair CATR_DEADLINE encode_number_shortest n) st =
     Inr (fst st, (snd st)\<lparr>rn_deadline := keep_or (rn_deadline (snd st)) n\<rparr>)"
  "try_fold catr_entry (opt_pair CATR_COOKIE_NAME CText t) st =
     Inr (fst st, (snd st)\<lparr>rn_cookie_name := keep_or (rn_cookie_name (snd st)) t\<rparr>)"
  "try_fold catr_entry (opt_pair CATR_HEADER_NAME CText t) st =
     Inr (fst st, (snd st)\<lparr>rn_header_name := keep_or (rn_header_name (snd st)) t\<rparr>)"
  "try_fold catr_entry (opt_pair CATR_ADDITIONAL_COOKIE_PARAMS text_array ts) st =
     Inr (fst st, (snd st)\<lparr>rn_cookie_params := keep_or (rn_cookie_params (snd st)) ts\<rparr>)"
  "try_fold catr_entry (opt_pair CATR_ADDITIONAL_HEADER_PARAMS text_array ts) st =
     Inr (fst st, (snd st)\<lparr>rn_header_params := keep_or (rn_header_params (snd st)) ts\<rparr>)"
  "try_fold catr_entry (opt_pair CATR_STATUS_CODE (\<lambda>c. CInt (uint c)) sc) st =
     Inr (fst st, (snd st)\<lparr>rn_status_code := keep_or (rn_status_code (snd st)) sc\<rparr>)"
  by (cases n; cases t; cases ts; cases sc;
      simp add: opt_pair_def keep_or_def catr_entry_def decode_renewal_plain decode_text_array_array
        u32_roundtrip Let_def del: u32_value.simps)+

lemma costs_catr:
  assumes "catr_wire r"
  shows "costs L (decode_catr L (encode_catr r)) (Some r) (items_cost (catr_entries r))"
proof -
  obtain x where x: "rn_expadd r = Some x" "f64_plain x" "0 < f64_rat x" using assms by (auto simp: catr_wire_def)
  have ty: "try_fold catr_entry [(CInt CATR_TYPE, CInt (renewal_type_u32 (rn_type r)))] st = Inr (Some (rn_type r), snd st)" for st
    by (simp add: catr_entry_def renewal_type_roundtrip Let_def)
  have "try_fold catr_entry (catr_entries r) (None, renewal_base RenewAutomatic) =
      Inr (Some (rn_type r), r\<lparr>rn_type := RenewAutomatic\<rparr>)"
    unfolding catr_entries_def try_fold_append ty
    using x assms by (cases r) (simp add: catr_opt_entries catr_wire_def keep_or_def renewal_base_def
      split: option.split)
  note fold = costs_counted_fold[OF this, of L]
  have "finish_catr (Some (rn_type r), r\<lparr>rn_type := RenewAutomatic\<rparr>) = Inr (Some r)"
    using x by (cases x) (auto simp: finish_catr_def f64_plain_def)
  from costs_dbind[OF fold, of "\<lambda>st. dlift (finish_catr st)", OF costs_dlift[OF this]]
  show ?thesis unfolding encode_catr_def decode_catr_def by (simp add: costs_dbind0[OF costs_dlift])
qed

section \<open>MOQT claims\<close>

definition scope_wire :: "cwt_limits \<Rightarrow> moqt_scope \<Rightarrow> bool" where
  "scope_wire L s \<longleftrightarrow> actions s \<noteq> [] \<and> list_all nm_wire (namespace_matches s) \<and>
     length (namespace_matches s) \<le> max_namespace_matches_per_scope L \<and> nil_last (namespace_matches s) \<and>
     (\<forall>m. track_match s = Some m \<longrightarrow> bm_wire m)"

lemma decode_actions: "map_r decode_action (map (\<lambda>a. CInt (moqt_action_i32 a)) as) = Inr as"
proof (induction as)
  case (Cons a as)
  have "in_i32 (moqt_action_i32 a)" by (cases a) (simp_all add: in_i32_def)
  then show ?case using Cons by simp
qed simp

lemma encode_namespaces_ok:
  assumes "list_all nm_wire ns" "nil_last ns" "encode_namespaces False ns = Inr vs"
  shows "map_r decode_namespace_match vs = Inr ns"
  using assms
proof (induction ns arbitrary: vs)
  case (Cons n ns)
  obtain v where v: "encode_namespace_match n = Inr v" "decode_namespace_match v = Inr n"
    using namespace_match_roundtrip[of n] Cons.prems(1) by auto
  show ?case
  proof (cases n)
    case NmNil
    then show ?thesis using Cons.prems v by auto
  next
    case (NmMatch m)
    then show ?thesis using Cons v by auto
  qed
qed simp

lemma encode_namespaces_length: "encode_namespaces b ns = Inr vs \<Longrightarrow> length vs = length ns"
  by (induction ns arbitrary: b vs) (auto split: if_splits)

lemma decode_encode_scope:
  assumes w: "scope_wire L s" and e: "encode_scope s = Inr v"
  shows "decode_scope L v = Inr s"
proof -
  have acts: "actions s \<noteq> []" using w by (simp add: scope_wire_def)
  then obtain ns tm where ns: "(if namespace_matches s = [] then Inr []
               else rbind (encode_namespaces False (namespace_matches s)) (\<lambda>vs. Inr [CArray vs])) = Inr ns"
    and tm: "(case track_match s of
                 None \<Rightarrow> Inr []
               | Some m \<Rightarrow>
                   (if match_type m = BmAny
                    then Inl (InvalidClaimValue ''Track wildcard must use Option::None, not BinaryMatch::Any'')
                    else rbind (encode_binary_match m) (\<lambda>v.
                         Inr ((if namespace_matches s = [] then [CArray []] else []) @ [v])))) = Inr tm"
    and v: "v = CArray ([CArray (map (\<lambda>a. CInt (moqt_action_i32 a)) (actions s))] @ ns @ tm)"
    using e by (auto simp: encode_scope_def)
  show ?thesis
  proof (cases "track_match s")
    case None
    then show ?thesis using ns tm acts w
      by (cases s) (force simp: v decode_scope_def decode_actions decode_scope_namespaces_def scope_wire_def
          encode_namespaces_ok encode_namespaces_length split: if_splits)
  next
    case (Some m)
    then obtain x where x: "encode_binary_match m = Inr x" "decode_binary_match x = Inr m"
      using w binary_match_roundtrip[of m] by (auto simp: scope_wire_def)
    then show ?thesis using ns tm acts w Some
      by (cases s) (force simp: v decode_scope_def decode_actions decode_scope_namespaces_def scope_wire_def
          encode_namespaces_ok encode_namespaces_length split: if_splits)
  qed
qed

definition moqt_wire :: "cwt_limits \<Rightarrow> moqt_scope list \<Rightarrow> bool" where
  "moqt_wire L ss \<longleftrightarrow> length ss \<le> max_moqt_scopes L \<and> list_all (scope_wire L) ss"

lemma costs_moqt:
  assumes "moqt_wire L ss" "encode_moqt ss = Inr v"
  shows "costs L (decode_moqt L v) ss counters_zero"
proof -
  obtain vs where vs: "v = CArray vs" "list_all2 (\<lambda>s v. encode_scope s = Inr v) ss vs"
    using assms(2) by (auto simp: encode_moqt_def map_r_eq_Inr)
  have "map_r (decode_scope L) vs = Inr ss" unfolding map_r_eq_Inr
    using vs(2) assms(1) by (auto simp: list_all2_conv_all_nth moqt_wire_def list_all_length intro!: decode_encode_scope)
  moreover have "length vs = length ss" using vs(2) by (simp add: list_all2_lengthD)
  ultimately show ?thesis using assms(1) unfolding decode_moqt_def vs(1)
    by (simp add: moqt_wire_def costs_dbind0[OF costs_dlift] costs_dlift)
qed

lemma costs_moqt_reval:
  assumes "f64_plain x" "encode_moqt_reval x = Inr v"
  shows "costs L (decode_moqt_reval v) x counters_zero"
proof -
  have v: "v = encode_number_shortest x" using assms(2) by (simp add: encode_moqt_reval_def)
  show ?thesis unfolding v decode_moqt_reval_def using assms(1)
    by (auto simp: encode_number_shortest_def f64_plain_def small_floor_in_i64 validate_float_ok
        intro!: costs_dbind0[OF costs_dlift] costs_dlift)
qed

end
