(* ===== verification/Cwt_Codec.thy ===== *)
theory Cwt_Codec
  imports Cwt_Roundtrip
begin

text \<open>
  The claim codec as a whole: which tokens the wire form carries, what decoding them counts, and that
  \<open>decode_payload_with_limits\<close> reads back what \<open>encode_payload\<close> wrote, composite claims included.

  The decoder meets the claims in the order of their labels and not in the order they were written:
  after the labels in a set \<open>S\<close> the token it holds is the part of the token with these labels.
\<close>

section \<open>The part of a token with some labels\<close>

definition only :: "int set \<Rightarrow> int \<Rightarrow> 'a option \<Rightarrow> 'a option" where
  "only S k m = (if k \<in> S then m else None)"

lemma only_insert: "only (insert k S) j m = (if j = k then m else only S j m)"
  by (simp add: only_def)

lemma only_full: "(m = None \<or> k \<in> S) \<Longrightarrow> only S k m = m"
  by (auto simp: only_def)

fun restrict_token :: "int set \<Rightarrow> cat_token \<Rightarrow> cat_token" where
  "restrict_token S (CatToken co ca i d r cc m u) =
     CatToken
       \<lparr>c_iss = only S CLAIM_ISS (c_iss co), c_aud = only S CLAIM_AUD (c_aud co), c_exp = only S CLAIM_EXP (c_exp co),
        c_nbf = only S CLAIM_NBF (c_nbf co), c_cti = only S CLAIM_CTI (c_cti co)\<rparr>
       \<lparr>catreplay = only S CLAIM_CATREPLAY (catreplay ca), catpor = only S CLAIM_CATPOR (catpor ca),
        catv = only S CLAIM_CATV (catv ca), catnip = only S CLAIM_CATNIP (catnip ca),
        catu = only S CLAIM_CATU (catu ca), catm = only S CLAIM_CATM (catm ca),
        catalpn = only S CLAIM_CATALPN (catalpn ca), cath = only S CLAIM_CATH (cath ca),
        catgeoiso3166 = only S CLAIM_CATGEOISO3166 (catgeoiso3166 ca),
        catgeocoord = only S CLAIM_CATGEOCOORD (catgeocoord ca), geohash = only S CLAIM_GEOHASH (geohash ca),
        catgeoalt = only S CLAIM_CATGEOALT (catgeoalt ca), cattpk = only S CLAIM_CATTPK (cattpk ca)\<rparr>
       \<lparr>i_sub = only S CLAIM_SUB (i_sub i), i_iat = only S CLAIM_IAT (i_iat i),
        catifdata = only S CLAIM_CATIFDATA (catifdata i)\<rparr>
       \<lparr>cnf = only S CLAIM_CNF (cnf d), catdpop = only S CLAIM_CATDPOP (catdpop d)\<rparr>
       \<lparr>catif = only S CLAIM_CATIF (catif r), catr = only S CLAIM_CATR (catr r)\<rparr>
       (CompositeClaims (only S CLAIM_OR (or_claim cc)) (only S CLAIM_NOR (nor_claim cc))
          (only S CLAIM_AND (and_claim cc)))
       \<lparr>mq_moqt = only S CLAIM_MOQT (mq_moqt m), mq_reval = only S CLAIM_MOQT_REVAL (mq_reval m)\<rparr>
       (filter (\<lambda>(k, v). k \<in> S) u)"

lemma restrict_token_empty: "restrict_token {} t = token_new"
  by (cases t) (simp add: only_def default_defs)

text \<open>The labels of the token, in the order the encoder writes them.\<close>

definition key_of :: "int \<Rightarrow> 'a option \<Rightarrow> int list" where
  "key_of k m = (case m of None \<Rightarrow> [] | Some _ \<Rightarrow> [k])"

definition standard_ids :: "int list" where
  "standard_ids = core_ids @ cat_ids @ other_ids @ composite_ids"

definition custom_free :: "int \<Rightarrow> cat_token \<Rightarrow> bool" where
  "custom_free k t \<longleftrightarrow> k \<notin> fst ` set (t_custom t)"

lemma filter_insert_free: "k \<notin> fst ` set u \<Longrightarrow> filter (\<lambda>(j, v). j = k \<or> j \<in> S) u = filter (\<lambda>(j, v). j \<in> S) u"
  by (rule filter_cong) force+

text \<open>Setting a claim of the token extends the part by its label.\<close>

lemma restrict_set_claims:
  "custom_free CLAIM_ISS t \<Longrightarrow> c_iss (t_core t) = Some s \<Longrightarrow> upd_core (\<lambda>c. c\<lparr>c_iss := Some s\<rparr>) (restrict_token S t) = restrict_token (insert CLAIM_ISS S) t"
  "custom_free CLAIM_AUD t \<Longrightarrow> c_aud (t_core t) = Some as \<Longrightarrow> upd_core (\<lambda>c. c\<lparr>c_aud := Some as\<rparr>) (restrict_token S t) = restrict_token (insert CLAIM_AUD S) t"
  "custom_free CLAIM_EXP t \<Longrightarrow> c_exp (t_core t) = Some n \<Longrightarrow> upd_core (\<lambda>c. c\<lparr>c_exp := Some n\<rparr>) (restrict_token S t) = restrict_token (insert CLAIM_EXP S) t"
  "custom_free CLAIM_NBF t \<Longrightarrow> c_nbf (t_core t) = Some n \<Longrightarrow> upd_core (\<lambda>c. c\<lparr>c_nbf := Some n\<rparr>) (restrict_token S t) = restrict_token (insert CLAIM_NBF S) t"
  "custom_free CLAIM_CTI t \<Longrightarrow> c_cti (t_core t) = Some b \<Longrightarrow> upd_core (\<lambda>c. c\<lparr>c_cti := Some b\<rparr>) (restrict_token S t) = restrict_token (insert CLAIM_CTI S) t"
  "custom_free CLAIM_CATREPLAY t \<Longrightarrow> catreplay (t_cat t) = Some r \<Longrightarrow> upd_cat (\<lambda>c. c\<lparr>catreplay := Some r\<rparr>) (restrict_token S t) = restrict_token (insert CLAIM_CATREPLAY S) t"
  "custom_free CLAIM_CATPOR t \<Longrightarrow> catpor (t_cat t) = Some p \<Longrightarrow> upd_cat (\<lambda>c. c\<lparr>catpor := Some p\<rparr>) (restrict_token S t) = restrict_token (insert CLAIM_CATPOR S) t"
  "custom_free CLAIM_CATV t \<Longrightarrow> catv (t_cat t) = Some v \<Longrightarrow> upd_cat (\<lambda>c. c\<lparr>catv := Some v\<rparr>) (restrict_token S t) = restrict_token (insert CLAIM_CATV S) t"
  "custom_free CLAIM_CATNIP t \<Longrightarrow> catnip (t_cat t) = Some ns \<Longrightarrow> upd_cat (\<lambda>c. c\<lparr>catnip := Some ns\<rparr>) (restrict_token S t) = restrict_token (insert CLAIM_CATNIP S) t"
  "custom_free CLAIM_CATU t \<Longrightarrow> catu (t_cat t) = Some us \<Longrightarrow> upd_cat (\<lambda>c. c\<lparr>catu := Some us\<rparr>) (restrict_token S t) = restrict_token (insert CLAIM_CATU S) t"
  "custom_free CLAIM_CATM t \<Longrightarrow> catm (t_cat t) = Some ms \<Longrightarrow> upd_cat (\<lambda>c. c\<lparr>catm := Some ms\<rparr>) (restrict_token S t) = restrict_token (insert CLAIM_CATM S) t"
  "custom_free CLAIM_CATALPN t \<Longrightarrow> catalpn (t_cat t) = Some al \<Longrightarrow> upd_cat (\<lambda>c. c\<lparr>catalpn := Some al\<rparr>) (restrict_token S t) = restrict_token (insert CLAIM_CATALPN S) t"
  "custom_free CLAIM_CATH t \<Longrightarrow> cath (t_cat t) = Some hs \<Longrightarrow> upd_cat (\<lambda>c. c\<lparr>cath := Some hs\<rparr>) (restrict_token S t) = restrict_token (insert CLAIM_CATH S) t"
  "custom_free CLAIM_CATGEOISO3166 t \<Longrightarrow> catgeoiso3166 (t_cat t) = Some is \<Longrightarrow> upd_cat (\<lambda>c. c\<lparr>catgeoiso3166 := Some is\<rparr>) (restrict_token S t) = restrict_token (insert CLAIM_CATGEOISO3166 S) t"
  "custom_free CLAIM_CATGEOCOORD t \<Longrightarrow> catgeocoord (t_cat t) = Some gs \<Longrightarrow> upd_cat (\<lambda>c. c\<lparr>catgeocoord := Some gs\<rparr>) (restrict_token S t) = restrict_token (insert CLAIM_CATGEOCOORD S) t"
  "custom_free CLAIM_GEOHASH t \<Longrightarrow> geohash (t_cat t) = Some gh \<Longrightarrow> upd_cat (\<lambda>c. c\<lparr>geohash := Some gh\<rparr>) (restrict_token S t) = restrict_token (insert CLAIM_GEOHASH S) t"
  "custom_free CLAIM_CATGEOALT t \<Longrightarrow> catgeoalt (t_cat t) = Some ga \<Longrightarrow> upd_cat (\<lambda>c. c\<lparr>catgeoalt := Some ga\<rparr>) (restrict_token S t) = restrict_token (insert CLAIM_CATGEOALT S) t"
  "custom_free CLAIM_CATTPK t \<Longrightarrow> cattpk (t_cat t) = Some b \<Longrightarrow> upd_cat (\<lambda>c. c\<lparr>cattpk := Some b\<rparr>) (restrict_token S t) = restrict_token (insert CLAIM_CATTPK S) t"
  "custom_free CLAIM_SUB t \<Longrightarrow> i_sub (t_informational t) = Some s \<Longrightarrow> upd_informational (\<lambda>i. i\<lparr>i_sub := Some s\<rparr>) (restrict_token S t) = restrict_token (insert CLAIM_SUB S) t"
  "custom_free CLAIM_IAT t \<Longrightarrow> i_iat (t_informational t) = Some n \<Longrightarrow> upd_informational (\<lambda>i. i\<lparr>i_iat := Some n\<rparr>) (restrict_token S t) = restrict_token (insert CLAIM_IAT S) t"
  "custom_free CLAIM_CATIFDATA t \<Longrightarrow> catifdata (t_informational t) = Some ds \<Longrightarrow> upd_informational (\<lambda>i. i\<lparr>catifdata := Some ds\<rparr>) (restrict_token S t) = restrict_token (insert CLAIM_CATIFDATA S) t"
  "custom_free CLAIM_CNF t \<Longrightarrow> cnf (t_dpop t) = Some cn \<Longrightarrow> upd_dpop (\<lambda>d. d\<lparr>cnf := Some cn\<rparr>) (restrict_token S t) = restrict_token (insert CLAIM_CNF S) t"
  "custom_free CLAIM_CATDPOP t \<Longrightarrow> catdpop (t_dpop t) = Some dp \<Longrightarrow> upd_dpop (\<lambda>d. d\<lparr>catdpop := Some dp\<rparr>) (restrict_token S t) = restrict_token (insert CLAIM_CATDPOP S) t"
  "custom_free CLAIM_CATIF t \<Longrightarrow> catif (t_request t) = Some ac \<Longrightarrow> upd_request (\<lambda>r. r\<lparr>catif := Some ac\<rparr>) (restrict_token S t) = restrict_token (insert CLAIM_CATIF S) t"
  "custom_free CLAIM_CATR t \<Longrightarrow> catr (t_request t) = Some rn \<Longrightarrow> upd_request (\<lambda>r. r\<lparr>catr := Some rn\<rparr>) (restrict_token S t) = restrict_token (insert CLAIM_CATR S) t"
  "custom_free CLAIM_MOQT t \<Longrightarrow> mq_moqt (t_moqt t) = Some ss \<Longrightarrow> upd_moqt (\<lambda>m. m\<lparr>mq_moqt := Some ss\<rparr>) (restrict_token S t) = restrict_token (insert CLAIM_MOQT S) t"
  "custom_free CLAIM_MOQT_REVAL t \<Longrightarrow> mq_reval (t_moqt t) = Some x \<Longrightarrow> upd_moqt (\<lambda>m. m\<lparr>mq_reval := Some x\<rparr>) (restrict_token S t) = restrict_token (insert CLAIM_MOQT_REVAL S) t"
  "custom_free CLAIM_OR t \<Longrightarrow> or_claim (t_composite t) = Some cc \<Longrightarrow> set_composite_claim CLAIM_OR cc (restrict_token S t) = restrict_token (insert CLAIM_OR S) t"
  "custom_free CLAIM_NOR t \<Longrightarrow> nor_claim (t_composite t) = Some cc \<Longrightarrow> set_composite_claim CLAIM_NOR cc (restrict_token S t) = restrict_token (insert CLAIM_NOR S) t"
  "custom_free CLAIM_AND t \<Longrightarrow> and_claim (t_composite t) = Some cc \<Longrightarrow> set_composite_claim CLAIM_AND cc (restrict_token S t) = restrict_token (insert CLAIM_AND S) t"
  by (cases t, simp only: restrict_token.simps cat_token.sel,
      simp add: custom_free_def filter_insert_free only_insert set_composite_claim_def with_or_composite_def
        with_nor_composite_def with_and_composite_def)+

section \<open>Tokens the wire form carries\<close>

definition on_some :: "('a \<Rightarrow> bool) \<Rightarrow> 'a option \<Rightarrow> bool" where
  "on_some P m \<longleftrightarrow> (\<forall>x. m = Some x \<longrightarrow> P x)"

definition core_wire :: "cwt_limits \<Rightarrow> core_claims \<Rightarrow> bool" where
  "core_wire L co \<longleftrightarrow>
     on_some (\<lambda>s. length s \<le> max_string_claim_length L) (c_iss co) \<and>
     on_some (list_all (\<lambda>s. length s \<le> max_string_claim_length L)) (c_aud co) \<and>
     on_some in_i64 (c_exp co) \<and> on_some in_i64 (c_nbf co)"

definition cat_wire :: "cwt_limits \<Rightarrow> cat_claims \<Rightarrow> bool" where
  "cat_wire L ca \<longleftrightarrow>
     on_some por_wire (catpor ca) \<and> on_some (catnip_wire L) (catnip ca) \<and> on_some catu_wire (catu ca) \<and>
     on_some (\<lambda>ms. length ms \<le> 50) (catm ca) \<and> on_some (\<lambda>as. length as \<le> 50) (catalpn ca) \<and>
     on_some (list_all (\<lambda>r. matches_wire (hr_matches r))) (cath ca) \<and>
     on_some (\<lambda>gs. gs \<noteq> [] \<and> list_all coord_wire gs) (catgeocoord ca) \<and>
     on_some (\<lambda>hs. hs \<noteq> []) (geohash ca) \<and> on_some catgeoalt_wire (catgeoalt ca)"

definition other_wire ::
  "cwt_limits \<Rightarrow> informational_claims \<Rightarrow> dpop_claims \<Rightarrow> request_claims \<Rightarrow> moqt_claims \<Rightarrow> bool" where
  "other_wire L i d r m \<longleftrightarrow>
     on_some (\<lambda>s. length s \<le> max_string_claim_length L) (i_sub i) \<and> on_some in_i64 (i_iat i) \<and>
     on_some (\<lambda>ds. ds \<noteq> []) (catifdata i) \<and> on_some (\<lambda>c. encode_cnf c \<noteq> []) (cnf d) \<and>
     on_some catdpop_wire (catdpop d) \<and> on_some catif_wire (catif r) \<and> on_some catr_wire (catr r) \<and>
     on_some (moqt_wire L) (mq_moqt m) \<and> on_some f64_plain (mq_reval m)"

definition custom_wire :: "cwt_limits \<Rightarrow> (int \<times> cbor) list \<Rightarrow> bool" where
  "custom_wire L u \<longleftrightarrow> sorted_wrt (<) (map fst u) \<and>
     list_all (\<lambda>(k, v). 0 \<le> k \<and> in_i64 k \<and> k \<notin> set standard_ids) u \<and> length u \<le> max_custom_claims L"

definition claims_wire :: "cwt_limits \<Rightarrow> cat_token \<Rightarrow> bool" where
  "claims_wire L t \<longleftrightarrow> core_wire L (t_core t) \<and> cat_wire L (t_cat t) \<and>
     other_wire L (t_informational t) (t_dpop t) (t_request t) (t_moqt t) \<and> custom_wire L (t_custom t)"

text \<open>What decoding a claim counts, beside the item for the claim itself.\<close>

definition cost_of :: "int \<Rightarrow> ('a \<Rightarrow> decode_counters) \<Rightarrow> 'a option \<Rightarrow> (int \<times> decode_counters) list" where
  "cost_of k f m = (case m of None \<Rightarrow> [] | Some x \<Rightarrow> [(k, f x)])"

abbreviation no_cost :: "'a \<Rightarrow> decode_counters" where "no_cost x \<equiv> counters_zero"

definition flat_cost_pieces ::
  "core_claims \<Rightarrow> cat_claims \<Rightarrow> informational_claims \<Rightarrow> dpop_claims \<Rightarrow> request_claims \<Rightarrow> moqt_claims \<Rightarrow>
     (int \<times> decode_counters) list list" where
  "flat_cost_pieces co ca i d r m =
     [cost_of CLAIM_ISS cstring (c_iss co), cost_of CLAIM_AUD aud_cost (c_aud co),
      cost_of CLAIM_EXP no_cost (c_exp co), cost_of CLAIM_NBF no_cost (c_nbf co), cost_of CLAIM_CTI no_cost (c_cti co),
      cost_of CLAIM_CATREPLAY no_cost (catreplay ca), cost_of CLAIM_CATPOR no_cost (catpor ca),
      cost_of CLAIM_CATV no_cost (catv ca), cost_of CLAIM_CATNIP items_cost (catnip ca),
      cost_of CLAIM_CATU catu_cost (catu ca), cost_of CLAIM_CATM items_cost (catm ca),
      cost_of CLAIM_CATALPN items_cost (catalpn ca), cost_of CLAIM_CATH cath_cost (cath ca),
      cost_of CLAIM_CATGEOISO3166 items_cost (catgeoiso3166 ca),
      cost_of CLAIM_CATGEOCOORD items_cost (catgeocoord ca), cost_of CLAIM_GEOHASH no_cost (geohash ca),
      cost_of CLAIM_CATGEOALT no_cost (catgeoalt ca), cost_of CLAIM_CATTPK no_cost (cattpk ca),
      cost_of CLAIM_SUB cstring (i_sub i), cost_of CLAIM_IAT no_cost (i_iat i),
      cost_of CLAIM_CATIFDATA catifdata_cost (catifdata i), cost_of CLAIM_CNF no_cost (cnf d),
      cost_of CLAIM_CATDPOP no_cost (catdpop d), cost_of CLAIM_CATIF items_cost (catif r),
      cost_of CLAIM_CATR (\<lambda>n. items_cost (catr_entries n)) (catr r),
      cost_of CLAIM_MOQT no_cost (mq_moqt m), cost_of CLAIM_MOQT_REVAL no_cost (mq_reval m)]"

section \<open>One claim\<close>

text \<open>\<open>S\<close> holds the custom labels below \<open>k\<close>, as it does when \<open>k\<close> is the next label.\<close>

definition reads :: "cwt_limits \<Rightarrow> (int \<Rightarrow> cbor \<Rightarrow> composite_claim decode) \<Rightarrow> cat_token \<Rightarrow> int \<Rightarrow> cbor \<Rightarrow> decode_counters \<Rightarrow> bool" where
  "reads L dcomp t k v d \<longleftrightarrow> (\<forall>S. (\<forall>j \<in> fst ` set (t_custom t). j \<in> S \<longleftrightarrow> j < k) \<longrightarrow>
     costs L (decode_claim_value L dcomp k v (restrict_token S t)) (restrict_token (insert k S) t) d)"

definition reads_entry where
  "reads_entry L dcomp t = (\<lambda>(k, v) (k', d). k' = k \<and> in_i64 k \<and> reads L dcomp t k v d)"

lemma custom_free_standard: "custom_wire L (t_custom t) \<Longrightarrow> k \<in> set standard_ids \<Longrightarrow> custom_free k t"
  by (auto simp: custom_wire_def custom_free_def list_all_iff)

lemma standard_in_i64: "k \<in> set standard_ids \<Longrightarrow> in_i64 k"
  by (auto simp: standard_ids_def core_ids_def cat_ids_def other_ids_def composite_ids_def)

text \<open>The three shapes of an entry.\<close>

lemma put_reads:
  assumes "put k f m = Some (Inr e)" "\<And>x. m = Some x \<Longrightarrow> reads L dcomp t k (f x) (g x)" "k \<in> set standard_ids"
  shows "list_all2 (reads_entry L dcomp t) e (cost_of k g m)"
  using assms by (auto simp: put_def cost_of_def reads_entry_def standard_in_i64 split: option.splits)

lemma put_r_reads:
  assumes "put_r k f m = Some (Inr e)"
    "\<And>x v. m = Some x \<Longrightarrow> f x = Some (Inr v) \<Longrightarrow> reads L dcomp t k v (g x)" "k \<in> set standard_ids"
  shows "list_all2 (reads_entry L dcomp t) e (cost_of k g m)"
  using assms by (auto simp: put_r_def cost_of_def reads_entry_def standard_in_i64 obind_eq_Inr split: option.splits)

lemma put_map_reads:
  assumes "put_map k f m = Some (Inr e)"
    "\<And>x. m = Some x \<Longrightarrow> f x \<noteq> [] \<and> reads L dcomp t k (CMap (f x)) (g x)" "k \<in> set standard_ids"
  shows "list_all2 (reads_entry L dcomp t) e (cost_of k g m)"
  using assms by (auto simp: put_map_def cost_of_def reads_entry_def standard_in_i64 split: option.splits)

lemma in_order_zip:
  assumes "in_order ms = Some (Inr es)" "list_all2 (\<lambda>m c. \<forall>e. m = Some (Inr e) \<longrightarrow> list_all2 P e c) ms cs"
  shows "list_all2 P es (concat cs)"
  using assms(2,1)
proof (induction ms cs arbitrary: es rule: list_all2_induct)
  case (Cons m ms c cs)
  then obtain e fs where "m = Some (Inr e)" "in_order ms = Some (Inr fs)" "es = e @ fs"
    by (auto simp: obind_eq_Inr)
  with Cons show ?case by (auto intro: list_all2_appendI)
qed simp

text \<open>A decoder that reads the value, followed by the setter.\<close>

lemma reads_core:
  assumes "k \<in> set core_ids" "\<And>S. costs L (decode_core_claim L k v (restrict_token S t)) (restrict_token (insert k S) t) d"
  shows "reads L dcomp t k v d"
  using assms by (simp add: reads_def decode_claim_value_def)

lemma reads_cat:
  assumes "k \<in> set cat_ids" "\<And>S. costs L (decode_cat_claim L k v (restrict_token S t)) (restrict_token (insert k S) t) d"
  shows "reads L dcomp t k v d"
proof -
  have "k \<notin> set core_ids" using assms(1) by (auto simp: core_ids_def cat_ids_def)
  then show ?thesis using assms by (simp add: reads_def decode_claim_value_def)
qed

lemma reads_other:
  assumes "k \<in> set other_ids" "\<And>S. costs L (decode_other_claim L k v (restrict_token S t)) (restrict_token (insert k S) t) d"
  shows "reads L dcomp t k v d"
proof -
  have "k \<notin> set core_ids" "k \<notin> set cat_ids" using assms(1) by (auto simp: core_ids_def cat_ids_def other_ids_def)
  then show ?thesis using assms by (simp add: reads_def decode_claim_value_def)
qed

lemma costs_set_opt:
  assumes "costs L m (Some a) d" "f a = b"
  shows "costs L (dbind m (\<lambda>x. case x of Some y \<Rightarrow> dret (f y) | None \<Rightarrow> dret t)) b d"
  using costs_dbind[OF assms(1), of "\<lambda>x. case x of Some y \<Rightarrow> dret (f y) | None \<Rightarrow> dret t" b counters_zero] assms(2)
  by (simp add: costs_dret)

lemma flat_reads_core:
  assumes w: "core_wire L (t_core t)" and cf: "\<And>k. k \<in> set standard_ids \<Longrightarrow> custom_free k t"
  shows
  "c_iss (t_core t) = Some s \<Longrightarrow> reads L dcomp t CLAIM_ISS (CText s) (cstring s)"
  "c_aud (t_core t) = Some as \<Longrightarrow> reads L dcomp t CLAIM_AUD (text_array as) (aud_cost as)"
  "c_exp (t_core t) = Some n \<Longrightarrow> reads L dcomp t CLAIM_EXP (CInt n) counters_zero"
  "c_nbf (t_core t) = Some n \<Longrightarrow> reads L dcomp t CLAIM_NBF (CInt n) counters_zero"
  "c_cti (t_core t) = Some b \<Longrightarrow> reads L dcomp t CLAIM_CTI (CBytes b) counters_zero"
proof -
  have ids: "custom_free CLAIM_ISS t" "custom_free CLAIM_AUD t" "custom_free CLAIM_EXP t" "custom_free CLAIM_NBF t"
    "custom_free CLAIM_CTI t"
    by (simp_all add: cf standard_ids_def core_ids_def)
  note rules = w[unfolded core_wire_def on_some_def]
  show "c_iss (t_core t) = Some s \<Longrightarrow> reads L dcomp t CLAIM_ISS (CText s) (cstring s)"
    "c_aud (t_core t) = Some as \<Longrightarrow> reads L dcomp t CLAIM_AUD (text_array as) (aud_cost as)"
    "c_exp (t_core t) = Some n \<Longrightarrow> reads L dcomp t CLAIM_EXP (CInt n) counters_zero"
    "c_nbf (t_core t) = Some n \<Longrightarrow> reads L dcomp t CLAIM_NBF (CInt n) counters_zero"
    "c_cti (t_core t) = Some b \<Longrightarrow> reads L dcomp t CLAIM_CTI (CBytes b) counters_zero"
    using rules
    by (auto intro!: reads_core costs_last costs_text_claim costs_aud costs_date costs_bytes
        simp: core_ids_def decode_core_claim_def restrict_set_claims ids)
qed

lemma flat_reads_cat:
  assumes w: "cat_wire L (t_cat t)" and cf: "\<And>k. k \<in> set standard_ids \<Longrightarrow> custom_free k t"
  shows
  "catreplay (t_cat t) = Some r \<Longrightarrow> reads L dcomp t CLAIM_CATREPLAY (CInt (uint (replay_protection_u32 r))) counters_zero"
  "catpor (t_cat t) = Some p \<Longrightarrow> encode_catpor p = Inr v \<Longrightarrow> reads L dcomp t CLAIM_CATPOR v counters_zero"
  "catv (t_cat t) = Some n \<Longrightarrow> reads L dcomp t CLAIM_CATV (CInt (uint n)) counters_zero"
  "catnip (t_cat t) = Some ns \<Longrightarrow> encode_catnip ns = Some (Inr v) \<Longrightarrow> reads L dcomp t CLAIM_CATNIP v (items_cost ns)"
  "catu (t_cat t) = Some us \<Longrightarrow> reads L dcomp t CLAIM_CATU (encode_catu us) (catu_cost us)"
  "catm (t_cat t) = Some ms \<Longrightarrow> reads L dcomp t CLAIM_CATM (text_array ms) (items_cost ms)"
  "catalpn (t_cat t) = Some al \<Longrightarrow> reads L dcomp t CLAIM_CATALPN (CArray (map CBytes al)) (items_cost al)"
  "cath (t_cat t) = Some hs \<Longrightarrow> reads L dcomp t CLAIM_CATH (encode_cath hs) (cath_cost hs)"
  "catgeoiso3166 (t_cat t) = Some cs \<Longrightarrow> reads L dcomp t CLAIM_CATGEOISO3166 (text_array cs) (items_cost cs)"
  "catgeocoord (t_cat t) = Some gs \<Longrightarrow> encode_catgeocoord gs = Inr v \<Longrightarrow> reads L dcomp t CLAIM_CATGEOCOORD v (items_cost gs)"
  "geohash (t_cat t) = Some gh \<Longrightarrow> reads L dcomp t CLAIM_GEOHASH (text_or_array gh) counters_zero"
  "catgeoalt (t_cat t) = Some ga \<Longrightarrow> encode_catgeoalt ga = Inr v \<Longrightarrow> reads L dcomp t CLAIM_CATGEOALT v counters_zero"
  "cattpk (t_cat t) = Some b \<Longrightarrow> reads L dcomp t CLAIM_CATTPK (CBytes b) counters_zero"
proof -
  have ids: "custom_free k t" if "k \<in> set cat_ids" for k
    using that by (simp add: cf standard_ids_def)
  note ids = ids[unfolded cat_ids_def, simplified]
  have free: "custom_free CLAIM_CATREPLAY t" "custom_free CLAIM_CATPOR t" "custom_free CLAIM_CATV t"
    "custom_free CLAIM_CATNIP t" "custom_free CLAIM_CATU t" "custom_free CLAIM_CATM t" "custom_free CLAIM_CATALPN t"
    "custom_free CLAIM_CATH t" "custom_free CLAIM_CATGEOISO3166 t" "custom_free CLAIM_CATGEOCOORD t"
    "custom_free CLAIM_GEOHASH t" "custom_free CLAIM_CATGEOALT t" "custom_free CLAIM_CATTPK t"
    by (simp_all add: ids)
  note rules = w[unfolded cat_wire_def on_some_def]
  note costs = costs_catreplay costs_catpor costs_catv costs_catnip costs_catu costs_catm costs_catalpn costs_cath
    costs_catgeoiso costs_catgeocoord costs_geohash costs_catgeoalt costs_bytes
  show
  "catreplay (t_cat t) = Some r \<Longrightarrow> reads L dcomp t CLAIM_CATREPLAY (CInt (uint (replay_protection_u32 r))) counters_zero"
  "catpor (t_cat t) = Some p \<Longrightarrow> encode_catpor p = Inr v \<Longrightarrow> reads L dcomp t CLAIM_CATPOR v counters_zero"
  "catv (t_cat t) = Some n \<Longrightarrow> reads L dcomp t CLAIM_CATV (CInt (uint n)) counters_zero"
  "catnip (t_cat t) = Some ns \<Longrightarrow> encode_catnip ns = Some (Inr v) \<Longrightarrow> reads L dcomp t CLAIM_CATNIP v (items_cost ns)"
  "catu (t_cat t) = Some us \<Longrightarrow> reads L dcomp t CLAIM_CATU (encode_catu us) (catu_cost us)"
  "catm (t_cat t) = Some ms \<Longrightarrow> reads L dcomp t CLAIM_CATM (text_array ms) (items_cost ms)"
  "catalpn (t_cat t) = Some al \<Longrightarrow> reads L dcomp t CLAIM_CATALPN (CArray (map CBytes al)) (items_cost al)"
  "cath (t_cat t) = Some hs \<Longrightarrow> reads L dcomp t CLAIM_CATH (encode_cath hs) (cath_cost hs)"
  "catgeoiso3166 (t_cat t) = Some cs \<Longrightarrow> reads L dcomp t CLAIM_CATGEOISO3166 (text_array cs) (items_cost cs)"
  "catgeocoord (t_cat t) = Some gs \<Longrightarrow> encode_catgeocoord gs = Inr v \<Longrightarrow> reads L dcomp t CLAIM_CATGEOCOORD v (items_cost gs)"
  "geohash (t_cat t) = Some gh \<Longrightarrow> reads L dcomp t CLAIM_GEOHASH (text_or_array gh) counters_zero"
  "catgeoalt (t_cat t) = Some ga \<Longrightarrow> encode_catgeoalt ga = Inr v \<Longrightarrow> reads L dcomp t CLAIM_CATGEOALT v counters_zero"
  "cattpk (t_cat t) = Some b \<Longrightarrow> reads L dcomp t CLAIM_CATTPK (CBytes b) counters_zero"
    using rules
    by (auto intro!: reads_cat costs_last costs_set_opt costs
        simp: cat_ids_def decode_cat_claim_def Let_def restrict_set_claims free)
qed

lemma catdpop_wire_nonempty: "catdpop_wire s \<Longrightarrow> encode_catdpop s \<noteq> []"
  by (simp add: catdpop_wire_def)

lemma flat_reads_other:
  assumes w: "other_wire L (t_informational t) (t_dpop t) (t_request t) (t_moqt t)"
    and cf: "\<And>k. k \<in> set standard_ids \<Longrightarrow> custom_free k t"
  shows
  "i_sub (t_informational t) = Some s \<Longrightarrow> reads L dcomp t CLAIM_SUB (CText s) (cstring s)"
  "i_iat (t_informational t) = Some n \<Longrightarrow> reads L dcomp t CLAIM_IAT (CInt n) counters_zero"
  "catifdata (t_informational t) = Some ds \<Longrightarrow> reads L dcomp t CLAIM_CATIFDATA (text_or_array ds) (catifdata_cost ds)"
  "cnf (t_dpop t) = Some cn \<Longrightarrow> encode_cnf cn \<noteq> [] \<and> reads L dcomp t CLAIM_CNF (CMap (encode_cnf cn)) counters_zero"
  "catdpop (t_dpop t) = Some dp \<Longrightarrow> encode_catdpop dp \<noteq> [] \<and> reads L dcomp t CLAIM_CATDPOP (CMap (encode_catdpop dp)) counters_zero"
  "catif (t_request t) = Some ac \<Longrightarrow> reads L dcomp t CLAIM_CATIF (encode_catif ac) (items_cost ac)"
  "catr (t_request t) = Some rn \<Longrightarrow> reads L dcomp t CLAIM_CATR (encode_catr rn) (items_cost (catr_entries rn))"
  "mq_moqt (t_moqt t) = Some ss \<Longrightarrow> encode_moqt ss = Inr v \<Longrightarrow> reads L dcomp t CLAIM_MOQT v counters_zero"
  "mq_reval (t_moqt t) = Some x \<Longrightarrow> encode_moqt_reval x = Inr v \<Longrightarrow> reads L dcomp t CLAIM_MOQT_REVAL v counters_zero"
proof -
  have ids: "custom_free k t" if "k \<in> set other_ids" for k
    using that by (simp add: cf standard_ids_def)
  note ids = ids[unfolded other_ids_def, simplified]
  have free: "custom_free CLAIM_SUB t" "custom_free CLAIM_IAT t" "custom_free CLAIM_CATIFDATA t"
    "custom_free CLAIM_CNF t" "custom_free CLAIM_CATDPOP t" "custom_free CLAIM_CATIF t" "custom_free CLAIM_CATR t"
    "custom_free CLAIM_MOQT t" "custom_free CLAIM_MOQT_REVAL t"
    by (simp_all add: ids)
  note rules = w[unfolded other_wire_def on_some_def]
  note costs = costs_text_claim costs_date costs_catifdata costs_cnf costs_catdpop costs_catif costs_catr costs_moqt
    costs_moqt_reval
  show
  "i_sub (t_informational t) = Some s \<Longrightarrow> reads L dcomp t CLAIM_SUB (CText s) (cstring s)"
  "i_iat (t_informational t) = Some n \<Longrightarrow> reads L dcomp t CLAIM_IAT (CInt n) counters_zero"
  "catifdata (t_informational t) = Some ds \<Longrightarrow> reads L dcomp t CLAIM_CATIFDATA (text_or_array ds) (catifdata_cost ds)"
  "cnf (t_dpop t) = Some cn \<Longrightarrow> encode_cnf cn \<noteq> [] \<and> reads L dcomp t CLAIM_CNF (CMap (encode_cnf cn)) counters_zero"
  "catdpop (t_dpop t) = Some dp \<Longrightarrow> encode_catdpop dp \<noteq> [] \<and> reads L dcomp t CLAIM_CATDPOP (CMap (encode_catdpop dp)) counters_zero"
  "catif (t_request t) = Some ac \<Longrightarrow> reads L dcomp t CLAIM_CATIF (encode_catif ac) (items_cost ac)"
  "catr (t_request t) = Some rn \<Longrightarrow> reads L dcomp t CLAIM_CATR (encode_catr rn) (items_cost (catr_entries rn))"
  "mq_moqt (t_moqt t) = Some ss \<Longrightarrow> encode_moqt ss = Inr v \<Longrightarrow> reads L dcomp t CLAIM_MOQT v counters_zero"
  "mq_reval (t_moqt t) = Some x \<Longrightarrow> encode_moqt_reval x = Inr v \<Longrightarrow> reads L dcomp t CLAIM_MOQT_REVAL v counters_zero"
    using rules
    by (auto intro!: reads_other costs_last costs_set_opt costs
        simp: other_ids_def decode_other_claim_def restrict_set_claims free catdpop_wire_nonempty)
qed

text \<open>All entries of the flat claims, in the order they are written.\<close>

lemma flat_claims_read:
  assumes w: "claims_wire L t"
    and e: "encode_flat_claims (t_core t) (t_cat t) (t_informational t) (t_dpop t) (t_request t) (t_moqt t) = Some (Inr es)"
  shows "list_all2 (reads_entry L dcomp t) es
     (concat (flat_cost_pieces (t_core t) (t_cat t) (t_informational t) (t_dpop t) (t_request t) (t_moqt t)))"
proof (rule in_order_zip[OF e[unfolded encode_flat_claims_def]])
  have cf: "k \<in> set standard_ids \<Longrightarrow> custom_free k t" for k
    using w custom_free_standard unfolding claims_wire_def by blast
  have w': "core_wire L (t_core t)" "cat_wire L (t_cat t)"
    "other_wire L (t_informational t) (t_dpop t) (t_request t) (t_moqt t)"
    using w by (simp_all add: claims_wire_def)
  note ids = standard_ids_def core_ids_def cat_ids_def other_ids_def composite_ids_def
  note all = flat_reads_core[OF w'(1) cf] flat_reads_cat[OF w'(2) cf] flat_reads_other[OF w'(3) cf]
  show "list_all2 (\<lambda>m c. \<forall>e. m = Some (Inr e) \<longrightarrow> list_all2 (reads_entry L dcomp t) e c)
     (flat_steps (t_core t) (t_cat t) (t_informational t) (t_dpop t) (t_request t) (t_moqt t))
     (flat_cost_pieces (t_core t) (t_cat t) (t_informational t) (t_dpop t) (t_request t) (t_moqt t))"
    unfolding flat_steps_def flat_cost_pieces_def list_all2_Cons list_all2_Nil2
    by (intro conjI allI impI refl; (erule put_reads | erule put_r_reads | erule put_map_reads);
        (simp add: all; fail)?; simp add: ids)
qed

end
