(* ===== verification/Cwt_Fits.thy ===== *)
theory Cwt_Fits
  imports Cwt_Codec
begin

text \<open>
  What the encoder writes passes the order check of the decoder: every value it puts into the claim map
  is in deterministic encoding, and nests at most four containers deep.
\<close>

section \<open>Deterministic values of bounded depth\<close>

fun fits :: "nat \<Rightarrow> cbor \<Rightarrow> bool" where
  "fits 0 (CMap m) \<longleftrightarrow> False"
| "fits 0 (CArray xs) \<longleftrightarrow> False"
| "fits 0 (CTag t v) \<longleftrightarrow> False"
| "fits (Suc n) (CMap m) \<longleftrightarrow> distinct (key_fps m) \<and> sorted_wrt canon_less (int_keys m) \<and>
     list_all (\<lambda>(k, v). cbor_nesting k = 0 \<and> fits n v) m"
| "fits (Suc n) (CArray xs) \<longleftrightarrow> list_all (fits n) xs"
| "fits (Suc n) (CTag t v) \<longleftrightarrow> fits n v"
| "fits _ _ \<longleftrightarrow> True"

lemma fits_mono: "fits n v \<Longrightarrow> n \<le> k \<Longrightarrow> fits k v"
proof (induction n v arbitrary: k rule: fits.induct)
  case (4 n m)
  then obtain j where "k = Suc j" "n \<le> j" by (cases k) auto
  with 4 show ?case by (fastforce simp: list_all_iff)
next
  case (5 n xs)
  then obtain j where "k = Suc j" "n \<le> j" by (cases k) auto
  with 5 show ?case by (auto simp: list_all_iff)
next
  case (6 n t v)
  then obtain j where "k = Suc j" "n \<le> j" by (cases k) auto
  with 6 show ?case by simp
qed simp_all

lemma fits_canonical: "fits n v \<Longrightarrow> canonical v"
  by (induction n v rule: fits.induct) (fastforce simp: list_all_iff)+

lemma fits_height: "fits n v \<Longrightarrow> cbor_height v \<le> n"
proof (induction n v rule: fits.induct)
  case (4 n m)
  then show ?case unfolding height_le by (auto simp: list_all_iff)
next
  case (5 n xs)
  then show ?case unfolding height_le by (auto simp: list_all_iff)
qed auto

lemma nesting_le: "cbor_nesting (CMap m) \<le> Suc n \<longleftrightarrow> (\<forall>(k, v) \<in> set m. cbor_nesting k \<le> n \<and> cbor_nesting v \<le> n)"
  "cbor_nesting (CArray xs) \<le> Suc n \<longleftrightarrow> (\<forall>x \<in> set xs. cbor_nesting x \<le> n)"
  using foldr_max_le[of "map (\<lambda>(k, v). max (cbor_nesting k) (cbor_nesting v)) m" n]
    foldr_max_le[of "map cbor_nesting xs" n] by (auto simp: less_Suc_eq_le)

lemma fits_nesting: "fits n v \<Longrightarrow> cbor_nesting v \<le> n"
proof (induction n v rule: fits.induct)
  case (4 n m)
  then show ?case unfolding nesting_le by (auto simp: list_all_iff)
next
  case (5 n xs)
  then show ?case unfolding nesting_le by (auto simp: list_all_iff)
qed auto

lemma fits_leaf: "cbor_nesting v = 0 \<Longrightarrow> fits n v"
  by (cases v; cases n) auto

section \<open>Maps\<close>

lemma key_fps_ints: "key_fps (map (\<lambda>x. (CInt (f x), g x)) xs) = map (FpInt \<circ> f) xs"
  by (induction xs) simp_all

lemma key_fps_texts: "key_fps (map (\<lambda>x. (CText (f x), g x)) xs) = map (FpText \<circ> f) xs"
  by (induction xs) simp_all

lemma int_keys_ints: "list_all (\<lambda>x. in_i64 (f x)) xs \<Longrightarrow> int_keys (map (\<lambda>x. (CInt (f x), g x)) xs) = map f xs"
  by (induction xs) (simp_all add: i64_or_max_def)

lemma int_keys_texts [simp]: "int_keys (map (\<lambda>x. (CText (f x), g x)) xs) = []"
  by (induction xs) simp_all

lemma canon_less_irrefl: "\<not> canon_less a a"
  by (simp add: canon_less_iff)

lemma canon_sorted_distinct: "sorted_wrt canon_less ks \<Longrightarrow> distinct ks"
  by (induction ks) (auto simp: canon_less_irrefl)

text \<open>A map with integer keys in canonical order, and a map with distinct text keys.\<close>

lemma fits_int_map:
  assumes "sorted_wrt canon_less (map f xs)" "list_all (\<lambda>x. in_i64 (f x)) xs" "list_all (\<lambda>x. fits n (g x)) xs"
  shows "fits (Suc n) (CMap (map (\<lambda>x. (CInt (f x), g x)) xs))"
proof -
  have "distinct (map f xs)" by (rule canon_sorted_distinct[OF assms(1)])
  then have "distinct (map (FpInt \<circ> f) xs)" by (auto simp: distinct_map inj_on_def)
  then show ?thesis using assms by (simp add: key_fps_ints int_keys_ints list_all_iff)
qed

lemma fits_text_map:
  assumes "distinct (map f xs)" "list_all (\<lambda>x. fits n (g x)) xs"
  shows "fits (Suc n) (CMap (map (\<lambda>x. (CText (f x), g x)) xs))"
proof -
  have "distinct (map (FpText \<circ> f) xs)" using assms(1) by (auto simp: distinct_map inj_on_def)
  then show ?thesis using assms(2) by (simp add: key_fps_texts list_all_iff)
qed

section \<open>The values of the claims\<close>

lemma fits_number [simp]: "fits n (encode_number_shortest x)"
  by (simp add: encode_number_shortest_def)

lemma fits_text_array [simp]: "fits (Suc n) (text_array ss)"
  by (simp add: text_array_def list_all_iff)

lemma fits_text_or_array [simp]: "fits (Suc n) (text_or_array ss)"
  using text_or_array_cases[of ss] by auto

lemma fits_catpor: "encode_catpor p = Inr v \<Longrightarrow> fits (Suc n) v"
  by (auto simp: encode_catpor_def split: option.splits)

lemma fits_nip: "encode_network_identifier i = Some v \<Longrightarrow> fits (Suc (Suc n)) v"
  by (cases i) (auto simp: Let_def split: if_splits)

lemma fits_catnip: "encode_catnip is = Some (Inr v) \<Longrightarrow> fits (Suc (Suc (Suc n))) v"
proof -
  have "encode_nips is = Some vs \<Longrightarrow> list_all (fits (Suc (Suc n))) vs" for vs
    by (induction "is" arbitrary: vs) (auto simp: fits_nip split: option.splits)
  then show "encode_catnip is = Some (Inr v) \<Longrightarrow> fits (Suc (Suc (Suc n))) v"
    by (auto simp: encode_catnip_def)
qed

lemma fits_matches:
  assumes "matches_wire ms"
  shows "fits (Suc n) (encode_matches ms)"
proof -
  have key: "encode_match_value m = (CInt (match_key m), snd (encode_match_value m)) \<and> in_i64 (match_key m) \<and>
      cbor_nesting (snd (encode_match_value m)) = 0" for m
    by (cases m) (auto simp: match_key_def i64_or_max_def)
  then have e: "encode_matches ms = CMap (map (\<lambda>m. (CInt (match_key m), snd (encode_match_value m))) ms)"
    unfolding encode_matches_wire[OF assms] by (auto intro!: map_cong)
  show ?thesis unfolding e
    by (rule fits_int_map) (use assms key in \<open>auto simp: matches_wire_def list_all_iff fits_leaf\<close>)
qed

lemma fits_catu:
  assumes "catu_wire rs"
  shows "fits (Suc (Suc n)) (encode_catu rs)"
  unfolding catu_wire_encoded[OF assms]
  by (rule fits_int_map) (use assms in \<open>auto simp: catu_wire_def list_all_iff intro: fits_matches\<close>)

lemma fits_cath:
  "list_all (\<lambda>r. matches_wire (hr_matches r)) rs \<Longrightarrow> distinct (map hr_name rs) \<Longrightarrow> fits (Suc (Suc n)) (encode_cath rs)"
  unfolding encode_cath_def by (rule fits_text_map) (auto simp: list_all_iff intro: fits_matches)

lemma fits_catgeocoord: "encode_catgeocoord gs = Inr v \<Longrightarrow> fits (Suc (Suc n)) v"
  by (auto simp: encode_catgeocoord_def list_all_iff)

lemma fits_catgeoalt: "encode_catgeoalt g = Inr v \<Longrightarrow> fits (Suc n) v"
  by (auto simp: encode_catgeoalt_def)

lemma fits_cnf: "fits (Suc n) (CMap (encode_cnf c))"
  by (simp add: encode_cnf_def opt_pair_def canon_less_iff i64_or_max_def split: option.split)

lemma fits_catdpop: "fits (Suc (Suc n)) (CMap (encode_catdpop s))"
  by (simp add: encode_catdpop_def opt_pair_def canon_less_iff i64_or_max_def list_all_iff[of _ "map _ _"]
      split: option.split)

lemma fits_catr: "fits (Suc (Suc n)) (encode_catr r)"
  by (simp add: encode_catr_def catr_entries_def opt_pair_def canon_less_iff i64_or_max_def split: option.split)

definition headers_distinct :: "cat_if_action \<Rightarrow> bool" where
  "headers_distinct a \<longleftrightarrow> (\<forall>hs. ia_headers a = Some hs \<longrightarrow> distinct (map fst hs))"

lemma fits_if_action: "headers_distinct a \<Longrightarrow> fits (Suc (Suc n)) (encode_if_action a)"
proof -
  assume h: "headers_distinct a"
  have "fits (Suc n) (CMap (map (\<lambda>(k, v). (CText k, CText v)) hs))" if "ia_headers a = Some hs" for hs
  proof -
    have "map (\<lambda>(k, v). (CText k, CText v)) hs = map (\<lambda>h. (CText (fst h), CText (snd h))) hs" by (simp add: case_prod_beta)
    then show ?thesis
      using fits_text_map[of fst hs n "\<lambda>h. CText (snd h)"] h that by (simp only: headers_distinct_def) (simp add: list_all_iff)
  qed
  then show ?thesis by (auto simp: encode_if_action_def split: option.split)
qed

lemma canon_sorted_ascending:
  assumes "sorted_wrt (<) ks" "\<forall>k \<in> set ks. 0 \<le> k"
  shows "sorted_wrt canon_less ks"
  using assms(1) by (rule sorted_wrt_mono_rel[rotated]) (use assms(2) in \<open>auto intro: canon_less_ascending\<close>)

lemma fits_catif:
  assumes w: "catif_wire as" and h: "list_all (\<lambda>p. headers_distinct (snd p)) as"
  shows "fits (Suc (Suc (Suc n))) (encode_catif as)"
proof -
  have e: "encode_catif as = CMap (map (\<lambda>p. (CInt (fst p), encode_if_action (snd p))) as)"
    using w by (simp add: encode_catif_def catif_wire_def sort_key_fst_sorted case_prod_beta)
  show ?thesis unfolding e
  proof (rule fits_int_map)
    show "sorted_wrt canon_less (map fst as)"
      using w by (intro canon_sorted_ascending) (auto simp: catif_wire_def list_all_iff)
    show "list_all (\<lambda>p. in_i64 (fst p)) as" using w by (auto simp: catif_wire_def list_all_iff)
    show "list_all (\<lambda>p. fits (Suc (Suc n)) (encode_if_action (snd p))) as"
      using h by (auto simp: list_all_iff intro: fits_if_action)
  qed
qed

lemma fits_binary_match: "encode_binary_match m = Inr v \<Longrightarrow> fits (Suc n) v"
  by (auto simp: encode_binary_match_def split: binary_match_type.splits)

lemma fits_namespaces: "encode_namespaces b ns = Inr vs \<Longrightarrow> list_all (fits (Suc n)) vs"
proof (induction ns arbitrary: b vs)
  case (Cons m ns)
  then obtain v ws where e: "encode_namespace_match m = Inr v" "encode_namespaces (m = NmNil) ns = Inr ws" "vs = v # ws"
    by (auto split: if_splits)
  moreover have "fits (Suc n) v" using e(1) by (cases m) (auto simp: fits_binary_match split: if_splits)
  ultimately show ?case using Cons.IH by simp
qed simp

lemma fits_scope: "encode_scope s = Inr v \<Longrightarrow> fits (Suc (Suc (Suc n))) v"
  by (auto simp: encode_scope_def list_all_iff[of _ "map _ _"] fits_binary_match fits_namespaces
      split: if_splits option.splits)

lemma fits_moqt: "encode_moqt ss = Inr v \<Longrightarrow> fits (Suc (Suc (Suc (Suc n)))) v"
proof -
  have "list_all (fits (Suc (Suc (Suc n)))) vs" if "list_all2 (\<lambda>s v. encode_scope s = Inr v) ss vs" for vs
    using that by (induction rule: list_all2_induct) (simp_all add: fits_scope)
  then show "encode_moqt ss = Inr v \<Longrightarrow> fits (Suc (Suc (Suc (Suc n)))) v"
    by (auto simp: encode_moqt_def map_r_eq_Inr)
qed

section \<open>All values of the flat claims\<close>

definition names_distinct :: "cat_claims \<Rightarrow> request_claims \<Rightarrow> bool" where
  "names_distinct ca r \<longleftrightarrow> on_some (\<lambda>hs. distinct (map hr_name hs)) (cath ca) \<and>
     on_some (list_all (\<lambda>p. headers_distinct (snd p))) (catif r)"

lemma in_order_all:
  assumes "in_order ms = Some (Inr es)" "list_all (\<lambda>m. \<forall>e. m = Some (Inr e) \<longrightarrow> list_all P e) ms"
  shows "list_all P es"
  using assms by (induction ms arbitrary: es) (auto simp: obind_eq_Inr)

lemma put_all: "put k f m = Some (Inr e) \<Longrightarrow> (\<And>x. m = Some x \<Longrightarrow> P (k, f x)) \<Longrightarrow> list_all P e"
  by (auto simp: put_def split: option.splits)

lemma put_r_all:
  "put_r k f m = Some (Inr e) \<Longrightarrow> (\<And>x v. m = Some x \<Longrightarrow> f x = Some (Inr v) \<Longrightarrow> P (k, v)) \<Longrightarrow> list_all P e"
  by (auto simp: put_r_def obind_eq_Inr split: option.splits)

lemma put_map_all: "put_map k f m = Some (Inr e) \<Longrightarrow> (\<And>x. m = Some x \<Longrightarrow> P (k, CMap (f x))) \<Longrightarrow> list_all P e"
  by (auto simp: put_map_def split: option.splits if_splits)

text \<open>Three claims nest up to four levels deep, the others at most two.\<close>

definition claim_levels :: "cat_claims \<Rightarrow> request_claims \<Rightarrow> moqt_claims \<Rightarrow> nat" where
  "claim_levels ca r m = (if catnip ca = None \<and> catif r = None \<and> mq_moqt m = None then 2 else 4)"

lemma claim_levels_le:
  assumes "claim_levels ca r m \<le> n"
  obtains k where "n = Suc (Suc k)" "catnip ca \<noteq> None \<or> catif r \<noteq> None \<or> mq_moqt m \<noteq> None \<Longrightarrow> \<exists>j. k = Suc (Suc j)"
proof (rule that[of "n - 2"])
  show "n = Suc (Suc (n - 2))" using assms by (simp add: claim_levels_def split: if_splits)
  show "\<exists>j. n - 2 = Suc (Suc j)" if "catnip ca \<noteq> None \<or> catif r \<noteq> None \<or> mq_moqt m \<noteq> None"
    using assms that by (intro exI[of _ "n - 4"]) (auto simp: claim_levels_def split: if_splits)
qed

lemma flat_claims_fit:
  assumes w: "cat_wire L ca" "other_wire L i d r m" "names_distinct ca r" and n: "claim_levels ca r m \<le> n"
    and e: "encode_flat_claims co ca i d r m = Some (Inr es)"
  shows "list_all (\<lambda>p. fits n (snd p)) es"
proof (rule in_order_all[OF e[unfolded encode_flat_claims_def]])
  obtain k where k: "n = Suc (Suc k)"
    and deep: "catnip ca \<noteq> None \<or> catif r \<noteq> None \<or> mq_moqt m \<noteq> None \<Longrightarrow> \<exists>j. k = Suc (Suc j)"
    using claim_levels_le[OF n] by blast
  note wires = w(1)[unfolded cat_wire_def on_some_def] w(2)[unfolded other_wire_def on_some_def]
    w(3)[unfolded names_distinct_def on_some_def]
  have nip: "catnip ca = Some ns \<Longrightarrow> encode_catnip ns = Some (Inr v) \<Longrightarrow> fits (Suc (Suc k)) v" for ns v
    using deep fits_catnip by force
  have fail: "catif r = Some as \<Longrightarrow> fits (Suc (Suc k)) (encode_catif as)" for as
    using deep wires fits_catif by force
  have moqt: "mq_moqt m = Some ss \<Longrightarrow> encode_moqt ss = Inr v \<Longrightarrow> fits (Suc (Suc k)) v" for ss v
    using deep fits_moqt by force
  have reval: "encode_moqt_reval x = Inr v \<Longrightarrow> fits n v" for x v n by (auto simp: encode_moqt_reval_def)
  show "list_all (\<lambda>m. \<forall>e. m = Some (Inr e) \<longrightarrow> list_all (\<lambda>p. fits n (snd p)) e) (flat_steps co ca i d r m)"
    unfolding flat_steps_def list.pred_inject(2) k
    by (intro conjI allI impI list.pred_inject(1); (erule put_all | erule put_r_all | erule put_map_all);
        use wires in \<open>auto simp: list_all_iff[of _ "map _ _"] fits_cnf fits_catdpop
          intro: fits_catpor fits_catu fits_cath fits_catgeocoord fits_catgeoalt fits_catr
            nip fail moqt reval simp del: fits.simps(4)\<close>)
qed

end
