(* ===== verification/Cwt_Payload.thy ===== *)
theory Cwt_Payload
  imports Cwt_Fits "HOL-Library.Multiset"
begin

text \<open>
  The round trip of a whole payload: the map of claims in ascending order, the loop of the decoder over
  it, composite claims and the tokens nested in them.
\<close>

section \<open>The map of claims\<close>

lemma bt_insert_mset: "k \<notin> fst ` set m \<Longrightarrow> mset (bt_insert k v m) = add_mset (k, v) (mset m)"
  by (induction k v m rule: bt_insert.induct) auto

lemma bt_insert_keys: "fst ` set (bt_insert k v m) = insert k (fst ` set m)"
  by (induction k v m rule: bt_insert.induct) auto

lemma bt_insert_sorted: "sorted_wrt (<) (map fst m) \<Longrightarrow> sorted_wrt (<) (map fst (bt_insert k v m))"
proof (induction k v m rule: bt_insert.induct)
  case (2 k v j w m)
  have "\<forall>x \<in> set (bt_insert k v m). j < fst x" if "j < k"
    using bt_insert_keys[of k v m] "2.prems" that by fastforce
  with 2 show ?case by fastforce
qed simp

lemma fold_bt_insert:
  "distinct (map fst es) \<Longrightarrow> fst ` set es \<inter> fst ` set m = {} \<Longrightarrow>
     mset (fold (\<lambda>(k, v). bt_insert k v) es m) = mset es + mset m"
proof (induction es arbitrary: m)
  case (Cons e es)
  then have "fst ` set es \<inter> fst ` set (bt_insert (fst e) (snd e) m) = {}" by (auto simp: bt_insert_keys)
  with Cons show ?case by (simp add: case_prod_beta bt_insert_mset)
qed simp

lemma btree_of_mset: "distinct (map fst es) \<Longrightarrow> mset (btree_of es) = mset es"
  by (simp add: btree_of_def fold_bt_insert)

lemma btree_of_sorted: "sorted_wrt (<) (map fst (btree_of es))"
proof -
  have "sorted_wrt (<) (map fst m) \<Longrightarrow> sorted_wrt (<) (map fst (fold (\<lambda>(k, v). bt_insert k v) es m))" for m
    by (induction es arbitrary: m) (auto simp: bt_insert_sorted)
  then show ?thesis by (simp add: btree_of_def)
qed

lemma csum_fields:
  "csum cs = \<lparr>dc_items = sum_list (map dc_items cs), dc_string_bytes = sum_list (map dc_string_bytes cs),
     dc_regexes = sum_list (map dc_regexes cs), dc_uri_patterns = sum_list (map dc_uri_patterns cs)\<rparr>"
  by (induction cs) (simp_all add: counters_zero_def cadd_def)

lemma csum_mset: "mset cs = mset ds \<Longrightarrow> csum cs = csum ds"
  unfolding csum_fields by (metis mset_map sum_mset_sum_list)

section \<open>The loop over the claims\<close>

definition int_map :: "entries \<Rightarrow> (cbor \<times> cbor) list" where
  "int_map m = map (\<lambda>(k, v). (CInt k, v)) m"

lemma costs_claim:
  assumes "in_i64 k" "costs L (decode_claim_value L dcomp k v s) s' d"
  shows "costs L (decode_claim L dcomp (CInt k, v) s) s' (cadd citem d)"
proof -
  have "costs L (dbind (dlift (claim_label (CInt k))) (\<lambda>k. decode_claim_value L dcomp k v s)) s' d"
    by (rule costs_dbind0[OF costs_dlift]) (use assms in \<open>simp_all add: claim_label_def\<close>)
  then show ?thesis unfolding decode_claim_def fst_conv snd_conv by (rule costs_dbind[OF costs_count(1)])
qed

lemma costs_claims:
  assumes "sorted_wrt (<) (map fst m)" "\<forall>(k, v) \<in> set m. in_i64 k \<and> reads L dcomp t k v (g k)"
    and "fst ` set (t_custom t) \<subseteq> S \<union> fst ` set m" "\<forall>j \<in> S. \<forall>k \<in> fst ` set m. j < k"
  shows "costs L (dfold (decode_claim L dcomp) (int_map m) (restrict_token S t))
     (restrict_token (S \<union> fst ` set m) t) (csum (map (\<lambda>(k, v). cadd citem (g k)) m))"
  using assms
proof (induction m arbitrary: S)
  case Nil
  then show ?case by (simp add: int_map_def costs_dret)
next
  case (Cons kv m)
  obtain k v where kv: "kv = (k, v)" by (cases kv)
  have later: "\<forall>j \<in> fst ` set m. k < j" using Cons.prems(1) by (auto simp: kv)
  have "\<forall>j \<in> fst ` set (t_custom t). j \<in> S \<longleftrightarrow> j < k"
    using Cons.prems(3,4) later by (force simp: kv)
  then have "costs L (decode_claim_value L dcomp k v (restrict_token S t)) (restrict_token (insert k S) t) (g k)"
    using Cons.prems(2) by (simp add: kv reads_def)
  moreover have "in_i64 k" using Cons.prems(2) by (simp add: kv)
  ultimately have head: "costs L (decode_claim L dcomp (CInt k, v) (restrict_token S t))
      (restrict_token (insert k S) t) (cadd citem (g k))" by (intro costs_claim)
  have "costs L (dfold (decode_claim L dcomp) (int_map m) (restrict_token (insert k S) t))
      (restrict_token (insert k S \<union> fst ` set m) t) (csum (map (\<lambda>(k, v). cadd citem (g k)) m))"
    by (rule Cons.IH) (use Cons.prems later in \<open>auto simp: kv\<close>)
  then have "costs L (dbind (decode_claim L dcomp (CInt k, v) (restrict_token S t)) (dfold (decode_claim L dcomp) (int_map m)))
      (restrict_token (insert k S \<union> fst ` set m) t) (cadd (cadd citem (g k)) (csum (map (\<lambda>(k, v). cadd citem (g k)) m)))"
    by (rule costs_dbind[OF head])
  then show ?case by (simp add: int_map_def kv)
qed

section \<open>Composite and custom claims\<close>

definition composite_at :: "int \<Rightarrow> cat_token \<Rightarrow> composite_claim option" where
  "composite_at k t =
     (if k = CLAIM_OR then or_claim (t_composite t)
      else if k = CLAIM_NOR then nor_claim (t_composite t)
      else and_claim (t_composite t))"

lemma reads_composite:
  assumes k: "k \<in> set composite_ids" and c: "composite_at k t = Some c" and f: "custom_free k t"
    and v: "reject_unexpected_tag v ''composite'' = Inr ()" and d: "costs L (dcomp k v) c d"
  shows "reads L dcomp t k v d"
proof -
  have "set_composite_claim k c (restrict_token S t) = restrict_token (insert k S) t" for S
    using k c f by (auto simp: composite_ids_def composite_at_def restrict_set_claims)
  then have "costs L (dbind (dcomp k v) (\<lambda>c. dret (set_composite_claim k c (restrict_token S t))))
      (restrict_token (insert k S) t) d" for S
    by (rule costs_last[OF d])
  then have "costs L (dbind (dlift (reject_unexpected_tag v ''composite'')) (\<lambda>_.
      dbind (dcomp k v) (\<lambda>c. dret (set_composite_claim k c (restrict_token S t))))) (restrict_token (insert k S) t) d" for S
    by (rule costs_dbind0[OF costs_dlift[OF v]])
  moreover have "k \<notin> set core_ids" "k \<notin> set cat_ids" "k \<notin> set other_ids"
    using k by (auto simp: core_ids_def cat_ids_def other_ids_def composite_ids_def)
  ultimately show ?thesis using k by (simp add: reads_def decode_claim_value_def)
qed

lemma update_absent: "k \<notin> fst ` set xs \<Longrightarrow> AList.update k v xs = xs @ [(k, v)]"
  by (induction xs) auto

lemma reads_custom:
  assumes w: "custom_wire L (t_custom t)" and kv: "(k, v) \<in> set (t_custom t)"
  shows "reads L dcomp t k v counters_zero"
  unfolding reads_def
proof (intro allI impI)
  fix S assume S: "\<forall>j \<in> fst ` set (t_custom t). j \<in> S \<longleftrightarrow> j < k"
  obtain xs ys where u: "t_custom t = xs @ (k, v) # ys" using split_list[OF kv] by blast
  have lt: "\<forall>p \<in> set xs. fst p < k" "\<forall>p \<in> set ys. k < fst p"
    using w by (auto simp: custom_wire_def u sorted_wrt_append)
  have inS: "\<forall>p \<in> set xs. fst p \<in> S" "\<forall>p \<in> set ys. fst p \<notin> S" "k \<notin> S" "\<forall>p \<in> set ys. fst p \<noteq> k"
    using S lt unfolding u by force+
  have parts: "filter (\<lambda>(j, v). j \<in> S) xs = xs" "filter (\<lambda>(j, v). j \<in> S) ys = []"
    "filter (\<lambda>(j, v). j = k \<or> j \<in> S) xs = xs" "filter (\<lambda>(j, v). j = k \<or> j \<in> S) ys = []"
    using inS by (auto simp: filter_id_conv filter_empty_conv)
  have xs: "filter (\<lambda>(j, v). j \<in> S) (t_custom t) = xs"
    using parts inS by (simp add: u)
  have "filter (\<lambda>(j, v). j = k \<or> j \<in> S) (t_custom t) = xs @ [(k, v)]"
    using parts inS by (simp add: u)
  moreover have "AList.update k v xs = xs @ [(k, v)]" using lt by (intro update_absent) force
  moreover have std: "k \<notin> set standard_ids" using w kv by (auto simp: custom_wire_def list_all_iff)
  ultimately have "upd_custom (AList.update k v) (restrict_token S t) = restrict_token (insert k S) t"
    using xs by (cases t) (simp add: only_insert standard_ids_def core_ids_def cat_ids_def other_ids_def composite_ids_def)
  moreover have "\<not> custom_full L (restrict_token S t)"
  proof -
    have "t_custom (restrict_token S t) = xs" using xs by (cases t) simp
    moreover have "length xs < max_custom_claims L" using w by (simp add: custom_wire_def u)
    ultimately show ?thesis by (simp add: custom_full_def)
  qed
  ultimately show "costs L (decode_claim_value L dcomp k v (restrict_token S t)) (restrict_token (insert k S) t) counters_zero"
    using std by (simp add: decode_claim_value_def standard_ids_def costs_dret)
qed

section \<open>The labels a token writes, and what reading them back counts\<close>

fun payload_cost :: "cat_token \<Rightarrow> decode_counters"
  and composite_cost :: "composite_claim \<Rightarrow> decode_counters"
  and sets_cost :: "claim_set list \<Rightarrow> decode_counters" where
  "payload_cost (CatToken co ca i d r (CompositeClaims c_or c_nor c_and) m u) =
     csum (map (\<lambda>(k, d). cadd citem d)
       (concat (flat_cost_pieces co ca i d r m) @
        (case c_or of None \<Rightarrow> [] | Some c \<Rightarrow> [(CLAIM_OR, composite_cost c)]) @
        (case c_nor of None \<Rightarrow> [] | Some c \<Rightarrow> [(CLAIM_NOR, composite_cost c)]) @
        (case c_and of None \<Rightarrow> [] | Some c \<Rightarrow> [(CLAIM_AND, composite_cost c)]) @
        map (\<lambda>(k, v). (k, counters_zero)) u))"
| "composite_cost (CompositeClaim oper css) = sets_cost css"
| "sets_cost [] = counters_zero"
| "sets_cost (CsToken t # css) = cadd citem (cadd (payload_cost t) (sets_cost css))"
| "sets_cost (CsComposite c # css) = cadd citem (cadd (composite_cost c) (sets_cost css))"

definition composite_costs :: "cat_token \<Rightarrow> (int \<times> decode_counters) list" where
  "composite_costs t = concat (map (\<lambda>k. cost_of k composite_cost (composite_at k t)) composite_ids)"

definition claim_costs :: "cat_token \<Rightarrow> (int \<times> decode_counters) list" where
  "claim_costs t =
     concat (flat_cost_pieces (t_core t) (t_cat t) (t_informational t) (t_dpop t) (t_request t) (t_moqt t)) @
     composite_costs t @ map (\<lambda>(k, v). (k, counters_zero)) (t_custom t)"

lemma payload_cost_eq: "payload_cost t = csum (map (\<lambda>(k, d). cadd citem d) (claim_costs t))"
proof (cases t)
  case (CatToken co ca i d r cc m u)
  then show ?thesis
    by (cases cc) (simp add: claim_costs_def composite_costs_def composite_ids_def composite_at_def cost_of_def split: option.split)
qed

definition claim_labels :: "cat_token \<Rightarrow> int list" where
  "claim_labels t = map fst (claim_costs t)"

text \<open>Each label is written at most once.\<close>

lemma distinct_pieces:
  assumes "list_all2 (\<lambda>k p. map fst p \<in> {[], [k]}) ks ps" "distinct ks"
  shows "distinct (map fst (concat ps)) \<and> set (map fst (concat ps)) \<subseteq> set ks"
  using assms
proof (induction rule: list_all2_induct)
  case (Cons k ks p ps)
  then have "distinct (map fst (concat ps))" "set (map fst (concat ps)) \<subseteq> set ks" "k \<notin> set ks" by simp_all
  with Cons(1) show ?case by (cases p) auto
qed simp

lemma cost_of_keys: "cost_of k f m = [] \<or> map fst (cost_of k f m) = [k]"
  by (simp add: cost_of_def split: option.split)

lemma claim_labels_eq:
  "\<exists>ps. claim_labels t = ps @ map fst (t_custom t) \<and> distinct ps \<and> set ps \<subseteq> set standard_ids"
proof -
  let ?ps = "flat_cost_pieces (t_core t) (t_cat t) (t_informational t) (t_dpop t) (t_request t) (t_moqt t) @
    map (\<lambda>k. cost_of k composite_cost (composite_at k t)) composite_ids"
  have "list_all2 (\<lambda>k p. map fst p \<in> {[], [k]}) standard_ids ?ps"
    unfolding flat_cost_pieces_def standard_ids_def core_ids_def cat_ids_def other_ids_def composite_ids_def
    by (simp add: cost_of_keys)
  then have "distinct (map fst (concat ?ps))" "set (map fst (concat ?ps)) \<subseteq> set standard_ids"
    using distinct_pieces[of standard_ids ?ps]
    by (auto simp: standard_ids_def core_ids_def cat_ids_def other_ids_def composite_ids_def)
  moreover have "claim_labels t = map fst (concat ?ps) @ map fst (t_custom t)"
    by (simp add: claim_labels_def claim_costs_def composite_costs_def comp_def case_prod_beta)
  ultimately show ?thesis by blast
qed

lemma claim_labels_distinct:
  assumes "custom_wire L (t_custom t)"
  shows "distinct (claim_labels t)"
proof -
  obtain ps where ps: "claim_labels t = ps @ map fst (t_custom t)" "distinct ps" "set ps \<subseteq> set standard_ids"
    using claim_labels_eq[of t] by blast
  have "sorted_wrt (<) (map fst (t_custom t))" using assms by (simp add: custom_wire_def)
  then have "distinct (map fst (t_custom t))" by (simp add: strict_sorted_iff)
  moreover have "set (map fst (t_custom t)) \<inter> set standard_ids = {}"
    using assms by (auto simp: custom_wire_def list_all_iff)
  then have "set ps \<inter> set (map fst (t_custom t)) = {}" using ps(3) by blast
  ultimately show ?thesis using ps by (simp only: distinct_append)
qed

lemma claim_labels_range:
  assumes "custom_wire L (t_custom t)" "k \<in> set (claim_labels t)"
  shows "0 \<le> k \<and> in_i64 k"
proof -
  have "k \<in> set standard_ids \<Longrightarrow> 0 \<le> k"
    by (auto simp: standard_ids_def core_ids_def cat_ids_def other_ids_def composite_ids_def)
  moreover have "k \<in> set standard_ids \<or> k \<in> fst ` set (t_custom t)"
    using claim_labels_eq[of t] assms(2) by auto
  ultimately show ?thesis using assms(1) standard_in_i64[of k] by (auto simp: custom_wire_def list_all_iff)
qed

text \<open>A record is made of its fields.\<close>

lemma record_etas:
  "\<lparr>c_iss = c_iss co, c_aud = c_aud co, c_exp = c_exp co, c_nbf = c_nbf co, c_cti = c_cti co\<rparr> = (co :: core_claims)"
  "\<lparr>catreplay = catreplay ca, catpor = catpor ca, catv = catv ca, catnip = catnip ca, catu = catu ca, catm = catm ca, catalpn = catalpn ca, cath = cath ca, catgeoiso3166 = catgeoiso3166 ca, catgeocoord = catgeocoord ca, geohash = geohash ca, catgeoalt = catgeoalt ca, cattpk = cattpk ca\<rparr> = (ca :: cat_claims)"
  "\<lparr>i_sub = i_sub i, i_iat = i_iat i, catifdata = catifdata i\<rparr> = (i :: informational_claims)"
  "\<lparr>cnf = cnf d, catdpop = catdpop d\<rparr> = (d :: dpop_claims)"
  "\<lparr>catif = catif r, catr = catr r\<rparr> = (r :: request_claims)"
  "\<lparr>mq_moqt = mq_moqt m, mq_reval = mq_reval m\<rparr> = (m :: moqt_claims)"
  by simp_all

text \<open>The part of a token with all its labels is the token.\<close>

lemma only_piece: "cost_of k g f \<in> set ps \<Longrightarrow> fst ` set (concat ps) \<subseteq> S \<Longrightarrow> only S k f = f"
  by (cases f) (force simp: only_def cost_of_def)+

lemma restrict_token_labels: "restrict_token (set (claim_labels t)) t = t"
proof -
  let ?S = "set (claim_labels t)" and
    ?ps = "flat_cost_pieces (t_core t) (t_cat t) (t_informational t) (t_dpop t) (t_request t) (t_moqt t) @
      map (\<lambda>k. cost_of k composite_cost (composite_at k t)) composite_ids"
  have sub: "fst ` set (concat ?ps) \<subseteq> ?S" and custom: "fst ` set (t_custom t) \<subseteq> ?S"
    unfolding claim_labels_def claim_costs_def composite_costs_def by (auto simp: image_iff) force
  note piece = only_piece[OF _ sub, unfolded flat_cost_pieces_def append_Cons list.set]
  have comps: "only ?S k (composite_at k t) = composite_at k t" if "k \<in> set composite_ids" for k
    using that by (intro only_piece[OF _ sub, of k composite_cost]) simp
  obtain co ca i d r cc m u where t: "t = CatToken co ca i d r cc m u" by (cases t)
  obtain a b c where cc: "cc = CompositeClaims a b c" by (cases cc)
  have cs: "only ?S CLAIM_OR a = a" "only ?S CLAIM_NOR b = b" "only ?S CLAIM_AND c = c"
    using comps[of CLAIM_OR] comps[of CLAIM_NOR] comps[of CLAIM_AND]
    by (simp_all add: composite_ids_def composite_at_def t cc)
  have us: "filter (\<lambda>(k, v). k \<in> ?S) u = u" using custom by (auto simp: t filter_id_conv)
  have fields:
    "only ?S CLAIM_ISS (c_iss (t_core t)) = c_iss (t_core t)"
    "only ?S CLAIM_AUD (c_aud (t_core t)) = c_aud (t_core t)"
    "only ?S CLAIM_EXP (c_exp (t_core t)) = c_exp (t_core t)"
    "only ?S CLAIM_NBF (c_nbf (t_core t)) = c_nbf (t_core t)"
    "only ?S CLAIM_CTI (c_cti (t_core t)) = c_cti (t_core t)"
    "only ?S CLAIM_CATREPLAY (catreplay (t_cat t)) = catreplay (t_cat t)"
    "only ?S CLAIM_CATPOR (catpor (t_cat t)) = catpor (t_cat t)"
    "only ?S CLAIM_CATV (catv (t_cat t)) = catv (t_cat t)"
    "only ?S CLAIM_CATNIP (catnip (t_cat t)) = catnip (t_cat t)"
    "only ?S CLAIM_CATU (catu (t_cat t)) = catu (t_cat t)"
    "only ?S CLAIM_CATM (catm (t_cat t)) = catm (t_cat t)"
    "only ?S CLAIM_CATALPN (catalpn (t_cat t)) = catalpn (t_cat t)"
    "only ?S CLAIM_CATH (cath (t_cat t)) = cath (t_cat t)"
    "only ?S CLAIM_CATGEOISO3166 (catgeoiso3166 (t_cat t)) = catgeoiso3166 (t_cat t)"
    "only ?S CLAIM_CATGEOCOORD (catgeocoord (t_cat t)) = catgeocoord (t_cat t)"
    "only ?S CLAIM_GEOHASH (geohash (t_cat t)) = geohash (t_cat t)"
    "only ?S CLAIM_CATGEOALT (catgeoalt (t_cat t)) = catgeoalt (t_cat t)"
    "only ?S CLAIM_CATTPK (cattpk (t_cat t)) = cattpk (t_cat t)"
    "only ?S CLAIM_SUB (i_sub (t_informational t)) = i_sub (t_informational t)"
    "only ?S CLAIM_IAT (i_iat (t_informational t)) = i_iat (t_informational t)"
    "only ?S CLAIM_CATIFDATA (catifdata (t_informational t)) = catifdata (t_informational t)"
    "only ?S CLAIM_CNF (cnf (t_dpop t)) = cnf (t_dpop t)"
    "only ?S CLAIM_CATDPOP (catdpop (t_dpop t)) = catdpop (t_dpop t)"
    "only ?S CLAIM_CATIF (catif (t_request t)) = catif (t_request t)"
    "only ?S CLAIM_CATR (catr (t_request t)) = catr (t_request t)"
    "only ?S CLAIM_MOQT (mq_moqt (t_moqt t)) = mq_moqt (t_moqt t)"
    "only ?S CLAIM_MOQT_REVAL (mq_reval (t_moqt t)) = mq_reval (t_moqt t)"
    by (rule piece, (rule insertI1 | rule insertI2)+)+
  then show ?thesis
    using cs us by (simp add: t cc record_etas)
qed

section \<open>One payload\<close>

text \<open>The encoder, piece by piece.\<close>

lemma encode_payload_token_eq:
  "encode_payload_token E t =
     obind (encode_flat_claims (t_core t) (t_cat t) (t_informational t) (t_dpop t) (t_request t) (t_moqt t)) (\<lambda>es.
     obind (put_r CLAIM_OR (encode_composite_claim E) (or_claim (t_composite t))) (\<lambda>os.
     obind (put_r CLAIM_NOR (encode_composite_claim E) (nor_claim (t_composite t))) (\<lambda>ns.
     obind (put_r CLAIM_AND (encode_composite_claim E) (and_claim (t_composite t))) (\<lambda>as.
       Some (write_claims E (es @ os @ ns @ as @ t_custom t))))))"
proof -
  obtain co ca i d r cc m u where "t = CatToken co ca i d r cc m u" by (cases t)
  moreover obtain a b c where "cc = CompositeClaims a b c" by (cases cc)
  ultimately show ?thesis by (simp add: put_r_def)
qed

text \<open>What is claimed of a composite claim and of a payload with \<open>n\<close> levels of containers.\<close>

definition composite_reads :: "codec_env \<Rightarrow> cwt_limits \<Rightarrow> nat \<Rightarrow> composite_claim \<Rightarrow> bool" where
  "composite_reads E L n c \<longleftrightarrow> (\<forall>v. encode_composite_claim E c = Some (Inr v) \<longrightarrow>
     (\<exists>xs. v = CArray xs) \<and> fits n v \<and>
     (\<forall>f depth. n \<le> f \<longrightarrow> depth + n \<le> max_nesting_depth L \<longrightarrow>
        costs L (decode_composite_claim f E L depth (operator_id (cc_op c)) v) c (composite_cost c)))"

definition lone_composite :: "cat_token \<Rightarrow> bool" where
  "lone_composite t \<longleftrightarrow> (\<exists>k \<in> set composite_ids. claim_labels t = [k])"

definition payload_reads :: "codec_env \<Rightarrow> cwt_limits \<Rightarrow> nat \<Rightarrow> cat_token \<Rightarrow> bool" where
  "payload_reads E L n t \<longleftrightarrow> (\<forall>b. encode_payload_token E t = Some (Inr b) \<longrightarrow>
     (\<exists>m. ce_write E (CMap m) = Inr b \<and> fits n (CMap m) \<and> (nested_composite m = None \<or> lone_composite t) \<and>
       (\<forall>f. n \<le> f \<longrightarrow> n \<le> max_nesting_depth L \<longrightarrow> costs L (decode_payload_from f E L b) t (payload_cost t))))"

lemma entries_keys: "list_all2 (reads_entry L dcomp t) es cs \<Longrightarrow> map fst es = map fst cs"
  by (induction rule: list_all2_induct) (auto simp: reads_entry_def)

lemma custom_entries_read:
  assumes "custom_wire L (t_custom t)"
  shows "list_all2 (reads_entry L dcomp t) (t_custom t) (map (\<lambda>(k, v). (k, counters_zero)) (t_custom t))"
proof -
  have "reads_entry L dcomp t (k, v) (k, counters_zero)" if "(k, v) \<in> set (t_custom t)" for k v
    using assms reads_custom[OF assms that] that by (auto simp: reads_entry_def custom_wire_def list_all_iff)
  then show ?thesis unfolding list_all2_map2 by (intro list.rel_refl_strong) auto
qed

lemma composite_entries_read:
  assumes "custom_wire L (t_custom t)" "k \<in> set composite_ids"
    and "put_r k (encode_composite_claim E) (composite_at k t) = Some (Inr e)"
    and "\<And>c. composite_at k t = Some c \<Longrightarrow> operator_id (cc_op c) = k \<and> composite_reads E L n c"
    and "n \<le> f" "n \<le> max_nesting_depth L"
  shows "list_all2 (reads_entry L (decode_composite_claim f E L 0) t) e (cost_of k composite_cost (composite_at k t))"
proof (rule put_r_reads[OF assms(3)])
  show std: "k \<in> set standard_ids" using assms(2) by (simp add: standard_ids_def)
  fix c v assume c: "composite_at k t = Some c" "encode_composite_claim E c = Some (Inr v)"
  then obtain xs where "v = CArray xs" "costs L (decode_composite_claim f E L 0 k v) c (composite_cost c)"
    using assms(4)[OF c(1)] assms(5,6) unfolding composite_reads_def by force
  then show "reads L (decode_composite_claim f E L 0) t k v (composite_cost c)"
    by (intro reads_composite[OF assms(2) c(1) custom_free_standard[OF assms(1) std]]) simp_all
qed

lemma nested_composite_sound: "nested_composite (int_map m) = Some (i, w) \<Longrightarrow> m = [(i, w)] \<and> i \<in> set composite_ids"
  by (cases m rule: list.exhaust; cases "tl m") (auto simp: int_map_def split: if_splits prod.splits)

lemma fits_int_entries:
  assumes "sorted_wrt (<) (map fst m)" "\<forall>(k, v) \<in> set m. 0 \<le> k \<and> in_i64 k \<and> fits n v"
  shows "fits (Suc n) (CMap (int_map m))"
proof -
  have e: "int_map m = map (\<lambda>p. (CInt (fst p), snd p)) m" by (simp add: int_map_def case_prod_beta)
  show ?thesis unfolding e
    by (rule fits_int_map)
       (use assms in \<open>force simp: list_all_iff intro!: canon_sorted_ascending\<close>)+
qed

definition payload_fits :: "codec_env \<Rightarrow> cwt_limits \<Rightarrow> cat_token \<Rightarrow> bool" where
  "payload_fits E L t \<longleftrightarrow> (\<forall>b. encode_payload_token E t = Some (Inr b) \<longrightarrow> length b \<le> max_cbor_payload_size L)"

definition flat_wire :: "cwt_limits \<Rightarrow> nat \<Rightarrow> cat_token \<Rightarrow> bool" where
  "flat_wire L n t \<longleftrightarrow> claims_wire L t \<and> names_distinct (t_cat t) (t_request t) \<and>
     claim_levels (t_cat t) (t_request t) (t_moqt t) \<le> n \<and> list_all (\<lambda>(k, v). fits n v) (t_custom t)"

lemma costs_payload:
  assumes laws: "codec_laws E" and w: "ce_write E (CMap m) = Inr b" "length b \<le> max_cbor_payload_size L"
    and fit: "fits n (CMap m)" "n \<le> cbor_max_recursion_depth" "n \<le> max_nesting_depth L"
    and c: "costs L (dfold (decode_claim L (decode_composite_claim f E L 0)) m token_new) t d"
  shows "costs L (decode_payload_from (Suc f) E L b) t d"
proof -
  have "decode_one E b = Inr (CMap m)"
    using fits_nesting[OF fit(1)] fit(2) by (intro decode_one_write[OF laws w(1)]) simp
  moreover have "validate_cbor_map_ordering (max_nesting_depth L) m = Inr ()"
    unfolding validate_ordering_exact using fits_canonical[OF fit(1)] fits_height[OF fit(1)] fit(3) by simp
  ultimately show ?thesis using w(2) c
    unfolding decode_payload_Suc by (auto intro!: costs_dbind0[OF costs_dlift])
qed

lemma claim_cost_map:
  assumes "distinct (map fst cs)" "map fst es = map fst cs"
  shows "map (\<lambda>(k, v). cadd citem (the (map_of cs k))) es = map (\<lambda>(k, d). cadd citem d) cs"
proof -
  have "map (\<lambda>(k, v). cadd citem (the (map_of cs k))) es = map (\<lambda>k. cadd citem (the (map_of cs k))) (map fst es)"
    by (simp add: case_prod_beta)
  also have "\<dots> = map (\<lambda>(k, d). cadd citem d) cs"
    using assms by (auto simp: map_of_is_SomeI case_prod_beta)
  finally show ?thesis .
qed

lemma entries_read:
  assumes "list_all2 (reads_entry L dcomp t) es cs" "distinct (map fst cs)" "(k, v) \<in> set es"
  shows "in_i64 k \<and> reads L dcomp t k v (the (map_of cs k))"
proof -
  obtain j where j: "j < length es" "es ! j = (k, v)" using assms(3) by (auto simp: in_set_conv_nth)
  then obtain d where d: "cs ! j = (k, d)" "in_i64 k" "reads L dcomp t k v d"
    using list_all2_nthD[OF assms(1) j(1)] by (cases "cs ! j") (auto simp: reads_entry_def)
  moreover have "j < length cs" using j(1) assms(1) by (simp add: list_all2_lengthD)
  ultimately have "map_of cs k = Some d" using assms(2) by (metis map_of_is_SomeI nth_mem)
  with d show ?thesis by simp
qed

lemma put_r_keys: "put_r k f m = Some (Inr e) \<Longrightarrow> map fst e = map fst (cost_of k g m)"
  by (auto simp: put_r_def cost_of_def obind_eq_Inr split: option.splits)

text \<open>The entries the encoder writes, before they are sorted.\<close>

lemma encoded_entries:
  assumes b: "encode_payload_token E t = Some (Inr b)" and w: "flat_wire L n t"
    and comps: "\<And>k c. k \<in> set composite_ids \<Longrightarrow> composite_at k t = Some c \<Longrightarrow>
      operator_id (cc_op c) = k \<and> composite_reads E L n c"
  obtains es where "write_claims E es = Inr b" "map fst es = claim_labels t" "list_all (\<lambda>p. fits n (snd p)) es"
    "\<And>f. n \<le> f \<Longrightarrow> n \<le> max_nesting_depth L \<Longrightarrow>
       list_all2 (reads_entry L (decode_composite_claim f E L 0) t) es (claim_costs t)"
proof -
  obtain es os ns as where e:
    "encode_flat_claims (t_core t) (t_cat t) (t_informational t) (t_dpop t) (t_request t) (t_moqt t) = Some (Inr es)"
    and p: "put_r CLAIM_OR (encode_composite_claim E) (composite_at CLAIM_OR t) = Some (Inr os)"
    "put_r CLAIM_NOR (encode_composite_claim E) (composite_at CLAIM_NOR t) = Some (Inr ns)"
    "put_r CLAIM_AND (encode_composite_claim E) (composite_at CLAIM_AND t) = Some (Inr as)"
    and wr: "write_claims E (es @ os @ ns @ as @ t_custom t) = Inr b"
    using b unfolding encode_payload_token_eq by (auto simp: obind_eq_Inr composite_at_def)
  have wires: "claims_wire L t" "custom_wire L (t_custom t)" using w by (simp_all add: flat_wire_def claims_wire_def)
  have ids: "CLAIM_OR \<in> set composite_ids" "CLAIM_NOR \<in> set composite_ids" "CLAIM_AND \<in> set composite_ids"
    by (simp_all add: composite_ids_def)
  show thesis
  proof (rule that[OF wr])
    show "map fst (es @ os @ ns @ as @ t_custom t) = claim_labels t"
      using entries_keys[OF flat_claims_read[OF wires(1) e]] p[THEN put_r_keys, of composite_cost]
      by (simp add: claim_labels_def claim_costs_def composite_costs_def composite_ids_def comp_def case_prod_beta)
    have cfit: "list_all (\<lambda>p. fits n (snd p)) e"
      if "k \<in> set composite_ids" "put_r k (encode_composite_claim E) (composite_at k t) = Some (Inr e)" for k e
      using put_r_all[OF that(2), of "\<lambda>p. fits n (snd p)"] comps[OF that(1)] unfolding composite_reads_def by force
    have "list_all (\<lambda>p. fits n (snd p)) es"
      using w e by (intro flat_claims_fit) (auto simp: flat_wire_def claims_wire_def)
    then show "list_all (\<lambda>p. fits n (snd p)) (es @ os @ ns @ as @ t_custom t)"
      using cfit[OF ids(1) p(1)] cfit[OF ids(2) p(2)] cfit[OF ids(3) p(3)] w
      by (auto simp: flat_wire_def list_all_iff)
    fix f assume f: "n \<le> f" "n \<le> max_nesting_depth L"
    show "list_all2 (reads_entry L (decode_composite_claim f E L 0) t) (es @ os @ ns @ as @ t_custom t) (claim_costs t)"
      unfolding claim_costs_def composite_costs_def composite_ids_def list.map concat.simps append_assoc append_Nil2 append_Nil
      by (intro list_all2_appendI flat_claims_read[OF wires(1) e] custom_entries_read[OF wires(2)]
          composite_entries_read[OF wires(2) ids(1) p(1) comps[OF ids(1)] f]
          composite_entries_read[OF wires(2) ids(2) p(2) comps[OF ids(2)] f]
          composite_entries_read[OF wires(2) ids(3) p(3) comps[OF ids(3)] f])
  qed
qed

text \<open>The decoder's loop over the sorted entries.\<close>

lemma costs_sorted_claims:
  assumes r: "list_all2 (reads_entry L dcomp t) es (claim_costs t)" and w: "custom_wire L (t_custom t)"
  shows "costs L (dfold (decode_claim L dcomp) (int_map (btree_of es)) token_new) t (payload_cost t)"
proof -
  have labels: "distinct (map fst (claim_costs t))" "map fst es = map fst (claim_costs t)"
    using claim_labels_distinct[OF w] entries_keys[OF r] by (simp_all add: claim_labels_def)
  then have perm: "mset (btree_of es) = mset es" by (intro btree_of_mset) simp
  then have keys: "fst ` set (btree_of es) = set (claim_labels t)"
    using labels(2) by (metis claim_labels_def list.set_map mset_eq_setD)
  have "costs L (dfold (decode_claim L dcomp) (int_map (btree_of es)) (restrict_token {} t))
      (restrict_token ({} \<union> fst ` set (btree_of es)) t)
      (csum (map (\<lambda>(k, v). cadd citem (the (map_of (claim_costs t) k))) (btree_of es)))"
  proof (rule costs_claims[OF btree_of_sorted])
    show "\<forall>(k, v) \<in> set (btree_of es). in_i64 k \<and> reads L dcomp t k v (the (map_of (claim_costs t) k))"
      using entries_read[OF r labels(1)] perm by (auto dest: mset_eq_setD)
    show "fst ` set (t_custom t) \<subseteq> {} \<union> fst ` set (btree_of es)"
      unfolding keys claim_labels_def claim_costs_def by force
  qed simp
  moreover have "csum (map (\<lambda>(k, v). cadd citem (the (map_of (claim_costs t) k))) (btree_of es)) = payload_cost t"
    unfolding payload_cost_eq claim_cost_map[OF labels, symmetric] by (intro csum_mset) (simp add: perm)
  ultimately show ?thesis by (simp add: keys restrict_token_empty restrict_token_labels)
qed

text \<open>What is written under the labels of the token is in deterministic encoding, and looks like a
  nested composite claim only if the token is one.\<close>

lemma written_map:
  assumes w: "custom_wire L (t_custom t)" and keys: "map fst es = claim_labels t"
    and fit: "list_all (\<lambda>p. fits n (snd p)) es"
  shows "fits (Suc n) (CMap (int_map (btree_of es)))"
    and "nested_composite (int_map (btree_of es)) = None \<or> lone_composite t"
proof -
  have perm: "mset (btree_of es) = mset es"
    using claim_labels_distinct[OF w] keys by (intro btree_of_mset) simp
  have "0 \<le> fst p \<and> in_i64 (fst p)" if "p \<in> set es" for p
    using that claim_labels_range[OF w, of "fst p"] keys[symmetric] by simp
  then show "fits (Suc n) (CMap (int_map (btree_of es)))"
    using fit mset_eq_setD[OF perm]
    by (intro fits_int_entries[OF btree_of_sorted]) (auto simp: list_all_iff)
  show "nested_composite (int_map (btree_of es)) = None \<or> lone_composite t"
  proof (cases "nested_composite (int_map (btree_of es))")
    case (Some iw)
    then obtain i v where "btree_of es = [(i, v)]" "i \<in> set composite_ids"
      using nested_composite_sound[of "btree_of es"] by (cases iw) auto
    moreover from this perm have "es = [(i, v)]" by simp
    then have "claim_labels t = [i]" using keys by simp
    ultimately show ?thesis unfolding lone_composite_def by blast
  qed simp
qed

lemma payload_step:
  assumes laws: "codec_laws E" and w: "flat_wire L n t" "payload_fits E L t" and n: "n < cbor_max_recursion_depth"
    and comps: "\<And>k c. k \<in> set composite_ids \<Longrightarrow> composite_at k t = Some c \<Longrightarrow>
      operator_id (cc_op c) = k \<and> composite_reads E L n c"
  shows "payload_reads E L (Suc n) t"
  unfolding payload_reads_def
proof (intro allI impI)
  fix b assume b: "encode_payload_token E t = Some (Inr b)"
  obtain es where wr: "write_claims E es = Inr b" and keys: "map fst es = claim_labels t"
    and fit: "list_all (\<lambda>p. fits n (snd p)) es"
    and read: "\<And>f. n \<le> f \<Longrightarrow> n \<le> max_nesting_depth L \<Longrightarrow>
       list_all2 (reads_entry L (decode_composite_claim f E L 0) t) es (claim_costs t)"
    using encoded_entries[OF b w(1) comps] by blast
  have cw: "custom_wire L (t_custom t)" using w(1) by (simp add: flat_wire_def claims_wire_def)
  have wmap: "ce_write E (CMap (int_map (btree_of es))) = Inr b"
    using wr by (simp add: write_claims_def int_map_def)
  have "costs L (decode_payload_from f E L b) t (payload_cost t)" if f: "Suc n \<le> f" "Suc n \<le> max_nesting_depth L" for f
  proof -
    obtain g where g: "f = Suc g" "n \<le> g" using f(1) by (cases f) auto
    have "list_all2 (reads_entry L (decode_composite_claim g E L 0) t) es (claim_costs t)"
      using g(2) f(2) by (intro read) simp_all
    then show ?thesis unfolding g(1)
      using w(2) b n f(2)
      by (intro costs_payload[OF laws wmap _ written_map(1)[OF cw keys fit]] costs_sorted_claims[OF _ cw])
         (simp_all add: payload_fits_def)
  qed
  with wmap written_map[OF cw keys fit]
  show "\<exists>m. ce_write E (CMap m) = Inr b \<and> fits (Suc n) (CMap m) \<and> (nested_composite m = None \<or> lone_composite t) \<and>
      (\<forall>f. Suc n \<le> f \<longrightarrow> Suc n \<le> max_nesting_depth L \<longrightarrow> costs L (decode_payload_from f E L b) t (payload_cost t))"
    by blast
qed

section \<open>One composite claim\<close>

definition claim_set_step :: "nat \<Rightarrow> codec_env \<Rightarrow> cwt_limits \<Rightarrow> nat \<Rightarrow> cbor \<Rightarrow> composite_claim \<Rightarrow> composite_claim decode" where
  "claim_set_step f E L depth x cl =
     dbind (count_item L) (\<lambda>_.
     dbind (dlift (map_value (InvalidClaimValue ''Composite claim set must be a map'') x)) (\<lambda>m.
       case nested_composite m of
         Some (i, w) \<Rightarrow> dbind (decode_composite_claim f E L (depth + 1) i w) (\<lambda>d. dret (add_composite d cl))
       | None \<Rightarrow>
           dbind (dlift (ce_write E x)) (\<lambda>buf.
           dbind (decode_payload_from f E L buf) (\<lambda>t. dret (add_token t cl)))))"

lemma decode_composite_step:
  "decode_composite_claim (Suc f) E L depth k v =
     (if depth \<ge> max_nesting_depth L then dfail (InvalidClaimValue ''Composite claim nesting too deep'')
      else
        dbind (dlift (operator_of k)) (\<lambda>oper.
        dbind (dlift (array_value (InvalidClaimValue ''Composite claim must be an array'') v)) (\<lambda>xs.
        dfold (claim_set_step f E L depth) xs (composite_new oper))))"
  unfolding decode_composite_Suc claim_set_step_def ..

lemma operator_of_id: "operator_of (operator_id oper) = Inr oper" "operator_id oper \<in> set composite_ids"
  by (cases oper; simp add: operator_of_def composite_ids_def)+

lemma costs_token_set:
  assumes laws: "codec_laws E" and w: "ce_write E (CMap m) = Inr b" "nested_composite m = None"
    and c: "costs L (decode_payload_from f E L b) t d"
  shows "costs L (claim_set_step f E L depth (CMap m) (CompositeClaim oper acc)) (CompositeClaim oper (acc @ [CsToken t])) (cadd citem d)"
proof -
  have "costs L (dbind (decode_payload_from f E L b) (\<lambda>t. dret (add_token t (CompositeClaim oper acc))))
      (CompositeClaim oper (acc @ [CsToken t])) d"
    by (rule costs_last[OF c]) (simp add: add_token_def)
  then have "costs L (dbind (dlift (ce_write E (CMap m))) (\<lambda>buf. dbind (decode_payload_from f E L buf)
      (\<lambda>t. dret (add_token t (CompositeClaim oper acc))))) (CompositeClaim oper (acc @ [CsToken t])) d"
    by (rule costs_dbind0[OF costs_dlift[OF w(1)]])
  then show ?thesis unfolding claim_set_step_def
    by (intro costs_dbind[OF costs_count(1)]) (simp add: w(2) costs_dbind0[OF costs_dlift])
qed

lemma costs_composite_set:
  assumes "costs L (decode_composite_claim f E L (depth + 1) (operator_id o') v) c d"
  shows "costs L (claim_set_step f E L depth (CMap [(CInt (operator_id o'), v)]) (CompositeClaim oper acc))
     (CompositeClaim oper (acc @ [CsComposite c])) (cadd citem d)"
proof -
  have "costs L (dbind (decode_composite_claim f E L (depth + 1) (operator_id o') v)
      (\<lambda>c. dret (add_composite c (CompositeClaim oper acc)))) (CompositeClaim oper (acc @ [CsComposite c])) d"
    by (rule costs_last[OF assms]) (simp add: add_composite_def)
  then show ?thesis unfolding claim_set_step_def
    by (intro costs_dbind[OF costs_count(1)]) (simp add: operator_of_id costs_dbind0[OF costs_dlift])
qed

fun set_reads :: "codec_env \<Rightarrow> cwt_limits \<Rightarrow> nat \<Rightarrow> claim_set \<Rightarrow> bool" where
  "set_reads E L n (CsToken t) \<longleftrightarrow> payload_reads E L n t \<and> \<not> lone_composite t"
| "set_reads E L n (CsComposite c) \<longleftrightarrow> (\<exists>k. n = Suc k \<and> composite_reads E L k c)"

definition sets_read :: "codec_env \<Rightarrow> cwt_limits \<Rightarrow> nat \<Rightarrow> claim_set list \<Rightarrow> cbor list \<Rightarrow> bool" where
  "sets_read E L n css vs \<longleftrightarrow> list_all (fits n) vs \<and>
     (\<forall>f depth oper acc. n \<le> f \<longrightarrow> depth + n < max_nesting_depth L \<longrightarrow>
        costs L (dfold (claim_set_step f E L depth) vs (CompositeClaim oper acc)) (CompositeClaim oper (acc @ css))
          (sets_cost css))"

lemma sets_read_Cons:
  assumes "fits n v" "sets_read E L n css vs"
    and "\<And>f depth oper acc. n \<le> f \<Longrightarrow> depth + n < max_nesting_depth L \<Longrightarrow>
      costs L (claim_set_step f E L depth v (CompositeClaim oper acc)) (CompositeClaim oper (acc @ [cs])) d"
    and "sets_cost (cs # css) = cadd d (sets_cost css)"
  shows "sets_read E L n (cs # css) (v # vs)"
  unfolding sets_read_def
proof (intro conjI allI impI)
  show "list_all (fits n) (v # vs)" using assms(1,2) by (simp add: sets_read_def)
  fix f depth oper acc assume f: "n \<le> f" "depth + n < max_nesting_depth L"
  then have "costs L (dfold (claim_set_step f E L depth) vs (CompositeClaim oper (acc @ [cs])))
      (CompositeClaim oper ((acc @ [cs]) @ css)) (sets_cost css)"
    using assms(2) unfolding sets_read_def by blast
  then show "costs L (dfold (claim_set_step f E L depth) (v # vs) (CompositeClaim oper acc))
      (CompositeClaim oper (acc @ cs # css)) (sets_cost (cs # css))"
    unfolding assms(4) dfold.simps by (intro costs_dbind[OF assms(3)[OF f]]) simp
qed

lemma sets_step:
  assumes laws: "codec_laws E" and n: "n \<le> cbor_max_recursion_depth"
  shows "list_all (set_reads E L n) css \<Longrightarrow> encode_claim_sets E css = Some (Inr vs) \<Longrightarrow> sets_read E L n css vs"
proof (induction css arbitrary: vs)
  case Nil
  then show ?case by (simp add: sets_read_def costs_dret)
next
  case (Cons cs css)
  show ?case
  proof (cases cs)
    case (CsToken t)
    obtain b v ws where b: "encode_payload_token E t = Some (Inr b)" and v: "rbind (ce_read E b) (\<lambda>(v, _). Inr v) = Inr v"
      and ws: "encode_claim_sets E css = Some (Inr ws)" "vs = v # ws"
      using Cons.prems(2) unfolding CsToken by (auto simp: obind_eq_Inr)
    obtain m where m: "ce_write E (CMap m) = Inr b" "fits n (CMap m)" "nested_composite m = None"
      and c: "\<And>f. n \<le> f \<Longrightarrow> n \<le> max_nesting_depth L \<Longrightarrow> costs L (decode_payload_from f E L b) t (payload_cost t)"
      using Cons.prems(1) b unfolding CsToken by (auto simp: payload_reads_def)
    have vm: "v = CMap m" using v ce_read_write[OF laws m(1)] fits_nesting[OF m(2)] n by simp
    show ?thesis unfolding CsToken ws(2) vm
      using m(2) Cons.IH[OF _ ws(1)] Cons.prems(1)
      by (intro sets_read_Cons[where d = "cadd citem (payload_cost t)"] costs_token_set[OF laws m(1,3)] c)
         (simp_all add: cadd_assoc)
  next
    case (CsComposite c)
    obtain v ws where v: "encode_composite_claim E c = Some (Inr v)"
      and ws: "encode_claim_sets E css = Some (Inr ws)" "vs = CMap [(CInt (operator_id (cc_op c)), v)] # ws"
      using Cons.prems(2) unfolding CsComposite by (auto simp: obind_eq_Inr)
    obtain k where k: "n = Suc k" "fits k v"
      and d: "\<And>f depth. k \<le> f \<Longrightarrow> depth + k \<le> max_nesting_depth L \<Longrightarrow>
        costs L (decode_composite_claim f E L depth (operator_id (cc_op c)) v) c (composite_cost c)"
      using Cons.prems(1) v unfolding CsComposite by (auto simp: composite_reads_def)
    show ?thesis unfolding CsComposite ws(2)
      using k Cons.IH[OF _ ws(1)] Cons.prems(1)
      by (intro sets_read_Cons[where d = "cadd citem (composite_cost c)"] costs_composite_set d)
         (simp_all add: cadd_assoc)
  qed
qed

lemma composite_step:
  assumes laws: "codec_laws E" and n: "n < cbor_max_recursion_depth" and s: "list_all (set_reads E L n) css"
  shows "composite_reads E L (Suc n) (CompositeClaim oper css)"
  unfolding composite_reads_def
proof (intro allI impI)
  fix v assume "encode_composite_claim E (CompositeClaim oper css) = Some (Inr v)"
  then obtain vs where vs: "encode_claim_sets E css = Some (Inr vs)" "v = CArray vs" by (auto simp: obind_eq_Inr)
  have r: "sets_read E L n css vs" using n by (intro sets_step[OF laws _ s vs(1)]) simp
  have "costs L (decode_composite_claim f E L depth (operator_id oper) v) (CompositeClaim oper css) (sets_cost css)"
    if f: "Suc n \<le> f" "depth + Suc n \<le> max_nesting_depth L" for f depth
  proof -
    obtain g where g: "f = Suc g" "n \<le> g" using f(1) by (cases f) auto
    have "costs L (dfold (claim_set_step g E L depth) vs (composite_new oper)) (CompositeClaim oper css) (sets_cost css)"
      using r g(2) f(2) unfolding sets_read_def composite_new_def by (metis Suc_le_eq add_Suc_right append_Nil)
    then show ?thesis unfolding g(1) decode_composite_step vs(2)
      using f(2) by (auto simp: operator_of_id intro!: costs_dbind0[OF costs_dlift])
  qed
  then show "(\<exists>xs. v = CArray xs) \<and> fits (Suc n) v \<and>
     (\<forall>f depth. Suc n \<le> f \<longrightarrow> depth + Suc n \<le> max_nesting_depth L \<longrightarrow>
        costs L (decode_composite_claim f E L depth (operator_id (cc_op (CompositeClaim oper css))) v)
          (CompositeClaim oper css) (composite_cost (CompositeClaim oper css)))"
    using r vs(2) by (simp add: sets_read_def)
qed

end
