(* ===== verification/Cwt_Wire.thy ===== *)
theory Cwt_Wire
  imports Cwt_Payload
begin

text \<open>
  The tokens the wire form of \<open>src/src/cwt.rs\<close> carries, the round trip of \<open>encode_payload\<close> and
  \<open>decode_payload_with_limits\<close> on them, and two kinds of token it does not carry.
\<close>

section \<open>Tokens the wire form carries\<close>

text \<open>\<open>n\<close> is the number of container levels there is room for. A nested token whose only claim is a
  composite claim is written like that claim; a composite claim is read with the operator of the label
  it stands under.\<close>

fun token_wire :: "codec_env \<Rightarrow> cwt_limits \<Rightarrow> nat \<Rightarrow> cat_token \<Rightarrow> bool"
  and composite_wire :: "codec_env \<Rightarrow> cwt_limits \<Rightarrow> nat \<Rightarrow> composite_claim \<Rightarrow> bool"
  and set_wire :: "codec_env \<Rightarrow> cwt_limits \<Rightarrow> nat \<Rightarrow> claim_set \<Rightarrow> bool" where
  "token_wire E L n (CatToken co ca i d r (CompositeClaims c_or c_nor c_and) m u) \<longleftrightarrow>
     0 < n \<and> flat_wire L (n - 1) (CatToken co ca i d r (CompositeClaims c_or c_nor c_and) m u) \<and>
     payload_fits E L (CatToken co ca i d r (CompositeClaims c_or c_nor c_and) m u) \<and>
     (case c_or of None \<Rightarrow> True | Some c \<Rightarrow> cc_op c = OpOr \<and> composite_wire E L (n - 1) c) \<and>
     (case c_nor of None \<Rightarrow> True | Some c \<Rightarrow> cc_op c = OpNor \<and> composite_wire E L (n - 1) c) \<and>
     (case c_and of None \<Rightarrow> True | Some c \<Rightarrow> cc_op c = OpAnd \<and> composite_wire E L (n - 1) c)"
| "composite_wire E L n (CompositeClaim oper css) \<longleftrightarrow> 0 < n \<and> list_all (set_wire E L (n - 1)) css"
| "set_wire E L n (CsToken t) \<longleftrightarrow> token_wire E L n t \<and> \<not> lone_composite t"
| "set_wire E L n (CsComposite c) \<longleftrightarrow> 0 < n \<and> composite_wire E L (n - 1) c"

lemma wire_reads:
  "codec_laws E \<Longrightarrow> token_wire E L n t \<Longrightarrow> n \<le> cbor_max_recursion_depth \<Longrightarrow> payload_reads E L n t"
  "codec_laws E \<Longrightarrow> composite_wire E L n c \<Longrightarrow> n \<le> cbor_max_recursion_depth \<Longrightarrow> composite_reads E L n c"
  "codec_laws E \<Longrightarrow> set_wire E L n cs \<Longrightarrow> n \<le> cbor_max_recursion_depth \<Longrightarrow> set_reads E L n cs"
proof (induction E L n t and E L n c and E L n cs rule: token_wire_composite_wire_set_wire.induct)
  case (1 E L n co ca i d r c_or c_nor c_and m u)
  let ?t = "CatToken co ca i d r (CompositeClaims c_or c_nor c_and) m u"
  obtain k where k: "n = Suc k" using "1.prems" by (cases n) auto
  have "operator_id (cc_op c) = j \<and> composite_reads E L k c"
    if "j \<in> set composite_ids" "composite_at j ?t = Some c" for j c
    using "1.IH" "1.prems" that by (auto simp: k composite_ids_def composite_at_def)
  then show ?case unfolding k using "1.prems"
    by (intro payload_step) (auto simp: k)
next
  case (2 E L n oper css)
  obtain k where k: "n = Suc k" using "2.prems" by (cases n) auto
  have "list_all (set_reads E L k) css" using 2 by (auto simp: k list_all_iff)
  then show ?case unfolding k using "2.prems" by (intro composite_step) (auto simp: k)
next
  case (4 E L n c)
  then show ?case by (cases n) auto
qed auto

text \<open>The encoder does not panic on such a token.\<close>

lemma in_order_ended: "list_all ended ms \<Longrightarrow> ended (in_order ms)"
  by (induction ms) (auto intro!: obind_total)

lemma put_ended: "ended (put k f m)" "ended (put_map k h m)"
  "(\<And>x. m = Some x \<Longrightarrow> ended (j x)) \<Longrightarrow> ended (put_r k j m)"
  by (auto simp: put_def put_map_def put_r_def intro!: obind_total split: option.split)

lemma flat_claims_ended:
  assumes "on_some (catnip_wire L) (catnip ca)"
  shows "ended (encode_flat_claims co ca i d r m)"
proof -
  have "catnip ca = Some ns \<Longrightarrow> ended (encode_catnip ns)" for ns
    using assms encode_nips_Some[of ns] by (auto simp: on_some_def catnip_wire_def encode_catnip_def)
  then show ?thesis
    unfolding encode_flat_claims_def by (intro in_order_ended) (simp add: flat_steps_def put_ended)
qed

lemma wire_encodes:
  "token_wire E L n t \<Longrightarrow> ended (encode_payload_token E t)"
  "composite_wire E L n c \<Longrightarrow> ended (encode_composite_claim E c)"
  "set_wire E L n cs \<Longrightarrow> \<forall>css. ended (encode_claim_sets E css) \<longrightarrow> ended (encode_claim_sets E (cs # css))"
proof (induction E L n t and E L n c and E L n cs rule: token_wire_composite_wire_set_wire.induct)
  case (1 E L n co ca i d r c_or c_nor c_and m u)
  then have "on_some (catnip_wire L) (catnip ca)" by (simp add: flat_wire_def claims_wire_def cat_wire_def)
  note flat = flat_claims_ended[OF this]
  show ?case unfolding encode_payload_token_eq
    using 1 by (auto intro!: obind_total flat put_ended(3))
next
  case (2 E L n oper css)
  have "set xs \<subseteq> set css \<Longrightarrow> ended (encode_claim_sets E xs)" for xs
    using 2 by (induction xs) (auto simp: list_all_iff)
  then show ?case by (auto intro!: obind_total)
qed (auto intro!: obind_total)

section \<open>Round trip\<close>

lemma payload_reads_back:
  assumes "codec_laws E" "limits_built L" "token_wire E L (max_nesting_depth L) t"
    and "counters_ok L (payload_cost t)" "encode_payload_token E t = Some (Inr b)"
  shows "decode_payload_with_limits E L b = Inr t"
proof -
  have n: "max_nesting_depth L \<le> cbor_max_recursion_depth"
    using limits_built_range[OF assms(2)] by (simp add: fields_of_def cap_limits_def cbor_max_recursion_depth_def)
  then have "costs L (decode_payload_from (Suc cbor_max_recursion_depth) E L b) t (payload_cost t)"
    using wire_reads(1)[OF assms(1,3) n] assms(5) unfolding payload_reads_def by auto
  then have "decode_payload_from (Suc cbor_max_recursion_depth) E L b counters_zero = Some (Inr (t, payload_cost t))"
    using assms(4) unfolding costs_def by (metis cadd_zero(1))
  then show ?thesis by (simp add: decode_payload_with_limits_def del: decode_payload_from.simps)
qed

text \<open>C18: what \<open>encode_payload\<close> writes for a token the wire form carries, composite claims and the
  tokens nested in them included, \<open>decode_payload_with_limits\<close> reads back as the same token, for
  limits from the builder whose counters the token stays within.\<close>

theorem payload_roundtrip:
  assumes "codec_laws E" "limits_built L" "token_wire E L (max_nesting_depth L) t"
    and "counters_ok L (payload_cost t)" "encode_payload_token E t = Some (Inr b)"
  shows "decode_payload_with_limits E L b = Inr t"
  using assms by (rule payload_reads_back)

section \<open>What it does not carry\<close>

text \<open>A composite claim is written without its operator: under each label every operator gives the
  same bytes, so what was built as a conjunction is read as a disjunction when it was set as the
  \<open>or\<close> claim.\<close>

lemma operator_not_written:
  "encode_payload_token E (with_or_composite (CompositeClaim OpAnd css) t) =
     encode_payload_token E (with_or_composite (CompositeClaim OpOr css) t)"
proof -
  obtain co ca i d r cc m u where "t = CatToken co ca i d r cc m u" by (cases t)
  moreover obtain a b c where "cc = CompositeClaims a b c" by (cases cc)
  ultimately show ?thesis by (simp add: with_or_composite_def)
qed

definition negative_custom :: "string \<Rightarrow> int \<Rightarrow> cbor \<Rightarrow> cat_token" where
  "negative_custom s k v = upd_custom (AList.update k v) (upd_core (\<lambda>c. c\<lparr>c_iss := Some s\<rparr>) token_new)"

text \<open>C22: a custom claim under a negative label is accepted and written, but the map is in ascending
  order of the labels while the decoder wants the negative ones last: the token is refused.\<close>

theorem negative_custom_refused:
  assumes "codec_laws E" "k < 0" "in_i64 k" "cbor_nesting v < cbor_max_recursion_depth"
    and "encode_payload_token E (negative_custom s k v) = Some (Inr b)"
  shows "set_custom_claim k v (upd_core (\<lambda>c. c\<lparr>c_iss := Some s\<rparr>) token_new) = Inr (negative_custom s k v) \<and>
     \<not> is_ok (decode_payload_with_limits E L b)"
proof -
  have "encode_payload_token E (negative_custom s k v) = Some (ce_write E (CMap [(CInt k, v), (CInt 1, CText s)]))"
    using assms(2)
    by (simp add: negative_custom_def default_defs encode_flat_claims_def flat_steps_def put_def put_r_def put_map_def
        write_claims_def btree_of_def)
  then have w: "ce_write E (CMap [(CInt k, v), (CInt 1, CText s)]) = Inr b" using assms(5) by simp
  then have read: "decode_one E b = Inr (CMap [(CInt k, v), (CInt 1, CText s)])"
    using assms(4) by (intro decode_one_write[OF assms(1)]) (simp_all add: Suc_le_eq)
  have "\<not> canonical (CMap [(CInt k, v), (CInt 1, CText s)])"
    using assms(2,3) by (simp add: i64_or_max_def canon_less_iff)
  then have "validate_cbor_map_ordering n [(CInt k, v), (CInt 1, CText s)] \<noteq> Inr ()" for n
    unfolding validate_ordering_exact by blast
  then obtain e where "validate_cbor_map_ordering (max_nesting_depth L) [(CInt k, v), (CInt 1, CText s)] = Inl e"
    by (metis old.unit.exhaust sum.exhaust)
  then have "\<not> is_ok (decode_payload_with_limits E L b)"
    using read by (simp add: decode_payload_with_limits_def decode_payload_Suc dlift_def dbind_def dfail_def
        del: decode_payload_from.simps)
  moreover have "\<not> is_reserved_claim_id k" using assms(2) by (auto simp: is_reserved_claim_id_def)
  ultimately show ?thesis by (simp add: set_custom_claim_def negative_custom_def)
qed

end
