(* ===== verification/Cwt_Peek.thy ===== *)
theory Cwt_Peek
  imports Moq_Codec Cwt_Value
begin

unbundle bit_operations_syntax

text \<open>
  \<open>peek_issuer\<close> of \<open>src/src/cwt.rs\<close>: the byte walker that reads the \<open>iss\<close> claim of a payload before
  its signature is verified, without the CBOR library. The cursor is the position and the bytes that
  remain; walking over a nested item takes fuel, and the length of the payload is enough.

  The specification is the encoding of a CBOR value by RFC 8949 with shortest heads, over which the
  walker returns what a lookup of the key 1 returns.
\<close>

section \<open>The cursor\<close>

datatype cursor = Cursor (cu_pos: nat) (cu_rest: bytes)

abbreviation left :: "cursor \<Rightarrow> nat" where "left c \<equiv> length (cu_rest c)"

fun read_u8 :: "cursor \<Rightarrow> (byte \<times> cursor) result" where
  "read_u8 (Cursor p []) = Inl (InvalidCbor ''truncated'')"
| "read_u8 (Cursor p (b # r)) = Inr (b, Cursor (p + 1) r)"

fun read_bytes :: "nat \<Rightarrow> cursor \<Rightarrow> (bytes \<times> cursor) result" where
  "read_bytes n (Cursor p r) =
     (if p + n \<ge> 2 ^ 64 then Inl (InvalidCbor ''length overflow'')
      else if n > length r then Inl (InvalidCbor ''truncated'')
      else Inr (take n r, Cursor (p + n) (drop n r)))"

fun consume_byte :: "cursor \<Rightarrow> cursor" where
  "consume_byte (Cursor p r) = Cursor (p + 1) (drop 1 r)"

fun peek_break :: "cursor \<Rightarrow> bool result" where
  "peek_break (Cursor p []) = Inl (InvalidCbor ''truncated'')"
| "peek_break (Cursor p (b # r)) = Inr (b = 0xff)"

definition read_header :: "cursor \<Rightarrow> ((nat \<times> nat) \<times> cursor) result" where
  "read_header c = rbind (read_u8 c) (\<lambda>(b, c1). Inr ((unat (drop_bit 5 b), unat (b AND 0x1f)), c1))"

text \<open>At most eight bytes are read, so the accumulator stays within 64 bits.\<close>

fun read_be :: "nat \<Rightarrow> nat \<Rightarrow> cursor \<Rightarrow> (nat \<times> cursor) result" where
  "read_be 0 acc c = Inr (acc, c)"
| "read_be (Suc k) acc c = rbind (read_u8 c) (\<lambda>(b, c1). read_be k (acc * 256 + unat b) c1)"

definition length_from_ai :: "nat \<Rightarrow> cursor \<Rightarrow> (nat \<times> cursor) result" where
  "length_from_ai ai c =
     (if ai \<le> 23 then Inr (ai, c)
      else if ai = 24 then read_be 1 0 c
      else if ai = 25 then read_be 2 0 c
      else if ai = 26 then read_be 4 0 c
      else if ai = 27 then read_be 8 0 c
      else Inl (InvalidCbor ''unexpected indefinite length''))"

definition count_from_ai :: "nat \<Rightarrow> cursor \<Rightarrow> ((nat \<times> bool) \<times> cursor) result" where
  "count_from_ai ai c =
     (if ai = 31 then Inr ((0, True), c)
      else rbind (length_from_ai ai c) (\<lambda>(n, c1). Inr ((n, False), c1)))"

lemma read_u8_left: "read_u8 c = Inr (b, c') \<Longrightarrow> left c' < left c"
  by (cases c rule: read_u8.cases) auto

lemma read_bytes_left: "read_bytes n c = Inr (x, c') \<Longrightarrow> left c' \<le> left c"
  by (cases c) (auto split: if_splits)

lemma read_be_left: "read_be k acc c = Inr (n, c') \<Longrightarrow> left c' \<le> left c"
proof (induction k acc c rule: read_be.induct)
  case (2 k acc c)
  then show ?case using read_u8_left[of c] by fastforce
qed simp

lemma read_header_left: "read_header c = Inr (h, c') \<Longrightarrow> left c' < left c"
  by (auto simp: read_header_def dest: read_u8_left)

lemma length_from_ai_left: "length_from_ai ai c = Inr (n, c') \<Longrightarrow> left c' \<le> left c"
  by (auto simp: length_from_ai_def dest: read_be_left split: if_splits simp del: read_be.simps)

lemma count_from_ai_left: "count_from_ai ai c = Inr (n, c') \<Longrightarrow> left c' \<le> left c"
  by (auto simp: count_from_ai_def dest: length_from_ai_left split: if_splits)

lemma peek_break_left: "peek_break c = Inr True \<Longrightarrow> left (consume_byte c) < left c"
  by (cases c rule: peek_break.cases) auto

lemmas cursor_left = read_u8_left read_bytes_left read_be_left read_header_left length_from_ai_left
  count_from_ai_left peek_break_left

section \<open>Skipping\<close>

function (sequential) skip_indefinite_string :: "cursor \<Rightarrow> cursor result" where
  "skip_indefinite_string c =
     (case peek_break c of
        Inl e \<Rightarrow> Inl e
      | Inr True \<Rightarrow> Inr (consume_byte c)
      | Inr False \<Rightarrow>
          (case read_header c of
             Inl e \<Rightarrow> Inl e
           | Inr ((mt, ai), c1) \<Rightarrow>
               (if mt \<noteq> 2 \<and> mt \<noteq> 3 then Inl (InvalidCbor ''indefinite chunk wrong type'')
                else case length_from_ai ai c1 of
                  Inl e \<Rightarrow> Inl e
                | Inr (n, c2) \<Rightarrow>
                    (case read_bytes n c2 of
                       Inl e \<Rightarrow> Inl e
                     | Inr (_, c3) \<Rightarrow> skip_indefinite_string c3))))"
  by pat_completeness auto
termination
  by (relation "measure left") (fastforce dest: cursor_left)+

declare skip_indefinite_string.simps [simp del]

text \<open>The major types whose items do not nest.\<close>

definition skip_flat :: "nat \<Rightarrow> nat \<Rightarrow> cursor \<Rightarrow> cursor result" where
  "skip_flat mt ai c =
     (if mt = 0 \<or> mt = 1 then rbind (length_from_ai ai c) (\<lambda>(_, c1). Inr c1)
      else if mt = 2 \<or> mt = 3 then
        (if ai = 31 then skip_indefinite_string c
         else rbind (length_from_ai ai c) (\<lambda>(n, c1). rbind (read_bytes n c1) (\<lambda>(_, c2). Inr c2)))
      else if mt = 7 then
        (if ai \<le> 23 then Inr c
         else if ai = 24 then rbind (read_u8 c) (\<lambda>(_, c1). Inr c1)
         else if ai = 25 then rbind (read_bytes 2 c) (\<lambda>(_, c1). Inr c1)
         else if ai = 26 then rbind (read_bytes 4 c) (\<lambda>(_, c1). Inr c1)
         else if ai = 27 then rbind (read_bytes 8 c) (\<lambda>(_, c1). Inr c1)
         else Inl (InvalidCbor ''unexpected simple/float''))
      else Inl (InvalidCbor ''unknown major type''))"

fun skip_counted :: "(cursor \<Rightarrow> cursor result option) \<Rightarrow> nat \<Rightarrow> cursor \<Rightarrow> cursor result option" where
  "skip_counted skip 0 c = Some (Inr c)"
| "skip_counted skip (Suc n) c = obind (skip c) (skip_counted skip n)"

fun skip_until_break :: "(cursor \<Rightarrow> cursor result option) \<Rightarrow> bool \<Rightarrow> nat \<Rightarrow> cursor \<Rightarrow> cursor result option" where
  "skip_until_break skip is_map 0 c = None"
| "skip_until_break skip is_map (Suc f) c =
     obind (Some (peek_break c)) (\<lambda>brk.
       if brk then Some (Inr (consume_byte c))
       else obind (skip c) (\<lambda>c1. obind (if is_map then skip c1 else Some (Inr c1))
              (skip_until_break skip is_map f)))"

definition peek_max_depth :: nat where "peek_max_depth = 16"
definition peek_max_map_entries :: nat where "peek_max_map_entries = 128"

definition skip_array_or_map ::
  "(cursor \<Rightarrow> cursor result option) \<Rightarrow> nat \<Rightarrow> nat \<Rightarrow> bool \<Rightarrow> nat \<Rightarrow> cursor \<Rightarrow> cursor result option" where
  "skip_array_or_map skip f ai is_map depth c =
     (if depth > peek_max_depth then Some (Inl (InvalidCbor ''peek nesting too deep''))
      else obind (Some (count_from_ai ai c)) (\<lambda>((len, indef), c1).
        if indef then skip_until_break skip is_map f c1
        else
          let total = len * (if is_map then 2 else 1)
          in if total \<ge> 2 ^ 64 then Some (Inl (InvalidCbor ''map length overflow''))
             else skip_counted skip total c1))"

fun skip_next_item_at_depth :: "nat \<Rightarrow> nat \<Rightarrow> cursor \<Rightarrow> cursor result option" where
  "skip_next_item_at_depth 0 depth c = None"
| "skip_next_item_at_depth (Suc f) depth c =
     (if depth > peek_max_depth then Some (Inl (InvalidCbor ''peek nesting too deep''))
      else obind (Some (read_header c)) (\<lambda>((mt, ai), c1).
        if mt = 4 then skip_array_or_map (skip_next_item_at_depth f (depth + 1)) f ai False (depth + 1) c1
        else if mt = 5 then skip_array_or_map (skip_next_item_at_depth f (depth + 1)) f ai True (depth + 1) c1
        else if mt = 6 then
          obind (Some (length_from_ai ai c1)) (\<lambda>(_, c2). skip_next_item_at_depth f (depth + 1) c2)
        else Some (skip_flat mt ai c1)))"

definition skip_after_header :: "nat \<Rightarrow> nat \<Rightarrow> nat \<Rightarrow> cursor \<Rightarrow> cursor result option" where
  "skip_after_header f mt ai c =
     (if mt = 4 then skip_array_or_map (skip_next_item_at_depth f 1) f ai False 1 c
      else if mt = 5 then skip_array_or_map (skip_next_item_at_depth f 1) f ai True 1 c
      else if mt = 6 then obind (Some (length_from_ai ai c)) (\<lambda>(_, c1). skip_next_item_at_depth f 0 c1)
      else Some (skip_flat mt ai c))"

section \<open>The walk\<close>

text \<open>An unsigned key is compared after its argument has been read; \<open>None\<close> stands for a value above
  \<open>i64::MAX\<close>.\<close>

definition matches_ai_as_i64 :: "nat \<Rightarrow> cursor \<Rightarrow> (nat option \<times> cursor) result" where
  "matches_ai_as_i64 ai c =
     rbind (length_from_ai ai c) (\<lambda>(n, c1). Inr (if n > 2 ^ 63 - 1 then None else Some n, c1))"

definition read_iss :: "cursor \<Rightarrow> string option result" where
  "read_iss c =
     rbind (read_header c) (\<lambda>((vmt, vai), c1).
       if vmt \<noteq> 3 then Inl (MalformedClaim ''iss'' ''iss must be a text string'')
       else rbind (length_from_ai vai c1) (\<lambda>(n, c2).
            rbind (read_bytes n c2) (\<lambda>(b, _).
            if utf8_valid (map char_of_byte b) then Inr (Some (map char_of_byte b))
            else Inl (MalformedClaim ''iss'' ''iss is not valid UTF-8''))))"

text \<open>\<open>k\<close> entries are left before \<open>max_entries\<close>.\<close>

fun peek_entries :: "nat \<Rightarrow> bool \<Rightarrow> nat \<Rightarrow> cursor \<Rightarrow> string option result option" where
  "peek_entries f indef 0 c = Some (Inr None)"
| "peek_entries f indef (Suc k) c =
     obind (if indef then Some (peek_break c) else Some (Inr False)) (\<lambda>brk.
       if brk then Some (Inr None)
       else obind (Some (read_header c)) (\<lambda>((kmt, kai), c1).
         obind (Some (if kmt = 0 then matches_ai_as_i64 kai c1 else Inr (None, c1))) (\<lambda>(key, c2).
           if key = Some 1 then Some (read_iss c2)
           else obind (skip_after_header f kmt kai c2) (\<lambda>c3.
                obind (skip_next_item_at_depth f 0 c3) (peek_entries f indef k)))))"

definition peek_issuer_fuel :: "nat \<Rightarrow> bytes \<Rightarrow> string option result option" where
  "peek_issuer_fuel f payload =
     obind (Some (read_header (Cursor 0 payload))) (\<lambda>((mt, ai), c1).
       if mt \<noteq> 5 then Some (Inl InvalidTokenFormat)
       else obind (Some (count_from_ai ai c1)) (\<lambda>((len, indef), c2).
            peek_entries f indef (min len peek_max_map_entries) c2))"

text \<open>With fuel for every byte.\<close>

definition peek_issuer :: "bytes \<Rightarrow> string option result" where
  "peek_issuer payload = the (peek_issuer_fuel (Suc (length payload)) payload)"

section \<open>Progress and termination\<close>

lemma skip_indefinite_string_left: "skip_indefinite_string c = Inr c' \<Longrightarrow> left c' \<le> left c"
proof (induction c rule: skip_indefinite_string.induct)
  case (1 c)
  show ?case
  proof (cases "peek_break c")
    case (Inl e)
    then show ?thesis using "1.prems" by (subst (asm) skip_indefinite_string.simps) simp
  next
    case (Inr brk)
    show ?thesis
    proof (cases brk)
      case True
      then show ?thesis using "1.prems" Inr peek_break_left[of c]
        by (subst (asm) skip_indefinite_string.simps) simp
    next
      case False
      with "1.prems" Inr obtain mt ai c1 n c2 x c3 where
        "read_header c = Inr ((mt, ai), c1)" "\<not> (mt \<noteq> 2 \<and> mt \<noteq> 3)" "length_from_ai ai c1 = Inr (n, c2)"
        "read_bytes n c2 = Inr (x, c3)" "skip_indefinite_string c3 = Inr c'"
        by (subst (asm) skip_indefinite_string.simps) (auto split: sum.splits prod.splits if_splits)
      moreover from this have "left c' \<le> left c3" using "1.IH" Inr False by blast
      ultimately show ?thesis by (fastforce dest: cursor_left)
    qed
  qed
qed

lemma skip_flat_left: "skip_flat mt ai c = Inr c' \<Longrightarrow> left c' \<le> left c"
  unfolding skip_flat_def
  by (auto split: if_splits simp del: read_bytes.simps
      dest: skip_indefinite_string_left length_from_ai_left read_bytes_left less_imp_le[OF read_u8_left]
      intro: order.trans)

lemma skip_counted_left:
  assumes "\<And>c c'. skip c = Some (Inr c') \<Longrightarrow> left c' \<le> left c"
  shows "skip_counted skip n c = Some (Inr c') \<Longrightarrow> left c' \<le> left c"
  by (induction n arbitrary: c) (auto simp: obind_eq_Inr dest!: assms intro: order.trans)

lemma skip_until_break_left:
  assumes "\<And>c c'. skip c = Some (Inr c') \<Longrightarrow> left c' \<le> left c"
  shows "skip_until_break skip is_map f c = Some (Inr c') \<Longrightarrow> left c' \<le> left c"
proof (induction f arbitrary: c)
  case (Suc f)
  then obtain brk where brk: "peek_break c = Inr brk" by (auto simp: obind_eq_Inr)
  show ?case
  proof (cases brk)
    case True
    then show ?thesis using Suc.prems brk peek_break_left[of c] by simp
  next
    case False
    then obtain c1 c2 where "skip c = Some (Inr c1)" "(if is_map then skip c1 else Some (Inr c1)) = Some (Inr c2)"
      and "skip_until_break skip is_map f c2 = Some (Inr c')"
      using Suc.prems brk by (auto simp: obind_eq_Inr)
    then have "left c1 \<le> left c" "left c2 \<le> left c1" "left c' \<le> left c2"
      using assms Suc.IH by (auto split: if_splits)
    then show ?thesis by simp
  qed
qed simp

lemma skip_array_or_map_left:
  assumes "\<And>c c'. skip c = Some (Inr c') \<Longrightarrow> left c' \<le> left c"
    and h: "skip_array_or_map skip f ai is_map d c = Some (Inr c')"
  shows "left c' \<le> left c"
proof -
  obtain len indef c1 where c1: "count_from_ai ai c = Inr ((len, indef), c1)"
    using h by (cases "count_from_ai ai c") (auto simp: skip_array_or_map_def split: if_splits)
  have "left c' \<le> left c1"
  proof (cases indef)
    case True
    then show ?thesis using h c1 skip_until_break_left[OF assms(1)]
      by (auto simp: skip_array_or_map_def split: if_splits)
  next
    case False
    then show ?thesis using h c1 skip_counted_left[OF assms(1)]
      by (auto simp: skip_array_or_map_def Let_def split: if_splits)
  qed
  with count_from_ai_left[OF c1] show ?thesis by simp
qed

lemma skip_next_item_left:
  "skip_next_item_at_depth f d c = Some (Inr c') \<Longrightarrow> left c' < left c"
proof (induction f arbitrary: d c c')
  case (Suc f)
  then obtain mt ai c1 where h: "read_header c = Inr ((mt, ai), c1)"
    by (auto simp: obind_eq_Inr split: if_splits)
  have item: "skip_next_item_at_depth f e x = Some (Inr y) \<Longrightarrow> left y \<le> left x" for e x y
    using Suc.IH by (simp add: less_imp_le)
  have "left c' \<le> left c1"
    using Suc.prems h skip_array_or_map_left[OF item] item skip_flat_left
    by (fastforce simp: obind_eq_Inr split: if_splits dest: length_from_ai_left)
  with read_header_left[OF h] show ?case by simp
qed simp

lemma skip_counted_total:
  assumes "\<And>c. left c \<le> m \<Longrightarrow> ended (skip c)" "\<And>c c'. skip c = Some (Inr c') \<Longrightarrow> left c' \<le> left c"
  shows "left c \<le> m \<Longrightarrow> ended (skip_counted skip n c)"
proof (induction n arbitrary: c)
  case (Suc n)
  have "ended (skip_counted skip n c1)" if "skip c = Some (Inr c1)" for c1
    using assms(2)[OF that] Suc by simp
  then show ?case using assms(1)[OF Suc.prems] unfolding skip_counted.simps by (rule obind_total[rotated])
qed simp

lemma skip_until_break_total:
  assumes "\<And>c. left c \<le> m \<Longrightarrow> ended (skip c)" "\<And>c c'. skip c = Some (Inr c') \<Longrightarrow> left c' < left c"
  shows "left c \<le> m \<Longrightarrow> left c < f \<Longrightarrow> ended (skip_until_break skip is_map f c)"
proof (induction f arbitrary: c)
  case (Suc f)
  have rest: "ended (skip_until_break skip is_map f c2)" if "left c2 < left c" for c2
    using that Suc by simp
  have second: "ended (if is_map then skip c1 else Some (Inr c1))" if "left c1 < left c" for c1
    using assms(1)[of c1] that Suc.prems(1) by simp
  have shrink: "left c2 \<le> left c1" if "(if is_map then skip c1 else Some (Inr c1)) = Some (Inr c2)" for c1 c2
    using that assms(2)[of c1 c2] by (auto split: if_splits)
  have "ended (obind (skip c) (\<lambda>c1. obind (if is_map then skip c1 else Some (Inr c1)) (skip_until_break skip is_map f)))"
    by (intro obind_total assms(1) Suc.prems(1) second rest) (meson assms(2) shrink le_less_trans)+
  then show ?case unfolding skip_until_break.simps by (intro obind_total) (simp_all)
qed simp

lemma skip_array_or_map_total:
  assumes "\<And>c. left c \<le> m \<Longrightarrow> ended (skip c)" "\<And>c c'. skip c = Some (Inr c') \<Longrightarrow> left c' < left c"
    and "left c \<le> m" "left c < f"
  shows "ended (skip_array_or_map skip f ai is_map d c)"
proof -
  have "ended (skip_counted skip n c1)" "ended (skip_until_break skip is_map f c1)"
    if "count_from_ai ai c = Inr (x, c1)" for n c1 x
    using count_from_ai_left[OF that] assms(3,4)
    by (auto intro!: skip_counted_total[of m] skip_until_break_total[of m] assms(1) less_imp_le[OF assms(2)]
        assms(2))
  then show ?thesis unfolding skip_array_or_map_def Let_def
    by (auto intro!: obind_total)
qed

lemma skip_next_item_total: "left c < f \<Longrightarrow> ended (skip_next_item_at_depth f d c)"
proof (induction f arbitrary: d c)
  case (Suc f)
  have item: "ended (skip_next_item_at_depth f e x)" if "left x < left c" for e x
    using that Suc.prems by (intro Suc.IH) simp
  have arr: "ended (skip_array_or_map (skip_next_item_at_depth f e) f ai is_map e' c1)"
    if "left c1 < left c" for e e' ai is_map c1
    using that Suc.prems item
    by (intro skip_array_or_map_total[where m = "left c - 1"])
       (auto dest: skip_next_item_left)
  have "ended (obind (Some (length_from_ai ai c1)) (\<lambda>(_, c2). skip_next_item_at_depth f e c2))"
    if "left c1 < left c" for e ai c1
    using that by (auto intro!: obind_total item dest!: length_from_ai_left)
  with arr show ?case unfolding skip_next_item_at_depth.simps
    by (auto intro!: obind_total dest!: read_header_left simp del: skip_next_item_at_depth.simps)
qed simp

lemma skip_after_header_total:
  assumes "left c < f"
  shows "ended (skip_after_header f mt ai c)"
proof -
  have "ended (skip_array_or_map (skip_next_item_at_depth f 1) f ai is_map 1 c)" for is_map
    using assms by (intro skip_array_or_map_total[where m = "left c"])
      (auto intro: skip_next_item_total dest: skip_next_item_left)
  moreover have "ended (obind (Some (length_from_ai ai c)) (\<lambda>(_, c1). skip_next_item_at_depth f 0 c1))"
    using assms by (auto intro!: obind_total skip_next_item_total dest!: length_from_ai_left)
  ultimately show ?thesis by (simp add: skip_after_header_def)
qed

lemma skip_after_header_left: "skip_after_header f mt ai c = Some (Inr c') \<Longrightarrow> left c' \<le> left c"
  using skip_array_or_map_left[OF less_imp_le[OF skip_next_item_left]]
  by (fastforce simp: skip_after_header_def obind_eq_Inr split: if_splits
      dest: skip_flat_left skip_next_item_left length_from_ai_left)

lemma peek_entries_total: "left c < f \<Longrightarrow> ended (peek_entries f indef k c)"
proof (induction k arbitrary: c)
  case (Suc k)
  have key: "left c2 \<le> left c1" if "(if kmt = 0 then matches_ai_as_i64 kai c1 else Inr (None, c1)) = Inr (key, c2)"
    for kmt kai c1 key c2
    using that by (auto simp: matches_ai_as_i64_def split: if_splits dest: length_from_ai_left)
  have "ended (obind (skip_after_header f kmt kai c2) (\<lambda>c3. obind (skip_next_item_at_depth f 0 c3) (peek_entries f indef k)))" if "left c2 < left c" for kmt kai c2
    using that Suc.prems
    by (intro obind_total skip_after_header_total skip_next_item_total Suc.IH)
       (auto dest!: skip_after_header_left skip_next_item_left)
  then show ?case unfolding peek_entries.simps
    by (auto intro!: obind_total dest!: read_header_left key split: prod.split simp del: peek_entries.simps)
qed simp

text \<open>The walk ends on every payload.\<close>

lemma peek_issuer_total: "length payload < f \<Longrightarrow> ended (peek_issuer_fuel f payload)"
  unfolding peek_issuer_fuel_def
  by (auto intro!: obind_total peek_entries_total dest!: read_header_left count_from_ai_left)

lemma skip_counted_agrees: "(\<And>c. agrees (skip c) (skip' c)) \<Longrightarrow> agrees (skip_counted skip n c) (skip_counted skip' n c)"
  by (induction n arbitrary: c) auto

lemma skip_until_break_agrees:
  assumes "\<And>c. agrees (skip c) (skip' c)"
  shows "f \<le> f' \<Longrightarrow> agrees (skip_until_break skip m f c) (skip_until_break skip' m f' c)"
proof (induction f arbitrary: c f')
  case (Suc f)
  then obtain g where g: "f' = Suc g" "f \<le> g" by (cases f') auto
  have "agrees (obind (skip c) (\<lambda>c1. obind (if m then skip c1 else Some (Inr c1)) (skip_until_break skip m f)))
     (obind (skip' c) (\<lambda>c1. obind (if m then skip' c1 else Some (Inr c1)) (skip_until_break skip' m g)))"
    using assms Suc.IH[OF g(2)] by (cases m) (auto intro!: agrees_obind)
  then show ?case unfolding g(1) skip_until_break.simps by (intro agrees_obind) auto
qed simp

lemma skip_array_or_map_agrees:
  assumes "\<And>c. agrees (skip c) (skip' c)" "f \<le> f'"
  shows "agrees (skip_array_or_map skip f ai m d c) (skip_array_or_map skip' f' ai m d c)"
  unfolding skip_array_or_map_def Let_def
  using skip_counted_agrees[of skip skip', OF assms(1)] skip_until_break_agrees[of skip skip', OF assms(1) assms(2)]
  by (auto intro!: agrees_obind)

lemma skip_next_item_agrees:
  "f \<le> f' \<Longrightarrow> agrees (skip_next_item_at_depth f d c) (skip_next_item_at_depth f' d c)"
proof (induction f arbitrary: d c f')
  case (Suc f)
  then obtain g where g: "f' = Suc g" "f \<le> g" by (cases f') auto
  note arr = skip_array_or_map_agrees[OF Suc.IH[OF g(2)] g(2)]
  show ?case unfolding g(1) skip_next_item_at_depth.simps
    using arr Suc.IH[OF g(2)] by (auto intro!: agrees_obind simp del: skip_next_item_at_depth.simps)
qed simp

lemma skip_after_header_agrees:
  "f \<le> f' \<Longrightarrow> agrees (skip_after_header f mt ai c) (skip_after_header f' mt ai c)"
  unfolding skip_after_header_def
  using skip_array_or_map_agrees[OF skip_next_item_agrees] skip_next_item_agrees
  by (auto intro!: agrees_obind)

lemma peek_entries_agrees: "f \<le> f' \<Longrightarrow> agrees (peek_entries f indef k c) (peek_entries f' indef k c)"
  by (induction k arbitrary: c)
     (auto intro!: agrees_obind skip_after_header_agrees skip_next_item_agrees)

lemma peek_issuer_agrees: "f \<le> f' \<Longrightarrow> agrees (peek_issuer_fuel f p) (peek_issuer_fuel f' p)"
  unfolding peek_issuer_fuel_def by (auto intro!: agrees_obind peek_entries_agrees)

lemma peek_issuer_fuel_enough:
  "peek_issuer_fuel (Suc (length payload) + k) payload = Some (peek_issuer payload)"
proof -
  have "ended (peek_issuer_fuel (Suc (length payload)) payload)" by (simp add: peek_issuer_total)
  then show ?thesis
    using peek_issuer_agrees[of "Suc (length payload)" "Suc (length payload) + k" payload]
    by (auto simp: agrees_def ended_def peek_issuer_def)
qed

text \<open>C25: the walk over an unverified payload ends: on every byte string, malformed, truncated or
  nested as deep as the sender likes, fuel for each byte is enough, and more fuel gives the same
  answer.\<close>

theorem peek_issuer_ends:
  "peek_issuer_fuel (Suc (length payload) + k) payload = Some (peek_issuer payload)"
  by (rule peek_issuer_fuel_enough)

section \<open>The specification\<close>

definition head_ai :: "nat \<Rightarrow> nat" where
  "head_ai n = (if n < 24 then n else if n < 2 ^ 8 then 24 else if n < 2 ^ 16 then 25 else if n < 2 ^ 32 then 26 else 27)"

definition head_arg :: "nat \<Rightarrow> bytes" where
  "head_arg n = (if n < 24 then [] else if n < 2 ^ 8 then be_bytes 1 n else if n < 2 ^ 16 then be_bytes 2 n
     else if n < 2 ^ 32 then be_bytes 4 n else be_bytes 8 n)"

definition cbor_head :: "nat \<Rightarrow> nat \<Rightarrow> bytes" where
  "cbor_head mt n = of_nat (mt * 32 + head_ai n) # head_arg n"

fun enc_cbor :: "(f64 \<Rightarrow> bytes) \<Rightarrow> cbor \<Rightarrow> bytes" where
  "enc_cbor fl (CInt i) = (if 0 \<le> i then cbor_head 0 (nat i) else cbor_head 1 (nat (- 1 - i)))"
| "enc_cbor fl (CBytes b) = cbor_head 2 (length b) @ b"
| "enc_cbor fl (CText s) = cbor_head 3 (length s) @ map byte_of_char s"
| "enc_cbor fl (CArray xs) = cbor_head 4 (length xs) @ concat (map (enc_cbor fl) xs)"
| "enc_cbor fl (CMap kvs) = cbor_head 5 (length kvs) @ concat (map (\<lambda>(k, v). enc_cbor fl k @ enc_cbor fl v) kvs)"
| "enc_cbor fl (CTag t v) = cbor_head 6 t @ enc_cbor fl v"
| "enc_cbor fl (CBool b) = [if b then 0xf5 else 0xf4]"
| "enc_cbor fl CNull = [0xf6]"
| "enc_cbor fl (CFloat x) = fl x"

text \<open>A float is written in one of the three widths.\<close>

definition float_format :: "(f64 \<Rightarrow> bytes) \<Rightarrow> bool" where
  "float_format fl \<longleftrightarrow> (\<forall>x. \<exists>b. fl x = 0xf9 # b \<and> length b = 2 \<or> fl x = 0xfa # b \<and> length b = 4 \<or>
     fl x = 0xfb # b \<and> length b = 8)"

fun in_cbor_range :: "cbor \<Rightarrow> bool" where
  "in_cbor_range (CInt i) = (- (2 ^ 64) \<le> i \<and> i < 2 ^ 64)"
| "in_cbor_range (CArray xs) = list_all in_cbor_range xs"
| "in_cbor_range (CMap kvs) = list_all (\<lambda>(k, v). in_cbor_range k \<and> in_cbor_range v) kvs"
| "in_cbor_range (CTag t v) = (t < 2 ^ 64 \<and> in_cbor_range v)"
| "in_cbor_range _ = True"


lemma head_byte:
  assumes "n < 256"
  shows "unat (drop_bit 5 (of_nat n :: byte)) = n div 32" "unat ((of_nat n :: byte) AND 0x1f) = n mod 32"
proof -
  have u: "unat (of_nat n :: byte) = n" using assms by (simp add: unat_of_nat)
  show "unat (drop_bit 5 (of_nat n :: byte)) = n div 32"
    using unat_drop_bit_eq[of 5 "of_nat n :: byte"] by (simp only: u drop_bit_eq_div) simp
  have m: "(0x1f :: byte) = mask 5" by (simp add: mask_eq_exp_minus_1)
  show "unat ((of_nat n :: byte) AND 0x1f) = n mod 32"
    unfolding m take_bit_eq_mask[symmetric] using unsigned_take_bit_eq[of 5 "of_nat n :: byte", where 'a = nat]
    by (simp only: u take_bit_eq_mod) simp
qed

lemma read_header_enc:
  assumes "mt < 8" "ai < 32"
  shows "read_header (Cursor p (of_nat (mt * 32 + ai) # r)) = Inr ((mt, ai), Cursor (p + 1) r)"
proof -
  have "mt * 32 + ai < 256" using assms by simp
  then show ?thesis using head_byte[of "mt * 32 + ai"] assms
    by (simp add: read_header_def del: of_nat_add of_nat_mult)
qed

lemma read_be_enc: "read_be k acc (Cursor p (be_bytes k n @ r)) = Inr (acc * 256 ^ k + n mod 256 ^ k, Cursor (p + k) r)"
proof (induction k arbitrary: acc p)
  case (Suc k)
  have "n mod 256 ^ Suc k = 256 ^ k * (n div 256 ^ k mod 256) + n mod 256 ^ k"
    by (metis mod_mult2_eq mult.commute power_Suc)
  then show ?case using Suc by (simp add: unat_of_nat algebra_simps)
qed simp

lemma head_ai_less: "head_ai n < 32"
  by (simp add: head_ai_def)

lemma length_head_enc:
  "n < 2 ^ 64 \<Longrightarrow> length_from_ai (head_ai n) (Cursor p (head_arg n @ r)) = Inr (n, Cursor (p + length (head_arg n)) r)"
  by (simp add: length_from_ai_def head_ai_def head_arg_def read_be_enc del: read_be.simps be_bytes.simps One_nat_def)

lemma read_bytes_enc: "p + length b < 2 ^ 64 \<Longrightarrow> read_bytes (length b) (Cursor p (b @ r)) = Inr (b, Cursor (p + length b) r)"
  by simp

text \<open>A head is never longer than nine bytes, and an item never empty.\<close>

lemma enc_nonempty: "float_format fl \<Longrightarrow> 0 < length (enc_cbor fl v)"
  unfolding float_format_def by (cases v) (auto simp: cbor_head_def, metis list.distinct(1))

lemma skip_counted_enc:
  assumes "\<And>b p r. b \<in> set bs \<Longrightarrow> p + length b < 2 ^ 64 \<Longrightarrow>
      skip (Cursor p (b @ r)) = Some (Inr (Cursor (p + length b) r))"
  shows "p + length (concat bs) < 2 ^ 64 \<Longrightarrow>
    skip_counted skip (length bs) (Cursor p (concat bs @ r)) = Some (Inr (Cursor (p + length (concat bs)) r))"
  using assms
proof (induction bs arbitrary: p)
  case (Cons b bs)
  have "skip (Cursor p (b @ concat bs @ r)) = Some (Inr (Cursor (p + length b) (concat bs @ r)))"
    using Cons.prems by (intro Cons.prems(2)) auto
  moreover have "skip_counted skip (length bs) (Cursor (p + length b) (concat bs @ r)) =
      Some (Inr (Cursor (p + length b + length (concat bs)) r))"
    using Cons.prems by (intro Cons.IH) auto
  ultimately show ?case by (simp add: add.assoc)
qed simp

lemma enc_not_Nil: "float_format fl \<Longrightarrow> enc_cbor fl v \<noteq> []" "float_format fl \<Longrightarrow> [] \<noteq> enc_cbor fl v"
  using enc_nonempty by (metis length_greater_0_conv)+

lemma skip_flat_float:
  assumes "float_format fl" "p + length (fl x) < 2 ^ 64"
  shows "\<exists>ai c1. read_header (Cursor p (fl x @ r)) = Inr ((7, ai), c1) \<and>
     skip_flat 7 ai c1 = Inr (Cursor (p + length (fl x)) r)"
proof -
  obtain n :: nat and b where n: "fl x = of_nat (7 * 32 + n) # b" "n = 25 \<and> length b = 2 \<or> n = 26 \<and> length b = 4 \<or> n = 27 \<and> length b = 8"
  proof -
    obtain b where "fl x = 0xf9 # b \<and> length b = 2 \<or> fl x = 0xfa # b \<and> length b = 4 \<or> fl x = 0xfb # b \<and> length b = 8"
      using assms(1) unfolding float_format_def by blast
    then show ?thesis using that[of 25 b] that[of 26 b] that[of 27 b] by auto
  qed
  then have "read_header (Cursor p (fl x @ r)) = Inr ((7, n), Cursor (p + 1) (b @ r))"
    using read_header_enc[of 7 n p "b @ r"] by auto
  moreover have "skip_flat 7 n (Cursor (p + 1) (b @ r)) = Inr (Cursor (p + length (fl x)) r)"
    using n assms(2) by (auto simp: skip_flat_def)
  ultimately show ?thesis by blast
qed

lemma header_enc:
  assumes "mt < 8"
  shows "read_header (Cursor p (cbor_head mt n @ r)) = Inr ((mt, head_ai n), Cursor (p + 1) (head_arg n @ r))"
  using read_header_enc[OF assms head_ai_less[of n]] by (simp add: cbor_head_def del: of_nat_add of_nat_mult)

lemma count_head_enc:
  "n < 2 ^ 64 \<Longrightarrow> count_from_ai (head_ai n) (Cursor p (head_arg n @ r)) = Inr ((n, False), Cursor (p + length (head_arg n)) r)"
  using length_head_enc[of n p r] by (simp add: count_from_ai_def head_ai_def)

lemma length_cbor_head [simp]: "length (cbor_head mt n) = Suc (length (head_arg n))"
  by (simp add: cbor_head_def)

lemma skip_flat_enc:
  assumes "n < 2 ^ 64"
  shows "mt \<le> 1 \<Longrightarrow> skip_flat mt (head_ai n) (Cursor p (head_arg n @ r)) = Inr (Cursor (p + length (head_arg n)) r)"
    and "mt = 2 \<or> mt = 3 \<Longrightarrow> n = length b \<Longrightarrow> p + length (head_arg n) + n < 2 ^ 64 \<Longrightarrow>
      skip_flat mt (head_ai n) (Cursor p (head_arg n @ b @ r)) = Inr (Cursor (p + length (head_arg n) + n) r)"
proof -
  show "mt \<le> 1 \<Longrightarrow> skip_flat mt (head_ai n) (Cursor p (head_arg n @ r)) = Inr (Cursor (p + length (head_arg n)) r)"
    using length_head_enc[OF assms] by (simp add: skip_flat_def le_Suc_eq)
  have "head_ai n \<noteq> 31" by (simp add: head_ai_def)
  then show "mt = 2 \<or> mt = 3 \<Longrightarrow> n = length b \<Longrightarrow> p + length (head_arg n) + n < 2 ^ 64 \<Longrightarrow>
      skip_flat mt (head_ai n) (Cursor p (head_arg n @ b @ r)) = Inr (Cursor (p + length (head_arg n) + n) r)"
    using length_head_enc[OF assms, of p "b @ r"] by (auto simp: skip_flat_def)
qed

lemma skip_item_flat:
  assumes "read_header c = Inr ((mt, ai), c1)" "mt \<notin> {4, 5, 6}" "d \<le> 16" "0 < f"
  shows "skip_next_item_at_depth f d c = Some (skip_flat mt ai c1)"
  using assms by (cases f) (auto simp: peek_max_depth_def)

lemma skip_array_enc:
  assumes "\<And>b p r. b \<in> set bs \<Longrightarrow> p + length b < 2 ^ 64 \<Longrightarrow> skip (Cursor p (b @ r)) = Some (Inr (Cursor (p + length b) r))"
    and "length bs = n * (if m then 2 else 1)" "length bs < 2 ^ 64" "d \<le> 16" "p + length (head_arg n) + length (concat bs) < 2 ^ 64"
  shows "skip_array_or_map skip f (head_ai n) m d (Cursor p (head_arg n @ concat bs @ r)) =
    Some (Inr (Cursor (p + length (head_arg n) + length (concat bs)) r))"
proof -
  have "n < 2 ^ 64" using assms(2,3) by (simp split: if_splits)
  note c = count_head_enc[OF this, of p "concat bs @ r"]
  show ?thesis using skip_counted_enc[of bs skip, OF assms(1), of "p + length (head_arg n)" r] assms(2-5) c
    by (simp add: skip_array_or_map_def peek_max_depth_def Let_def)
qed

lemma length_concat_ge: "(\<And>b. b \<in> set bs \<Longrightarrow> 0 < length b) \<Longrightarrow> length bs \<le> length (concat bs)"
proof (induction bs)
  case (Cons b bs)
  then have "0 < length b" "length bs \<le> length (concat bs)" by auto
  then show ?case by (simp del: length_greater_0_conv)
qed simp

text \<open>The walker steps over exactly the bytes of an encoded value.\<close>

lemma skip_enc:
  assumes "float_format fl"
  shows "in_cbor_range v \<Longrightarrow> d + cbor_nesting v \<le> 16 \<Longrightarrow> cbor_nesting v < f \<Longrightarrow> p + length (enc_cbor fl v) < 2 ^ 64 \<Longrightarrow>
    skip_next_item_at_depth f d (Cursor p (enc_cbor fl v @ r)) = Some (Inr (Cursor (p + length (enc_cbor fl v)) r))"
proof (induction v arbitrary: d f p r)
  case (CInt i)
  have n: "nat i < 2 ^ 64" "nat (- 1 - i) < 2 ^ 64" using CInt by auto
  show ?case
  proof (cases "0 \<le> i")
    case True
    then show ?thesis using CInt(2,3) skip_item_flat[OF header_enc[of 0 p "nat i" r], of d f]
        skip_flat_enc(1)[OF n(1), of 0 "p + 1" r] by simp
  next
    case False
    then show ?thesis using CInt(2,3) skip_item_flat[OF header_enc[of 1 p "nat (- 1 - i)" r], of d f]
        skip_flat_enc(1)[OF n(2), of 1 "p + 1" r] by simp
  qed
next
  case (CBytes b)
  then show ?case using skip_item_flat[OF header_enc[of 2 p "length b" "b @ r"], of d f]
      skip_flat_enc(2)[of "length b" 2 b "p + 1" r] by simp
next
  case (CText s)
  define b where "b = map byte_of_char s"
  then have b: "enc_cbor fl (CText s) = cbor_head 3 (length b) @ b" by simp
  show ?case using CText(2-4) skip_item_flat[OF header_enc[of 3 p "length b" "b @ r"], of d f]
      skip_flat_enc(2)[of "length b" 3 b "p + 1" r] unfolding b by simp
next
  case (CFloat x)
  then show ?case using skip_flat_float[OF assms, of p x r] skip_item_flat[of _ 7] by fastforce
next
  case (CBool b)
  have "read_header (Cursor p ((if b then 0xf5 else 0xf4) # r)) = Inr ((7, if b then 21 else 20), Cursor (p + 1) r)"
    using read_header_enc[of 7 20 p r] read_header_enc[of 7 21 p r] by simp
  then show ?case using CBool by (auto simp: skip_item_flat skip_flat_def)
next
  case CNull
  have "read_header (Cursor p (0xf6 # r)) = Inr ((7, 22), Cursor (p + 1) r)"
    using read_header_enc[of 7 22 p r] by simp
  then show ?case using CNull by (auto simp: skip_item_flat skip_flat_def)
next
  case (CTag t v)
  then obtain g where f: "f = Suc g" by (cases f) auto
  have "skip_next_item_at_depth g (d + 1) (Cursor (Suc p + length (head_arg t)) (enc_cbor fl v @ r)) =
      Some (Inr (Cursor (Suc p + length (head_arg t) + length (enc_cbor fl v)) r))"
    using CTag.prems f by (intro CTag.IH) auto
  then show ?case using CTag.prems
    by (simp add: f peek_max_depth_def header_enc length_head_enc add.assoc)
next
  case (CArray xs)
  then obtain g where f: "f = Suc g" by (cases f) auto
  let ?bs = "map (enc_cbor fl) xs"
  have item: "skip_next_item_at_depth g (d + 1) (Cursor q (b @ r')) = Some (Inr (Cursor (q + length b) r'))"
    if "b \<in> set ?bs" "q + length b < 2 ^ 64" for b q r'
  proof -
    obtain x where x: "x \<in> set xs" "b = enc_cbor fl x" using \<open>b \<in> set ?bs\<close> by auto
    then have "cbor_nesting x \<le> foldr max (map cbor_nesting xs) 0" using foldr_max_le[of "map cbor_nesting xs"] by fastforce
    with x that CArray.prems f show ?thesis by (auto intro!: CArray.IH simp: list_all_iff)
  qed
  have "length ?bs \<le> length (concat ?bs)" by (rule length_concat_ge) (auto simp: enc_not_Nil[OF assms])
  then show ?case using CArray.prems skip_array_enc[of ?bs "skip_next_item_at_depth g (d + 1)" "length xs" False "d + 1" "p + 1" g r, OF item]
    by (simp add: f peek_max_depth_def header_enc add.assoc)
next
  case (CMap kvs)
  then obtain g where f: "f = Suc g" by (cases f) auto
  let ?bs = "concat (map (\<lambda>(k, v). [enc_cbor fl k, enc_cbor fl v]) kvs)"
  have item: "skip_next_item_at_depth g (d + 1) (Cursor q (b @ r')) = Some (Inr (Cursor (q + length b) r'))"
    if "b \<in> set ?bs" "q + length b < 2 ^ 64" for b q r'
  proof -
    obtain k v where x: "(k, v) \<in> set kvs" "b = enc_cbor fl k \<or> b = enc_cbor fl v" using \<open>b \<in> set ?bs\<close> by auto
    then have "max (cbor_nesting k) (cbor_nesting v) \<le> foldr max (map (\<lambda>(k, v). max (cbor_nesting k) (cbor_nesting v)) kvs) 0"
      using foldr_max_le[of "map (\<lambda>(k, v). max (cbor_nesting k) (cbor_nesting v)) kvs"] by fastforce
    moreover have "in_cbor_range k" "in_cbor_range v" using x(1) CMap.prems by (auto simp: list_all_iff)
    ultimately show ?thesis
      using x(2) that(2) CMap.prems f CMap.IH(1)[OF x(1), of k "d + 1" g q r'] CMap.IH(2)[OF x(1), of v "d + 1" g q r']
      by auto
  qed
  have flat: "concat (map (\<lambda>(k, v). enc_cbor fl k @ enc_cbor fl v) kvs) = concat ?bs"
    by (induction kvs) auto
  have len: "length ?bs = 2 * length kvs" by (induction kvs) auto
  have "length ?bs \<le> length (concat ?bs)" by (rule length_concat_ge) (auto simp: enc_not_Nil[OF assms])
  then show ?case using CMap.prems skip_array_enc[of ?bs "skip_next_item_at_depth g (d + 1)" "length kvs" True "d + 1" "p + 1" g r, OF item] len
    by (simp add: f peek_max_depth_def header_enc add.assoc flat)
qed

text \<open>What a lookup of the claim finds.\<close>

fun lookup_iss :: "(cbor \<times> cbor) list \<Rightarrow> string option result" where
  "lookup_iss [] = Inr None"
| "lookup_iss ((k, v) # kvs) =
     (if k = CInt 1 then
        (case v of
           CText s \<Rightarrow> if utf8_valid s then Inr (Some s) else Inl (MalformedClaim ''iss'' ''iss is not valid UTF-8'')
         | _ \<Rightarrow> Inl (MalformedClaim ''iss'' ''iss must be a text string''))
      else lookup_iss kvs)"

text \<open>A key whose head is one byte, or that is not an unsigned integer.\<close>

fun one_step_key :: "cbor \<Rightarrow> bool" where
  "one_step_key (CInt i) \<longleftrightarrow> i < 24"
| "one_step_key (CText s) \<longleftrightarrow> True"
| "one_step_key (CBytes b) \<longleftrightarrow> True"
| "one_step_key _ \<longleftrightarrow> False"

lemma char_byte_char [simp]: "char_of_byte (byte_of_char c) = c"
  by (simp add: char_of_byte_def byte_of_char_def unat_of_nat)

lemma map_char_byte_char [simp]: "map (char_of_byte \<circ> byte_of_char) s = s"
  by (induction s) auto

lemma read_iss_enc:
  assumes "float_format fl" "in_cbor_range v" "p + length (enc_cbor fl v) < 2 ^ 64"
  shows "read_iss (Cursor p (enc_cbor fl v @ r)) =
    (case v of
       CText s \<Rightarrow> if utf8_valid s then Inr (Some s) else Inl (MalformedClaim ''iss'' ''iss is not valid UTF-8'')
     | _ \<Rightarrow> Inl (MalformedClaim ''iss'' ''iss must be a text string''))"
proof (cases v)
  case (CText s)
  have "length s < 2 ^ 64" using assms(3) CText by simp
  from length_head_enc[OF this, of "p + 1" "map byte_of_char s @ r"] show ?thesis using CText assms(3)
    by (simp add: read_iss_def header_enc)
next
  case (CBool b)
  have "read_header (Cursor p ((if b then 0xf5 else 0xf4) # r)) = Inr ((7, if b then 21 else 20), Cursor (p + 1) r)"
    using read_header_enc[of 7 20 p r] read_header_enc[of 7 21 p r] by simp
  with CBool show ?thesis by (simp add: read_iss_def)
next
  case CNull
  have "read_header (Cursor p (0xf6 # r)) = Inr ((7, 22), Cursor (p + 1) r)"
    using read_header_enc[of 7 22 p r] by simp
  with CNull show ?thesis by (simp add: read_iss_def)
next
  case (CFloat x)
  then show ?thesis using skip_flat_float[OF assms(1), of p x r] assms(3) by (auto simp: read_iss_def)
qed (auto simp: read_iss_def header_enc)

text \<open>What the loop does with a key of one step.\<close>

lemma step_key:
  assumes "one_step_key k" "in_cbor_range k" "p + length (enc_cbor fl k) < 2 ^ 64"
  obtains kmt kai c1 c2 where "read_header (Cursor p (enc_cbor fl k @ r)) = Inr ((kmt, kai), c1)"
    "(if kmt = 0 then matches_ai_as_i64 kai c1 else Inr (None, c1)) =
       Inr (case k of CInt i \<Rightarrow> if 0 \<le> i then Some (nat i) else None | _ \<Rightarrow> None, c2)"
    "\<And>f. skip_after_header f kmt kai c2 = Some (Inr (Cursor (p + length (enc_cbor fl k)) r))"
    "k = CInt 1 \<Longrightarrow> c2 = Cursor (p + length (enc_cbor fl k)) r"
  using assms
proof (cases k)
  case (CInt i)
  show ?thesis
  proof (cases "0 \<le> i")
    case True
    with assms CInt have "head_arg (nat i) = []" "head_ai (nat i) = nat i" "nat i < 24"
      by (auto simp: head_arg_def head_ai_def)
    then show ?thesis using True CInt that[of 0 "nat i" "Cursor (p + 1) r" "Cursor (p + 1) r"]
        header_enc[of 0 p "nat i" r]
      by (auto simp: head_arg_def matches_ai_as_i64_def length_from_ai_def skip_after_header_def skip_flat_def)
  next
    case False
    have n: "nat (- 1 - i) < 2 ^ 64" using assms CInt by auto
    show ?thesis using False CInt that[of 1 "head_ai (nat (- 1 - i))" "Cursor (p + 1) (head_arg (nat (- 1 - i)) @ r)" "Cursor (p + 1) (head_arg (nat (- 1 - i)) @ r)"]
        header_enc[of 1 p "nat (- 1 - i)" r] skip_flat_enc(1)[OF n, of 1 "p + 1" r]
      by (simp add: skip_after_header_def)
  qed
next
  case (CBytes b)
  then show ?thesis using assms(3) that[of 2 "head_ai (length b)" "Cursor (p + 1) (head_arg (length b) @ b @ r)" "Cursor (p + 1) (head_arg (length b) @ b @ r)"]
      header_enc[of 2 p "length b" "b @ r"] skip_flat_enc(2)[of "length b" 2 b "p + 1" r]
    by (simp add: skip_after_header_def)
next
  case (CText s)
  define b where "b = map byte_of_char s"
  then have b: "enc_cbor fl (CText s) = cbor_head 3 (length b) @ b" by simp
  show ?thesis using CText assms(3) that[of 3 "head_ai (length b)" "Cursor (p + 1) (head_arg (length b) @ b @ r)" "Cursor (p + 1) (head_arg (length b) @ b @ r)"]
      header_enc[of 3 p "length b" "b @ r"] skip_flat_enc(2)[of "length b" 3 b "p + 1" r] unfolding CText b
    by (simp add: skip_after_header_def)
qed auto


lemma peek_entries_enc:
  assumes "float_format fl"
  shows "\<forall>(k, v) \<in> set kvs. one_step_key k \<and> in_cbor_range k \<and> in_cbor_range v \<and> cbor_nesting v \<le> 16 \<and> cbor_nesting v < f \<Longrightarrow>
    p + length (concat (map (\<lambda>(k, v). enc_cbor fl k @ enc_cbor fl v) kvs)) < 2 ^ 64 \<Longrightarrow>
    peek_entries f False (length kvs) (Cursor p (concat (map (\<lambda>(k, v). enc_cbor fl k @ enc_cbor fl v) kvs) @ r)) =
      Some (lookup_iss kvs)"
proof (induction kvs arbitrary: p)
  case (Cons kv kvs)
  obtain k v where kv: "kv = (k, v)" by (cases kv)
  let ?rest = "concat (map (\<lambda>(k, v). enc_cbor fl k @ enc_cbor fl v) kvs) @ r"
  have k: "one_step_key k" "in_cbor_range k" and v: "in_cbor_range v" "cbor_nesting v \<le> 16" "cbor_nesting v < f"
    using Cons.prems(1) kv by auto
  have len: "p + length (enc_cbor fl k) < 2 ^ 64" "p + length (enc_cbor fl k) + length (enc_cbor fl v) < 2 ^ 64"
    using Cons.prems(2) kv by auto
  obtain kmt kai c1 c2 where c: "read_header (Cursor p (enc_cbor fl k @ enc_cbor fl v @ ?rest)) = Inr ((kmt, kai), c1)"
    "(if kmt = 0 then matches_ai_as_i64 kai c1 else Inr (None, c1)) =
       Inr (case k of CInt i \<Rightarrow> if 0 \<le> i then Some (nat i) else None | _ \<Rightarrow> None, c2)"
    "\<And>f. skip_after_header f kmt kai c2 = Some (Inr (Cursor (p + length (enc_cbor fl k)) (enc_cbor fl v @ ?rest)))"
    "k = CInt 1 \<Longrightarrow> c2 = Cursor (p + length (enc_cbor fl k)) (enc_cbor fl v @ ?rest)"
    by (rule step_key[OF k len(1), where r = "enc_cbor fl v @ ?rest"]) (rule that)
  have one: "(case k of CInt i \<Rightarrow> if 0 \<le> i then Some (nat i) else None | _ \<Rightarrow> None) = Some 1 \<longleftrightarrow> k = CInt 1"
    by (auto split: cbor.splits)
  have enc: "concat (map (\<lambda>(k, v). enc_cbor fl k @ enc_cbor fl v) (kv # kvs)) @ r = enc_cbor fl k @ enc_cbor fl v @ ?rest"
    by (simp add: kv)
  show ?case
  proof (cases "k = CInt 1")
    case True
    have "lookup_iss (kv # kvs) = read_iss (Cursor (p + length (enc_cbor fl k)) (enc_cbor fl v @ ?rest))"
      using True kv read_iss_enc[OF assms v(1) len(2), of ?rest] by simp
    then show ?thesis unfolding enc using c(1,2) c(4)[OF True] one True
      by (simp del: skip_next_item_at_depth.simps lookup_iss.simps enc_cbor.simps)
  next
    case False
    have "peek_entries f False (length kvs) (Cursor (p + length (enc_cbor fl k) + length (enc_cbor fl v)) ?rest) =
        Some (lookup_iss kvs)"
      using Cons.prems kv by (intro Cons.IH) auto
    moreover have "skip_next_item_at_depth f 0 (Cursor (p + length (enc_cbor fl k)) (enc_cbor fl v @ ?rest)) =
        Some (Inr (Cursor (p + length (enc_cbor fl k) + length (enc_cbor fl v)) ?rest))"
      using skip_enc[OF assms v(1), of 0 f] v len(2) by simp
    ultimately show ?thesis unfolding enc using False c(1-3) one kv
      by (simp del: skip_next_item_at_depth.simps)
  qed
qed simp

text \<open>C24: on an encoded claim map the walker finds what a lookup of the key 1 finds, decoding
  nothing. This holds as long as the map has at most 128 entries, every key is below 24 or not an
  unsigned integer, and no value nests deeper than 16.\<close>

theorem peek_issuer_encoded:
  assumes "float_format fl" "length kvs \<le> 128"
    and "\<forall>(k, v) \<in> set kvs. one_step_key k \<and> in_cbor_range k \<and> in_cbor_range v \<and> cbor_nesting v \<le> 16"
    and "length (enc_cbor fl (CMap kvs)) < 2 ^ 64"
  shows "peek_issuer (enc_cbor fl (CMap kvs)) = lookup_iss kvs"
proof -
  let ?bytes = "concat (map (\<lambda>(k, v). enc_cbor fl k @ enc_cbor fl v) kvs)"
  have "\<forall>(k, v) \<in> set kvs. one_step_key k \<and> in_cbor_range k \<and> in_cbor_range v \<and> cbor_nesting v \<le> 16 \<and> cbor_nesting v < 17 + n" for n :: nat
    using assms(3) by fastforce
  then have e: "peek_entries (17 + n) False (length kvs) (Cursor (1 + length (head_arg (length kvs))) ?bytes) =
      Some (lookup_iss kvs)" for n
    using peek_entries_enc[OF assms(1), of kvs "17 + n" "1 + length (head_arg (length kvs))" "[]"] assms(4)
    by simp
  have "length kvs < 2 ^ 64" using assms(2) by simp
  from count_head_enc[OF this, of 1 ?bytes]
  have "peek_issuer_fuel (17 + n) (enc_cbor fl (CMap kvs)) = Some (lookup_iss kvs)" for n
    using header_enc[of 5 0 "length kvs" ?bytes] e[of n] assms(2)
    by (simp add: peek_issuer_fuel_def peek_max_map_entries_def)
  from this[of "Suc (length (enc_cbor fl (CMap kvs)))"] peek_issuer_fuel_enough[of "enc_cbor fl (CMap kvs)" 17]
  show ?thesis by (simp add: add.commute)
qed

theorem peek_issuer_encoded_witness:
  "peek_issuer (enc_cbor (\<lambda>_. [0xf9, 0, 0]) (CMap [(CInt 1, CText ''a''), (CInt 4, CInt 5)])) = Inr (Some ''a'')"
proof -
  have "utf8_valid ''a''" by code_simp
  moreover have "float_format (\<lambda>_. [0xf9, 0, 0])" by (simp add: float_format_def)
  ultimately show ?thesis
    using peek_issuer_encoded[of "\<lambda>_. [0xf9, 0, 0]" "[(CInt 1, CText ''a''), (CInt 4, CInt 5)]"]
    by (simp add: cbor_head_def head_arg_def)
qed

end
