(* ===== verification/Witnesses.thy ===== *)
theory Witnesses
  imports Sample_Deployment Uri_Matcher Jti_Race Cwt_Wire Cwt_Peek
begin

text \<open>
  The properties of the components at concrete inputs: each witness discharges the hypotheses of one
  theorem for the sample deployment or for small literals.
\<close>

section \<open>Proofs of possession\<close>

text \<open>A setup proof in the CWT form: its empty tuple comes back as a tuple of one empty segment.\<close>

theorem cwt_proof_roundtrip_witness:
  "\<exists>pf. proof_decode_as (table_jwt setup_table []) [3] WireCwt = Inr pf \<and> dp_signature pf = [7] \<and>
     ax_tns (pl_actx (dp_payload pf)) = [[]]"
proof -
  let ?E = "table_jwt setup_table []"
  have E: "codec_env.truncate ?E = table_codec setup_table" by (simp add: table_jwt_def codec_env.defs table_codec_def)
  have laws: "codec_laws (table_codec setup_table)" by (rule table_codec_laws) code_simp
  have pf: "dp_signed setup_proof = signed_default" "dp_wire setup_proof = WireCwt" by code_simp+
  then have made: "crate_proof ?E setup_proof" by (simp add: crate_proof_def)
  have "in_i64 (dh_alg (dp_header setup_proof))" "in_i64 (pl_iat (dp_payload setup_proof))"
    "cwt_encode (table_codec setup_table) setup_proof = Inr [3]" "length [3 :: byte] \<le> max_dpop_wire_size"
    "ax_tns (pl_actx (dp_payload setup_proof)) = []" "dp_signature setup_proof = [7]" by code_simp+
  then show ?thesis
    using cwt_proof_roundtrip[of ?E setup_proof "[3]"] laws pf(2) made
    by (auto simp: E proof_encode_def cwt_form_def wire_actx_def)
qed


theorem canonical_json_inj_witness:
  "key_members sample_jwk = key_members (sample_jwk\<lparr>jwk_n := Some ''9''\<rparr>)"
proof -
  have "canonical_json sample_jwk = Inr (ec_json ''P-256'' ''01'' ''02'')"
    "canonical_json (sample_jwk\<lparr>jwk_n := Some ''9''\<rparr>) = Inr (ec_json ''P-256'' ''01'' ''02'')" by code_simp+
  from canonical_json_inj[OF this] show ?thesis ..
qed

theorem parse_constructed_uri_witness:
  "\<exists>u. construct_moqt_uri hex_text ''relay'' (Some [[97], [98]]) (Some [99]) = Inr u \<and>
     parse_moqt_resource_uri hex_read u =
       Inr \<lparr>mu_endpoint = ''relay'', mu_namespace = Some [[97], [98]], mu_track = Some [99]\<rparr>"
proof -
  have "is_ok (construct_moqt_uri hex_text ''relay'' (Some [[97], [98]]) (Some [99]))" by code_simp
  then obtain u where u: "construct_moqt_uri hex_text ''relay'' (Some [[97], [98]]) (Some [99]) = Inr u"
    by (auto simp: is_ok_iff)
  have "hex_text [] = []" by code_simp
  with parse_constructed_uri[OF hex_codec _ u] u show ?thesis by simp
qed

section \<open>Tokens\<close>

text \<open>A signed token over a table of three CBOR values; the algorithm accepts the signature \<open>[7]\<close>.\<close>

definition token_table :: "(cbor \<times> bytes) list" where
  "token_table =
     [(int_entries [(1, CInt (-7)), (16, CText ''CAT'')], [1]),
      (CArray [CText ''Signature1'', CBytes [1], CBytes [], CBytes [2]], [3]),
      (CTag 18 (CArray [CBytes [1], CMap [], CBytes [2], CBytes [7]]), [4])]"

definition token_algorithm :: algorithm where
  "token_algorithm = \<lparr>al_id = -7, al_verify = (\<lambda>m s. if s = [7] then Inr () else Inl SignatureVerificationFailed)\<rparr>"

definition token_decoder :: "decoder_key \<Rightarrow> unit decoder" where
  "token_decoder k = \<lparr>de_key = k, de_admission = None, de_encryption_key = None, de_limits = ()\<rparr>"

lemma token_table_laws: "codec_laws (table_codec token_table)"
  by (rule table_codec_laws) (simp add: token_table_def)

lemma token_encodes:
  "encode_token (table_codec token_table) (\<lambda>_. Inr [2]) (-7) (\<lambda>_. Inr [7]) sample_claims = Inr [4]"
  by code_simp

theorem decode_signed_ok_witness:
  "\<exists>en. parse_cose_envelope (table_codec token_table) [4] = Inr en \<and>
     signature_checked (table_codec token_table) token_algorithm en"
proof -
  have "is_ok (decode_signed (table_codec token_table) (\<lambda>_ _. Inr sample_claims) (\<lambda>_. Inr None)
      (token_decoder (KeyAlgorithm token_algorithm)) [4])" by code_simp
  then obtain t where t: "decode_signed (table_codec token_table) (\<lambda>_ _. Inr sample_claims) (\<lambda>_. Inr None)
      (token_decoder (KeyAlgorithm token_algorithm)) [4] = Inr t" by (auto simp: is_ok_iff)
  from decode_signed_ok[OF t] show ?thesis
    by (auto simp: select_algorithm_def run_admission_def token_decoder_def)
qed

theorem validator_accepts_witness:
  "time_ok (for_expected_issuers [''iss'']) 1000 sample_claims \<and>
   identity_ok (for_expected_issuers [''iss'']) sample_claims"
proof -
  have "validate_with_provenance (for_expected_issuers [''iss'']) 1000 Signed sample_claims = Inr ()" by code_simp
  then show ?thesis unfolding validator_accepts by blast
qed

section \<open>Payloads\<close>

lemma table_reader_bounded:
  assumes "list_all (\<lambda>p. cbor_nesting (fst p) \<le> cbor_max_recursion_depth) T"
  shows "reader_bounded (table_codec T)"
proof -
  have "cbor_nesting v \<le> cbor_max_recursion_depth" if "map_of (map prod.swap T) b = Some v" for b v
    using assms map_of_SomeD[OF that] by (auto simp: list_all_iff)
  then show ?thesis
    by (auto simp: reader_bounded_def table_codec_def table_read_def ok_or_eq_Inr)
qed

text \<open>A token with an issuer and a conjunction of a nested token and a disjunction.\<close>

definition subject_token :: cat_token where
  "subject_token = upd_informational (\<lambda>i. i\<lparr>i_sub := Some ''b''\<rparr>) token_new"

definition policy_token :: cat_token where
  "policy_token = with_and_composite
     (CompositeClaim OpAnd [CsToken subject_token, CsComposite (CompositeClaim OpOr [CsToken subject_token])])
     (upd_core (\<lambda>c. c\<lparr>c_iss := Some ''a''\<rparr>) token_new)"

definition subject_cbor :: cbor where "subject_cbor = CMap [(CInt 2, CText ''b'')]"

definition policy_cbor :: cbor where
  "policy_cbor = CMap [(CInt 1, CText ''a''),
     (CInt 326, CArray [subject_cbor, CMap [(CInt 324, CArray [subject_cbor])]])]"

definition policy_table :: "(cbor \<times> bytes) list" where
  "policy_table =
     [(subject_cbor, [1]), (policy_cbor, [2]),
      (int_entries [(1, CInt (-7)), (16, CText ''CAT'')], [3]),
      (CArray [CText ''Signature1'', CBytes [3], CBytes [], CBytes [2]], [5]),
      (CTag 18 (CArray [CBytes [3], CMap [], CBytes [2], CBytes [7]]), [4]),
      (CMap [(CInt 1, CInt 1)], [6]),
      (CArray [CText ''Encrypt0'', CBytes [6], CBytes []], [8]),
      (CTag 16 (CArray [CBytes [6], CMap [(CInt 5, CBytes (replicate 12 0))], CBytes (4 # replicate 16 7)]), [9])]"

lemma policy_table_laws: "codec_laws (table_codec policy_table)" "reader_bounded (table_codec policy_table)"
  by (rule table_codec_laws, simp add: policy_table_def,
      rule table_reader_bounded,
      simp add: policy_table_def policy_cbor_def subject_cbor_def int_entries_def cbor_max_recursion_depth_def)

lemma policy_encodes:
  "encode_payload_token (table_codec policy_table) subject_token = Some (Inr [1])"
  "encode_payload_token (table_codec policy_table) policy_token = Some (Inr [2])"
  by code_simp+

lemma flat_wire_simple:
  assumes "custom_wire L []" "length s \<le> max_string_claim_length L" "2 \<le> n"
  shows "flat_wire L n (upd_composite (\<lambda>_. cc) (upd_core (\<lambda>c. c\<lparr>c_iss := Some s\<rparr>) token_new))"
    and "flat_wire L n (upd_informational (\<lambda>i. i\<lparr>i_sub := Some s\<rparr>) token_new)"
  using assms by (simp_all add: flat_wire_def claims_wire_def core_wire_def cat_wire_def other_wire_def on_some_def
      names_distinct_def claim_levels_def default_defs)

lemma policy_wire: "token_wire (table_codec policy_table) default_limits (max_nesting_depth default_limits) policy_token"
proof -
  let ?E = "table_codec policy_table" and ?L = default_limits
  have cw: "custom_wire ?L []" by (simp add: custom_wire_def)
  have lone: "\<not> lone_composite subject_token" by code_simp
  have fits: "payload_fits ?E ?L subject_token" "payload_fits ?E ?L policy_token"
    by (simp_all add: payload_fits_def policy_encodes default_limits_def)
  have sub: "token_wire ?E ?L n subject_token" if "3 \<le> n" for n
    using flat_wire_simple(2)[OF cw, of "''b''" "n - 1"] fits(1) that
    by (simp add: subject_token_def default_defs default_limits_def)
  have "flat_wire ?L 7 policy_token"
    using flat_wire_simple(1)[OF cw, of "''a''" 7] by (simp add: policy_token_def with_and_composite_def default_defs default_limits_def)
  then show ?thesis using fits(2) sub lone
    by (simp add: policy_token_def with_and_composite_def default_defs default_limits_def)
qed

lemma policy_counters: "counters_ok default_limits (payload_cost policy_token)"
  by (simp add: counters_ok_def policy_token_def subject_token_def with_and_composite_def default_defs
      flat_cost_pieces_def cost_of_def cadd_def citem_def cstring_def counters_zero_def default_limits_def)

theorem decode_payload_ends_witness:
  "\<exists>r. decode_payload_from (Suc cbor_max_recursion_depth + 7) (table_codec policy_table) default_limits [1]
     counters_zero = Some r"
  using decode_payload_ends[OF policy_table_laws, of 7] by blast

theorem payload_roundtrip_witness:
  "decode_payload_with_limits (table_codec policy_table) default_limits [2] = Inr policy_token"
  by (rule payload_roundtrip[OF policy_table_laws(1) limits_default policy_wire policy_counters policy_encodes(2)])

definition negative_table :: "(cbor \<times> bytes) list" where
  "negative_table = [(CMap [(CInt (-5), CNull), (CInt 1, CText ''a'')], [1])]"

theorem negative_custom_refused_witness:
  "set_custom_claim (-5) CNull (upd_core (\<lambda>c. c\<lparr>c_iss := Some ''a''\<rparr>) token_new) = Inr (negative_custom ''a'' (-5) CNull) \<and>
   \<not> is_ok (decode_payload_with_limits (table_codec negative_table) default_limits [1])"
proof (rule negative_custom_refused)
  show "codec_laws (table_codec negative_table)" by (rule table_codec_laws) (simp add: negative_table_def)
  show "encode_payload_token (table_codec negative_table) (negative_custom ''a'' (-5) CNull) = Some (Inr [1])" by code_simp
qed (simp_all add: cbor_max_recursion_depth_def)

section \<open>URIs and patterns\<close>

theorem prefix_trie_refines_map_witness:
  "set (search_prefix (prefix_insert ''ab'' (1 :: nat) prefix_new) ''abc'') = {1}"
proof -
  have inv: "prefix_inv (prefix_new :: (char, nat) prefix_trie)" by (rule pt.inv_empty)
  have i1: "prefix_inv (prefix_insert ''ab'' (1 :: nat) prefix_new)"
    using prefix_trie_refines_map[OF inv, of "''ab''" 1] by blast
  have "prefix_entries (prefix_insert ''ab'' (1 :: nat) prefix_new) = (prefix_entries prefix_new)(''ab'' \<mapsto> 1)"
    using prefix_trie_refines_map[OF inv, of "''ab''" 1] by blast
  moreover have "set (search_prefix (prefix_insert ''ab'' (1 :: nat) prefix_new) ''abc'') =
      {v. \<exists>q. q \<noteq> [] \<and> prefix q ''abc'' \<and> prefix_entries (prefix_insert ''ab'' 1 prefix_new) q = Some v}"
    using prefix_trie_refines_map[OF i1] by blast
  ultimately show ?thesis by (auto simp: pt.entries_empty)
qed

theorem uri_matcher_exact_witness:
  "\<exists>m. add_patterns (\<lambda>p. Inl ''none'') (\<lambda>h. Inl ''none'') [UpPrefix ''ab'', UpSuffix (map char_of [0xc3, 0xa9 :: nat])] um_new =
      Inr (m :: unit uri_matcher) \<and>
    um_matches (\<lambda>_ _. False) (\<lambda>_. []) m (''x'' @ map char_of [0xc3, 0xa9 :: nat]) \<and>
    \<not> um_matches (\<lambda>_ _. False) (\<lambda>_. []) m ''xab''"
proof -
  let ?compile = "\<lambda>p. Inl ''none'' :: string + unit" and ?hexd = "\<lambda>h. Inl ''none'' :: string + bytes"
  let ?ps = "[UpPrefix ''ab'', UpSuffix (map char_of [0xc3, 0xa9 :: nat])]"
  obtain m where m: "add_patterns ?compile ?hexd ?ps (um_with_limits uri_matcher_limits_default) = Inr m" by simp
  have texts: "\<forall>p \<in> set ?ps. pattern_text p" by code_simp
  have u: "utf8_valid (''x'' @ map char_of [0xc3, 0xa9 :: nat])" "utf8_valid ''xab''" by code_simp+
  note exact = uri_matcher_exact[OF m texts, where is_match = "\<lambda>_ _. False" and ?sha256.0 = "\<lambda>_. []"]
  have "um_matches (\<lambda>_ _. False) (\<lambda>_. []) m (''x'' @ map char_of [0xc3, 0xa9 :: nat])"
    using exact[OF u(1)] by (simp add: suffix_def)
  moreover have "\<not> suffix (map char_of [0xc3, 0xa9 :: nat]) ''xab''" by code_simp
  then have "\<not> um_matches (\<lambda>_ _. False) (\<lambda>_. []) m ''xab''" using exact[OF u(2)] by simp
  ultimately show ?thesis using m by (auto simp: um_new_def)
qed

section \<open>Stores\<close>

theorem race_bounded_entries_witness:
  "length (rs_entries (step_insert ''a'' (step_check 1 ''a'' race_init))) \<le> 1 + 1"
proof (rule race_bounded_entries)
  show "race_bounded 1 1 (step_insert ''a'' (step_check 1 ''a'' race_init))"
    by (rule bounded_next[OF bounded_next[OF bounded_start race_check] race_insert])
       (simp_all add: race_steps race_init_def in_flight_def Let_def)
qed

end
