(* ===== verification/Response.thy ===== *)
theory Response
  imports Pipeline Token_Rules
begin

text \<open>
  The cache policy of a response (\<open>src/src/response.rs\<close>): the \<open>Cache-Control\<close> value derived from
  \<open>exp\<close>, the header that carries \<open>catifdata\<close>, the check of header values, and the URI under which a
  response is cached. The clock is the argument \<open>now\<close>.

  Shown, against a reader of the directives as a cache would see them: the lifetime handed to a cache
  ends at \<open>exp\<close>, a shared lifetime is only handed out in the public scope, and no header value
  carries a control character.
\<close>

section \<open>Decimal numbers\<close>

fun decimal :: "nat \<Rightarrow> string" where
  "decimal n = (if n < 10 then [char_of (48 + n)] else decimal (n div 10) @ [char_of (48 + n mod 10)])"

declare decimal.simps [simp del]

text \<open>The number a string of digits denotes.\<close>

definition decimal_value :: "string \<Rightarrow> nat" where
  "decimal_value s = foldl (\<lambda>a c. 10 * a + (ord_of c - 48)) 0 s"

lemma decimal_value_decimal [simp]: "decimal_value (decimal n) = n"
proof (induction n rule: decimal.induct)
  case (1 n)
  show ?case
  proof (cases "n < 10")
    case True
    then show ?thesis by (subst decimal.simps) (simp add: decimal_value_def)
  next
    case False
    then have "decimal_value (decimal n) = 10 * decimal_value (decimal (n div 10)) + n mod 10"
      by (subst decimal.simps) (simp add: decimal_value_def)
    then show ?thesis using 1 False by simp
  qed
qed

lemma decimal_digits: "c \<in> set (decimal n) \<Longrightarrow> is_ascii_digit c"
proof (induction n rule: decimal.induct)
  case (1 n)
  show ?case
  proof (cases "n < 10")
    case True
    then have "c = char_of (48 + n)" using 1(2) by (subst (asm) decimal.simps) simp
    then show ?thesis using True by (simp add: is_ascii_digit_def)
  next
    case False
    then have "c \<in> set (decimal (n div 10)) \<or> c = char_of (48 + n mod 10)"
      using 1(2) by (subst (asm) decimal.simps) auto
    then show ?thesis
    proof
      assume "c = char_of (48 + n mod 10)"
      moreover have "n mod 10 < 10" by simp
      then have "48 + n mod 10 < 256" "n mod 10 \<le> 9" by linarith+
      ultimately show ?thesis by (simp add: is_ascii_digit_def)
    qed (use 1(1) False in blast)
  qed
qed

lemma decimal_no_sep: "CHR '','' \<notin> set (decimal n)" "CHR ''='' \<notin> set (decimal n)"
  using decimal_digits[of "CHR '',''" n] decimal_digits[of "CHR ''=''" n]
  by (auto simp: is_ascii_digit_def)

section \<open>The policy\<close>

datatype cache_scope = CachePrivate | CachePublic

record cat_response_policy =
  cache_control :: string
  additional_headers :: "(string \<times> string) list"

text \<open>The test of one character: C0 controls but the tab, DEL, and C1 controls, which UTF-8 writes as
  the byte \<open>0xc2\<close> and a byte below \<open>0xa0\<close>.\<close>

fun header_control :: "string \<Rightarrow> bool" where
  "header_control [] = False"
| "header_control (c # cs) =
     (ord_of c < 0x20 \<and> ord_of c \<noteq> 9 \<or> ord_of c = 0x7f \<or>
      ord_of c = 0xc2 \<and> (case cs of d # _ \<Rightarrow> 0x80 \<le> ord_of d \<and> ord_of d < 0xa0 | [] \<Rightarrow> False) \<or>
      header_control cs)"

definition validate_header_value :: "string \<Rightarrow> string \<Rightarrow> unit result" where
  "validate_header_value name value =
     (if header_control value
      then Inl (InvalidClaimValue ''header '')
      else Inr ())"

definition cache_control_for :: "cache_scope \<Rightarrow> int \<Rightarrow> int option \<Rightarrow> string" where
  "cache_control_for scope now expiry =
     (case scope of CachePrivate \<Rightarrow> ''private'' | CachePublic \<Rightarrow> ''public'') @
     (case expiry of
        None \<Rightarrow> []
      | Some e \<Rightarrow>
          (case checked_i64 (e - now) of
             Some remaining \<Rightarrow>
               (if remaining > 0 then
                  '', max-age='' @ decimal (nat remaining) @
                  (if scope = CachePublic then '', s-maxage='' @ decimal (nat remaining) else [])
                else '', no-cache'')
           | None \<Rightarrow> '', no-cache''))"

definition for_token_with_scope ::
  "int \<Rightarrow> validated_token \<Rightarrow> cache_scope \<Rightarrow> cat_response_policy result" where
  "for_token_with_scope now tok scope =
     (let cc = cache_control_for scope now (c_exp (t_core (validated_claims tok)))
      in case catifdata (t_informational (validated_claims tok)) of
           None \<Rightarrow> Inr \<lparr>cache_control = cc, additional_headers = []\<rparr>
         | Some data \<Rightarrow>
             (let joined = join_with '', '' data
              in rbind (validate_header_value ''X-CAT-Interface'' joined) (\<lambda>_.
                 Inr \<lparr>cache_control = cc, additional_headers = [(''X-CAT-Interface'', joined)]\<rparr>)))"

definition for_token :: "int \<Rightarrow> validated_token \<Rightarrow> cat_response_policy result" where
  "for_token now tok = for_token_with_scope now tok CachePrivate"

definition minimal :: cat_response_policy where
  "minimal = \<lparr>cache_control = ''private'', additional_headers = []\<rparr>"

definition for_rejection :: cat_response_policy where
  "for_rejection = \<lparr>cache_control = ''no-store'', additional_headers = []\<rparr>"

definition sanitize_uri_for_cache :: "string \<Rightarrow> string" where
  "sanitize_uri_for_cache uri = strip_token_from_uri [''cat'', ''token'', ''access_token''] uri"

section \<open>The directives a cache reads\<close>

definition directives :: "string \<Rightarrow> string list" where
  "directives s = map (dropWhile (\<lambda>c. c = CHR '' '')) (split_on CHR '','' s)"

definition directive :: "string \<Rightarrow> string \<Rightarrow> nat option" where
  "directive name s =
     (case List.map_filter (strip_prefix (name @ ''='')) (directives s) of
        [] \<Rightarrow> None
      | v # _ \<Rightarrow> Some (decimal_value v))"

definition scope_word :: "cache_scope \<Rightarrow> string" where
  "scope_word scope = (case scope of CachePrivate \<Rightarrow> ''private'' | CachePublic \<Rightarrow> ''public'')"

text \<open>The seconds a response stays fresh: up to \<open>exp\<close>, when that lies ahead.\<close>

definition lifetime :: "int \<Rightarrow> int option \<Rightarrow> nat option" where
  "lifetime now expiry =
     (case expiry of
        Some e \<Rightarrow> if now < e \<and> in_i64 (e - now) then Some (nat (e - now)) else None
      | None \<Rightarrow> None)"

lemma directives_cache_control:
  "directives (cache_control_for scope now expiry) =
     scope_word scope #
     (case expiry of
        None \<Rightarrow> []
      | Some e \<Rightarrow>
          (case lifetime now expiry of
             Some n \<Rightarrow> (''max-age='' @ decimal n) #
               (if scope = CachePublic then [''s-maxage='' @ decimal n] else [])
           | None \<Rightarrow> [''no-cache'']))"
proof -
  have w: "CHR '','' \<notin> set (scope_word scope)" by (simp add: scope_word_def split: cache_scope.split)
  have 1: "split_on CHR '','' (scope_word scope) = [scope_word scope]" using w by (rule split_on_no_sep)
  have d: "split_on CHR '','' (x @ decimal n) = [x @ decimal n]" if "CHR '','' \<notin> set x" for x n
    using that decimal_no_sep by (intro split_on_no_sep) simp
  have 2: "split_on CHR '','' (scope_word scope @ CHR '','' # x) = scope_word scope # split_on CHR '','' x" for x
    using split_on_append[OF w] by simp
  have 3: "split_on CHR '','' ('' max-age='' @ decimal n @ CHR '','' # x) =
      ('' max-age='' @ decimal n) # split_on CHR '','' x" for n x
    using split_on_append[of "CHR '',''" "'' max-age='' @ decimal n" x] decimal_no_sep by simp
  have 4: "dropWhile (\<lambda>c. c = CHR '' '') (scope_word scope) = scope_word scope"
    by (simp add: scope_word_def split: cache_scope.split)
  have form: "cache_control_for scope now expiry = scope_word scope @
     (case expiry of
        None \<Rightarrow> []
      | Some e \<Rightarrow>
          (case lifetime now expiry of
             Some n \<Rightarrow> CHR '','' # '' max-age='' @ decimal n @
               (if scope = CachePublic then CHR '','' # '' s-maxage='' @ decimal n else [])
           | None \<Rightarrow> CHR '','' # '' no-cache''))"
    by (simp add: cache_control_for_def lifetime_def scope_word_def checked_i64_def split: option.split)
  show ?thesis
    using d[of "'' max-age=''"] d[of "'' s-maxage=''"]
    by (simp add: directives_def form 1 2 3 4 del: append_Cons append.simps split: option.split)
      simp
qed

lemma directive_cache_control:
  "directive ''max-age'' (cache_control_for scope now expiry) = lifetime now expiry"
  "directive ''s-maxage'' (cache_control_for scope now expiry) =
     (if scope = CachePublic then lifetime now expiry else None)"
  by (cases scope; cases expiry;
      simp add: directive_def directives_cache_control scope_word_def strip_prefix_def lifetime_def
        List.map_filter_simps)+

lemma header_control_bytes:
  "\<not> header_control s \<Longrightarrow> c \<in> set s \<Longrightarrow> c = CHR 0x09 \<or> (0x20 \<le> ord_of c \<and> ord_of c \<noteq> 0x7f)"
proof (induction s)
  case (Cons d s)
  have "d = CHR 0x09" if "ord_of d = 9"
  proof -
    have "ord_of d = ord_of (CHR 0x09)" using that by simp
    then show ?thesis by (simp only: of_char_eq_iff)
  qed
  with Cons show ?case by auto
qed simp

lemma header_control_c1:
  "\<not> header_control (u @ c # d # w) \<Longrightarrow> ord_of c = 0xc2 \<Longrightarrow> \<not> (0x80 \<le> ord_of d \<and> ord_of d < 0xa0)"
  by (induction u) auto

lemma for_token_with_scope_ok:
  "for_token_with_scope now tok scope = Inr p \<longleftrightarrow>
     cache_control p = cache_control_for scope now (c_exp (t_core (validated_claims tok))) \<and>
     (case catifdata (t_informational (validated_claims tok)) of
        None \<Rightarrow> additional_headers p = []
      | Some data \<Rightarrow> \<not> header_control (join_with '', '' data) \<and>
          additional_headers p = [(''X-CAT-Interface'', join_with '', '' data)])"
  by (cases p) (auto simp: for_token_with_scope_def validate_header_value_def Let_def split: option.split)

text \<open>C17: the freshness a response hands to a cache ends at the expiry of the token. A \<open>max-age\<close>
  of \<open>n\<close> seconds is emitted exactly when \<open>exp\<close> lies \<open>n > 0\<close> seconds ahead (within 64-bit range), a
  shared cache is given that lifetime in the public scope only, a token at or past its expiry makes
  the response \<open>no-cache\<close>, and every header value is free of control characters but the tab: of C0
  controls and DEL, and of the C1 controls, the byte 0xc2 before a byte from 0x80 to 0x9f.\<close>

theorem response_freshness:
  assumes "for_token_with_scope now tok scope = Inr p"
  shows "(directive ''max-age'' (cache_control p) = Some n \<longleftrightarrow>
      0 < n \<and> int n \<le> i64_max \<and> c_exp (t_core (validated_claims tok)) = Some (now + int n)) \<and>
    directive ''s-maxage'' (cache_control p) =
      (if scope = CachePublic then directive ''max-age'' (cache_control p) else None) \<and>
    (''public'' \<in> set (directives (cache_control p)) \<longleftrightarrow> scope = CachePublic) \<and>
    (''no-cache'' \<in> set (directives (cache_control p)) \<longleftrightarrow>
      c_exp (t_core (validated_claims tok)) \<noteq> None \<and> directive ''max-age'' (cache_control p) = None) \<and>
    (\<forall>(name, value) \<in> set (additional_headers p). \<forall>c \<in> set value.
      c = CHR 0x09 \<or> (0x20 \<le> ord_of c \<and> ord_of c \<noteq> 0x7f)) \<and>
    (\<forall>(name, value) \<in> set (additional_headers p). \<nexists>u c d w. value = u @ c # d # w \<and>
      ord_of c = 0xc2 \<and> 0x80 \<le> ord_of d \<and> ord_of d < 0xa0)"
proof -
  let ?e = "c_exp (t_core (validated_claims tok))"
  have cc: "cache_control p = cache_control_for scope now ?e"
    using assms by (simp add: for_token_with_scope_ok)
  have "lifetime now ?e = Some n \<longleftrightarrow> 0 < n \<and> int n \<le> i64_max \<and> ?e = Some (now + int n)"
    by (auto simp: lifetime_def in_i64_def i64_min_def split: option.splits)
  moreover have "\<forall>(name, value) \<in> set (additional_headers p). \<forall>c \<in> set value.
      c = CHR 0x09 \<or> (0x20 \<le> ord_of c \<and> ord_of c \<noteq> 0x7f)"
    using assms header_control_bytes by (fastforce simp: for_token_with_scope_ok split: option.splits)
  moreover have "\<forall>(name, value) \<in> set (additional_headers p). \<nexists>u c d w. value = u @ c # d # w \<and>
      ord_of c = 0xc2 \<and> 0x80 \<le> ord_of d \<and> ord_of d < 0xa0"
  proof -
    have c1: "\<not> (ord_of c = 0xc2 \<and> 0x80 \<le> ord_of d \<and> ord_of d < 0xa0)"
      if "(name, x) \<in> set (additional_headers p)" "x = u @ c # d # w" for name x u c d w
    proof -
      have "\<not> header_control x" using assms that(1) by (auto simp: for_token_with_scope_ok split: option.splits)
      then show ?thesis using header_control_c1[of u c d w] that(2) by blast
    qed
    then show ?thesis by blast
  qed
  moreover have "''public'' \<in> set (directives (cache_control p)) \<longleftrightarrow> scope = CachePublic"
    by (cases scope) (auto simp: cc directives_cache_control scope_word_def split: option.split)
  moreover have "''no-cache'' \<in> set (directives (cache_control p)) \<longleftrightarrow> ?e \<noteq> None \<and> lifetime now ?e = None"
    by (cases scope) (auto simp: cc directives_cache_control scope_word_def lifetime_def split: option.split)
  ultimately show ?thesis by (simp add: cc directive_cache_control)
qed

end
