(* ===== verification/Async_Auth.thy ===== *)
theory Async_Auth
  imports Moqt_Authorize "HOL-Library.Multiset"
begin

text \<open>
  The asynchronous authorization of \<open>src/src/async.rs\<close>: \<open>AsyncMoqtValidator\<close> with its constructors,
  the commit through the two awaited stores, the three entry points, and the in-memory strict store.

  A call of a store is one step on the state of the store. What may happen between the two awaits of
  a request is the step relation \<open>async_step\<close>, in which any number of requests interleave and a
  request may be dropped at an await.

  Shown: the strict stores of the two paths accept the same requests, and no interleaving lets two
  requests through on one proof of possession, or on one \<open>cti\<close> whose reuse is prohibited.
\<close>

section \<open>Stores and guards\<close>

record 's async_jti_store =
  aj_insert :: "string \<Rightarrow> int \<Rightarrow> 's \<Rightarrow> 's \<times> unit result"
  aj_is_strict :: bool

record 'g async_replay_guard =
  ag_check :: "'g replay_guard"
  ag_is_strict :: bool

definition async_adapter :: "'s store_ops \<Rightarrow> 's async_jti_store" where
  "async_adapter ops = \<lparr>aj_insert = st_insert ops, aj_is_strict = st_is_strict ops\<rparr>"

section \<open>The validator\<close>

record 's async_validator =
  av_sync :: moqt_validator
  av_jti_store :: "'s async_jti_store"
  av_require_strict_guard :: bool

definition async_best_effort :: "moqt_validator \<Rightarrow> 's async_jti_store \<Rightarrow> 's async_validator" where
  "async_best_effort v store =
     \<lparr>av_sync = v, av_jti_store = store, av_require_strict_guard = False\<rparr>"

definition async_strict :: "moqt_validator \<Rightarrow> 's async_jti_store \<Rightarrow> 's async_validator result" where
  "async_strict v store =
     (if \<not> aj_is_strict store
      then Inl (ConfigurationRefused ''AsyncJtiStore::is_strict() returned false'')
      else Inr \<lparr>av_sync = v, av_jti_store = store, av_require_strict_guard = False\<rparr>)"

definition require_strict_replay_guard :: "'s async_validator \<Rightarrow> 's async_validator" where
  "require_strict_replay_guard av = av\<lparr>av_require_strict_guard := True\<rparr>"

definition resolve_replay_guard ::
  "'s async_validator \<Rightarrow> 'g async_replay_guard option \<Rightarrow> 'g async_replay_guard result" where
  "resolve_replay_guard av guard =
     rbind (ok_or guard (InvalidClaimValue ''token asserts catreplay but no replay guard configured'')) (\<lambda>g.
       if av_require_strict_guard av \<and> \<not> ag_is_strict g
       then Inl (ConfigurationRefused ''AsyncReplayGuard::is_strict() returned false'')
       else Inr g)"

text \<open>The two awaited halves of \<open>commit_async\<close>.\<close>

definition await_jti :: "'s async_validator \<Rightarrow> pre_commit \<Rightarrow> 's \<Rightarrow> 's \<times> unit result" where
  "await_jti av p s =
     (case pc_jti_commit p of
        Some (key, iat) \<Rightarrow> aj_insert (av_jti_store av) key iat s
      | None \<Rightarrow> (s, Inr ()))"

definition await_cti ::
  "'s async_validator \<Rightarrow> 'g async_replay_guard option \<Rightarrow> pre_commit \<Rightarrow> 'g \<Rightarrow> 'g \<times> bool result" where
  "await_cti av guard p g =
     (case pc_replay p of
        Some (ObProhibited cti) \<Rightarrow>
          (case resolve_replay_guard av guard of
             Inl e \<Rightarrow> (g, Inl e)
           | Inr rg \<Rightarrow>
               (case ag_check rg cti g of
                  (g1, Inl e) \<Rightarrow> (g1, Inl e)
                | (g1, Inr seen) \<Rightarrow> (g1, if seen then Inl ReplayAttackDetected else Inr False)))
      | Some (ObReuseDetection cti) \<Rightarrow>
          (case resolve_replay_guard av guard of
             Inl e \<Rightarrow> (g, Inl e)
           | Inr rg \<Rightarrow> ag_check rg cti g)
      | None \<Rightarrow> (g, Inr False))"

definition commit_async ::
  "'s async_validator \<Rightarrow> pre_commit \<Rightarrow> 'g async_replay_guard option \<Rightarrow> 's \<times> 'g \<Rightarrow>
     ('s \<times> 'g) \<times> authorized_request result" where
  "commit_async av p guard sg =
     (case await_jti av p (fst sg) of
        (s1, Inl e) \<Rightarrow> ((s1, snd sg), Inl e)
      | (s1, Inr _) \<Rightarrow>
          (case await_cti av guard p (snd sg) of
             (g1, Inl e) \<Rightarrow> ((s1, g1), Inl e)
           | (g1, Inr reuse) \<Rightarrow> ((s1, g1), Inr (finalize p reuse))))"

definition async_authorize ::
  "auth_env \<Rightarrow> 's async_validator \<Rightarrow> validated_token \<Rightarrow> relay_request_context \<Rightarrow> 's \<Rightarrow>
     's \<times> authorized_request result" where
  "async_authorize A av tok c s =
     (case snd (authorize_precommit A (av_sync av) tok c False None) of
        Inl e \<Rightarrow> (s, Inl e)
      | Inr p \<Rightarrow>
          (case commit_async av p (None :: unit async_replay_guard option) (s, ()) of
             ((s1, _), r) \<Rightarrow> (s1, r)))"

definition async_authorize_with_replay ::
  "auth_env \<Rightarrow> 's async_validator \<Rightarrow> validated_token \<Rightarrow> relay_request_context \<Rightarrow>
     'g async_replay_guard \<Rightarrow> (bytes \<Rightarrow> bool) option \<Rightarrow> 's \<times> 'g \<Rightarrow>
     (bytes \<times> int option) option \<times> ('s \<times> 'g) \<times> authorized_request result" where
  "async_authorize_with_replay A av tok c guard blocked sg =
     (case authorize_precommit A (av_sync av) tok c True blocked of
        (add, Inl e) \<Rightarrow> (add, sg, Inl e)
      | (add, Inr p) \<Rightarrow> (add, commit_async av p (Some guard) sg))"

text \<open>\<open>spawn_blocking\<close> is the parameter \<open>joined\<close>: whether the pool ran the task, or cancelled it.\<close>

definition async_authorize_offloaded ::
  "bool \<Rightarrow> auth_env \<Rightarrow> 's async_validator \<Rightarrow> validated_token \<Rightarrow> relay_request_context \<Rightarrow>
     'g async_replay_guard option \<Rightarrow> (bytes \<Rightarrow> bool) option \<Rightarrow> 's \<times> 'g \<Rightarrow>
     (bytes \<times> int option) option \<times> ('s \<times> 'g) \<times> authorized_request result" where
  "async_authorize_offloaded joined A av tok c guard blocked sg =
     (if \<not> joined then (None, sg, Inl (BackendUnavailable ''tokio spawn_blocking join error: ''))
      else case authorize_precommit A (av_sync av) tok c (guard \<noteq> None) blocked of
        (add, Inl e) \<Rightarrow> (add, sg, Inl e)
      | (add, Inr p) \<Rightarrow> (add, commit_async av p guard sg))"

section \<open>The in-memory strict store\<close>

record async_mem_store =
  am_entries :: "(string \<times> int) list"
  am_max_entries :: "nat option"
  am_rejected :: nat

definition async_mem_new :: "nat \<Rightarrow> async_mem_store" where
  "async_mem_new max_entries =
     \<lparr>am_entries = [], am_max_entries = Some max_entries, am_rejected = 0\<rparr>"

definition async_mem_unbounded :: async_mem_store where
  "async_mem_unbounded = \<lparr>am_entries = [], am_max_entries = None, am_rejected = 0\<rparr>"

definition async_mem_len :: "async_mem_store \<Rightarrow> nat" where
  "async_mem_len s = length (am_entries s)"

definition async_mem_is_empty :: "async_mem_store \<Rightarrow> bool" where
  "async_mem_is_empty s \<longleftrightarrow> async_mem_len s = 0"

definition async_mem_cleanup :: "int \<Rightarrow> int \<Rightarrow> async_mem_store \<Rightarrow> async_mem_store" where
  "async_mem_cleanup now max_age s =
     s\<lparr>am_entries := filter (\<lambda>(_, iat). saturating_i64 (now - iat) < max_age) (am_entries s)\<rparr>"

definition async_mem_check_and_insert ::
  "string \<Rightarrow> int \<Rightarrow> async_mem_store \<Rightarrow> async_mem_store \<times> unit result" where
  "async_mem_check_and_insert key iat s =
     (if length key > max_jti_length_bytes then (s, Inl (DpopValidationFailed ''JTI exceeds ''))
      else if map_of (am_entries s) key \<noteq> None then (s, Inl ReplayAttackDetected)
      else if (case am_max_entries s of Some mx \<Rightarrow> length (am_entries s) \<ge> mx | None \<Rightarrow> False)
        then (s\<lparr>am_rejected := am_rejected s + 1\<rparr>,
              Inl (DpopValidationFailed ''async strict JTI store at max_entries=''))
      else (s\<lparr>am_entries := AList.update key iat (am_entries s)\<rparr>, Inr ()))"

definition async_mem_ops :: "async_mem_store async_jti_store" where
  "async_mem_ops = \<lparr>aj_insert = async_mem_check_and_insert, aj_is_strict = True\<rparr>"

definition async_mem_seen :: "async_mem_store \<Rightarrow> string set" where
  "async_mem_seen s = fst ` set (am_entries s)"

definition async_mem_inv :: "async_mem_store \<Rightarrow> bool" where
  "async_mem_inv s \<longleftrightarrow> distinct (map fst (am_entries s))"

lemma async_mem_inv_new [simp]: "async_mem_inv (async_mem_new n)" "async_mem_inv async_mem_unbounded"
  by (simp_all add: async_mem_inv_def async_mem_new_def async_mem_unbounded_def)

interpretation am: jti_store async_mem_check_and_insert async_mem_seen async_mem_inv
proof
  fix k i s e
  assume "async_mem_inv s"
  then show "async_mem_inv (fst (async_mem_check_and_insert k i s))"
    by (simp add: async_mem_check_and_insert_def async_mem_inv_def distinct_update)
  show "k \<in> async_mem_seen s \<Longrightarrow> \<exists>e. snd (async_mem_check_and_insert k i s) = Inl e"
    by (auto simp: async_mem_check_and_insert_def async_mem_seen_def map_of_eq_None_iff)
  show "snd (async_mem_check_and_insert k i s) = Inr () \<Longrightarrow>
      async_mem_seen (fst (async_mem_check_and_insert k i s)) = insert k (async_mem_seen s)"
    by (auto simp: async_mem_check_and_insert_def async_mem_seen_def update_new_append
        split: if_splits option.splits)
  show "snd (async_mem_check_and_insert k i s) = Inl e \<Longrightarrow>
      async_mem_seen (fst (async_mem_check_and_insert k i s)) = async_mem_seen s"
    by (auto simp: async_mem_check_and_insert_def async_mem_seen_def split: if_splits)
qed

section \<open>The two strict stores\<close>

text \<open>The sharded store and the single map hold the same entries under the same cap.\<close>

definition same_store :: "(string \<Rightarrow> nat) \<Rightarrow> strict_store \<Rightarrow> async_mem_store \<Rightarrow> bool" where
  "same_store hash s a \<longleftrightarrow> strict_inv hash s \<and> async_mem_inv a \<and>
     mset (strict_entries s) = mset (am_entries a) \<and> ss_max_entries s = am_max_entries a"

lemma mset_concat_update_append:
  "i < length xs \<Longrightarrow> mset (concat (xs[i := xs ! i @ [e]])) = add_mset e (mset (concat xs))"
  by (induction xs arbitrary: i) (auto split: nat.splits)

lemma same_store_seen: "same_store hash s a \<Longrightarrow> strict_seen s = async_mem_seen a"
  unfolding same_store_def strict_seen_def async_mem_seen_def by (metis set_mset_mset)

lemma same_store_cap:
  "same_store hash s a \<Longrightarrow>
     at_cap s \<longleftrightarrow> (case am_max_entries a of Some mx \<Rightarrow> length (am_entries a) \<ge> mx | None \<Rightarrow> False)"
  unfolding same_store_def at_cap_def strict_inv_def by (metis size_mset)

lemma same_store_insert:
  assumes "same_store hash s a"
  shows "is_ok (snd (async_mem_check_and_insert k i a)) \<longleftrightarrow> is_ok (snd (strict_check_and_insert hash k i s))"
    and "same_store hash (fst (strict_check_and_insert hash k i s)) (fst (async_mem_check_and_insert k i a))"
proof -
  have inv: "strict_inv hash s" and ainv: "async_mem_inv a" using assms by (simp_all add: same_store_def)
  note cases = strict_insert_cases[OF inv, of k i] same_store_cap[OF assms] same_store_seen[OF assms]
  have seen: "k \<in> async_mem_seen a \<longleftrightarrow> map_of (am_entries a) k \<noteq> None"
    by (simp add: async_mem_seen_def map_of_eq_None_iff)
  show "is_ok (snd (async_mem_check_and_insert k i a)) \<longleftrightarrow> is_ok (snd (strict_check_and_insert hash k i s))"
    using cases seen by (auto simp: async_mem_check_and_insert_def)
  have "mset (strict_entries (fst (strict_check_and_insert hash k i s))) =
      mset (am_entries (fst (async_mem_check_and_insert k i a)))"
    using cases seen assms mset_concat_update_append[OF shard_index_less[OF inv], of k "(k, i)"]
    by (auto simp: async_mem_check_and_insert_def same_store_def strict_entries_def update_new_append)
  moreover have "ss_max_entries (fst (strict_check_and_insert hash k i s)) = ss_max_entries s"
    using cases(1) by auto
  moreover have "am_max_entries (fst (async_mem_check_and_insert k i a)) = am_max_entries a"
    by (auto simp: async_mem_check_and_insert_def)
  ultimately show "same_store hash (fst (strict_check_and_insert hash k i s))
      (fst (async_mem_check_and_insert k i a))"
    using assms strict_inv_insert[OF inv] am.inv_insert[OF ainv] by (simp add: same_store_def)
qed

lemma same_store_cleanup:
  assumes "same_store hash s a"
  shows "same_store hash (strict_cleanup now age s) (async_mem_cleanup now age a)"
proof -
  have "mset (strict_entries (strict_cleanup now age s)) = mset (am_entries (async_mem_cleanup now age a))"
    using assms by (simp add: same_store_def strict_cleanup_entries async_mem_cleanup_def)
  moreover have "ss_max_entries (strict_cleanup now age s) = ss_max_entries s"
    "am_max_entries (async_mem_cleanup now age a) = am_max_entries a"
    by (simp_all add: strict_cleanup_def async_mem_cleanup_def Let_def)
  moreover have "async_mem_inv (async_mem_cleanup now age a)"
    using assms by (auto simp: same_store_def async_mem_inv_def async_mem_cleanup_def intro: distinct_map_filter)
  ultimately show ?thesis
    using assms strict_cleanup_inv[of hash s now age] by (simp add: same_store_def)
qed

lemma same_store_new: "same_store hash (strict_new w n) (async_mem_new n)"
  by (simp add: same_store_def strict_new_def async_mem_new_def async_mem_inv_def)
     (simp add: strict_build_def strict_entries_def default_jti_shards_def)

text \<open>A history of a store: insertions and cleanups.\<close>

datatype store_event = EvInsert string int | EvCleanup int int

fun strict_event :: "(string \<Rightarrow> nat) \<Rightarrow> store_event \<Rightarrow> strict_store \<Rightarrow> strict_store \<times> bool" where
  "strict_event hash (EvInsert k i) s = map_prod id is_ok (strict_check_and_insert hash k i s)"
| "strict_event hash (EvCleanup now age) s = (strict_cleanup now age s, True)"

fun async_event :: "store_event \<Rightarrow> async_mem_store \<Rightarrow> async_mem_store \<times> bool" where
  "async_event (EvInsert k i) a = map_prod id is_ok (async_mem_check_and_insert k i a)"
| "async_event (EvCleanup now age) a = (async_mem_cleanup now age a, True)"

lemma same_store_event:
  "same_store hash s a \<Longrightarrow> snd (async_event e a) = snd (strict_event hash e s) \<and>
     same_store hash (fst (strict_event hash e s)) (fst (async_event e a))"
  by (cases e) (simp_all add: same_store_insert same_store_cleanup)

lemma same_store_run:
  "same_store hash s a \<Longrightarrow>
     snd (filter_run async_event es a) = snd (filter_run (strict_event hash) es s) \<and>
     same_store hash (fst (filter_run (strict_event hash) es s)) (fst (filter_run async_event es a))"
proof (induction es arbitrary: s a)
  case (Cons e es)
  have 1: "snd (async_event e a) = snd (strict_event hash e s)"
    "same_store hash (fst (strict_event hash e s)) (fst (async_event e a))"
    using same_store_event[OF Cons.prems, of e] by simp_all
  from Cons.IH[OF 1(2)] 1(1) show ?case by (simp add: case_prod_beta Let_def)
qed simp

text \<open>The in-memory store of the asynchronous path implements the sharded store of the synchronous
  path. Whatever history of insertions and cleanups reaches the two, they accept the same
  insertions, hold the same entries, and count the same number of them, for every shard hash.\<close>

lemma async_store_agrees:
  "snd (filter_run async_event es (async_mem_new n)) =
      snd (filter_run (strict_event hash) es (strict_new w n)) \<and>
   set (am_entries (fst (filter_run async_event es (async_mem_new n)))) =
      set (strict_entries (fst (filter_run (strict_event hash) es (strict_new w n)))) \<and>
   async_mem_len (fst (filter_run async_event es (async_mem_new n))) =
      strict_len (fst (filter_run (strict_event hash) es (strict_new w n)))"
proof -
  let ?a = "filter_run async_event es (async_mem_new n)"
  let ?s = "filter_run (strict_event hash) es (strict_new w n)"
  have run: "snd ?a = snd ?s" "same_store hash (fst ?s) (fst ?a)"
    using same_store_run[OF same_store_new] by simp_all
  then have m: "mset (strict_entries (fst ?s)) = mset (am_entries (fst ?a))"
    and "strict_inv hash (fst ?s)" by (simp_all add: same_store_def)
  moreover have "set (am_entries (fst ?a)) = set (strict_entries (fst ?s))"
    using m by (metis set_mset_mset)
  moreover have "length (am_entries (fst ?a)) = length (strict_entries (fst ?s))"
    using m by (metis size_mset)
  ultimately show ?thesis
    using run(1) by (simp add: strict_inv_def strict_len_def async_mem_len_def)
qed

section \<open>The two paths\<close>

lemma await_jti_adapter:
  "pc_jti_commit p = None \<or> mv_dpop v \<noteq> None \<Longrightarrow> av_jti_store av = async_adapter ops \<Longrightarrow>
     await_jti av p s = commit_jti ops v p s"
  by (auto simp: await_jti_def commit_jti_def async_adapter_def split: option.split)

lemma resolve_replay_guard_Some:
  "\<not> av_require_strict_guard av \<or> ag_is_strict rg \<Longrightarrow> resolve_replay_guard av (Some rg) = Inr rg"
  by (auto simp: resolve_replay_guard_def)

lemma await_cti_guarded:
  "\<not> av_require_strict_guard av \<or> ag_is_strict rg \<Longrightarrow>
     await_cti av (Some rg) p g = commit_cti (Some (ag_check rg)) p g"
  unfolding await_cti_def commit_cti_def
  by (simp only: resolve_replay_guard_Some option.case sum.case)

lemma await_cti_free: "pc_replay p = None \<Longrightarrow> await_cti av guard p g = commit_cti guard' p g"
  by (simp add: await_cti_def commit_cti_def)

lemma precommit_jti_configured:
  "snd (authorize_precommit A v tok c guard blocked) = Inr p \<Longrightarrow> pc_jti_commit p = None \<or> mv_dpop v \<noteq> None"
  unfolding authorize_precommit_iff
  by (auto simp: proof_satisfied_def proof_accepted_def split: option.splits)

text \<open>C14: the asynchronous entry points decide and change the stores as the synchronous ones do, over a
  shared store and a guard the validator does not refuse. Without a guard this needs no condition at
  all, since a token with a replay obligation never reaches the commit.\<close>

theorem async_authorize_agrees:
  assumes "av_jti_store av = async_adapter ops"
    and "\<not> av_require_strict_guard av \<or> ag_is_strict rg"
  shows "async_authorize_with_replay A av tok c rg blocked sg =
      authorize_with_replay A ops (av_sync av) tok c (ag_check rg) blocked sg \<and>
    async_authorize A av tok c s = authorize A ops (av_sync av) tok c s"
proof
  have jti: "await_jti av p = commit_jti ops (av_sync av) p"
    if "snd (authorize_precommit A (av_sync av) tok c g b) = Inr p" for p g b
    using await_jti_adapter[OF precommit_jti_configured[OF that] assms(1)] by blast
  show "async_authorize_with_replay A av tok c rg blocked sg =
      authorize_with_replay A ops (av_sync av) tok c (ag_check rg) blocked sg"
  proof (cases "authorize_precommit A (av_sync av) tok c True blocked")
    case (Pair add r)
    then show ?thesis
      using jti[of True blocked] await_cti_guarded[OF assms(2)]
      by (cases r) (simp_all add: async_authorize_with_replay_def authorize_with_replay_def
          commit_async_def commit_def)
  qed
  show "async_authorize A av tok c s = authorize A ops (av_sync av) tok c s"
  proof (cases "snd (authorize_precommit A (av_sync av) tok c False None)")
    case (Inr p)
    then have "pc_replay p = None" by (auto simp: authorize_precommit_iff obligation_of_def split: option.splits replay_protection.splits)
    then have "await_cti av (None :: unit async_replay_guard option) p = commit_cti None p"
      by (intro ext await_cti_free)
    then have "commit_async av p (None :: unit async_replay_guard option) (s, ()) =
        commit ops (av_sync av) p None (s, ())"
      by (simp only: commit_async_def commit_def fst_conv snd_conv jti[OF Inr])
    then show ?thesis using Inr by (simp add: async_authorize_def authorize_def)
  qed (simp add: async_authorize_def authorize_def)
qed

section \<open>Interleaved requests\<close>

text \<open>A request in flight: before the pre-commit pipeline ran, waiting for the replay store, waiting for
  the guard, answered, or dropped.\<close>

datatype async_phase =
  PhNew | PhJti pre_commit | PhCti pre_commit | PhDone "authorized_request result" | PhDropped

record async_task =
  at_request :: auth_request
  at_phase :: async_phase

type_synonym ('s, 'g) async_state = "'s \<times> 'g \<times> async_task list"

text \<open>Each step runs one request up to its next await, with the clock of the request; the last one
  drops a request that waits.\<close>

inductive async_step ::
  "auth_env \<Rightarrow> 's async_validator \<Rightarrow> 'g async_replay_guard \<Rightarrow> ('s, 'g) async_state \<Rightarrow> ('s, 'g) async_state \<Rightarrow> bool"
  for A av rg where
  precommit: "i < length ts \<Longrightarrow> at_phase (ts ! i) = PhNew \<Longrightarrow> r = at_request (ts ! i) \<Longrightarrow>
    ph = (case snd (authorize_precommit (A\<lparr>ae_now := ar_now r\<rparr>) (av_sync av) (ar_token r) (ar_context r) True None) of
            Inl e \<Rightarrow> PhDone (Inl e) | Inr p \<Rightarrow> PhJti p) \<Longrightarrow>
    async_step A av rg (s, g, ts) (s, g, ts[i := \<lparr>at_request = r, at_phase = ph\<rparr>])"
| jti: "i < length ts \<Longrightarrow> at_phase (ts ! i) = PhJti p \<Longrightarrow> r = at_request (ts ! i) \<Longrightarrow>
    ph = (case snd (await_jti av p s) of Inl e \<Rightarrow> PhDone (Inl e) | Inr _ \<Rightarrow> PhCti p) \<Longrightarrow>
    async_step A av rg (s, g, ts) (fst (await_jti av p s), g, ts[i := \<lparr>at_request = r, at_phase = ph\<rparr>])"
| cti: "i < length ts \<Longrightarrow> at_phase (ts ! i) = PhCti p \<Longrightarrow> r = at_request (ts ! i) \<Longrightarrow>
    ph = (case snd (await_cti av (Some rg) p g) of
            Inl e \<Rightarrow> PhDone (Inl e) | Inr reuse \<Rightarrow> PhDone (Inr (finalize p reuse))) \<Longrightarrow>
    async_step A av rg (s, g, ts) (s, fst (await_cti av (Some rg) p g), ts[i := \<lparr>at_request = r, at_phase = ph\<rparr>])"
| drop: "i < length ts \<Longrightarrow> at_phase (ts ! i) \<in> {PhJti p, PhCti p} \<Longrightarrow> r = at_request (ts ! i) \<Longrightarrow>
    async_step A av rg (s, g, ts) (s, g, ts[i := \<lparr>at_request = r, at_phase = PhDropped\<rparr>])"

definition async_start :: "auth_request list \<Rightarrow> async_task list" where
  "async_start rs = map (\<lambda>r. \<lparr>at_request = r, at_phase = PhNew\<rparr>) rs"

text \<open>The requests answered with an authorization.\<close>

fun is_granted :: "async_phase \<Rightarrow> bool" where
  "is_granted (PhDone (Inr a)) = True"
| "is_granted _ = False"

lemma is_granted_iff: "is_granted ph \<longleftrightarrow> (\<exists>a. ph = PhDone (Inr a))"
  by (cases ph rule: is_granted.cases) simp_all

definition granted :: "async_task list \<Rightarrow> auth_request list" where
  "granted ts = map at_request (filter (\<lambda>t. is_granted (at_phase t)) ts)"

subsection \<open>Claims of tasks\<close>

text \<open>Each task claims at most one key; claimed keys are remembered, and no two tasks claim the same.\<close>

definition claimed :: "('t \<Rightarrow> 'k option) \<Rightarrow> 'k set \<Rightarrow> 't list \<Rightarrow> bool" where
  "claimed f S ts \<longleftrightarrow> (\<forall>i < length ts. \<forall>k. f (ts ! i) = Some k \<longrightarrow>
     k \<in> S \<and> (\<forall>j < length ts. f (ts ! j) = Some k \<longrightarrow> j = i))"

lemma claimed_keep:
  assumes "claimed f S ts" "S \<subseteq> S'" "f t = None \<or> f t = f (ts ! i)" "i < length ts"
  shows "claimed f S' (ts[i := t])"
  using assms by (fastforce simp: claimed_def nth_list_update)

lemma claimed_new:
  assumes "claimed f S ts" "S \<subseteq> S'" "f t = Some k" "k \<notin> S" "k \<in> S'" "i < length ts"
  shows "claimed f S' (ts[i := t])"
  using assms by (fastforce simp: claimed_def nth_list_update)

lemma claimed_Cons: "claimed f S (t # ts) \<Longrightarrow> claimed f S ts"
  by (fastforce simp: claimed_def)

lemma claimed_head:
  assumes "claimed f S (t # ts)" "f t = Some k" "u \<in> set ts"
  shows "f u \<noteq> Some k"
proof
  assume "f u = Some k"
  with \<open>u \<in> set ts\<close> obtain j where "j < length ts" "f (ts ! j) = Some k" by (auto simp: in_set_conv_nth)
  then show False using assms(1,2) by (fastforce simp: claimed_def)
qed

lemma claimed_distinct:
  "claimed f S ts \<Longrightarrow> (\<And>t. t \<in> set ts \<Longrightarrow> P t \<Longrightarrow> f t = Some (h t)) \<Longrightarrow> distinct (map h (filter P ts))"
proof (induction ts)
  case (Cons t ts)
  have "h t \<noteq> h u" if "P t" "u \<in> set ts" "P u" for u
    using claimed_head[OF Cons.prems(1), of "h t" u] Cons.prems(2)[of t] Cons.prems(2)[of u] that by auto
  then show ?case using Cons.IH[OF claimed_Cons[OF Cons.prems(1)]] Cons.prems(2) by auto
qed simp

text \<open>A task claims the key of its proof from the replay store on, and the \<open>cti\<close> of its token once it is
  authorized, where reuse is prohibited.\<close>

definition proof_claim :: "crypto_env \<Rightarrow> async_task \<Rightarrow> string option" where
  "proof_claim C t =
     (case at_phase t of
        PhCti p \<Rightarrow> Some (auth_key C (at_request t))
      | PhDone (Inr a) \<Rightarrow> Some (auth_key C (at_request t))
      | _ \<Rightarrow> None)"

definition reuse_prohibited :: "auth_request \<Rightarrow> bool" where
  "reuse_prohibited r \<longleftrightarrow> catreplay (t_cat (validated_claims (ar_token r))) = Some ReplayProhibited"

definition cti_claim :: "async_task \<Rightarrow> bytes option" where
  "cti_claim t =
     (case at_phase t of
        PhDone (Inr a) \<Rightarrow> if reuse_prohibited (at_request t) then request_cti (at_request t) else None
      | _ \<Rightarrow> None)"

definition task_precommitted :: "auth_env \<Rightarrow> moqt_validator \<Rightarrow> async_task \<Rightarrow> bool" where
  "task_precommitted A v t \<longleftrightarrow> (\<forall>p. at_phase t \<in> {PhJti p, PhCti p} \<longrightarrow>
     snd (authorize_precommit (A\<lparr>ae_now := ar_now (at_request t)\<rparr>) v (ar_token (at_request t))
       (ar_context (at_request t)) True None) = Inr p) \<and>
     (\<forall>a. at_phase t = PhDone (Inr a) \<longrightarrow> reuse_prohibited (at_request t) \<longrightarrow> request_cti (at_request t) \<noteq> None)"

lemma claims_start [simp]:
  "claimed (proof_claim C) S (async_start rs)" "claimed cti_claim U (async_start rs)"
  "\<forall>t \<in> set (async_start rs). task_precommitted A v t"
  by (auto simp: claimed_def async_start_def proof_claim_def cti_claim_def task_precommitted_def)

lemma tracked_jti:
  assumes "snd (authorize_precommit (A\<lparr>ae_now := ar_now r\<rparr>) v (ar_token r) (ar_context r) True None) = Inr p"
    "mv_require_dpop v" "mv_require_tracking v"
  shows "\<exists>iat. pc_jti_commit p = Some (auth_key (ae_crypto A) r, iat)"
  using tracked_commit_key[OF assms, of "ar_now r"] by auto

lemma precommit_prohibited:
  assumes "snd (authorize_precommit (A\<lparr>ae_now := ar_now r\<rparr>) v (ar_token r) (ar_context r) True None) = Inr p"
    "reuse_prohibited r"
  shows "\<exists>cti. request_cti r = Some cti \<and> pc_replay p = Some (ObProhibited cti)"
  using assms by (auto simp: authorize_precommit_iff obligation_of_def reuse_prohibited_def request_cti_def)

subsection \<open>Single use under interleaving\<close>

text \<open>The state of a run over a replay store and a guard that keep their contracts.\<close>

definition async_safe ::
  "auth_env \<Rightarrow> moqt_validator \<Rightarrow> ('s \<Rightarrow> string set) \<Rightarrow> ('s \<Rightarrow> bool) \<Rightarrow> ('g \<Rightarrow> bytes set) \<Rightarrow> ('s, 'g) async_state \<Rightarrow> bool" where
  "async_safe A v seen ok recorded st \<longleftrightarrow>
     (case st of (s, g, ts) \<Rightarrow> ok s \<and> (\<forall>t \<in> set ts. task_precommitted A v t) \<and>
        claimed (proof_claim (ae_crypto A)) (seen s) ts \<and> claimed cti_claim (recorded g) ts)"

lemma async_safe_update:
  assumes "async_safe A v seen ok recorded (s, g, ts)" "i < length ts"
    and "ok s'" "seen s \<subseteq> seen s'" "recorded g \<subseteq> recorded g'" "task_precommitted A v t"
    and "proof_claim (ae_crypto A) t \<in> {None, proof_claim (ae_crypto A) (ts ! i)} \<or>
      (\<exists>k. proof_claim (ae_crypto A) t = Some k \<and> k \<notin> seen s \<and> k \<in> seen s')"
    and "cti_claim t \<in> {None, cti_claim (ts ! i)} \<or> (\<exists>k. cti_claim t = Some k \<and> k \<notin> recorded g \<and> k \<in> recorded g')"
  shows "async_safe A v seen ok recorded (s', g', ts[i := t])"
proof -
  have "claimed (proof_claim (ae_crypto A)) (seen s') (ts[i := t])"
    using assms(7)
  proof
    assume "proof_claim (ae_crypto A) t \<in> {None, proof_claim (ae_crypto A) (ts ! i)}"
    then show ?thesis using assms(1,2,4) by (intro claimed_keep) (auto simp: async_safe_def)
  qed (use assms(1,2,4) in \<open>auto simp: async_safe_def intro: claimed_new\<close>)
  moreover have "claimed cti_claim (recorded g') (ts[i := t])"
    using assms(8)
  proof
    assume "cti_claim t \<in> {None, cti_claim (ts ! i)}"
    then show ?thesis using assms(1,2,5) by (intro claimed_keep) (auto simp: async_safe_def)
  qed (use assms(1,2,5) in \<open>auto simp: async_safe_def intro: claimed_new\<close>)
  ultimately show ?thesis
    using assms(1,3,6) set_update_subset_insert[of ts i t] by (auto simp: async_safe_def)
qed

lemma async_safe_at:
  assumes "async_safe A v seen ok recorded (s, g, ts)" "i < length ts"
  shows "ok s" "task_precommitted A v (ts ! i)"
    "claimed (proof_claim (ae_crypto A)) (seen s) ts" "claimed cti_claim (recorded g) ts"
  using assms by (auto simp: async_safe_def)

lemma precommitted_at:
  "task_precommitted A v t \<Longrightarrow> at_phase t = PhJti p \<or> at_phase t = PhCti p \<Longrightarrow> at_request t = r \<Longrightarrow>
     snd (authorize_precommit (A\<lparr>ae_now := ar_now r\<rparr>) v (ar_token r) (ar_context r) True None) = Inr p"
  unfolding task_precommitted_def by blast

text \<open>One step of the replay store or of the guard, on the request it serves.\<close>

context jti_store
begin

lemma await_jti_step:
  assumes "aj_insert (av_jti_store av) = insert_jti" "inv s"
    and "snd (authorize_precommit (A\<lparr>ae_now := ar_now r\<rparr>) (av_sync av) (ar_token r) (ar_context r) True None) = Inr p"
    and "mv_require_dpop (av_sync av)" "mv_require_tracking (av_sync av)"
  shows "inv (fst (await_jti av p s)) \<and> seen s \<subseteq> seen (fst (await_jti av p s)) \<and>
     (snd (await_jti av p s) = Inr () \<longrightarrow>
        auth_key (ae_crypto A) r \<notin> seen s \<and> auth_key (ae_crypto A) r \<in> seen (fst (await_jti av p s)))"
proof -
  obtain iat where "pc_jti_commit p = Some (auth_key (ae_crypto A) r, iat)"
    using tracked_jti[OF assms(3-5)] by blast
  then show ?thesis
    using insert_step[OF assms(2), of "auth_key (ae_crypto A) r" iat] assms(1)
    by (auto simp: await_jti_def is_ok_iff)
qed

end

context replay_guard
begin

lemma await_cti_state:
  assumes "ag_check rg = check_and_record"
  shows "recorded g \<subseteq> recorded (fst (await_cti av (Some rg) p g))"
proof (cases "\<not> av_require_strict_guard av \<or> ag_is_strict rg")
  case True
  then show ?thesis using assms commit_cti_recorded by (simp add: await_cti_guarded)
next
  case False
  then have "fst (await_cti av (Some rg) p g) = g"
    by (simp add: await_cti_def resolve_replay_guard_def split: option.split cat_replay_obligation.split)
  then show ?thesis by simp
qed

lemma await_cti_fresh:
  assumes "ag_check rg = check_and_record" "pc_replay p = Some (ObProhibited cti)"
    and "snd (await_cti av (Some rg) p g) = Inr b"
  shows "cti \<notin> recorded g \<and> cti \<in> recorded (fst (await_cti av (Some rg) p g))"
proof -
  obtain rg' where rg: "resolve_replay_guard av (Some rg) = Inr rg'"
    using assms(2,3) by (auto simp: await_cti_def split: sum.splits)
  then have "rg' = rg" by (auto simp: resolve_replay_guard_def split: if_splits)
  with assms rg have c: "snd (check_and_record cti g) = Inr False"
    and f: "fst (await_cti av (Some rg) p g) = fst (check_and_record cti g)"
    by (auto simp: await_cti_def split: prod.splits sum.splits if_splits)
  from answer[OF c] show ?thesis using f by simp
qed

end

lemma async_step_safe:
  assumes step: "async_step A av rg st st'"
    and safe: "async_safe A (av_sync av) seen ok recorded st"
    and store: "jti_store (aj_insert (av_jti_store av)) seen ok"
    and guard: "replay_guard (ag_check rg) recorded"
    and v: "mv_require_dpop (av_sync av)" "mv_require_tracking (av_sync av)"
  shows "async_safe A (av_sync av) seen ok recorded st'"
  using step safe
proof (induction rule: async_step.induct)
  case (precommit i ts r ph s g)
  note at = async_safe_at[OF precommit.prems precommit.hyps(1)]
  from precommit.prems precommit.hyps(1) at(1) show ?case
    by (rule async_safe_update)
       (auto simp: task_precommitted_def proof_claim_def cti_claim_def precommit.hyps split: sum.splits)
next
  case (jti i ts p r ph s g)
  note at = async_safe_at[OF jti.prems jti.hyps(1)]
  have pre: "snd (authorize_precommit (A\<lparr>ae_now := ar_now r\<rparr>) (av_sync av) (ar_token r) (ar_context r) True None) = Inr p"
    by (rule precommitted_at[OF at(2)]) (simp_all add: jti.hyps)
  note ins = jti_store.await_jti_step[OF store refl at(1) pre v]
  from jti.prems jti.hyps(1) ins[THEN conjunct1] ins[THEN conjunct2, THEN conjunct1] show ?case
    by (rule async_safe_update)
       (use ins pre in \<open>auto simp: task_precommitted_def proof_claim_def cti_claim_def jti.hyps(2,4)
          split: sum.splits\<close>)
next
  case (cti i ts p r ph g s)
  note at = async_safe_at[OF cti.prems cti.hyps(1)]
  have pre: "snd (authorize_precommit (A\<lparr>ae_now := ar_now r\<rparr>) (av_sync av) (ar_token r) (ar_context r) True None) = Inr p"
    by (rule precommitted_at[OF at(2)]) (simp_all add: cti.hyps)
  have cti_some: "reuse_prohibited r \<Longrightarrow> request_cti r \<noteq> None" using precommit_prohibited[OF pre] by auto
  have claim: "cti_claim \<lparr>at_request = r, at_phase = ph\<rparr> = None \<or>
      (\<exists>k. cti_claim \<lparr>at_request = r, at_phase = ph\<rparr> = Some k \<and> k \<notin> recorded g \<and>
         k \<in> recorded (fst (await_cti av (Some rg) p g)))"
  proof (cases "\<exists>b. snd (await_cti av (Some rg) p g) = Inr b \<and> reuse_prohibited r")
    case True
    then obtain b where b: "snd (await_cti av (Some rg) p g) = Inr b" and r: "reuse_prohibited r" by blast
    obtain k where k: "request_cti r = Some k" "pc_replay p = Some (ObProhibited k)"
      using precommit_prohibited[OF pre r] by blast
    from replay_guard.await_cti_fresh[OF guard refl k(2) b] show ?thesis
      using b r k(1) by (simp add: cti_claim_def cti.hyps(4))
  qed (auto simp: cti_claim_def cti.hyps(4) split: sum.splits)
  from cti.prems cti.hyps(1) at(1) subset_refl replay_guard.await_cti_state[OF guard refl] show ?case
    by (rule async_safe_update)
       (use claim cti_some in \<open>auto simp: task_precommitted_def proof_claim_def cti.hyps(2-4) split: sum.splits\<close>)
next
  case (drop i ts p r s g)
  note at = async_safe_at[OF drop.prems drop.hyps(1)]
  from drop.prems drop.hyps(1) at(1) show ?case
    by (rule async_safe_update) (auto simp: task_precommitted_def proof_claim_def cti_claim_def)
qed

lemma async_safe_granted:
  assumes "async_safe A v seen ok recorded (s, g, ts)"
  shows "distinct (map proof_use (granted ts)) \<and>
    distinct (map request_cti (filter reuse_prohibited (granted ts)))"
proof
  have "distinct (map (auth_key (ae_crypto A) \<circ> at_request) (filter (\<lambda>t. \<exists>a. at_phase t = PhDone (Inr a)) ts))"
    using assms by (intro claimed_distinct[where f = "proof_claim (ae_crypto A)" and S = "seen s"])
      (auto simp: async_safe_def proof_claim_def)
  then have "distinct (map (auth_key (ae_crypto A)) (granted ts))" by (simp add: granted_def is_granted_iff)
  then show "distinct (map proof_use (granted ts))"
    by (rule distinct_map_finer) (simp add: auth_key_def)
  have "distinct (map (the \<circ> request_cti \<circ> at_request)
      (filter (\<lambda>t. (\<exists>a. at_phase t = PhDone (Inr a)) \<and> reuse_prohibited (at_request t)) ts))"
    using assms by (intro claimed_distinct[where f = cti_claim and S = "recorded g"])
      (auto simp: async_safe_def cti_claim_def task_precommitted_def)
  then have "distinct (map (the \<circ> request_cti) (filter reuse_prohibited (granted ts)))"
    by (simp add: granted_def is_granted_iff filter_map comp_def)
  then show "distinct (map request_cti (filter reuse_prohibited (granted ts)))"
    by (rule distinct_map_finer) simp
qed

text \<open>C13: single use under interleaving, for a validator that requires a DPoP proof and its replay
  tracking (\<open>require_dpop\<close> and \<open>require_dpop_replay_tracking\<close>; without the first a request needs no
  proof, without the second the store is not asked). Whatever the order in which the replay store and
  the guard serve any number of concurrent asynchronous requests, and whichever of these are dropped
  at an await, no two requests are then authorized on the same proof (issuer, holder key and \<open>cti\<close>),
  and no two on the same token \<open>cti\<close> where its reuse is prohibited. The store and the guard are any
  that keep their contracts; the guard may refuse to record.\<close>

theorem async_single_use:
  assumes "(async_step A av rg)\<^sup>*\<^sup>* (s0, g0, async_start rs) (s, g, ts)"
    and "jti_store (aj_insert (av_jti_store av)) seen ok" "ok s0"
    and "replay_guard (ag_check rg) recorded"
    and "mv_require_dpop (av_sync av)" "mv_require_tracking (av_sync av)"
  shows "distinct (map proof_use (granted ts)) \<and>
    distinct (map request_cti (filter reuse_prohibited (granted ts)))"
proof -
  have "async_safe A (av_sync av) seen ok recorded (s, g, ts)"
    using assms(1)
  proof (induction rule: rtranclp_induct)
    case base
    show ?case using assms(3) by (simp add: async_safe_def)
  next
    case (step st st')
    show ?case by (rule async_step_safe[OF step.hyps(2) step.IH assms(2,4-6)])
  qed
  then show ?thesis by (rule async_safe_granted)
qed

end
