(* ===== verification/Encrypt.thy ===== *)
theory Encrypt
  imports Pipeline Cwt_Wire Cwt_Peek
begin

text \<open>
  COSE_Encrypt0 (\<open>src/src/encrypt.rs\<close>): the Enc_structure and the protected header, encryption, and
  decryption under a cap on the plaintext; and the encrypted path of the token encoder and decoder in
  \<open>src/src/token.rs\<close>.

  AES-GCM is the \<open>aes-gcm\<close> crate: sealing and opening are fields of \<open>gcm_env\<close>. The nonce the
  generator draws is an argument.

  Shown: what is decrypted was opened under the key, with the received header as associated data, and
  stays below the cap; an encrypted token decodes to the token, bound to the bytes on the wire.
\<close>

section \<open>Algorithms and primitives\<close>

datatype encryption_algorithm = A128Gcm | A256Gcm

abbreviation "COSE_TAG_ENCRYPT0 \<equiv> 16 :: nat"
abbreviation "ALG_A128GCM \<equiv> 1 :: int"
abbreviation "ALG_A256GCM \<equiv> 3 :: int"

definition max_encrypt0_size :: nat where
  "max_encrypt0_size = 16 * 1024"

definition gcm_tag_bytes :: nat where
  "gcm_tag_bytes = 16"

fun enc_alg_id :: "encryption_algorithm \<Rightarrow> int" where
  "enc_alg_id A128Gcm = ALG_A128GCM"
| "enc_alg_id A256Gcm = ALG_A256GCM"

fun enc_key_size :: "encryption_algorithm \<Rightarrow> nat" where
  "enc_key_size A128Gcm = 16"
| "enc_key_size A256Gcm = 32"

text \<open>The arguments are the algorithm, the key, the nonce, the associated data, and the text.\<close>

record gcm_env =
  gcm_seal :: "encryption_algorithm \<Rightarrow> bytes \<Rightarrow> bytes \<Rightarrow> bytes \<Rightarrow> bytes \<Rightarrow> bytes option"
  gcm_open :: "encryption_algorithm \<Rightarrow> bytes \<Rightarrow> bytes \<Rightarrow> bytes \<Rightarrow> bytes \<Rightarrow> bytes option"

text \<open>NIST SP 800-38D: what was sealed opens to itself, and the tag is 16 bytes longer than the text.\<close>

definition gcm_laws :: "gcm_env \<Rightarrow> bool" where
  "gcm_laws G \<longleftrightarrow>
     (\<forall>a k n ad pt ct. gcm_seal G a k n ad pt = Some ct \<longrightarrow> gcm_open G a k n ad ct = Some pt) \<and>
     (\<forall>a k n ad pt ct. gcm_open G a k n ad ct = Some pt \<longrightarrow> length ct = length pt + gcm_tag_bytes)"

section \<open>Encryption\<close>

definition build_enc_structure :: "codec_env \<Rightarrow> bytes \<Rightarrow> bytes result" where
  "build_enc_structure E protected = ce_write E (CArray [CText ''Encrypt0'', CBytes protected, CBytes []])"

definition enc_protected_header :: "codec_env \<Rightarrow> int \<Rightarrow> bytes result" where
  "enc_protected_header E alg = ce_write E (CMap [(CInt 1, CInt alg)])"

definition cose_encrypt0 ::
  "codec_env \<Rightarrow> gcm_env \<Rightarrow> bytes \<Rightarrow> bytes \<Rightarrow> bytes \<Rightarrow> encryption_algorithm \<Rightarrow> bytes result" where
  "cose_encrypt0 E G nonce plaintext key alg =
     (if length key \<noteq> enc_key_size alg then Inl (KeyOperationFailed ''Key size mismatch: expected '')
      else
        rbind (enc_protected_header E (enc_alg_id alg)) (\<lambda>protected.
        rbind (build_enc_structure E protected) (\<lambda>aad.
        rbind (ok_or (gcm_seal G alg key nonce aad plaintext) (KeyOperationFailed ''aead::Error'')) (\<lambda>ct.
        ce_write E (CTag COSE_TAG_ENCRYPT0
          (CArray [CBytes protected, CMap [(CInt 5, CBytes nonce)], CBytes ct]))))))"

section \<open>Decryption\<close>

text \<open>The IV of the unprotected map: the last byte string under key 5.\<close>

fun scan_nonce :: "cbor \<times> cbor \<Rightarrow> bytes option \<Rightarrow> bytes option result" where
  "scan_nonce (CInt k, v) acc =
     (if \<not> in_i64 k then Inl InvalidTokenFormat
      else case v of CBytes b \<Rightarrow> Inr (if k = 5 then Some b else acc) | _ \<Rightarrow> Inr acc)"
| "scan_nonce _ acc = Inr acc"

text \<open>The algorithm of the protected map: the last integer under key 1.\<close>

fun scan_alg :: "cbor \<times> cbor \<Rightarrow> int option \<Rightarrow> int option result" where
  "scan_alg (CInt k, v) acc =
     (if \<not> in_i64 k then Inl InvalidTokenFormat
      else case v of
        CInt a \<Rightarrow> (if k = 1 then (if in_i64 a then Inr (Some a) else Inl InvalidTokenFormat) else Inr acc)
      | _ \<Rightarrow> Inr acc)"
| "scan_alg _ acc = Inr acc"

definition scan_map :: "(cbor \<times> cbor \<Rightarrow> 'a option \<Rightarrow> 'a option result) \<Rightarrow> cbor \<Rightarrow> 'a result" where
  "scan_map f v =
     (case v of
        CMap m \<Rightarrow> rbind (try_fold f m None) (\<lambda>x. ok_or x InvalidTokenFormat)
      | _ \<Rightarrow> Inl InvalidTokenFormat)"

fun byte_string :: "cbor \<Rightarrow> bytes result" where
  "byte_string (CBytes b) = Inr b"
| "byte_string _ = Inl InvalidTokenFormat"

definition decrypt_with ::
  "gcm_env \<Rightarrow> int \<Rightarrow> bytes \<Rightarrow> bytes \<Rightarrow> bytes \<Rightarrow> bytes \<Rightarrow> bytes result" where
  "decrypt_with G alg_id key nonce aad ct =
     (let open_as = (\<lambda>a msg.
        if length key \<noteq> enc_key_size a then Inl (KeyOperationFailed ''Invalid Length'')
        else ok_or (gcm_open G a key nonce aad ct) (KeyOperationFailed msg))
      in if alg_id = ALG_A128GCM then open_as A128Gcm ''AES-128-GCM decryption failed''
         else if alg_id = ALG_A256GCM then open_as A256Gcm ''AES-256-GCM decryption failed''
         else Inl (UnsupportedAlgorithm ''Unknown encryption algorithm: ''))"

text \<open>The three elements of the array, checked in the order of the source.\<close>

definition decrypt_parts ::
  "codec_env \<Rightarrow> gcm_env \<Rightarrow> cbor \<Rightarrow> cbor \<Rightarrow> cbor \<Rightarrow> bytes \<Rightarrow> nat \<Rightarrow> bytes result" where
  "decrypt_parts E G p u c key max_plaintext =
     rbind (byte_string p) (\<lambda>protected.
     rbind (scan_map scan_nonce u) (\<lambda>nonce.
     rbind (byte_string c) (\<lambda>ct.
     if length ct - gcm_tag_bytes > max_plaintext then Inl (InvalidCbor ''COSE_Encrypt0 plaintext '')
     else
       rbind (ce_read E protected) (\<lambda>(hv, _).
       rbind (scan_map scan_alg hv) (\<lambda>alg_id.
       rbind (build_enc_structure E protected) (\<lambda>aad.
       if length nonce \<noteq> 12 then Inl (KeyOperationFailed ''Invalid nonce length: expected 12, got '')
       else decrypt_with G alg_id key nonce aad ct))))))"

definition cose_decrypt0_with_max_plaintext ::
  "codec_env \<Rightarrow> gcm_env \<Rightarrow> bytes \<Rightarrow> bytes \<Rightarrow> nat \<Rightarrow> bytes result" where
  "cose_decrypt0_with_max_plaintext E G bs key max_plaintext =
     (if length bs > max_encrypt0_size then Inl (InvalidCbor ''COSE_Encrypt0 too large: '')
      else
        rbind (ce_read E bs) (\<lambda>(v, pos).
        if pos \<noteq> length bs then Inl (InvalidCbor ''trailing bytes after COSE_Encrypt0: '')
        else case v of
          CTag tag (CArray [p, u, c]) \<Rightarrow>
            (if tag \<noteq> COSE_TAG_ENCRYPT0 then Inl InvalidTokenFormat
             else decrypt_parts E G p u c key max_plaintext)
        | _ \<Rightarrow> Inl InvalidTokenFormat))"

definition cose_decrypt0 :: "codec_env \<Rightarrow> gcm_env \<Rightarrow> bytes \<Rightarrow> bytes \<Rightarrow> bytes result" where
  "cose_decrypt0 E G bs key = cose_decrypt0_with_max_plaintext E G bs key max_encrypt0_size"

section \<open>What decryption rests on\<close>

definition opened ::
  "codec_env \<Rightarrow> gcm_env \<Rightarrow> encryption_algorithm \<Rightarrow> bytes \<Rightarrow> bytes \<Rightarrow> bytes \<Rightarrow> bool" where
  "opened E G a bs key pt \<longleftrightarrow>
     (\<exists>protected u nonce ct hv n aad.
        ce_read E bs = Inr (CTag COSE_TAG_ENCRYPT0 (CArray [CBytes protected, u, CBytes ct]), length bs) \<and>
        scan_map scan_nonce u = Inr nonce \<and> length nonce = 12 \<and>
        ce_read E protected = Inr (hv, n) \<and> scan_map scan_alg hv = Inr (enc_alg_id a) \<and>
        build_enc_structure E protected = Inr aad \<and> length key = enc_key_size a \<and>
        gcm_open G a key nonce aad ct = Some pt)"

lemma byte_string_ok: "byte_string v = Inr b \<longleftrightarrow> v = CBytes b"
  by (cases v) auto

lemma decrypt_with_ok:
  "decrypt_with G i key nonce aad ct = Inr pt \<longleftrightarrow>
     (\<exists>a. i = enc_alg_id a \<and> length key = enc_key_size a \<and> gcm_open G a key nonce aad ct = Some pt)"
proof -
  have "(\<exists>a. P a) \<longleftrightarrow> P A128Gcm \<or> P A256Gcm" for P by (metis encryption_algorithm.exhaust)
  then show ?thesis by (auto simp: decrypt_with_def Let_def)
qed

lemma guard_ok: "(if b then Inl e else m) = Inr x \<longleftrightarrow> \<not> b \<and> m = Inr x"
  by simp

lemma decrypt_parts_ok:
  "decrypt_parts E G p u c key mx = Inr pt \<longleftrightarrow>
     (\<exists>protected nonce ct hv n a aad. p = CBytes protected \<and> scan_map scan_nonce u = Inr nonce \<and> c = CBytes ct \<and>
        length ct - gcm_tag_bytes \<le> mx \<and> ce_read E protected = Inr (hv, n) \<and>
        scan_map scan_alg hv = Inr (enc_alg_id a) \<and> build_enc_structure E protected = Inr aad \<and>
        length nonce = 12 \<and> length key = enc_key_size a \<and> gcm_open G a key nonce aad ct = Some pt)"
  by (simp add: decrypt_parts_def byte_string_ok decrypt_with_ok guard_ok not_less case_prod_beta)
     (auto simp: prod_eq_iff)

lemma cose_decrypt0_shape:
  assumes "cose_decrypt0_with_max_plaintext E G bs key mx = Inr pt"
  shows "\<exists>p u c. ce_read E bs = Inr (CTag COSE_TAG_ENCRYPT0 (CArray [p, u, c]), length bs) \<and>
     decrypt_parts E G p u c key mx = Inr pt \<and> length bs \<le> max_encrypt0_size"
  using assms
  by (auto simp: cose_decrypt0_with_max_plaintext_def split: if_splits cbor.splits list.splits)

lemma cose_decrypt0_ok:
  assumes "cose_decrypt0_with_max_plaintext E G bs key mx = Inr pt" "gcm_laws G"
  shows "\<exists>a. opened E G a bs key pt \<and> length pt \<le> mx"
proof -
  obtain p u c where r: "ce_read E bs = Inr (CTag COSE_TAG_ENCRYPT0 (CArray [p, u, c]), length bs)"
    and d: "decrypt_parts E G p u c key mx = Inr pt"
    using cose_decrypt0_shape[OF assms(1)] by blast
  obtain protected nonce ct hv n a aad where parts: "p = CBytes protected" "scan_map scan_nonce u = Inr nonce"
      "c = CBytes ct" "length ct - gcm_tag_bytes \<le> mx" "ce_read E protected = Inr (hv, n)"
      "scan_map scan_alg hv = Inr (enc_alg_id a)" "build_enc_structure E protected = Inr aad"
      "length nonce = 12" "length key = enc_key_size a" "gcm_open G a key nonce aad ct = Some pt"
    using d unfolding decrypt_parts_ok by blast
  then have "length ct = length pt + gcm_tag_bytes" using assms(2) by (simp add: gcm_laws_def)
  then have "length pt \<le> mx" using parts(4) by simp
  then show ?thesis using r parts unfolding opened_def by blast
qed

text \<open>What was encrypted decrypts to itself, under any cap the text fits.\<close>

lemma cose_decrypt0_encrypt0:
  assumes laws: "codec_laws E" "gcm_laws G"
    and e: "cose_encrypt0 E G nonce pt key alg = Inr bs"
    and "length nonce = 12" "length pt \<le> mx" "length bs \<le> max_encrypt0_size"
  shows "cose_decrypt0_with_max_plaintext E G bs key mx = Inr pt"
proof -
  obtain protected aad ct where p: "enc_protected_header E (enc_alg_id alg) = Inr protected"
    and aad: "build_enc_structure E protected = Inr aad" and ct: "gcm_seal G alg key nonce aad pt = Some ct"
    and b: "ce_write E (CTag COSE_TAG_ENCRYPT0
          (CArray [CBytes protected, CMap [(CInt 5, CBytes nonce)], CBytes ct])) = Inr bs"
    and key: "length key = enc_key_size alg"
    using e by (auto simp: cose_encrypt0_def split: if_splits)
  have o: "gcm_open G alg key nonce aad ct = Some pt" using ct laws(2) by (simp add: gcm_laws_def)
  then have len: "length ct = length pt + gcm_tag_bytes" using laws(2) by (simp add: gcm_laws_def)
  have rb: "ce_read E bs = Inr (CTag COSE_TAG_ENCRYPT0
          (CArray [CBytes protected, CMap [(CInt 5, CBytes nonce)], CBytes ct]), length bs)"
    by (rule ce_read_write[OF laws(1) b]) (simp add: cbor_max_recursion_depth_def)
  have rp: "ce_read E protected = Inr (CMap [(CInt 1, CInt (enc_alg_id alg))], length protected)"
    by (rule ce_read_write[OF laws(1) p[unfolded enc_protected_header_def]])
       (simp add: cbor_max_recursion_depth_def)
  have "scan_map scan_nonce (CMap [(CInt 5, CBytes nonce)]) = Inr nonce"
    by (simp add: scan_map_def in_i64_def i64_min_def i64_max_def)
  moreover have "scan_map scan_alg (CMap [(CInt 1, CInt (enc_alg_id alg))]) = Inr (enc_alg_id alg)"
    by (cases alg) (simp_all add: scan_map_def in_i64_def i64_min_def i64_max_def)
  ultimately have "decrypt_parts E G (CBytes protected) (CMap [(CInt 5, CBytes nonce)]) (CBytes ct) key mx = Inr pt"
    unfolding decrypt_parts_ok using rp aad assms(4,5) key o len by auto
  then show ?thesis using rb assms(6) by (simp add: cose_decrypt0_with_max_plaintext_def)
qed

section \<open>Tokens on the wire\<close>

text \<open>\<open>Decoder::decode\<close> with the decoders of the crate, and the two encoders. Padded base64url is the
  argument \<open>padded\<close>.\<close>

definition decoder_decode ::
  "codec_env \<Rightarrow> gcm_env \<Rightarrow> cwt_limits decoder \<Rightarrow> bytes \<Rightarrow> verified_token result" where
  "decoder_decode E G = decode_token E (decode_payload_with_limits E) peek_issuer max_cbor_payload_size
     (cose_decrypt0_with_max_plaintext E G)"

text \<open>The builder of \<open>Decoder\<close>.\<close>

definition decoder_with_algorithm :: "algorithm \<Rightarrow> cwt_limits decoder" where
  "decoder_with_algorithm a =
     \<lparr>de_key = KeyAlgorithm a, de_admission = None, de_encryption_key = None, de_limits = default_limits\<rparr>"

definition decoder_with_resolver :: "(key_hint \<Rightarrow> algorithm result) \<Rightarrow> cwt_limits decoder" where
  "decoder_with_resolver r =
     \<lparr>de_key = KeyResolverFn r, de_admission = None, de_encryption_key = None, de_limits = default_limits\<rparr>"

definition decoder_admission :: "admission_policy \<Rightarrow> cwt_limits decoder \<Rightarrow> cwt_limits decoder" where
  "decoder_admission p d = d\<lparr>de_admission := Some p\<rparr>"

definition decoder_encryption_key :: "bytes \<Rightarrow> cwt_limits decoder \<Rightarrow> cwt_limits decoder" where
  "decoder_encryption_key k d = d\<lparr>de_encryption_key := Some k\<rparr>"

definition decoder_limits :: "cwt_limits \<Rightarrow> cwt_limits decoder \<Rightarrow> cwt_limits decoder" where
  "decoder_limits l d = d\<lparr>de_limits := l\<rparr>"

definition decode_base64 ::
  "codec_env \<Rightarrow> gcm_env \<Rightarrow> (string \<Rightarrow> string + bytes) \<Rightarrow> cwt_limits decoder \<Rightarrow> string \<Rightarrow>
     verified_token result" where
  "decode_base64 E G padded d s =
     (case ce_b64d E s of
        Inr b \<Rightarrow> decoder_decode E G d b
      | Inl _ \<Rightarrow>
          (case padded s of
             Inr b \<Rightarrow> decoder_decode E G d b
           | Inl e \<Rightarrow> Inl (InvalidBase64 e)))"

definition encode_encrypted_token ::
  "codec_env \<Rightarrow> gcm_env \<Rightarrow> (cat_token \<Rightarrow> bytes result) \<Rightarrow> int \<Rightarrow> (bytes \<Rightarrow> bytes result) \<Rightarrow> bytes \<Rightarrow>
     bytes \<Rightarrow> encryption_algorithm \<Rightarrow> cat_token \<Rightarrow> bytes result" where
  "encode_encrypted_token E G enc alg sign nonce key ealg t =
     rbind (encode_token E enc alg sign t) (\<lambda>signed. cose_encrypt0 E G nonce signed key ealg)"

definition encode_token_base64 ::
  "codec_env \<Rightarrow> (cat_token \<Rightarrow> bytes result) \<Rightarrow> int \<Rightarrow> (bytes \<Rightarrow> bytes result) \<Rightarrow> cat_token \<Rightarrow> string result" where
  "encode_token_base64 E enc alg sign t = rbind (encode_token E enc alg sign t) (\<lambda>b. Inr (ce_b64 E b))"

text \<open>A decoder with the key of the signature, and a token the wire form carries.\<close>

definition key_matches :: "algorithm \<Rightarrow> (bytes \<Rightarrow> bytes result) \<Rightarrow> 'l decoder \<Rightarrow> bool" where
  "key_matches a sign d \<longleftrightarrow> in_i64 (al_id a) \<and> (\<forall>m s. sign m = Inr s \<longrightarrow> al_verify a m s = Inr ()) \<and>
     de_key d = KeyAlgorithm a \<and> de_admission d = None"

definition carried :: "codec_env \<Rightarrow> cwt_limits \<Rightarrow> cat_token \<Rightarrow> bool" where
  "carried E L t \<longleftrightarrow> limits_built L \<and> token_wire E L (max_nesting_depth L) t \<and> counters_ok L (payload_cost t)"

lemma encoded_token_reads:
  assumes laws: "codec_laws E" and key: "key_matches a sign d" and c: "carried E (de_limits d) t"
    and e: "encode_token E (\<lambda>t. the (encode_payload_token E t)) (al_id a) sign t = Inr bs" "length bs \<le> max_token_size"
  shows "decode_signed E (decode_payload_with_limits E) peek_issuer d bs =
     Inr \<lparr>vt_token = t, vt_header = \<lparr>th_alg = al_id a, th_kid = None\<rparr>, vt_provenance = Signed, vt_serialized = bs\<rparr>"
proof (rule encode_decode_signed[OF laws _ _ _ _ _ e])
  fix p assume "the (encode_payload_token E t) = Inr p"
  then have "encode_payload_token E t = Some (Inr p)"
    using wire_encodes(1) c by (fastforce simp: ended_def carried_def)
  then show "decode_payload_with_limits E (de_limits d) p = Inr t"
    using payload_reads_back[OF laws] c by (simp add: carried_def)
qed (use key in \<open>simp_all add: key_matches_def\<close>)

text \<open>C15: a token that arrives encrypted opens under the key of this relay and is signed. What a decoder with an
  encryption key returns was opened by AES-GCM under that key (of the size of the algorithm in the
  received header, with that header as associated data), its plaintext fits the payload budget and
  carries a signature the selected algorithm accepted, and the result records the bytes on the wire.\<close>

theorem encrypted_token_authentic:
  assumes "decoder_decode E G d bs = Inr t" "de_encryption_key d = Some k" "gcm_laws G"
  shows "\<exists>ea inner en a. opened E G ea bs k inner \<and>
     length inner \<le> min max_token_size (max_cbor_payload_size (de_limits d)) \<and>
     parse_cose_envelope E inner = Inr en \<and> select_algorithm peek_issuer d en inner = Inr a \<and>
     signature_checked E a en \<and>
     decode_payload_with_limits E (de_limits d) (en_payload_cbor en) = Inr (vt_token t) \<and>
     vt_provenance t = Encrypted \<and> vt_serialized t = bs"
proof -
  obtain inner t0 where i: "cose_decrypt0_with_max_plaintext E G bs k
      (min max_token_size (max_cbor_payload_size (de_limits d))) = Inr inner"
    and s: "decode_signed E (decode_payload_with_limits E) peek_issuer d inner = Inr t0"
    and t: "t = t0\<lparr>vt_provenance := Encrypted, vt_serialized := bs\<rparr>"
    using assms(1,2) by (auto simp: decoder_decode_def decode_token_def)
  obtain ea where "opened E G ea bs k inner"
    "length inner \<le> min max_token_size (max_cbor_payload_size (de_limits d))"
    using cose_decrypt0_ok[OF i assms(3)] by blast
  moreover obtain en a where "parse_cose_envelope E inner = Inr en" "select_algorithm peek_issuer d en inner = Inr a"
    "signature_checked E a en" "decode_payload_with_limits E (de_limits d) (en_payload_cbor en) = Inr (vt_token t0)"
    using s by (auto simp: decode_signed_def verify_and_decode_ok)
  ultimately show ?thesis using t by auto
qed

text \<open>What a decoder accepts, signed or encrypted.\<close>

lemma decoder_decode_ok:
  assumes "decoder_decode E G d bs = Inr t" "gcm_laws G"
  shows "vt_serialized t = bs \<and> (\<exists>inner en a.
     (case de_encryption_key d of None \<Rightarrow> inner = bs | Some k \<Rightarrow> \<exists>ea. opened E G ea bs k inner) \<and>
     parse_cose_envelope E inner = Inr en \<and> select_algorithm peek_issuer d en inner = Inr a \<and>
     signature_checked E a en \<and>
     decode_payload_with_limits E (de_limits d) (en_payload_cbor en) = Inr (vt_token t))"
proof (cases "de_encryption_key d")
  case None
  then show ?thesis using assms(1)
    by (auto simp: decoder_decode_def decode_token_def decode_signed_def verify_and_decode_ok)
next
  case (Some k)
  then obtain inner t0 where i: "cose_decrypt0_with_max_plaintext E G bs k
      (min max_token_size (max_cbor_payload_size (de_limits d))) = Inr inner"
    and s: "decode_signed E (decode_payload_with_limits E) peek_issuer d inner = Inr t0"
    and t: "t = t0\<lparr>vt_provenance := Encrypted, vt_serialized := bs\<rparr>"
    using assms(1) by (auto simp: decoder_decode_def decode_token_def)
  obtain ea where "opened E G ea bs k inner" using cose_decrypt0_ok[OF i assms(2)] by blast
  then show ?thesis using s t Some by (auto simp: decode_signed_def verify_and_decode_ok)
qed

lemma encrypted_token_reads:
  assumes laws: "codec_laws E" "gcm_laws G" and key: "key_matches a sign d" and c: "carried E (de_limits d) t"
    and signed: "encode_token E (\<lambda>t. the (encode_payload_token E t)) (al_id a) sign t = Inr inner"
    and enc: "cose_encrypt0 E G nonce inner k ea = Inr bs"
    and len: "length nonce = 12" "length bs \<le> max_encrypt0_size"
      "length inner \<le> min max_token_size (max_cbor_payload_size (de_limits d))"
  shows "decoder_decode E G (d\<lparr>de_encryption_key := Some k\<rparr>) bs =
      Inr \<lparr>vt_token = t, vt_header = \<lparr>th_alg = al_id a, th_kid = None\<rparr>, vt_provenance = Encrypted, vt_serialized = bs\<rparr>"
proof -
  have "cose_decrypt0_with_max_plaintext E G bs k
      (min max_token_size (max_cbor_payload_size (de_limits d))) = Inr inner"
    by (rule cose_decrypt0_encrypt0[OF laws enc len(1,3,2)])
  moreover have "decode_signed E (decode_payload_with_limits E) peek_issuer (d\<lparr>de_encryption_key := Some k\<rparr>) inner =
      Inr \<lparr>vt_token = t, vt_header = \<lparr>th_alg = al_id a, th_kid = None\<rparr>, vt_provenance = Signed, vt_serialized = inner\<rparr>"
    by (rule encoded_token_reads[OF laws(1) _ _ signed]) (use key c len in \<open>simp_all add: key_matches_def\<close>)
  ultimately show ?thesis by (simp add: decoder_decode_def decode_token_def)
qed

text \<open>C16: an encrypted token comes back. A token the wire form carries, signed and then encrypted by the
  crate, decodes with the two keys to the same token, marked encrypted and bound to the bytes on the
  wire; without the encryption key no decoder accepts these bytes.\<close>

theorem encrypted_token_roundtrip:
  assumes laws: "codec_laws E" "gcm_laws G" and key: "key_matches a sign d" and c: "carried E (de_limits d) t"
    and e: "encode_encrypted_token E G (\<lambda>t. the (encode_payload_token E t)) (al_id a) sign nonce k ea t = Inr bs"
    and signed: "encode_token E (\<lambda>t. the (encode_payload_token E t)) (al_id a) sign t = Inr inner"
    and len: "length nonce = 12" "length bs \<le> max_encrypt0_size"
      "length inner \<le> min max_token_size (max_cbor_payload_size (de_limits d))"
  shows "decoder_decode E G (d\<lparr>de_encryption_key := Some k\<rparr>) bs =
      Inr \<lparr>vt_token = t, vt_header = \<lparr>th_alg = al_id a, th_kid = None\<rparr>, vt_provenance = Encrypted, vt_serialized = bs\<rparr> \<and>
    \<not> is_ok (decoder_decode E G (d\<lparr>de_encryption_key := None\<rparr>) bs)"
proof
  have enc: "cose_encrypt0 E G nonce inner k ea = Inr bs" using e signed by (simp add: encode_encrypted_token_def)
  show "decoder_decode E G (d\<lparr>de_encryption_key := Some k\<rparr>) bs =
      Inr \<lparr>vt_token = t, vt_header = \<lparr>th_alg = al_id a, th_kid = None\<rparr>, vt_provenance = Encrypted, vt_serialized = bs\<rparr>"
    by (rule encrypted_token_reads[OF laws key c signed enc len])
  obtain p u ct where "ce_write E (CTag COSE_TAG_ENCRYPT0 (CArray [CBytes p, CMap [(CInt 5, CBytes u)], CBytes ct])) = Inr bs"
    using enc by (auto simp: cose_encrypt0_def split: if_splits)
  then have "decode_one E bs = Inr (CTag COSE_TAG_ENCRYPT0 (CArray [CBytes p, CMap [(CInt 5, CBytes u)], CBytes ct]))"
    by (rule decode_one_write[OF laws(1)]) (simp add: cbor_max_recursion_depth_def)
  then show "\<not> is_ok (decoder_decode E G (d\<lparr>de_encryption_key := None\<rparr>) bs)"
    by (auto simp: is_ok_iff decoder_decode_def decode_token_def decode_signed_def parse_cose_envelope_def)
qed

end
