(* ===== verification/Crypto.thy ===== *)
theory Crypto
  imports Dpop_Validator Encrypt
begin

text \<open>
  The algorithms of \<open>src/src/crypto.rs\<close>: HMAC-SHA256, ES256 and PS256 objects with their
  constructors, the \<open>CryptographicAlgorithm\<close> trait in full (signing beside verification), and the
  keys of \<open>src/src/jwk.rs\<close> built from them.

  The primitives of the crates \<open>hmac\<close>, \<open>p256\<close>, \<open>rsa\<close> and \<open>ring\<close> are fields of \<open>key_env\<close>, and what is
  documented of them is \<open>key_laws\<close>. A P-256 key is its SEC1 encoding, an RSA key its modulus and
  exponent; the random scalar, the random key and the salt of a signature are arguments.

  Shown: what an object signs every object for the same key verifies, so tokens and proofs issued
  with a key pair are accepted by whoever holds the public key, who cannot sign.
\<close>

section \<open>Primitives\<close>

record key_env =
  ke_verify :: crypto_env
  ke_hmac :: "bytes \<Rightarrow> bytes \<Rightarrow> string + bytes"
  ke_p256_public :: "bytes \<Rightarrow> bytes"
  ke_p256_sign :: "bytes \<Rightarrow> bytes \<Rightarrow> bytes"
  ke_rsa_public :: "bytes \<Rightarrow> nat \<times> nat"
  ke_pss_sign :: "bytes \<Rightarrow> bytes \<Rightarrow> bytes \<Rightarrow> bytes"
  ke_spki_pem :: "string \<Rightarrow> string + bytes"
  ke_spki_der :: "bytes \<Rightarrow> string + bytes"
  ke_pkcs8_pem :: "string \<Rightarrow> string + bytes"
  ke_pkcs8_der :: "bytes \<Rightarrow> string + bytes"

text \<open>Signatures verify under the public key of the signing key (FIPS 186-5, RFC 8017); a P-256 public
  key is an uncompressed point the library accepts.\<close>

definition uncompressed :: "bytes \<Rightarrow> bool" where
  "uncompressed k \<longleftrightarrow> (\<exists>x y. k = 4 # x @ y \<and> length x = 32 \<and> length y = 32)"

definition key_laws :: "key_env \<Rightarrow> bool" where
  "key_laws K \<longleftrightarrow>
     (\<forall>sk m. cr_es256_sig (ke_verify K) (ke_p256_sign K sk m) \<and>
        cr_es256_verify (ke_verify K) (ke_p256_public K sk) m (ke_p256_sign K sk m)) \<and>
     (\<forall>sk salt m. cr_ps256_sig (ke_verify K) (ke_pss_sign K sk salt m) \<and>
        cr_ps256_verify (ke_verify K) (ke_rsa_public K sk) m (ke_pss_sign K sk salt m)) \<and>
     (\<forall>sk. uncompressed (ke_p256_public K sk) \<and> cr_p256_accept (ke_verify K) (ke_p256_public K sk))"

text \<open>\<open>map_err\<close> of a library error into \<open>KeyOperationFailed\<close>.\<close>

definition key_result :: "string \<Rightarrow> string + 'a \<Rightarrow> 'a result" where
  "key_result msg r = (case r of Inl e \<Rightarrow> Inl (KeyOperationFailed (msg @ e)) | Inr x \<Rightarrow> Inr x)"

lemma key_result_ok [simp]: "key_result msg r = Inr x \<longleftrightarrow> r = Inr x"
  by (cases r) (auto simp: key_result_def)

section \<open>The trait\<close>

record crypto_algorithm = algorithm +
  al_sign :: "bytes \<Rightarrow> bytes result"

text \<open>A key that verifies what it signs, under an identifier the header can carry.\<close>

locale signing_key =
  fixes a :: crypto_algorithm
  assumes alg_in_i64: "in_i64 (al_id a)"
    and sign_verify: "al_sign a m = Inr s \<Longrightarrow> al_verify a m s = Inr ()"

section \<open>HMAC\<close>

record hmac_algorithm =
  hm_key :: bytes

definition hmac_new :: "bytes \<Rightarrow> hmac_algorithm" where
  "hmac_new key = \<lparr>hm_key = key\<rparr>"

datatype secret_key = SecretKey (secret_bytes: bytes)

definition hmac_from_secret_key :: "secret_key \<Rightarrow> hmac_algorithm" where
  "hmac_from_secret_key key = \<lparr>hm_key = secret_bytes key\<rparr>"

text \<open>\<open>fill\<close> is what the generator writes into a buffer of the given length, if it works.\<close>

definition hmac_generate_key :: "(nat \<Rightarrow> bytes option) \<Rightarrow> secret_key result" where
  "hmac_generate_key fill =
     rbind (ok_or (fill 32) (KeyOperationFailed ''Failed to generate random key'')) (\<lambda>k. Inr (SecretKey k))"

definition hmac_sign :: "key_env \<Rightarrow> hmac_algorithm \<Rightarrow> bytes \<Rightarrow> bytes result" where
  "hmac_sign K h data = key_result '''' (ke_hmac K (hm_key h) data)"

definition hmac_verify :: "key_env \<Rightarrow> hmac_algorithm \<Rightarrow> bytes \<Rightarrow> bytes \<Rightarrow> unit result" where
  "hmac_verify K h data sg =
     rbind (key_result '''' (ke_hmac K (hm_key h) data)) (\<lambda>tag.
     if constant_time_eq tag sg then Inr () else Inl SignatureVerificationFailed)"

definition hmac_object :: "key_env \<Rightarrow> hmac_algorithm \<Rightarrow> crypto_algorithm" where
  "hmac_object K h = \<lparr>al_id = ALG_HMAC256_256, al_verify = hmac_verify K h, al_sign = hmac_sign K h\<rparr>"

lemma hmac_verify_ok: "hmac_verify K h data sg = Inr () \<longleftrightarrow> hmac_sign K h data = Inr sg"
  by (auto simp: hmac_verify_def hmac_sign_def)

interpretation hm: signing_key "hmac_object K h" for K h
  by unfold_locales (simp_all add: hmac_object_def hmac_verify_ok in_i64_def i64_min_def i64_max_def)

section \<open>ES256\<close>

record es256_algorithm =
  es_signing :: "bytes option"
  es_verifying :: bytes

definition es256_from_key_pair :: "bytes \<Rightarrow> bytes \<Rightarrow> es256_algorithm" where
  "es256_from_key_pair sk vk = \<lparr>es_signing = Some sk, es_verifying = vk\<rparr>"

definition es256_new_with_key_pair :: "key_env \<Rightarrow> bytes \<Rightarrow> es256_algorithm result" where
  "es256_new_with_key_pair K scalar =
     Inr \<lparr>es_signing = Some scalar, es_verifying = ke_p256_public K scalar\<rparr>"

definition es256_new_verifier :: "bytes \<Rightarrow> es256_algorithm" where
  "es256_new_verifier vk = \<lparr>es_signing = None, es_verifying = vk\<rparr>"

definition es256_from_public_key_pem :: "key_env \<Rightarrow> string \<Rightarrow> es256_algorithm result" where
  "es256_from_public_key_pem K pem =
     rbind (key_result ''invalid PEM: '' (ke_spki_pem K pem)) (\<lambda>vk. Inr (es256_new_verifier vk))"

definition es256_from_public_key_der :: "key_env \<Rightarrow> bytes \<Rightarrow> es256_algorithm result" where
  "es256_from_public_key_der K der =
     rbind (key_result ''invalid DER: '' (ke_spki_der K der)) (\<lambda>vk. Inr (es256_new_verifier vk))"

definition es256_from_private_key_pem :: "key_env \<Rightarrow> string \<Rightarrow> es256_algorithm result" where
  "es256_from_private_key_pem K pem =
     rbind (key_result ''invalid private key PEM: '' (ke_pkcs8_pem K pem)) (\<lambda>sk.
     Inr (es256_from_key_pair sk (ke_p256_public K sk)))"

definition es256_from_private_key_der :: "key_env \<Rightarrow> bytes \<Rightarrow> es256_algorithm result" where
  "es256_from_private_key_der K der =
     rbind (key_result ''invalid private key DER: '' (ke_pkcs8_der K der)) (\<lambda>sk.
     Inr (es256_from_key_pair sk (ke_p256_public K sk)))"

definition es256_sign :: "key_env \<Rightarrow> es256_algorithm \<Rightarrow> bytes \<Rightarrow> bytes result" where
  "es256_sign K e data =
     rbind (ok_or (es_signing e) (KeyOperationFailed ''No signing key available'')) (\<lambda>sk.
     Inr (ke_p256_sign K sk data))"

definition es256_object :: "key_env \<Rightarrow> es256_algorithm \<Rightarrow> crypto_algorithm" where
  "es256_object K e =
     \<lparr>al_id = ALG_ES256, al_verify = es256_verify (ke_verify K) (es_verifying e), al_sign = es256_sign K e\<rparr>"

section \<open>PS256\<close>

record ps256_algorithm =
  ps_signing :: "bytes option"
  ps_public :: "nat \<times> nat"

text \<open>\<open>key\<close> is the 2048-bit private key the generator finds, if it works. \<open>new_verifier\<close> of
  \<open>Dpop_Validator\<close> holds the size check.\<close>

definition ps256_new_with_key_pair :: "key_env \<Rightarrow> (nat \<Rightarrow> string + bytes) \<Rightarrow> ps256_algorithm result" where
  "ps256_new_with_key_pair K key =
     rbind (key_result '''' (key 2048)) (\<lambda>sk.
     Inr \<lparr>ps_signing = Some sk, ps_public = ke_rsa_public K sk\<rparr>)"

definition ps256_verifier :: "key_env \<Rightarrow> nat \<times> nat \<Rightarrow> ps256_algorithm result" where
  "ps256_verifier K k =
     rbind (ps256_new_verifier (ke_verify K) k) (\<lambda>vk. Inr \<lparr>ps_signing = None, ps_public = vk\<rparr>)"

definition ps256_sign :: "key_env \<Rightarrow> bytes \<Rightarrow> ps256_algorithm \<Rightarrow> bytes \<Rightarrow> bytes result" where
  "ps256_sign K salt p data =
     rbind (ok_or (ps_signing p) (KeyOperationFailed ''No signing key available'')) (\<lambda>sk.
     Inr (ke_pss_sign K sk salt data))"

definition ps256_object :: "key_env \<Rightarrow> bytes \<Rightarrow> ps256_algorithm \<Rightarrow> crypto_algorithm" where
  "ps256_object K salt p =
     \<lparr>al_id = ALG_PS256, al_verify = ps256_verify (ke_verify K) (ps_public p), al_sign = ps256_sign K salt p\<rparr>"

section \<open>Issuer and relay\<close>

text \<open>An object that signs and one that verifies for the same key, each from a constructor. With HMAC
  both are the same object; the other relays hold no signing key.\<close>

inductive key_pair :: "key_env \<Rightarrow> crypto_algorithm \<Rightarrow> crypto_algorithm \<Rightarrow> bool" for K where
  pair_hmac: "key_pair K (hmac_object K h) (hmac_object K h)"
| pair_random: "es256_new_with_key_pair K scalar = Inr e \<Longrightarrow>
    key_pair K (es256_object K e) (es256_object K (es256_new_verifier (es_verifying e)))"
| pair_pem: "es256_from_private_key_pem K pem = Inr e \<Longrightarrow> es256_from_public_key_pem K pub = Inr v \<Longrightarrow>
    es_verifying v = es_verifying e \<Longrightarrow> key_pair K (es256_object K e) (es256_object K v)"
| pair_der: "es256_from_private_key_der K der = Inr e \<Longrightarrow> es256_from_public_key_der K pub = Inr v \<Longrightarrow>
    es_verifying v = es_verifying e \<Longrightarrow> key_pair K (es256_object K e) (es256_object K v)"
| pair_rsa: "ps256_new_with_key_pair K key = Inr p \<Longrightarrow> ps256_verifier K (ps_public p) = Inr v \<Longrightarrow>
    key_pair K (ps256_object K salt p) (ps256_object K salt' v)"

lemma es256_signs:
  assumes "key_laws K" "es_verifying v = ke_p256_public K sk" "es_signing e = Some sk"
  shows "al_sign (es256_object K e) m = Inr s \<Longrightarrow> al_verify (es256_object K v) m s = Inr ()"
  using assms by (auto simp: es256_object_def es256_sign_def es256_verify_def key_laws_def)

lemmas es256_constructors = es256_new_with_key_pair_def es256_from_key_pair_def es256_new_verifier_def
  es256_from_private_key_pem_def es256_from_private_key_der_def es256_from_public_key_pem_def
  es256_from_public_key_der_def

lemma key_pair_verifies:
  assumes "key_laws K" "key_pair K a v"
  shows "al_sign a m = Inr s \<Longrightarrow> al_verify v m s = Inr ()"
  using assms(2)
proof cases
  case pair_hmac
  then show "al_sign a m = Inr s \<Longrightarrow> al_verify v m s = Inr ()" using hm.sign_verify by simp
next
  case (pair_random scalar e)
  then show "al_sign a m = Inr s \<Longrightarrow> al_verify v m s = Inr ()"
    using es256_signs[OF assms(1), of _ scalar e] by (auto simp: es256_constructors)
next
  case (pair_pem pem e pub w)
  then show "al_sign a m = Inr s \<Longrightarrow> al_verify v m s = Inr ()"
    using es256_signs[OF assms(1), of w _ e m s] by (auto simp: es256_constructors)
next
  case (pair_der der e pub w)
  then show "al_sign a m = Inr s \<Longrightarrow> al_verify v m s = Inr ()"
    using es256_signs[OF assms(1), of w _ e m s] by (auto simp: es256_constructors)
next
  case (pair_rsa key p w salt salt')
  then show "al_sign a m = Inr s \<Longrightarrow> al_verify v m s = Inr ()"
    using assms(1)
    by (auto simp: ps256_object_def ps256_sign_def ps256_new_with_key_pair_def ps256_verifier_def
        ps256_new_verifier_def ps256_verify_def key_laws_def split: if_splits) metis
qed

lemma key_pair_id: "key_pair K a v \<Longrightarrow> al_id v = al_id a \<and> in_i64 (al_id a)"
  by (induction rule: key_pair.induct)
     (simp_all add: hmac_object_def es256_object_def ps256_object_def in_i64_def i64_min_def i64_max_def)

lemma key_pair_silent: "key_pair K a v \<Longrightarrow> al_id v \<noteq> ALG_HMAC256_256 \<Longrightarrow> \<not> is_ok (al_sign v m)"
  by (induction rule: key_pair.induct)
     (auto simp: hmac_object_def es256_constructors es256_object_def es256_sign_def ps256_object_def
       ps256_sign_def ps256_verifier_def is_ok_iff)

section \<open>Keys in proofs\<close>

text \<open>The coordinates of a SEC1 encoding (\<open>EncodedPoint::x\<close>, \<open>y\<close>): the identity has none, a compressed
  point has only the first.\<close>

fun point_x :: "bytes \<Rightarrow> bytes option" where
  "point_x (t # r) = (if t = 0 then None else Some (take 32 r))"
| "point_x [] = None"

fun point_y :: "bytes \<Rightarrow> bytes option" where
  "point_y (t # r) = (if t = 4 then Some (drop 32 r) else None)"
| "point_y [] = None"

definition from_es256_verifying_key :: "(bytes \<Rightarrow> string) \<Rightarrow> bytes \<Rightarrow> jwk result" where
  "from_es256_verifying_key b64 key =
     rbind (ok_or (point_x key) (KeyOperationFailed ''Missing x coordinate in EC point'')) (\<lambda>x.
     rbind (ok_or (point_y key) (KeyOperationFailed ''Missing y coordinate in EC point'')) (\<lambda>y.
     Inr \<lparr>jwk_kty = ''EC'', jwk_crv = Some ''P-256'', jwk_x = Some (b64 x), jwk_y = Some (b64 y),
          jwk_n = None, jwk_e = None\<rparr>))"

text \<open>\<open>to_bytes_be\<close>: no leading zero byte, and one byte for zero.\<close>

fun nat_bytes :: "nat \<Rightarrow> bytes" where
  "nat_bytes n = (if n < 256 then [of_nat n] else nat_bytes (n div 256) @ [of_nat (n mod 256)])"

declare nat_bytes.simps [simp del]

definition from_rsa_public_key :: "(bytes \<Rightarrow> string) \<Rightarrow> nat \<times> nat \<Rightarrow> jwk" where
  "from_rsa_public_key b64 key =
     \<lparr>jwk_kty = ''RSA'', jwk_crv = None, jwk_x = None, jwk_y = None,
      jwk_n = Some (b64 (nat_bytes (fst key))), jwk_e = Some (b64 (nat_bytes (snd key)))\<rparr>"

lemma bytes_be_append: "bytes_be a (xs @ ys) = bytes_be (bytes_be a xs) ys"
  by (induction xs arbitrary: a) simp_all

lemma bytes_be_nat_bytes [simp]: "bytes_be 0 (nat_bytes n) = n"
proof (induction n rule: nat_bytes.induct)
  case (1 n)
  then show ?case
    by (subst nat_bytes.simps) (auto simp: bytes_be_append unat_of_nat)
qed

text \<open>A key that went into a JWK comes back out of it, if the library still takes it.\<close>

lemma es256_jwk:
  assumes "b64url_codec b64 b64d" "uncompressed key" "accept key"
  shows "\<exists>k. from_es256_verifying_key b64 key = Inr k \<and> to_verifying_key b64d accept k = Inr key"
proof -
  obtain x y where "key = 4 # x @ y" "length x = 32" using assms(2) by (auto simp: uncompressed_def)
  then show ?thesis using assms(1,3)
    by (simp add: from_es256_verifying_key_def to_verifying_key_def b64_field_def b64url_codec_def)
qed

lemma rsa_jwk:
  assumes "b64url_codec b64 b64d" "accept key"
  shows "to_rsa_public_key b64d accept (from_rsa_public_key b64 key) = Inr key"
  using assms by (simp add: from_rsa_public_key_def to_rsa_public_key_def b64_field_def b64url_codec_def)

definition compute_access_token_hash :: "crypto_env \<Rightarrow> bytes \<Rightarrow> bytes" where
  "compute_access_token_hash C t = cr_sha256 C t"

definition compute_access_token_hash_b64 :: "crypto_env \<Rightarrow> bytes \<Rightarrow> string" where
  "compute_access_token_hash_b64 C t = ce_b64 C (compute_access_token_hash C t)"

text \<open>The input a signed proof presents is the one its signature covers.\<close>

lemma signed_proof_input:
  assumes "proof_sign E a do_sign pf = Inr pf'"
  shows "\<exists>input. proof_signing_input E pf' = Inr input \<and> do_sign input = Inr (dp_signature pf') \<and>
     dp_header pf' = dp_header pf \<and> dp_payload pf' = dp_payload pf \<and> a = dh_alg (dp_header pf)"
proof (cases "signed_is_empty (dp_signed pf')")
  case False
  then show ?thesis
    using sign_covers_signing_input[OF assms] assms by (auto simp: proof_sign_def split: if_splits)
next
  case True
  then show ?thesis using assms
    by (cases "dp_wire pf")
       (auto simp: proof_sign_def proof_signing_input_def cwt_signing_input_def jwt_signing_input_def
         cwt_signed_bytes_def jwt_signed_bytes_def split: if_splits)
qed

text \<open>A proof that a holder made for a request passes the checks of the validator for that request.\<close>

lemma signed_proof_validates:
  assumes laws: "key_laws K" "b64url_codec (ce_b64 (ke_verify K)) (ce_b64d (ke_verify K))"
    and sk: "es_signing e = Some sk" "es_verifying e = ke_p256_public K sk"
    and k: "from_es256_verifying_key (ce_b64 (ke_verify K)) (es_verifying e) = Inr k"
    and jkt: "thumbprint (cr_sha256 (ke_verify K)) k = Inr jkt"
    and pf: "pf = with_access_token_hash (compute_access_token_hash (ke_verify K) tok)
        (with_replay_id cti (with_wire_format fmt (create_for_moqt iat act ns track ALG_ES256 k)))"
    and sign: "proof_sign (jwt_env.truncate (ke_verify K)) ALG_ES256 (al_sign (es256_object K e)) pf = Inr pf'"
    and shape: "resource_shape act = ShapeEndpoint \<or> ns \<noteq> []"
    and time: "0 < iat" "iat - 5 \<le> now" "now \<le> iat + effective_window (dv_settings v)"
      "in_i64 (effective_window (dv_settings v))"
  shows "validate_without_jti_commit (ke_verify K) now v pf' act jkt
     (Some (compute_access_token_hash (ke_verify K) tok)) = Inr ()"
proof -
  let ?C = "ke_verify K"
  obtain input where i: "proof_signing_input (jwt_env.truncate ?C) pf' = Inr input"
    and s: "al_sign (es256_object K e) input = Inr (dp_signature pf')"
    and same: "dp_header pf' = dp_header pf" "dp_payload pf' = dp_payload pf"
    using signed_proof_input[OF sign] by blast
  have pub: "uncompressed (es_verifying e)" "cr_p256_accept ?C (es_verifying e)"
    using laws(1) sk(2) by (simp_all add: key_laws_def)
  note parts = pf with_access_token_hash_def with_replay_id_def with_wire_format_def upd_payload_def
    create_for_moqt_def proof_new_def dpop_header_new_def payload_new_def actx_new_moqt_def
  have "dh_jwk (dp_header pf') = k" "dh_alg (dp_header pf') = ALG_ES256" by (simp_all add: same parts)
  then have "verify_with_embedded_key ?C pf' = Inr ()"
    using es256_jwk[OF laws(2) pub(1), of "cr_p256_accept ?C"] pub(2) k i es256_signs[OF laws(1) sk(2,1) s]
    by (auto simp: verify_with_embedded_key_def es256_object_def)
  moreover have "proof_bound ?C now v pf' act jkt (Some (compute_access_token_hash ?C tok))"
    using time jkt shape by (cases fmt) (auto simp: proof_bound_def same parts header_is_valid_def
        is_supported_algorithm_def supported_dpop_cose_algorithms_def payload_is_valid_def actx_is_valid_def
        is_fresh_iff jwk_thumbprint_def split: moqt_resource_shape.split)
  ultimately show ?thesis by (simp add: validate_without_jti_commit_ok)
qed

section \<open>Properties\<close>

text \<open>C10: what an issuer writes its relay reads. A token the wire form carries, signed with an HMAC key,
  a P-256 key pair (drawn, or loaded from PEM or DER) or an RSA key pair, is decoded to the same
  token by a decoder with the object a relay builds for that key; and unless the key is shared
  that object signs nothing.\<close>

theorem issued_token_accepted:
  assumes laws: "codec_laws E" "key_laws K" and pair: "key_pair K issuer relay"
    and d: "de_key d = KeyAlgorithm (algorithm.truncate relay)" "de_admission d = None" "de_encryption_key d = None"
    and c: "carried E (de_limits d) t"
    and e: "encode_token E (\<lambda>t. the (encode_payload_token E t)) (al_id issuer) (al_sign issuer) t = Inr bs"
      "length bs \<le> max_token_size"
  shows "decoder_decode E G d bs =
      Inr \<lparr>vt_token = t, vt_header = \<lparr>th_alg = al_id issuer, th_kid = None\<rparr>, vt_provenance = Signed,
           vt_serialized = bs\<rparr> \<and>
    (al_id issuer = ALG_HMAC256_256 \<or> \<not> is_ok (al_sign relay m))"
proof -
  let ?a = "algorithm.truncate relay"
  have a: "al_id ?a = al_id issuer" "al_verify ?a = al_verify relay"
    using key_pair_id[OF pair] by (simp_all add: algorithm.truncate_def)
  have "key_matches ?a (al_sign issuer) d"
    using key_pair_id[OF pair] key_pair_verifies[OF laws(2) pair] d by (simp add: key_matches_def a)
  from encoded_token_reads[OF laws(1) this c] e
  have "decode_signed E (decode_payload_with_limits E) peek_issuer d bs =
      Inr \<lparr>vt_token = t, vt_header = \<lparr>th_alg = al_id issuer, th_kid = None\<rparr>, vt_provenance = Signed,
           vt_serialized = bs\<rparr>" by (simp add: a)
  then show ?thesis
    using d(3) key_pair_silent[OF pair] key_pair_id[OF pair] by (auto simp: decoder_decode_def decode_token_def)
qed

text \<open>C8: an honest holder is accepted. A proof created for a request and signed with the P-256 key whose
  JWK it embeds passes every check of the validator for that request, for the token whose hash it
  carries and the thumbprint of that key, from five seconds before its issue time to the end of the
  freshness window, in either wire format.\<close>

theorem honest_proof_accepted:
  assumes laws: "key_laws K" "b64url_codec (ce_b64 (ke_verify K)) (ce_b64d (ke_verify K))"
    and sk: "es_signing e = Some sk" "es_verifying e = ke_p256_public K sk"
    and k: "from_es256_verifying_key (ce_b64 (ke_verify K)) (es_verifying e) = Inr k"
    and jkt: "thumbprint (cr_sha256 (ke_verify K)) k = Inr jkt"
    and pf: "pf = with_access_token_hash (compute_access_token_hash (ke_verify K) tok)
        (with_replay_id cti (with_wire_format fmt (create_for_moqt iat act ns track ALG_ES256 k)))"
    and sign: "proof_sign (jwt_env.truncate (ke_verify K)) ALG_ES256 (al_sign (es256_object K e)) pf = Inr pf'"
    and shape: "resource_shape act = ShapeEndpoint \<or> ns \<noteq> []"
    and time: "0 < iat" "iat - 5 \<le> now" "now \<le> iat + effective_window (dv_settings v)"
      "in_i64 (effective_window (dv_settings v))"
  shows "validate_without_jti_commit (ke_verify K) now v pf' act jkt
     (Some (compute_access_token_hash (ke_verify K) tok)) = Inr ()"
  by (rule signed_proof_validates[OF assms])

end
