(* ===== verification/Sample_Runs.thy ===== *)
theory Sample_Runs
  imports Witnesses Response Async_Auth Crypto
begin

text \<open>
  Concrete runs of the response policy, of interleaved asynchronous requests, of an encrypted
  token, and of one key pair: the witnesses of the properties of these components.
\<close>

section \<open>Responses\<close>

definition sample_response_token :: validated_token where
  "sample_response_token = ValidatedToken \<lparr>vt_token = with_interface_data ''eth0''
       (upd_core (\<lambda>c. c\<lparr>c_exp := Some 1060\<rparr>) sample_claims),
     vt_header = \<lparr>th_alg = -7, th_kid = None\<rparr>, vt_provenance = Signed, vt_serialized = [1]\<rparr>"

theorem response_freshness_witness:
  "\<exists>p. for_token_with_scope 1000 sample_response_token CachePublic = Inr p \<and>
     directive ''max-age'' (cache_control p) = Some 60 \<and> directive ''s-maxage'' (cache_control p) = Some 60"
proof -
  have e: "c_exp (t_core (validated_claims sample_response_token)) = Some 1060" by code_simp
  have "is_ok (for_token_with_scope 1000 sample_response_token CachePublic)" by code_simp
  then obtain p where p: "for_token_with_scope 1000 sample_response_token CachePublic = Inr p"
    by (auto simp: is_ok_iff)
  then show ?thesis using response_freshness[OF p, of 60] e by (simp add: i64_max_def)
qed

section \<open>Asynchronous requests\<close>

definition sample_requests :: "auth_request list" where
  "sample_requests =
     replicate 2 \<lparr>ar_now = 1000, ar_token = sample_prohibited, ar_context = sample_context\<rparr>"

definition sample_async :: "async_mem_store async_validator" where
  "sample_async = async_best_effort sample_validator async_mem_ops"

definition sample_guard :: "bytes list async_replay_guard" where
  "sample_guard = \<lparr>ag_check = mem_check_and_record, ag_is_strict = True\<rparr>"

text \<open>Both requests pass the pre-commit pipeline before either reaches the store; the first takes the
  key of the proof, the second finds it taken, the first is authorized.\<close>

definition race_passed :: pre_commit where
  "race_passed = \<lparr>pc_scope_index = 0, pc_renewal = None, pc_revalidation = None,
     pc_jti_commit = Some (sample_key, 1000), pc_replay = Some (ObProhibited [9])\<rparr>"

definition race_store :: async_mem_store where
  "race_store = fst (await_jti sample_async race_passed (async_mem_new 10))"

definition race :: "(async_mem_store, bytes list) async_state" where
  "race = (fst (await_jti sample_async race_passed race_store),
     fst (await_cti sample_async (Some sample_guard) race_passed []),
     [\<lparr>at_request = sample_requests ! 0, at_phase = PhDone (Inr (finalize race_passed False))\<rparr>,
      \<lparr>at_request = sample_requests ! 1, at_phase = PhDone (Inl ReplayAttackDetected)\<rparr>])"

lemma race_precommit:
  "snd (authorize_precommit (sample_env\<lparr>ae_now := 1000\<rparr>) (av_sync sample_async) sample_prohibited sample_context
      True None) = Inr race_passed"
  by code_simp

lemma race_stores:
  "snd (await_jti sample_async race_passed (async_mem_new 10)) = Inr ()"
  "snd (await_jti sample_async race_passed race_store) = Inl ReplayAttackDetected"
  "snd (await_cti sample_async (Some sample_guard) race_passed []) = Inr False"
  by code_simp+

lemma async_step_to:
  "async_step A av rg st st' \<Longrightarrow> st' = st'' \<Longrightarrow> async_step A av rg st st''"
  by simp

lemma race_run:
  "(async_step sample_env sample_async sample_guard)\<^sup>*\<^sup>*
     (async_mem_new 10, [], async_start sample_requests) race"
proof -
  let ?r = "\<lparr>ar_now = 1000, ar_token = sample_prohibited, ar_context = sample_context\<rparr>"
  let ?new = "async_mem_new 10" and ?s = "fst (await_jti sample_async race_passed race_store)"
  let ?ts = "\<lambda>ph ph'. [\<lparr>at_request = ?r, at_phase = ph\<rparr>, \<lparr>at_request = ?r, at_phase = ph'\<rparr>]"
  let ?step = "async_step sample_env sample_async sample_guard"
  note r = race_precommit race_stores race_store_def[symmetric]
  have "?step (?new, [], ?ts PhNew PhNew) (?new, [], ?ts (PhJti race_passed) PhNew)"
    by (rule async_step_to[OF async_step.precommit[of 0]]) (simp_all add: r)
  moreover have "?step (?new, [], ?ts (PhJti race_passed) PhNew) (?new, [], ?ts (PhJti race_passed) (PhJti race_passed))"
    by (rule async_step_to[OF async_step.precommit[of "Suc 0"]]) (simp_all add: r)
  moreover have "?step (?new, [], ?ts (PhJti race_passed) (PhJti race_passed))
      (race_store, [], ?ts (PhCti race_passed) (PhJti race_passed))"
    by (rule async_step_to[OF async_step.jti[of 0 _ race_passed]]) (simp_all add: r)
  moreover have "?step (race_store, [], ?ts (PhCti race_passed) (PhJti race_passed))
      (?s, [], ?ts (PhCti race_passed) (PhDone (Inl ReplayAttackDetected)))"
    by (rule async_step_to[OF async_step.jti[of "Suc 0" _ race_passed]]) (simp_all add: r)
  moreover have "?step (?s, [], ?ts (PhCti race_passed) (PhDone (Inl ReplayAttackDetected))) race"
    by (rule async_step_to[OF async_step.cti[of 0 _ race_passed]]) (simp_all add: r race_def sample_requests_def numeral_2_eq_2)
  ultimately have "?step\<^sup>*\<^sup>* (?new, [], ?ts PhNew PhNew) race"
    by (meson converse_rtranclp_into_rtranclp rtranclp.rtrancl_refl)
  then show ?thesis by (simp add: async_start_def sample_requests_def numeral_2_eq_2)
qed

lemma race_granted: "length (granted (snd (snd race))) = 1"
  by (simp add: race_def granted_def)

theorem async_single_use_witness:
  "length (granted (snd (snd race))) = 1 \<and> distinct (map proof_use (granted (snd (snd race)))) \<and>
    distinct (map request_cti (filter reuse_prohibited (granted (snd (snd race)))))"
proof -
  obtain s g ts where st: "race = (s, g, ts)" by (cases race)
  have store: "jti_store (aj_insert (av_jti_store sample_async)) async_mem_seen async_mem_inv"
    using am.jti_store_axioms by (simp add: sample_async_def async_best_effort_def async_mem_ops_def)
  have guard: "replay_guard (ag_check sample_guard) set"
    using mem.replay_guard_axioms by (simp add: sample_guard_def)
  have v: "mv_require_dpop (av_sync sample_async)" "mv_require_tracking (av_sync sample_async)"
    by (simp_all add: sample_async_def async_best_effort_def sample_validator_def require_dpop_def
        require_dpop_replay_tracking_def)
  from async_single_use[OF race_run[unfolded st] store async_mem_inv_new(1) guard v] race_granted
  show ?thesis by (simp add: st)
qed

theorem async_authorize_agrees_witness:
  "async_authorize sample_env (async_best_effort sample_validator (async_adapter (strict_ops length 0)))
     sample_token sample_context (strict_new 300 10) =
   authorize sample_env (strict_ops length 0) sample_validator sample_token sample_context (strict_new 300 10)"
  using async_authorize_agrees[of "async_best_effort sample_validator (async_adapter (strict_ops length 0))"
      "strict_ops length 0" sample_guard]
  by (simp add: async_best_effort_def)

section \<open>An encrypted token\<close>

definition toy_gcm :: gcm_env where
  "toy_gcm = \<lparr>
     gcm_seal = (\<lambda>a k n ad pt. if length k < 16 then None else Some (pt @ take 16 k)),
     gcm_open = (\<lambda>a k n ad ct. if length k < 16 \<or> length ct < 16 \<or> drop (length ct - 16) ct \<noteq> take 16 k
        then None else Some (take (length ct - 16) ct))\<rparr>"

lemma toy_gcm_laws: "gcm_laws toy_gcm"
  by (auto simp: gcm_laws_def toy_gcm_def gcm_tag_bytes_def split: if_splits)

definition sealed_decoder :: "cwt_limits decoder" where
  "sealed_decoder = \<lparr>de_key = KeyAlgorithm token_algorithm, de_admission = None, de_encryption_key = Some (replicate 16 7),
     de_limits = default_limits\<rparr>"

lemma policy_carried: "carried (table_codec policy_table) default_limits policy_token"
  by (simp add: carried_def limits_default policy_wire policy_counters)

lemma sealed_key: "key_matches token_algorithm (\<lambda>_. Inr [7]) sealed_decoder"
  by (simp add: key_matches_def sealed_decoder_def token_algorithm_def in_i64_def i64_min_def i64_max_def)

lemma sealed_sizes:
  "length ([9] :: bytes) \<le> max_encrypt0_size"
  "length ([4] :: bytes) \<le> min max_token_size (max_cbor_payload_size (de_limits sealed_decoder))"
  by (simp_all add: max_encrypt0_size_def max_token_size_def sealed_decoder_def default_limits_def)

lemma sealed_encodes:
  "encode_token (table_codec policy_table) (\<lambda>t. the (encode_payload_token (table_codec policy_table) t))
     (al_id token_algorithm) (\<lambda>_. Inr [7]) policy_token = Inr [4]"
  "cose_encrypt0 (table_codec policy_table) toy_gcm (replicate 12 0) [4] (replicate 16 7) A128Gcm = Inr [9]"
  by code_simp+

lemma sealed_key_set: "sealed_decoder\<lparr>de_encryption_key := Some (replicate 16 7)\<rparr> = sealed_decoder"
  by (simp add: sealed_decoder_def)

lemma sealed_carried: "carried (table_codec policy_table) (de_limits sealed_decoder) policy_token"
  using policy_carried by (simp add: sealed_decoder_def)

theorem encrypted_token_roundtrip_witness:
  "decoder_decode (table_codec policy_table) toy_gcm sealed_decoder [9] =
     Inr \<lparr>vt_token = policy_token, vt_header = \<lparr>th_alg = al_id token_algorithm, th_kid = None\<rparr>,
          vt_provenance = Encrypted, vt_serialized = [9]\<rparr>"
proof -
  have "encode_encrypted_token (table_codec policy_table) toy_gcm
      (\<lambda>t. the (encode_payload_token (table_codec policy_table) t)) (al_id token_algorithm) (\<lambda>_. Inr [7])
      (replicate 12 0) (replicate 16 7) A128Gcm policy_token = Inr [9]"
    by (simp only: encode_encrypted_token_def sealed_encodes rbind_Inr)
  from encrypted_token_roundtrip[OF policy_table_laws(1) toy_gcm_laws sealed_key sealed_carried this
      sealed_encodes(1) _ sealed_sizes]
  show ?thesis unfolding sealed_key_set by simp
qed

theorem encrypted_token_authentic_witness:
  "\<exists>ea inner. opened (table_codec policy_table) toy_gcm ea [9] (replicate 16 7) inner \<and> length inner \<le> max_token_size"
proof -
  have "decoder_decode (table_codec policy_table) toy_gcm sealed_decoder [9] =
     Inr \<lparr>vt_token = policy_token, vt_header = \<lparr>th_alg = al_id token_algorithm, th_kid = None\<rparr>,
          vt_provenance = Encrypted, vt_serialized = [9]\<rparr>"
    using encrypted_token_reads[OF policy_table_laws(1) toy_gcm_laws sealed_key sealed_carried
        sealed_encodes _ sealed_sizes] unfolding sealed_key_set by simp
  from encrypted_token_authentic[OF this _ toy_gcm_laws] show ?thesis
    by (fastforce simp: sealed_decoder_def)
qed

section \<open>A key pair\<close>

definition sample_point :: bytes where
  "sample_point = 4 # replicate 32 1 @ replicate 32 2"

definition sample_keys :: key_env where
  "sample_keys = \<lparr>ke_verify = sample_crypto\<lparr>cr_es256_verify := (\<lambda>k m s. k = sample_point \<and> s = [7]),
       cr_ps256_verify := (\<lambda>k m s. s = [8])\<rparr>,
     ke_hmac = (\<lambda>k m. Inr (k @ m)), ke_p256_public = (\<lambda>_. sample_point), ke_p256_sign = (\<lambda>_ _. [7]),
     ke_rsa_public = (\<lambda>_. (15, 3)), ke_pss_sign = (\<lambda>_ _ _. [8]), ke_spki_pem = (\<lambda>_. Inl ''''),
     ke_spki_der = (\<lambda>b. if b = [1] then Inr sample_point else Inl ''''), ke_pkcs8_pem = (\<lambda>_. Inl ''''),
     ke_pkcs8_der = (\<lambda>b. if b = [2] then Inr [3] else Inl '''')\<rparr>"

lemma uncompressed_sample: "uncompressed sample_point"
  unfolding uncompressed_def
  by (rule exI[of _ "replicate 32 1"], rule exI[of _ "replicate 32 2"]) (simp add: sample_point_def)

lemma sample_key_laws: "key_laws sample_keys"
  using uncompressed_sample by (simp add: key_laws_def sample_keys_def sample_crypto_def)

definition sample_es256 :: es256_algorithm where
  "sample_es256 = es256_from_key_pair [3] sample_point"

lemma sample_pair:
  "key_pair sample_keys (es256_object sample_keys sample_es256)
     (es256_object sample_keys (es256_new_verifier sample_point))"
  by (rule pair_der[of _ "[2]" _ "[1]"])
     (simp_all add: sample_keys_def sample_es256_def es256_constructors key_result_def)

lemma sample_sign: "al_sign (es256_object sample_keys sample_es256) = (\<lambda>_. Inr [7])"
  by (simp add: fun_eq_iff es256_object_def es256_sign_def sample_es256_def es256_from_key_pair_def sample_keys_def)

theorem issued_token_accepted_witness:
  "decoder_decode (table_codec policy_table) toy_gcm (sealed_decoder\<lparr>de_encryption_key := None,
       de_key := KeyAlgorithm (algorithm.truncate (es256_object sample_keys (es256_new_verifier sample_point)))\<rparr>) [4] =
     Inr \<lparr>vt_token = policy_token, vt_header = \<lparr>th_alg = -7, th_kid = None\<rparr>, vt_provenance = Signed,
          vt_serialized = [4]\<rparr>"
proof -
  have alg: "al_id (es256_object sample_keys sample_es256) = al_id token_algorithm"
    by (simp add: es256_object_def token_algorithm_def)
  have "encode_token (table_codec policy_table) (\<lambda>t. the (encode_payload_token (table_codec policy_table) t))
     (al_id (es256_object sample_keys sample_es256)) (al_sign (es256_object sample_keys sample_es256)) policy_token = Inr [4]"
    unfolding sample_sign alg by (rule sealed_encodes)
  from issued_token_accepted[OF policy_table_laws(1) sample_key_laws sample_pair _ _ _ _ this, where G = toy_gcm]
  show ?thesis using sealed_carried
    by (simp add: sealed_decoder_def max_token_size_def es256_object_def)
qed

theorem honest_proof_accepted_witness:
  "\<exists>k jkt pf. from_es256_verifying_key hex_text sample_point = Inr k \<and>
     validate_without_jti_commit (ke_verify sample_keys) 1000 (dv_with_jti_store catdpop_new) pf Subscribe jkt
       (Some [5]) = Inr ()"
proof -
  let ?C = "ke_verify sample_keys"
  have C: "ce_b64 ?C = hex_text" "ce_b64d ?C = hex_read" "cr_sha256 ?C = (\<lambda>b. b)"
    by (simp_all add: sample_keys_def sample_crypto_def)
  have vk: "es_verifying sample_es256 = sample_point" "es_signing sample_es256 = Some [3]"
    by (simp_all add: sample_es256_def es256_from_key_pair_def)
  obtain k where k: "from_es256_verifying_key hex_text sample_point = Inr k"
    by (simp add: from_es256_verifying_key_def sample_point_def)
  have "is_ok (rbind (from_es256_verifying_key hex_text sample_point) (thumbprint (\<lambda>b. b)))" by code_simp
  then obtain jkt where jkt: "thumbprint (cr_sha256 ?C) k = Inr jkt" by (auto simp: is_ok_iff k C)
  define pf where "pf = with_access_token_hash (compute_access_token_hash ?C [5])
    (with_replay_id [9] (with_wire_format WireCwt (create_for_moqt 999 Subscribe [[97]] [98] ALG_ES256 k)))"
  have "is_ok (rbind (from_es256_verifying_key hex_text sample_point) (\<lambda>k.
      proof_sign (jwt_env.truncate ?C) ALG_ES256 (al_sign (es256_object sample_keys sample_es256))
        (with_access_token_hash (compute_access_token_hash ?C [5])
          (with_replay_id [9] (with_wire_format WireCwt (create_for_moqt 999 Subscribe [[97]] [98] ALG_ES256 k))))))"
    by code_simp
  then obtain pf' where pf': "proof_sign (jwt_env.truncate ?C) ALG_ES256
      (al_sign (es256_object sample_keys sample_es256)) pf = Inr pf'" by (auto simp: is_ok_iff k pf_def)
  have window: "in_i64 (effective_window (dv_settings (dv_with_jti_store catdpop_new)))"
    "1000 \<le> 999 + effective_window (dv_settings (dv_with_jti_store catdpop_new))" by code_simp+
  have "validate_without_jti_commit ?C 1000 (dv_with_jti_store catdpop_new) pf' Subscribe jkt
     (Some (compute_access_token_hash ?C [5])) = Inr ()"
    by (rule honest_proof_accepted[OF sample_key_laws _ vk(2) _ _ jkt pf_def pf' _ _ _ window(2,1)])
       (simp_all add: C hex_codec k vk(1), simp_all add: sample_keys_def)
  then show ?thesis using k by (auto simp: C compute_access_token_hash_def)
qed

section \<open>One request from the wire to the grant\<close>

definition claims_cbor :: cbor where
  "claims_cbor = int_entries [(1, CText ''iss''), (3, CArray [CText ''relay'']), (7, CBytes [9]),
     (8, int_entries [(323, CBytes sample_jkt)]),
     (327, CArray [CArray [CArray [CInt 4], CArray [CBytes [97]]]])]"

definition wire_table :: "(cbor \<times> bytes) list" where
  "wire_table =
     [(int_entries [(1, CInt (-7)), (16, CText ''CAT'')], [1]), (claims_cbor, [2]),
      (CArray [CText ''Signature1'', CBytes [1], CBytes [], CBytes [2]], [3]),
      (CTag 18 (CArray [CBytes [1], CMap [], CBytes [2], CBytes [7]]), [1, 2, 3])]"

definition wire_decoder :: "cwt_limits decoder" where
  "wire_decoder = \<lparr>de_key = KeyAlgorithm token_algorithm, de_admission = None, de_encryption_key = None,
     de_limits = \<lparr>max_cbor_payload_size = 9, max_moqt_scopes = 9, max_custom_claims = 9,
       max_string_claim_length = 9, max_namespace_matches_per_scope = 9, max_uri_patterns = 9,
       max_nesting_depth = 9, max_total_items = 99, max_total_string_bytes = 99, max_regex_count = 9,
       max_catnip_entries = 9\<rparr>\<rparr>"

lemma wire_decodes:
  "decoder_decode (table_codec wire_table) toy_gcm wire_decoder [1, 2, 3] =
     Inr \<lparr>vt_token = sample_claims, vt_header = \<lparr>th_alg = -7, th_kid = None\<rparr>,
          vt_provenance = Signed, vt_serialized = [1, 2, 3]\<rparr>"
  by code_simp

lemma wire_validates:
  "validate_token (for_expected_issuers [''iss'']) 1000 \<lparr>vt_token = sample_claims,
     vt_header = \<lparr>th_alg = -7, th_kid = None\<rparr>, vt_provenance = Signed, vt_serialized = [1, 2, 3]\<rparr> = Inr sample_token"
  unfolding sample_token_def by code_simp

end
