(* ===== verification/Trie_Qp.thy ===== *)
theory Trie_Qp
  imports Uri_Matcher
begin

text \<open>
  The alternative tries and matcher of \<open>src/src/trie_qp.rs\<close>, the \<open>qp-trie\<close> feature. The crate's
  \<open>Trie<Vec<u8>, String>\<close> is a map from byte strings: its operations are fields of \<open>qp_env\<close>, what is
  documented of them is the locale \<open>qp_map\<close>, and lists of entries provide it.

  Shown: both tries provide the interface of \<open>Uri_Matcher\<close>, with removal unbounded in depth, and the
  matcher of this feature reports the same patterns as the matcher of \<open>trie.rs\<close>.
\<close>

section \<open>The map of the crate\<close>

record ('t, 'v) qp_env =
  qp_new :: 't
  qp_get :: "'t \<Rightarrow> string \<Rightarrow> 'v option"
  qp_insert :: "string \<Rightarrow> 'v \<Rightarrow> 't \<Rightarrow> 't"
  qp_remove :: "string \<Rightarrow> 't \<Rightarrow> 't \<times> 'v option"
  qp_keys :: "'t \<Rightarrow> string list"

locale qp_map =
  fixes Q :: "('t, 'v) qp_env"
  assumes get_new: "qp_get Q (qp_new Q) k = None"
    and get_insert: "qp_get Q (qp_insert Q p v t) k = (if k = p then Some v else qp_get Q t k)"
    and removed: "snd (qp_remove Q p t) = qp_get Q t p"
    and get_remove: "qp_get Q (fst (qp_remove Q p t)) k = (if k = p then None else qp_get Q t k)"
    and keys: "set (qp_keys Q t) = dom (qp_get Q t)"
begin

lemma finite_get: "finite (dom (qp_get Q t))"
  by (simp flip: keys)

end

text \<open>A list of entries is such a map.\<close>

definition list_map :: "((string \<times> 'v) list, 'v) qp_env" where
  "list_map = \<lparr>qp_new = [], qp_get = map_of, qp_insert = AList.update,
     qp_remove = (\<lambda>p t. (AList.delete p t, map_of t p)), qp_keys = map fst\<rparr>"

interpretation lm: qp_map list_map
  by unfold_locales
     (auto simp: list_map_def update_conv' delete_conv' dom_map_of_conv_image_fst)

section \<open>Prefix and suffix tries\<close>

record 't qp_trie =
  qt_trie :: 't
  qt_size :: nat

definition qp_trie_new :: "('t, 'v) qp_env \<Rightarrow> 't qp_trie" where
  "qp_trie_new Q = \<lparr>qt_trie = qp_new Q, qt_size = 0\<rparr>"

definition qp_prefix_insert :: "('t, 'v) qp_env \<Rightarrow> string \<Rightarrow> 'v \<Rightarrow> 't qp_trie \<Rightarrow> 't qp_trie" where
  "qp_prefix_insert Q pat v t =
     \<lparr>qt_trie = qp_insert Q pat v (qt_trie t),
      qt_size = (if qp_get Q (qt_trie t) pat = None then qt_size t + 1 else qt_size t)\<rparr>"

definition qp_search_prefix :: "('t, 'v) qp_env \<Rightarrow> 't qp_trie \<Rightarrow> string \<Rightarrow> 'v list" where
  "qp_search_prefix Q t text =
     List.map_filter (\<lambda>i. qp_get Q (qt_trie t) (take i text)) [1..<Suc (length text)]"

definition qp_contains_prefix :: "('t, 'v) qp_env \<Rightarrow> 't qp_trie \<Rightarrow> string \<Rightarrow> bool" where
  "qp_contains_prefix Q t text =
     list_ex (\<lambda>i. qp_get Q (qt_trie t) (take i text) \<noteq> None) [1..<Suc (length text)]"

definition qp_prefix_patterns :: "('t, 'v) qp_env \<Rightarrow> 't qp_trie \<Rightarrow> string list" where
  "qp_prefix_patterns Q t = filter utf8_valid (qp_keys Q (qt_trie t))"

definition qp_prefix_remove :: "('t, 'v) qp_env \<Rightarrow> string \<Rightarrow> 't qp_trie \<Rightarrow> 't qp_trie \<times> bool" where
  "qp_prefix_remove Q pat t =
     (case qp_remove Q pat (qt_trie t) of
        (t', Some _) \<Rightarrow> (\<lparr>qt_trie = t', qt_size = qt_size t - 1\<rparr>, True)
      | (t', None) \<Rightarrow> (t\<lparr>qt_trie := t'\<rparr>, False))"

definition qp_suffix_insert :: "('t, 'v) qp_env \<Rightarrow> string \<Rightarrow> 'v \<Rightarrow> 't qp_trie \<Rightarrow> 't qp_trie" where
  "qp_suffix_insert Q pat v t =
     \<lparr>qt_trie = qp_insert Q (rev pat) v (qt_trie t),
      qt_size = (if qp_get Q (qt_trie t) (rev pat) = None then qt_size t + 1 else qt_size t)\<rparr>"

definition qp_search_suffix :: "('t, 'v) qp_env \<Rightarrow> 't qp_trie \<Rightarrow> string \<Rightarrow> 'v list" where
  "qp_search_suffix Q t text =
     (let reversed = rev text
      in List.map_filter (\<lambda>i. qp_get Q (qt_trie t) (take i reversed)) [1..<Suc (length reversed)])"

definition qp_contains_suffix :: "('t, 'v) qp_env \<Rightarrow> 't qp_trie \<Rightarrow> string \<Rightarrow> bool" where
  "qp_contains_suffix Q t text =
     (let reversed = rev text
      in list_ex (\<lambda>i. qp_get Q (qt_trie t) (take i reversed) \<noteq> None) [1..<Suc (length reversed)])"

definition qp_suffix_patterns :: "('t, 'v) qp_env \<Rightarrow> 't qp_trie \<Rightarrow> string list" where
  "qp_suffix_patterns Q t = filter utf8_valid (map rev (qp_keys Q (qt_trie t)))"

definition qp_suffix_remove :: "('t, 'v) qp_env \<Rightarrow> string \<Rightarrow> 't qp_trie \<Rightarrow> 't qp_trie \<times> bool" where
  "qp_suffix_remove Q pat t =
     (case qp_remove Q (rev pat) (qt_trie t) of
        (t', Some _) \<Rightarrow> (\<lparr>qt_trie = t', qt_size = qt_size t - 1\<rparr>, True)
      | (t', None) \<Rightarrow> (t\<lparr>qt_trie := t'\<rparr>, False))"

text \<open>The entries of the two tries; the counter is their number.\<close>

definition qp_prefix_entries :: "('t, 'v) qp_env \<Rightarrow> 't qp_trie \<Rightarrow> string \<Rightarrow> 'v option" where
  "qp_prefix_entries Q t = qp_get Q (qt_trie t)"

definition qp_suffix_entries :: "('t, 'v) qp_env \<Rightarrow> 't qp_trie \<Rightarrow> string \<Rightarrow> 'v option" where
  "qp_suffix_entries Q t p = qp_get Q (qt_trie t) (rev p)"

definition qp_inv :: "('t, 'v) qp_env \<Rightarrow> 't qp_trie \<Rightarrow> bool" where
  "qp_inv Q t \<longleftrightarrow> qt_size t = card (dom (qp_get Q (qt_trie t)))"

lemma qp_suffix_as_prefix:
  "qp_suffix_insert Q p v t = qp_prefix_insert Q (rev p) v t"
  "qp_search_suffix Q t x = qp_search_prefix Q t (rev x)"
  "qp_contains_suffix Q t x = qp_contains_prefix Q t (rev x)"
  "qp_suffix_remove Q p t = qp_prefix_remove Q (rev p) t"
  by (simp_all add: qp_suffix_insert_def qp_prefix_insert_def qp_search_suffix_def qp_search_prefix_def
      qp_contains_suffix_def qp_contains_prefix_def qp_suffix_remove_def qp_prefix_remove_def Let_def)

text \<open>The values of the non-empty stored prefixes, whatever stores them.\<close>

lemma set_map_filter_Some: "set (List.map_filter f xs) = {v. \<exists>i \<in> set xs. f i = Some v}"
  by (induction xs) (auto simp: List.map_filter_simps split: option.splits)

lemma set_prefix_values:
  "set (List.map_filter (\<lambda>i. f (take i x)) [1..<Suc (length x)]) =
     {v. \<exists>p. p \<noteq> [] \<and> prefix p x \<and> f p = Some v}"
proof -
  have "(\<exists>i \<in> {1..<Suc (length x)}. f (take i x) = Some v) \<longleftrightarrow> (\<exists>p. p \<noteq> [] \<and> prefix p x \<and> f p = Some v)" for v
  proof
    assume "\<exists>i \<in> {1..<Suc (length x)}. f (take i x) = Some v"
    then obtain i where "1 \<le> i" "i \<le> length x" "f (take i x) = Some v" by auto
    then show "\<exists>p. p \<noteq> [] \<and> prefix p x \<and> f p = Some v"
      by (intro exI[of _ "take i x"]) (auto simp: take_is_prefix)
  next
    assume "\<exists>p. p \<noteq> [] \<and> prefix p x \<and> f p = Some v"
    then obtain p where p: "p \<noteq> []" "prefix p x" "f p = Some v" by blast
    then have "take (length p) x = p" by (auto simp: prefix_def)
    moreover have "length p \<in> {1..<Suc (length x)}"
      using p(1,2) by (auto simp: prefix_length_le Suc_le_eq less_Suc_eq_le)
    ultimately show "\<exists>i \<in> {1..<Suc (length x)}. f (take i x) = Some v" using p(3) by metis
  qed
  then show ?thesis unfolding set_map_filter_Some set_upt by (intro Collect_cong)
qed

context qp_map
begin

lemma dom_insert: "dom (qp_get Q (qp_insert Q p v t)) = insert p (dom (qp_get Q t))"
  by (auto simp: get_insert split: if_splits)

lemma dom_remove: "dom (qp_get Q (fst (qp_remove Q p t))) = dom (qp_get Q t) - {p}"
  by (auto simp: get_remove split: if_splits)

lemma inv_insert: "qp_inv Q t \<Longrightarrow> qp_inv Q (qp_prefix_insert Q p v t)"
  by (auto simp: qp_inv_def qp_prefix_insert_def dom_insert card_insert_if finite_get domIff)

lemma prefix_remove:
  "fst (qp_prefix_remove Q p t) =
     \<lparr>qt_trie = fst (qp_remove Q p (qt_trie t)),
      qt_size = (if qp_get Q (qt_trie t) p = None then qt_size t else qt_size t - 1)\<rparr>"
  "snd (qp_prefix_remove Q p t) \<longleftrightarrow> qp_get Q (qt_trie t) p \<noteq> None"
  using removed[of p "qt_trie t"]
  by (cases t; cases "qp_remove Q p (qt_trie t)"; auto simp: qp_prefix_remove_def split: option.splits)+

lemma inv_remove: "qp_inv Q t \<Longrightarrow> qp_inv Q (fst (qp_prefix_remove Q p t))"
  using finite_get[of "qt_trie t"] by (auto simp: qp_inv_def prefix_remove dom_remove domIff)

end

sublocale qp_map \<subseteq> qpre: removable_index "qp_trie_new Q" "qp_prefix_insert Q" "qp_search_prefix Q"
  "qp_prefix_entries Q" "qp_inv Q" prefix "qp_prefix_remove Q" qt_size "\<lambda>_. True"
proof (unfold_locales, goal_cases)
  case 1
  then show ?case by (simp add: qp_inv_def qp_trie_new_def get_new dom_def)
next
  case (2 t p v)
  then show ?case by (rule inv_insert)
next
  case (3 p)
  then show ?case by (simp add: qp_prefix_entries_def qp_trie_new_def get_new)
next
  case (4 t p v q)
  then show ?case by (simp add: qp_prefix_entries_def qp_prefix_insert_def get_insert)
next
  case (5 t x)
  show ?case unfolding qp_search_prefix_def qp_prefix_entries_def by (rule set_prefix_values)
next
  case (6 t p)
  then show ?case by (rule inv_remove)
next
  case (7 t p q)
  then show ?case by (simp add: qp_prefix_entries_def prefix_remove get_remove)
next
  case (8 t p)
  then show ?case by (simp add: qp_prefix_entries_def prefix_remove)
next
  case (9 t)
  then show ?case by (simp add: qp_inv_def qp_prefix_entries_def finite_get)
qed

sublocale qp_map \<subseteq> qsuf: removable_index "qp_trie_new Q" "qp_suffix_insert Q" "qp_search_suffix Q"
  "qp_suffix_entries Q" "qp_inv Q" suffix "qp_suffix_remove Q" qt_size "\<lambda>_. True"
proof (unfold_locales, goal_cases)
  case 1
  then show ?case by (rule qpre.inv_empty)
next
  case (2 t p v)
  then show ?case by (simp add: qp_suffix_as_prefix inv_insert)
next
  case (3 p)
  then show ?case by (simp add: qp_suffix_entries_def qp_trie_new_def get_new)
next
  case (4 t p v q)
  then show ?case by (simp add: qp_suffix_as_prefix qp_suffix_entries_def qp_prefix_insert_def get_insert)
next
  case (5 t x)
  have "(\<exists>p. p \<noteq> [] \<and> prefix p (rev x) \<and> qp_get Q (qt_trie t) p = Some v) \<longleftrightarrow>
      (\<exists>p. p \<noteq> [] \<and> suffix p x \<and> qp_get Q (qt_trie t) (rev p) = Some v)" for v
    by (metis rev_is_Nil_conv rev_rev_ident suffix_to_prefix)
  then show ?case
    unfolding qp_suffix_as_prefix qp_search_prefix_def qp_suffix_entries_def set_prefix_values by simp
next
  case (6 t p)
  then show ?case by (simp add: qp_suffix_as_prefix inv_remove)
next
  case (7 t p q)
  then show ?case by (simp add: qp_suffix_as_prefix qp_suffix_entries_def prefix_remove get_remove)
next
  case (8 t p)
  then show ?case by (simp add: qp_suffix_as_prefix qp_suffix_entries_def prefix_remove)
next
  case (9 t)
  have "dom (qp_suffix_entries Q t) = rev ` dom (qp_get Q (qt_trie t))"
    by (auto simp: qp_suffix_entries_def image_iff domIff intro!: bexI[of _ "rev _"])
  then show ?case using 9 by (simp add: qp_inv_def finite_get card_image)
qed

section \<open>The matcher\<close>

definition qp_limits_default :: uri_matcher_limits where
  "qp_limits_default = \<lparr>max_regex_pattern_length = 4 * 1024, max_regex_patterns = 100\<rparr>"

record ('t, 're) qp_matcher =
  qm_prefix :: "'t qp_trie"
  qm_suffix :: "'t qp_trie"
  qm_exact :: "(string \<times> string) list"
  qm_regex :: "('re \<times> string) list"
  qm_hash :: "(bytes \<times> string) list"
  qm_limits :: uri_matcher_limits

definition qm_with_limits :: "('t, string) qp_env \<Rightarrow> uri_matcher_limits \<Rightarrow> ('t, 're) qp_matcher" where
  "qm_with_limits Q l =
     \<lparr>qm_prefix = qp_trie_new Q, qm_suffix = qp_trie_new Q, qm_exact = [], qm_regex = [], qm_hash = [],
      qm_limits = l\<rparr>"

definition qm_new :: "('t, string) qp_env \<Rightarrow> ('t, 're) qp_matcher" where
  "qm_new Q = qm_with_limits Q qp_limits_default"

fun qm_add_pattern ::
  "('t, string) qp_env \<Rightarrow> (string \<Rightarrow> string + 're) \<Rightarrow> (string \<Rightarrow> string + bytes) \<Rightarrow> uri_pattern \<Rightarrow>
     ('t, 're) qp_matcher \<Rightarrow> string + ('t, 're) qp_matcher" where
  "qm_add_pattern Q compile hexd (UpExact uri) m = Inr (m\<lparr>qm_exact := AList.update uri uri (qm_exact m)\<rparr>)"
| "qm_add_pattern Q compile hexd (UpPrefix p) m = Inr (m\<lparr>qm_prefix := qp_prefix_insert Q p p (qm_prefix m)\<rparr>)"
| "qm_add_pattern Q compile hexd (UpSuffix p) m = Inr (m\<lparr>qm_suffix := qp_suffix_insert Q p p (qm_suffix m)\<rparr>)"
| "qm_add_pattern Q compile hexd (UpRegex p) m =
     (if length (qm_regex m) \<ge> max_regex_patterns (qm_limits m) then Inl ''Too many regex patterns: ''
      else if length p > max_regex_pattern_length (qm_limits m) then Inl ''Regex pattern too long: ''
      else rbind (compile p) (\<lambda>re. Inr (m\<lparr>qm_regex := qm_regex m @ [(re, p)]\<rparr>)))"
| "qm_add_pattern Q compile hexd (UpHash h) m =
     (case hexd h of
        Inl e \<Rightarrow> Inl ''Invalid hash hex: ''
      | Inr bs \<Rightarrow>
          (if length bs \<noteq> 32 then Inl ''Hash must be 32 bytes (SHA-256)''
           else Inr (m\<lparr>qm_hash := AList.update bs h (qm_hash m)\<rparr>)))"

definition qm_matches ::
  "('t, string) qp_env \<Rightarrow> ('re \<Rightarrow> string \<Rightarrow> bool) \<Rightarrow> (string \<Rightarrow> bytes) \<Rightarrow> ('t, 're) qp_matcher \<Rightarrow> string \<Rightarrow> bool" where
  "qm_matches Q is_match sha256 m uri =
     (if map_of (qm_exact m) uri \<noteq> None then True
      else if qp_contains_prefix Q (qm_prefix m) uri then True
      else if qp_contains_suffix Q (qm_suffix m) uri then True
      else if list_ex (\<lambda>(re, _). is_match re uri) (qm_regex m) then True
      else if map_of (qm_hash m) (sha256 uri) \<noteq> None then True
      else False)"

definition qm_get_matching_patterns ::
  "('t, string) qp_env \<Rightarrow> ('re \<Rightarrow> string \<Rightarrow> bool) \<Rightarrow> (string \<Rightarrow> bytes) \<Rightarrow> ('t, 're) qp_matcher \<Rightarrow> string \<Rightarrow>
     string list" where
  "qm_get_matching_patterns Q is_match sha256 m uri =
     (case map_of (qm_exact m) uri of Some p \<Rightarrow> [''exact:'' @ p] | None \<Rightarrow> [])
     @ map (\<lambda>p. ''prefix:'' @ p) (qp_search_prefix Q (qm_prefix m) uri)
     @ map (\<lambda>p. ''suffix:'' @ p) (qp_search_suffix Q (qm_suffix m) uri)
     @ map (\<lambda>(_, p). ''regex:'' @ p) (filter (\<lambda>(re, _). is_match re uri) (qm_regex m))
     @ (case map_of (qm_hash m) (sha256 uri) of Some p \<Rightarrow> [''hash:'' @ p] | None \<Rightarrow> [])"

fun qm_add_patterns ::
  "('t, string) qp_env \<Rightarrow> (string \<Rightarrow> string + 're) \<Rightarrow> (string \<Rightarrow> string + bytes) \<Rightarrow> uri_pattern list \<Rightarrow>
     ('t, 're) qp_matcher \<Rightarrow> string + ('t, 're) qp_matcher" where
  "qm_add_patterns Q compile hexd [] m = Inr m"
| "qm_add_patterns Q compile hexd (p # ps) m =
     (case qm_add_pattern Q compile hexd p m of
        Inl e \<Rightarrow> Inl e | Inr m' \<Rightarrow> qm_add_patterns Q compile hexd ps m')"

section \<open>The two matchers\<close>

text \<open>A trie of characters and a map of bytes hold the same entries: the map has one at the bytes the
  characters make up, and none at bytes that are no text.\<close>

definition same_entries :: "(string list \<Rightarrow> 'v option) \<Rightarrow> (string \<Rightarrow> 'v option) \<Rightarrow> bool" where
  "same_entries g f \<longleftrightarrow>
     (\<forall>cs. list_all scalar cs \<longrightarrow> g cs = f (concat cs)) \<and> (\<forall>p. \<not> utf8_valid p \<longrightarrow> f p = None)"

lemma same_entries_upd: "same_entries g f \<Longrightarrow> utf8_valid p \<Longrightarrow> same_entries (g(utf8_chars p \<mapsto> v)) (f(p \<mapsto> v))"
  by (auto simp: same_entries_def chars_eq_iff)

definition same_matcher :: "('t, string) qp_env \<Rightarrow> 're uri_matcher \<Rightarrow> ('t, 're) qp_matcher \<Rightarrow> bool" where
  "same_matcher Q m n \<longleftrightarrow> um_inv m \<and>
     same_entries (prefix_entries (um_prefix m)) (qp_prefix_entries Q (qm_prefix n)) \<and>
     same_entries (suffix_entries (um_suffix m)) (qp_suffix_entries Q (qm_suffix n)) \<and>
     um_exact m = qm_exact n \<and> um_regex m = qm_regex n \<and> um_hash m = qm_hash n \<and> um_limits m = qm_limits n"

lemma map_filter_cong: "(\<And>i. i \<in> set xs \<Longrightarrow> f i = g i) \<Longrightarrow> List.map_filter f xs = List.map_filter g xs"
  by (induction xs) (auto simp: List.map_filter_simps split: option.split)

lemma scalars_taken: "list_all scalar cs \<Longrightarrow> list_all scalar (take i cs)"
  by (auto simp: list_all_iff dest: in_set_takeD)

lemma search_prefix_values:
  assumes "same_entries (prefix_entries t) (qp_prefix_entries Q u)" "utf8_valid x"
  shows "search_prefix t (utf8_chars x) = qp_search_prefix Q u x"
proof -
  let ?f = "qp_prefix_entries Q u" and ?cs = "utf8_chars x"
  have cs: "list_all scalar ?cs" using assms(2) valid_scalars by blast
  have "search_prefix t ?cs = List.map_filter (\<lambda>i. ?f (concat (take i ?cs))) [1..<Suc (length ?cs)]"
    using assms(1) scalars_taken[OF cs]
    by (simp add: search_prefix_def node_search_entries prefix_entries_def same_entries_def del: upt_Suc)
  also have "\<dots> = List.map_filter (\<lambda>i. ?f (take i (concat ?cs))) [1..<Suc (length (concat ?cs))]"
    using assms(1) chars_valid[OF assms(2)] chars_valid[OF assms(2), of "[]"]
    by (intro chunked_positions[where V = utf8_valid])
       (auto simp: same_entries_def scalar_append scalar_proper_prefix)
  finally show ?thesis by (simp add: qp_search_prefix_def qp_prefix_entries_def del: upt_Suc)
qed

lemma search_suffix_values:
  assumes "same_entries (suffix_entries t) (qp_suffix_entries Q u)" "utf8_valid x"
  shows "search_suffix t (utf8_chars x) = qp_search_suffix Q u x"
proof -
  let ?f = "qp_get Q (qt_trie u)" and ?cs = "rev (utf8_chars x)"
  let ?ds = "map rev ?cs"
  have cs: "list_all scalar ?cs" using assms(2) valid_scalars by (simp add: list_all_iff)
  have entry: "entry (st_root t) p = ?f (concat (map rev p))" if "list_all scalar p" for p
  proof -
    have "list_all scalar (rev p)" using that by (simp add: list_all_iff)
    then have "suffix_entries t (rev p) = qp_suffix_entries Q u (concat (rev p))"
      using assms(1) by (simp add: same_entries_def)
    then show ?thesis by (simp add: suffix_entries_def qp_suffix_entries_def rev_concat)
  qed
  have "search_suffix t (utf8_chars x) = List.map_filter (\<lambda>i. ?f (concat (take i ?ds))) [1..<Suc (length ?ds)]"
    using entry[OF scalars_taken[OF cs]]
    by (simp add: search_suffix_def node_search_entries take_map del: upt_Suc)
  also have "\<dots> = List.map_filter (\<lambda>i. ?f (take i (concat ?ds))) [1..<Suc (length (concat ?ds))]"
  proof (rule chunked_positions[where V = "\<lambda>p. utf8_valid (rev p)"])
    show "?f p = None" if "\<not> utf8_valid (rev p)" for p
      using assms(1) that by (simp add: same_entries_def qp_suffix_entries_def) (metis rev_rev_ident)
    show "[] \<notin> set ?ds" using cs by (auto simp: list_all_iff)
    fix d assume "d \<in> set ?ds"
    then have d: "scalar (rev d)" using cs by (auto simp: list_all_iff)
    show "utf8_valid (rev (d @ p)) \<longleftrightarrow> utf8_valid (rev p)" for p using scalar_appended[OF d] by simp
    show "\<not> utf8_valid (rev (take i d))" if "0 < i" "i < length d" for i
      using scalar_proper_suffix[OF d, of "length d - i"] that by (simp add: rev_take)
  qed
  also have "concat ?ds = rev x" by (metis concat_utf8_chars rev_concat)
  finally show ?thesis by (simp add: qp_search_suffix_def Let_def del: upt_Suc)
qed

lemma map_filter_nonempty: "List.map_filter f xs \<noteq> [] \<longleftrightarrow> list_ex (\<lambda>i. f i \<noteq> None) xs"
  by (induction xs) (auto simp: List.map_filter_simps split: option.splits)

lemma qp_contains_search: "qp_contains_prefix Q t x \<longleftrightarrow> qp_search_prefix Q t x \<noteq> []"
  by (simp only: qp_contains_prefix_def qp_search_prefix_def map_filter_nonempty)

lemma same_matcher_answers:
  assumes "same_matcher Q m n" "utf8_valid uri"
  shows "qm_get_matching_patterns Q is_match sha256 n uri = get_matching_patterns is_match sha256 m uri"
    and "qm_matches Q is_match sha256 n uri = um_matches is_match sha256 m uri"
proof -
  have s: "search_prefix (um_prefix m) (utf8_chars uri) = qp_search_prefix Q (qm_prefix n) uri"
    "search_suffix (um_suffix m) (utf8_chars uri) = qp_search_suffix Q (qm_suffix n) uri"
    using assms by (simp_all add: same_matcher_def search_prefix_values search_suffix_values)
  with assms show "qm_get_matching_patterns Q is_match sha256 n uri = get_matching_patterns is_match sha256 m uri"
    by (simp add: qm_get_matching_patterns_def get_matching_patterns_def same_matcher_def)
  have "qp_contains_suffix Q (qm_suffix n) uri \<longleftrightarrow> qp_search_suffix Q (qm_suffix n) uri \<noteq> []"
    by (simp only: qp_suffix_as_prefix qp_contains_search)
  with s assms show "qm_matches Q is_match sha256 n uri = um_matches is_match sha256 m uri"
    by (simp add: qm_matches_def um_matches_def same_matcher_def qp_contains_search)
qed

text \<open>The maps the matchers use hold strings.\<close>

locale qp_strings = qp_map Q for Q :: "('t, string) qp_env"
begin

lemma same_matcher_new: "same_matcher Q (um_with_limits l) (qm_with_limits Q l)"
  by (simp add: same_matcher_def same_entries_def um_with_limits_def qm_with_limits_def pt.entries_empty
      st.entries_empty qpre.entries_empty qsuf.entries_empty um_inv_def pt.inv_empty st.inv_empty)

lemma qp_prefix_upd: "qp_prefix_entries Q (qp_prefix_insert Q p v t) = (qp_prefix_entries Q t)(p \<mapsto> v)"
  by (auto simp: fun_eq_iff qp_prefix_entries_def qp_prefix_insert_def get_insert)

lemma qp_suffix_upd: "qp_suffix_entries Q (qp_suffix_insert Q p v t) = (qp_suffix_entries Q t)(p \<mapsto> v)"
  by (auto simp: fun_eq_iff qp_suffix_entries_def qp_suffix_insert_def get_insert)

lemma same_matcher_add:
  assumes "same_matcher Q m n" "pattern_text p"
  shows "case (add_pattern compile hexd p m, qm_add_pattern Q compile hexd p n) of
      (Inr m', Inr n') \<Rightarrow> same_matcher Q m' n'
    | (Inl e, Inl e') \<Rightarrow> e = e'
    | _ \<Rightarrow> False"
proof -
  have inv: "um_inv m" "prefix_inv (um_prefix m)" "suffix_inv (um_suffix m)"
    using assms by (auto simp: same_matcher_def um_inv_def)
  have pre: "prefix_entries (prefix_insert s v (um_prefix m)) = (prefix_entries (um_prefix m))(s \<mapsto> v)" for s v
    using pt.entries_ins[OF inv(2)] by (auto simp: fun_eq_iff)
  have suf: "suffix_entries (suffix_insert s v (um_suffix m)) = (suffix_entries (um_suffix m))(s \<mapsto> v)" for s v
    using st.entries_ins[OF inv(3)] by (auto simp: fun_eq_iff)
  have step: "um_inv m'" if "add_pattern compile hexd p m = Inr m'" for m'
    using um_inv_add[OF inv(1) that] by blast
  show ?thesis
    using assms step
    by (cases p) (auto simp: same_matcher_def pre suf qp_prefix_upd qp_suffix_upd same_entries_upd rbind_def split: sum.splits)
qed

lemma same_matcher_adds:
  "same_matcher Q m n \<Longrightarrow> \<forall>p \<in> set ps. pattern_text p \<Longrightarrow>
     (case (add_patterns compile hexd ps m, qm_add_patterns Q compile hexd ps n) of
        (Inr m', Inr n') \<Rightarrow> same_matcher Q m' n'
      | (Inl e, Inl e') \<Rightarrow> e = e'
      | _ \<Rightarrow> False)"
proof (induction ps arbitrary: m n)
  case (Cons p ps)
  show ?case
  proof (cases "add_pattern compile hexd p m")
    case (Inl e)
    then show ?thesis
      using same_matcher_add[OF Cons.prems(1), of p compile hexd] Cons.prems(2) by (simp split: sum.splits)
  next
    case (Inr m')
    then obtain n' where "qm_add_pattern Q compile hexd p n = Inr n'" "same_matcher Q m' n'"
      using same_matcher_add[OF Cons.prems(1), of p compile hexd] Cons.prems(2) by (auto split: sum.splits)
    then show ?thesis using Inr Cons.IH[of m' n'] Cons.prems(2) by simp
  qed
qed simp

end

interpretation lms: qp_strings list_map ..

text \<open>C21: the two features of the crate answer alike. The matcher over the \<open>qp-trie\<close> crate, which indexes
  bytes, and the one over the built-in tries, which index characters, given the same patterns under the
  same limits, fail to load with the same error or load both, and then report the same patterns, in the
  same order, for every URI. The prefix and suffix patterns and the URI are texts, as the type
  \<open>String\<close> guarantees.\<close>

theorem qp_matcher_agrees:
  assumes "qp_strings Q" "\<forall>p \<in> set ps. pattern_text p" "utf8_valid uri"
  shows "case (add_patterns compile hexd ps (um_with_limits l), qm_add_patterns Q compile hexd ps (qm_with_limits Q l)) of
      (Inr m, Inr n) \<Rightarrow>
        qm_get_matching_patterns Q is_match sha256 n uri = get_matching_patterns is_match sha256 m uri \<and>
        qm_matches Q is_match sha256 n uri = um_matches is_match sha256 m uri
    | (Inl e, Inl e') \<Rightarrow> e = e'
    | _ \<Rightarrow> False"
  using qp_strings.same_matcher_adds[OF assms(1) qp_strings.same_matcher_new[OF assms(1)] assms(2), of compile hexd l]
  by (auto simp: same_matcher_answers assms(3) split: sum.splits)

text \<open>The last character of the URI and of the second pattern takes two bytes.\<close>

definition two_patterns :: "uri_pattern list" where
  "two_patterns = [UpPrefix ''ab'', UpSuffix (map char_of [0xc3, 0xa9 :: nat]), UpPrefix ''a'']"

definition accented :: string where
  "accented = ''abb'' @ map char_of [0xc3, 0xa9 :: nat]"

theorem qp_matcher_agrees_witness:
  "\<exists>m n. add_patterns (\<lambda>p. Inl ''none'') (\<lambda>h. Inl ''none'') two_patterns um_new = Inr (m :: unit uri_matcher) \<and>
     qm_add_patterns list_map (\<lambda>p. Inl ''none'') (\<lambda>h. Inl ''none'') two_patterns (qm_new list_map) = Inr (n :: (_, unit) qp_matcher) \<and>
     qm_get_matching_patterns list_map (\<lambda>_ _. False) (\<lambda>_. []) n accented =
       get_matching_patterns (\<lambda>_ _. False) (\<lambda>_. []) m accented"
proof -
  have q: "qp_strings list_map" by unfold_locales
  have texts: "\<forall>p \<in> set two_patterns. pattern_text p" "utf8_valid accented"
    unfolding two_patterns_def accented_def by code_simp+
  have d: "qm_new Q = qm_with_limits Q uri_matcher_limits_default" for Q
    by (simp add: qm_new_def qp_limits_default_def uri_matcher_limits_default_def)
  obtain m :: "unit uri_matcher" where m: "add_patterns (\<lambda>p. Inl ''none'') (\<lambda>h. Inl ''none'') two_patterns um_new = Inr m"
    by (simp add: two_patterns_def)
  obtain n :: "((string \<times> string) list, unit) qp_matcher" where
    n: "qm_add_patterns list_map (\<lambda>p. Inl ''none'') (\<lambda>h. Inl ''none'') two_patterns (qm_new list_map) = Inr n"
    by (simp add: two_patterns_def)
  show ?thesis
    using qp_matcher_agrees[OF q texts, where compile = "\<lambda>p. Inl ''none'' :: string + unit" and hexd = "\<lambda>h. Inl ''none''"
        and l = uri_matcher_limits_default and is_match = "\<lambda>_ _. False"
        and ?sha256.0 = "\<lambda>_. []"] m n
    by (auto simp: um_new_def d)
qed

end
