(* ===== verification/Lru_Store.thy ===== *)
theory Lru_Store
  imports Dpop_Validator
begin

text \<open>
  The replay store that evicts: \<open>LruJtiStore\<close> of \<open>src/src/dpop.rs\<close>.

  It is shards of \<open>LruCache\<close>s of the \<open>lru\<close> crate. The operations of a cache are fields of \<open>lru_env\<close>
  and what is documented of them is the locale \<open>lru_cache\<close>, which says nothing of the order of
  eviction; a list of entries, the most recent first, provides it. The keyed hash that selects a
  shard is a parameter, a function of the byte strings written to it.

  Shown: the store refuses exactly the keys it holds and those too long; as long as its counter of
  premature evictions stands still it accepts no key twice within the freshness window.
\<close>

section \<open>The cache of the crate\<close>

record ('l, 'k, 'v) lru_env =
  lr_new :: "nat \<Rightarrow> 'l"
  lr_items :: "'l \<Rightarrow> ('k \<times> 'v) list"
  lr_get :: "'k \<Rightarrow> 'l \<Rightarrow> 'l \<times> 'v option"
  lr_push :: "'k \<Rightarrow> 'v \<Rightarrow> 'l \<Rightarrow> 'l \<times> ('k \<times> 'v) option"
  lr_pop :: "'k \<Rightarrow> 'l \<Rightarrow> 'l"

text \<open>\<open>contains\<close> and \<open>peek\<close> leave the order alone. \<open>push\<close> returns the entry it replaced or evicted;
  \<open>put\<close> is \<open>push\<close> with another result.\<close>

definition lr_peek :: "('l, 'k, 'v) lru_env \<Rightarrow> 'l \<Rightarrow> 'k \<Rightarrow> 'v option" where
  "lr_peek L l = map_of (lr_items L l)"

locale lru_cache =
  fixes L :: "('l, 'k, 'v) lru_env" and cap :: "'l \<Rightarrow> nat" and good :: "'l \<Rightarrow> bool"
  assumes new: "0 < n \<Longrightarrow> good (lr_new L n) \<and> lr_items L (lr_new L n) = [] \<and> cap (lr_new L n) = n"
    and good: "good l \<Longrightarrow> distinct (map fst (lr_items L l)) \<and> length (lr_items L l) \<le> cap l"
    and get: "good l \<Longrightarrow> good (fst (lr_get L k l)) \<and> cap (fst (lr_get L k l)) = cap l \<and>
      set (lr_items L (fst (lr_get L k l))) = set (lr_items L l) \<and> snd (lr_get L k l) = lr_peek L l k"
    and push: "good l \<Longrightarrow> good (fst (lr_push L k v l)) \<and> cap (fst (lr_push L k v l)) = cap l"
    and push_held: "good l \<Longrightarrow> lr_peek L l k = Some w \<Longrightarrow> snd (lr_push L k v l) = Some (k, w) \<and>
      set (lr_items L (fst (lr_push L k v l))) = insert (k, v) (set (lr_items L l) - {(k, w)})"
    and push_room: "good l \<Longrightarrow> lr_peek L l k = None \<Longrightarrow> length (lr_items L l) < cap l \<Longrightarrow>
      snd (lr_push L k v l) = None \<and>
      set (lr_items L (fst (lr_push L k v l))) = insert (k, v) (set (lr_items L l))"
    and push_full: "good l \<Longrightarrow> lr_peek L l k = None \<Longrightarrow> length (lr_items L l) = cap l \<Longrightarrow>
      \<exists>e \<in> set (lr_items L l). snd (lr_push L k v l) = Some e \<and>
        set (lr_items L (fst (lr_push L k v l))) = insert (k, v) (set (lr_items L l) - {e})"
    and pop: "good l \<Longrightarrow> good (lr_pop L k l) \<and> cap (lr_pop L k l) = cap l \<and>
      set (lr_items L (lr_pop L k l)) = {e \<in> set (lr_items L l). fst e \<noteq> k}"
begin

lemma peek_in: "good l \<Longrightarrow> lr_peek L l k = Some v \<longleftrightarrow> (k, v) \<in> set (lr_items L l)"
  using good by (simp add: lr_peek_def)

lemma push_in: "good l \<Longrightarrow> (k, v) \<in> set (lr_items L (fst (lr_push L k v l)))"
  using push_held push_room push_full good[of l]
  by (cases "lr_peek L l k"; cases "length (lr_items L l) < cap l") fastforce+

lemma push_items: "good l \<Longrightarrow> set (lr_items L (fst (lr_push L k v l))) \<subseteq> insert (k, v) (set (lr_items L l))"
  using push_held push_room push_full good[of l]
  by (cases "lr_peek L l k"; cases "length (lr_items L l) < cap l") fastforce+

text \<open>What a push of a new key loses is what it returns.\<close>

lemma push_lost:
  assumes "good l" "lr_peek L l k = None" "e \<in> set (lr_items L l)"
    and "e \<notin> set (lr_items L (fst (lr_push L k v l)))"
  shows "snd (lr_push L k v l) = Some e"
proof (cases "length (lr_items L l) < cap l")
  case True
  then show ?thesis using push_room[OF assms(1,2), of v] assms(3,4) by auto
next
  case False
  then have "length (lr_items L l) = cap l" using good[OF assms(1)] by simp
  then show ?thesis using push_full[OF assms(1,2), of v] assms(3,4) by auto
qed

end

section \<open>A list as a cache\<close>

type_synonym ('k, 'v) lru_list = "nat \<times> ('k \<times> 'v) list"

definition without :: "'k \<Rightarrow> ('k \<times> 'v) list \<Rightarrow> ('k \<times> 'v) list" where
  "without k xs = filter (\<lambda>e. fst e \<noteq> k) xs"

definition list_cache :: "(('k, 'v) lru_list, 'k, 'v) lru_env" where
  "list_cache =
     \<lparr>lr_new = (\<lambda>n. (n, [])), lr_items = snd,
      lr_get = (\<lambda>k (n, xs). case map_of xs k of
         Some v \<Rightarrow> ((n, (k, v) # without k xs), Some v) | None \<Rightarrow> ((n, xs), None)),
      lr_push = (\<lambda>k v (n, xs). case map_of xs k of
         Some w \<Rightarrow> ((n, (k, v) # without k xs), Some (k, w))
       | None \<Rightarrow> if length xs < n then ((n, (k, v) # xs), None)
                 else ((n, (k, v) # butlast xs), Some (last xs))),
      lr_pop = (\<lambda>k (n, xs). (n, without k xs))\<rparr>"

definition list_cache_good :: "('k, 'v) lru_list \<Rightarrow> bool" where
  "list_cache_good l \<longleftrightarrow> 0 < fst l \<and> distinct (map fst (snd l)) \<and> length (snd l) \<le> fst l"

lemma set_without: "set (without k xs) = {e \<in> set xs. fst e \<noteq> k}"
  by (auto simp: without_def)

lemma without_held:
  assumes "distinct (map fst xs)" "map_of xs k = Some w"
  shows "set (without k xs) = set xs - {(k, w)}" and "Suc (length (without k xs)) = length xs"
proof -
  show 1: "set (without k xs) = set xs - {(k, w)}"
    using assms by (auto simp: set_without dest: eq_key_imp_eq_value map_of_SomeD)
  have "distinct xs" "distinct (without k xs)" using assms(1) by (auto simp: without_def distinct_map)
  moreover have "(k, w) \<in> set xs" using assms(2) by (rule map_of_SomeD)
  ultimately show "Suc (length (without k xs)) = length xs"
    using 1 by (metis card_Suc_Diff1 distinct_card finite_set)
qed

lemma distinct_without: "distinct (map fst xs) \<Longrightarrow> distinct (map fst (without k xs))"
  by (simp add: without_def distinct_map_filter)

lemma without_key: "k \<notin> fst ` set (without k xs)"
  by (auto simp: set_without)

lemma set_butlast_distinct: "distinct xs \<Longrightarrow> xs \<noteq> [] \<Longrightarrow> set (butlast xs) = set xs - {last xs}"
  by (induction xs rule: rev_induct) auto

interpretation lc: lru_cache list_cache fst list_cache_good
proof (unfold_locales, goal_cases)
  case (1 n)
  then show ?case by (simp add: list_cache_def list_cache_good_def)
next
  case (2 l)
  then show ?case by (simp add: list_cache_def list_cache_good_def)
next
  case (3 l k)
  obtain n xs where l: "l = (n, xs)" by (cases l)
  have g: "0 < n" "distinct (map fst xs)" "length xs \<le> n" using 3 l by (simp_all add: list_cache_good_def)
  show ?case
  proof (cases "map_of xs k")
    case None
    then show ?thesis using g l by (simp add: list_cache_def list_cache_good_def lr_peek_def)
  next
    case (Some w)
    have "(k, w) \<in> set xs" using Some by (rule map_of_SomeD)
    then have "set ((k, w) # without k xs) = set xs" using without_held(1)[OF g(2) Some] by auto
    then show ?thesis
      using Some g l without_held(2)[OF g(2) Some] distinct_without[OF g(2), of k] without_key[of k xs]
      by (simp add: list_cache_def list_cache_good_def lr_peek_def)
  qed
next
  case (4 l k v)
  obtain n xs where l: "l = (n, xs)" by (cases l)
  have g: "0 < n" "distinct (map fst xs)" "length xs \<le> n" using 4 l by (simp_all add: list_cache_good_def)
  show ?case
  proof (cases "map_of xs k")
    case None
    then have "k \<notin> fst ` set xs" by (simp add: map_of_eq_None_iff)
    moreover have "k \<notin> fst ` set (butlast xs)" using calculation by (auto dest: in_set_butlastD)
    moreover have "distinct (map fst (butlast xs))" using g(2) by (simp add: map_butlast distinct_butlast)
    ultimately show ?thesis using None g l by (auto simp: list_cache_def list_cache_good_def)
  next
    case (Some w)
    then show ?thesis
      using g l without_held(2)[OF g(2) Some] distinct_without[OF g(2), of k] without_key[of k xs]
      by (simp add: list_cache_def list_cache_good_def)
  qed
next
  case (5 l k w v)
  then show ?case
    using without_held[of "snd l" k]
    by (cases l) (auto simp: list_cache_def list_cache_good_def lr_peek_def)
next
  case (6 l k v)
  then show ?case
    by (cases l) (auto simp: list_cache_def list_cache_good_def lr_peek_def)
next
  case (7 l k v)
  then have l: "snd l \<noteq> []" "distinct (snd l)" "map_of (snd l) k = None" "length (snd l) = fst l"
    by (auto simp: list_cache_def list_cache_good_def lr_peek_def distinct_map)
  then show ?case
    using set_butlast_distinct[OF l(2,1)]
    by (cases l) (auto simp: list_cache_def intro!: bexI[of _ "last (snd l)"])
next
  case (8 l k)
  then show ?case
    using length_filter_le[of "\<lambda>e. fst e \<noteq> k" "snd l"] distinct_without[of "snd l" k]
    by (cases l) (auto simp: list_cache_def list_cache_good_def set_without without_def
        intro: order_trans[OF length_filter_le])
qed

section \<open>The evicting replay store\<close>

record 'l lru_store =
  ls_shards :: "'l list"
  ls_premature :: nat
  ls_window :: int

definition lru_with_shards_and_window ::
  "('l, string, int) lru_env \<Rightarrow> nat \<Rightarrow> nat \<Rightarrow> int \<Rightarrow> 'l lru_store" where
  "lru_with_shards_and_window L capacity shards window =
     \<lparr>ls_shards = map (lr_new L) (lru_shard_capacities capacity shards), ls_premature = 0, ls_window = window\<rparr>"

definition lru_with_shards :: "('l, string, int) lru_env \<Rightarrow> nat \<Rightarrow> nat \<Rightarrow> 'l lru_store" where
  "lru_with_shards L capacity shards = lru_with_shards_and_window L capacity shards 300"

definition lru_new :: "('l, string, int) lru_env \<Rightarrow> nat \<Rightarrow> 'l lru_store" where
  "lru_new L capacity = lru_with_shards_and_window L capacity default_jti_shards 300"

text \<open>The hasher is fed the text before the first colon, a separator, and the whole key.\<close>

definition lru_shard :: "(string list \<Rightarrow> nat) \<Rightarrow> string \<Rightarrow> 'l lru_store \<Rightarrow> nat" where
  "lru_shard hash key s =
     hash [takeWhile (\<lambda>c. c \<noteq> CHR '':'') key, [CHR 0xff], key] mod length (ls_shards s)"

definition lru_check_and_insert ::
  "('l, string, int) lru_env \<Rightarrow> (string list \<Rightarrow> nat) \<Rightarrow> int \<Rightarrow> string \<Rightarrow> int \<Rightarrow> 'l lru_store \<Rightarrow>
     'l lru_store \<times> unit result" where
  "lru_check_and_insert L hash now key iat s =
     (if length key > max_jti_length_bytes then (s, Inl (DpopValidationFailed ''JTI exceeds ''))
      else
        let i = lru_shard hash key s; cache = ls_shards s ! i
        in if lr_peek L cache key \<noteq> None then (s, Inl ReplayAttackDetected)
           else case lr_push L key iat cache of
             (cache', out) \<Rightarrow>
               (s\<lparr>ls_shards := (ls_shards s)[i := cache'],
                  ls_premature := (case out of
                      Some (_, evicted_iat) \<Rightarrow>
                        if saturating_i64 (now - evicted_iat) < ls_window s then ls_premature s + 1
                        else ls_premature s
                    | None \<Rightarrow> ls_premature s)\<rparr>, Inr ()))"

definition lru_len :: "('l, string, int) lru_env \<Rightarrow> 'l lru_store \<Rightarrow> nat" where
  "lru_len L s = sum_list (map (\<lambda>c. length (lr_items L c)) (ls_shards s))"

text \<open>\<open>now - iat\<close> is an unchecked subtraction of 64-bit integers, which wraps in a release build.\<close>

definition wrap_i64 :: "int \<Rightarrow> int" where
  "wrap_i64 n = (n + 2 ^ 63) mod 2 ^ 64 - 2 ^ 63"

definition lru_cleanup :: "('l, string, int) lru_env \<Rightarrow> int \<Rightarrow> int \<Rightarrow> 'l lru_store \<Rightarrow> 'l lru_store" where
  "lru_cleanup L now max_age s =
     s\<lparr>ls_shards := map (\<lambda>c.
         let expired = map fst (filter (\<lambda>(_, iat). wrap_i64 (now - iat) \<ge> max_age) (lr_items L c))
         in fold (lr_pop L) expired c) (ls_shards s)\<rparr>"

definition lru_ops :: "('l, string, int) lru_env \<Rightarrow> (string list \<Rightarrow> nat) \<Rightarrow> int \<Rightarrow> 'l lru_store store_ops" where
  "lru_ops L hash now =
     \<lparr>st_insert = lru_check_and_insert L hash now, st_len = lru_len L, st_cleanup = lru_cleanup L now,
      st_premature = ls_premature, st_is_strict = False\<rparr>"

section \<open>What the counter of premature evictions tells\<close>

datatype lru_event = LruInsert int string int | LruCleanup int int

fun lru_event_run ::
  "('l, string, int) lru_env \<Rightarrow> (string list \<Rightarrow> nat) \<Rightarrow> lru_event \<Rightarrow> 'l lru_store \<Rightarrow> 'l lru_store \<times> bool" where
  "lru_event_run L hash (LruInsert now key iat) s = map_prod id is_ok (lru_check_and_insert L hash now key iat s)"
| "lru_event_run L hash (LruCleanup now age) s = (lru_cleanup L now age s, False)"

fun event_clock :: "lru_event \<Rightarrow> int" where
  "event_clock (LruInsert now key iat) = now"
| "event_clock (LruCleanup now age) = now"

text \<open>Insertions of 64-bit issue times, and cleanups that spare the freshness window.\<close>

fun event_ok :: "int \<Rightarrow> lru_event \<Rightarrow> bool" where
  "event_ok w (LruInsert now key iat) \<longleftrightarrow> in_i64 iat"
| "event_ok w (LruCleanup now age) \<longleftrightarrow> w \<le> age \<and> 0 \<le> now"

text \<open>A later acceptance of the same key finds the earlier one older than the window.\<close>

fun fresh_apart :: "int \<Rightarrow> lru_event \<Rightarrow> lru_event \<Rightarrow> bool" where
  "fresh_apart w (LruInsert now key iat) (LruInsert now' key' iat') \<longleftrightarrow> (key = key' \<longrightarrow> w \<le> now' - iat)"
| "fresh_apart w _ _ \<longleftrightarrow> True"

definition lru_inv ::
  "('l, string, int) lru_env \<Rightarrow> ('l \<Rightarrow> bool) \<Rightarrow> (string list \<Rightarrow> nat) \<Rightarrow> 'l lru_store \<Rightarrow> bool" where
  "lru_inv L ok hash s \<longleftrightarrow> ls_shards s \<noteq> [] \<and>
     (\<forall>i < length (ls_shards s). ok (ls_shards s ! i) \<and>
        (\<forall>e \<in> set (lr_items L (ls_shards s ! i)). lru_shard hash (fst e) s = i))"

definition lru_held :: "('l, string, int) lru_env \<Rightarrow> (string list \<Rightarrow> nat) \<Rightarrow> 'l lru_store \<Rightarrow> string \<Rightarrow> int \<Rightarrow> bool" where
  "lru_held L hash s key iat \<longleftrightarrow> (key, iat) \<in> set (lr_items L (ls_shards s ! lru_shard hash key s))"

text \<open>Every accepted key is held, or older than the window by now.\<close>

fun remembered ::
  "('l, string, int) lru_env \<Rightarrow> (string list \<Rightarrow> nat) \<Rightarrow> int \<Rightarrow> 'l lru_store \<Rightarrow> lru_event \<Rightarrow> bool" where
  "remembered L hash now s (LruInsert t key iat) \<longleftrightarrow> lru_held L hash s key iat \<or> ls_window s \<le> now - iat"
| "remembered L hash now s _ \<longleftrightarrow> True"

lemma lru_shard_less: "lru_inv L ok hash s \<Longrightarrow> lru_shard hash key s < length (ls_shards s)"
  by (simp add: lru_inv_def lru_shard_def)

lemma lru_shard_cong: "length (ls_shards s') = length (ls_shards s) \<Longrightarrow> lru_shard hash key s' = lru_shard hash key s"
  by (simp add: lru_shard_def)

lemma saturating_ge: "0 \<le> w \<Longrightarrow> w \<le> saturating_i64 n \<Longrightarrow> w \<le> n"
  by (simp add: saturating_i64_def i64_min_def split: if_splits)

lemma wrap_ge:
  assumes "0 \<le> now" "in_i64 iat" "w \<le> wrap_i64 (now - iat)"
  shows "w \<le> now - iat"
proof -
  have "(now - iat + 2 ^ 63) mod 2 ^ 64 \<le> now - iat + 2 ^ 63"
    using assms(1,2) by (intro zmod_le_nonneg_dividend) (simp add: in_i64_def i64_max_def)
  then show ?thesis using assms(3) by (simp add: wrap_i64_def)
qed

lemma fold_keeps:
  "P s \<Longrightarrow> (\<And>x s. x \<in> set xs \<Longrightarrow> P s \<Longrightarrow> P (f x s)) \<Longrightarrow> P (fold f xs s)"
  by (induction xs arbitrary: s) auto

context lru_cache
begin

lemma fold_pop:
  "good l \<Longrightarrow> good (fold (lr_pop L) ks l) \<and>
     set (lr_items L (fold (lr_pop L) ks l)) = {e \<in> set (lr_items L l). fst e \<notin> set ks}"
proof (induction ks arbitrary: l)
  case (Cons k ks)
  then show ?case using pop[OF Cons.prems, of k] by auto
qed simp

end

text \<open>The caches of the store hold issue times under keys.\<close>

locale jti_cache = lru_cache L cap good
  for L :: "('l, string, int) lru_env" and cap :: "'l \<Rightarrow> nat" and good :: "'l \<Rightarrow> bool"
begin

lemma lru_insert_result:
  assumes "lru_inv L good hash s"
  shows "snd (lru_check_and_insert L hash now key iat s) = Inr () \<longleftrightarrow>
     length key \<le> max_jti_length_bytes \<and> (\<forall>i. \<not> lru_held L hash s key i)"
proof -
  have "good (ls_shards s ! lru_shard hash key s)"
    using assms lru_shard_less[OF assms] by (simp add: lru_inv_def)
  then have "lr_peek L (ls_shards s ! lru_shard hash key s) key = None \<longleftrightarrow> (\<forall>i. \<not> lru_held L hash s key i)"
    using peek_in by (metis lru_held_def not_Some_eq)
  then show ?thesis by (auto simp: lru_check_and_insert_def Let_def split: prod.split)
qed

lemma lru_insert_error:
  "snd (lru_check_and_insert L hash now key iat s) = Inl e \<Longrightarrow> fst (lru_check_and_insert L hash now key iat s) = s"
  by (auto simp: lru_check_and_insert_def Let_def split: if_splits prod.splits)

lemma lru_insert_ok:
  assumes inv: "lru_inv L good hash s" and ok: "snd (lru_check_and_insert L hash now key iat s) = Inr ()"
  defines "s' \<equiv> fst (lru_check_and_insert L hash now key iat s)"
  shows "lru_inv L good hash s'" "ls_window s' = ls_window s" "ls_premature s \<le> ls_premature s'"
    "lru_held L hash s' key iat"
    "lru_held L hash s k i \<Longrightarrow> lru_held L hash s' k i \<or> ls_premature s' = Suc (ls_premature s) \<or>
       ls_window s \<le> saturating_i64 (now - i)"
    "lru_held L hash s' k i \<Longrightarrow> k = key \<or> lru_held L hash s k i"
proof -
  let ?j = "lru_shard hash key s" and ?c = "ls_shards s ! lru_shard hash key s"
  let ?c' = "fst (lr_push L key iat ?c)"
  have j: "?j < length (ls_shards s)" by (rule lru_shard_less[OF inv])
  then have c: "good ?c" using inv by (simp add: lru_inv_def)
  have none: "lr_peek L ?c key = None"
    using ok by (auto simp: lru_check_and_insert_def Let_def split: if_splits)
  have short: "\<not> max_jti_length_bytes < length key"
    using ok by (auto simp: lru_check_and_insert_def)
  have s': "ls_shards s' = (ls_shards s)[?j := ?c']" "ls_window s' = ls_window s"
    "ls_premature s' = (case snd (lr_push L key iat ?c) of
        Some (_, i) \<Rightarrow> if saturating_i64 (now - i) < ls_window s then ls_premature s + 1 else ls_premature s
      | None \<Rightarrow> ls_premature s)"
    by (simp_all add: s'_def lru_check_and_insert_def Let_def none short case_prod_beta)
  have sh: "lru_shard hash k s' = lru_shard hash k s" for k by (rule lru_shard_cong) (simp add: s'(1))
  show "ls_window s' = ls_window s" by (rule s'(2))
  show "ls_premature s \<le> ls_premature s'" by (simp add: s'(3) split: option.split prod.split)
  show "lru_held L hash s' key iat" using push_in[OF c] j by (simp add: lru_held_def sh s'(1))
  show "lru_inv L good hash s'"
    unfolding lru_inv_def
  proof (intro conjI allI impI)
    show "ls_shards s' \<noteq> []" using inv by (simp add: lru_inv_def s'(1))
    fix i assume i: "i < length (ls_shards s')"
    show "good (ls_shards s' ! i)"
      using i inv push[OF c] by (cases "i = ?j") (simp_all add: s'(1) lru_inv_def)
    show "\<forall>e \<in> set (lr_items L (ls_shards s' ! i)). lru_shard hash (fst e) s' = i"
    proof (cases "i = ?j")
      case True
      have "\<forall>e \<in> set (lr_items L ?c). lru_shard hash (fst e) s = ?j" using inv j by (simp add: lru_inv_def)
      then have "\<forall>e \<in> set (lr_items L ?c'). lru_shard hash (fst e) s = ?j"
        using push_items[OF c, of key iat] by fastforce
      then show ?thesis using True j by (simp add: s'(1) sh)
    next
      case False
      then show ?thesis using i inv by (simp add: s'(1) sh lru_inv_def)
    qed
  qed
  show "lru_held L hash s' k i \<Longrightarrow> k = key \<or> lru_held L hash s k i"
    using j push_items[OF c, of key iat]
    by (cases "lru_shard hash k s = ?j") (auto simp: lru_held_def sh s'(1))
  assume h: "lru_held L hash s k i"
  show "lru_held L hash s' k i \<or> ls_premature s' = Suc (ls_premature s) \<or> ls_window s \<le> saturating_i64 (now - i)"
  proof (cases "lru_shard hash k s = ?j \<and> (k, i) \<notin> set (lr_items L ?c')")
    case True
    then have "snd (lr_push L key iat ?c) = Some (k, i)"
      using push_lost[OF c none, of "(k, i)" iat] h by (simp add: lru_held_def)
    then show ?thesis by (auto simp: s'(3))
  next
    case False
    then show ?thesis using h j by (auto simp: lru_held_def sh s'(1) nth_list_update)
  qed
qed

lemma lru_cleanup_keeps:
  assumes "lru_inv L good hash s"
  shows "lru_inv L good hash (lru_cleanup L now age s)" "ls_window (lru_cleanup L now age s) = ls_window s"
    "ls_premature (lru_cleanup L now age s) = ls_premature s"
    "lru_held L hash s k i \<Longrightarrow> lru_held L hash (lru_cleanup L now age s) k i \<or> age \<le> wrap_i64 (now - i)"
proof -
  let ?clean = "\<lambda>c. fold (lr_pop L) (map fst (filter (\<lambda>(_, iat). wrap_i64 (now - iat) \<ge> age) (lr_items L c))) c"
  have s': "ls_shards (lru_cleanup L now age s) = map ?clean (ls_shards s)"
    by (simp add: lru_cleanup_def Let_def)
  have sh: "lru_shard hash k (lru_cleanup L now age s) = lru_shard hash k s" for k
    by (rule lru_shard_cong) (simp add: s')
  show "lru_inv L good hash (lru_cleanup L now age s)"
    unfolding lru_inv_def
  proof (intro conjI allI impI)
    show "ls_shards (lru_cleanup L now age s) \<noteq> []" using assms by (simp add: lru_inv_def s')
    fix j assume j: "j < length (ls_shards (lru_cleanup L now age s))"
    then have g: "good (ls_shards s ! j)" using assms by (simp add: lru_inv_def s')
    from fold_pop[OF g] j assms
    show "good (ls_shards (lru_cleanup L now age s) ! j)"
      and "\<forall>e \<in> set (lr_items L (ls_shards (lru_cleanup L now age s) ! j)). lru_shard hash (fst e) (lru_cleanup L now age s) = j"
      by (simp_all add: s' sh lru_inv_def)
  qed
  show "ls_window (lru_cleanup L now age s) = ls_window s" "ls_premature (lru_cleanup L now age s) = ls_premature s"
    by (simp_all add: lru_cleanup_def)
  assume h: "lru_held L hash s k i"
  have j: "lru_shard hash k s < length (ls_shards s)" by (rule lru_shard_less[OF assms])
  let ?c = "ls_shards s ! lru_shard hash k s"
  have c: "good ?c" using assms j by (simp add: lru_inv_def)
  have in_c: "(k, i) \<in> set (lr_items L ?c)" using h by (simp add: lru_held_def)
  have uniq: "i' = i" if "(k, i') \<in> set (lr_items L ?c)" for i'
    using good[OF c] in_c that by (auto dest: eq_key_imp_eq_value)
  show "lru_held L hash (lru_cleanup L now age s) k i \<or> age \<le> wrap_i64 (now - i)"
  proof (cases "age \<le> wrap_i64 (now - i)")
    case False
    then have "k \<notin> set (map fst (filter (\<lambda>(_, iat). wrap_i64 (now - iat) \<ge> age) (lr_items L ?c)))"
      using uniq by auto
    then have "(k, i) \<in> set (lr_items L (?clean ?c))" using fold_pop[OF c] in_c by simp
    then show ?thesis using j by (simp only: lru_held_def sh s' nth_map simp_thms)
  qed simp
qed

end

context jti_cache
begin

text \<open>One event, seen from the keys accepted before it.\<close>

lemma remembered_step:
  assumes inv: "lru_inv L good hash s" and w: "0 \<le> ls_window s" and e: "event_ok (ls_window s) e"
    and quiet: "ls_premature (fst (lru_event_run L hash e s)) = ls_premature s"
    and clock: "now \<le> event_clock e" and a: "event_ok (ls_window s) a" "remembered L hash now s a"
  shows "remembered L hash (event_clock e) (fst (lru_event_run L hash e s)) a"
proof (cases a)
  case (LruInsert t k i)
  show ?thesis
  proof (cases e)
    case ins: (LruInsert n key iat)
    show ?thesis
    proof (cases "snd (lru_check_and_insert L hash n key iat s)")
      case (Inl er)
      then show ?thesis using a(2) clock LruInsert ins lru_insert_error[OF Inl] by auto
    next
      case (Inr u)
      then have ok: "snd (lru_check_and_insert L hash n key iat s) = Inr ()" by simp
      note st = lru_insert_ok[OF inv ok]
      show ?thesis
        using a(2) clock quiet LruInsert ins st(2) st(5)[of k i] saturating_ge[OF w, of "n - i"] by auto
    qed
  next
    case (LruCleanup n age)
    note st = lru_cleanup_keeps[OF inv, where now = n and age = age]
    show ?thesis
      using a clock e LruInsert LruCleanup st(2) st(4)[where k = k and i = i] wrap_ge[of n i age] by auto
  qed
qed simp

lemma event_inv:
  assumes "lru_inv L good hash s"
  shows "lru_inv L good hash (fst (lru_event_run L hash e s)) \<and>
    ls_window (fst (lru_event_run L hash e s)) = ls_window s \<and>
    ls_premature s \<le> ls_premature (fst (lru_event_run L hash e s))"
proof (cases e)
  case (LruInsert n key iat)
  show ?thesis
  proof (cases "snd (lru_check_and_insert L hash n key iat s)")
    case (Inl er)
    then show ?thesis using assms LruInsert lru_insert_error[OF Inl] by simp
  next
    case (Inr u)
    then have "snd (lru_check_and_insert L hash n key iat s) = Inr ()" by simp
    then show ?thesis using LruInsert lru_insert_ok(1-3)[OF assms] by simp
  qed
next
  case (LruCleanup n age)
  then show ?thesis using lru_cleanup_keeps(1-3)[OF assms, where now = n and age = age] by simp
qed

lemma run_premature:
  "lru_inv L good hash s \<Longrightarrow> ls_premature s \<le> ls_premature (fst (filter_run (lru_event_run L hash) es s))"
proof (induction es arbitrary: s)
  case (Cons e es)
  from event_inv[OF Cons.prems, of e] Cons.IH[of "fst (lru_event_run L hash e s)"] show ?case
    by (simp add: case_prod_beta Let_def)
qed simp

lemma lru_accepted_step:
  assumes inv: "lru_inv L good hash s" and ok: "snd (lru_event_run L hash e s)"
  shows "now \<le> event_clock e \<Longrightarrow> remembered L hash now s a \<Longrightarrow> fresh_apart (ls_window s) a e"
    and "remembered L hash (event_clock e) (fst (lru_event_run L hash e s)) e"
proof -
  obtain n key iat where e: "e = LruInsert n key iat" and r: "snd (lru_check_and_insert L hash n key iat s) = Inr ()"
    using ok by (cases e) (auto simp: is_ok_iff)
  show "remembered L hash (event_clock e) (fst (lru_event_run L hash e s)) e"
    using lru_insert_ok(4)[OF inv r] by (simp add: e)
  assume "now \<le> event_clock e" "remembered L hash now s a"
  then show "fresh_apart (ls_window s) a e"
    using r unfolding lru_insert_result[OF inv] by (cases a) (auto simp: e)
qed

lemma quiet_run:
  assumes "lru_inv L good hash s" "0 \<le> ls_window s" "\<forall>e \<in> set es. event_ok (ls_window s) e"
    and "sorted_wrt (\<lambda>a b. event_clock a \<le> event_clock b) es" "\<forall>e \<in> set es. now \<le> event_clock e"
    and "ls_premature (fst (filter_run (lru_event_run L hash) es s)) = ls_premature s"
    and "\<forall>a \<in> A. event_ok (ls_window s) a \<and> remembered L hash now s a"
  shows "sorted_wrt (fresh_apart (ls_window s)) (snd (filter_run (lru_event_run L hash) es s)) \<and>
    (\<forall>a \<in> A. \<forall>e \<in> set (snd (filter_run (lru_event_run L hash) es s)). fresh_apart (ls_window s) a e)"
  using assms
proof (induction es arbitrary: s now A)
  case (Cons e es)
  let ?s1 = "fst (lru_event_run L hash e s)"
  have inv1: "lru_inv L good hash ?s1" "ls_window ?s1 = ls_window s" "ls_premature s \<le> ls_premature ?s1"
    using event_inv[OF Cons.prems(1), of e] by auto
  have rest: "fst (filter_run (lru_event_run L hash) (e # es) s) = fst (filter_run (lru_event_run L hash) es ?s1)"
    by (simp add: case_prod_beta Let_def)
  have quiet: "ls_premature ?s1 = ls_premature s"
    "ls_premature (fst (filter_run (lru_event_run L hash) es ?s1)) = ls_premature ?s1"
    using run_premature[OF inv1(1), of es] inv1(3) Cons.prems(6) unfolding rest by linarith+
  have clock: "now \<le> event_clock e" using Cons.prems(5) by simp
  have old: "remembered L hash (event_clock e) ?s1 a" if "a \<in> A" for a
    using remembered_step[OF Cons.prems(1,2) _ quiet(1) clock, of a] Cons.prems(3,7) that by auto
  define B where "B = (if snd (lru_event_run L hash e s) then insert e A else A)"
  have B: "\<forall>a \<in> B. event_ok (ls_window ?s1) a \<and> remembered L hash (event_clock e) ?s1 a"
    using old Cons.prems(3,7) lru_accepted_step(2)[OF Cons.prems(1)] inv1(2) by (auto simp: B_def)
  have IH: "sorted_wrt (fresh_apart (ls_window ?s1)) (snd (filter_run (lru_event_run L hash) es ?s1)) \<and>
    (\<forall>a \<in> B. \<forall>e \<in> set (snd (filter_run (lru_event_run L hash) es ?s1)). fresh_apart (ls_window ?s1) a e)"
    by (rule Cons.IH[OF inv1(1) _ _ _ _ quiet(2) B]) (use Cons.prems inv1(2) in auto)
  show ?case
  proof (cases "snd (lru_event_run L hash e s)")
    case True
    have "fresh_apart (ls_window s) a e" if "a \<in> A" for a
      using lru_accepted_step(1)[OF Cons.prems(1) True clock] Cons.prems(7) that by blast
    then show ?thesis using IH True inv1(2) by (auto simp: B_def case_prod_beta Let_def)
  next
    case False
    then show ?thesis using IH inv1(2) by (auto simp: B_def case_prod_beta Let_def)
  qed
qed simp

lemma lru_inv_new: "lru_inv L good hash (lru_with_shards_and_window L capacity shards window)"
proof -
  let ?caps = "lru_shard_capacities capacity shards"
  have "?caps ! i > 0" if "i < length ?caps" for i
    using that by (simp add: lru_shard_capacities_def Let_def)
  then have "good (lr_new L (?caps ! i)) \<and> lr_items L (lr_new L (?caps ! i)) = []" if "i < length ?caps" for i
    using new that by blast
  moreover have "?caps \<noteq> []"
    by (simp add: lru_shard_capacities_def Let_def clamp_def min_jti_cache_size_def max_jti_cache_size_def
        less_max_iff_disj)
  ultimately show ?thesis by (simp add: lru_inv_def lru_with_shards_and_window_def)
qed

lemma lru_new_empty: "\<not> lru_held L hash (lru_with_shards_and_window L capacity shards window) k i"
proof -
  let ?s = "lru_with_shards_and_window L capacity shards window"
  have j: "lru_shard hash k ?s < length (lru_shard_capacities capacity shards)"
    using lru_shard_less[OF lru_inv_new] by (simp add: lru_with_shards_and_window_def)
  then have "lru_shard_capacities capacity shards ! lru_shard hash k ?s > 0"
    by (simp add: lru_shard_capacities_def Let_def)
  from new[OF this] j show ?thesis by (simp add: lru_held_def lru_with_shards_and_window_def)
qed

end

interpretation jc: jti_cache list_cache fst list_cache_good ..

text \<open>C19: the counter of premature evictions is a sound health check of the evicting store. Over any
  history of insertions and cleanups in the order of the clock, with issue times in range and
  cleanups that spare the freshness window: if the counter stood still, no key was accepted twice
  within the window of its first issue time, whatever the hash and whichever entries were evicted.\<close>

theorem lru_quiet_no_replay:
  assumes "jti_cache L cap good" "0 \<le> window"
    and "\<forall>e \<in> set es. event_ok window e" "sorted_wrt (\<lambda>a b. event_clock a \<le> event_clock b) es"
    and "ls_premature (fst (filter_run (lru_event_run L hash) es (lru_with_shards_and_window L capacity shards window))) = 0"
  shows "sorted_wrt (fresh_apart window)
     (snd (filter_run (lru_event_run L hash) es (lru_with_shards_and_window L capacity shards window)))"
proof -
  let ?s = "lru_with_shards_and_window L capacity shards window"
  have s: "ls_window ?s = window" "ls_premature ?s = 0" by (simp_all add: lru_with_shards_and_window_def)
  have inv: "lru_inv L good hash ?s" by (rule jti_cache.lru_inv_new[OF assms(1)])
  obtain now where "\<forall>e \<in> set es. now \<le> event_clock e"
  proof (cases es)
    case (Cons e es')
    then show ?thesis using assms(4) by (intro that[of "event_clock e"]) auto
  qed simp
  then show ?thesis
    using jti_cache.quiet_run[OF assms(1) inv, of es now "{}"] assms(2-5) s by simp
qed

abbreviation shard_of :: "(string \<times> int) list \<Rightarrow> (string, int) lru_list lru_store" where
  "shard_of xs \<equiv> \<lparr>ls_shards = [(1000, xs)], ls_premature = 0, ls_window = 300\<rparr>"

lemma one_shard: "lru_with_shards_and_window list_cache 1000 1 300 = shard_of []"
  by (simp add: lru_with_shards_and_window_def lru_shard_capacities_def clamp_def min_jti_cache_size_def
      max_jti_cache_size_def list_cache_def Let_def)

definition replayed :: "lru_event list" where
  "replayed = [LruInsert 100 ''k'' 100, LruInsert 105 ''k'' 100, LruCleanup 1000 300, LruInsert 1001 ''k'' 100]"

lemma sample_steps:
  "length k \<le> 256 \<Longrightarrow> lru_event_run list_cache (\<lambda>_. 0) (LruInsert t k i) (shard_of []) = (shard_of [(k, i)], True)"
  "length k \<le> 256 \<Longrightarrow> lru_event_run list_cache (\<lambda>_. 0) (LruInsert t k i) (shard_of [(k, j)]) = (shard_of [(k, j)], False)"
  "lru_event_run list_cache (\<lambda>_. 0) (LruCleanup 1000 300) (shard_of [(k, 100)]) = (shard_of [], False)"
  by (simp_all add: lru_check_and_insert_def lru_shard_def max_jti_length_bytes_def lr_peek_def
      lru_cleanup_def list_cache_def without_def wrap_i64_def Let_def)

theorem lru_quiet_no_replay_witness:
  "snd (filter_run (lru_event_run list_cache (\<lambda>_. 0)) replayed (lru_with_shards_and_window list_cache 1000 1 300)) =
     [LruInsert 100 ''k'' 100, LruInsert 1001 ''k'' 100] \<and> fresh_apart 300 (LruInsert 100 ''k'' 100) (LruInsert 1001 ''k'' 100)"
proof -
  have run: "filter_run (lru_event_run list_cache (\<lambda>_. 0)) replayed (lru_with_shards_and_window list_cache 1000 1 300) =
      (shard_of [(''k'', 100)],
       [LruInsert 100 ''k'' 100, LruInsert 1001 ''k'' 100])"
    by (simp add: one_shard[unfolded One_nat_def] replayed_def sample_steps Let_def del: lru_event_run.simps)
  have "sorted_wrt (fresh_apart 300)
      (snd (filter_run (lru_event_run list_cache (\<lambda>_. 0)) replayed (lru_with_shards_and_window list_cache 1000 1 300)))"
  proof (rule lru_quiet_no_replay[OF jc.jti_cache_axioms])
    show "ls_premature (fst (filter_run (lru_event_run list_cache (\<lambda>_. 0)) replayed
        (lru_with_shards_and_window list_cache 1000 1 300))) = 0"
      unfolding run by simp
  qed (simp_all add: replayed_def in_i64_def i64_min_def i64_max_def)
  then show ?thesis unfolding run by simp
qed

end
