(* ===== verification/Por_Block_List.thy ===== *)
theory Por_Block_List
  imports Lru_Store Token_Rules
begin

text \<open>
  The block list of the probability of rejection (\<open>CatPorBlockList\<close> of \<open>src/src/token.rs\<close>) and the
  enforcement of \<open>catpor\<close> with it. A list is shards of caches from identifiers to expirations; the
  random draw is an argument, as in \<open>Token_Rules\<close>.

  Shown: the enforcement decides as the one of \<open>Token_Rules\<close> with the list as its membership test,
  and rejects nobody without a lost draw, the present one or an earlier one of the same identifier
  that has not expired.
\<close>

section \<open>The block list\<close>

type_synonym 'l por_env = "('l, bytes, int option) lru_env"

definition default_por_block_list_size :: nat where
  "default_por_block_list_size = 100000"

definition por_block_list_shards :: nat where
  "por_block_list_shards = 16"

definition por_with_capacity :: "'l por_env \<Rightarrow> nat \<Rightarrow> 'l list" where
  "por_with_capacity L capacity =
     (let per_shard = max ((capacity + por_block_list_shards - 1) div por_block_list_shards) 1
      in replicate por_block_list_shards (lr_new L per_shard))"

definition por_list_new :: "'l por_env \<Rightarrow> 'l list" where
  "por_list_new L = por_with_capacity L default_por_block_list_size"

definition por_shard :: "(bytes \<Rightarrow> nat) \<Rightarrow> bytes \<Rightarrow> 'l list \<Rightarrow> nat" where
  "por_shard hash i shards = hash i mod length shards"

text \<open>A lookup moves the entry to the front, so it changes the list.\<close>

definition por_is_blocked :: "'l por_env \<Rightarrow> (bytes \<Rightarrow> nat) \<Rightarrow> int \<Rightarrow> bytes \<Rightarrow> 'l list \<Rightarrow> 'l list \<times> bool" where
  "por_is_blocked L hash now i shards =
     (let j = por_shard hash i shards
      in case lr_get L i (shards ! j) of
           (c, r) \<Rightarrow> (shards[j := c],
             case r of
               Some (Some exp_ts) \<Rightarrow> now < exp_ts
             | Some None \<Rightarrow> True
             | None \<Rightarrow> False))"

definition por_add :: "'l por_env \<Rightarrow> (bytes \<Rightarrow> nat) \<Rightarrow> bytes \<Rightarrow> int option \<Rightarrow> 'l list \<Rightarrow> 'l list" where
  "por_add L hash i expiration shards =
     (let j = por_shard hash i shards
      in shards[j := fst (lr_push L i expiration (shards ! j))])"

section \<open>Enforcement with the list\<close>

definition enforce_catpor_with ::
  "'l por_env \<Rightarrow> (bytes \<Rightarrow> nat) \<Rightarrow> int \<Rightarrow> f64 result \<Rightarrow> cat_token \<Rightarrow> 'l list \<Rightarrow> 'l list \<times> unit result" where
  "enforce_catpor_with L hash now draw t shards =
     (case catpor (t_cat t) of
        None \<Rightarrow> (shards, Inr ())
      | Some p \<Rightarrow>
          (case por_is_blocked L hash now (por_id p) shards of
             (shards1, blocked) \<Rightarrow>
               (if blocked then (shards1, Inl RejectedByProbability)
                else case draw of
                  Inl e \<Rightarrow> (shards1, Inl e)
                | Inr r \<Rightarrow>
                    (if f64_lt r (por_probability p)
                     then (por_add L hash (por_id p) (por_expiration p) shards1, Inl RejectedByProbability)
                     else (shards1, Inr ())))))"

lemma enforce_catpor_agrees:
  "snd (enforce_catpor_with L hash now draw t shards) =
     snd (enforce_catpor (\<lambda>i. snd (por_is_blocked L hash now i shards)) draw t)"
  by (auto simp: enforce_catpor_with_def enforce_catpor_def split: option.split prod.split sum.split)

record por_request =
  pq_now :: int
  pq_draw :: "f64 result"
  pq_token :: cat_token

fun por_run :: "'l por_env \<Rightarrow> (bytes \<Rightarrow> nat) \<Rightarrow> por_request list \<Rightarrow> 'l list \<Rightarrow> unit result list" where
  "por_run L hash [] shards = []"
| "por_run L hash (q # qs) shards =
     (case enforce_catpor_with L hash (pq_now q) (pq_draw q) (pq_token q) shards of
        (shards1, r) \<Rightarrow> r # por_run L hash qs shards1)"

text \<open>A request whose draw falls below the probability of its token, and the entry it leaves.\<close>

definition lost_draw :: "por_request \<Rightarrow> bool" where
  "lost_draw q \<longleftrightarrow> (\<exists>p r. catpor (t_cat (pq_token q)) = Some p \<and> pq_draw q = Inr r \<and> f64_lt r (por_probability p))"

definition por_entry :: "por_request \<Rightarrow> (bytes \<times> int option) option" where
  "por_entry q = map_option (\<lambda>p. (por_id p, por_expiration p)) (catpor (t_cat (pq_token q)))"

definition unexpired :: "int \<Rightarrow> int option \<Rightarrow> bool" where
  "unexpired now e \<longleftrightarrow> (case e of Some x \<Rightarrow> now < x | None \<Rightarrow> True)"

text \<open>An earlier loss of the same identifier that still counts.\<close>

definition blocked_by :: "por_request \<Rightarrow> por_request \<Rightarrow> bool" where
  "blocked_by q q0 \<longleftrightarrow> lost_draw q0 \<and> (\<exists>i e e'. por_entry q0 = Some (i, e) \<and> por_entry q = Some (i, e') \<and>
     unexpired (pq_now q) e)"

definition por_items :: "'l por_env \<Rightarrow> 'l list \<Rightarrow> (bytes \<times> int option) set" where
  "por_items L shards = (\<Union>c \<in> set shards. set (lr_items L c))"

locale por_cache = lru_cache L cap good
  for L :: "'l por_env" and cap :: "'l \<Rightarrow> nat" and good :: "'l \<Rightarrow> bool"
begin

definition por_good :: "'l list \<Rightarrow> bool" where
  "por_good shards \<longleftrightarrow> shards \<noteq> [] \<and> (\<forall>c \<in> set shards. good c)"

lemma por_good_new: "por_good (por_with_capacity L capacity)" "por_items L (por_with_capacity L capacity) = {}"
  using new by (auto simp: por_good_def por_items_def por_with_capacity_def por_block_list_shards_def Let_def)

lemma por_shard_less: "por_good shards \<Longrightarrow> por_shard hash i shards < length shards"
  by (simp add: por_good_def por_shard_def)

lemma shard_good: "por_good shards \<Longrightarrow> good (shards ! por_shard hash i shards)"
  using por_shard_less by (simp add: por_good_def)

lemma shard_items: "por_good shards \<Longrightarrow> set (lr_items L (shards ! por_shard hash i shards)) \<subseteq> por_items L shards"
  using nth_mem[OF por_shard_less] by (fastforce simp: por_items_def)

lemma items_update: "set (lr_items L c) \<subseteq> A \<Longrightarrow> por_items L (shards[j := c]) \<subseteq> por_items L shards \<union> A"
  using set_update_subset_insert[of shards j c] by (fastforce simp: por_items_def)

lemma por_good_update: "por_good shards \<Longrightarrow> good c \<Longrightarrow> por_good (shards[j := c])"
  using set_update_subset_insert[of shards j c] by (auto simp: por_good_def)

lemma por_is_blocked_keeps:
  assumes "por_good shards"
  shows "por_good (fst (por_is_blocked L hash now i shards))"
    "por_items L (fst (por_is_blocked L hash now i shards)) \<subseteq> por_items L shards"
    "snd (por_is_blocked L hash now i shards) \<Longrightarrow> \<exists>e. (i, e) \<in> por_items L shards \<and> unexpired now e"
proof -
  let ?j = "por_shard hash i shards"
  note g = get[OF shard_good[OF assms, of hash i], of i]
  have sub: "set (lr_items L (shards ! ?j)) \<subseteq> por_items L shards"
    by (rule shard_items[OF assms])
  show "por_good (fst (por_is_blocked L hash now i shards))"
    using g assms por_good_update by (simp add: por_is_blocked_def Let_def case_prod_beta)
  show "por_items L (fst (por_is_blocked L hash now i shards)) \<subseteq> por_items L shards"
    using g sub items_update[of "fst (lr_get L i (shards ! ?j))" "por_items L shards" shards ?j]
    by (simp add: por_is_blocked_def Let_def case_prod_beta)
  assume "snd (por_is_blocked L hash now i shards)"
  then obtain e where "lr_peek L (shards ! ?j) i = Some e" "unexpired now e"
    using g by (auto simp: por_is_blocked_def Let_def case_prod_beta unexpired_def split: option.splits)
  then show "\<exists>e. (i, e) \<in> por_items L shards \<and> unexpired now e"
    using peek_in[OF shard_good[OF assms]] sub by blast
qed

lemma por_add_keeps:
  assumes "por_good shards"
  shows "por_good (por_add L hash i e shards)"
    "por_items L (por_add L hash i e shards) \<subseteq> insert (i, e) (por_items L shards)"
proof -
  let ?j = "por_shard hash i shards"
  note g = shard_good[OF assms, of hash i]
  have sub: "set (lr_items L (shards ! ?j)) \<subseteq> por_items L shards"
    by (rule shard_items[OF assms])
  show "por_good (por_add L hash i e shards)"
    using push[OF g] assms por_good_update by (simp add: por_add_def Let_def)
  show "por_items L (por_add L hash i e shards) \<subseteq> insert (i, e) (por_items L shards)"
    using push_items[OF g, of i e] sub
      items_update[of "fst (lr_push L i e (shards ! ?j))" "insert (i, e) (por_items L shards)" shards ?j]
    by (auto simp: por_add_def Let_def)
qed

text \<open>Whatever the list holds was left by a lost draw in \<open>past\<close>.\<close>

definition left_by :: "por_request set \<Rightarrow> 'l list \<Rightarrow> bool" where
  "left_by past shards \<longleftrightarrow> por_good shards \<and>
     (\<forall>x \<in> por_items L shards. \<exists>q \<in> past. lost_draw q \<and> por_entry q = Some x)"

lemma enforce_step:
  assumes past: "left_by past shards"
    and run: "enforce_catpor_with L hash (pq_now q) (pq_draw q) (pq_token q) shards = (shards1, r)"
  shows "left_by (insert q past) shards1"
    and "r = Inl RejectedByProbability \<Longrightarrow> pq_draw q \<noteq> Inl RejectedByProbability \<Longrightarrow>
      lost_draw q \<or> (\<exists>q0 \<in> past. blocked_by q q0)"
proof -
  have g: "por_good shards" using past by (simp add: left_by_def)
  show "left_by (insert q past) shards1" and "r = Inl RejectedByProbability \<Longrightarrow>
      pq_draw q \<noteq> Inl RejectedByProbability \<Longrightarrow> lost_draw q \<or> (\<exists>q0 \<in> past. blocked_by q q0)"
  proof (atomize (full), cases "catpor (t_cat (pq_token q))")
    case None
    then show "left_by (insert q past) shards1 \<and> (r = Inl RejectedByProbability \<longrightarrow>
      pq_draw q \<noteq> Inl RejectedByProbability \<longrightarrow> lost_draw q \<or> (\<exists>q0 \<in> past. blocked_by q q0))"
      using past run by (auto simp: enforce_catpor_with_def left_by_def)
  next
    case (Some p)
    obtain shards2 b where b: "por_is_blocked L hash (pq_now q) (por_id p) shards = (shards2, b)" by fastforce
    note k = por_is_blocked_keeps[OF g, of hash "pq_now q" "por_id p", unfolded b fst_conv snd_conv]
    have l2: "left_by (insert q past) shards2" using past k(1,2) by (fastforce simp: left_by_def)
    have blocked: "\<exists>q0 \<in> past. blocked_by q q0" if hb: "b"
    proof -
      obtain e where "(por_id p, e) \<in> por_items L shards" "unexpired (pq_now q) e" using k(3) hb by blast
      then show ?thesis using past Some by (fastforce simp: left_by_def blocked_by_def por_entry_def)
    qed
    have lost: "lost_draw q \<and> por_entry q = Some (por_id p, por_expiration p)"
      if "pq_draw q = Inr x" "f64_lt x (por_probability p)" for x
      using that Some by (auto simp: lost_draw_def por_entry_def)
    have added: "left_by (insert q past) (por_add L hash (por_id p) (por_expiration p) shards2)"
      if "pq_draw q = Inr x" "f64_lt x (por_probability p)" for x
      using por_add_keeps[OF k(1), of hash "por_id p" "por_expiration p"] l2 lost[OF that]
      unfolding left_by_def by blast
    show "left_by (insert q past) shards1 \<and> (r = Inl RejectedByProbability \<longrightarrow>
      pq_draw q \<noteq> Inl RejectedByProbability \<longrightarrow> lost_draw q \<or> (\<exists>q0 \<in> past. blocked_by q q0))"
      using run Some b l2 blocked lost added
      by (cases b; cases "pq_draw q") (auto simp: enforce_catpor_with_def split: if_splits)
  qed
qed

lemma por_run_justified:
  assumes "left_by past shards" "i < length qs"
    and "por_run L hash qs shards ! i = Inl RejectedByProbability" "pq_draw (qs ! i) \<noteq> Inl RejectedByProbability"
  shows "lost_draw (qs ! i) \<or> (\<exists>q0 \<in> past \<union> set (take i qs). blocked_by (qs ! i) q0)"
  using assms
proof (induction qs arbitrary: past shards i)
  case (Cons q qs)
  obtain shards1 r where run: "enforce_catpor_with L hash (pq_now q) (pq_draw q) (pq_token q) shards = (shards1, r)"
    by fastforce
  note st = enforce_step[OF Cons.prems(1) run]
  show ?case
  proof (cases i)
    case 0
    then show ?thesis using st(2) Cons.prems(3,4) run by auto
  next
    case (Suc j)
    then show ?thesis using Cons.IH[OF st(1), of j] Cons.prems run by auto
  qed
qed simp

end

interpretation pc: por_cache list_cache fst list_cache_good ..

text \<open>C20: nobody is rejected without a lost draw. In any sequence of requests against one block list,
  whatever the shards, the capacity and the evictions, a request refused by \<open>catpor\<close> lost its own
  draw, or an earlier request with the same identifier lost its draw and left an entry that has not
  expired.\<close>

theorem por_rejections_justified:
  assumes "por_cache L cap good" "i < length qs"
    and "por_run L hash qs (por_with_capacity L capacity) ! i = Inl RejectedByProbability"
    and "pq_draw (qs ! i) \<noteq> Inl RejectedByProbability"
  shows "lost_draw (qs ! i) \<or> (\<exists>j < i. blocked_by (qs ! i) (qs ! j))"
proof -
  have "por_cache.left_by L good {} (por_with_capacity L capacity)"
    using por_cache.por_good_new[OF assms(1)] by (simp add: por_cache.left_by_def[OF assms(1)])
  from por_cache.por_run_justified[OF assms(1) this assms(2-4)] show ?thesis
    using assms(2) by (fastforce simp: in_set_conv_nth)
qed

text \<open>A client that loses its first draw is refused again at its second request, whose draw it wins,
  and admitted once the entry has expired.\<close>

definition por_client :: "int \<Rightarrow> rat \<Rightarrow> por_request" where
  "por_client now r = \<lparr>pq_now = now, pq_draw = Inr (Fin r),
     pq_token = with_probability_of_rejection (Fin (1 / 2)) [1] (Some 100) token_new\<rparr>"

definition por_visits :: "por_request list" where
  "por_visits = [por_client 10 0, por_client 50 (3 / 4), por_client 100 (3 / 4)]"

lemma por_visits_run:
  "por_run list_cache (\<lambda>_. 0) por_visits (por_with_capacity list_cache 16) =
     [Inl RejectedByProbability, Inl RejectedByProbability, Inr ()]"
  by (simp add: por_visits_def por_client_def por_with_capacity_def por_block_list_shards_def por_shard_def
      list_cache_def without_def enforce_catpor_with_def por_is_blocked_def por_add_def
      with_probability_of_rejection_def default_defs Let_def)

theorem por_rejections_justified_witness:
  "por_run list_cache (\<lambda>_. 0) por_visits (por_with_capacity list_cache 16) ! 1 = Inl RejectedByProbability \<and>
   (\<exists>j < 1. blocked_by (por_visits ! 1) (por_visits ! j))"
proof -
  have "lost_draw (por_visits ! 1) \<or> (\<exists>j < 1. blocked_by (por_visits ! 1) (por_visits ! j))"
    by (rule por_rejections_justified[OF pc.por_cache_axioms, of _ _ "\<lambda>_. 0" 16])
      (simp_all only: por_visits_run, simp_all add: por_visits_def por_client_def)
  moreover have "\<not> lost_draw (por_visits ! 1)"
    by (simp add: lost_draw_def por_visits_def por_client_def
        with_probability_of_rejection_def default_defs)
  ultimately show ?thesis unfolding por_visits_run by simp
qed

end
