(* ===== verification/Jti_Contract.thy ===== *)
theory Jti_Contract
  imports Async_Auth Lru_Store Response
begin

text \<open>
  The contract checks for replay stores (\<open>src/src/jti_contract.rs\<close>), which integrators run against
  their backends. A check ends passed or with the panic of its first failed assertion. A call of a
  store is atomic, so the threads of a check are the order in which their calls reach the store.

  Shown: the three in-memory stores pass the checks whatever that order, the evicting store included.
\<close>

section \<open>The checks\<close>

type_synonym 's jti_insert = "string \<Rightarrow> int \<Rightarrow> 's \<Rightarrow> 's \<times> unit result"

datatype verdict = Passed | Panicked string

text \<open>The asynchronous checks differ in their keys and messages only.\<close>

definition duplicate_check :: "string \<Rightarrow> string \<Rightarrow> string \<Rightarrow> 's jti_insert \<Rightarrow> int \<Rightarrow> 's \<Rightarrow> 's \<times> verdict" where
  "duplicate_check key dropped surfaced insert_jti iat s =
     (case insert_jti key iat s of
        (s1, Inl e) \<Rightarrow> (s1, Panicked ''first insert must succeed'')
      | (s1, Inr _) \<Rightarrow>
          (case insert_jti key iat s1 of
             (s2, Inl ReplayAttackDetected) \<Rightarrow> (s2, Passed)
           | (s2, Inr _) \<Rightarrow> (s2, Panicked dropped)
           | (s2, Inl other) \<Rightarrow> (s2, Panicked surfaced)))"

definition assert_no_dropped_insert_within_ttl :: "'s jti_insert \<Rightarrow> int \<Rightarrow> 's \<Rightarrow> 's \<times> verdict" where
  "assert_no_dropped_insert_within_ttl = duplicate_check ''contract-test-jti-single''
     ''strict store dropped a JTI inside its freshness window; ''
     ''strict store surfaced unexpected error on duplicate: ''"

definition async_assert_no_dropped_insert_within_ttl :: "'s jti_insert \<Rightarrow> int \<Rightarrow> 's \<Rightarrow> 's \<times> verdict" where
  "async_assert_no_dropped_insert_within_ttl = duplicate_check ''contract-async-single''
     ''async strict store dropped a JTI inside its freshness window''
     ''async strict store surfaced unexpected error on duplicate: ''"

text \<open>The calls of the threads, in the order they reach the store, with issue time 1.\<close>

fun thread_calls :: "'s jti_insert \<Rightarrow> string list \<Rightarrow> 's \<Rightarrow> 's \<times> unit result list" where
  "thread_calls insert_jti [] s = (s, [])"
| "thread_calls insert_jti (k # ks) s =
     (case insert_jti k 1 s of (s1, r) \<Rightarrow>
        (case thread_calls insert_jti ks s1 of (s2, rs) \<Rightarrow> (s2, r # rs)))"

definition replays :: "unit result list \<Rightarrow> nat" where
  "replays rs = length (filter (\<lambda>r. r = Inl ReplayAttackDetected) rs)"

definition unexpected :: "unit result list \<Rightarrow> bool" where
  "unexpected rs \<longleftrightarrow> (\<exists>r \<in> set rs. \<not> is_ok r \<and> r \<noteq> Inl ReplayAttackDetected)"

definition distinct_key :: "nat \<Rightarrow> string" where
  "distinct_key i = ''contract-distinct-'' @ decimal i"

definition assert_distinct_keys_never_collide :: "'s jti_insert \<Rightarrow> nat list \<Rightarrow> 's \<Rightarrow> 's \<times> verdict" where
  "assert_distinct_keys_never_collide insert_jti order s =
     (case thread_calls insert_jti (map distinct_key order) s of
        (s1, rs) \<Rightarrow>
          (s1, if unexpected rs then Panicked ''unexpected backend error: ''
               else if replays rs \<noteq> 0 then Panicked ''store reported ''
               else Passed))"

definition atomic_check :: "string \<Rightarrow> string \<Rightarrow> 's jti_insert \<Rightarrow> nat \<Rightarrow> 's \<Rightarrow> 's \<times> verdict" where
  "atomic_check key violated insert_jti n s =
     (case thread_calls insert_jti (replicate n key) s of
        (s1, rs) \<Rightarrow>
          (s1, if unexpected rs then Panicked ''unexpected backend error: ''
               else if length (filter is_ok rs) \<noteq> 1 then Panicked violated
               else if replays rs \<noteq> n - 1 then Panicked ''expected ''
               else Passed))"

definition assert_atomic_insert_if_absent :: "'s jti_insert \<Rightarrow> nat \<Rightarrow> 's \<Rightarrow> 's \<times> verdict" where
  "assert_atomic_insert_if_absent =
     atomic_check ''contract-atomic-shared'' ''atomic insert-if-absent violated: ''"

definition async_assert_atomic_insert_if_absent :: "'s jti_insert \<Rightarrow> nat \<Rightarrow> 's \<Rightarrow> 's \<times> verdict" where
  "async_assert_atomic_insert_if_absent =
     atomic_check ''contract-async-atomic'' ''async atomic insert-if-absent violated: ''"

definition outage_check :: "string \<Rightarrow> 's jti_insert \<Rightarrow> 's \<Rightarrow> 's \<times> verdict" where
  "outage_check accepted insert_jti s =
     (case insert_jti ''outage-probe'' 1 s of
        (s1, Inl (BackendUnavailable _)) \<Rightarrow> (s1, Passed)
      | (s1, Inr _) \<Rightarrow> (s1, Panicked accepted)
      | (s1, Inl other) \<Rightarrow> (s1, Panicked ''outage must surface CatError::BackendUnavailable; got ''))"

definition assert_fail_closed_on_backend_outage :: "'s jti_insert \<Rightarrow> 's \<Rightarrow> 's \<times> verdict" where
  "assert_fail_closed_on_backend_outage =
     outage_check ''store silently accepted an insert while the backend was ''"

definition async_assert_fail_closed_on_backend_outage :: "'s jti_insert \<Rightarrow> 's \<Rightarrow> 's \<times> verdict" where
  "async_assert_fail_closed_on_backend_outage =
     outage_check ''async store silently accepted an insert while the backend was ''"

section \<open>What the checks ask of a store\<close>

text \<open>\<open>room n s\<close> says that the store has room for \<open>n\<close> more keys.\<close>

locale checked_store =
  fixes insert_jti :: "'s jti_insert" and seen :: "'s \<Rightarrow> string set" and ok :: "'s \<Rightarrow> bool"
    and room :: "nat \<Rightarrow> 's \<Rightarrow> bool"
  assumes accept: "ok s \<Longrightarrow> room (Suc n) s \<Longrightarrow> k \<notin> seen s \<Longrightarrow> length k \<le> max_jti_length_bytes \<Longrightarrow>
      snd (insert_jti k i s) = Inr () \<and> ok (fst (insert_jti k i s)) \<and> room n (fst (insert_jti k i s)) \<and>
      k \<in> seen (fst (insert_jti k i s)) \<and> seen (fst (insert_jti k i s)) \<subseteq> insert k (seen s)"
    and refuse: "ok s \<Longrightarrow> room 1 s \<Longrightarrow> k \<in> seen s \<Longrightarrow> length k \<le> max_jti_length_bytes \<Longrightarrow>
      insert_jti k i s = (s, Inl ReplayAttackDetected)"
    and less_room: "room (Suc n) s \<Longrightarrow> room n s"
begin

lemma one_room: "room (Suc n) s \<Longrightarrow> room 1 s"
  by (induction n) (auto intro: less_room)

lemma duplicate_passes:
  assumes "ok s" "room 2 s" "k \<notin> seen s" "length k \<le> max_jti_length_bytes"
  shows "snd (duplicate_check k m m' insert_jti i s) = Passed"
proof -
  obtain s1 where s1: "insert_jti k i s = (s1, Inr ())" "ok s1" "room 1 s1" "k \<in> seen s1"
    using accept[OF assms(1) _ assms(3,4), of 1 i] assms(2)
    by (cases "insert_jti k i s") (auto simp: numeral_2_eq_2)
  from refuse[OF s1(2-4) assms(4)] s1(1) show ?thesis by (simp add: duplicate_check_def)
qed

lemma all_accepted:
  "ok s \<Longrightarrow> room (length ks) s \<Longrightarrow> distinct ks \<Longrightarrow> set ks \<inter> seen s = {} \<Longrightarrow>
     \<forall>k \<in> set ks. length k \<le> max_jti_length_bytes \<Longrightarrow>
     snd (thread_calls insert_jti ks s) = replicate (length ks) (Inr ())"
proof (induction ks arbitrary: s)
  case (Cons k ks)
  have "snd (insert_jti k 1 s) = Inr ()" and s1: "ok (fst (insert_jti k 1 s))"
    "room (length ks) (fst (insert_jti k 1 s))" "seen (fst (insert_jti k 1 s)) \<subseteq> insert k (seen s)"
    using accept[OF Cons.prems(1), of "length ks" k 1] Cons.prems by auto
  moreover have "set ks \<inter> seen (fst (insert_jti k 1 s)) = {}" using s1(3) Cons.prems(3,4) by auto
  ultimately show ?case using Cons.IH[OF s1(1,2)] Cons.prems(3,5) by (simp add: case_prod_beta)
qed simp

lemma all_refused:
  "ok s \<Longrightarrow> room 1 s \<Longrightarrow> k \<in> seen s \<Longrightarrow> length k \<le> max_jti_length_bytes \<Longrightarrow>
     thread_calls insert_jti (replicate n k) s = (s, replicate n (Inl ReplayAttackDetected))"
  using refuse by (induction n) simp_all

lemma distinct_keys:
  assumes "ok s" "room (length order) s" "distinct order" "distinct_key ` set order \<inter> seen s = {}"
    and "\<forall>i \<in> set order. length (distinct_key i) \<le> max_jti_length_bytes"
  shows "snd (assert_distinct_keys_never_collide insert_jti order s) = Passed"
proof -
  have "i = j" if "distinct_key i = distinct_key j" for i j
    using arg_cong[OF that, of "\<lambda>k. decimal_value (drop 18 k)"] by (simp add: distinct_key_def)
  then have "distinct (map distinct_key order)" using assms(3) by (auto simp: distinct_map inj_on_def)
  then have "snd (thread_calls insert_jti (map distinct_key order) s) = replicate (length order) (Inr ())"
    using all_accepted[OF assms(1), of "map distinct_key order"] assms(2,4,5) by simp
  then show ?thesis
    by (simp add: assert_distinct_keys_never_collide_def case_prod_beta unexpected_def replays_def filter_replicate)
qed

lemma atomic_passes:
  assumes "ok s" "room 2 s" "k \<notin> seen s" "length k \<le> max_jti_length_bytes" "0 < n"
  shows "snd (atomic_check k m insert_jti n s) = Passed"
proof -
  obtain j where j: "n = Suc j" using assms(5) gr0_implies_Suc by blast
  obtain s1 where s1: "insert_jti k 1 s = (s1, Inr ())" "ok s1" "room 1 s1" "k \<in> seen s1"
    using accept[OF assms(1) _ assms(3,4), of 1 1] assms(2)
    by (cases "insert_jti k 1 s") (auto simp: numeral_2_eq_2)
  have "snd (thread_calls insert_jti (replicate n k) s) = Inr () # replicate j (Inl ReplayAttackDetected)"
    by (simp add: j s1(1) all_refused[OF s1(2-4) assms(4)])
  then show ?thesis
    by (simp add: atomic_check_def case_prod_beta unexpected_def replays_def filter_replicate j)
qed

lemma single_key_checks:
  assumes "ok s" "room 2 s" "seen s = {}"
  shows "snd (assert_no_dropped_insert_within_ttl insert_jti i s) = Passed"
    and "snd (async_assert_no_dropped_insert_within_ttl insert_jti i s) = Passed"
    and "0 < n \<Longrightarrow> snd (assert_atomic_insert_if_absent insert_jti n s) = Passed"
    and "0 < n \<Longrightarrow> snd (async_assert_atomic_insert_if_absent insert_jti n s) = Passed"
  using assms
  by (auto simp: assert_no_dropped_insert_within_ttl_def async_assert_no_dropped_insert_within_ttl_def
      assert_atomic_insert_if_absent_def async_assert_atomic_insert_if_absent_def max_jti_length_bytes_def
      intro: duplicate_passes atomic_passes)

end

section \<open>The stores of the crate\<close>

definition strict_room :: "nat \<Rightarrow> strict_store \<Rightarrow> bool" where
  "strict_room n s \<longleftrightarrow> (case ss_max_entries s of Some mx \<Rightarrow> ss_total_entries s + n \<le> mx | None \<Rightarrow> True)"

definition async_room :: "nat \<Rightarrow> async_mem_store \<Rightarrow> bool" where
  "async_room n s \<longleftrightarrow> (case am_max_entries s of Some mx \<Rightarrow> length (am_entries s) + n \<le> mx | None \<Rightarrow> True)"

interpretation strict_checked: checked_store "strict_check_and_insert hash" strict_seen "strict_inv hash" strict_room
  for hash
proof (unfold_locales, goal_cases)
  case (1 s n k i)
  then have ok: "snd (strict_check_and_insert hash k i s) = Inr ()"
    by (auto simp: strict_insert_cases at_cap_def strict_room_def split: option.splits)
  have "strict_room n (fst (strict_check_and_insert hash k i s))"
    using 1 by (auto simp: strict_insert_cases at_cap_def strict_room_def split: option.splits)
  then show ?case using ok ss.insert_ok[OF 1(1) ok] ss.inv_insert[OF 1(1)] by simp
next
  case (2 s k i)
  then show ?case by (auto simp: strict_insert_cases at_cap_def strict_room_def split: option.splits)
next
  case (3 n s)
  then show ?case by (auto simp: strict_room_def split: option.splits)
qed

interpretation async_checked: checked_store async_mem_check_and_insert async_mem_seen async_mem_inv async_room
proof (unfold_locales, goal_cases)
  case (1 s n k i)
  have new: "map_of (am_entries s) k = None" using 1(3) by (simp add: async_mem_seen_def map_of_eq_None_iff)
  then have ok: "snd (async_mem_check_and_insert k i s) = Inr ()"
    using 1(2,4) by (auto simp: async_mem_check_and_insert_def async_room_def split: option.splits)
  have "async_room n (fst (async_mem_check_and_insert k i s))"
    using 1(2,4) new
    by (auto simp: async_mem_check_and_insert_def async_room_def update_new_append split: option.splits)
  then show ?case using ok am.insert_ok[OF 1(1) ok] am.inv_insert[OF 1(1)] by simp
next
  case (2 s k i)
  then show ?case by (simp add: async_mem_check_and_insert_def async_mem_seen_def map_of_eq_None_iff)
next
  case (3 n s)
  then show ?case by (auto simp: async_room_def split: option.splits)
qed

definition lru_seen :: "('l, string, int) lru_env \<Rightarrow> (string list \<Rightarrow> nat) \<Rightarrow> 'l lru_store \<Rightarrow> string set" where
  "lru_seen L hash s = {k. \<exists>i. lru_held L hash s k i}"

sublocale jti_cache \<subseteq> lru_checked: checked_store "lru_check_and_insert L hash now" "lru_seen L hash"
  "lru_inv L good hash" "\<lambda>n s. True" for hash now
proof (unfold_locales, goal_cases)
  case (1 s n k i)
  then have ok: "snd (lru_check_and_insert L hash now k i s) = Inr ()"
    by (simp add: lru_insert_result lru_seen_def)
  from lru_insert_ok(1,4,6)[OF 1(1) ok] ok show ?case by (auto simp: lru_seen_def)
next
  case (2 s k i)
  have "snd (lru_check_and_insert L hash now k i s) \<noteq> Inr ()"
    using 2 by (auto simp: lru_insert_result lru_seen_def)
  then have "snd (lru_check_and_insert L hash now k i s) = Inl ReplayAttackDetected"
    using 2(4) by (auto simp: lru_check_and_insert_def Let_def split: if_splits prod.splits)
  then show ?case using lru_insert_error by (metis prod.collapse)
qed simp

lemma decimal_length: "n < 10 ^ Suc m \<Longrightarrow> length (decimal n) \<le> Suc m"
proof (induction m arbitrary: n)
  case 0
  then show ?case by (subst decimal.simps) simp
next
  case (Suc m)
  show ?case
  proof (cases "n < 10")
    case True
    then show ?thesis by (subst decimal.simps) simp
  next
    case False
    have "n div 10 < 10 ^ Suc m" using Suc.prems by (simp add: less_mult_imp_div_less mult.commute)
    then show ?thesis using Suc.IH[of "n div 10"] False by (subst decimal.simps) simp
  qed
qed

lemma distinct_key_length: "i < 10 ^ 20 \<Longrightarrow> length (distinct_key i) \<le> max_jti_length_bytes"
  using decimal_length[of i 19] by (simp add: distinct_key_def max_jti_length_bytes_def)

lemma order_keys:
  assumes "set order = {..<n}" "n \<le> 2 ^ 64"
  shows "\<forall>j \<in> set order. length (distinct_key j) \<le> max_jti_length_bytes"
proof
  fix j assume "j \<in> set order"
  then have "j < 2 ^ 64" using assms by auto
  also have "(2 :: nat) ^ 64 \<le> 10 ^ 20" by simp
  finally show "length (distinct_key j) \<le> max_jti_length_bytes" by (rule distinct_key_length)
qed

lemma fresh_strict:
  "strict_inv hash (strict_new w mx)" "strict_seen (strict_new w mx) = {}" "strict_room n (strict_new w mx) \<longleftrightarrow> n \<le> mx"
  by (simp add: strict_new_def)
     (simp_all add: strict_new_def strict_build_def strict_room_def strict_seen_def strict_entries_def
        default_jti_shards_def)

lemma fresh_async:
  "async_mem_seen (async_mem_new mx) = {}" "async_room n (async_mem_new mx) \<longleftrightarrow> n \<le> mx"
  by (simp_all add: async_mem_new_def async_mem_seen_def async_room_def)

context jti_cache
begin

lemma fresh_lru: "lru_seen L hash (lru_with_shards_and_window L capacity shards window) = {}"
  by (simp add: lru_seen_def lru_new_empty)

lemma lru_passes:
  assumes "set order = {..<n}" "distinct order" "0 < n" "n \<le> 2 ^ 64"
    and s_def: "s = lru_with_shards_and_window L capacity shards window"
  shows "snd (assert_distinct_keys_never_collide (lru_check_and_insert L h now) order s) = Passed"
    and "snd (assert_atomic_insert_if_absent (lru_check_and_insert L h now) n s) = Passed"
    and "snd (assert_no_dropped_insert_within_ttl (lru_check_and_insert L h now) i s) = Passed"
  using order_keys[OF assms(1,4)] assms(2,3)
  by (auto simp: s_def fresh_lru intro!: lru_checked.distinct_keys lru_checked.single_key_checks lru_inv_new)

end

text \<open>The in-memory stores of the crate pass its contract checks. A fresh sharded strict store and a
  fresh asynchronous one with room for the \<open>n\<close> keys of a check (and for two), and a fresh evicting
  store of any capacity, pass the three checks in every order in which the calls of \<open>n\<close> threads reach
  them; so the checks do not tell an evicting store from one that retains its keys.\<close>

lemma stores_pass_contract:
  assumes "jti_cache L cap good" "set order = {..<n}" "distinct order" "0 < n" "n \<le> 2 ^ 64" "n \<le> mx" "2 \<le> mx"
  shows "snd (assert_distinct_keys_never_collide (strict_check_and_insert hash) order (strict_new w mx)) = Passed \<and>
    snd (assert_atomic_insert_if_absent (strict_check_and_insert hash) n (strict_new w mx)) = Passed \<and>
    snd (assert_no_dropped_insert_within_ttl (strict_check_and_insert hash) i (strict_new w mx)) = Passed \<and>
    snd (assert_distinct_keys_never_collide async_mem_check_and_insert order (async_mem_new mx)) = Passed \<and>
    snd (async_assert_atomic_insert_if_absent async_mem_check_and_insert n (async_mem_new mx)) = Passed \<and>
    snd (async_assert_no_dropped_insert_within_ttl async_mem_check_and_insert i (async_mem_new mx)) = Passed \<and>
    snd (assert_distinct_keys_never_collide (lru_check_and_insert L h now) order
      (lru_with_shards_and_window L c sh w)) = Passed \<and>
    snd (assert_atomic_insert_if_absent (lru_check_and_insert L h now) n
      (lru_with_shards_and_window L c sh w)) = Passed \<and>
    snd (assert_no_dropped_insert_within_ttl (lru_check_and_insert L h now) i
      (lru_with_shards_and_window L c sh w)) = Passed"
proof -
  have len: "length order = n" using assms(2) distinct_card[OF assms(3)] by simp
  note keys = order_keys[OF assms(2,5)]
  show ?thesis
    by (intro conjI strict_checked.distinct_keys strict_checked.single_key_checks
        async_checked.distinct_keys async_checked.single_key_checks
        jti_cache.lru_passes[OF assms(1-5) refl])
       (simp_all add: fresh_strict fresh_async len keys assms)
qed

end
