(* ===== verification/X509_Pin.thy ===== *)
theory X509_Pin
  imports Jwk
begin

text \<open>
  The \<open>cattpk\<close> pin (\<open>src/src/x509.rs\<close>): reading the SubjectPublicKeyInfo of a certificate under a size
  cap, and the comparison with the pin after a path validator has accepted the chain. The DER
  library and the path validator are parameters.

  Shown: what \<open>authenticate_and_pin\<close> accepts, and that it never accepts what the validator refuses.
\<close>

record 'c x509_env =
  x5_parse :: "bytes \<Rightarrow> 'c option"
  x5_spki_der :: "'c \<Rightarrow> bytes option"

definition max_cert_der_bytes :: nat where
  "max_cert_der_bytes = 64 * 1024"

definition extract_spki_from_cert :: "'c x509_env \<Rightarrow> bytes \<Rightarrow> bytes result" where
  "extract_spki_from_cert X cert_der =
     (if length cert_der > max_cert_der_bytes then Inl (CertificateValidationFailed ''certificate DER '')
      else
        rbind (ok_or (x5_parse X cert_der) (CertificateValidationFailed ''Failed to parse certificate: '')) (\<lambda>cert.
        ok_or (x5_spki_der X cert) (CertificateValidationFailed ''Failed to encode SPKI: '')))"

text \<open>Only a path validator builds one.\<close>

datatype verified_peer_certificate = VerifiedPeerCertificate (leaf_der: bytes)

type_synonym path_validator = "bytes list \<Rightarrow> int \<Rightarrow> verified_peer_certificate result"

definition check_cattpk_pin :: "'c x509_env \<Rightarrow> bytes \<Rightarrow> verified_peer_certificate \<Rightarrow> unit result" where
  "check_cattpk_pin X pin verified =
     rbind (extract_spki_from_cert X (leaf_der verified)) (\<lambda>spki.
     if constant_time_eq spki pin then Inr ()
     else Inl (CertificateValidationFailed ''peer certificate SPKI does not match cattpk pin''))"

definition authenticate_and_pin ::
  "'c x509_env \<Rightarrow> bytes \<Rightarrow> bytes list \<Rightarrow> path_validator \<Rightarrow> int \<Rightarrow> verified_peer_certificate result" where
  "authenticate_and_pin X pin chain validate now =
     rbind (validate chain now) (\<lambda>verified.
     rbind (check_cattpk_pin X pin verified) (\<lambda>_.
     Inr verified))"

text \<open>A pinned peer was authenticated first. \<open>authenticate_and_pin\<close> succeeds exactly when the path
  validator accepted the chain, the leaf it returned is within the size cap and parses, and its
  SubjectPublicKeyInfo is byte for byte the pin; the result is what the validator returned.\<close>

lemma authenticate_and_pin_accepts:
  "authenticate_and_pin X pin chain validate now = Inr v \<longleftrightarrow>
     validate chain now = Inr v \<and> length (leaf_der v) \<le> max_cert_der_bytes \<and>
     (\<exists>cert. x5_parse X (leaf_der v) = Some cert \<and> x5_spki_der X cert = Some pin)"
  by (auto simp: authenticate_and_pin_def check_cattpk_pin_def extract_spki_from_cert_def split: if_splits)

end
