(* ===== verification/Regex_Cache.thy ===== *)
theory Regex_Cache
  imports Lru_Store Token_Rules
begin

text \<open>
  The process-wide cache of compiled patterns in \<open>src/src/token.rs\<close> (\<open>regex_cache\<close> and the regex
  branch of \<open>apply_match_value\<close>). \<open>Token_Rules\<close> compiles a pattern at each use; here the compiled
  pattern is looked up in an \<open>LruCache\<close> under a lock, and compiled and put there when it is absent.
  A call is one step on the cache, so a list of calls is what any number of threads do in the order
  they take the lock.

  Shown: every call answers as without the cache, whatever was evicted, and the cache keeps its bound.
\<close>

definition regex_cache_size :: nat where
  "regex_cache_size = 256"

type_synonym 'l regex_env = "('l, string, string \<Rightarrow> bool) lru_env"

definition regex_cache :: "'l regex_env \<Rightarrow> 'l" where
  "regex_cache L = lr_new L regex_cache_size"

definition cached_regex :: "'l regex_env \<Rightarrow> match_env \<Rightarrow> string \<Rightarrow> 'l \<Rightarrow> 'l \<times> (string \<Rightarrow> bool) option" where
  "cached_regex L env pat c =
     (case lr_get L pat c of
        (c1, Some re) \<Rightarrow> (c1, Some re)
      | (c1, None) \<Rightarrow>
          (case env_regex env pat of
             Some re \<Rightarrow> (fst (lr_push L pat re c1), Some re)
           | None \<Rightarrow> (c1, None)))"

fun apply_match_cached :: "'l regex_env \<Rightarrow> match_env \<Rightarrow> match_value \<Rightarrow> string \<Rightarrow> 'l \<Rightarrow> 'l \<times> bool" where
  "apply_match_cached L env (MvRegex pat) x c =
     (if length x > max_regex_input_len then (c, False)
      else case cached_regex L env pat c of
        (c1, Some re) \<Rightarrow> (c1, re x)
      | (c1, None) \<Rightarrow> (c1, False))"
| "apply_match_cached L env mv x c = (c, apply_match_value env mv x)"

fun match_run :: "'l regex_env \<Rightarrow> match_env \<Rightarrow> (match_value \<times> string) list \<Rightarrow> 'l \<Rightarrow> 'l \<times> bool list" where
  "match_run L env [] c = (c, [])"
| "match_run L env ((mv, x) # ms) c =
     (case apply_match_cached L env mv x c of
        (c1, r) \<Rightarrow> (case match_run L env ms c1 of (c2, rs) \<Rightarrow> (c2, r # rs)))"

locale pattern_cache = lru_cache L cap good
  for L :: "'l regex_env" and cap :: "'l \<Rightarrow> nat" and good :: "'l \<Rightarrow> bool"
begin

text \<open>The cache holds what compiling gives.\<close>

definition coherent :: "match_env \<Rightarrow> 'l \<Rightarrow> bool" where
  "coherent env c \<longleftrightarrow> good c \<and> cap c = regex_cache_size \<and>
     (\<forall>(pat, re) \<in> set (lr_items L c). env_regex env pat = Some re)"

lemma coherent_new: "coherent env (regex_cache L)"
  using new[of regex_cache_size] by (simp add: coherent_def regex_cache_def regex_cache_size_def)

lemma coherent_bound: "coherent env c \<Longrightarrow> length (lr_items L c) \<le> regex_cache_size"
  using good by (fastforce simp: coherent_def)

lemma cached_regex_compiles:
  assumes "coherent env c"
  shows "coherent env (fst (cached_regex L env pat c)) \<and> snd (cached_regex L env pat c) = env_regex env pat"
proof -
  have c: "good c" "cap c = regex_cache_size" "\<forall>(p, re) \<in> set (lr_items L c). env_regex env p = Some re"
    using assms by (auto simp: coherent_def)
  obtain c1 r where g: "lr_get L pat c = (c1, r)" by fastforce
  have c1: "coherent env c1" and r: "r = lr_peek L c pat"
    using get[OF c(1), of pat] c g by (auto simp: coherent_def)
  show ?thesis
  proof (cases r)
    case (Some re)
    then have "env_regex env pat = Some re" using peek_in[OF c(1)] r c(3) by fastforce
    then show ?thesis using Some g c1 by (simp add: cached_regex_def)
  next
    case None
    have "good c1" using c1 by (simp add: coherent_def)
    have "coherent env (fst (lr_push L pat re c1))" if "env_regex env pat = Some re" for re
      using push[OF \<open>good c1\<close>, of pat re] push_items[OF \<open>good c1\<close>, of pat re] c1 that
      by (fastforce simp: coherent_def)
    then show ?thesis using None g c1 by (auto simp: cached_regex_def split: option.split)
  qed
qed

lemma apply_match_cached_agrees:
  assumes "coherent env c"
  shows "coherent env (fst (apply_match_cached L env mv x c)) \<and>
     snd (apply_match_cached L env mv x c) = apply_match_value env mv x"
proof (cases mv)
  case (MvRegex pat)
  obtain c1 r where "cached_regex L env pat c = (c1, r)" by fastforce
  then show ?thesis
    using MvRegex assms cached_regex_compiles[OF assms, of pat] by (auto split: option.split)
qed (use assms in simp_all)

lemma match_run_agrees:
  "coherent env c \<Longrightarrow> coherent env (fst (match_run L env ms c)) \<and>
     snd (match_run L env ms c) = map (\<lambda>(mv, x). apply_match_value env mv x) ms"
proof (induction ms arbitrary: c)
  case (Cons m ms)
  obtain mv x where m: "m = (mv, x)" by (cases m)
  obtain c1 r where "apply_match_cached L env mv x c = (c1, r)" by fastforce
  then show ?case
    using apply_match_cached_agrees[OF Cons.prems, of mv x] Cons.IH[of c1] m
    by (auto split: prod.split)
qed simp

end

interpretation rc: pattern_cache list_cache fst list_cache_good ..

text \<open>C12: the cache is invisible. Whatever patterns the calls of all threads name, in the order they take
  the lock, and whatever entries the cache evicts in between, every match answers as if its pattern
  had been compiled for it, and the cache never holds more than its 256 entries.\<close>

theorem cached_matches_agree:
  assumes "pattern_cache L cap good"
  shows "snd (match_run L env ms (regex_cache L)) = map (\<lambda>(mv, x). apply_match_value env mv x) ms \<and>
     length (lr_items L (fst (match_run L env ms (regex_cache L)))) \<le> regex_cache_size"
  using pattern_cache.match_run_agrees[OF assms pattern_cache.coherent_new[OF assms]]
    pattern_cache.coherent_bound[OF assms] by blast

theorem cached_matches_agree_witness:
  "snd (match_run list_cache \<lparr>env_regex = (\<lambda>p. Some (\<lambda>x. x = p)), env_sha256 = (\<lambda>_. []), env_sha512_256 = (\<lambda>_. [])\<rparr>
     [(MvRegex ''a'', ''a''), (MvPrefix ''b'', ''bc''), (MvRegex ''a'', ''b'')] (regex_cache list_cache)) =
   [True, True, False]"
  by (subst conjunct1[OF cached_matches_agree[OF rc.pattern_cache_axioms]]) (simp add: max_regex_input_len_def)

end
