(* ===== verification/Ip_Text.thy ===== *)
theory Ip_Text
  imports Cat_Token Cwt_Value
begin

text \<open>
  Network identifiers from text (\<open>NetworkIdentifier::from_ip_str\<close>, \<open>from_cidr_str\<close> and the token's
  \<open>with_ip_address\<close>, \<open>with_ip_range\<close> in \<open>src/src/claims.rs\<close>).

  The reader of addresses is the one of the standard library (\<open>core::net::parser\<close>), as is
  \<open>u8::from_str\<close>: a reader takes the text that remains and returns a value and the rest, or nothing,
  and then the caller goes on from where it was.

  Shown: the dotted decimal form without leading zeros is the only text of an IPv4 address, eight
  hexadecimal groups are read back as their IPv6 address, and what becomes on the wire of a range
  whose host bits are set.
\<close>

section \<open>Readers\<close>

type_synonym 'a reader = "string \<Rightarrow> ('a \<times> string) option"

text \<open>\<open>char::to_digit\<close>\<close>

definition to_digit :: "nat \<Rightarrow> char \<Rightarrow> nat option" where
  "to_digit radix c =
     (let d = (if is_ascii_digit c then ord_of c - 48
               else if is_ascii_lower c then ord_of c - 87
               else if is_ascii_upper c then ord_of c - 55
               else radix)
      in if d < radix then Some d else None)"

definition digits_value :: "nat \<Rightarrow> string \<Rightarrow> nat" where
  "digits_value radix s = foldl (\<lambda>a c. radix * a + the (to_digit radix c)) 0 s"

definition is_digit :: "nat \<Rightarrow> char \<Rightarrow> bool" where
  "is_digit radix c \<longleftrightarrow> to_digit radix c \<noteq> None"

text \<open>\<open>read_number\<close> with a maximal number of digits; \<open>bound\<close> is the range of the target type.\<close>

definition read_number :: "nat \<Rightarrow> nat \<Rightarrow> bool \<Rightarrow> nat \<Rightarrow> nat reader" where
  "read_number radix max_digits allow_zero_prefix bound s =
     (let ds = takeWhile (is_digit radix) s
      in if ds = [] \<or> length ds > max_digits then None
         else if \<not> allow_zero_prefix \<and> hd ds = CHR ''0'' \<and> length ds > 1 then None
         else if digits_value radix ds \<ge> bound then None
         else Some (digits_value radix ds, dropWhile (is_digit radix) s))"

definition read_separator :: "char \<Rightarrow> nat \<Rightarrow> 'a reader \<Rightarrow> 'a reader" where
  "read_separator sep i inner s =
     (if i = 0 then inner s
      else case s of c # r \<Rightarrow> if c = sep then inner r else None | [] \<Rightarrow> None)"

fun read_octets :: "nat \<Rightarrow> nat \<Rightarrow> nat list reader" where
  "read_octets i 0 s = Some ([], s)"
| "read_octets i (Suc k) s =
     (case read_separator (CHR ''.'') i (read_number 10 3 False 256) s of
        None \<Rightarrow> None
      | Some (g, r) \<Rightarrow> (case read_octets (Suc i) k r of None \<Rightarrow> None | Some (gs, r') \<Rightarrow> Some (g # gs, r')))"

definition group_value :: "nat \<Rightarrow> nat list \<Rightarrow> nat" where
  "group_value b gs = foldl (\<lambda>a g. a * b + g) 0 gs"

definition read_ipv4_addr :: "u32 reader" where
  "read_ipv4_addr s =
     map_option (\<lambda>(gs, r). (of_nat (group_value 256 gs), r)) (read_octets 0 4 s)"

text \<open>\<open>read_groups\<close>: the groups read, and whether the last two came from an embedded IPv4 address.\<close>

fun read_groups :: "nat \<Rightarrow> nat \<Rightarrow> string \<Rightarrow> nat list \<times> bool \<times> string" where
  "read_groups i 0 s = ([], False, s)"
| "read_groups i (Suc k) s =
     (case (if 0 < k then read_separator (CHR '':'') i read_ipv4_addr s else None) of
        Some (a, r) \<Rightarrow> ([unat a div 65536, unat a mod 65536], True, r)
      | None \<Rightarrow>
          (case read_separator (CHR '':'') i (read_number 16 4 True 65536) s of
             None \<Rightarrow> ([], False, s)
           | Some (g, r) \<Rightarrow> (case read_groups (Suc i) k r of (gs, v4, r') \<Rightarrow> (g # gs, v4, r'))))"

definition read_ipv6_addr :: "u128 reader" where
  "read_ipv6_addr s =
     (case read_groups 0 8 s of
        (head, v4, r) \<Rightarrow>
          (if length head = 8 then Some (of_nat (group_value 65536 head), r)
           else if v4 then None
           else case r of
             a # b # r1 \<Rightarrow>
               (if a = CHR '':'' \<and> b = CHR '':'' then
                  (case read_groups 0 (7 - length head) r1 of
                     (tail, _, r2) \<Rightarrow>
                       Some (of_nat (group_value 65536
                         (head @ replicate (8 - length head - length tail) 0 @ tail)), r2))
                else None)
           | _ \<Rightarrow> None))"

definition read_ip_addr :: "ip_addr reader" where
  "read_ip_addr s =
     (case read_ipv4_addr s of
        Some (a, r) \<Rightarrow> Some (V4 a, r)
      | None \<Rightarrow> map_option (\<lambda>(a, r). (V6 a, r)) (read_ipv6_addr s))"

definition parse_ip_addr :: "string \<Rightarrow> ip_addr option" where
  "parse_ip_addr s = (case read_ip_addr s of Some (a, []) \<Rightarrow> Some a | _ \<Rightarrow> None)"

text \<open>\<open>u8::from_str\<close> takes a leading plus sign and leading zeros.\<close>

definition parse_u8 :: "string \<Rightarrow> byte option" where
  "parse_u8 s =
     (let ds = (case s of c # r \<Rightarrow> if c = CHR ''+'' then r else s | [] \<Rightarrow> [])
      in if ds = [] \<or> \<not> list_all (is_digit 10) ds \<or> digits_value 10 ds > 255 then None
         else Some (of_nat (digits_value 10 ds)))"

section \<open>Identifiers\<close>

definition from_ip_str :: "string \<Rightarrow> network_identifier result" where
  "from_ip_str ip =
     rbind (ok_or (parse_ip_addr ip) (InvalidClaimValue (''Invalid IP address: '' @ ip))) (\<lambda>a. Inr (IpAddress a))"

definition from_cidr_str :: "string \<Rightarrow> network_identifier result" where
  "from_cidr_str cidr =
     (case split_on (CHR ''/'') cidr of
        [p, q] \<Rightarrow>
          rbind (ok_or (parse_ip_addr p) (InvalidClaimValue (''Invalid IP in CIDR: '' @ p))) (\<lambda>a.
          rbind (ok_or (parse_u8 q) (InvalidClaimValue (''Invalid prefix length: '' @ q))) (\<lambda>l.
          if l > max_prefix a then Inl (InvalidClaimValue ''Prefix length exceeds max '')
          else Inr (IpPrefix a l)))
      | _ \<Rightarrow> Inl (InvalidClaimValue (''Invalid CIDR: '' @ cidr)))"

definition with_ip_address :: "string \<Rightarrow> cat_token \<Rightarrow> cat_token result" where
  "with_ip_address ip t =
     rbind (from_ip_str ip) (\<lambda>n. Inr (upd_cat (\<lambda>c. c\<lparr>catnip := push_opt n (catnip c)\<rparr>) t))"

definition with_ip_range :: "string \<Rightarrow> cat_token \<Rightarrow> cat_token result" where
  "with_ip_range cidr t =
     rbind (from_cidr_str cidr) (\<lambda>n. Inr (upd_cat (\<lambda>c. c\<lparr>catnip := push_opt n (catnip c)\<rparr>) t))"

section \<open>Text of numbers\<close>

definition digit_char :: "nat \<Rightarrow> char" where
  "digit_char d = (if d < 10 then char_of (48 + d) else char_of (87 + d))"

function radix_text :: "nat \<Rightarrow> nat \<Rightarrow> string" where
  "radix_text b n =
     (if b < 2 \<or> n < b then [digit_char n] else radix_text b (n div b) @ [digit_char (n mod b)])"
  by pat_completeness auto
termination by (relation "measure snd") auto

declare radix_text.simps [simp del]

lemma ord_char_of: "d < 256 \<Longrightarrow> ord_of (char_of d) = d"
  by simp

lemma to_digit_char: "d < b \<Longrightarrow> b \<le> 16 \<Longrightarrow> to_digit b (digit_char d) = Some d"
  by (auto simp: to_digit_def digit_char_def ascii_defs Let_def)

lemma digits_value_append: "digits_value b (xs @ [c]) = b * digits_value b xs + the (to_digit b c)"
  by (simp add: digits_value_def)

lemma radix_text_digits: "2 \<le> b \<Longrightarrow> b \<le> 16 \<Longrightarrow> list_all (is_digit b) (radix_text b n)"
proof (induction b n rule: radix_text.induct)
  case (1 b n)
  have "is_digit b (digit_char d)" if "d < b" for d using that 1(3) by (simp add: is_digit_def to_digit_char)
  then show ?case using 1 by (subst radix_text.simps) auto
qed

lemma digits_value_radix: "2 \<le> b \<Longrightarrow> b \<le> 16 \<Longrightarrow> digits_value b (radix_text b n) = n"
proof (induction b n rule: radix_text.induct)
  case (1 b n)
  then show ?case
    by (subst radix_text.simps) (auto simp: digits_value_append to_digit_char, simp add: digits_value_def to_digit_char)
qed

text \<open>A text without leading zeros is the one its number prints to.\<close>

lemma digit_char_of: "is_digit 10 c \<Longrightarrow> digit_char (the (to_digit 10 c)) = c"
  by (auto simp: is_digit_def to_digit_def digit_char_def ascii_defs Let_def split: if_splits)

lemma digit_less: "is_digit b c \<Longrightarrow> the (to_digit b c) < b"
  by (auto simp: is_digit_def to_digit_def Let_def split: if_splits)

lemma zero_digit: "is_digit 10 c \<Longrightarrow> the (to_digit 10 c) = 0 \<longleftrightarrow> c = CHR ''0''"
proof
  assume "is_digit 10 c" "the (to_digit 10 c) = 0"
  then have "c = digit_char 0" using digit_char_of[of c] by simp
  moreover have "char_of (48 :: nat) = CHR ''0''" by code_simp
  ultimately show "c = CHR ''0''" by (simp add: digit_char_def)
qed (simp add: to_digit_def ascii_defs)

lemma digits_value_pos:
  "list_all (is_digit 10) ds \<Longrightarrow> ds \<noteq> [] \<Longrightarrow> hd ds \<noteq> CHR ''0'' \<Longrightarrow> 0 < digits_value 10 ds"
proof (induction ds rule: rev_induct)
  case (snoc c cs)
  then show ?case
    by (cases cs) (auto simp: digits_value_append zero_digit digits_value_def intro: gr0I)
qed simp

lemma radix_text_value:
  assumes "list_all (is_digit 10) ds" "ds \<noteq> []" "hd ds = CHR ''0'' \<longrightarrow> length ds = 1"
  shows "radix_text 10 (digits_value 10 ds) = ds"
  using assms
proof (induction ds rule: rev_induct)
  case (snoc c cs)
  have c: "the (to_digit 10 c) < 10" "digit_char (the (to_digit 10 c)) = c"
    using snoc.prems digit_less digit_char_of by auto
  show ?case
  proof (cases "cs = []")
    case True
    then show ?thesis using c by (subst radix_text.simps) (simp add: digits_value_def)
  next
    case False
    then have h: "hd cs \<noteq> CHR ''0''" using snoc.prems by auto
    then have "0 < digits_value 10 cs" using digits_value_pos[of cs] False snoc.prems by simp
    moreover have "radix_text 10 (digits_value 10 cs) = cs" using snoc.IH snoc.prems False h by simp
    ultimately show ?thesis using c by (subst radix_text.simps) (simp add: digits_value_append)
  qed
qed simp

lemma takeWhile_stop: "list_all P xs \<Longrightarrow> ys = [] \<or> \<not> P (hd ys) \<Longrightarrow> takeWhile P (xs @ ys) = xs \<and> dropWhile P (xs @ ys) = ys"
  by (induction xs) (cases ys; auto)+

lemma radix_text_no_zero: "2 \<le> b \<Longrightarrow> b \<le> 16 \<Longrightarrow> 0 < n \<Longrightarrow> hd (radix_text b n) \<noteq> CHR ''0''"
proof (induction b n rule: radix_text.induct)
  case (1 b n)
  have "radix_text b m \<noteq> []" for m by (subst radix_text.simps) simp
  moreover have "digit_char d \<noteq> CHR ''0''" if "0 < d" "d < 16" for d
  proof
    assume "digit_char d = CHR ''0''"
    then have "to_digit 16 (digit_char d) = Some 0" by (simp add: to_digit_def ascii_defs)
    then show False using that by (simp add: to_digit_char)
  qed
  ultimately show ?case using 1
    by (subst radix_text.simps) (auto simp: div_greater_zero_iff)
qed

lemma radix_text_length: "2 \<le> b \<Longrightarrow> n < b ^ Suc k \<Longrightarrow> length (radix_text b n) \<le> Suc k"
proof (induction k arbitrary: n)
  case (Suc k)
  have "n div b < b ^ Suc k" using Suc.prems 
    by (intro less_mult_imp_div_less) (simp add: mult.commute)
  then show ?case using Suc.IH[of "n div b"] Suc.prems(1) by (subst radix_text.simps) auto
qed (simp add: radix_text.simps)

lemma read_number_text:
  assumes "2 \<le> b" "b \<le> 16" "n < bound" "length (radix_text b n) \<le> mx" "r = [] \<or> \<not> is_digit b (hd r)"
  shows "read_number b mx z bound (radix_text b n @ r) = Some (n, r)"
proof -
  note tw = takeWhile_stop[OF radix_text_digits[OF assms(1,2), of n] assms(5)]
  have ne: "radix_text b n \<noteq> []" by (subst radix_text.simps) simp
  have "length (radix_text b n) = 1" if "hd (radix_text b n) = CHR ''0''"
  proof -
    have "n = 0" using that radix_text_no_zero[OF assms(1,2)] by auto
    then show ?thesis using assms(1) by (simp add: radix_text.simps)
  qed
  then have "\<not> (hd (radix_text b n) = CHR ''0'' \<and> 1 < length (radix_text b n))" by auto
  then show ?thesis using assms(3,4) conjunct1[OF tw] conjunct2[OF tw] ne digits_value_radix[OF assms(1,2), of n]
    by (auto simp: read_number_def Let_def)
qed

lemma read_decimal_inv:
  assumes "read_number 10 3 False 256 s = Some (v, r)"
  shows "s = radix_text 10 v @ r \<and> v < 256"
proof -
  let ?ds = "takeWhile (is_digit 10) s"
  have d: "?ds \<noteq> []" "hd ?ds = CHR ''0'' \<longrightarrow> length ?ds = 1" "v = digits_value 10 ?ds" "v < 256"
    "r = dropWhile (is_digit 10) s"
    using assms by (auto simp: read_number_def Let_def not_less le_Suc_eq length_0_conv split: if_splits)
  have "list_all (is_digit 10) ?ds" by (auto simp: list_all_iff dest: set_takeWhileD)
  then have "radix_text 10 v = ?ds" using radix_text_value[of ?ds] d by simp
  then show ?thesis using d by simp
qed

section \<open>Text of addresses\<close>

text \<open>The groups of a number in base \<open>b\<close>, the most significant first, and their text.\<close>

fun groups_of :: "nat \<Rightarrow> nat \<Rightarrow> nat \<Rightarrow> nat list" where
  "groups_of b 0 v = []"
| "groups_of b (Suc k) v = groups_of b k (v div b) @ [v mod b]"

definition group_text :: "char \<Rightarrow> nat \<Rightarrow> nat list \<Rightarrow> string" where
  "group_text sep radix gs = join_with [sep] (map (radix_text radix) gs)"

definition dotted_quad :: "u32 \<Rightarrow> string" where
  "dotted_quad a = group_text (CHR ''.'') 10 (groups_of 256 4 (unat a))"

definition eight_groups :: "u128 \<Rightarrow> string" where
  "eight_groups a = group_text (CHR '':'') 16 (groups_of 65536 8 (unat a))"

lemma length_groups_of [simp]: "length (groups_of b k v) = k"
  by (induction k arbitrary: v) auto

lemma groups_less: "0 < b \<Longrightarrow> g \<in> set (groups_of b k v) \<Longrightarrow> g < b"
  by (induction k arbitrary: v) auto

lemma group_value_snoc: "group_value b (gs @ [g]) = group_value b gs * b + g"
  by (simp add: group_value_def)

lemma group_value_groups: "group_value b (groups_of b k v) = v mod b ^ k"
proof (induction k arbitrary: v)
  case (Suc k)
  then show ?case by (simp add: group_value_snoc mod_mult2_eq mult.commute)
qed (simp add: group_value_def)

lemma groups_value: "\<forall>g \<in> set gs. g < b \<Longrightarrow> groups_of b (length gs) (group_value b gs) = gs"
  by (induction gs rule: rev_induct) (auto simp: group_value_snoc)

lemma group_value_less: "\<forall>g \<in> set gs. g < b \<Longrightarrow> group_value b gs < b ^ length gs"
proof (induction gs rule: rev_induct)
  case (snoc g gs)
  then have "group_value b gs * b + g < (group_value b gs + 1) * b" "group_value b gs + 1 \<le> b ^ length gs"
    by simp_all
  then have "group_value b gs * b + g < b ^ length gs * b" by (meson less_le_trans mult_le_mono1)
  then show ?case by (simp add: group_value_snoc mult.commute)
qed (simp add: group_value_def)

lemma group_text_Cons:
  "group_text sep radix (g # gs) = radix_text radix g @ concat (map (\<lambda>h. sep # radix_text radix h) gs)"
  by (induction gs arbitrary: g) (simp_all add: group_text_def)

section \<open>IPv4\<close>

lemma separator_not_digit: "\<not> is_digit 10 (CHR ''.'')" "\<not> is_digit 16 (CHR '':'')"
  by code_simp+

text \<open>The part of the text after the group before index \<open>i\<close>.\<close>

definition part_text :: "char \<Rightarrow> nat \<Rightarrow> nat \<Rightarrow> nat list \<Rightarrow> string" where
  "part_text sep radix i gs =
     (if i = 0 then group_text sep radix gs else concat (map (\<lambda>h. sep # radix_text radix h) gs))"

abbreviation "dots \<equiv> part_text (CHR ''.'') 10"
abbreviation "colons \<equiv> part_text (CHR '':'') 16"

lemma part_text_Cons:
  "part_text sep radix i (g # gs) = (if i = 0 then [] else [sep]) @ radix_text radix g @ part_text sep radix (Suc i) gs"
  by (simp add: part_text_def group_text_Cons)

lemma part_text_Nil [simp]: "part_text sep radix i [] = []"
  by (simp add: part_text_def group_text_def)

lemma read_octets_inv:
  "read_octets i k s = Some (gs, r) \<Longrightarrow> s = dots i gs @ r \<and> length gs = k \<and> (\<forall>g \<in> set gs. g < 256)"
proof (induction k arbitrary: i s gs)
  case 0
  then show ?case by simp
next
  case (Suc k)
  then obtain g s1 gs' where rd: "read_separator (CHR ''.'') i (read_number 10 3 False 256) s = Some (g, s1)"
    and o: "read_octets (Suc i) k s1 = Some (gs', r)" and gs: "gs = g # gs'"
    by (auto split: option.splits)
  have "s = (if i = 0 then [] else [CHR ''.'']) @ radix_text 10 g @ s1 \<and> g < 256"
    using rd by (auto simp: read_separator_def dest!: read_decimal_inv split: list.splits if_splits)
  then show ?case using Suc.IH[OF o] gs by (simp add: part_text_Cons)
qed

lemma read_octets_text:
  "\<forall>g \<in> set gs. g < 256 \<Longrightarrow> r = [] \<or> \<not> is_digit 10 (hd r) \<Longrightarrow>
     read_octets i (length gs) (dots i gs @ r) = Some (gs, r)"
proof (induction gs arbitrary: i)
  case Nil
  then show ?case by simp
next
  case (Cons g gs)
  have len: "length (radix_text 10 g) \<le> 3" using Cons.prems radix_text_length[of 10 g 2] by simp
  have stop: "dots (Suc i) gs @ r = [] \<or> \<not> is_digit 10 (hd (dots (Suc i) gs @ r))"
    using Cons.prems(2) separator_not_digit by (cases gs) (auto simp: part_text_def)
  have "read_separator (CHR ''.'') i (read_number 10 3 False 256) (dots i (g # gs) @ r) =
      Some (g, dots (Suc i) gs @ r)"
    using read_number_text[OF _ _ _ len stop, of 256 False] Cons.prems(1)
    by (cases i) (simp_all add: read_separator_def part_text_Cons)
  then show ?case using Cons.IH[of "Suc i"] Cons.prems by simp
qed

lemma read_ipv4_inv: "read_ipv4_addr s = Some (a, r) \<Longrightarrow> s = dotted_quad a @ r"
proof -
  assume "read_ipv4_addr s = Some (a, r)"
  then obtain gs where o: "read_octets 0 4 s = Some (gs, r)" and a: "a = of_nat (group_value 256 gs)"
    by (auto simp: read_ipv4_addr_def)
  have gs: "s = dots 0 gs @ r" "length gs = 4" "\<forall>g \<in> set gs. g < 256" using read_octets_inv[OF o] by auto
  have "unat a = group_value 256 gs"
    using group_value_less[OF gs(3)] gs(2) a by (simp add: unat_of_nat)
  then have "groups_of 256 4 (unat a) = gs" using groups_value[OF gs(3)] gs(2) by simp
  then show "s = dotted_quad a @ r" using gs(1) by (simp add: dotted_quad_def part_text_def)
qed

lemma read_ipv4_text: "read_ipv4_addr (dotted_quad a) = Some (a, [])"
proof -
  have "read_octets 0 4 (dotted_quad a) = Some (groups_of 256 4 (unat a), [])"
    using read_octets_text[of "groups_of 256 4 (unat a)" "[]" 0] groups_less[of 256]
    by (auto simp: dotted_quad_def part_text_def)
  moreover have "unat a mod 256 ^ 4 = unat a" using unsigned_less[of a, where 'a = nat] by simp
  ultimately show ?thesis by (simp add: read_ipv4_addr_def group_value_groups del: power_numeral)
qed

text \<open>The dotted decimal form is the only text of an IPv4 address: no leading zeros, no other radix,
  no fewer parts, nothing before or after, so two texts an issuer may write for a \<open>catnip\<close> entry
  never name the same IPv4 address.\<close>

lemma from_ip_str_v4: "from_ip_str s = Inr (IpAddress (V4 a)) \<longleftrightarrow> s = dotted_quad a"
  using read_ipv4_inv[of s] read_ipv4_text[of a]
  by (auto simp: from_ip_str_def ok_or_eq_Inr parse_ip_addr_def read_ip_addr_def split: option.splits list.splits)

section \<open>IPv6\<close>

lemma read_ipv4_dot: "CHR ''.'' \<notin> set s \<Longrightarrow> read_ipv4_addr s = None"
proof (rule ccontr)
  assume nd: "CHR ''.'' \<notin> set s" and "read_ipv4_addr s \<noteq> None"
  then obtain a r where "s = dotted_quad a @ r" using read_ipv4_inv by fastforce
  moreover have "CHR ''.'' \<in> set (dotted_quad a)"
  proof -
    have "length (groups_of 256 4 (unat a)) = Suc (Suc 2)" by simp
    then obtain g h gs where "groups_of 256 4 (unat a) = g # h # gs" by (metis length_Suc_conv)
    then show ?thesis by (simp add: dotted_quad_def group_text_Cons)
  qed
  ultimately show False using nd by simp
qed

lemma radix_text_no_dot: "CHR ''.'' \<notin> set (radix_text 16 g)" "CHR '':'' \<notin> set (radix_text 16 g)"
proof -
  have "\<not> is_digit 16 (CHR ''.'')" "\<not> is_digit 16 (CHR '':'')" by code_simp+
  then show "CHR ''.'' \<notin> set (radix_text 16 g)" "CHR '':'' \<notin> set (radix_text 16 g)"
    using radix_text_digits[of 16 g] by (auto simp: list_all_iff)
qed

lemma colons_no_dot: "CHR ''.'' \<notin> set (colons i gs)"
proof (induction gs arbitrary: i)
  case (Cons g gs)
  then show ?case using radix_text_no_dot(1)[of g] by (simp add: part_text_Cons)
qed simp

lemma read_ipv4_at_separator: "CHR ''.'' \<notin> set s \<Longrightarrow> read_separator (CHR '':'') i read_ipv4_addr s = None"
  by (auto simp: read_separator_def read_ipv4_dot split: list.split)

text \<open>Groups end at the end of the text or at a double colon.\<close>

definition groups_end :: "string \<Rightarrow> bool" where
  "groups_end r \<longleftrightarrow> r = [] \<or> (\<exists>x. r = ''::'' @ x)"

lemma read_groups_text:
  assumes "\<forall>g \<in> set gs. g < 65536" "length gs \<le> k" "groups_end r" "CHR ''.'' \<notin> set r"
  shows "read_groups i k (colons i gs @ r) = (gs, False, r)"
  using assms(1,2)
proof (induction gs arbitrary: i k)
  case Nil
  have "read_separator (CHR '':'') i (read_number 16 4 True 65536) r = None"
    using assms(3) separator_not_digit
    by (auto simp: groups_end_def read_separator_def read_number_def)
  then show ?case using read_ipv4_at_separator[OF assms(4)] by (cases k) auto
next
  case (Cons g gs)
  obtain k' where k: "k = Suc k'" using Cons.prems(2) by (cases k) auto
  have len: "length (radix_text 16 g) \<le> 4" using Cons.prems(1) radix_text_length[of 16 g 3] by simp
  have stop: "colons (Suc i) gs @ r = [] \<or> \<not> is_digit 16 (hd (colons (Suc i) gs @ r))"
    using assms(3) separator_not_digit by (cases gs) (auto simp: part_text_def groups_end_def)
  have "read_separator (CHR '':'') i (read_number 16 4 True 65536) (colons i (g # gs) @ r) =
      Some (g, colons (Suc i) gs @ r)"
    using read_number_text[OF _ _ _ len stop, of 65536 True] Cons.prems(1)
    by (cases i) (simp_all add: read_separator_def part_text_Cons)
  moreover have "CHR ''.'' \<notin> set (colons i (g # gs) @ r)"
    using colons_no_dot assms(4) by (simp only: set_append Un_iff simp_thms)
  ultimately show ?case
    using Cons.IH[of k' "Suc i"] Cons.prems k read_ipv4_at_separator by (cases k') auto
qed

lemma colons_zero: "colons 0 gs = group_text (CHR '':'') 16 gs"
  by (simp add: part_text_def)

text \<open>The eight groups of an IPv6 address, and the form in which one run of zero groups is written as
  a double colon (anywhere, and for a single group too), are read back as that address.\<close>

lemma parse_ipv6_text:
  assumes "\<forall>g \<in> set hs \<union> set ts. g < 65536" "length hs + length ts \<le> 7"
  shows "parse_ip_addr (eight_groups a) = Some (V6 a) \<and>
     parse_ip_addr (group_text (CHR '':'') 16 hs @ ''::'' @ group_text (CHR '':'') 16 ts) =
       Some (V6 (of_nat (group_value 65536 (hs @ replicate (8 - length hs - length ts) 0 @ ts))))"
proof
  have "\<forall>g \<in> set (groups_of 65536 8 (unat a)). g < 65536" using groups_less[of 65536] by simp
  from read_groups_text[OF this, of 8 "[]" 0] have "read_groups 0 8 (eight_groups a) = (groups_of 65536 8 (unat a), False, [])"
    by (simp add: groups_end_def eight_groups_def colons_zero)
  moreover have "unat a mod 65536 ^ 8 = unat a" using unsigned_less[of a, where 'a = nat] by simp
  moreover have "CHR ''.'' \<notin> set (eight_groups a)" using colons_no_dot[of 0] by (simp add: eight_groups_def colons_zero)
  ultimately show "parse_ip_addr (eight_groups a) = Some (V6 a)"
    by (simp add: parse_ip_addr_def read_ip_addr_def read_ipv4_dot read_ipv6_addr_def group_value_groups del: power_numeral)
  let ?r = "''::'' @ colons 0 ts"
  have nd: "CHR ''.'' \<notin> set (colons 0 hs @ ?r)" "CHR ''.'' \<notin> set ?r" using colons_no_dot by auto
  have "read_groups 0 8 (colons 0 hs @ ?r) = (hs, False, ?r)"
    using assms nd(2) by (intro read_groups_text) (auto simp: groups_end_def)
  moreover have "read_groups 0 (7 - length hs) (colons 0 ts) = (ts, False, [])"
    using assms read_groups_text[of ts "7 - length hs" "[]" 0] by (simp add: groups_end_def)
  ultimately show "parse_ip_addr (group_text (CHR '':'') 16 hs @ ''::'' @ group_text (CHR '':'') 16 ts) =
       Some (V6 (of_nat (group_value 65536 (hs @ replicate (8 - length hs - length ts) 0 @ ts))))"
    using assms(2) nd(1) unfolding colons_zero[symmetric]
    by (simp add: parse_ip_addr_def read_ip_addr_def read_ipv4_dot read_ipv6_addr_def)
qed

section \<open>Ranges on the wire\<close>

text \<open>The bits of an address between the end of a prefix and the next octet boundary, and the address
  with every octet after that boundary cleared.\<close>

definition partial_host_bits :: "ip_addr \<Rightarrow> byte \<Rightarrow> nat" where
  "partial_host_bits a l =
     (let n = prefix_byte_count l
      in ip_value a div 2 ^ (addr_bits a - 8 * n) mod 2 ^ (8 * n - unat l))"

fun cleared :: "ip_addr \<Rightarrow> nat \<Rightarrow> ip_addr" where
  "cleared (V4 a) j = V4 (of_nat (unat a div 2 ^ j * 2 ^ j))"
| "cleared (V6 a) j = V6 (of_nat (unat a div 2 ^ j * 2 ^ j))"

lemma unat_cleared: "unat (of_nat (unat x div 2 ^ j * 2 ^ j) :: 'a::len word) = unat (x :: 'a word) div 2 ^ j * 2 ^ j"
proof -
  have "unat x div 2 ^ j * 2 ^ j < 2 ^ LENGTH('a)"
    by (meson div_times_less_eq_dividend le_less_trans unsigned_less)
  then show ?thesis by (simp only: unat_of_nat mod_less)
qed

lemma cleared_value: "ip_value (cleared a j) = ip_value a div 2 ^ j * 2 ^ j" "addr_bits (cleared a j) = addr_bits a"
    "ip_tag (cleared a j) = ip_tag a"
  by (cases a; simp only: cleared.simps ip_value.simps addr_bits.simps ip_tag.simps unat_cleared)+

lemma clear_div: "a \<le> b \<Longrightarrow> 0 < x \<Longrightarrow> v div x ^ a * x ^ a div x ^ b = v div (x ^ b :: nat)"
  by (metis div_mult2_eq le_add_diff_inverse nonzero_mult_div_cancel_right not_gr_zero power_add power_not_zero)

lemma take_be_bytes_cleared:
  assumes "n \<le> k"
  shows "take n (be_bytes k (v div 256 ^ (k - n) * 256 ^ (k - n))) = take n (be_bytes k v)"
proof (rule nth_equalityI)
  fix i assume "i < length (take n (be_bytes k (v div 256 ^ (k - n) * 256 ^ (k - n))))"
  then have i: "i < n" using assms by simp
  show "take n (be_bytes k (v div 256 ^ (k - n) * 256 ^ (k - n))) ! i = take n (be_bytes k v) ! i"
    using i assms clear_div[of "k - n" "k - 1 - i" 256 v] by (simp add: be_bytes_nth)
qed simp

lemma prefix_bytes:
  assumes "unat l \<le> addr_bits a"
  shows "prefix_byte_count l \<le> addr_bits a div 8" "unat l \<le> 8 * prefix_byte_count l"
    "addr_bits a = 8 * (addr_bits a div 8)"
  using assms by (cases a; simp add: prefix_byte_count_def)+

text \<open>Dropping the octets after the boundary changes neither what is written nor what matches.\<close>

lemma cleared_prefix:
  assumes "unat l \<le> addr_bits a" and j: "j = addr_bits a - 8 * prefix_byte_count l"
  shows "encode_network_identifier (IpPrefix (cleared a j) l) = encode_network_identifier (IpPrefix a l)"
    and "matches_ip (IpPrefix (cleared a j) l) peer = matches_ip (IpPrefix a l) peer"
proof -
  define k where "k = addr_bits a div 8"
  note b = prefix_bytes[OF assms(1), folded k_def]
  have p: "(2 :: nat) ^ j = 256 ^ (k - prefix_byte_count l)"
  proof -
    have "j = 8 * (k - prefix_byte_count l)" unfolding j using b(3) by linarith
    then show ?thesis by (simp add: power_mult)
  qed
  have "take (prefix_byte_count l) (octets (cleared a j)) = take (prefix_byte_count l) (octets a)"
    unfolding octets_be cleared_value p k_def[symmetric] by (rule take_be_bytes_cleared[OF b(1)])
  then show "encode_network_identifier (IpPrefix (cleared a j) l) = encode_network_identifier (IpPrefix a l)"
    by (simp add: octets_be cleared_value Let_def)
  have le: "j \<le> addr_bits a - unat l" using b(2) by (simp add: j)
  note d = clear_div[OF le, of 2]
  have "leading_bits (unat l) (cleared a j) = leading_bits (unat l) a"
    using d cleared_value(1)[of a j] by (cases a) simp_all
  moreover have "same_family p (cleared a j) = same_family p a" for p by (cases p; cases a) simp_all
  ultimately show "matches_ip (IpPrefix (cleared a j) l) peer = matches_ip (IpPrefix a l) peer"
    by (simp add: ip_in_prefix_iff_spec prefix_spec_def cleared_value)
qed

lemma cleared_wire:
  assumes "unat l \<le> addr_bits a" "partial_host_bits a l = 0" and j: "j = addr_bits a - 8 * prefix_byte_count l"
  shows "nip_wire (IpPrefix (cleared a j) l)"
proof -
  note b = prefix_bytes[OF assms(1)]
  have e: "addr_bits a - unat l = j + (8 * prefix_byte_count l - unat l)" using b j by linarith
  have "2 ^ (8 * prefix_byte_count l - unat l) dvd ip_value a div 2 ^ j"
    using assms(2) by (simp add: partial_host_bits_def Let_def j mod_eq_0_iff_dvd)
  then have "2 ^ (addr_bits a - unat l) dvd ip_value a div 2 ^ j * 2 ^ j"
    unfolding e power_add by (simp add: mult.commute[of "2 ^ j"])
  then show ?thesis using assms(1) by (simp add: cleared_value)
qed

lemma host_bits_refused:
  assumes "unat l \<le> addr_bits a" "partial_host_bits a l \<noteq> 0"
  shows "\<not> is_ok (validate_host_bits_zero (take (prefix_byte_count l) (octets a)) l)"
proof -
  let ?m = "prefix_byte_count l" and ?k = "addr_bits a div 8"
  note b = prefix_bytes[OF assms(1)]
  have part: "unat l mod 8 \<noteq> 0"
  proof
    assume "unat l mod 8 = 0"
    then obtain q where "unat l = 8 * q" by blast
    then have "8 * ?m = unat l" by (simp add: prefix_byte_count_def)
    then show False using assms(2) by (simp add: partial_host_bits_def)
  qed
  have k: "unat l \<le> 8 * ?k" using assms(1) b(3) by simp
  have j: "(2 :: nat) ^ (addr_bits a - 8 * ?m) = 256 ^ (?k - ?m)"
  proof -
    have "addr_bits a - 8 * ?m = 8 * (?k - ?m)" using b(3) by linarith
    then show ?thesis by (simp add: power_mult)
  qed
  have "last (take ?m (octets a)) AND drop_bit (unat l mod 8) 0xff = of_nat (partial_host_bits a l)"
    using host_bits_last[OF k part prefix_byte_count_def, of "ip_value a"]
    by (simp add: octets_be partial_host_bits_def Let_def j)
  moreover have "(of_nat (partial_host_bits a l) :: byte) \<noteq> 0"
  proof -
    have "partial_host_bits a l < 2 ^ (8 * ?m - unat l)" by (simp add: partial_host_bits_def Let_def)
    also have "\<dots> \<le> 2 ^ 8" by (rule power_increasing) (unfold prefix_byte_count_def, linarith, simp)
    finally show ?thesis using assms(2) by (auto simp: word_of_nat_eq_0_iff dest: dvd_imp_le)
  qed
  moreover have "take ?m (octets a) \<noteq> []"
  proof -
    have "0 < ?m" using part b(2) by (cases ?m) auto
    then have "0 < length (take ?m (octets a))" using b(1) by (simp add: octets_be)
    then show ?thesis using length_greater_0_conv by blast
  qed
  ultimately have "validate_host_bits_zero (take ?m (octets a)) l =
      Inl (InvalidClaimValue ''catnip: non-zero host bits in prefix /'')"
    using part by (simp only: validate_host_bits_zero_def Let_def simp_thms if_True)
  then show ?thesis by simp
qed

lemma from_cidr_ok:
  "from_cidr_str s = Inr n \<longleftrightarrow>
     (\<exists>p q a l. split_on (CHR ''/'') s = [p, q] \<and> parse_ip_addr p = Some a \<and> parse_u8 q = Some l \<and>
        unat l \<le> addr_bits a \<and> n = IpPrefix a l)"
proof -
  have "\<not> l > max_prefix a \<longleftrightarrow> unat l \<le> addr_bits a" for a l
    by (cases a) (simp_all add: not_less word_le_nat_alt)
  then show ?thesis
    by (auto simp: from_cidr_str_def ok_or_eq_Inr split: list.splits if_splits)
qed

text \<open>C33: what becomes of a range an issuer writes as text. It is always written to the wire, and read
  back exactly when the bits between the end of the prefix and the next octet boundary are zero;
  what is read then admits the same peers, although octets beyond the boundary are gone. A range
  such as \<open>10.0.0.1/31\<close>, which \<open>with_ip_range\<close> takes, makes a token no relay decodes.\<close>

theorem cidr_on_wire:
  assumes "from_cidr_str s = Inr n"
  shows "\<exists>a l v. n = IpPrefix a l \<and> encode_network_identifier n = Some v \<and>
     (is_ok (decode_network_identifier v) \<longleftrightarrow> partial_host_bits a l = 0) \<and>
     (\<forall>n' peer. decode_network_identifier v = Inr n' \<longrightarrow> matches_ip n' peer = matches_ip n peer)"
proof -
  obtain a l where n: "n = IpPrefix a l" and l: "unat l \<le> addr_bits a"
    using assms unfolding from_cidr_ok by blast
  define j where "j = addr_bits a - 8 * prefix_byte_count l"
  note b = prefix_bytes[OF l]
  obtain v where v: "encode_network_identifier n = Some v"
    and shape: "v = CTag (ip_tag a) (CMap [(CInt (uint l), CBytes (take (prefix_byte_count l) (octets a)))])"
    using b(1) by (simp add: n octets_be Let_def)
  show ?thesis
  proof (cases "partial_host_bits a l = 0")
    case True
    then obtain w where "encode_network_identifier (IpPrefix (cleared a j) l) = Some w"
      "decode_network_identifier w = Inr (IpPrefix (cleared a j) l)"
      using nip_roundtrip[OF cleared_wire[OF l True j_def]] by blast
    then have "decode_network_identifier v = Inr (IpPrefix (cleared a j) l)"
      using cleared_prefix(1)[OF l j_def] v n by simp
    then show ?thesis using n v True cleared_prefix(2)[OF l j_def] by (auto simp del: matches_ip.simps)
  next
    case False
    have "\<not> is_ok (decode_network_identifier v)"
      using host_bits_refused[OF l False]
      by (auto simp: shape decode_ip_prefix_def decode_prefix_length_fits[OF l] is_ok_iff split: if_splits)
    then show ?thesis using n v False by (auto simp: is_ok_iff)
  qed
qed

section \<open>Concrete texts\<close>

lemma digit_30: "to_digit 10 (CHR ''0'') = Some 0" "to_digit 10 (CHR ''1'') = Some 1" "to_digit 10 (CHR ''3'') = Some 3"
    "to_digit 10 (CHR ''.'') = None"
  by code_simp+

lemma misaligned_range: "from_cidr_str ''10.0.0.1/+31'' = Inr (IpPrefix (V4 0x0A000001) 31)"
proof -
  have "read_octets 0 (Suc (Suc (Suc (Suc 0)))) ''10.0.0.1'' = Some ([10, 0, 0, 1], [])"
    by (simp add: read_separator_def read_number_def is_digit_def digit_30 digits_value_def)
  moreover have "Suc (Suc (Suc (Suc 0))) = 4" by simp
  ultimately have "read_octets 0 4 ''10.0.0.1'' = Some ([10, 0, 0, 1], [])" by metis
  then have "parse_ip_addr ''10.0.0.1'' = Some (V4 0x0A000001)"
    by (simp add: parse_ip_addr_def read_ip_addr_def read_ipv4_addr_def group_value_def)
  then show ?thesis
    by (simp add: from_cidr_str_def parse_u8_def is_digit_def digit_30 digits_value_def)
qed

theorem cidr_on_wire_witness:
  "\<exists>v. encode_network_identifier (IpPrefix (V4 0x0A000001) 31) = Some v \<and> \<not> is_ok (decode_network_identifier v)"
proof -
  have "partial_host_bits (V4 0x0A000001) 31 \<noteq> 0" by (simp add: partial_host_bits_def prefix_byte_count_def)
  then show ?thesis using cidr_on_wire[OF misaligned_range] by fastforce
qed

end
