(* ===== verification/Moqt_Roles.thy ===== *)
theory Moqt_Roles
  imports Moqt_Scope
begin

text \<open>
  The actions as an enumeration ordered by their wire numbers, and what the roles of
  \<open>src/src/moqt.rs\<close> grant, action by action.
\<close>

section \<open>The actions in order\<close>

instantiation moqt_action :: linorder
begin

definition less_eq_moqt_action :: "moqt_action \<Rightarrow> moqt_action \<Rightarrow> bool" where
  "a \<le> b \<longleftrightarrow> moqt_action_i32 a \<le> moqt_action_i32 b"

definition less_moqt_action :: "moqt_action \<Rightarrow> moqt_action \<Rightarrow> bool" where
  "a < b \<longleftrightarrow> moqt_action_i32 a < moqt_action_i32 b"

instance
  by intro_classes (auto simp: less_eq_moqt_action_def less_moqt_action_def moqt_action_i32_inj)

end

instantiation moqt_action :: enum
begin

definition enum_moqt_action :: "moqt_action list" where
  "enum_moqt_action =
     [ClientSetup, ServerSetup, PublishNamespace, SubscribeNamespace, Subscribe, RequestUpdate, Publish, Fetch,
      TrackStatus]"

definition enum_all_moqt_action :: "(moqt_action \<Rightarrow> bool) \<Rightarrow> bool" where
  "enum_all_moqt_action P \<longleftrightarrow> list_all P enum_class.enum"

definition enum_ex_moqt_action :: "(moqt_action \<Rightarrow> bool) \<Rightarrow> bool" where
  "enum_ex_moqt_action P \<longleftrightarrow> list_ex P enum_class.enum"

instance
proof
  have u: "(UNIV :: moqt_action set) = set enum_class.enum"
    unfolding enum_moqt_action_def by (auto intro: moqt_action.exhaust)
  then show "(UNIV :: moqt_action set) = set enum_class.enum" .
  show "distinct (enum_class.enum :: moqt_action list)" by (simp add: enum_moqt_action_def)
  show "enum_class.enum_all P \<longleftrightarrow> Ball UNIV P" for P :: "moqt_action \<Rightarrow> bool"
    unfolding enum_all_moqt_action_def u list_all_iff ..
  show "enum_class.enum_ex P \<longleftrightarrow> Bex UNIV P" for P :: "moqt_action \<Rightarrow> bool"
    unfolding enum_ex_moqt_action_def u list_ex_iff ..
qed

end

lemma actions_sorted: "sorted (enum_class.enum :: moqt_action list)"
  by (simp add: enum_moqt_action_def less_eq_moqt_action_def)

section \<open>What a role grants\<close>

text \<open>The actions a scope grants on one track, in the order of their wire numbers.\<close>

definition granted_actions :: "moqt_scope \<Rightarrow> bytes list \<Rightarrow> bytes \<Rightarrow> moqt_action list" where
  "granted_actions s ns t = filter (\<lambda>a. scope_grants s a ns t) enum_class.enum"

lemma granted_actions_split:
  "granted_actions s ns t = (if matches_full_track_name s ns t then filter (allows_action s) enum_class.enum else [])"
  by (simp add: granted_actions_def scope_grants_def)

lemma role_matches:
  "matches_full_track_name (role_publisher n p) ns t \<longleftrightarrow> ns \<noteq> [] \<and> hd ns = n \<and> prefix p t"
  "matches_full_track_name (role_subscriber n p) ns t \<longleftrightarrow> ns \<noteq> [] \<and> hd ns = n \<and> prefix p t"
  "matches_full_track_name (role_read_only n p) ns t \<longleftrightarrow> ns \<noteq> [] \<and> hd ns = n \<and> prefix p t"
  "matches_full_track_name (role_admin n) ns t \<longleftrightarrow> ns \<noteq> [] \<and> hd ns = n"
  by (auto simp: role_defs builder_defs matches_full_track_name_split scope_matches_namespace_def
      scope_matches_track_def nm_exact_def hd_conv_nth)

text \<open>What each role grants. On a track whose namespace begins with the segment of the role and whose
  name begins with its prefix, the actions are exactly those listed here, in the order of their wire
  numbers; elsewhere, and in particular for a setup, which names no namespace, no role grants
  anything, not even the one with full access.\<close>

theorem roles_grant:
  "granted_actions (role_publisher n p) ns t =
     (if ns \<noteq> [] \<and> hd ns = n \<and> prefix p t then [PublishNamespace, Publish] else []) \<and>
   granted_actions (role_subscriber n p) ns t =
     (if ns \<noteq> [] \<and> hd ns = n \<and> prefix p t then [SubscribeNamespace, Subscribe, Fetch] else []) \<and>
   granted_actions (role_read_only n p) ns t =
     (if ns \<noteq> [] \<and> hd ns = n \<and> prefix p t then [Subscribe, Fetch] else []) \<and>
   granted_actions (role_admin n) ns t = (if ns \<noteq> [] \<and> hd ns = n then enum_class.enum else [])"
  unfolding granted_actions_split role_matches
  by (simp add: role_defs builder_defs allows_action_def enum_moqt_action_def)

end
