(* ===== verification/Cwt_Order.thy ===== *)
theory Cwt_Order
  imports Cwt_Peek
begin

text \<open>
  What \<open>validate_cbor_map_ordering\<close> of \<open>src/src/cwt.rs\<close> accepts, against the rule of RFC 8949, section
  4.2.1: the keys of a map stand in the bytewise lexicographic order of their deterministic encodings.
  The specification does not mention the comparison the code makes (\<open>cbor_canonical_key_cmp\<close>, by sign
  and magnitude): it encodes the keys (\<open>enc_cbor\<close>) and compares the bytes. That the two orders agree on
  integers is the lemma \<open>canon_less_bytes\<close>.
\<close>

section \<open>The order of the encodings\<close>

definition bytewise :: "bytes \<Rightarrow> bytes \<Rightarrow> bool" where
  "bytewise a b \<longleftrightarrow> (a, b) \<in> lexord {(x, y). x < y}"

lemma bytewise_simps [simp]:
  "\<not> bytewise a []" "bytewise [] (y # b)" "bytewise (x # a) (y # b) \<longleftrightarrow> x < y \<or> x = y \<and> bytewise a b"
  by (simp_all add: bytewise_def)

lemma bytewise_be: "bytewise (be_bytes k n) (be_bytes k m) \<longleftrightarrow> n mod 256 ^ k < m mod 256 ^ k"
proof (induction k)
  case (Suc k)
  let ?B = "256 ^ k :: nat"
  have split: "x mod 256 ^ Suc k = ?B * (x div ?B mod 256) + x mod ?B" for x
    by (metis mod_mult2_eq mult.commute power_Suc)
  have w: "(of_nat x :: byte) < of_nat y \<longleftrightarrow> x mod 256 < y mod 256" "(of_nat x :: byte) = of_nat y \<longleftrightarrow> x mod 256 = y mod 256"
    for x y :: nat
    by (simp_all add: word_less_nat_alt word_unat_eq_iff unat_of_nat)
  let ?p = "n div ?B mod 256" and ?q = "m div ?B mod 256"
  have r: "n mod ?B < ?B" "m mod ?B < ?B" by (rule mod_less_divisor, simp)+
  have "?B * ?p + n mod ?B < ?B * ?q + m mod ?B \<longleftrightarrow> ?p < ?q \<or> ?p = ?q \<and> n mod ?B < m mod ?B"
  proof (rule linorder_cases[of ?p ?q])
    assume "?p < ?q"
    then have "?B * Suc ?p \<le> ?B * ?q" by (intro mult_le_mono2) simp
    then show ?thesis using r(1) \<open>?p < ?q\<close> by (simp del: mod_less_divisor)
  next
    assume "?q < ?p"
    then have "?B * Suc ?q \<le> ?B * ?p" by (intro mult_le_mono2) simp
    then show ?thesis using r(2) \<open>?q < ?p\<close> by (simp del: mod_less_divisor)
  qed simp
  then show ?case unfolding split by (simp add: w Suc.IH)
qed simp

lemma bytewise_head_arg:
  assumes "head_ai n = head_ai m" "n < 2 ^ 64" "m < 2 ^ 64"
  shows "bytewise (head_arg n) (head_arg m) \<longleftrightarrow> 24 \<le> n \<and> n < m"
  using assms bytewise_be[of 1 n m] bytewise_be[of 2 n m] bytewise_be[of 4 n m] bytewise_be[of 8 n m]
  by (auto simp: head_ai_def head_arg_def simp del: be_bytes.simps One_nat_def split: if_splits)

lemma head_ai_order: "head_ai n < head_ai m \<Longrightarrow> n < m" "head_ai n = head_ai m \<Longrightarrow> n < 24 \<Longrightarrow> n = m"
  by (auto simp: head_ai_def split: if_splits)

lemma bytewise_head:
  assumes "mt < 8" "mt' < 8" "n < 2 ^ 64" "m < 2 ^ 64"
  shows "bytewise (cbor_head mt n) (cbor_head mt' m) \<longleftrightarrow> mt < mt' \<or> mt = mt' \<and> n < m"
proof -
  let ?x = "mt * 32 + head_ai n" and ?y = "mt' * 32 + head_ai m"
  have b: "?x < 256" "?y < 256" using assms(1,2) head_ai_less[of n] head_ai_less[of m] by simp_all
  have "bytewise (cbor_head mt n) (cbor_head mt' m) \<longleftrightarrow> ?x < ?y \<or> ?x = ?y \<and> bytewise (head_arg n) (head_arg m)"
    using b by (simp add: cbor_head_def word_less_nat_alt word_unat_eq_iff unat_of_nat del: of_nat_add of_nat_mult)
  moreover have "?x < ?y \<longleftrightarrow> mt < mt' \<or> mt = mt' \<and> head_ai n < head_ai m"
    "?x = ?y \<longleftrightarrow> mt = mt' \<and> head_ai n = head_ai m"
    using head_ai_less[of n] head_ai_less[of m] by presburger+
  moreover have "head_ai n < head_ai m \<or> head_ai n = head_ai m \<and> bytewise (head_arg n) (head_arg m) \<longleftrightarrow> n < m"
    using bytewise_head_arg[OF _ assms(3,4)] head_ai_order[of n m] head_ai_order[of m n]
    by (metis less_irrefl_nat linorder_neqE_nat not_le_imp_less order_less_asym)
  ultimately show ?thesis by blast
qed

text \<open>The comparison of the code, by sign and magnitude, is the order of the encoded bytes.\<close>

lemma canon_less_bytes:
  assumes "in_i64 a" "in_i64 b"
  shows "canon_less a b \<longleftrightarrow> bytewise (enc_cbor fl (CInt a)) (enc_cbor fl (CInt b))"
proof -
  have "nat a < 2 ^ 64" "nat b < 2 ^ 64" "nat (- 1 - a) < 2 ^ 64" "nat (- 1 - b) < 2 ^ 64"
    using assms by (auto simp: in_i64_def i64_min_def i64_max_def)
  then show ?thesis by (auto simp: canon_less_iff bytewise_head)
qed

section \<open>The rule\<close>

fun is_int_key :: "cbor \<Rightarrow> bool" where
  "is_int_key (CInt i) = True"
| "is_int_key _ = False"

text \<open>In every map the keys are distinct and those that \<open>P\<close> selects ascend in the bytewise order of
  their encodings.\<close>

fun deterministic :: "(f64 \<Rightarrow> bytes) \<Rightarrow> (cbor \<Rightarrow> bool) \<Rightarrow> cbor \<Rightarrow> bool" where
  "deterministic fl P (CMap m) \<longleftrightarrow>
     distinct (map fst m) \<and> sorted_wrt bytewise (map (enc_cbor fl) (filter P (map fst m))) \<and>
     list_all (\<lambda>(k, v). deterministic fl P v) m"
| "deterministic fl P (CArray xs) \<longleftrightarrow> list_all (deterministic fl P) xs"
| "deterministic fl P (CTag t v) \<longleftrightarrow> deterministic fl P v"
| "deterministic fl P _ \<longleftrightarrow> True"

text \<open>Maps keyed by 64-bit integers, texts and byte strings, at every depth.\<close>

fun plain_key :: "cbor \<Rightarrow> bool" where
  "plain_key (CInt i) \<longleftrightarrow> in_i64 i"
| "plain_key (CText s) \<longleftrightarrow> True"
| "plain_key (CBytes b) \<longleftrightarrow> True"
| "plain_key _ \<longleftrightarrow> False"

fun plain_keys :: "cbor \<Rightarrow> bool" where
  "plain_keys (CMap m) \<longleftrightarrow> list_all (\<lambda>(k, v). plain_key k \<and> plain_keys v) m"
| "plain_keys (CArray xs) \<longleftrightarrow> list_all plain_keys xs"
| "plain_keys (CTag t v) \<longleftrightarrow> plain_keys v"
| "plain_keys _ \<longleftrightarrow> True"

lemma plain_fingerprint:
  "plain_key k \<Longrightarrow> plain_key k' \<Longrightarrow> key_fingerprint k = key_fingerprint k' \<longleftrightarrow> k = k'"
  "plain_key k \<Longrightarrow> key_fingerprint k \<noteq> None"
  by (cases k; cases k'; simp) (cases k; simp)

lemma plain_fps:
  assumes "list_all (\<lambda>(k, v). plain_key k) m"
  shows "distinct (key_fps m) \<longleftrightarrow> distinct (map fst m)"
proof -
  have "map Some (key_fps m) = map (key_fingerprint \<circ> fst) m"
    using assms by (induction m) (auto split: option.split dest: plain_fingerprint(2))
  then have "distinct (key_fps m) \<longleftrightarrow> distinct (map key_fingerprint (map fst m))"
    by (metis distinct_map inj_Some inj_on_subset map_map top_greatest)
  moreover have "inj_on key_fingerprint (set (map fst m))"
    using assms plain_fingerprint(1) by (fastforce simp: inj_on_def list_all_iff)
  ultimately show ?thesis by (metis distinct_map)
qed

lemma plain_ints:
  assumes "list_all (\<lambda>(k, v). plain_key k) m"
  shows "filter is_int_key (map fst m) = map CInt (int_keys m) \<and> list_all in_i64 (int_keys m)"
  using assms by (induction m rule: int_keys.induct) (auto simp: i64_or_max_def)

lemma sorted_ints:
  "list_all in_i64 is \<Longrightarrow> sorted_wrt canon_less is \<longleftrightarrow> sorted_wrt bytewise (map (enc_cbor fl) (map CInt is))"
proof (induction "is")
  case (Cons i js)
  then have "\<forall>j \<in> set js. canon_less i j \<longleftrightarrow> bytewise (enc_cbor fl (CInt i)) (enc_cbor fl (CInt j))"
    using canon_less_bytes by (auto simp: list_all_iff simp del: enc_cbor.simps)
  then show ?case using Cons by (simp del: enc_cbor.simps)
qed simp

lemma canonical_deterministic: "plain_keys v \<Longrightarrow> canonical v \<longleftrightarrow> deterministic fl is_int_key v"
proof (induction v rule: canonical.induct)
  case (1 m)
  have m: "list_all (\<lambda>(k, v). plain_key k) m" using 1(2) by (auto simp: list_all_iff)
  have "list_all (\<lambda>(k, v). canonical v) m \<longleftrightarrow> list_all (\<lambda>(k, v). deterministic fl is_int_key v) m"
    using 1 by (fastforce simp: list_all_iff)
  then show ?case
    using plain_fps[OF m] plain_ints[OF m] sorted_ints[of "int_keys m" fl] by simp
qed (auto simp: list_all_iff)

text \<open>C27: the order check against RFC 8949. For a map keyed, at every depth, by 64-bit integers, texts
  and byte strings, it succeeds if and only if in every map no key occurs twice and the integer keys
  ascend in the bytewise order of their encodings, and the whole is no higher than the limit. On maps
  with integer keys alone, which the claims and the maps within them are, this is the rule for
  deterministic encoding; among texts and byte strings the check asks for no order, only that they
  differ. \<open>fl\<close> writes the floats, of which no key is one.\<close>

theorem order_check_rfc8949:
  assumes "plain_keys (CMap m)"
  shows "validate_cbor_map_ordering mx m = Inr () \<longleftrightarrow>
    deterministic fl is_int_key (CMap m) \<and> cbor_height (CMap m) \<le> mx"
  using canonical_deterministic[OF assms] validate_ordering_exact by blast

text \<open>Outside those keys the check is stricter than the rule: the two booleans count as one key, and
  integers beyond 64 bits as the largest.\<close>

lemma order_check_strict:
  assumes "plain_keys v" "plain_keys w"
  shows "validate_cbor_map_ordering mx [(CBool False, v), (CBool True, w)] \<noteq> Inr ()"
    "validate_cbor_map_ordering mx [(CInt (2 ^ 63), v), (CInt (2 ^ 63 + 1), w)] \<noteq> Inr ()"
  unfolding validate_ordering_exact
  by (simp_all add: canon_less_iff i64_or_max_def in_i64_def i64_min_def i64_max_def)

theorem order_check_rfc8949_witness:
  "validate_cbor_map_ordering 5 [(CInt 1, CNull), (CInt 256, CMap [(CText ''b'', CNull), (CText ''a'', CNull)]),
     (CInt (-1), CNull), (CInt (-2), CNull)] = Inr ()"
  by (subst order_check_rfc8949[where fl = "\<lambda>_. []"])
     (simp_all add: in_i64_def i64_min_def i64_max_def bytewise_head)

end
