(* ===== verification/Cwt_Unverified.thy ===== *)
theory Cwt_Unverified
  imports Cwt_Peek Cwt_Wire
begin

text \<open>
  The issuer that \<open>peek_issuer\<close> of \<open>src/src/cwt.rs\<close> reads from a payload before its signature is
  checked, against the issuer the decoder finds in the same bytes. On a map with a key of two bytes or
  more they differ: \<open>matches_ai_as_i64\<close> consumes the argument of the key, and \<open>skip_after_header\<close> as
  many bytes again, the head of the value; the walk goes on inside the value.
\<close>

section \<open>The walk past a wide key\<close>

lemma be_bytes_two: "be_bytes 2 n = [of_nat (n div 256), of_nat n]"
  by (simp add: numeral_2_eq_2)

lemma wide_key_enc:
  assumes "256 \<le> n" "n < 2 ^ 16"
  shows "cbor_head 0 n = 0x19 # be_bytes 2 n"
  using assms by (simp add: cbor_head_def head_ai_def head_arg_def)

lemma wide_bytes_enc:
  assumes "24 \<le> length b" "length b < 256"
  shows "enc_cbor fl (CBytes b) = 0x58 # of_nat (length b) # b"
  using assms by (simp add: cbor_head_def head_ai_def head_arg_def)

text \<open>After a key of two bytes, the two bytes of the head of a byte string count as the argument of the
  key, its first byte 0 as the value; the next entry is read inside the string.\<close>

lemma peek_wide_key:
  assumes "256 \<le> n" "n < 2 ^ 16" "0 < f" "24 \<le> length b" "length b < 256" "b = 0 # body"
  shows "peek_entries f False (Suc k) (Cursor p (cbor_head 0 n @ enc_cbor fl (CBytes b) @ r)) =
    peek_entries f False k (Cursor (p + 6) (body @ r))"
proof -
  let ?v = "0x58 # of_nat (length b) # 0 # body @ r"
  have bytes: "cbor_head 0 n @ enc_cbor fl (CBytes b) @ r = of_nat (0 * 32 + 25) # be_bytes 2 n @ ?v"
    using wide_key_enc[OF assms(1,2)] wide_bytes_enc[OF assms(4,5), of fl] assms(6)
    by (simp del: enc_cbor.simps be_bytes.simps)
  have head: "read_header (Cursor p (of_nat (0 * 32 + 25) # be_bytes 2 n @ ?v)) = Inr ((0, 25), Cursor (p + 1) (be_bytes 2 n @ ?v))"
    by (rule read_header_enc) simp_all
  have key: "matches_ai_as_i64 25 (Cursor (p + 1) (be_bytes 2 n @ ?v)) = Inr (Some n, Cursor (p + 3) ?v)"
    using read_be_enc[of 2 0 "p + 1" n ?v] assms(2)
    by (simp add: matches_ai_as_i64_def length_from_ai_def del: be_bytes.simps read_be.simps)
  have again: "skip_after_header f 0 25 (Cursor (p + 3) ?v) = Some (Inr (Cursor (p + 5) (0 # body @ r)))"
    by (simp add: skip_after_header_def skip_flat_def length_from_ai_def numeral_2_eq_2)
  have h: "read_header (Cursor (p + 5) (0 # body @ r)) = Inr ((0, 0), Cursor (p + 6) (body @ r))"
    using read_header_enc[of 0 0 "p + 5" "body @ r"] by (simp add: numeral_eq_Suc)
  have zero: "skip_next_item_at_depth f 0 (Cursor (p + 5) (0 # body @ r)) = Some (Inr (Cursor (p + 6) (body @ r)))"
    using skip_item_flat[OF h, of 0 f] assms(3) by (simp add: skip_flat_def length_from_ai_def)
  have "Some n \<noteq> Some 1" using assms(1) by simp
  then show ?thesis unfolding bytes
    by (simp only: peek_entries.simps(2) head key again zero obind_simps prod.case refl if_False if_True)
qed

lemma peek_issuer_entry:
  assumes "p + length s + 9 < 2 ^ 63" "utf8_valid s"
  shows "peek_entries f False (Suc k) (Cursor p (1 # enc_cbor fl (CText s) @ r)) = Some (Inr (Some s))"
proof -
  have "read_header (Cursor p (1 # x)) = Inr ((0, 1), Cursor (p + 1) x)" for x
    using read_header_enc[of 0 1 p x] by simp
  moreover have "read_iss (Cursor (p + 1) (enc_cbor (\<lambda>_. [0xf9, 0, 0]) (CText s) @ r)) = Inr (Some s)"
    using read_iss_enc[of "\<lambda>_. [0xf9, 0, 0]" "CText s" "p + 1" r] assms
    by (simp add: float_format_def head_arg_def)
  ultimately show ?thesis
    by (simp add: matches_ai_as_i64_def length_from_ai_def)
qed

section \<open>A custom claim that reads as an issuer\<close>

text \<open>A zero, then the entry an encoded map would have for the issuer \<open>s\<close>, padded so that the length
  takes a second byte.\<close>

definition smuggled :: "string \<Rightarrow> bytes" where
  "smuggled s = 0 # 1 # cbor_head 3 (length s) @ map byte_of_char s @ replicate 24 0"

definition smuggling_token :: "int \<Rightarrow> int \<Rightarrow> string \<Rightarrow> cat_token" where
  "smuggling_token k k' s = upd_custom (\<lambda>_. [(k, CBytes (smuggled s)), (k', CNull)]) token_new"

lemma smuggled_length: "length s \<le> 200 \<Longrightarrow> 24 \<le> length (smuggled s) \<and> length (smuggled s) < 256"
  by (simp add: smuggled_def head_arg_def)

lemma peek_smuggled:
  assumes "256 \<le> k" "k < 2 ^ 16" "length s \<le> 200" "utf8_valid s"
  shows "peek_issuer (enc_cbor fl (CMap [(CInt k, CBytes (smuggled s)), (k', v)])) = Inr (Some s)"
proof -
  let ?p = "enc_cbor fl (CMap [(CInt k, CBytes (smuggled s)), (k', v)])"
  define tail where "tail = map byte_of_char s @ replicate 24 0"
  define body where "body = 1 # enc_cbor fl (CText s) @ replicate 24 0"
  have body: "smuggled s = 0 # body" by (simp add: smuggled_def body_def)
  let ?r = "enc_cbor fl k' @ enc_cbor fl v"
  have payload: "?p = cbor_head 5 2 @ cbor_head 0 (nat k) @ enc_cbor fl (CBytes (smuggled s)) @ ?r"
    using assms(1) by (simp add: numeral_2_eq_2)
  have count: "count_from_ai (head_ai 2) (Cursor 1 x) = Inr ((2, False), Cursor 1 x)" for x
    using count_head_enc[of 2 1 x] by (simp add: head_arg_def)
  have "256 \<le> nat k" "nat k < 2 ^ 16" using assms(1,2) by auto
  note wide = peek_wide_key[OF this _ _ _ body, of "Suc (length ?p)" "Suc 0" 1 fl ?r]
  have "peek_entries (Suc (length ?p)) False (Suc (Suc 0)) (Cursor 1 (cbor_head 0 (nat k) @ enc_cbor fl (CBytes (smuggled s)) @ ?r)) =
      Some (Inr (Some s))"
    using wide smuggled_length[OF assms(3)] peek_issuer_entry[of "1 + 6" s "Suc (length ?p)" 0 fl "replicate 24 0 @ ?r"] assms(3,4)
    by (simp add: body_def del: enc_cbor.simps peek_entries.simps)
  then show ?thesis unfolding peek_issuer_def peek_issuer_fuel_def
    using header_enc[of 5 0 2] count by (simp only: payload) (simp add: head_arg_def peek_max_map_entries_def numeral_2_eq_2 del: peek_entries.simps enc_cbor.simps)
qed

lemma smuggling_decodes:
  assumes "1000 \<le> k" "k < k'" "k' < 2 ^ 16" "decode_one E b = Inr (CMap [(CInt k, CBytes (smuggled s)), (CInt k', CNull)])"
    and "length b \<le> max_cbor_payload_size default_limits"
  shows "decode_payload_with_limits E default_limits b = Inr (smuggling_token k k' s)"
proof -
  have ids: "j \<notin> set core_ids" "j \<notin> set cat_ids" "j \<notin> set other_ids" "j \<notin> set composite_ids" if "1000 \<le> j" for j
    using that by (auto simp: core_ids_def cat_ids_def other_ids_def composite_ids_def)
  have i64: "in_i64 k" "in_i64 k'" using assms(1-3) by (simp_all add: in_i64_def i64_min_def i64_max_def)
  have "validate_cbor_map_ordering (max_nesting_depth default_limits) [(CInt k, CBytes (smuggled s)), (CInt k', CNull)] = Inr ()"
    unfolding validate_ordering_exact using assms(1,2) i64 by (simp add: i64_or_max_def canon_less_iff default_limits_def)
  then show ?thesis using assms(1,2,4,5) i64 ids[of k] ids[of k']
    by (simp add: decode_payload_with_limits_def decode_payload_Suc dbind_def dlift_def dret_def dfail_def decode_claim_def
        decode_claim_value_def claim_label_def int_value.simps count_item_def counters_zero_def default_limits_def custom_full_def
        smuggling_token_def default_defs del: decode_payload_from.simps)
qed

text \<open>C23: the issuer shown to a key resolver need not be the issuer of the token. For every issuer text
  of up to 200 bytes and any two custom labels of two bytes, the token the crate's own builder and
  encoder make of two custom claims names no issuer, decodes to the token it was made from, and
  \<open>peek_issuer\<close> reads the chosen text from its payload. The encoder is assumed to write RFC 8949.\<close>

theorem peek_issuer_smuggled:
  assumes "codec_laws E" "\<And>v b. ce_write E v = Inr b \<Longrightarrow> b = enc_cbor fl v"
    and "1000 \<le> k" "k < k'" "k' < 2 ^ 16" "utf8_valid s" "length s \<le> 200"
    and "encode_payload_token E (smuggling_token k k' s) = Some (Inr payload)"
  shows "rbind (set_custom_claim k (CBytes (smuggled s)) token_new) (set_custom_claim k' CNull) = Inr (smuggling_token k k' s) \<and>
    c_iss (t_core (smuggling_token k k' s)) = None \<and>
    decode_payload_with_limits E default_limits payload = Inr (smuggling_token k k' s) \<and>
    peek_issuer payload = Inr (Some s)"
proof -
  let ?m = "[(CInt k, CBytes (smuggled s)), (CInt k', CNull)]"
  have "encode_payload_token E (smuggling_token k k' s) = Some (ce_write E (CMap ?m))"
    using assms(3,4)
    by (simp add: smuggling_token_def default_defs encode_flat_claims_def flat_steps_def put_def put_r_def put_map_def
        write_claims_def btree_of_def)
  then have w: "ce_write E (CMap ?m) = Inr payload" using assms(8) by simp
  then have p: "payload = enc_cbor fl (CMap ?m)" by (rule assms(2))
  have "length payload \<le> max_cbor_payload_size default_limits"
    using smuggled_length[OF assms(7)] unfolding p by (simp add: default_limits_def head_arg_def)
  moreover have "decode_one E payload = Inr (CMap ?m)"
    by (rule decode_one_write[OF assms(1) w]) (simp add: cbor_max_recursion_depth_def)
  ultimately have "decode_payload_with_limits E default_limits payload = Inr (smuggling_token k k' s)"
    using smuggling_decodes[OF assms(3-5)] by blast
  moreover have "peek_issuer payload = Inr (Some s)"
    unfolding p using assms(3-7) by (intro peek_smuggled) auto
  moreover have "\<not> is_reserved_claim_id k" "\<not> is_reserved_claim_id k'" using assms(3,4) by (auto simp: is_reserved_claim_id_def)
  ultimately show ?thesis using assms(4)
    by (simp add: set_custom_claim_def smuggling_token_def default_defs)
qed

text \<open>A codec for the one value of a run.\<close>

definition smuggling_map :: cbor where
  "smuggling_map = CMap [(CInt 1000, CBytes (smuggled ''trusted'')), (CInt 1001, CNull)]"

definition smuggling_codec :: codec_env where
  "smuggling_codec = \<lparr>
     ce_write = (\<lambda>v. if v = smuggling_map then Inr (enc_cbor (\<lambda>_. []) v) else Inl InvalidTokenFormat),
     ce_read = (\<lambda>b. if b = enc_cbor (\<lambda>_. []) smuggling_map then Inr (smuggling_map, length b) else Inl InvalidTokenFormat),
     ce_b64 = map char_of_byte, ce_b64d = (\<lambda>s. Inr (map byte_of_char s))\<rparr>"

theorem peek_issuer_smuggled_witness:
  "\<exists>payload. encode_payload_token smuggling_codec (smuggling_token 1000 1001 ''trusted'') = Some (Inr payload) \<and>
     is_ok (decode_payload_with_limits smuggling_codec default_limits payload) \<and> peek_issuer payload = Inr (Some ''trusted'')"
proof -
  have "byte_of_char (char_of_byte b) = b" for b
    using unsigned_less[of b, where 'a = nat] by (simp add: char_of_byte_def byte_of_char_def)
  then have laws: "codec_laws smuggling_codec" by (simp add: codec_laws_def smuggling_codec_def comp_def)
  have rfc: "b = enc_cbor (\<lambda>_. []) v" if "ce_write smuggling_codec v = Inr b" for v b
    using that by (simp add: smuggling_codec_def split: if_splits)
  have u: "utf8_valid ''trusted''" by code_simp
  have "encode_payload_token smuggling_codec (smuggling_token 1000 1001 ''trusted'') =
      Some (Inr (enc_cbor (\<lambda>_. []) smuggling_map))"
    by (simp add: smuggling_token_def smuggling_codec_def smuggling_map_def default_defs encode_flat_claims_def flat_steps_def
        put_def put_r_def put_map_def write_claims_def btree_of_def del: enc_cbor.simps)
  from peek_issuer_smuggled[OF laws rfc _ _ _ u _ this] this show ?thesis by simp
qed

end
