(* ===== verification/Relay_Examples.thy ===== *)
theory Relay_Examples
  imports Crypto Async_Auth Structured_Header Moqt_Roles
begin

text \<open>
  The deployments of \<open>src/examples/\<close>: the tokens of \<open>server_token_issuer.rs\<close> and the relay of
  \<open>relay_validator.rs\<close>, which compose what the crate exports from the builders to the wire, and from
  the wire to the grant.

  What a program prints is its list of results, with the error itself for its text. Random keys and
  identifiers and each reading of the clock are arguments. A call whose result the program unwraps
  yields its value by \<open>projr\<close>, and a lemma shows that it is not an error, or the result is passed on.
  Times are seconds: \<open>Duration\<close> is added to the time before it is truncated to them.

  Shown: what each issued token grants, and that the scenarios end as the programs announce.
\<close>

section \<open>Issuing tokens\<close>

definition bytes_of :: "string \<Rightarrow> bytes" where
  "bytes_of s = map byte_of_char s"

text \<open>\<open>encode_token\<close> with the object of an ES256 key.\<close>

definition es256_encode_token :: "codec_env \<Rightarrow> key_env \<Rightarrow> es256_algorithm \<Rightarrow> cat_token \<Rightarrow> bytes result" where
  "es256_encode_token E K key t =
     encode_token E (\<lambda>t. the (encode_payload_token E t)) (al_id (es256_object K key))
       (al_sign (es256_object K key)) t"

definition example_issuer :: string where
  "example_issuer = ''https://auth.example.com''"

definition example_relay :: string where
  "example_relay = ''moqt-relay.example.com''"

definition example_settings :: "int \<Rightarrow> catdpop_settings" where
  "example_settings w = with_jti_processing True (projr (with_window w catdpop_new))"

definition publisher_scope :: "string \<Rightarrow> moqt_scope" where
  "publisher_scope ns =
     b_build (b_track_prefix (bytes_of ''/'') (b_namespace_exact (bytes_of ns) (b_publisher builder_new)))"

definition publisher_claims :: "int \<Rightarrow> string \<Rightarrow> string \<Rightarrow> cat_token" where
  "publisher_claims now user ns =
     with_moqt_reval (Fin 300) (with_moqt_scope (publisher_scope ns)
       (with_cwt_id_str (''pub-'' @ user @ ''-'' @ int_text now)
       (with_expiration (now + 7200) (with_issued_at now (with_subject user
       (with_audience [example_relay] (with_issuer example_issuer token_new)))))))"

definition issue_publisher_token ::
  "codec_env \<Rightarrow> key_env \<Rightarrow> int \<Rightarrow> es256_algorithm \<Rightarrow> string \<Rightarrow> string \<Rightarrow> jwk option \<Rightarrow> bytes result" where
  "issue_publisher_token E K now key user ns client_jwk =
     (case client_jwk of
        None \<Rightarrow> es256_encode_token E K key (publisher_claims now user ns)
      | Some k \<Rightarrow>
          rbind (confirmation_from_jwk (cr_sha256 (ke_verify K)) k) (\<lambda>cn.
          es256_encode_token E K key (with_dpop_settings (example_settings 300)
            (with_confirmation (cnf_jkt cn) (publisher_claims now user ns)))))"

definition subscriber_scope :: "string \<Rightarrow> moqt_scope" where
  "subscriber_scope ns = b_build (b_namespace_exact (bytes_of ns) (b_subscriber builder_new))"

definition subscriber_claims :: "int \<Rightarrow> string \<Rightarrow> string list \<Rightarrow> cat_token" where
  "subscriber_claims now user nss =
     with_moqt_scopes (map subscriber_scope nss)
       (with_cwt_id_str (''sub-'' @ user @ ''-'' @ int_text now)
       (with_expiration (now + 86400) (with_issued_at now (with_subject user
       (with_audience [example_relay] (with_issuer example_issuer token_new))))))"

definition issue_subscriber_token ::
  "codec_env \<Rightarrow> key_env \<Rightarrow> int \<Rightarrow> es256_algorithm \<Rightarrow> string \<Rightarrow> string list \<Rightarrow> bytes result" where
  "issue_subscriber_token E K now key user nss = es256_encode_token E K key (subscriber_claims now user nss)"

definition admin_scope :: moqt_scope where
  "admin_scope = b_build (b_namespace_prefix [] (b_full_access builder_new))"

definition admin_claims :: "int \<Rightarrow> string \<Rightarrow> bytes \<Rightarrow> cat_token" where
  "admin_claims now admin jkt =
     with_dpop_settings (example_settings 60) (with_confirmation jkt
       (with_moqt_reval (Fin 60) (with_moqt_scope admin_scope
       (with_cwt_id_str (''admin-'' @ admin @ ''-'' @ int_text now)
       (with_expiration (now + 1800) (with_issued_at now (with_subject admin
       (with_audience [example_relay] (with_issuer example_issuer token_new)))))))))"

definition issue_admin_token ::
  "codec_env \<Rightarrow> key_env \<Rightarrow> int \<Rightarrow> es256_algorithm \<Rightarrow> string \<Rightarrow> jwk \<Rightarrow> bytes result" where
  "issue_admin_token E K now key admin client_jwk =
     rbind (confirmation_from_jwk (cr_sha256 (ke_verify K)) client_jwk) (\<lambda>cn.
     es256_encode_token E K key (admin_claims now admin (cnf_jkt cn)))"

section \<open>The relay\<close>

definition example_token_validator :: cat_token_validator where
  "example_token_validator = allow_unencrypted_privacy_claims (projr (with_clock_skew_tolerance 60
     (with_expected_audiences [example_relay] (for_expected_issuers [example_issuer]))))"

definition relay_moqt_validator :: moqt_validator where
  "relay_moqt_validator = with_min_revalidation_interval (Fin 60) mv_new"

definition example_namespace :: string where
  "example_namespace = ''live.sports.example.com''"

definition example_track :: bytes where
  "example_track = bytes_of ''/football/match123''"

definition test_claims :: "int \<Rightarrow> cat_token" where
  "test_claims now =
     with_moqt_reval (Fin 300) (with_moqt_scope (publisher_scope example_namespace)
       (with_expiration (now + 7200) (with_issued_at now (with_subject ''broadcaster123''
       (with_audience [example_relay] (with_issuer example_issuer token_new))))))"

definition create_test_token :: "codec_env \<Rightarrow> key_env \<Rightarrow> int \<Rightarrow> es256_algorithm \<Rightarrow> bytes result" where
  "create_test_token E K now key = es256_encode_token E K key (test_claims now)"

definition expired_claims :: "int \<Rightarrow> cat_token" where
  "expired_claims now =
     with_moqt_scope (b_build (b_publisher builder_new))
       (with_expiration (now - 3600) (with_audience [example_relay] (with_issuer example_issuer token_new)))"

definition create_expired_token :: "codec_env \<Rightarrow> key_env \<Rightarrow> int \<Rightarrow> es256_algorithm \<Rightarrow> bytes result" where
  "create_expired_token E K now key = es256_encode_token E K key (expired_claims now)"

abbreviation es256_decoder :: "key_env \<Rightarrow> es256_algorithm \<Rightarrow> cwt_limits decoder" where
  "es256_decoder K key \<equiv> decoder_with_algorithm (algorithm.truncate (es256_object K key))"

definition decode_and_validate ::
  "codec_env \<Rightarrow> gcm_env \<Rightarrow> key_env \<Rightarrow> int \<Rightarrow> es256_algorithm \<Rightarrow> cat_token_validator \<Rightarrow> bytes \<Rightarrow>
     validated_token result" where
  "decode_and_validate E G K now key cv bs =
     rbind (decoder_decode E G (es256_decoder K key) bs)
       (validate_token cv now)"

text \<open>\<open>s\<close> is the replay store of the validator, which this relay has none to use.\<close>

definition validate_and_authorize ::
  "codec_env \<Rightarrow> gcm_env \<Rightarrow> key_env \<Rightarrow> int \<Rightarrow> auth_env \<Rightarrow> 's store_ops \<Rightarrow> es256_algorithm \<Rightarrow>
     cat_token_validator \<Rightarrow> moqt_validator \<Rightarrow> bytes \<times> moqt_action \<times> bytes \<times> bytes \<Rightarrow> 's \<Rightarrow>
     's \<times> authorized_request result" where
  "validate_and_authorize E G K now A ops key cv mv = (\<lambda>(bs, act, ns, track) s.
     case decode_and_validate E G K now key cv bs of
       Inl e \<Rightarrow> (s, Inl e)
     | Inr tok \<Rightarrow> authorize A ops mv tok (context_new example_relay act [ns] track) s)"

text \<open>The five scenarios of \<open>main\<close>.\<close>

definition relay_requests :: "bytes \<Rightarrow> bytes \<Rightarrow> (bytes \<times> moqt_action \<times> bytes \<times> bytes) list" where
  "relay_requests tok expired =
     [(tok, Publish, bytes_of example_namespace, example_track),
      (tok, Fetch, bytes_of example_namespace, example_track),
      (tok, Publish, bytes_of ''live.news.example.com'', bytes_of ''/breaking/story1''),
      (bytes_of ''invalid-cose-bytes'', Publish, bytes_of example_namespace, example_track),
      (expired, Publish, bytes_of example_namespace, example_track)]"

fun relay_results ::
  "('r \<Rightarrow> 's \<Rightarrow> 's \<times> 'a) \<Rightarrow> 'r list \<Rightarrow> 's \<Rightarrow> 'a list" where
  "relay_results f [] s = []"
| "relay_results f (r # rs) s = (case f r s of (s1, x) \<Rightarrow> x # relay_results f rs s1)"

definition relay_main ::
  "codec_env \<Rightarrow> gcm_env \<Rightarrow> key_env \<Rightarrow> int \<Rightarrow> auth_env \<Rightarrow> 's store_ops \<Rightarrow> es256_algorithm \<Rightarrow> bytes \<Rightarrow> bytes \<Rightarrow>
     's \<Rightarrow> authorized_request result list" where
  "relay_main E G K now A ops key tok expired s =
     relay_results (validate_and_authorize E G K now A ops key example_token_validator relay_moqt_validator)
       (relay_requests tok expired) s"

section \<open>What the tokens carry and grant\<close>

text \<open>What a decoder makes of such a token, a grant that is to be checked again after 300 seconds, and the
  refusal of a request no scope grants.\<close>

abbreviation es256_verified :: "cat_token \<Rightarrow> bytes \<Rightarrow> verified_token" where
  "es256_verified t bs \<equiv> \<lparr>vt_token = t, vt_header = \<lparr>th_alg = ALG_ES256, th_kid = None\<rparr>, vt_provenance = Signed,
     vt_serialized = bs\<rparr>"

abbreviation granted_300 :: authorized_request where
  "granted_300 \<equiv> (allowed 0)\<lparr>au_requires_revalidation := True, au_revalidation_interval := Some (Fin 300)\<rparr>"

abbreviation no_scope :: cat_error where
  "no_scope \<equiv> MoqtActionNotAuthorized ''no MOQT scope matches action''"

lemma example_unwraps: "is_ok (with_window 300 catdpop_new) \<and> is_ok (with_window 60 catdpop_new) \<and>
    is_ok (with_clock_skew_tolerance 60
      (with_expected_audiences [example_relay] (for_expected_issuers [example_issuer])))"
  by (simp add: with_window_def catdpop_max_window_secs_def with_clock_skew_tolerance_def check_tolerance_def
      max_clock_skew_tolerance_secs_def)

lemmas claims_builder = with_moqt_reval_def with_moqt_scope_def with_moqt_scopes_def with_expiration_def
  with_issued_at_def with_subject_def with_audience_def with_issuer_def with_cwt_id_str_def with_cwt_id_def
  with_confirmation_def with_dpop_settings_def default_defs push_opt_def

lemma publisher_grants:
  "scope_grants (publisher_scope n) a ns t \<longleftrightarrow>
     a \<in> {PublishNamespace, Publish} \<and> ns \<noteq> [] \<and> hd ns = bytes_of n \<and> prefix (bytes_of ''/'') t"
  using role_matches(1)[of "bytes_of n" "bytes_of ''/''" ns t]
  by (auto simp: scope_grants_def publisher_scope_def role_publisher_def builder_defs allows_action_def)

lemma subscriber_grants:
  "scope_grants (subscriber_scope n) a ns t \<longleftrightarrow>
     a \<in> {SubscribeNamespace, Subscribe, Fetch} \<and> ns \<noteq> [] \<and> hd ns = bytes_of n"
  using role_matches(2)[of "bytes_of n" "[]" ns t]
  by (auto simp: scope_grants_def subscriber_scope_def role_subscriber_def builder_defs allows_action_def)

lemma admin_grants: "\<not> scope_grants admin_scope a ns t"
  by (cases ns) (simp_all add: scope_grants_def admin_scope_def builder_defs matches_full_track_name_split
      scope_matches_namespace_def nm_prefix_def)

text \<open>An empty prefix is written, and matches and is read as nothing.\<close>

lemma admin_unread:
  "is_ok (encode_scope admin_scope) \<and> (\<forall>v. encode_scope admin_scope = Inr v \<longrightarrow> \<not> is_ok (decode_scope L v))"
  by (auto simp: admin_scope_def builder_defs nm_prefix_def bm_prefix_def encode_scope_def encode_binary_match_def
      decode_scope_def decode_scope_namespaces_def is_ok_iff MATCH_TYPE_PREFIX_def MATCH_TYPE_SUFFIX_def)

text \<open>A token of a relay of the examples: no claims but these.\<close>

definition plain_token ::
  "core_claims \<Rightarrow> informational_claims \<Rightarrow> dpop_claims \<Rightarrow> moqt_claims \<Rightarrow> cat_token" where
  "plain_token co i d m = CatToken co cat_default i d request_default (CompositeClaims None None None) m []"

lemma plain_carried:
  assumes "core_wire default_limits co" "other_wire default_limits i d request_default m"
    and "payload_fits E default_limits (plain_token co i d m)"
    and "counters_ok default_limits (payload_cost (plain_token co i d m))"
  shows "carried E default_limits (plain_token co i d m)"
proof -
  let ?L = default_limits
  have "flat_wire ?L 7 (plain_token co i d m)"
    using assms(1,2) by (simp add: flat_wire_def claims_wire_def plain_token_def custom_wire_def cat_wire_def
        on_some_def names_distinct_def claim_levels_def default_defs)
  then have "token_wire E ?L (max_nesting_depth ?L) (plain_token co i d m)"
    using assms(3) by (simp add: plain_token_def default_limits_def)
  then show ?thesis using assms(4) by (simp add: carried_def limits_default)
qed

lemma test_plain: "test_claims now = plain_token
   \<lparr>c_iss = Some example_issuer, c_aud = Some [example_relay], c_exp = Some (now + 7200), c_nbf = None, c_cti = None\<rparr>
   \<lparr>i_sub = Some ''broadcaster123'', i_iat = Some now, catifdata = None\<rparr> dpop_default
   \<lparr>mq_moqt = Some [publisher_scope example_namespace], mq_reval = Some (Fin 300)\<rparr>"
  by (simp add: test_claims_def claims_builder plain_token_def)

lemmas plain_simps = core_wire_def other_wire_def on_some_def default_defs example_issuer_def example_relay_def
  moqt_wire_def scope_wire_def publisher_scope_def builder_defs bm_wire_def nm_ctors bm_ctors bytes_of_def
  default_limits_def counters_ok_def plain_token_def flat_cost_pieces_def cost_of_def cadd_def citem_def cstring_def
  counters_zero_def aud_cost_def csum_def catdpop_wire_def

lemma plain_reval [simp]: "f64_plain (Fin 300)" "f64_plain (Fin 60)"
  unfolding f64_plain_def by simp_all code_simp+

lemma test_carried:
  assumes "in_i64 now" "in_i64 (now + 7200)" "payload_fits E default_limits (test_claims now)"
  shows "carried E default_limits (test_claims now)"
  using assms unfolding test_plain by (intro plain_carried) (simp_all add: plain_simps)

lemma expired_plain: "expired_claims now = plain_token
   \<lparr>c_iss = Some example_issuer, c_aud = Some [example_relay], c_exp = Some (now - 3600), c_nbf = None, c_cti = None\<rparr>
   informational_default dpop_default \<lparr>mq_moqt = Some [b_build (b_publisher builder_new)], mq_reval = None\<rparr>"
  by (simp add: expired_claims_def claims_builder plain_token_def)

lemma expired_carried:
  assumes "in_i64 (now - 3600)" "payload_fits E default_limits (expired_claims now)"
  shows "carried E default_limits (expired_claims now)"
  using assms unfolding expired_plain by (intro plain_carried) (simp_all add: plain_simps)

section \<open>What a decoder makes of them\<close>

lemma es256_token_reads:
  assumes laws: "codec_laws E" "key_laws K" and key: "es256_new_with_key_pair K scalar = Inr key"
    and c: "carried E default_limits t"
    and e: "es256_encode_token E K key t = Inr bs" "length bs \<le> max_token_size"
  shows "decoder_decode E G (es256_decoder K key) bs =
    Inr (es256_verified t bs)"
proof -
  let ?a = "algorithm.truncate (es256_object K key)"
  have a: "al_id ?a = ALG_ES256" "al_verify ?a = al_verify (es256_object K key)"
    "al_id (es256_object K key) = ALG_ES256" by (simp_all add: algorithm.truncate_def es256_object_def)
  have "key_matches ?a (al_sign (es256_object K key)) (es256_decoder K key)"
    using es256_signs[OF laws(2), of key scalar key] key
    by (auto simp: key_matches_def a decoder_with_algorithm_def es256_new_with_key_pair_def in_i64_def i64_min_def
        i64_max_def)
  from encoded_token_reads[OF laws(1) this, of t bs] c e
  show ?thesis by (simp add: a es256_encode_token_def decoder_decode_def decode_token_def decoder_with_algorithm_def)
qed

lemma example_validates:
  assumes "c_iss co = Some example_issuer" "c_aud co = Some [example_relay]" "c_exp co = Some e" "c_nbf co = None"
    and t: "vt_token vt = plain_token co i d m" and "in_i64 (e + 60)"
  shows "validate_token example_token_validator now vt =
     (if e + 60 < now then Inl TokenExpired else Inr (ValidatedToken vt))"
proof -
  have cv: "example_token_validator = \<lparr>v_issuers = Some {example_issuer}, v_audiences = Some {example_relay},
      v_exp_tolerance = 60, v_nbf_tolerance = 60, v_allow_unencrypted = True\<rparr>"
    by (simp add: example_token_validator_def allow_unencrypted_privacy_claims_def with_clock_skew_tolerance_def
        check_tolerance_def max_clock_skew_tolerance_secs_def with_expected_audiences_def for_expected_issuers_def
        nonempty_set_def example_issuer_def example_relay_def)
  show ?thesis
  proof (cases "e + 60 < now")
    case True
    then show ?thesis using assms
      by (simp add: validate_token_def validate_with_provenance.simps validate_flat_def check_exp_def cv plain_token_def
          checked_i64_def)
  next
    case False
    then have "validate_with_provenance example_token_validator now (vt_provenance vt) (vt_token vt) = Inr ()"
      using assms unfolding validate_with_provenance_ok validate_flat_ok
      by (simp add: cv time_ok_def identity_ok_def privacy_ok_def shape_ok_def opt_list_def plain_token_def default_defs
          composites_of_def List.map_filter_def example_issuer_def example_relay_def)
    then show ?thesis using False by (simp add: validate_token_def)
  qed
qed

lemma test_validates:
  "vt_token vt = test_claims t \<Longrightarrow> in_i64 (t + 7260) \<Longrightarrow>
     validate_token example_token_validator now vt =
       (if t + 7260 < now then Inl TokenExpired else Inr (ValidatedToken vt))"
  "vt_token vt = expired_claims t \<Longrightarrow> in_i64 (t - 3540) \<Longrightarrow>
     validate_token example_token_validator now vt =
       (if t - 3540 < now then Inl TokenExpired else Inr (ValidatedToken vt))"
  using example_validates[where vt = vt and e = "t + 7200", OF _ _ _ _ trans[OF _ test_plain[of t]]]
    example_validates[where vt = vt and e = "t - 3600", OF _ _ _ _ trans[OF _ expired_plain[of t]]]
  by (simp_all add: add.commute)

text \<open>The claims of such a token restrict nothing but the audience.\<close>

lemma example_claims_satisfied:
  assumes "c_aud co = Some [example_relay]" "rc_relay_endpoint c = example_relay" "mq_reval m \<in> {None, Some (Fin 300)}"
    and "mv_supports_reval v" "mv_min_reval v = Some (Fin 60)" "\<not> mv_require_dpop v" "\<not> mv_require_cattpk v"
  shows "precommit_claims A v (plain_token co i d m) c = Inr ()"
proof -
  have "check_reval v (Fin 300) = Inr ()" using assms(4,5) by (simp add: check_reval_def)
  then show ?thesis unfolding precommit_claims_ok
    using assms by (auto simp: claims_satisfied_def plain_token_def default_defs validate_all_headers_def
        enforce_catnip_def enforce_geo_def nonempty_opt_def Let_def)
qed

lemma example_rest:
  assumes "validated_claims tok = plain_token co i d m"
  shows "snd (authorize_precommit A v tok c guard blocked) =
     rbind (precommit_claims A v (validated_claims tok) c) (\<lambda>_.
     rbind (ok_or (match_scope_index (validated_claims tok) c) no_scope) (\<lambda>j.
     rbind (step_dpop A v tok c) (\<lambda>commit.
     Inr \<lparr>pc_scope_index = j, pc_renewal = None, pc_revalidation = mq_reval m, pc_jti_commit = commit,
          pc_replay = None\<rparr>)))"
  using assms by (auto simp: authorize_precommit_def step_catpor_def precommit_rest_def step_replay_def plain_token_def
      default_defs Let_def rbind_def split: sum.split)

lemma authorize_eq:
  "snd (authorize A ops v tok c s) =
     rbind (snd (authorize_precommit A v tok c False None)) (\<lambda>p.
     snd (commit ops v p (None :: unit replay_guard option) (s, ())))"
  by (auto simp: authorize_def rbind_def split: sum.split prod.split)

lemma relay_authorizes:
  assumes t: "validated_claims tok = plain_token co i dpop_default m"
    and c: "c = context_new example_relay act ns track" and co: "c_aud co = Some [example_relay]" and m: "mq_reval m \<in> {None, Some (Fin 300)}"
  shows "snd (authorize A ops relay_moqt_validator tok c s) =
     rbind (ok_or (match_scope_index (plain_token co i dpop_default m) c) no_scope) (\<lambda>j.
     Inr (case mq_reval m of None \<Rightarrow> allowed j
          | Some r \<Rightarrow> (allowed j)\<lparr>au_requires_revalidation := True, au_revalidation_interval := Some r\<rparr>))"
proof -
  have "precommit_claims A relay_moqt_validator (plain_token co i dpop_default m) c = Inr ()"
    using co m by (intro example_claims_satisfied)
      (simp_all add: c context_new_def relay_moqt_validator_def with_min_revalidation_interval_def mv_new_def)
  moreover have "step_dpop A relay_moqt_validator tok c = Inr None"
    by (simp add: step_dpop_def t plain_token_def default_defs)
  ultimately show ?thesis
    using m by (auto simp: authorize_eq example_rest[OF t] t commit_def commit_jti_def commit_cti_def finalize_def
        allowed_def f64_gt_def rbind_def split: sum.split option.split)
qed

lemma relay_results_independent:
  "(\<And>s. list_all2 (\<lambda>r x. snd (f r s) = x) rs xs) \<Longrightarrow> relay_results f rs s = xs"
proof (induction rs arbitrary: xs s)
  case (Cons r rs)
  obtain x ys where xs: "xs = x # ys" using Cons.prems[of s] by (cases xs) auto
  have "relay_results f rs s' = ys" for s' using Cons.prems by (intro Cons.IH) (simp add: xs)
  then show ?case using Cons.prems[of s] by (auto simp: xs split: prod.split)
qed simp

lemma publisher_scope_matches:
  "match_scope_index (test_claims t) (context_new r act [ns] track) =
     (if act \<in> {PublishNamespace, Publish} \<and> ns = bytes_of example_namespace \<and> prefix (bytes_of ''/'') track
      then Some 0 else None)"
  unfolding test_plain
  by (auto simp: match_scope_index_def plain_token_def scope_matches_grants publisher_grants context_new_def)

text \<open>A relay of the example and a token: what is decoded, and what is decided.\<close>

lemma test_token_validated:
  assumes laws: "codec_laws E" "key_laws K" and key: "es256_new_with_key_pair K scalar = Inr key"
    and tok: "create_test_token E K t key = Inr tok" "length tok \<le> max_token_size"
      "payload_fits E default_limits (test_claims t)" "in_i64 t" "in_i64 (t + 7260)" "now \<le> t + 7260"
  shows "decode_and_validate E G K now key example_token_validator tok =
     Inr (ValidatedToken (es256_verified (test_claims t) tok))"
proof -
  have "in_i64 (t + 7200)" using tok(4,5) by (simp add: in_i64_def)
  then have "decoder_decode E G (es256_decoder K key) tok = Inr (es256_verified (test_claims t) tok)"
    using tok by (intro es256_token_reads[OF laws key]) (simp_all add: create_test_token_def test_carried)
  then show ?thesis using tok(5,6) by (simp add: decode_and_validate_def test_validates)
qed

lemma expired_token_refused:
  assumes laws: "codec_laws E" "key_laws K" and key: "es256_new_with_key_pair K scalar = Inr key"
    and tok: "create_expired_token E K t key = Inr tok" "length tok \<le> max_token_size"
      "payload_fits E default_limits (expired_claims t)" "in_i64 (t - 3600)" "in_i64 t" "t - 3540 < now"
  shows "decode_and_validate E G K now key example_token_validator tok = Inl TokenExpired"
proof -
  have "in_i64 (t - 3540)" using tok(4,5) by (simp add: in_i64_def)
  moreover have "decoder_decode E G (es256_decoder K key) tok = Inr (es256_verified (expired_claims t) tok)"
    using tok by (intro es256_token_reads[OF laws key]) (simp_all add: create_expired_token_def expired_carried)
  ultimately show ?thesis using tok(6) by (simp add: decode_and_validate_def test_validates)
qed

lemma test_token_authorized:
  "snd (authorize A ops relay_moqt_validator (ValidatedToken (es256_verified (test_claims t) tok))
     (context_new example_relay act [ns] track) s) =
   (if act \<in> {PublishNamespace, Publish} \<and> ns = bytes_of example_namespace \<and> prefix (bytes_of ''/'') track
    then Inr granted_300 else Inl no_scope)"
  using relay_authorizes[OF trans[OF _ test_plain] refl, of "ValidatedToken (es256_verified (test_claims t) tok)" t
      A ops act "[ns]" track s]
  by (simp add: test_plain[symmetric] publisher_scope_matches)

lemma junk_envelope:
  assumes "ce_read E (bytes_of ''invalid-cose-bytes'') = Inr (CText ''nvalid-co'', 10)"
  shows "parse_cose_envelope E (bytes_of ''invalid-cose-bytes'') = Inl (InvalidCbor ''trailing bytes after CBOR item'')"
proof -
  have "length (bytes_of ''invalid-cose-bytes'') = 18" by code_simp
  then show ?thesis using assms by (simp add: parse_cose_envelope_def decode_one_def max_token_size_def)
qed

text \<open>C36: the relay example does what it announces. While the token it issues is within its two hours and
  the tolerance of a minute, a publication under the namespace of its scope is granted by scope 0,
  to be checked again after 300 seconds; a fetch and another namespace are refused for want of a
  scope; the text \<open>invalid-cose-bytes\<close>, in which a CBOR reader finds a text of nine bytes (the first
  byte, 0x69, is the head of one) and eight bytes more, for the bytes left over; and the token that
  expired an hour before its issue as expired. The two tokens fit the default limits and are at most
  16 KiB.\<close>

theorem relay_scenarios:
  assumes laws: "codec_laws E" "key_laws K" and key: "es256_new_with_key_pair K scalar = Inr key"
    and tok: "create_test_token E K t1 key = Inr tok" "length tok \<le> max_token_size"
      "payload_fits E default_limits (test_claims t1)" "in_i64 t1" "in_i64 (t1 + 7260)" "now \<le> t1 + 7260"
    and old: "create_expired_token E K t2 key = Inr expired" "length expired \<le> max_token_size"
      "payload_fits E default_limits (expired_claims t2)" "in_i64 (t2 - 3600)" "in_i64 t2" "t2 - 3540 < now"
    and junk: "ce_read E (bytes_of ''invalid-cose-bytes'') = Inr (CText ''nvalid-co'', 10)"
  shows "relay_main E G K now A ops key tok expired s =
     [Inr granted_300, Inl no_scope, Inl no_scope, Inl (InvalidCbor ''trailing bytes after CBOR item''), Inl TokenExpired]"
proof -
  have "decode_and_validate E G K now key example_token_validator (bytes_of ''invalid-cose-bytes'') =
      Inl (InvalidCbor ''trailing bytes after CBOR item'')"
    using junk_envelope[OF junk]
    by (simp add: decode_and_validate_def decoder_decode_def decode_token_def decoder_with_algorithm_def decode_signed_def)
  moreover have "prefix (bytes_of ''/'') example_track"
    "bytes_of ''live.news.example.com'' \<noteq> bytes_of example_namespace" by code_simp+
  ultimately show ?thesis unfolding relay_main_def relay_requests_def
    by (intro relay_results_independent) (simp add: validate_and_authorize_def test_token_validated[OF laws key tok]
        expired_token_refused[OF laws key old] test_token_authorized)
qed

text \<open>What the tokens of the issuing server grant: the publisher's, to publish tracks named from the slash
  under its namespace; the viewer's, to subscribe and fetch under each of its namespaces, through the
  first scope that names it; the administrator's, nothing at all, since an empty prefix matches no
  namespace.\<close>

lemma issued_tokens_grant:
  "match_scope_index (publisher_claims now user n) c =
     (if rc_action c \<in> {PublishNamespace, Publish} \<and> rc_namespace c \<noteq> [] \<and> hd (rc_namespace c) = bytes_of n \<and>
         prefix (bytes_of ''/'') (rc_track c) then Some 0 else None) \<and>
   (match_scope_index (subscriber_claims now user nss) c = Some j \<longleftrightarrow>
      rc_action c \<in> {SubscribeNamespace, Subscribe, Fetch} \<and> rc_namespace c \<noteq> [] \<and> j < length nss \<and>
      hd (rc_namespace c) = bytes_of (nss ! j) \<and> hd (rc_namespace c) \<notin> (\<lambda>i. bytes_of (nss ! i)) ` {..<j}) \<and>
   match_scope_index (admin_claims now user jkt) c = None"
proof (intro conjI)
  show "match_scope_index (publisher_claims now user n) c =
     (if rc_action c \<in> {PublishNamespace, Publish} \<and> rc_namespace c \<noteq> [] \<and> hd (rc_namespace c) = bytes_of n \<and>
         prefix (bytes_of ''/'') (rc_track c) then Some 0 else None)"
    by (auto simp: match_scope_index_def publisher_claims_def claims_builder scope_matches_grants publisher_grants)
  show "match_scope_index (admin_claims now user jkt) c = None"
    by (simp add: match_scope_index_def admin_claims_def claims_builder scope_matches_grants admin_grants)
  show "match_scope_index (subscriber_claims now user nss) c = Some j \<longleftrightarrow>
      rc_action c \<in> {SubscribeNamespace, Subscribe, Fetch} \<and> rc_namespace c \<noteq> [] \<and> j < length nss \<and>
      hd (rc_namespace c) = bytes_of (nss ! j) \<and> hd (rc_namespace c) \<notin> (\<lambda>i. bytes_of (nss ! i)) ` {..<j}"
    unfolding match_scope_grants
    by (auto simp: subscriber_claims_def claims_builder subscriber_grants)
qed

section \<open>The administrator's token\<close>

text \<open>A payload with an entry no decoder takes is refused.\<close>

lemma dfold_Inr: "dfold f xs s c = Some (Inr r) \<Longrightarrow> x \<in> set xs \<Longrightarrow> \<exists>s c r. f x s c = Some (Inr r)"
  by (induction xs arbitrary: s c) (auto simp: dbind_def obind_eq_Inr)

lemma refused_entry:
  assumes "codec_laws E" "reader_bounded E"
    and "ce_write E (CMap m) = Inr b" "cbor_nesting (CMap m) \<le> cbor_max_recursion_depth"
    and "kv \<in> set m" "\<And>f t c r. decode_claim L f kv t c \<noteq> Some (Inr r)"
  shows "\<not> is_ok (decode_payload_with_limits E L b)"
proof
  assume "is_ok (decode_payload_with_limits E L b)"
  moreover have "cbor_nesting v < Suc cbor_max_recursion_depth" if "decode_one E b = Inr v" for v
    using assms(2) decode_one_read[OF that] unfolding reader_bounded_def by (auto simp: less_Suc_eq_le)
  then have "runs L (decode_payload_from (Suc cbor_max_recursion_depth) E L b)"
    by (intro decode_payload_runs(1)[OF assms(1)]) auto
  then have "ended (decode_payload_from (Suc cbor_max_recursion_depth) E L b counters_zero)"
    by (simp add: runs_def counters_ok_def counters_zero_def)
  ultimately obtain r where "decode_payload_from (Suc cbor_max_recursion_depth) E L b counters_zero = Some (Inr r)"
    by (fastforce simp: decode_payload_with_limits_def ended_def is_ok_iff simp del: decode_payload_from.simps)
  moreover have "decode_one E b = Inr (CMap m)"
    using assms(4) by (intro decode_one_write[OF assms(1,3)])
  ultimately obtain c where
    "dfold (decode_claim L (decode_composite_claim cbor_max_recursion_depth E L 0)) m token_new c = Some (Inr r)"
    unfolding decode_payload_Suc by (auto simp: dbind_def dlift_def dfail_def obind_eq_Inr split: if_splits prod.splits)
  from dfold_Inr[OF this assms(5)] show False using assms(6) by blast
qed

lemma admin_entry:
  "\<exists>v. encode_moqt [admin_scope] = Inr v \<and> cbor_nesting v \<le> 5 \<and>
     (\<forall>L f t c r. decode_claim L f (CInt CLAIM_MOQT, v) t c \<noteq> Some (Inr r))"
proof -
  obtain v where v: "encode_scope admin_scope = Inr v" using conjunct1[OF admin_unread] by (auto simp: is_ok_iff)
  then have d: "\<not> is_ok (decode_scope L v)" for L using admin_unread by blast
  have n: "cbor_nesting v \<le> 4"
    using v by (auto simp: admin_scope_def builder_defs nm_prefix_def bm_prefix_def encode_scope_def encode_binary_match_def)
  have "decode_moqt L (CArray [v]) c \<noteq> Some (Inr r)" for L c r
    using d[of L] by (auto simp: decode_moqt_def dbind_def dlift_def obind_eq_Inr is_ok_iff
        split: if_splits prod.splits sum.splits)
  then have "decode_claim L f (CInt CLAIM_MOQT, CArray [v]) t c \<noteq> Some (Inr r)" for L f t c r
    by (auto simp: decode_claim_def dbind_def obind_eq_Inr decode_claim_value_def core_ids_def cat_ids_def other_ids_def
        decode_other_claim_def dlift_def claim_label_def split: prod.splits)
  then show ?thesis using v n by (intro exI[of _ "CArray [v]"]) (simp add: encode_moqt_def)
qed

lemma admin_reval: "encode_moqt_reval (Fin 60) = Inr (encode_number_shortest (Fin 60))"
  by (simp add: encode_moqt_reval_def validate_float_ok[of "Fin 60" _ "()", THEN iffD2])

lemma example_catdpop:
  "encode_catdpop (example_settings 60) = [(CInt 0, CInt 60), (CInt 1, CInt 1)]"
  by (simp add: example_settings_def with_window_def catdpop_max_window_secs_def catdpop_new_def
      with_jti_processing_def encode_catdpop_def opt_pair_def)

lemma admin_payload:
  assumes v: "encode_moqt [admin_scope] = Inr v"
  shows "\<exists>es. encode_payload_token E (admin_claims now user jkt) = Some (write_claims E es) \<and>
     distinct (map fst es) \<and> (CLAIM_MOQT, v) \<in> set es \<and> (\<forall>(k, w) \<in> set es. w = v \<or> cbor_nesting w \<le> 1)"
proof -
  note eq = admin_claims_def claims_builder encode_flat_claims_def flat_steps_def put_def put_r_def put_map_def v
    encode_cnf_def opt_pair_def example_catdpop admin_reval text_array_def confirmation_new_def
  show ?thesis
    by (cases "jkt = []"; simp add: eq) (rule exI, rule conjI, rule refl, simp add: encode_number_shortest_def)+
qed

text \<open>C38: the administrator's token is issued but worthless. The server writes it without complaint, and
  every decoder refuses it, whatever its key, resolver, policy and limits, because its scope holds an
  empty prefix, which the wire form does not carry.\<close>

theorem admin_token_refused:
  assumes laws: "codec_laws E" "reader_bounded E"
    and e: "issue_admin_token E K now key admin jwk = Inr bs" "length bs \<le> max_token_size"
    and d: "de_encryption_key d = None"
  shows "\<not> is_ok (decoder_decode E G d bs)"
proof
  assume "is_ok (decoder_decode E G d bs)"
  then obtain vt where vt: "decoder_decode E G d bs = Inr vt" by (auto simp: is_ok_iff)
  obtain cn :: confirmation_claim where e': "encode_token E (\<lambda>t. the (encode_payload_token E t)) (al_id (es256_object K key))
       (al_sign (es256_object K key)) (admin_claims now admin (cnf_jkt cn)) = Inr bs"
    using e(1) by (auto simp: issue_admin_token_def es256_encode_token_def)
  have "in_i64 (al_id (es256_object K key))" by (simp add: es256_object_def in_i64_def i64_min_def i64_max_def)
  from parse_encoded_token[OF laws(1) this e' e(2)] obtain p en
    where p: "the (encode_payload_token E (admin_claims now admin (cnf_jkt cn))) = Inr p"
      and en: "parse_cose_envelope E bs = Inr en" "en_payload_cbor en = p" by fastforce
  obtain v where v: "encode_moqt [admin_scope] = Inr v" "cbor_nesting v \<le> 5"
    "\<And>L f t c r. decode_claim L f (CInt CLAIM_MOQT, v) t c \<noteq> Some (Inr r)" using admin_entry by blast
  obtain es where es: "encode_payload_token E (admin_claims now admin (cnf_jkt cn)) = Some (write_claims E es)"
    "distinct (map fst es)" "(CLAIM_MOQT, v) \<in> set es" "\<forall>(k, w) \<in> set es. w = v \<or> cbor_nesting w \<le> 1"
    using admin_payload[OF v(1)] by blast
  define m where "m = map (\<lambda>(k, v). (CInt k, v)) (btree_of es)"
  have m: "ce_write E (CMap m) = Inr p" using p by (simp add: es(1) write_claims_def m_def)
  have set: "set (btree_of es) = set es" using btree_of_mset[OF es(2)] by (rule mset_eq_setD)
  have "cbor_nesting (CMap m) \<le> Suc 5"
    unfolding nesting_le using es(4) v(2) by (fastforce simp: m_def set)
  then have "\<not> is_ok (decode_payload_with_limits E (de_limits d) p)"
    using refused_entry[OF laws m, of "(CInt CLAIM_MOQT, v)"] v(3) es(3)
    by (force simp: m_def set cbor_max_recursion_depth_def)
  moreover have "\<exists>t. decode_payload_with_limits E (de_limits d) p = Inr t"
    using vt d en by (auto simp: decoder_decode_def decode_token_def decode_signed_def verify_and_decode_ok)
  ultimately show False by auto
qed

end
