(* ===== verification/Async_Example.thy ===== *)
theory Async_Example
  imports Relay_Examples
begin

text \<open>
  \<open>src/examples/async_relay_validator.rs\<close>: a relay over the asynchronous entry points, with a replay
  store and a replay guard of its own, a holder that signs its proofs, and the replay of one proof.

  Shown: the request of the holder is granted, and the proof presented twice is refused.
\<close>

section \<open>The asynchronous relay\<close>

text \<open>\<open>MyAsyncJtiStore\<close> and \<open>MyAsyncReplayGuard\<close>: a map and a set behind a lock.\<close>

type_synonym my_jti_store = "string \<rightharpoonup> int"

definition my_check_and_insert :: "string \<Rightarrow> int \<Rightarrow> my_jti_store \<Rightarrow> my_jti_store \<times> unit result" where
  "my_check_and_insert key iat m =
     (if m key \<noteq> None then (m, Inl ReplayAttackDetected) else (m(key \<mapsto> iat), Inr ()))"

definition my_jti_ops :: "my_jti_store async_jti_store" where
  "my_jti_ops = \<lparr>aj_insert = my_check_and_insert, aj_is_strict = True\<rparr>"

definition my_check_and_record :: "bytes set replay_guard" where
  "my_check_and_record cti seen = (insert cti seen, Inr (cti \<in> seen))"

definition my_replay_guard :: "bytes set async_replay_guard" where
  "my_replay_guard = \<lparr>ag_check = my_check_and_record, ag_is_strict = False\<rparr>"

definition async_moqt_validator :: moqt_validator where
  "async_moqt_validator =
     dpop_best_effort (example_settings 300) (with_min_revalidation_interval (Fin 60) mv_new)"

definition dpop_claims_of :: "int \<Rightarrow> bytes \<Rightarrow> cat_token" where
  "dpop_claims_of now jkt = with_confirmation jkt (test_claims now)"

definition create_dpop_token :: "codec_env \<Rightarrow> key_env \<Rightarrow> int \<Rightarrow> es256_algorithm \<Rightarrow> bytes \<Rightarrow> bytes result" where
  "create_dpop_token E K now key jkt = es256_encode_token E K key (dpop_claims_of now jkt)"

text \<open>\<open>iat\<close> is the clock when the proof is created, \<open>jti\<close> the identifier drawn or fixed.\<close>

definition build_dpop_proof ::
  "key_env \<Rightarrow> int \<Rightarrow> string \<Rightarrow> es256_algorithm \<Rightarrow> jwk \<Rightarrow> bytes \<Rightarrow> dpop_proof result" where
  "build_dpop_proof K iat jti holder holder_jwk bs =
     proof_sign (jwt_env.truncate (ke_verify K)) (al_id (es256_object K holder)) (al_sign (es256_object K holder))
       (with_access_token_hash (compute_access_token_hash (ke_verify K) bs) (with_replay_id (bytes_of jti)
         (create_for_moqt iat Publish [bytes_of example_namespace] example_track ALG_ES256 holder_jwk)))"

definition async_request :: "dpop_proof \<Rightarrow> relay_request_context" where
  "async_request pf =
     with_dpop_proof pf (context_new example_relay Publish [bytes_of example_namespace] example_track)"

definition async_attempt ::
  "'s async_validator \<Rightarrow> 'g async_replay_guard \<Rightarrow> validated_token \<Rightarrow> auth_env \<Rightarrow> dpop_proof \<Rightarrow> 's \<times> 'g \<Rightarrow>
     ('s \<times> 'g) \<times> authorized_request result" where
  "async_attempt av guard tok A pf sg = snd (async_authorize_with_replay A av tok (async_request pf) guard None sg)"

definition validate_and_authorize_async ::
  "codec_env \<Rightarrow> gcm_env \<Rightarrow> key_env \<Rightarrow> int \<Rightarrow> int \<Rightarrow> auth_env \<Rightarrow> string \<Rightarrow> es256_algorithm \<Rightarrow>
     cat_token_validator \<Rightarrow> 's async_validator \<Rightarrow> 'g async_replay_guard \<Rightarrow> es256_algorithm \<Rightarrow> jwk \<Rightarrow> bytes \<Rightarrow>
     's \<times> 'g \<Rightarrow> ('s \<times> 'g) \<times> authorized_request result" where
  "validate_and_authorize_async E G K now iat A jti key cv av guard holder holder_jwk bs sg =
     (case rbind (decode_and_validate E G K now key cv bs) (\<lambda>tok.
           rbind (build_dpop_proof K iat jti holder holder_jwk (validated_serialized tok)) (\<lambda>pf. Inr (tok, pf))) of
        Inl e \<Rightarrow> (sg, Inl e)
      | Inr (tok, pf) \<Rightarrow> async_attempt av guard tok A pf sg)"

text \<open>The first of the two attempts only leaves its proof in the store.\<close>

definition replay_same_proof_async ::
  "codec_env \<Rightarrow> gcm_env \<Rightarrow> key_env \<Rightarrow> int \<Rightarrow> int \<Rightarrow> auth_env \<Rightarrow> auth_env \<Rightarrow> es256_algorithm \<Rightarrow>
     cat_token_validator \<Rightarrow> 's async_validator \<Rightarrow> 'g async_replay_guard \<Rightarrow> es256_algorithm \<Rightarrow> jwk \<Rightarrow> bytes \<Rightarrow>
     's \<times> 'g \<Rightarrow> ('s \<times> 'g) \<times> authorized_request result" where
  "replay_same_proof_async E G K now iat A A' key cv av guard holder holder_jwk bs sg =
     (case rbind (decode_and_validate E G K now key cv bs) (\<lambda>tok.
           rbind (build_dpop_proof K iat ''replay-me'' holder holder_jwk (validated_serialized tok)) (\<lambda>pf. Inr (tok, pf))) of
        Inl e \<Rightarrow> (sg, Inl e)
      | Inr (tok, pf) \<Rightarrow> async_attempt av guard tok A' pf (fst (async_attempt av guard tok A pf sg)))"

text \<open>The two scenarios of \<open>main\<close>, on an empty store and guard.\<close>

definition async_main ::
  "codec_env \<Rightarrow> gcm_env \<Rightarrow> key_env \<Rightarrow> int \<times> int \<times> auth_env \<Rightarrow> string \<Rightarrow> int \<times> int \<times> auth_env \<times> auth_env \<Rightarrow>
     es256_algorithm \<Rightarrow> es256_algorithm \<Rightarrow> jwk \<Rightarrow> bytes \<Rightarrow> authorized_request result list" where
  "async_main E G K = (\<lambda>(now, iat, A) jti (now', iat', A', A'') key holder holder_jwk bs.
     let av = projr (async_strict async_moqt_validator my_jti_ops);
         (sg, r) = validate_and_authorize_async E G K now iat A jti key example_token_validator av my_replay_guard
                     holder holder_jwk bs (Map.empty, {});
         (sg', r') = replay_same_proof_async E G K now' iat' A' A'' key example_token_validator av my_replay_guard
                     holder holder_jwk bs sg
     in [r, r'])"

section \<open>The token of the holder\<close>

lemma dpop_plain: "dpop_claims_of t jkt = plain_token
   \<lparr>c_iss = Some example_issuer, c_aud = Some [example_relay], c_exp = Some (t + 7200), c_nbf = None, c_cti = None\<rparr>
   \<lparr>i_sub = Some ''broadcaster123'', i_iat = Some t, catifdata = None\<rparr> \<lparr>cnf = Some (confirmation_new jkt), catdpop = None\<rparr>
   \<lparr>mq_moqt = Some [publisher_scope example_namespace], mq_reval = Some (Fin 300)\<rparr>"
  by (simp add: dpop_claims_of_def test_plain plain_token_def with_confirmation_def default_defs)

lemma dpop_carried:
  assumes "in_i64 now" "in_i64 (now + 7200)" "payload_fits E default_limits (dpop_claims_of now jkt)" "jkt \<noteq> []"
  shows "carried E default_limits (dpop_claims_of now jkt)"
  using assms unfolding dpop_plain by (intro plain_carried) (simp_all add: plain_simps encode_cnf_def confirmation_new_def)

lemma dpop_validates:
  "vt_token vt = dpop_claims_of t jkt \<Longrightarrow> in_i64 (t + 7260) \<Longrightarrow> now \<le> t + 7260 \<Longrightarrow>
     validate_token example_token_validator now vt = Inr (ValidatedToken vt)"
  using example_validates[where vt = vt and e = "t + 7200", OF _ _ _ _ trans[OF _ dpop_plain[of t jkt]]]
  by (simp add: add.commute)

lemma async_validator_simps [simp]:
  "mv_supports_reval async_moqt_validator" "mv_min_reval async_moqt_validator = Some (Fin 60)"
  "\<not> mv_require_dpop async_moqt_validator" "\<not> mv_require_cattpk async_moqt_validator"
  "\<not> mv_require_tracking async_moqt_validator" "mv_expected_resource async_moqt_validator = None"
  "\<exists>dv. mv_dpop async_moqt_validator = Some dv \<and> should_honor_jti (dv_settings dv) \<and> effective_window (dv_settings dv) = 300"
  by (simp_all add: async_moqt_validator_def dpop_best_effort_def with_min_revalidation_interval_def mv_new_def dv_new_def
      dv_with_cache_size_def example_settings_def with_window_def catdpop_max_window_secs_def with_jti_processing_def
      should_honor_jti_def effective_window_def)

section \<open>The proof of the holder\<close>

text \<open>The entry the store gets for a proof.\<close>

definition proof_entry :: "key_env \<Rightarrow> bytes \<Rightarrow> string \<Rightarrow> string" where
  "proof_entry K jkt jti =
     example_issuer @ '':'' @ cr_hex (ke_verify K) jkt @ '':'' @ cr_hex (ke_verify K) (bytes_of jti)"

definition holder_of :: "key_env \<Rightarrow> es256_algorithm \<Rightarrow> jwk \<Rightarrow> bytes \<Rightarrow> bool" where
  "holder_of K holder k jkt \<longleftrightarrow> key_laws K \<and> b64url_codec (ce_b64 (ke_verify K)) (ce_b64d (ke_verify K)) \<and>
     (\<exists>scalar. es256_new_with_key_pair K scalar = Inr holder) \<and>
     from_es256_verifying_key (ce_b64 (ke_verify K)) (es_verifying holder) = Inr k \<and>
     thumbprint (cr_sha256 (ke_verify K)) k = Inr jkt"

lemmas request_defs = async_request_def with_dpop_proof_def context_new_def

lemma built_proof_validates:
  assumes h: "holder_of K holder k jkt" and pf: "build_dpop_proof K iat jti holder k bs = Inr pf"
    and window: "effective_window (dv_settings dv) = 300" and time: "0 < iat" "iat - 5 \<le> now" "now \<le> iat + 300"
  shows "validate_without_jti_commit (ke_verify K) now dv pf Publish jkt (Some (cr_sha256 (ke_verify K) bs)) = Inr ()"
    and "dp_payload pf = \<lparr>pl_cti = Some (bytes_of jti), pl_iat = iat,
       pl_actx = actx_new_moqt Publish [bytes_of example_namespace] example_track,
       pl_ath = Some (cr_sha256 (ke_verify K) bs), pl_nonce = None\<rparr>"
proof -
  let ?C = "ke_verify K" and ?c = "create_for_moqt iat Publish [bytes_of example_namespace] example_track ALG_ES256 k"
  let ?pf = "with_access_token_hash (compute_access_token_hash ?C bs) (with_replay_id (bytes_of jti) (with_wire_format WireCwt ?c))"
  have w: "with_wire_format WireCwt ?c = ?c"
    by (simp add: with_wire_format_def create_for_moqt_def proof_new_def dpop_header_new_def)
  have s: "proof_sign (jwt_env.truncate ?C) ALG_ES256 (al_sign (es256_object K holder)) ?pf = Inr pf"
    using pf unfolding w build_dpop_proof_def by (simp add: es256_object_def)
  obtain scalar where scalar: "es256_new_with_key_pair K scalar = Inr holder" using h by (auto simp: holder_of_def)
  have "validate_without_jti_commit ?C now dv pf Publish jkt (Some (compute_access_token_hash ?C bs)) = Inr ()"
    by (rule signed_proof_validates[OF _ _ _ _ _ _ refl s])
       (use h scalar time window in \<open>auto simp: holder_of_def es256_new_with_key_pair_def in_i64_def i64_min_def i64_max_def\<close>)
  then show "validate_without_jti_commit ?C now dv pf Publish jkt (Some (cr_sha256 ?C bs)) = Inr ()"
    by (simp add: compute_access_token_hash_def)
  show "dp_payload pf = \<lparr>pl_cti = Some (bytes_of jti), pl_iat = iat,
       pl_actx = actx_new_moqt Publish [bytes_of example_namespace] example_track,
       pl_ath = Some (cr_sha256 ?C bs), pl_nonce = None\<rparr>"
    using signed_proof_input[OF s] by (auto simp: with_access_token_hash_def with_replay_id_def with_wire_format_def
        upd_payload_def create_for_moqt_def proof_new_def payload_new_def compute_access_token_hash_def)
qed

lemma async_step_dpop:
  assumes h: "holder_of K holder k jkt" and tok: "vt_token vt = dpop_claims_of t jkt"
    and pf: "build_dpop_proof K iat jti holder k (vt_serialized vt) = Inr pf"
    and A: "ae_crypto A = ke_verify K" and time: "0 < iat" "iat - 5 \<le> ae_now A" "ae_now A \<le> iat + 300"
  shows "step_dpop A async_moqt_validator (ValidatedToken vt) (async_request pf) = Inr (Some (proof_entry K jkt jti, iat))"
proof -
  obtain dv where dv: "mv_dpop async_moqt_validator = Some dv" "should_honor_jti (dv_settings dv)"
    "effective_window (dv_settings dv) = 300" using async_validator_simps(7) by blast
  note built = built_proof_validates[OF h pf dv(3) time]
  have cn: "cnf (t_dpop (validated_claims (ValidatedToken vt))) = Some (confirmation_new jkt)"
    by (simp add: tok dpop_plain plain_token_def)
  have "example_track \<noteq> []" by code_simp
  then have "proof_accepted A async_moqt_validator (ValidatedToken vt) (async_request pf) (confirmation_new jkt) pf dv"
    using built(1) dv(1) by (simp add: proof_accepted_def validate_without_jti_commit_ok A request_defs built(2)
        actx_new_moqt_def resource_agrees_def shape_allows_def confirmation_new_def)
  moreover have "proof_commit_key A async_moqt_validator (validated_claims (ValidatedToken vt)) (confirmation_new jkt) pf dv =
      Some (proof_entry K jkt jti, iat)"
    using dv(2) by (simp add: proof_commit_key_def A dpop_commit_key_def dpop_commit_key_forced_def built(2) tok dpop_plain
        plain_token_def iss_text_def confirmation_new_def proof_entry_def)
  ultimately show ?thesis unfolding step_dpop_some[OF cn] by (metis (no_types))
qed

lemma async_precommit:
  assumes h: "holder_of K holder k jkt" and tok: "vt_token vt = dpop_claims_of t jkt"
    and pf: "build_dpop_proof K iat jti holder k (vt_serialized vt) = Inr pf"
    and A: "ae_crypto A = ke_verify K" and time: "0 < iat" "iat - 5 \<le> ae_now A" "ae_now A \<le> iat + 300"
  shows "snd (authorize_precommit A async_moqt_validator (ValidatedToken vt) (async_request pf) guard blocked) =
    Inr \<lparr>pc_scope_index = 0, pc_renewal = None, pc_revalidation = Some (Fin 300),
      pc_jti_commit = Some (proof_entry K jkt jti, iat), pc_replay = None\<rparr>"
proof -
  have "precommit_claims A async_moqt_validator (dpop_claims_of t jkt) (async_request pf) = Inr ()"
    unfolding dpop_plain by (rule example_claims_satisfied) (simp_all add: request_defs)
  moreover have "prefix (bytes_of ''/'') example_track" by code_simp
  then have "match_scope_index (dpop_claims_of t jkt) (async_request pf) = Some 0"
    unfolding dpop_plain
    by (simp add: match_scope_index_def plain_token_def scope_matches_grants publisher_grants request_defs)
  ultimately show ?thesis
    using example_rest[OF trans[OF _ dpop_plain[of t jkt]], of "ValidatedToken vt"] async_step_dpop[OF assms] tok
    by (simp add: dpop_plain[symmetric])
qed

text \<open>One attempt: the entry decides.\<close>

lemma async_attempt_commits:
  assumes p: "snd (authorize_precommit A (av_sync av) tok (async_request pf) True None) =
      Inr \<lparr>pc_scope_index = 0, pc_renewal = None, pc_revalidation = Some (Fin 300), pc_jti_commit = Some (e, iat),
        pc_replay = None\<rparr>"
    and st: "av_jti_store av = my_jti_ops"
  shows "async_attempt av guard tok A pf sg =
     (if fst sg e \<noteq> None then (sg, Inl ReplayAttackDetected) else (((fst sg)(e \<mapsto> iat), snd sg), Inr granted_300))"
  using p by (cases "authorize_precommit A (av_sync av) tok (async_request pf) True None"; cases sg)
    (simp add: async_attempt_def async_authorize_with_replay_def commit_async_def await_jti_def await_cti_def st
      my_jti_ops_def my_check_and_insert_def finalize_def allowed_def f64_gt_def)

abbreviation example_async :: "my_jti_store async_validator" where
  "example_async \<equiv> projr (async_strict async_moqt_validator my_jti_ops)"

lemma example_async_parts: "is_ok (async_strict async_moqt_validator my_jti_ops)"
    "av_sync example_async = async_moqt_validator" "av_jti_store example_async = my_jti_ops"
  by (simp_all add: async_strict_def my_jti_ops_def)

lemma holder_attempt:
  assumes "holder_of K holder k jkt" "vt_token vt = dpop_claims_of t jkt"
    "build_dpop_proof K iat jti holder k (vt_serialized vt) = Inr pf" "ae_crypto A = ke_verify K"
    "0 < iat" "iat - 5 \<le> ae_now A" "ae_now A \<le> iat + 300"
  shows "async_attempt example_async guard (ValidatedToken vt) A pf sg =
     (if fst sg (proof_entry K jkt jti) \<noteq> None then (sg, Inl ReplayAttackDetected)
      else (((fst sg)(proof_entry K jkt jti \<mapsto> iat), snd sg), Inr granted_300))"
  by (rule async_attempt_commits[OF _ example_async_parts(3)])
     (simp add: example_async_parts(2) async_precommit[OF assms])

lemma dpop_token_validated:
  assumes "codec_laws E" "key_laws K" "es256_new_with_key_pair K scalar = Inr key"
    and tok: "create_dpop_token E K t key jkt = Inr bs" "length bs \<le> max_token_size"
      "payload_fits E default_limits (dpop_claims_of t jkt)" "in_i64 t" "in_i64 (t + 7260)" "jkt \<noteq> []" "n \<le> t + 7260"
  shows "decode_and_validate E G K n key example_token_validator bs =
     Inr (ValidatedToken (es256_verified (dpop_claims_of t jkt) bs))"
proof -
  have "in_i64 (t + 7200)" using tok(4,5) by (simp add: in_i64_def)
  then have "decoder_decode E G (es256_decoder K key) bs =
      Inr (es256_verified (dpop_claims_of t jkt) bs)"
    using tok by (intro es256_token_reads[OF assms(1-3)]) (simp_all add: create_dpop_token_def dpop_carried)
  then show ?thesis using tok(5,7) by (simp add: decode_and_validate_def dpop_validates)
qed

section \<open>The two scenarios\<close>

text \<open>C37: the asynchronous example does what it announces. With the token of a holder, issued within its
  two hours, and proofs the holder signs within the freshness window of each decision, the first
  request is granted by scope 0 with revalidation after 300 seconds, and the proof presented twice is
  refused the second time as a replay, whatever identifiers the holder draws.\<close>

theorem async_scenarios:
  assumes laws: "codec_laws E" and key: "es256_new_with_key_pair K scalar = Inr key"
    and holder: "holder_of K holder k jkt" "jkt \<noteq> []"
    and tok: "create_dpop_token E K t key jkt = Inr bs" "length bs \<le> max_token_size"
      "payload_fits E default_limits (dpop_claims_of t jkt)" "in_i64 t" "in_i64 (t + 7260)"
    and signed: "build_dpop_proof K iat jti holder k bs = Inr pf"
      "build_dpop_proof K iat' ''replay-me'' holder k bs = Inr pf'"
    and A: "ae_crypto A = ke_verify K" "ae_crypto A' = ke_verify K" "ae_crypto A'' = ke_verify K"
    and time: "now \<le> t + 7260" "0 < iat" "iat - 5 \<le> ae_now A" "ae_now A \<le> iat + 300"
      "now' \<le> t + 7260" "0 < iat'" "iat' - 5 \<le> ae_now A'" "ae_now A' \<le> iat' + 300"
      "iat' - 5 \<le> ae_now A''" "ae_now A'' \<le> iat' + 300"
  shows "async_main E G K (now, iat, A) jti (now', iat', A', A'') key holder k bs =
     [Inr granted_300, Inl ReplayAttackDetected]"
proof -
  let ?vt = "es256_verified (dpop_claims_of t jkt) bs"
  have "key_laws K" using holder(1) by (simp add: holder_of_def)
  note valid = dpop_token_validated[OF laws this key tok holder(2)]
  note attempt = holder_attempt[OF holder(1), of ?vt t, simplified]
  have "async_attempt example_async my_replay_guard (ValidatedToken ?vt) A pf (Map.empty, {}) =
      (([proof_entry K jkt jti \<mapsto> iat], {}), Inr granted_300)"
    by (simp add: attempt[OF signed(1) A(1) time(2-4)])
  moreover have "snd (async_attempt example_async my_replay_guard (ValidatedToken ?vt) A'' pf'
      (fst (async_attempt example_async my_replay_guard (ValidatedToken ?vt) A' pf' sg))) = Inl ReplayAttackDetected" for sg
    by (simp add: attempt[OF signed(2) A(2) time(6-8)] attempt[OF signed(2) A(3) time(6,9,10)])
  ultimately show ?thesis
    using signed unfolding async_main_def validate_and_authorize_async_def replay_same_proof_async_def Let_def
    by (simp add: valid time case_prod_beta)
qed

end
