(* ===== verification/Cat_Cli.thy ===== *)
theory Cat_Cli
  imports Relay_Examples Ip_Text
begin

text \<open>
  \<open>cat-cli\<close> (\<open>src/src/bin/main.rs\<close>): the dispatch on the arguments, the sample tokens, and
  \<open>moqt-token\<close> with its options, which issues a token for a relay.

  A program ends with what it prints, or with an error, a panic among them. Files, the PEM reader for
  SEC1 keys and the clock are parameters: \<open>cl_after n\<close> is the time \<open>n\<close> seconds from now, and nothing
  where the addition panics; so are the random values. Arguments are UTF-8 (\<open>env::args\<close> panics on others).

  Shown: what a token of \<open>moqt-token\<close> grants, and that a validator refuses it unless it has been told
  to let privacy claims pass unencrypted.
\<close>

section \<open>Arguments\<close>

datatype cli_error = CliCat cat_error | CliText string | CliPanic

type_synonym 'a cli = "cli_error + 'a"

definition cat_cli :: "'a result \<Rightarrow> 'a cli" where
  "cat_cli r = (case r of Inl e \<Rightarrow> Inl (CliCat e) | Inr x \<Rightarrow> Inr x)"

definition or_panic :: "'a option \<Rightarrow> 'a cli" where
  "or_panic m = (case m of None \<Rightarrow> Inl CliPanic | Some x \<Rightarrow> Inr x)"

record cli_env =
  cl_read :: "string \<Rightarrow> string + string"
  cl_sec1_pem :: "string \<Rightarrow> string + bytes"
  cl_after :: "int \<Rightarrow> int option"
  cl_now :: int
  cl_uuid :: bytes
  cl_fill :: "nat \<Rightarrow> bytes option"
  cl_scalar :: bytes
  cl_rsa :: "nat \<Rightarrow> string + bytes"
  cl_salts :: "bytes \<times> bytes"

text \<open>\<open>i64::from_str\<close> takes a sign and leading zeros.\<close>

definition parse_i64 :: "string \<Rightarrow> int option" where
  "parse_i64 s =
     (let ds = (case s of c # r \<Rightarrow> if c = CHR ''+'' \<or> c = CHR ''-'' then r else s | [] \<Rightarrow> []);
          n = (if take 1 s = ''-'' then - int (digits_value 10 ds) else int (digits_value 10 ds))
      in if ds = [] \<or> \<not> list_all (is_digit 10) ds \<or> \<not> in_i64 n then None else Some n)"

record cli_options =
  op_issuer :: string
  op_audience :: string
  op_subject :: string
  op_expires :: int

definition cli_defaults :: cli_options where
  "cli_defaults = \<lparr>op_issuer = ''cat-cli'', op_audience = ''moq-relay'', op_subject = ''user'', op_expires = 3600\<rparr>"

text \<open>\<open>args[i]\<close> after an option that ends the arguments is out of range.\<close>

definition is_option :: "string \<Rightarrow> bool" where
  "is_option a \<longleftrightarrow> a \<in> {''--issuer'', ''--audience'', ''--subject'', ''--expires''}"

fun parse_options :: "string list \<Rightarrow> cli_options \<Rightarrow> cli_options cli" where
  "parse_options [] o1 = Inr o1"
| "parse_options [a] o1 = Inl (if is_option a then CliPanic else CliText (''unknown option: '' @ a))"
| "parse_options (a # v # rest) o1 =
     (if a = ''--issuer'' then parse_options rest (o1\<lparr>op_issuer := v\<rparr>)
      else if a = ''--audience'' then parse_options rest (o1\<lparr>op_audience := v\<rparr>)
      else if a = ''--subject'' then parse_options rest (o1\<lparr>op_subject := v\<rparr>)
      else if a = ''--expires'' then
        (case parse_i64 v of
           None \<Rightarrow> Inl (CliText ''invalid digit found in string'')
         | Some n \<Rightarrow> parse_options rest (o1\<lparr>op_expires := n\<rparr>))
      else Inl (CliText (''unknown option: '' @ a)))"

section \<open>moqt-token\<close>

definition load_signing_key :: "key_env \<Rightarrow> cli_env \<Rightarrow> string \<Rightarrow> es256_algorithm cli" where
  "load_signing_key K V path =
     (case cl_read V path of
        Inl e \<Rightarrow> Inl (CliText e)
      | Inr pem \<Rightarrow>
          (case (case ke_pkcs8_pem K pem of Inr sk \<Rightarrow> Inr sk | Inl _ \<Rightarrow> cl_sec1_pem V pem) of
             Inl e \<Rightarrow> Inl (CliText (''failed to load private key: '' @ e))
           | Inr sk \<Rightarrow> Inr (es256_from_key_pair sk (ke_p256_public K sk))))"

definition role_builder :: "string \<Rightarrow> scope_builder cli" where
  "role_builder role =
     (if role = ''publisher'' then Inr (b_publisher builder_new)
      else if role = ''subscriber'' then Inr (b_subscriber builder_new)
      else Inl (CliText (''unknown role: '' @ role @ '' (use publisher or subscriber)'')))"

definition cli_scope :: "scope_builder \<Rightarrow> string \<Rightarrow> moqt_scope" where
  "cli_scope b ns = b_build (b_track_prefix [] (b_namespace_path (bytes_of ns) b))"

definition setup_scope :: moqt_scope where
  "setup_scope = b_build (b_action ClientSetup builder_new)"

text \<open>\<open>with_expires_in\<close> of the token builder, given the time of expiration.\<close>

definition with_expires_in :: "(int \<Rightarrow> int option) \<Rightarrow> int \<Rightarrow> cat_token \<Rightarrow> cat_token cli" where
  "with_expires_in after n t = rbind (or_panic (after n)) (\<lambda>e. Inr (with_expiration e t))"

definition cli_base :: "cli_options \<Rightarrow> cat_token" where
  "cli_base o1 =
     with_subject (op_subject o1) (with_single_audience (op_audience o1) (with_issuer (op_issuer o1) token_new))"

definition cli_scopes :: "scope_builder \<Rightarrow> string \<Rightarrow> cat_token \<Rightarrow> cat_token" where
  "cli_scopes b ns t = with_moqt_scope setup_scope (with_moqt_scope (cli_scope b ns) t)"

definition generate_moqt_token ::
  "codec_env \<Rightarrow> key_env \<Rightarrow> cli_env \<Rightarrow> string \<Rightarrow> string \<Rightarrow> string \<Rightarrow> string list \<Rightarrow> string cli" where
  "generate_moqt_token E K V key_path role ns args =
     rbind (parse_options args cli_defaults) (\<lambda>o1.
     rbind (load_signing_key K V key_path) (\<lambda>key.
     rbind (role_builder role) (\<lambda>b.
     rbind (with_expires_in (cl_after V) (op_expires o1) (cli_base o1)) (\<lambda>t.
     cat_cli (encode_token_base64 E (\<lambda>t. the (encode_payload_token E t)) (al_id (es256_object K key))
       (al_sign (es256_object K key)) (cli_scopes b ns t))))))"

section \<open>The sample tokens\<close>

text \<open>The coordinates are the doubles nearest to 37.7749 and -122.4194.\<close>

definition create_sample_token :: "int \<Rightarrow> bytes \<Rightarrow> cat_token" where
  "create_sample_token now uuid =
     with_geohash ''9q8yy'' (with_geo_coordinate
       (Fin (332271534304605 / 8796093022208)) (Fin (- (538406215061445 / 4398046511104))) 100
       (with_replay_protection ReplayProhibited (with_version 1 (with_cwt_id uuid
       (with_not_before now (with_expiration (now + 3600)
       (with_audience [''https://api.example.com''] (with_issuer ''https://example.com'' token_new))))))))"

datatype sample_key = RedactedKey nat | PublicKey jwk

record sample_output =
  so_key :: sample_key
  so_token :: string
  so_iss :: "string option"
  so_aud :: "string list option"
  so_catv :: "u32 option"

text \<open>The token is signed twice, the second time for its text: \<open>a'\<close> is \<open>a\<close> with the salt of that signature.\<close>

definition sample_example ::
  "codec_env \<Rightarrow> gcm_env \<Rightarrow> crypto_algorithm \<Rightarrow> crypto_algorithm \<Rightarrow> sample_key result \<Rightarrow> cat_token \<Rightarrow>
     sample_output result" where
  "sample_example E G a a' key t =
     rbind (encode_token E (\<lambda>t. the (encode_payload_token E t)) (al_id a) (al_sign a) t) (\<lambda>encoded.
     rbind key (\<lambda>k.
     rbind (encode_token_base64 E (\<lambda>t. the (encode_payload_token E t)) (al_id a') (al_sign a') t) (\<lambda>text1.
     rbind (decoder_decode E G (decoder_with_algorithm (algorithm.truncate a)) encoded) (\<lambda>vt.
     Inr \<lparr>so_key = k, so_token = text1, so_iss = c_iss (t_core (vt_token vt)),
          so_aud = c_aud (t_core (vt_token vt)), so_catv = catv (t_cat (vt_token vt))\<rparr>))))"

definition generate_hmac_example :: "codec_env \<Rightarrow> gcm_env \<Rightarrow> key_env \<Rightarrow> cli_env \<Rightarrow> sample_output result" where
  "generate_hmac_example E G K V =
     rbind (hmac_generate_key (cl_fill V)) (\<lambda>k.
     let a = hmac_object K (hmac_from_secret_key k)
     in sample_example E G a a (Inr (RedactedKey (length (secret_bytes k))))
          (create_sample_token (cl_now V) (cl_uuid V)))"

definition generate_es256_example :: "codec_env \<Rightarrow> gcm_env \<Rightarrow> key_env \<Rightarrow> cli_env \<Rightarrow> sample_output result" where
  "generate_es256_example E G K V =
     rbind (es256_new_with_key_pair K (cl_scalar V)) (\<lambda>k.
     let a = es256_object K k
     in sample_example E G a a
          (rbind (from_es256_verifying_key (ce_b64 (ke_verify K)) (es_verifying k)) (\<lambda>j. Inr (PublicKey j)))
          (create_sample_token (cl_now V) (cl_uuid V)))"

definition generate_ps256_example :: "codec_env \<Rightarrow> gcm_env \<Rightarrow> key_env \<Rightarrow> cli_env \<Rightarrow> sample_output result" where
  "generate_ps256_example E G K V =
     rbind (ps256_new_with_key_pair K (cl_rsa V)) (\<lambda>k.
     sample_example E G (ps256_object K (fst (cl_salts V)) k) (ps256_object K (snd (cl_salts V)) k)
       (Inr (PublicKey (from_rsa_public_key (ce_b64 (ke_verify K)) (ps_public k))))
       (create_sample_token (cl_now V) (cl_uuid V)))"

section \<open>The commands\<close>

datatype cli_output = Usage | Sample sample_output | TokenText string | UnknownCommand string

definition verify_token :: "string \<Rightarrow> string \<Rightarrow> cli_output cli" where
  "verify_token token_str alg = Inl (CliText ''token verification is not yet implemented in this CLI.'')"

definition sample_command :: "sample_output result \<Rightarrow> cli_output cli" where
  "sample_command r = rbind (cat_cli r) (\<lambda>s. Inr (Sample s))"

definition cli_main :: "codec_env \<Rightarrow> gcm_env \<Rightarrow> key_env \<Rightarrow> cli_env \<Rightarrow> string list \<Rightarrow> cli_output cli" where
  "cli_main E G K V args =
     (case args of
        [] \<Rightarrow> Inl CliPanic
      | [_] \<Rightarrow> Inr Usage
      | _ # cmd # rest \<Rightarrow>
          if cmd = ''generate-hmac'' then sample_command (generate_hmac_example E G K V)
          else if cmd = ''generate-es256'' then sample_command (generate_es256_example E G K V)
          else if cmd = ''generate-ps256'' then sample_command (generate_ps256_example E G K V)
          else if cmd = ''verify'' then
            (case rest of tok # alg # _ \<Rightarrow> verify_token tok alg | _ \<Rightarrow> Inr Usage)
          else if cmd = ''moqt-token'' then
            (case rest of
               path # role # ns # opts \<Rightarrow>
                 rbind (generate_moqt_token E K V path role ns opts) (\<lambda>s. Inr (TokenText s))
             | _ \<Rightarrow> Inr Usage)
          else Inr (UnknownCommand cmd))"

section \<open>What a token of moqt-token grants\<close>

abbreviation cli_token :: "cli_options \<Rightarrow> int \<Rightarrow> scope_builder \<Rightarrow> string \<Rightarrow> cat_token" where
  "cli_token o1 e b ns \<equiv> cli_scopes b ns (with_expiration e (cli_base o1))"

lemma role_builder_ok: "role_builder role = Inr b \<longleftrightarrow>
    role = ''publisher'' \<and> b = b_publisher builder_new \<or> role = ''subscriber'' \<and> b = b_subscriber builder_new"
  by (auto simp: role_builder_def)

lemma cli_scope_grants:
  assumes "role_builder role = Inr b"
  shows "scope_grants (cli_scope b ns) a nsp t \<longleftrightarrow> a \<in> set (b_actions b) \<and> prefix (path_segments (bytes_of ns)) nsp"
proof -
  have fresh: "b_namespace_matches b = []" "b_track_match b = None"
    using assms by (auto simp: role_builder_ok builder_defs)
  have "b_track_prefix [] (b_namespace_path (bytes_of ns) b) = b_namespace_path (bytes_of ns) b"
    using fresh by (simp add: b_track_prefix_def b_namespace_path_def)
  then show ?thesis using build_namespace_path_scope[OF fresh]
    by (simp add: scope_grants_def cli_scope_def) (simp add: b_build_def b_namespace_path_def allows_action_def)
qed

lemma setup_scope_grants: "scope_grants setup_scope a nsp t \<longleftrightarrow> a = ClientSetup"
  by (auto simp: scope_grants_def setup_scope_def builder_defs allows_action_def matches_full_track_name_split
      scope_matches_namespace_def scope_matches_track_def)

lemma cli_plain: "cli_token o1 e b ns = plain_token
   \<lparr>c_iss = Some (op_issuer o1), c_aud = Some [op_audience o1], c_exp = Some e, c_nbf = None, c_cti = None\<rparr>
   \<lparr>i_sub = Some (op_subject o1), i_iat = None, catifdata = None\<rparr> dpop_default
   \<lparr>mq_moqt = Some [cli_scope b ns, setup_scope], mq_reval = None\<rparr>"
  by (simp add: cli_scopes_def cli_base_def claims_builder with_single_audience_def plain_token_def)

lemma cli_scope_wire:
  assumes "role_builder role = Inr b" "length (path_segments (bytes_of ns)) \<le> max_namespace_matches_per_scope L"
  shows "scope_wire L (cli_scope b ns)"
proof -
  have "nil_last (map nm_exact ps)" "list_all nm_wire (map nm_exact ps)" for ps
    by (induction ps) (simp_all add: nm_exact_def bm_exact_def bm_wire_def)
  moreover have "b_namespace_matches b = []" "b_actions b \<noteq> []"
    using assms(1) by (auto simp: role_builder_ok builder_defs)
  ultimately show ?thesis using assms(2)
    by (simp add: scope_wire_def cli_scope_def b_build_def b_track_prefix_def namespace_path_matches)
       (simp add: b_namespace_path_def)
qed

lemma cli_carried:
  assumes "role_builder role = Inr b" "in_i64 e" "payload_fits E default_limits (cli_token o1 e b ns)"
    and "length (op_issuer o1) \<le> 8192" "length (op_audience o1) \<le> 8192" "length (op_subject o1) \<le> 8192"
    and "length (path_segments (bytes_of ns)) \<le> 100"
  shows "carried E default_limits (cli_token o1 e b ns)"
proof -
  have "scope_wire default_limits (cli_scope b ns)"
    using assms(7) by (intro cli_scope_wire[OF assms(1)]) (simp add: default_limits_def)
  moreover have "scope_wire default_limits setup_scope"
    by (simp add: scope_wire_def setup_scope_def builder_defs)
  ultimately show ?thesis
    using assms unfolding cli_plain by (intro plain_carried) (simp_all add: plain_simps moqt_wire_def)
qed

text \<open>C39: what \<open>cat-cli moqt-token\<close> hands out. With options it can parse, a key it can load and a role it
  knows, it prints the token it has signed; a decoder with that key reads back that token, which
  grants \<open>ClientSetup\<close>, and the actions of the role on every track whose namespace begins with the
  non-empty segments of the path, and nothing else. As the subject is always set and the token is
  not encrypted, a validator refuses it unless it allows unencrypted privacy claims.\<close>

theorem cli_token_grants:
  assumes laws: "codec_laws E" "key_laws K"
    and inputs: "parse_options opts cli_defaults = Inr o1" "load_signing_key K V path = Inr key"
      "role_builder role = Inr b" "cl_after V (op_expires o1) = Some e"
    and t: "t = cli_token o1 e b ns" and signed: "es256_encode_token E K key t = Inr bs" "length bs \<le> max_token_size"
    and size: "in_i64 e" "payload_fits E default_limits t" "length (op_issuer o1) \<le> 8192"
      "length (op_audience o1) \<le> 8192" "length (op_subject o1) \<le> 8192" "length (path_segments (bytes_of ns)) \<le> 100"
  shows "cli_main E G K V (prog # ''moqt-token'' # path # role # ns # opts) = Inr (TokenText (ce_b64 E bs)) \<and>
     decode_base64 E G padded (es256_decoder K key) (ce_b64 E bs) = Inr (es256_verified t bs) \<and>
     (match_scope_index t c \<noteq> None \<longleftrightarrow> rc_action c = ClientSetup \<or>
        rc_action c \<in> (if role = ''publisher'' then {PublishNamespace, Publish} else {SubscribeNamespace, Subscribe, Fetch}) \<and>
        prefix (path_segments (bytes_of ns)) (rc_namespace c)) \<and>
     (v_allow_unencrypted v \<or> \<not> is_ok (validate_token v now (es256_verified t bs)))"
proof (intro conjI)
  show "cli_main E G K V (prog # ''moqt-token'' # path # role # ns # opts) = Inr (TokenText (ce_b64 E bs))"
    using inputs signed(1) by (simp add: cli_main_def generate_moqt_token_def with_expires_in_def or_panic_def
        encode_token_base64_def es256_encode_token_def t cat_cli_def)
  obtain sk where "key = es256_from_key_pair sk (ke_p256_public K sk)"
    using inputs(2) by (auto simp: load_signing_key_def split: sum.splits)
  then have "es256_new_with_key_pair K sk = Inr key" by (simp add: es256_constructors)
  moreover have "carried E default_limits t" using size unfolding t by (intro cli_carried[OF inputs(3)])
  ultimately have "decoder_decode E G (es256_decoder K key) bs = Inr (es256_verified t bs)"
    using signed by (intro es256_token_reads[OF laws])
  then show "decode_base64 E G padded (es256_decoder K key) (ce_b64 E bs) = Inr (es256_verified t bs)"
    using laws(1) by (simp add: decode_base64_def codec_laws_def)
  show "match_scope_index t c \<noteq> None \<longleftrightarrow> rc_action c = ClientSetup \<or>
        rc_action c \<in> (if role = ''publisher'' then {PublishNamespace, Publish} else {SubscribeNamespace, Subscribe, Fetch}) \<and>
        prefix (path_segments (bytes_of ns)) (rc_namespace c)"
    using inputs(3) unfolding t cli_plain
    by (auto simp: match_scope_index_def plain_token_def scope_matches_grants setup_scope_grants
        cli_scope_grants[OF inputs(3)] role_builder_ok builder_defs)
  have "\<not> privacy_ok v Signed t" if "\<not> v_allow_unencrypted v"
    using that unfolding t cli_plain by (simp add: privacy_ok_def plain_token_def)
  then show "v_allow_unencrypted v \<or> \<not> is_ok (validate_token v now (es256_verified t bs))"
    by (auto simp: validate_token_def is_ok_iff validate_with_provenance_ok validate_flat_ok)
qed

end
