(* ===== verification/Example_Runs.thy ===== *)
theory Example_Runs
  imports Sample_Runs Async_Example Cat_Cli
begin

text \<open>
  The runs at which the properties of \<open>Relay_Examples\<close>, \<open>Async_Example\<close> and \<open>Cat_Cli\<close> are instantiated:
  their tokens, issued at second 1000 over a table codec, with the keys of \<open>Sample_Runs\<close>. They model
  nothing of the crate.
\<close>

definition example_key :: es256_algorithm where
  "example_key = projr (es256_new_with_key_pair sample_keys [3])"

text \<open>The values the codec is asked for when a token with the given claims is issued, and their bytes.\<close>

definition issue_table :: "bytes \<Rightarrow> (int \<times> cbor) list \<Rightarrow> (cbor \<times> bytes) list" where
  "issue_table p es =
     [(int_entries es, p), (CArray [CText ''Signature1'', CBytes [1], CBytes [], CBytes p], 0 # p),
      (CTag 18 (CArray [CBytes [1], CMap [], CBytes p, CBytes [7]]), 9 # p)]"

definition claims_table :: "bytes \<Rightarrow> (int \<times> cbor) list \<Rightarrow> (int \<times> cbor) list \<Rightarrow> (cbor \<times> bytes) list" where
  "claims_table p es fs = issue_table p ([(1, CText example_issuer)] @ es @ [(3, CArray [CText example_relay])] @ fs)"

definition example_table :: "(cbor \<times> bytes) list" where
  "example_table =
     (int_entries [(1, CInt (-7)), (16, CText ''CAT'')], [1]) #
     claims_table [2] [(2, CText ''broadcaster123'')] [(4, CInt 8200), (6, CInt 1000),
       (327, projr (encode_moqt [publisher_scope example_namespace])), (328, encode_number_shortest (Fin 300))] @
     claims_table [3] [] [(4, CInt (-2600)), (327, projr (encode_moqt [b_build (b_publisher builder_new)]))]"

text \<open>A reader that also knows the bytes the example calls invalid.\<close>

definition example_codec :: codec_env where
  "example_codec = (table_codec example_table)\<lparr>ce_read := (\<lambda>b.
     if b = bytes_of ''invalid-cose-bytes'' then Inr (CText ''nvalid-co'', 10) else ce_read (table_codec example_table) b)\<rparr>"

lemma example_codec_laws: "codec_laws example_codec"
proof -
  have "codec_laws (table_codec example_table)" by (rule table_codec_laws) code_simp
  moreover have "bytes_of ''invalid-cose-bytes'' \<notin> snd ` set example_table" by code_simp
  then have "ce_write (table_codec example_table) v \<noteq> Inr (bytes_of ''invalid-cose-bytes'')" for v
    by (auto simp: table_codec_def table_write_def ok_or_eq_Inr dest!: map_of_SomeD) force
  ultimately show ?thesis by (auto simp: codec_laws_def example_codec_def)
qed

lemma example_tokens:
  "encode_payload_token example_codec (test_claims 1000) = Some (Inr [2])"
  "encode_payload_token example_codec (expired_claims 1000) = Some (Inr [3])"
  "create_test_token example_codec sample_keys 1000 example_key = Inr [9, 2]"
  "create_expired_token example_codec sample_keys 1000 example_key = Inr [9, 3]"
  by code_simp+

theorem relay_scenarios_witness:
  "relay_main example_codec toy_gcm sample_keys 1500 sample_env (strict_ops length 1000) example_key
     [9, 2] [9, 3] (strict_new 300 10) =
   [Inr granted_300, Inl (MoqtActionNotAuthorized ''no MOQT scope matches action''),
    Inl (MoqtActionNotAuthorized ''no MOQT scope matches action''),
    Inl (InvalidCbor ''trailing bytes after CBOR item''), Inl TokenExpired]"
proof -
  have key: "es256_new_with_key_pair sample_keys [3] = Inr example_key"
    by (simp add: example_key_def es256_new_with_key_pair_def)
  have junk: "ce_read example_codec (bytes_of ''invalid-cose-bytes'') = Inr (CText ''nvalid-co'', 10)"
    by (simp add: example_codec_def)
  show ?thesis
    by (rule relay_scenarios[OF example_codec_laws sample_key_laws key example_tokens(3) _ _ _ _ _
        example_tokens(4) _ _ _ _ _ junk])
       (simp_all add: payload_fits_def example_tokens max_token_size_def default_limits_def in_i64_def i64_min_def i64_max_def)
qed

section \<open>The asynchronous relay\<close>

definition holder_jwk :: jwk where
  "holder_jwk = \<lparr>jwk_kty = ''EC'', jwk_crv = Some ''P-256'',
     jwk_x = Some ''0101010101010101010101010101010101010101010101010101010101010101'',
     jwk_y = Some ''0202020202020202020202020202020202020202020202020202020202020202'', jwk_n = None, jwk_e = None\<rparr>"

text \<open>Every hash is \<open>[5]\<close>.\<close>

definition hashed_keys :: key_env where
  "hashed_keys = sample_keys\<lparr>ke_verify := (ke_verify sample_keys)\<lparr>cr_sha256 := (\<lambda>_. [5])\<rparr>\<rparr>"

lemma hashed_key_laws: "key_laws hashed_keys"
  using sample_key_laws by (simp add: hashed_keys_def key_laws_def)

definition holder_table :: "(cbor \<times> bytes) list" where
  "holder_table =
     (int_entries [(1, CInt (-7)), (16, CText ''CAT'')], [1]) #
     claims_table [2] [(2, CText ''broadcaster123'')] [(4, CInt 8200), (6, CInt 1000),
       (8, int_entries [(323, CBytes [5])]),
       (327, projr (encode_moqt [publisher_scope example_namespace])), (328, encode_number_shortest (Fin 300))]"

definition clock_at :: "int \<Rightarrow> auth_env" where
  "clock_at n = sample_env\<lparr>ae_crypto := ke_verify hashed_keys, ae_now := n\<rparr>"

lemma holder_runs:
  "from_es256_verifying_key hex_text sample_point = Inr holder_jwk"
  "thumbprint (\<lambda>b. [5]) holder_jwk = Inr [5]"
  "encode_payload_token (table_codec holder_table) (dpop_claims_of 1000 [5]) = Some (Inr [2])"
  "create_dpop_token (table_codec holder_table) hashed_keys 1000 example_key [5] = Inr [9, 2]"
  "is_ok (build_dpop_proof hashed_keys 1500 ''one'' example_key holder_jwk [9, 2])"
  "is_ok (build_dpop_proof hashed_keys 1501 ''replay-me'' example_key holder_jwk [9, 2])"
  by code_simp+

lemma holder_of_run: "holder_of hashed_keys example_key holder_jwk [5]"
proof -
  have "es256_new_with_key_pair hashed_keys [3] = Inr example_key" "es_verifying example_key = sample_point"
    by (simp_all add: example_key_def es256_new_with_key_pair_def hashed_keys_def sample_keys_def)
  moreover have "ce_b64 (ke_verify hashed_keys) = hex_text" "ce_b64d (ke_verify hashed_keys) = hex_read"
    "cr_sha256 (ke_verify hashed_keys) = (\<lambda>_. [5])"
    by (simp_all add: hashed_keys_def sample_keys_def sample_crypto_def)
  ultimately show ?thesis
    using hashed_key_laws by (auto simp: holder_of_def hex_codec holder_runs(1,2))
qed

theorem async_scenarios_witness:
  "async_main (table_codec holder_table) toy_gcm hashed_keys (1500, 1500, clock_at 1500) ''one''
     (1501, 1501, clock_at 1501, clock_at 1502) example_key example_key holder_jwk [9, 2] =
   [Inr granted_300, Inl ReplayAttackDetected]"
proof -
  have laws: "codec_laws (table_codec holder_table)" by (rule table_codec_laws) code_simp
  have key: "es256_new_with_key_pair hashed_keys [3] = Inr example_key"
    by (simp add: example_key_def es256_new_with_key_pair_def hashed_keys_def)
  obtain pf pf' where "build_dpop_proof hashed_keys 1500 ''one'' example_key holder_jwk [9, 2] = Inr pf"
    "build_dpop_proof hashed_keys 1501 ''replay-me'' example_key holder_jwk [9, 2] = Inr pf'"
    using holder_runs(5,6) by (auto simp: is_ok_iff)
  then show ?thesis
    by (intro async_scenarios[OF laws key holder_of_run _ holder_runs(4)])
       (simp_all add: holder_runs payload_fits_def max_token_size_def default_limits_def
         in_i64_def i64_min_def i64_max_def clock_at_def sample_env_def)
qed

section \<open>The administrator\<close>

definition admin_table :: "(cbor \<times> bytes) list" where
  "admin_table =
     (int_entries [(1, CInt (-7)), (16, CText ''CAT'')], [1]) #
     claims_table [2] [(2, CText ''root'')] [(4, CInt 2800), (6, CInt 1000), (7, CBytes (bytes_of ''admin-root-1000'')),
       (8, int_entries [(323, CBytes [5])]), (321, int_entries [(0, CInt 60), (1, CInt 1)]),
       (327, projr (encode_moqt [admin_scope])), (328, encode_number_shortest (Fin 60))]"

theorem admin_token_refused_witness:
  "issue_admin_token (table_codec admin_table) hashed_keys 1000 example_key ''root'' holder_jwk = Inr [9, 2] \<and>
   \<not> is_ok (decoder_decode (table_codec admin_table) toy_gcm
     (decoder_with_algorithm (algorithm.truncate (es256_object hashed_keys example_key))) [9, 2])"
proof -
  have laws: "codec_laws (table_codec admin_table)" by (rule table_codec_laws) code_simp
  have bounded: "reader_bounded (table_codec admin_table)" by (rule table_reader_bounded) code_simp
  have e: "issue_admin_token (table_codec admin_table) hashed_keys 1000 example_key ''root'' holder_jwk = Inr [9, 2]"
    by code_simp
  show ?thesis using e admin_token_refused[OF laws bounded e]
    by (simp add: max_token_size_def decoder_with_algorithm_def)
qed

section \<open>The command line\<close>

definition cli_run_env :: cli_env where
  "cli_run_env = \<lparr>cl_read = (\<lambda>_. Inr ''pem''), cl_sec1_pem = (\<lambda>_. Inr [3]), cl_after = (\<lambda>n. Some (1000 + n)),
     cl_now = 1000, cl_uuid = [], cl_fill = (\<lambda>_. None), cl_scalar = [3], cl_rsa = (\<lambda>_. Inl []), cl_salts = ([], [])\<rparr>"

definition cli_run_options :: cli_options where
  "cli_run_options = cli_defaults\<lparr>op_issuer := ''me'', op_expires := 60\<rparr>"

definition cli_run_token :: cat_token where
  "cli_run_token = cli_token cli_run_options 1060 (b_publisher builder_new) ''a/b''"

definition cli_table :: "(cbor \<times> bytes) list" where
  "cli_table = (int_entries [(1, CInt (-7)), (16, CText ''CAT'')], [1]) #
     issue_table [2] [(1, CText ''me''), (2, CText ''user''), (3, CArray [CText ''moq-relay'']), (4, CInt 1060),
       (327, projr (encode_moqt [cli_scope (b_publisher builder_new) ''a/b'', setup_scope]))]"

lemma cli_runs:
  "parse_options [''--issuer'', ''me'', ''--expires'', ''+60''] cli_defaults = Inr cli_run_options"
  "encode_payload_token (table_codec cli_table) cli_run_token = Some (Inr [2])"
  "es256_encode_token (table_codec cli_table) sample_keys example_key cli_run_token = Inr [9, 2]"
  "path_segments (bytes_of ''a/b'') = [[97], [98]]"
  "load_signing_key sample_keys cli_run_env ''key.pem'' = Inr example_key"
  by code_simp+

lemma cli_table_laws: "codec_laws (table_codec cli_table)"
  by (rule table_codec_laws) code_simp

theorem cli_token_grants_witness:
  "cli_main (table_codec cli_table) toy_gcm sample_keys cli_run_env
     [''cat-cli'', ''moqt-token'', ''key.pem'', ''publisher'', ''a/b'', ''--issuer'', ''me'', ''--expires'', ''+60''] =
     Inr (TokenText (ce_b64 (table_codec cli_table) [9, 2])) \<and>
   match_scope_index cli_run_token (context_new ''moq-relay'' Publish [[97], [98], [99]] [5]) \<noteq> None \<and>
   match_scope_index cli_run_token (context_new ''moq-relay'' Publish [[97], [99]] [5]) = None \<and>
   \<not> is_ok (validate_token (for_expected_issuers [''me'']) 1000 (es256_verified cli_run_token [9, 2]))"
proof -
  have inputs: "role_builder ''publisher'' = Inr (b_publisher builder_new)"
    "cl_after cli_run_env (op_expires cli_run_options) = Some 1060"
    "length (op_issuer cli_run_options) \<le> 8192 \<and> length (op_audience cli_run_options) \<le> 8192 \<and>
      length (op_subject cli_run_options) \<le> 8192"
    by (simp_all add: role_builder_def cli_run_env_def cli_run_options_def cli_defaults_def)
  have segments: "length (path_segments (bytes_of ''a/b'')) \<le> 100" by (simp add: cli_runs(4))
  have fits: "payload_fits (table_codec cli_table) default_limits cli_run_token" "length [9, 2 :: byte] \<le> max_token_size"
    "in_i64 1060"
    by (simp_all add: payload_fits_def cli_runs(2) default_limits_def max_token_size_def in_i64_def i64_min_def i64_max_def)
  note grants = cli_token_grants[OF cli_table_laws sample_key_laws cli_runs(1,5) inputs(1,2) cli_run_token_def
      cli_runs(3) fits(2,3,1) conjunct1[OF inputs(3)] conjunct1[OF conjunct2[OF inputs(3)]]
      conjunct2[OF conjunct2[OF inputs(3)]] segments, where G = toy_gcm and prog = "''cat-cli''" and now = 1000
      and v = "for_expected_issuers [''me'']"]
  show ?thesis
    using grants[of undefined "context_new ''moq-relay'' Publish [[97], [98], [99]] [5]"]
      grants[of undefined "context_new ''moq-relay'' Publish [[97], [99]] [5]"]
    by (simp add: context_new_def for_expected_issuers_def cli_runs(4) del: not_None_eq)
qed

end
