(* ===== verification/Spec2Isabelle.thy ===== *)
theory Spec2Isabelle
  imports Sample_Runs Trie_Qp Por_Block_List Jti_Contract Structured_Header X509_Pin Regex_Cache Ip_Text Moqt_Roles
    Cwt_Order Cwt_Unverified Example_Runs
begin

text \<open>
  A model of \<open>cat-token\<close>, the Rust crate that encodes, signs, encrypts, decodes and enforces Common
  Access Tokens (CTA-5007-B) for relays of Media over QUIC. Paths are relative to the repository; the
  crate is \<open>src/src/\<close>.

  \<^bold>\<open>The program.\<close> An issuer builds a token from claims (\<open>claims.rs\<close>), writes it as a CBOR map
  (\<open>cwt.rs\<close>) and wraps it in a COSE envelope, signed or MACed (\<open>token.rs\<close>, \<open>crypto.rs\<close>) or encrypted
  (\<open>encrypt.rs\<close>). A relay admits the bytes, resolves a key, verifies or decrypts and decodes
  (\<open>pipeline.rs\<close>, \<open>key_resolver.rs\<close>, \<open>token.rs\<close>, \<open>cwt.rs\<close>), validates the claims (\<open>token.rs\<close>), and
  authorizes each MOQT request (\<open>moqt.rs\<close>, \<open>async.rs\<close>). Authorization matches the scopes, enforces
  the claims that restrict a request (\<open>token.rs\<close>, \<open>uri.rs\<close>, \<open>trie.rs\<close>), checks a proof of possession
  (\<open>dpop.rs\<close>, \<open>jwk.rs\<close>), and commits the proof and the token to the replay stores (\<open>dpop.rs\<close>). Every
  failure is a \<open>CatError\<close> (\<open>error.rs\<close>). \<open>response.rs\<close> derives what the relay may cache of the answer.

  \<^bold>\<open>How Rust becomes HOL.\<close> A struct is a record or a one-constructor datatype, an enum a datatype,
  \<open>Result<T, CatError>\<close> the sum \<open>'a result\<close>, and \<open>?\<close> the bind \<open>rbind\<close>. A \<open>String\<close> is the list of its
  UTF-8 bytes, a byte vector a list of 8-bit words, \<open>u32\<close> and \<open>u8\<close> are words, and an \<open>i64\<close> is an \<open>int\<close> with
  the range, the saturation or the wrap written out where the code meets it. A double is \<open>f64\<close>, a
  rational or one of the special values. State (stores, caches, guards) is passed and returned; where
  threads or tasks interleave, the steps between two locks or two awaits are a step relation. The
  clock, a random draw and a nonce are arguments: one value for each reading of the code, but that the
  tokens nested in a composite claim are validated at the time of the outer one (\<open>Token_Validator\<close>).

  \<^bold>\<open>The theories\<close>, each importing those before it that it calls:
  \<^item> \<open>Cat_Prelude\<close>, \<open>Utf8\<close>, \<open>Cat_Error\<close> (\<open>error.rs\<close>): the result monad, ASCII and splitting lemmas; the
    characters of a UTF-8 text; the error type, its categories, and the escaping of what reaches a log.
  \<^item> \<open>Claims\<close>, \<open>Cat_Token\<close>, \<open>Composite\<close>, \<open>Formats\<close>, \<open>Net_Id\<close>, \<open>Ip_Text\<close>, \<open>Moqt_Scope\<close>, \<open>Moqt_Roles\<close>
    (\<open>claims.rs\<close>, scopes also \<open>moqt.rs\<close>): the claim records with their builders, the token with its
    setters, composite claims with depth and evaluation, ISO 3166 and POSIX ERE checks, network
    identifiers and the texts they are read from, MOQT actions (an ordered enumeration), matches and
    scopes, and what the role presets grant.
  \<^item> \<open>Cbor_Value\<close>, \<open>Cwt_Value\<close>, \<open>Cwt_Limits\<close>, \<open>Cwt_Encode\<close>, \<open>Cwt_Decode\<close> (\<open>cwt.rs\<close>): CBOR values and the
    order check, the value codecs, the limits with their counters, one encoder and one decoder per
    claim. \<open>Cwt_Fits\<close>, \<open>Cwt_Roundtrip\<close>, \<open>Cwt_Payload\<close>, \<open>Cwt_Codec\<close>, \<open>Cwt_Wire\<close> prove the round trip,
    claim by claim, then for the map, then for tokens nested in composite claims. \<open>Cwt_Peek\<close> is
    \<open>peek_issuer\<close>, the byte walker that runs before verification, and \<open>Cwt_Unverified\<close> compares it
    with the decoder; \<open>Cwt_Order\<close> compares the order check with RFC 8949.
  \<^item> \<open>Pipeline\<close> (\<open>pipeline.rs\<close>, \<open>key_resolver.rs\<close>, the COSE part of \<open>token.rs\<close> and \<open>cwt.rs\<close>): admission,
    resolvers, envelope, decoder and encoder. \<open>Encrypt\<close> (\<open>encrypt.rs\<close>, \<open>token.rs\<close>) adds COSE_Encrypt0 and
    instantiates the pipeline with the claim codec of the crate.
  \<^item> \<open>Token_Validator\<close> (\<open>CatTokenValidator\<close>), \<open>Token_Rules\<close> (the enforcement functions), \<open>Regex_Cache\<close>
    (their cache of compiled patterns), \<open>Por_Block_List\<close> (\<open>CatPorBlockList\<close>): the rest of \<open>token.rs\<close>.
  \<^item> \<open>Uri\<close>, \<open>Uri_Lemmas\<close> (\<open>uri.rs\<close>), \<open>Trie\<close>, \<open>Uri_Matcher\<close> (\<open>trie.rs\<close>), \<open>Trie_Qp\<close> (\<open>trie_qp.rs\<close>): the URI
    parser, and the tries and matchers of both feature sets.
  \<^item> \<open>Jwk\<close> (\<open>jwk.rs\<close>), \<open>Moq_Codec\<close>, \<open>Dpop\<close>, \<open>Dpop_Cwt\<close>, \<open>Dpop_Jwt\<close>, \<open>Dpop_Validator\<close> (\<open>dpop.rs\<close>, with the
    checks of \<open>crypto.rs\<close> around its primitives): proofs of possession, both wire forms, the validator.
    \<open>Crypto\<close> has the algorithm objects of \<open>crypto.rs\<close> with their constructors, and what an issuer and a
    holder sign with them.
  \<^item> \<open>Jti_Store\<close>, \<open>Jti_Race\<close>, \<open>Lru_Store\<close> (\<open>dpop.rs\<close>), \<open>Jti_Contract\<close> (\<open>jti_contract.rs\<close>): the replay
    stores, one caller at a time and raced, and the checks for stores of third parties.
  \<^item> \<open>Moqt_Auth\<close>, \<open>Moqt_Authorize\<close> (\<open>moqt.rs\<close>), \<open>Async_Auth\<close> (\<open>async.rs\<close>), \<open>Response\<close> (\<open>response.rs\<close>),
    \<open>Structured_Header\<close> (\<open>structured_header.rs\<close>), \<open>X509_Pin\<close> (\<open>x509.rs\<close>): authorization and its
    surroundings.
  \<^item> \<open>Relay_Examples\<close> (\<open>server_token_issuer.rs\<close>, \<open>relay_validator.rs\<close>) and \<open>Async_Example\<close>
    (\<open>async_relay_validator.rs\<close>): the deployments of \<open>src/examples/\<close>, which compose all of these from the
    builders of the issuer to the grant of the relay. \<open>Cat_Cli\<close> is the command line tool \<open>bin/main.rs\<close>.
  \<^item> \<open>Sample_Deployment\<close>, \<open>Sample_Runs\<close>, \<open>Example_Runs\<close>, \<open>Witnesses\<close>: a small deployment and the runs at which the
    properties are instantiated. They model nothing of the crate.

  \<^bold>\<open>Interfaces\<close> are locales, each interpreted on the definitions of the model: \<open>jti_store\<close> (a store accepts
  a key once while it holds it) on the strict stores of both paths, \<open>checked_store\<close> on every store of
  the crate, \<open>replay_guard\<close>, \<open>key_resolver\<close>, \<open>text_codec\<close>, \<open>signing_key\<close> (an object verifies what it
  signs), \<open>affix_index\<close> and \<open>removable_index\<close> (a trie is
  the set of its patterns) on all four tries. \<open>lru_cache\<close>, with \<open>pattern_cache\<close> and \<open>por_cache\<close> on top of it,
  and \<open>qp_map\<close> state what the crates \<open>lru\<close> and \<open>qp-trie\<close> document, and lists provide them.

  \<^bold>\<open>What is shown.\<close> This theory holds what spans the components: a granted request was granted by a
  signed scope with every restriction satisfied, the holder proved possession, no proof and no
  prohibited token is used twice in a run (\<open>Async_Auth\<close> has this for interleaved tasks), and all this
  goes back to the bytes on the wire that were signed. In the other direction, honest tokens and
  proofs are accepted (\<open>Crypto\<close>), and the example deployments end as they announce
  (\<open>Relay_Examples\<close>, \<open>Async_Example\<close>). Each theory opens with what its lemmas show: which claims come from verified or authentic bytes,
  what the validator accepts, that codecs are inverse on what they carry and limits are kept,
  that optimised routines (issuer peek, tries, prefix match) equal their specifications, that the order
  check is that of the encoded keys (\<open>Cwt_Order\<close>), that the tries over characters and over bytes agree
  on texts (\<open>Trie_Qp\<close>), that
  stores keep their contract and where a race breaks their bound. Some lemmas show a
  behaviour that the documentation of the code does not intend, and say so: the proof of a setup
  in its CWT form (here), negative claim labels and composite operators (\<open>Cwt_Wire\<close>), the issuer peek
  (\<open>Cwt_Unverified\<close>), ranges with host bits (\<open>Ip_Text\<close>), the key ring (\<open>Pipeline\<close>), the administrator
  token of the examples (\<open>Relay_Examples\<close>), the tokens of the command line (\<open>Cat_Cli\<close>), deep negation
  (\<open>Composite\<close>), percent-encoded dots (\<open>Uri_Lemmas\<close>) and the raced cap (\<open>Jti_Race\<close>).

  \<^bold>\<open>Bounds and fuel.\<close> The composite decoder recurses through bytes and takes fuel; the CBOR reader refuses
  values nested deeper than its recursion limit of 32, so 33 is enough for any bytes
  (\<open>Cwt_Decode\<close>). The peek walks nested items; one unit of fuel for every byte of the payload
  and one more are enough, and more fuel gives the same answer (\<open>Cwt_Peek\<close>). Every other
  recursion is structural or proved to end. The constants of the code (depths, sizes, shards,
  windows) keep their values.

  \<^bold>\<open>Parameters\<close>, code that is not in the repository: the CBOR reader and writer of \<open>ciborium\<close> (fields
  \<open>ce_read\<close>, \<open>ce_write\<close>, with \<open>codec_laws\<close> that reading inverts writing (of the tags 2 and 3, bignums, too,
  which \<open>ciborium\<close> reads as integers where they fit) and \<open>reader_bounded\<close> that the recursion limit holds), \<open>serde_json\<close> and \<open>base64\<close>, SHA-256, the signature and MAC primitives (\<open>key_laws\<close>:
  what a key signs its public key verifies), AES-GCM
  (\<open>gcm_laws\<close>: opening inverts sealing, and a ciphertext is its plaintext and a tag), the regex engine, the great-circle
  distance, the keyed hashes that select a shard, the \<open>lru\<close> and \<open>qp-trie\<close> crates, the \<open>sfv\<close> parser, the DER
  library and the path validator of \<open>x509.rs\<close>. A property that needs one of these laws has it as a
  hypothesis, and a witness with a concrete instance.

  \<^bold>\<open>Not modelled:\<close> the floating-point trigonometry of
  \<open>haversine_metres\<close>; the binary \<open>generate_test_vectors.rs\<close> and the examples
  \<open>quickstart.rs\<close> and \<open>generic_cat.rs\<close>, which print what the calls modelled here return; the re-exports of \<open>lib.rs\<close> and
  \<open>prelude.rs\<close>; unit tests; poisoned locks, the executor of the asynchronous path, and the clearing of
  secrets from memory.
\<close>

section \<open>Authorization\<close>

text \<open>What a granted request rests on: the scope that granted it, the claims that restrict it, and the
  proof a bound token calls for.\<close>

lemma authorized_scope:
  assumes "snd (authorize A ops v tok c s) = Inr r"
  shows "match_scope_index (validated_claims tok) c = Some (au_scope_index r)"
    and "claims_satisfied A v (validated_claims tok) c \<and> catpor (t_cat (validated_claims tok)) = None \<and>
      obligation_of (validated_claims tok) = None"
  using assms unfolding authorize_ok authorize_precommit_iff
  by (auto simp: rejection_satisfied_def finalize_scope)

lemma authorized_proof:
  assumes "snd (authorize A ops v tok c s) = Inr r" "cnf (t_dpop (validated_claims tok)) = Some cn"
  shows "\<exists>pf dv. proof_accepted A v tok c cn pf dv"
  using assms unfolding authorize_ok authorize_precommit_iff by (auto simp: proof_satisfied_def)

text \<open>C1: authorization grants only what the signed scopes grant. A request \<open>authorize\<close> lets through
  names a scope of the token that grants its action, namespace and track, and no earlier scope of
  the token does; every claim of the token that restricts the request (revalidation policy,
  version, audience, ALPN, URI, method, headers, network, location) is satisfied; no rejection
  probability and no replay obligation is left undecided.\<close>

theorem authorize_grants:
  assumes "snd (authorize A ops v tok c s) = Inr r"
  shows "\<exists>ss. mq_moqt (t_moqt (validated_claims tok)) = Some ss \<and> au_scope_index r < length ss \<and>
     scope_grants (ss ! au_scope_index r) (rc_action c) (rc_namespace c) (rc_track c) \<and>
     (\<forall>j < au_scope_index r. \<not> scope_grants (ss ! j) (rc_action c) (rc_namespace c) (rc_track c)) \<and>
     claims_satisfied A v (validated_claims tok) c \<and> catpor (t_cat (validated_claims tok)) = None \<and>
     obligation_of (validated_claims tok) = None"
  using authorized_scope[OF assms] unfolding match_scope_grants by blast

theorem authorize_grants_witness:
  "\<exists>ss. mq_moqt (t_moqt sample_claims) = Some ss \<and> scope_grants (ss ! 0) Subscribe [[97]] [98]"
  using authorize_grants[OF sample_authorized]
  by (auto simp: sample_token_def sample_context_def with_dpop_proof_def context_new_def allowed_def)

text \<open>C2: \<open>authorize_precommit\<close> fails closed and is complete: it succeeds exactly when every claim of
  the token is satisfied, the rejection draw and the block list let it pass, the replay mode has a
  guard and a \<open>cti\<close>, some scope grants the request, and the proof of possession a \<open>cnf\<close> claim calls
  for has been accepted; the result records the scope, the renewal, the revalidation interval, the
  key to commit and the replay obligation.\<close>

theorem authorize_precommit_accepts:
  "snd (authorize_precommit A v tok c guard blocked) = Inr p \<longleftrightarrow>
     claims_satisfied A v (validated_claims tok) c \<and>
     rejection_satisfied A (validated_claims tok) blocked \<and>
     step_replay (validated_claims tok) guard = Inr (pc_replay p) \<and>
     match_scope_index (validated_claims tok) c = Some (pc_scope_index p) \<and>
     proof_satisfied A v tok c (pc_jti_commit p) \<and>
     pc_renewal p = catr (t_request (validated_claims tok)) \<and>
     pc_revalidation p = mq_reval (t_moqt (validated_claims tok))"
  unfolding authorize_precommit_iff step_replay_ok by auto

text \<open>C3: proof of possession. If the token is bound to a key by \<open>cnf\<close>, a request is authorized only
  with a proof whose key hashes to that binding, whose signature verifies under that key, which
  names this token by its hash, this action, and (but for a setup) this namespace and track, which
  carries a \<open>cti\<close>, and whose age is between minus five seconds and the freshness window.\<close>

theorem authorize_proof_of_possession:
  assumes "snd (authorize A ops v tok c s) = Inr r" "cnf (t_dpop (validated_claims tok)) = Some cn"
    and "mv_dpop v = Some dv" "in_i64 (effective_window (dv_settings dv))"
  shows "\<exists>pf. rc_dpop_proof c = Some pf \<and>
     thumbprint (cr_sha256 (ae_crypto A)) (dh_jwk (dp_header pf)) = Inr (cnf_jkt cn) \<and>
     verify_with_embedded_key (ae_crypto A) pf = Inr () \<and>
     pl_ath (dp_payload pf) = Some (cr_sha256 (ae_crypto A) (validated_serialized tok)) \<and>
     ax_action (pl_actx (dp_payload pf)) = rc_action c \<and>
     (resource_shape (rc_action c) \<noteq> ShapeEndpoint \<longrightarrow>
        ax_tns (pl_actx (dp_payload pf)) = rc_namespace c \<and> ax_tn (pl_actx (dp_payload pf)) = rc_track c) \<and>
     pl_cti (dp_payload pf) \<noteq> None \<and>
     pl_iat (dp_payload pf) - 5 \<le> ae_now A \<and>
     ae_now A \<le> pl_iat (dp_payload pf) + effective_window (dv_settings dv)"
proof -
  obtain pf dv' where "proof_accepted A v tok c cn pf dv'"
    using authorized_proof[OF assms(1,2)] by blast
  then show ?thesis
    using assms(3,4) by (auto simp: proof_accepted_def proof_bound_def jwk_thumbprint_def is_fresh_iff)
qed

theorem authorize_proof_of_possession_witness:
  "\<exists>pf. rc_dpop_proof sample_context = Some pf \<and> ax_action (pl_actx (dp_payload pf)) = Subscribe \<and>
     pl_iat (dp_payload pf) - 5 \<le> 1000"
proof -
  have "cnf (t_dpop (validated_claims sample_token)) = Some \<lparr>cnf_jkt = sample_jkt, cnf_ckt = None\<rparr>"
    by code_simp
  moreover have "mv_dpop sample_validator = Some (dv_with_jti_store catdpop_new)"
    by (simp add: sample_validator_def)
  moreover have "in_i64 (effective_window (dv_settings (dv_with_jti_store catdpop_new)))" by code_simp
  moreover have "rc_action sample_context = Subscribe" "ae_now sample_env = 1000" by code_simp+
  ultimately show ?thesis using authorize_proof_of_possession[OF sample_authorized] by auto
qed

text \<open>C5: single use of proofs. With \<open>require_dpop\<close> and \<open>require_dpop_replay_tracking\<close> on and the
  strict store behind the validator, over any sequence of requests no two authorized ones presented
  the same proof, that is the same issuer, holder key and \<open>cti\<close>.\<close>

theorem tracked_proofs_single_use:
  assumes "mv_require_dpop v" "mv_require_tracking v" "strict_inv hash s"
  shows "distinct (map proof_use (snd (auth_run A (strict_ops hash now) v rs s)))"
  by (rule ss.auth_run_fresh[OF _ assms]) (simp add: strict_ops_def)

theorem tracked_proofs_single_use_witness:
  "distinct (map proof_use (snd (auth_run sample_env (strict_ops length 0) sample_validator
     [\<lparr>ar_now = 1000, ar_token = sample_token, ar_context = sample_context\<rparr>,
      \<lparr>ar_now = 1001, ar_token = sample_token, ar_context = sample_context\<rparr>] (strict_new 300 10))))"
  by (rule tracked_proofs_single_use)
     (simp_all add: sample_validator_def require_dpop_def require_dpop_replay_tracking_def strict_new_def)

text \<open>C6: single use of tokens. When every token presented demands \<open>catreplay = Prohibited\<close>, no two
  authorized requests carry the same \<open>cti\<close>, whatever the proofs and the DPoP store do.\<close>

theorem prohibited_tokens_single_use:
  assumes "\<forall>r \<in> set rs. catreplay (t_cat (validated_claims (ar_token r))) = Some ReplayProhibited"
  shows "distinct (map (the \<circ> request_cti) (snd (guarded_run A ops v mem_check_and_record rs sg)))"
  using assms by (intro mem.guarded_run_fresh) blast

theorem prohibited_tokens_single_use_witness:
  "distinct (map (the \<circ> request_cti) (snd (guarded_run sample_env (strict_ops length 0) sample_validator
     mem_check_and_record
     [\<lparr>ar_now = 1000, ar_token = sample_prohibited, ar_context = sample_context\<rparr>,
      \<lparr>ar_now = 1000, ar_token = sample_prohibited, ar_context = sample_context\<rparr>]
     (strict_new 300 10, []))))"
  by (rule prohibited_tokens_single_use) code_simp

text \<open>The commit is transactional towards the guard. A request that is refused before the commit
  changes neither store, and one whose proof the replay store refuses leaves the token's \<open>cti\<close>
  unspent in the guard.\<close>

lemma refusal_keeps_stores:
  "case snd (authorize_precommit A v tok c True blocked) of
     Inl e \<Rightarrow> snd (authorize_with_replay A ops v tok c guard blocked sg) = (sg, Inl e)
   | Inr p \<Rightarrow>
       (case commit_jti ops v p (fst sg) of
          (s1, Inl e) \<Rightarrow> snd (authorize_with_replay A ops v tok c guard blocked sg) = ((s1, snd sg), Inl e)
        | (s1, Inr _) \<Rightarrow> fst (fst (snd (authorize_with_replay A ops v tok c guard blocked sg))) = s1)"
  by (auto simp: authorize_with_replay_def commit_def split: prod.splits sum.splits)

text \<open>C7: the CWT form cannot carry the proof of a setup. Whatever bytes a client sends, a proof
  decoded from its CWT form has a non-empty namespace tuple, which the shape check of a setup
  refuses, so a token bound to a key never authorizes a setup with it.\<close>

theorem cwt_setup_proof_refused:
  assumes "cwt_decode E bs = Inr pf" "rc_dpop_proof c = Some pf"
    and "cnf (t_dpop (validated_claims tok)) = Some cn" "resource_shape (rc_action c) = ShapeEndpoint"
  shows "\<not> is_ok (snd (authorize A ops v tok c s))"
proof
  assume "is_ok (snd (authorize A ops v tok c s))"
  then obtain r where ok: "snd (authorize A ops v tok c s) = Inr r" by (auto simp: is_ok_iff)
  obtain pf' dv where "proof_accepted A v tok c cn pf' dv"
    using authorized_proof[OF ok assms(3)] by blast
  then have "ax_tns (pl_actx (dp_payload pf)) = []"
    using assms(2,4) by (auto simp: proof_accepted_def shape_allows_def)
  then show False using cwt_decoded_tns[OF assms(1)] by simp
qed

theorem cwt_setup_proof_refused_witness:
  "\<exists>pf. cwt_decode (table_codec setup_table) [3] = Inr pf \<and>
     \<not> is_ok (snd (authorize sample_env (strict_ops length 0) sample_validator sample_token
        (with_dpop_proof pf (context_new ''relay'' ClientSetup [] [])) (strict_new 300 10)))"
proof -
  obtain pf where pf: "cwt_decode (table_codec setup_table) [3] = Inr pf"
    using setup_cwt_decodes by (auto simp: is_ok_iff)
  have "cnf (t_dpop (validated_claims sample_token)) = Some \<lparr>cnf_jkt = sample_jkt, cnf_ckt = None\<rparr>"
    by code_simp
  from cwt_setup_proof_refused[OF pf _ this, where s = "strict_new 300 10"
      and c = "with_dpop_proof pf (context_new ''relay'' ClientSetup [] [])"]
  show ?thesis using pf by (auto simp: with_dpop_proof_def context_new_def)
qed

section \<open>From the wire to the grant\<close>

text \<open>C4: the whole path. When a relay decodes the bytes of a token, validates it and authorizes a
  request with it, then those bytes (or, for an encrypted token, the plaintext that opens under the
  relay's key) are an envelope whose signature the selected algorithm accepted over the received
  header and payload; the claims are decoded from that payload and were within their times, issuer,
  audience and version; one of their scopes grants the request and no claim forbids it; and if they
  name a holder key, the request carries a proof verified under a key of that thumbprint, for the
  hash of the very bytes the client sent.\<close>

theorem granted_from_the_wire:
  assumes "decoder_decode E G d bs = Inr vt" "gcm_laws G"
    and "validate_token cv now vt = Inr tok" "snd (authorize A ops v tok c s) = Inr r"
  shows "\<exists>inner en a t ss. (case de_encryption_key d of None \<Rightarrow> inner = bs | Some k \<Rightarrow> \<exists>ea. opened E G ea bs k inner) \<and>
     parse_cose_envelope E inner = Inr en \<and> select_algorithm peek_issuer d en inner = Inr a \<and>
     signature_checked E a en \<and> decode_payload_with_limits E (de_limits d) (en_payload_cbor en) = Inr t \<and>
     time_ok cv now t \<and> identity_ok cv t \<and> claims_satisfied A v t c \<and>
     mq_moqt (t_moqt t) = Some ss \<and> au_scope_index r < length ss \<and>
     scope_grants (ss ! au_scope_index r) (rc_action c) (rc_namespace c) (rc_track c) \<and>
     (\<forall>cn. cnf (t_dpop t) = Some cn \<longrightarrow>
        (\<exists>pf. rc_dpop_proof c = Some pf \<and> verify_with_embedded_key (ae_crypto A) pf = Inr () \<and>
           thumbprint (cr_sha256 (ae_crypto A)) (dh_jwk (dp_header pf)) = Inr (cnf_jkt cn) \<and>
           pl_ath (dp_payload pf) = Some (cr_sha256 (ae_crypto A) bs)))"
proof -
  obtain inner en a where wire:
    "case de_encryption_key d of None \<Rightarrow> inner = bs | Some k \<Rightarrow> \<exists>ea. opened E G ea bs k inner"
    "parse_cose_envelope E inner = Inr en" "select_algorithm peek_issuer d en inner = Inr a"
    "signature_checked E a en"
    "decode_payload_with_limits E (de_limits d) (en_payload_cbor en) = Inr (vt_token vt)"
    and bs: "vt_serialized vt = bs"
    using decoder_decode_ok[OF assms(1,2)] by blast
  have tok: "validated_claims tok = vt_token vt" "validated_serialized tok = bs"
    and valid: "time_ok cv now (vt_token vt)" "identity_ok cv (vt_token vt)"
    using validate_token_ok[OF assms(3)] bs by auto
  obtain ss where "mq_moqt (t_moqt (vt_token vt)) = Some ss" "au_scope_index r < length ss"
    "scope_grants (ss ! au_scope_index r) (rc_action c) (rc_namespace c) (rc_track c)"
    using authorized_scope(1)[OF assms(4)] unfolding match_scope_grants tok by blast
  moreover have "\<exists>pf. rc_dpop_proof c = Some pf \<and> verify_with_embedded_key (ae_crypto A) pf = Inr () \<and>
      thumbprint (cr_sha256 (ae_crypto A)) (dh_jwk (dp_header pf)) = Inr (cnf_jkt cn) \<and>
      pl_ath (dp_payload pf) = Some (cr_sha256 (ae_crypto A) bs)" if "cnf (t_dpop (vt_token vt)) = Some cn" for cn
    using authorized_proof[OF assms(4), of cn] that tok
    by (auto simp: proof_accepted_def proof_bound_def jwk_thumbprint_def)
  moreover have "claims_satisfied A v (vt_token vt) c" using authorized_scope(2)[OF assms(4)] by (simp add: tok)
  ultimately show ?thesis using wire valid by blast
qed

theorem granted_from_the_wire_witness:
  "\<exists>en t pf. parse_cose_envelope (table_codec wire_table) [1, 2, 3] = Inr en \<and>
     decode_payload_with_limits (table_codec wire_table) (de_limits wire_decoder) (en_payload_cbor en) = Inr t \<and>
     time_ok (for_expected_issuers [''iss'']) 1000 t \<and> rc_dpop_proof sample_context = Some pf"
  using granted_from_the_wire[OF wire_decodes toy_gcm_laws wire_validates sample_authorized]
  by (auto simp: wire_decoder_def sample_context_def with_dpop_proof_def)

end
